(* ===== verification/Prelude.thy ===== *)
theory Prelude
  imports Main "HOL-Library.Word"
begin

text \<open>
  What every component of the development shares: the machine-integer types of the C++ code, byte
  classes and decimal rendering, and a small exception-and-state monad in which the components that
  touch the file system or the databases are written.

  A computation takes the world and returns a \<open>result\<close> with the new world. A C++ exception
  is \<open>Throw\<close>; the state at the throw is kept, as the code's side effects are. \<open>Crashed\<close>
  is a process or power failure: no handler of the program sees it, which \<open>catch\<close> reflects.
  Effects are subject to an \<open>outcome\<close> chosen by the environment: done, refused without effect,
  done but reported as failed (a lost reply), a crash before it, interrupted by a signal, or a
  transfer of fewer bytes than asked.
\<close>

section \<open>Machine integers and bytes\<close>

type_synonym u8 = "8 word"
type_synonym u32 = "32 word"
type_synonym u64 = "64 word"

abbreviation byte :: "char \<Rightarrow> nat" where
  "byte c \<equiv> of_char c"

named_theorems byte_simps \<open>classification of bytes\<close>

definition is_digit :: "char \<Rightarrow> bool" where
  "is_digit c \<longleftrightarrow> 48 \<le> byte c \<and> byte c \<le> 57"

definition is_lower :: "char \<Rightarrow> bool" where
  "is_lower c \<longleftrightarrow> 97 \<le> byte c \<and> byte c \<le> 122"

definition is_upper :: "char \<Rightarrow> bool" where
  "is_upper c \<longleftrightarrow> 65 \<le> byte c \<and> byte c \<le> 90"

definition is_lower_hex :: "char \<Rightarrow> bool" where
  "is_lower_hex c \<longleftrightarrow> is_digit c \<or> (97 \<le> byte c \<and> byte c \<le> 102)"

lemma byte_less_256: "byte c < 256"
  by simp

lemma byte_char_of [simp]: "n < 256 \<Longrightarrow> byte (char_of (n::nat)) = n"
  by (simp add: of_char_of)

lemma char_of_byte [simp]: "char_of (byte c) = c"
  by simp

lemma byte_inject: "byte c = byte d \<longleftrightarrow> c = d"
  by (metis char_of_byte)

lemma char_eq_iff_byte: "c = d \<longleftrightarrow> byte c = byte d"
  by (simp add: byte_inject)

section \<open>Decimal rendering\<close>

text \<open>The digits \<open>std::to_string\<close> prints for an unsigned integer.\<close>

definition digit_char :: "nat \<Rightarrow> char" where
  "digit_char d = char_of (48 + d)"

definition digit_val :: "char \<Rightarrow> nat" where
  "digit_val c = byte c - 48"

fun to_string :: "nat \<Rightarrow> string" where
  "to_string n = (if n < 10 then [digit_char n] else to_string (n div 10) @ [digit_char (n mod 10)])"

declare to_string.simps [simp del]

definition digits_val :: "string \<Rightarrow> nat" where
  "digits_val s = foldl (\<lambda>acc c. acc * 10 + digit_val c) 0 s"

lemma digit_char_simps [simp]:
  "d < 10 \<Longrightarrow> is_digit (digit_char d)"
  "d < 10 \<Longrightarrow> digit_val (digit_char d) = d"
  by (auto simp: digit_char_def digit_val_def is_digit_def)

lemma digit_char_inject [simp]: "d < 10 \<Longrightarrow> e < 10 \<Longrightarrow> digit_char d = digit_char e \<longleftrightarrow> d = e"
  by (metis digit_char_simps(2))

lemma digits_val_Nil [simp]: "digits_val [] = 0"
  by (simp add: digits_val_def)

lemma digits_val_snoc [simp]: "digits_val (s @ [c]) = digits_val s * 10 + digit_val c"
  by (simp add: digits_val_def)

lemma digits_val_to_string [simp]: "digits_val (to_string n) = n"
proof (induction n rule: to_string.induct)
  case (1 n)
  show ?case
  proof (cases "n < 10")
    case True
    then show ?thesis by (simp add: to_string.simps [of n] digits_val_def)
  next
    case False
    with 1 have "digits_val (to_string (n div 10)) = n div 10" by blast
    with False show ?thesis by (simp add: to_string.simps [of n])
  qed
qed

lemma to_string_inject [simp]: "to_string m = to_string n \<longleftrightarrow> m = n"
  by (metis digits_val_to_string)

lemma to_string_nonempty [simp]: "to_string n \<noteq> []"
  by (subst to_string.simps) simp

lemma to_string_digits: "c \<in> set (to_string n) \<Longrightarrow> is_digit c"
proof (induction n rule: to_string.induct)
  case (1 n)
  then show ?case
    by (cases "n < 10") (auto simp: to_string.simps [of n])
qed

section \<open>Exceptions, effects and crashes\<close>

datatype ('e, 'a) result = Ret 'a | Throw 'e | Crashed

type_synonym ('s, 'e, 'a) proc = "'s \<Rightarrow> ('e, 'a) result \<times> 's"

definition ret :: "'a \<Rightarrow> ('s, 'e, 'a) proc" where
  "ret x s = (Ret x, s)"

definition throw :: "'e \<Rightarrow> ('s, 'e, 'a) proc" where
  "throw e s = (Throw e, s)"

definition bind :: "('s, 'e, 'a) proc \<Rightarrow> ('a \<Rightarrow> ('s, 'e, 'b) proc) \<Rightarrow> ('s, 'e, 'b) proc" where
  "bind m f s = (case m s of
      (Ret x, t) \<Rightarrow> f x t
    | (Throw e, t) \<Rightarrow> (Throw e, t)
    | (Crashed, t) \<Rightarrow> (Crashed, t))"

definition seq :: "('s, 'e, 'a) proc \<Rightarrow> ('s, 'e, 'b) proc \<Rightarrow> ('s, 'e, 'b) proc" where
  "seq m n = bind m (\<lambda>_. n)"

text \<open>A handler for C++ exceptions; a crash passes it by.\<close>

definition catch :: "('s, 'e, 'a) proc \<Rightarrow> ('e \<Rightarrow> ('s, 'e, 'a) proc) \<Rightarrow> ('s, 'e, 'a) proc" where
  "catch m h s = (case m s of
      (Ret x, t) \<Rightarrow> (Ret x, t)
    | (Throw e, t) \<Rightarrow> h e t
    | (Crashed, t) \<Rightarrow> (Crashed, t))"

definition crash :: "('s, 'e, 'a) proc" where
  "crash s = (Crashed, s)"

definition gets :: "('s \<Rightarrow> 'a) \<Rightarrow> ('s, 'e, 'a) proc" where
  "gets f s = (Ret (f s), s)"

definition modify :: "('s \<Rightarrow> 's) \<Rightarrow> ('s, 'e, unit) proc" where
  "modify f s = (Ret (), f s)"

definition whenp :: "bool \<Rightarrow> ('s, 'e, unit) proc \<Rightarrow> ('s, 'e, unit) proc" where
  "whenp b m = (if b then m else ret ())"

primrec for_each :: "('x \<Rightarrow> ('s, 'e, unit) proc) \<Rightarrow> 'x list \<Rightarrow> ('s, 'e, unit) proc" where
  "for_each f [] = ret ()"
| "for_each f (x # xs) = seq (f x) (for_each f xs)"

text \<open>What the environment makes of one effectful call.\<close>

datatype outcome = Io_ok | Io_fail | Io_lost | Io_crash | Io_intr | Io_short nat

section \<open>Partial correctness with an exceptional postcondition\<close>

text \<open>
  \<open>hoare P m Q E\<close>: from a world with \<open>P\<close>, a normal return of \<open>x\<close> leaves \<open>Q x\<close>, and an
  exception or a crash leaves \<open>E\<close>. With \<open>E\<close> an invariant this is crash safety at every effect.
\<close>

definition hoare ::
    "('s \<Rightarrow> bool) \<Rightarrow> ('s, 'e, 'a) proc \<Rightarrow> ('a \<Rightarrow> 's \<Rightarrow> bool) \<Rightarrow> ('s \<Rightarrow> bool) \<Rightarrow> bool" where
  "hoare P m Q E \<longleftrightarrow> (\<forall>s. P s \<longrightarrow> (case m s of
      (Ret x, t) \<Rightarrow> Q x t
    | (Throw e, t) \<Rightarrow> E t
    | (Crashed, t) \<Rightarrow> E t))"

abbreviation keeps :: "('s \<Rightarrow> bool) \<Rightarrow> ('s, 'e, 'a) proc \<Rightarrow> bool" where
  "keeps I m \<equiv> hoare I m (\<lambda>_. I) I"

named_theorems wp \<open>rules of the Hoare logic, one per operation\<close>

lemma hoareI:
  assumes "\<And>s x t. P s \<Longrightarrow> m s = (Ret x, t) \<Longrightarrow> Q x t"
    and "\<And>s e t. P s \<Longrightarrow> m s = (Throw e, t) \<Longrightarrow> E t"
    and "\<And>s t. P s \<Longrightarrow> m s = (Crashed, t) \<Longrightarrow> E t"
  shows "hoare P m Q E"
  unfolding hoare_def using assms by (auto split: prod.splits result.splits)

lemma hoareD:
  assumes "hoare P m Q E" and "P s"
  shows "m s = (Ret x, t) \<Longrightarrow> Q x t" "m s = (Throw e, t) \<Longrightarrow> E t" "m s = (Crashed, t) \<Longrightarrow> E t"
  using assms unfolding hoare_def by force+

lemma hoare_conseq:
  assumes "hoare P m Q E" and "\<And>s. P' s \<Longrightarrow> P s"
    and "\<And>x s. Q x s \<Longrightarrow> Q' x s" and "\<And>s. E s \<Longrightarrow> E' s"
  shows "hoare P' m Q' E'"
  using assms by (intro hoareI) (blast dest: hoareD)+

lemma hoare_pre: "hoare P m Q E \<Longrightarrow> (\<And>s. P' s \<Longrightarrow> P s) \<Longrightarrow> hoare P' m Q E"
  by (rule hoare_conseq)

lemma hoare_ret: "(\<And>s. P s \<Longrightarrow> Q x s) \<Longrightarrow> hoare P (ret x) Q E"
  by (auto simp: hoare_def ret_def)

lemma hoare_throw: "(\<And>s. P s \<Longrightarrow> E s) \<Longrightarrow> hoare P (throw e) Q E"
  by (auto simp: hoare_def throw_def)

lemma hoare_crash: "(\<And>s. P s \<Longrightarrow> E s) \<Longrightarrow> hoare P crash Q E"
  by (auto simp: hoare_def crash_def)

lemma hoare_gets: "(\<And>s. P s \<Longrightarrow> Q (f s) s) \<Longrightarrow> hoare P (gets f) Q E"
  by (auto simp: hoare_def gets_def)

lemma hoare_modify: "(\<And>s. P s \<Longrightarrow> Q () (f s)) \<Longrightarrow> hoare P (modify f) Q E"
  by (auto simp: hoare_def modify_def)

lemma hoare_bind:
  assumes "hoare P m R E" and "\<And>x. hoare (R x) (f x) Q E"
  shows "hoare P (bind m f) Q E"
proof (rule hoareI)
  fix s x t assume "P s" "bind m f s = (Ret x, t)"
  then show "Q x t"
    by (auto simp: bind_def split: prod.splits result.splits dest: hoareD [OF assms(1)]
          hoareD [OF assms(2)])
next
  fix s e t assume "P s" "bind m f s = (Throw e, t)"
  then show "E t"
    by (auto simp: bind_def split: prod.splits result.splits dest: hoareD [OF assms(1)]
          hoareD [OF assms(2)])
next
  fix s t assume "P s" "bind m f s = (Crashed, t)"
  then show "E t"
    by (auto simp: bind_def split: prod.splits result.splits dest: hoareD [OF assms(1)]
          hoareD [OF assms(2)])
qed

lemma hoare_seq: "hoare P m (\<lambda>_. R) E \<Longrightarrow> hoare R n Q E \<Longrightarrow> hoare P (seq m n) Q E"
  unfolding seq_def by (rule hoare_bind)

text \<open>The handler runs from what a throw leaves; a crash must leave the outer \<open>E\<close> by itself.\<close>

lemma hoare_catch:
  assumes "hoare P m Q R" and "\<And>e. hoare R (h e) Q E" and "\<And>s. R s \<Longrightarrow> E s"
  shows "hoare P (catch m h) Q E"
proof (rule hoareI)
  fix s x t assume "P s" "catch m h s = (Ret x, t)"
  then show "Q x t"
    by (auto simp: catch_def split: prod.splits result.splits dest: hoareD [OF assms(1)]
          hoareD [OF assms(2)])
next
  fix s e t assume "P s" "catch m h s = (Throw e, t)"
  then show "E t"
    by (auto simp: catch_def split: prod.splits result.splits dest: hoareD [OF assms(1)]
          hoareD [OF assms(2)])
next
  fix s t assume "P s" "catch m h s = (Crashed, t)"
  then show "E t"
    by (auto simp: catch_def split: prod.splits result.splits dest: hoareD [OF assms(1)]
          hoareD [OF assms(2)] assms(3))
qed

lemma hoare_if:
  "(b \<Longrightarrow> hoare P m Q E) \<Longrightarrow> (\<not> b \<Longrightarrow> hoare P n Q E) \<Longrightarrow> hoare P (if b then m else n) Q E"
  by simp

lemma hoare_whenp:
  "(b \<Longrightarrow> hoare P m Q E) \<Longrightarrow> (\<And>s. \<not> b \<Longrightarrow> P s \<Longrightarrow> Q () s) \<Longrightarrow> hoare P (whenp b m) Q E"
  by (auto simp: whenp_def intro: hoare_ret)

lemma hoare_for_each:
  assumes "\<And>x. x \<in> set xs \<Longrightarrow> hoare I (f x) (\<lambda>_. I) I"
  shows "hoare I (for_each f xs) (\<lambda>_. I) I"
  using assms by (induction xs) (auto intro!: hoare_ret hoare_seq)

lemmas hoare_rules = hoare_ret hoare_throw hoare_crash hoare_gets hoare_modify hoare_whenp

text \<open>Unfolding a computation on a given world, for evaluation.\<close>

lemmas exec_simps = ret_def throw_def crash_def bind_def seq_def catch_def gets_def modify_def whenp_def

section \<open>Lists\<close>

lemma take_drop_append: "take n (drop (length xs) (xs @ ys)) = take n ys"
  by simp

lemma nth_append_length_plus: "(xs @ ys) ! (length xs + i) = ys ! i"
  by (simp add: nth_append)

end
