(* ===== verification/Interfaces.thy ===== *)
theory Interfaces
  imports Prelude
begin

text \<open>
  The contracts between components, as locales: what a client may assume of a lookup cache and of a
  binary encoding. The providers' theories interpret them on the model's own functions.
\<close>

section \<open>Lookup caches\<close>

text \<open>
  A cache may forget a binding but never invents one: a lookup returns what the abstraction
  \<open>contents\<close> holds and an insertion of \<open>k \<mapsto> v\<close> leaves at most the old bindings and the new one.
\<close>

locale lookup_cache =
  fixes cget :: "'k \<Rightarrow> 'c \<Rightarrow> 'v option \<times> 'c"
    and cput :: "'k \<Rightarrow> 'v \<Rightarrow> 'c \<Rightarrow> 'c"
    and contents :: "'c \<Rightarrow> 'k \<rightharpoonup> 'v"
    and cinv :: "'c \<Rightarrow> bool"
  assumes get_value: "cinv c \<Longrightarrow> fst (cget k c) = contents c k"
    and get_contents: "cinv c \<Longrightarrow> contents (snd (cget k c)) \<subseteq>\<^sub>m contents c"
    and get_inv: "cinv c \<Longrightarrow> cinv (snd (cget k c))"
    and put_contents: "cinv c \<Longrightarrow> contents (cput k v c) \<subseteq>\<^sub>m (contents c)(k \<mapsto> v)"
    and put_inv: "cinv c \<Longrightarrow> cinv (cput k v c)"
begin

text \<open>A cache whose contents all come from one function \<open>f\<close> may be used in place of \<open>f\<close>.\<close>

definition coherent :: "('k \<rightharpoonup> 'v) \<Rightarrow> 'c \<Rightarrow> bool" where
  "coherent f c \<longleftrightarrow> cinv c \<and> contents c \<subseteq>\<^sub>m f"

lemma coherent_hit: "coherent f c \<Longrightarrow> cget k c = (Some v, c') \<Longrightarrow> f k = Some v"
  unfolding coherent_def map_le_def by (metis domI fst_conv get_value)

lemma coherent_get: "coherent f c \<Longrightarrow> cget k c = (r, c') \<Longrightarrow> coherent f c'"
  unfolding coherent_def by (metis get_contents get_inv map_le_trans snd_conv)

lemma coherent_put:
  assumes "coherent f c" "f k = Some v"
  shows "coherent f (cput k v c)"
proof -
  have "(contents c)(k \<mapsto> v) \<subseteq>\<^sub>m f"
    using assms by (auto simp: coherent_def map_le_def)
  with assms(1) show ?thesis
    unfolding coherent_def using map_le_trans put_contents put_inv by blast
qed

end

section \<open>Readers\<close>

text \<open>
  A reader takes a content and an offset and gives a value and the offset after it, or an error.
  \<open>reads f x b\<close>: on a content that holds the bytes \<open>b\<close> at the offset, \<open>f\<close> gives \<open>x\<close> and moves
  past them. \<open>parsed f R\<close>: whenever \<open>f\<close> succeeds, what it consumed is related to its value by \<open>R\<close>.
\<close>

type_synonym ('e, 'a) reader = "string \<Rightarrow> nat \<Rightarrow> 'e + ('a \<times> nat)"

definition rret :: "'a \<Rightarrow> ('e, 'a) reader" where
  "rret x c n = Inr (x, n)"

definition rfail :: "'e \<Rightarrow> ('e, 'a) reader" where
  "rfail e c n = Inl e"

definition rbind :: "('e, 'a) reader \<Rightarrow> ('a \<Rightarrow> ('e, 'b) reader) \<Rightarrow> ('e, 'b) reader" where
  "rbind f g c n = (case f c n of Inl e \<Rightarrow> Inl e | Inr (x, m) \<Rightarrow> g x c m)"

definition slice :: "string \<Rightarrow> nat \<Rightarrow> nat \<Rightarrow> string" where
  "slice c n m = take (m - n) (drop n c)"

lemma slice_append: "n \<le> k \<Longrightarrow> k \<le> m \<Longrightarrow> slice c n k @ slice c k m = slice c n m"
  using take_add [of "k - n" "m - k" "drop n c"] by (simp add: slice_def)

lemma slice_same [simp]: "slice c n n = []"
  by (simp add: slice_def)

lemma slice_all: "slice c 0 (length c) = c"
  by (simp add: slice_def)

definition reads :: "('e, 'a) reader \<Rightarrow> 'a \<Rightarrow> string \<Rightarrow> bool" where
  "reads f x b \<longleftrightarrow> (\<forall>pre rest. f (pre @ b @ rest) (length pre) = Inr (x, length pre + length b))"

lemma reads_ret: "reads (rret x) x []"
  by (simp add: reads_def rret_def)

lemma reads_ret_eq: "y = x \<Longrightarrow> reads (rret y) x []"
  by (simp add: reads_ret)

lemma reads_bind:
  assumes "reads f x b" "reads (g x) y d"
  shows "reads (rbind f g) y (b @ d)"
  unfolding reads_def
proof (intro allI)
  fix pre rest
  have "g x ((pre @ b) @ d @ rest) (length (pre @ b)) = Inr (y, length (pre @ b) + length d)"
    using assms(2) unfolding reads_def by blast
  moreover have "f (pre @ b @ (d @ rest)) (length pre) = Inr (x, length pre + length b)"
    using assms(1) unfolding reads_def by blast
  ultimately show "rbind f g (pre @ (b @ d) @ rest) (length pre) = Inr (y, length pre + length (b @ d))"
    by (simp add: rbind_def add.assoc)
qed

lemma reads_at_start: "reads f x b \<Longrightarrow> f (b @ rest) 0 = Inr (x, length b)"
  unfolding reads_def by (metis add_0 append_Nil list.size(3))

lemma reads_whole: "reads f x b \<Longrightarrow> f b 0 = Inr (x, length b)"
  using reads_at_start [of f x b "[]"] by simp

definition parsed :: "('e, 'a) reader \<Rightarrow> ('a \<Rightarrow> string \<Rightarrow> bool) \<Rightarrow> bool" where
  "parsed f R \<longleftrightarrow> (\<forall>c n x m. n \<le> length c \<longrightarrow> f c n = Inr (x, m) \<longrightarrow>
     n \<le> m \<and> m \<le> length c \<and> R x (slice c n m))"

lemma parsedD:
  assumes "parsed f R" "f c n = Inr (x, m)" "n \<le> length c"
  shows "n \<le> m" "m \<le> length c" "R x (slice c n m)"
  using assms unfolding parsed_def by blast+

lemma parsed_weaken: "parsed f P \<Longrightarrow> (\<And>x b. P x b \<Longrightarrow> R x b) \<Longrightarrow> parsed f R"
  unfolding parsed_def by blast

lemma parsed_ret: "R x [] \<Longrightarrow> parsed (rret x) R"
  by (simp add: parsed_def rret_def)

lemma parsed_fail: "parsed (rfail e) R"
  by (simp add: parsed_def rfail_def)

lemma parsed_if: "(b \<Longrightarrow> parsed f R) \<Longrightarrow> (\<not> b \<Longrightarrow> parsed g R) \<Longrightarrow> parsed (if b then f else g) R"
  by simp

lemma parsed_bind:
  assumes "parsed f P" "\<And>x b. P x b \<Longrightarrow> parsed (g x) (\<lambda>y d. R y (b @ d))"
  shows "parsed (rbind f g) R"
  unfolding parsed_def
proof (intro allI impI)
  fix c n y m
  assume n: "n \<le> length c" and e: "rbind f g c n = Inr (y, m)"
  then obtain x k where x: "f c n = Inr (x, k)" and g: "g x c k = Inr (y, m)"
    by (auto simp: rbind_def split: sum.splits)
  note p = parsedD [OF assms(1) x n]
  note q = parsedD [OF assms(2) [OF p(3)] g p(2)]
  from q(3) have "R y (slice c n m)" using slice_append [OF p(1) q(1)] by simp
  with p q show "n \<le> m \<and> m \<le> length c \<and> R y (slice c n m)" by simp
qed

section \<open>Binary encodings\<close>

text \<open>
  An encoder of the values a format can carry and the decoder that reads one back at an offset. A
  canonical codec also has the converse: whatever it accepts are the very bytes the encoder writes.
\<close>

locale codec =
  fixes encode :: "'a \<Rightarrow> string"
    and decode :: "('e, 'a) reader"
    and valid :: "'a \<Rightarrow> bool"
  assumes reads_encode: "valid x \<Longrightarrow> reads decode x (encode x)"
begin

lemma reads_then: "valid x \<Longrightarrow> reads (g x) y d \<Longrightarrow> reads (rbind decode g) y (encode x @ d)"
  by (rule reads_bind [OF reads_encode])

text \<open>Two values with the same bytes are equal.\<close>

lemma encode_inject:
  assumes "valid x" "valid y" "encode x = encode y"
  shows "x = y"
proof -
  have "Inr (x, length (encode x)) = decode (encode x) 0"
    by (rule reads_whole [OF reads_encode [OF assms(1)], symmetric])
  also have "\<dots> = decode (encode y) 0" by (simp only: assms(3))
  also have "\<dots> = Inr (y, length (encode y))"
    by (rule reads_whole [OF reads_encode [OF assms(2)]])
  finally show ?thesis by blast
qed

end

locale canonical_codec = codec encode decode valid
  for encode :: "'a \<Rightarrow> string"
    and decode :: "('e, 'a) reader"
    and valid :: "'a \<Rightarrow> bool" +
  assumes parsed_decode: "parsed decode (\<lambda>x b. valid x \<and> b = encode x)"
begin

lemma parsed_then:
  assumes "\<And>x. valid x \<Longrightarrow> parsed (g x) (\<lambda>y d. R y (encode x @ d))"
  shows "parsed (rbind decode g) R"
  by (rule parsed_bind [OF parsed_decode]) (use assms in auto)

text \<open>A reader that must end with the content accepts exactly the encodings.\<close>

lemma whole_iff:
  "(\<exists>m. decode c 0 = Inr (x, m) \<and> m = length c) \<longleftrightarrow> valid x \<and> c = encode x"
proof
  assume "\<exists>m. decode c 0 = Inr (x, m) \<and> m = length c"
  then have "decode c 0 = Inr (x, length c)" by blast
  from parsedD(3) [OF parsed_decode this] show "valid x \<and> c = encode x"
    by (simp add: slice_all)
next
  assume "valid x \<and> c = encode x"
  then show "\<exists>m. decode c 0 = Inr (x, m) \<and> m = length c"
    using reads_whole [OF reads_encode] by blast
qed

end

section \<open>Tables\<close>

text \<open>
  The loop of a table: \<open>step\<close> is its body, at an index, on the state the loop threads. The locale
  relates the state to the entries read so far: \<open>S xs\<close> is the state after the entries \<open>xs\<close>, and
  \<open>ok xs\<close> the condition that they pass the checks of the body.
\<close>

primrec rfor :: "(nat \<Rightarrow> 's \<Rightarrow> ('e, 's) reader) \<Rightarrow> nat list \<Rightarrow> 's \<Rightarrow> ('e, 's) reader" where
  "rfor step [] s = rret s"
| "rfor step (i # is) s = rbind (step i s) (rfor step is)"

locale table_codec =
  fixes step :: "nat \<Rightarrow> 's \<Rightarrow> ('e, 's) reader"
    and enc :: "'a \<Rightarrow> string"
    and S :: "'a list \<Rightarrow> 's"
    and ok :: "'a list \<Rightarrow> bool"
  assumes ok_Nil: "ok []"
    and ok_prefix: "ok (xs @ [x]) \<Longrightarrow> ok xs"
    and reads_step: "ok (xs @ [x]) \<Longrightarrow> reads (step (length xs) (S xs)) (S (xs @ [x])) (enc x)"
    and parsed_step: "ok xs \<Longrightarrow> parsed (step (length xs) (S xs))
          (\<lambda>s b. \<exists>x. ok (xs @ [x]) \<and> s = S (xs @ [x]) \<and> b = enc x)"
begin

lemma ok_append: "ok (xs @ ys) \<Longrightarrow> ok xs"
proof (induction ys rule: rev_induct)
  case (snoc y ys)
  then show ?case using ok_prefix [of "xs @ ys" y] by simp
qed simp

lemma reads_from:
  "ok (xs @ ys) \<Longrightarrow> reads (rfor step [length xs..<length xs + length ys] (S xs)) (S (xs @ ys)) (concat (map enc ys))"
proof (induction ys arbitrary: xs)
  case Nil
  then show ?case by (simp add: reads_ret)
next
  case (Cons y ys)
  have ok: "ok (xs @ [y])" using ok_append [of "xs @ [y]" ys] Cons.prems by simp
  have upt: "[length xs..<length xs + length (y # ys)] =
      length xs # [length (xs @ [y])..<length (xs @ [y]) + length ys]"
    by (simp add: upt_rec)
  have "reads (rfor step [length (xs @ [y])..<length (xs @ [y]) + length ys] (S (xs @ [y])))
      (S (xs @ y # ys)) (concat (map enc ys))"
    using Cons.IH [of "xs @ [y]"] Cons.prems by simp
  then show ?case
    unfolding upt rfor.simps list.map concat.simps by (rule reads_bind [OF reads_step [OF ok]])
qed

lemma parsed_from:
  "ok xs \<Longrightarrow> parsed (rfor step [length xs..<length xs + n] (S xs))
     (\<lambda>s b. \<exists>ys. length ys = n \<and> ok (xs @ ys) \<and> s = S (xs @ ys) \<and> b = concat (map enc ys))"
proof (induction n arbitrary: xs)
  case 0
  then show ?case by (auto intro!: parsed_ret)
next
  case (Suc n)
  have upt: "[length xs..<length xs + Suc n] = length xs # [Suc (length xs)..<Suc (length xs) + n]"
    by (simp add: upt_rec)
  show ?case
    unfolding upt rfor.simps
  proof (rule parsed_bind [OF parsed_step [OF Suc.prems]])
    fix s b assume "\<exists>x. ok (xs @ [x]) \<and> s = S (xs @ [x]) \<and> b = enc x"
    then obtain x where x: "ok (xs @ [x])" "s = S (xs @ [x])" "b = enc x" by blast
    have "parsed (rfor step [length (xs @ [x])..<length (xs @ [x]) + n] (S (xs @ [x])))
      (\<lambda>s b. \<exists>ys. length ys = n \<and> ok ((xs @ [x]) @ ys) \<and> s = S ((xs @ [x]) @ ys) \<and> b = concat (map enc ys))"
      using Suc.IH [OF x(1)] .
    then have "parsed (rfor step [Suc (length xs)..<Suc (length xs) + n] s)
      (\<lambda>s b. \<exists>ys. length ys = n \<and> ok ((xs @ [x]) @ ys) \<and> s = S ((xs @ [x]) @ ys) \<and> b = concat (map enc ys))"
      using x(2) by simp
    then show "parsed (rfor step [Suc (length xs)..<Suc (length xs) + n] s)
      (\<lambda>y d. \<exists>ys. length ys = Suc n \<and> ok (xs @ ys) \<and> y = S (xs @ ys) \<and> b @ d = concat (map enc ys))"
    proof (rule parsed_weaken)
      fix y d assume "\<exists>ys. length ys = n \<and> ok ((xs @ [x]) @ ys) \<and> y = S ((xs @ [x]) @ ys) \<and> d = concat (map enc ys)"
      then obtain ys where "length ys = n" "ok ((xs @ [x]) @ ys)" "y = S ((xs @ [x]) @ ys)"
        "d = concat (map enc ys)" by blast
      then show "\<exists>ys. length ys = Suc n \<and> ok (xs @ ys) \<and> y = S (xs @ ys) \<and> b @ d = concat (map enc ys)"
        using x(3) by (intro exI [of _ "x # ys"]) simp
    qed
  qed
qed

lemma reads_table: "ok xs \<Longrightarrow> length xs = n \<Longrightarrow> reads (rfor step [0..<n] (S [])) (S xs) (concat (map enc xs))"
  using reads_from [of "[]" xs] by simp

lemma parsed_table: "parsed (rfor step [0..<n] (S []))
     (\<lambda>s b. \<exists>xs. length xs = n \<and> ok xs \<and> s = S xs \<and> b = concat (map enc xs))"
  using parsed_from [of "[]" n] ok_Nil by simp

text \<open>
  A whole file: a header, the table, and an end that succeeds exactly on a \<open>good\<close> state at the end of
  the content.
\<close>

lemma table_file_iff:
  fixes hd :: "('e, unit) reader" and fin :: "'s \<Rightarrow> ('e, 'r) reader"
  assumes hd: "reads hd () H" "parsed hd (\<lambda>_ b. b = H)"
    and fin: "\<And>s c m r k. fin s c m = Inr (r, k) \<longleftrightarrow> good s \<and> m = length c \<and> r = out s \<and> k = m"
  shows "map_sum id fst (rbind hd (\<lambda>_. rbind (rfor step [0..<n] (S [])) fin) c 0) = Inr r \<longleftrightarrow>
    (\<exists>xs. length xs = n \<and> ok xs \<and> good (S xs) \<and> r = out (S xs) \<and> c = H @ concat (map enc xs))"
    (is "?L \<longleftrightarrow> ?R")
proof
  assume ?L
  then obtain k where k: "rbind hd (\<lambda>_. rbind (rfor step [0..<n] (S [])) fin) c 0 = Inr (r, k)"
    by (cases "rbind hd (\<lambda>_. rbind (rfor step [0..<n] (S [])) fin) c 0") auto
  then obtain j s m where h: "hd c 0 = Inr ((), j)" and t: "rfor step [0..<n] (S []) c j = Inr (s, m)"
    and f: "fin s c m = Inr (r, k)"
    by (auto simp: rbind_def split: sum.splits)
  note ph = parsedD [OF hd(2) h le0]
  note pt = parsedD [OF parsed_table t ph(2)]
  from pt(3) obtain xs where xs: "length xs = n" "ok xs" "s = S xs" "slice c j m = concat (map enc xs)" by blast
  from f fin have f': "good s" "m = length c" "r = out s" by blast+
  have "slice c 0 j @ slice c j m = c" using slice_append [OF ph(1) pt(1)] f'(2) by (simp add: slice_all)
  with ph(3) xs have "c = H @ concat (map enc xs)" by simp
  with xs f' show ?R by blast
next
  assume ?R
  then obtain xs where xs: "length xs = n" "ok xs" "good (S xs)" "r = out (S xs)" "c = H @ concat (map enc xs)"
    by blast
  have "reads (rbind hd (\<lambda>_. rfor step [0..<n] (S []))) (S xs) (H @ concat (map enc xs))"
    by (rule reads_bind [OF hd(1) reads_table [OF xs(2,1)]])
  from reads_whole [OF this] xs(5)
  have whole: "rbind hd (\<lambda>_. rfor step [0..<n] (S [])) c 0 = Inr (S xs, length c)" by simp
  then obtain j where "hd c 0 = Inr ((), j)" "rfor step [0..<n] (S []) c j = Inr (S xs, length c)"
    by (auto simp: rbind_def split: sum.splits)
  moreover have "fin (S xs) c (length c) = Inr (r, length c)" using fin xs(3,4) by blast
  ultimately show ?L by (simp add: rbind_def)
qed

end

end
