(* ===== verification/Binary_Format.thy ===== *)
theory Binary_Format
  imports Interfaces
begin

unbundle bit_operations_syntax

text \<open>
  The primitive fields of a segment file (\<open>indexing/segment_store.cpp\<close>, the \<open>append...\<close> functions
  and \<open>BinaryReader\<close>): little-endian 32- and 64-bit integers, length-prefixed strings, SHA-256
  digests kept as 32 raw bytes, file headers. A \<open>BinaryReader\<close> is a reader of the interfaces theory,
  its \<open>content_\<close> and \<open>offset_\<close> the two arguments. Every field is a canonical codec.
\<close>

section \<open>Errors and constants\<close>

datatype segment_error =
    Bad_magic | Truncated | String_limit | Trailing_bytes | Sha_invalid | Sha_bytes_invalid
  | Files_header | Files_record | Documents_header | Documents_record | Postings_header
  | Postings_record | Terms_header | Terms_record | Posting_order | Postings_uncovered

definition k_segment_format_version :: u32 where
  "k_segment_format_version = 1"

definition k_string_limit :: nat where
  "k_string_limit = 1024 * 1024"

section \<open>Little-endian integers\<close>

definition append_uint32 :: "string \<Rightarrow> u32 \<Rightarrow> string" where
  "append_uint32 out v =
     foldl (\<lambda>out shift. out @ [char_of (unat (drop_bit shift v AND 0xFF))]) out [0, 8, 16, 24]"

definition append_uint64 :: "string \<Rightarrow> u64 \<Rightarrow> string" where
  "append_uint64 out v =
     foldl (\<lambda>out shift. out @ [char_of (unat (drop_bit shift v AND 0xFF))]) out [0, 8, 16, 24, 32, 40, 48, 56]"

text \<open>An \<open>int64_t\<close> is an \<open>int\<close>; the casts go through two's complement.\<close>

definition append_int64 :: "string \<Rightarrow> int \<Rightarrow> string" where
  "append_int64 out v = append_uint64 out (word_of_int v)"

definition remaining :: "string \<Rightarrow> nat \<Rightarrow> nat" where
  "remaining c n = length c - n"

definition require_bytes :: "nat \<Rightarrow> (segment_error, unit) reader" where
  "require_bytes k c n = (if k > remaining c n then Inl Truncated else Inr ((), n))"

text \<open>The loop that shifts \<open>k\<close> bytes into a value.\<close>

definition le_value :: "nat \<Rightarrow> string \<Rightarrow> nat \<Rightarrow> 'a::len word" where
  "le_value k c n = foldl (\<lambda>value i. value OR push_bit (i * 8) (word_of_nat (byte (c ! (n + i))))) 0 [0..<k]"

definition read_uint32 :: "(segment_error, u32) reader" where
  "read_uint32 = rbind (require_bytes 4) (\<lambda>_ c n. Inr (le_value 4 c n, n + 4))"

definition read_uint64 :: "(segment_error, u64) reader" where
  "read_uint64 = rbind (require_bytes 8) (\<lambda>_ c n. Inr (le_value 8 c n, n + 8))"

definition read_int64 :: "(segment_error, int) reader" where
  "read_int64 = rbind read_uint64 (\<lambda>v. rret (sint v))"

definition le_bytes :: "nat \<Rightarrow> 'a::len word \<Rightarrow> string" where
  "le_bytes k v = map (\<lambda>i. char_of (unat (drop_bit (8 * i) v AND 0xFF))) [0..<k]"

lemma append_uint32_bytes: "append_uint32 out v = out @ le_bytes 4 v"
  by (simp add: append_uint32_def le_bytes_def upt_rec)

lemma append_uint64_bytes: "append_uint64 out v = out @ le_bytes 8 v"
  by (simp add: append_uint64_def le_bytes_def upt_rec)

lemma length_le_bytes [simp]: "length (le_bytes k v) = k"
  by (simp add: le_bytes_def)

lemma bit_byte: "bit (byte c) j \<Longrightarrow> j < 8"
proof -
  have "take_bit 8 (byte c) = byte c" by (simp add: take_bit_nat_eq_self)
  then show "bit (byte c) j \<Longrightarrow> j < 8" by (metis bit_take_bit_iff)
qed

lemma bit_le_value:
  "bit (le_value k c n :: 'a::len word) j \<longleftrightarrow>
     j < LENGTH('a) \<and> j div 8 < k \<and> bit (byte (c ! (n + j div 8))) (j mod 8)"
proof (induction k)
  case 0
  then show ?case by (simp add: le_value_def)
next
  case (Suc k)
  have step: "le_value (Suc k) c n = (le_value k c n :: 'a word) OR push_bit (k * 8) (word_of_nat (byte (c ! (n + k))))"
    by (simp add: le_value_def)
  have "bit (push_bit (k * 8) (word_of_nat (byte (c ! (n + k)))) :: 'a word) j \<longleftrightarrow>
      j < LENGTH('a) \<and> j div 8 = k \<and> bit (byte (c ! (n + k))) (j mod 8)"
  proof (cases "k * 8 \<le> j \<and> j < k * 8 + 8")
    case True
    then have "j div 8 = k" by auto
    then have "j div 8 = k" "j - k * 8 = j mod 8" by (auto simp: minus_div_mult_eq_mod [symmetric])
    with True show ?thesis by (auto simp: bit_push_bit_iff bit_of_nat_iff)
  next
    case False
    then have "\<not> (j div 8 = k)" by auto
    moreover have "\<not> (k * 8 \<le> j \<and> bit (byte (c ! (n + k))) (j - k * 8))"
      using False bit_byte [of "c ! (n + k)" "j - k * 8"] by auto
    ultimately show ?thesis by (auto simp: bit_push_bit_iff bit_of_nat_iff)
  qed
  then show ?case
    unfolding step using Suc.IH by (auto simp: bit_or_iff less_Suc_eq)
qed

lemma unat_byte_less: "unat (drop_bit i v AND 0xFF :: 'a::len word) < 256"
proof -
  have "drop_bit i v AND 0xFF = take_bit 8 (drop_bit i v)"
    by (simp add: take_bit_eq_mask mask_eq_exp_minus_1)
  moreover have "take_bit 8 (unat (drop_bit i v)) < 2 ^ 8" by (rule take_bit_nat_less_exp)
  ultimately show ?thesis by (simp add: unsigned_take_bit_eq)
qed

lemma bit_le_bytes:
  assumes "i < k"
  shows "bit (byte (le_bytes k (v :: 'a::len word) ! i)) j \<longleftrightarrow> j < 8 \<and> bit v (8 * i + j)"
proof -
  have "drop_bit (8 * i) v AND 0xFF = take_bit 8 (drop_bit (8 * i) v)"
    by (simp add: take_bit_eq_mask mask_eq_exp_minus_1)
  moreover have "byte (le_bytes k v ! i) = unat (drop_bit (8 * i) v AND 0xFF)"
    using assms unat_byte_less [of "8 * i" v] by (simp add: le_bytes_def)
  ultimately show ?thesis
    by (simp add: bit_unsigned_iff bit_take_bit_iff bit_drop_bit_eq)
qed

lemma le_value_bytes:
  assumes "LENGTH('a) = 8 * k"
  shows "le_value k (pre @ le_bytes k v @ rest) (length pre) = (v :: 'a::len word)"
proof (rule bit_word_eqI)
  fix j assume j: "j < LENGTH('a)"
  then have i: "j div 8 < k" using assms by auto
  have "8 * (j div 8) + j mod 8 = j" by simp
  with i j show "bit (le_value k (pre @ le_bytes k v @ rest) (length pre) :: 'a word) j = bit v j"
    by (simp add: bit_le_value nth_append bit_le_bytes)
qed

lemma le_bytes_value:
  assumes "n + k \<le> length c" "LENGTH('a) = 8 * k"
  shows "le_bytes k (le_value k c n :: 'a::len word) = slice c n (n + k)"
proof (rule nth_equalityI)
  show len: "length (le_bytes k (le_value k c n :: 'a word)) = length (slice c n (n + k))"
    using assms(1) by (simp add: slice_def)
  fix i assume "i < length (le_bytes k (le_value k c n :: 'a word))"
  then have i: "i < k" by simp
  have "byte (le_bytes k (le_value k c n :: 'a word) ! i) = byte (c ! (n + i))"
  proof (rule bit_eqI)
    fix j
    have "j < 8 \<Longrightarrow> (8 * i + j) div 8 = i \<and> (8 * i + j) mod 8 = j \<and> 8 * i + j < 8 * k" using i by auto
    then show "bit (byte (le_bytes k (le_value k c n :: 'a word) ! i)) j = bit (byte (c ! (n + i))) j"
      using i assms bit_byte [of "c ! (n + i)" j] by (auto simp: bit_le_bytes bit_le_value)
  qed
  then have "le_bytes k (le_value k c n :: 'a word) ! i = c ! (n + i)" by (simp only: byte_inject)
  also have "\<dots> = slice c n (n + k) ! i" using i assms(1) by (simp add: slice_def)
  finally show "le_bytes k (le_value k c n :: 'a word) ! i = slice c n (n + k) ! i" .
qed

interpretation u32: canonical_codec "append_uint32 []" read_uint32 "\<lambda>_. True"
proof unfold_locales
  fix x :: u32
  show "reads read_uint32 x (append_uint32 [] x)"
    by (simp add: reads_def read_uint32_def rbind_def require_bytes_def remaining_def
        append_uint32_bytes le_value_bytes)
next
  show "parsed read_uint32 (\<lambda>x b. True \<and> b = append_uint32 [] x)"
    by (auto simp: parsed_def read_uint32_def rbind_def require_bytes_def remaining_def
        append_uint32_bytes le_bytes_value split: sum.splits if_splits)
qed

interpretation u64: canonical_codec "append_uint64 []" read_uint64 "\<lambda>_. True"
proof unfold_locales
  fix x :: u64
  show "reads read_uint64 x (append_uint64 [] x)"
    by (simp add: reads_def read_uint64_def rbind_def require_bytes_def remaining_def
        append_uint64_bytes le_value_bytes)
next
  show "parsed read_uint64 (\<lambda>x b. True \<and> b = append_uint64 [] x)"
    by (auto simp: parsed_def read_uint64_def rbind_def require_bytes_def remaining_def
        append_uint64_bytes le_bytes_value split: sum.splits if_splits)
qed

definition int64_range :: "int \<Rightarrow> bool" where
  "int64_range v \<longleftrightarrow> - (2 ^ 63) \<le> v \<and> v < 2 ^ 63"

lemma sint_word_of_int64: "int64_range v \<Longrightarrow> sint (word_of_int v :: u64) = v"
  by (simp add: int64_range_def int_word_sint)

lemma int64_range_sint: "int64_range (sint (w :: u64))"
  using sint_range_size [of w] by (simp add: int64_range_def word_size)

interpretation i64: canonical_codec "append_int64 []" read_int64 int64_range
proof unfold_locales
  fix x :: int
  assume x: "int64_range x"
  have "reads (rbind read_uint64 (\<lambda>v. rret (sint v))) x (append_uint64 [] (word_of_int x) @ [])"
    using reads_ret [of x] by (intro u64.reads_then) (simp_all add: sint_word_of_int64 [OF x])
  then show "reads read_int64 x (append_int64 [] x)"
    by (simp add: read_int64_def append_int64_def)
next
  show "parsed read_int64 (\<lambda>x b. int64_range x \<and> b = append_int64 [] x)"
    unfolding read_int64_def
    by (intro u64.parsed_then parsed_ret) (simp add: append_int64_def int64_range_sint)
qed

section \<open>Strings, digests, magic numbers\<close>

definition append_string :: "string \<Rightarrow> string \<Rightarrow> segment_error + string" where
  "append_string out v =
     (if length v > k_string_limit then Inl String_limit
      else Inr (append_uint32 out (word_of_nat (length v)) @ v))"

definition read_bytes :: "nat \<Rightarrow> (segment_error, string) reader" where
  "read_bytes k = rbind (require_bytes k) (\<lambda>_ c n. Inr (take k (drop n c), n + k))"

definition read_string :: "(segment_error, string) reader" where
  "read_string = rbind read_uint32 (\<lambda>k.
     if unat k > k_string_limit then rfail String_limit else read_bytes (unat k))"

definition valid_sha256 :: "string \<Rightarrow> bool" where
  "valid_sha256 value \<longleftrightarrow> length value = 64 \<and> list_all is_lower_hex value"

definition hex_val :: "char \<Rightarrow> nat" where
  "hex_val c = (if is_digit c then byte c - 48 else byte c - 87)"

fun hex_pairs :: "string \<Rightarrow> string" where
  "hex_pairs (a # b # r) = char_of (16 * hex_val a + hex_val b) # hex_pairs r"
| "hex_pairs r = []"

definition append_sha256_bytes :: "string \<Rightarrow> string \<Rightarrow> segment_error + string" where
  "append_sha256_bytes out hex =
     (if \<not> valid_sha256 hex then Inl Sha_invalid else Inr (out @ hex_pairs hex))"

definition hex_digit :: "nat \<Rightarrow> char" where
  "hex_digit v = ''0123456789abcdef'' ! v"

definition bytes_to_sha256 :: "string \<Rightarrow> segment_error + string" where
  "bytes_to_sha256 bytes =
     (if length bytes \<noteq> 32 then Inl Sha_bytes_invalid
      else Inr (concat (map (\<lambda>c. [hex_digit (byte c div 16), hex_digit (byte c mod 16)]) bytes)))"

definition read_sha256 :: "(segment_error, string) reader" where
  "read_sha256 = rbind (read_bytes 32) (\<lambda>b. case bytes_to_sha256 b of
     Inl e \<Rightarrow> rfail e | Inr hex \<Rightarrow> rret hex)"

definition require_magic :: "string \<Rightarrow> (segment_error, unit) reader" where
  "require_magic expected c n =
     (if remaining c n < 8 \<or> take 8 (drop n c) \<noteq> expected then Inl Bad_magic else Inr ((), n + 8))"

definition finish :: "(segment_error, unit) reader" where
  "finish c n = (if n \<noteq> length c then Inl Trailing_bytes else Inr ((), n))"

definition append_header :: "string \<Rightarrow> string \<Rightarrow> u64 \<Rightarrow> string" where
  "append_header out magic count =
     append_uint64 (append_uint32 (out @ take 8 magic) k_segment_format_version) count"

text \<open>What the encoders append, as functions of the value alone.\<close>

definition string_bytes :: "string \<Rightarrow> string" where
  "string_bytes v = le_bytes 4 (word_of_nat (length v) :: u32) @ v"

definition short_string :: "string \<Rightarrow> bool" where
  "short_string v \<longleftrightarrow> length v \<le> k_string_limit"

lemma append_string_bytes:
  "append_string out v = (if short_string v then Inr (out @ string_bytes v) else Inl String_limit)"
  by (simp add: append_string_def append_uint32_bytes string_bytes_def short_string_def not_less)

lemma append_sha256_hex:
  "append_sha256_bytes out h = (if valid_sha256 h then Inr (out @ hex_pairs h) else Inl Sha_invalid)"
  by (simp add: append_sha256_bytes_def)

lemma reads_read_bytes: "length b = k \<Longrightarrow> reads (read_bytes k) b b"
  by (auto simp: reads_def read_bytes_def rbind_def require_bytes_def remaining_def)

lemma parsed_read_bytes: "parsed (read_bytes k) (\<lambda>x b. length x = k \<and> b = x)"
  by (auto simp: parsed_def read_bytes_def rbind_def require_bytes_def remaining_def slice_def
      split: sum.splits if_splits)

interpretation str: canonical_codec string_bytes read_string short_string
proof unfold_locales
  fix x assume x: "short_string x"
  then have l: "length x < 2 ^ 32" by (simp add: short_string_def k_string_limit_def)
  then have u: "unat (word_of_nat (length x) :: u32) = length x"
    by (simp add: unat_of_nat)
  have "reads (rbind read_uint32 (\<lambda>k. if unat k > k_string_limit then rfail String_limit
      else read_bytes (unat k))) x (append_uint32 [] (word_of_nat (length x)) @ x)"
    using x by (intro u32.reads_then) (simp_all add: u short_string_def reads_read_bytes)
  then show "reads read_string x (string_bytes x)"
    by (simp add: read_string_def string_bytes_def append_uint32_bytes)
next
  show "parsed read_string (\<lambda>x b. short_string x \<and> b = string_bytes x)"
    unfolding read_string_def
  proof (intro u32.parsed_then parsed_if parsed_fail)
    fix k :: u32
    assume k: "\<not> k_string_limit < unat k"
    have "parsed (read_bytes (unat k)) (\<lambda>x b. length x = unat k \<and> b = x)" by (rule parsed_read_bytes)
    then show "parsed (read_bytes (unat k)) (\<lambda>y d. short_string y \<and> append_uint32 [] k @ d = string_bytes y)"
      by (rule parsed_weaken)
        (use k in \<open>simp add: short_string_def string_bytes_def append_uint32_bytes\<close>)
  qed
qed

lemma hex_digit_val:
  assumes "v < 16"
  shows "hex_val (hex_digit v) = v" "is_lower_hex (hex_digit v)"
proof -
  have "v \<in> {0,1,2,3,4,5,6,7,8,9,10,11,12,13,14,15}"
    using assms by (simp only: insert_iff empty_iff) presburger
  then show "hex_val (hex_digit v) = v" "is_lower_hex (hex_digit v)"
    by (auto simp: hex_digit_def hex_val_def is_digit_def is_lower_hex_def)
qed

lemma hex_val_digit:
  assumes "is_lower_hex c"
  shows "hex_val c < 16" "hex_digit (hex_val c) = c"
proof -
  show v: "hex_val c < 16" using assms by (auto simp: is_lower_hex_def hex_val_def is_digit_def)
  have "byte (hex_digit (hex_val c)) = byte c"
  proof -
    define v where "v = hex_val c"
    have "v \<in> {0,1,2,3,4,5,6,7,8,9,10,11,12,13,14,15}"
      using v unfolding v_def by (simp only: insert_iff empty_iff) presburger
    then have "byte (hex_digit v) = (if v < 10 then 48 + v else 87 + v)"
      by (auto simp: hex_digit_def)
    then show ?thesis using assms v
      by (auto simp: v_def hex_val_def is_digit_def is_lower_hex_def split: if_splits)
  qed
  then show "hex_digit (hex_val c) = c" by (simp only: byte_inject)
qed

definition hex_of_bytes :: "string \<Rightarrow> string" where
  "hex_of_bytes bs = concat (map (\<lambda>c. [hex_digit (byte c div 16), hex_digit (byte c mod 16)]) bs)"

lemma hex_pairs_of_bytes: "hex_pairs (hex_of_bytes bs) = bs"
proof (induction bs)
  case (Cons c bs)
  have "byte c div 16 < 16" using byte_less_256 [of c] by linarith
  moreover have "16 * (byte c div 16) + byte c mod 16 = byte c" by simp
  ultimately show ?case using Cons by (simp add: hex_of_bytes_def hex_digit_val)
qed (simp add: hex_of_bytes_def)

lemma hex_of_bytes_valid: "length bs = 32 \<Longrightarrow> valid_sha256 (hex_of_bytes bs)"
proof -
  have "length (hex_of_bytes bs) = 2 * length bs \<and> list_all is_lower_hex (hex_of_bytes bs)"
  proof (induction bs)
    case (Cons c bs)
    have "byte c div 16 < 16" using byte_less_256 [of c] by linarith
    with Cons show ?case by (simp add: hex_of_bytes_def hex_digit_val)
  qed (simp add: hex_of_bytes_def)
  then show "length bs = 32 \<Longrightarrow> valid_sha256 (hex_of_bytes bs)" by (simp add: valid_sha256_def)
qed

lemma hex_of_pairs:
  assumes "list_all is_lower_hex h" "even (length h)"
  shows "hex_of_bytes (hex_pairs h) = h" "length (hex_pairs h) = length h div 2"
proof -
  have "hex_of_bytes (hex_pairs h) = h \<and> length (hex_pairs h) = length h div 2"
    using assms
  proof (induction h rule: hex_pairs.induct)
    case (1 a b r)
    then have a: "hex_val a < 16" "hex_digit (hex_val a) = a" and b: "hex_val b < 16" "hex_digit (hex_val b) = b"
      by (simp_all add: hex_val_digit)
    then have "byte (char_of (16 * hex_val a + hex_val b)) = 16 * hex_val a + hex_val b"
      by (intro byte_char_of) simp
    moreover have "(16 * hex_val a + hex_val b) div 16 = hex_val a" "(16 * hex_val a + hex_val b) mod 16 = hex_val b"
      using b by auto
    ultimately show ?case using 1 a b by (simp add: hex_of_bytes_def)
  qed (auto simp: hex_of_bytes_def)
  then show "hex_of_bytes (hex_pairs h) = h" "length (hex_pairs h) = length h div 2" by auto
qed

interpretation sha: canonical_codec hex_pairs read_sha256 valid_sha256
proof unfold_locales
  fix x assume x: "valid_sha256 x"
  then have h: "hex_of_bytes (hex_pairs x) = x" "length (hex_pairs x) = 32"
    by (simp_all add: hex_of_pairs valid_sha256_def)
  then have "bytes_to_sha256 (hex_pairs x) = Inr x"
    by (simp add: bytes_to_sha256_def flip: hex_of_bytes_def)
  then have "reads (rbind (read_bytes 32) (\<lambda>b. case bytes_to_sha256 b of
     Inl e \<Rightarrow> rfail e | Inr hex \<Rightarrow> rret hex)) x (hex_pairs x @ [])"
    using h by (intro reads_bind [OF reads_read_bytes]) (simp_all add: reads_ret)
  then show "reads read_sha256 x (hex_pairs x)" by (simp add: read_sha256_def)
next
  show "parsed read_sha256 (\<lambda>x b. valid_sha256 x \<and> b = hex_pairs x)"
    unfolding read_sha256_def
  proof (rule parsed_bind [OF parsed_read_bytes])
    fix x b :: string assume "length x = 32 \<and> b = x"
    then show "parsed (case bytes_to_sha256 x of Inl e \<Rightarrow> rfail e | Inr hex \<Rightarrow> rret hex)
        (\<lambda>y d. valid_sha256 y \<and> b @ d = hex_pairs y)"
      by (auto simp: bytes_to_sha256_def hex_pairs_of_bytes hex_of_bytes_valid
          intro!: parsed_ret simp flip: hex_of_bytes_def)
  qed
qed

lemma reads_magic: "length m = 8 \<Longrightarrow> reads (require_magic m) () m"
  by (auto simp: reads_def require_magic_def remaining_def)

lemma parsed_magic: "parsed (require_magic m) (\<lambda>_ b. b = m)"
  by (auto simp: parsed_def require_magic_def remaining_def slice_def split: if_splits)

lemma append_header_bytes:
  "length magic = 8 \<Longrightarrow> append_header out magic count =
     out @ magic @ le_bytes 4 k_segment_format_version @ le_bytes 8 count"
  by (simp add: append_header_def append_uint32_bytes append_uint64_bytes)

end
