(* ===== verification/Segment_Codec.thy ===== *)
theory Segment_Codec
  imports Binary_Format "HOL-Library.List_Lexorder" "HOL-Library.Char_ord"
begin

text \<open>
  The four tables of a segment (\<open>indexing/segment_models.h\<close>, the \<open>serialize...\<close> and \<open>load...\<close>
  functions of \<open>indexing/segment_store.cpp\<close>). Each record is a canonical codec and each table a
  table codec, so that what a loader accepts is exactly what the serialiser writes for a table that
  passes the loader's checks: \<open>load_files_iff\<close> and its three siblings. Strings compare bytewise.
\<close>

section \<open>Records\<close>

record file_record =
  fr_archive_id :: u64
  fr_file_size :: u64
  fr_file_sha256 :: string
  fr_relative_path :: string

record document_record =
  dr_doc_id :: u64
  dr_local_id :: u32
  dr_file_ordinal :: u32
  dr_archive_id :: u64
  dr_byte_offset :: u64
  dr_byte_length :: u64
  dr_occurred_at_ms :: int
  dr_archived_at_ms :: int
  dr_term_count :: u32
  dr_line_id :: string
  dr_station_id :: string
  dr_device_id :: string
  dr_collector_id :: string
  dr_work_order :: string
  dr_product_sn :: string
  dr_source_type :: string
  dr_level :: string
  dr_module_name :: string
  dr_error_code :: string
  dr_event_name :: string

record posting =
  po_local_id :: u32
  po_term_frequency :: u32

record term_record =
  te_term :: string
  te_document_frequency :: u32
  te_posting_begin :: u64
  te_posting_count :: u32

section \<open>Serialisation\<close>

definition k_files_magic :: string where "k_files_magic = ''LTFIL001''"
definition k_documents_magic :: string where "k_documents_magic = ''LTDOC001''"
definition k_postings_magic :: string where "k_postings_magic = ''LTPST001''"
definition k_terms_magic :: string where "k_terms_magic = ''LTTRM001''"

definition sbind :: "'e + 'a \<Rightarrow> ('a \<Rightarrow> 'e + 'b) \<Rightarrow> 'e + 'b" where
  "sbind m f = (case m of Inl e \<Rightarrow> Inl e | Inr x \<Rightarrow> f x)"

lemma sbind_simps [simp]: "sbind (Inl e) f = Inl e" "sbind (Inr x) f = f x"
  by (simp_all add: sbind_def)

primrec append_all :: "(string \<Rightarrow> 'a \<Rightarrow> 'e + string) \<Rightarrow> 'a list \<Rightarrow> string \<Rightarrow> 'e + string" where
  "append_all f [] out = Inr out"
| "append_all f (x # xs) out = sbind (f out x) (append_all f xs)"

definition append_file :: "string \<Rightarrow> file_record \<Rightarrow> segment_error + string" where
  "append_file out file =
     sbind (append_sha256_bytes (append_uint64 (append_uint64 out (fr_archive_id file)) (fr_file_size file))
       (fr_file_sha256 file)) (\<lambda>out. append_string out (fr_relative_path file))"

definition serialize_files :: "file_record list \<Rightarrow> segment_error + string" where
  "serialize_files files =
     append_all append_file files (append_header [] k_files_magic (word_of_nat (length files)))"

definition append_document :: "string \<Rightarrow> document_record \<Rightarrow> segment_error + string" where
  "append_document out document =
     (let out = append_uint64 out (dr_doc_id document);
          out = append_uint32 out (dr_local_id document);
          out = append_uint32 out (dr_file_ordinal document);
          out = append_uint64 out (dr_archive_id document);
          out = append_uint64 out (dr_byte_offset document);
          out = append_uint64 out (dr_byte_length document);
          out = append_int64 out (dr_occurred_at_ms document);
          out = append_int64 out (dr_archived_at_ms document);
          out = append_uint32 out (dr_term_count document)
      in sbind (append_string out (dr_line_id document)) (\<lambda>out.
         sbind (append_string out (dr_station_id document)) (\<lambda>out.
         sbind (append_string out (dr_device_id document)) (\<lambda>out.
         sbind (append_string out (dr_collector_id document)) (\<lambda>out.
         sbind (append_string out (dr_work_order document)) (\<lambda>out.
         sbind (append_string out (dr_product_sn document)) (\<lambda>out.
         sbind (append_string out (dr_source_type document)) (\<lambda>out.
         sbind (append_string out (dr_level document)) (\<lambda>out.
         sbind (append_string out (dr_module_name document)) (\<lambda>out.
         sbind (append_string out (dr_error_code document)) (\<lambda>out.
         append_string out (dr_event_name document))))))))))))"

definition serialize_documents :: "document_record list \<Rightarrow> segment_error + string" where
  "serialize_documents documents =
     append_all append_document documents (append_header [] k_documents_magic (word_of_nat (length documents)))"

definition serialize_postings :: "posting list \<Rightarrow> string" where
  "serialize_postings postings =
     foldl (\<lambda>out p. append_uint32 (append_uint32 out (po_local_id p)) (po_term_frequency p))
       (append_header [] k_postings_magic (word_of_nat (length postings))) postings"

definition append_term :: "string \<Rightarrow> term_record \<Rightarrow> segment_error + string" where
  "append_term out t = sbind (append_string out (te_term t)) (\<lambda>out.
     Inr (append_uint32 (append_uint64 (append_uint32 out (te_document_frequency t))
       (te_posting_begin t)) (te_posting_count t)))"

definition serialize_terms :: "term_record list \<Rightarrow> segment_error + string" where
  "serialize_terms terms =
     append_all append_term terms (append_header [] k_terms_magic (word_of_nat (length terms)))"

section \<open>Loading\<close>

text \<open>The header each loader checks, with its own error.\<close>

definition read_header :: "string \<Rightarrow> segment_error \<Rightarrow> u64 \<Rightarrow> (segment_error, unit) reader" where
  "read_header magic err expected_count =
     rbind (require_magic magic) (\<lambda>_. rbind read_uint32 (\<lambda>version.
       if version \<noteq> k_segment_format_version then rfail err
       else rbind read_uint64 (\<lambda>count. if count \<noteq> expected_count then rfail err else rret ())))"

definition read_file :: "(segment_error, file_record) reader" where
  "read_file = rbind read_uint64 (\<lambda>archive_id. rbind read_uint64 (\<lambda>file_size.
     rbind read_sha256 (\<lambda>file_sha256. rbind read_string (\<lambda>relative_path.
     rret \<lparr>fr_archive_id = archive_id, fr_file_size = file_size, fr_file_sha256 = file_sha256,
           fr_relative_path = relative_path\<rparr>))))"

definition file_step :: "nat \<Rightarrow> u64 set \<times> file_record list \<Rightarrow> (segment_error, u64 set \<times> file_record list) reader" where
  "file_step index s = (case s of (archive_ids, files) \<Rightarrow>
     rbind read_file (\<lambda>file.
       if fr_archive_id file = 0 \<or> fr_file_size file = 0 \<or> fr_relative_path file = [] \<or>
          length (fr_relative_path file) > 512 \<or> fr_archive_id file \<in> archive_ids
       then rfail Files_record
       else rret (insert (fr_archive_id file) archive_ids, files @ [file])))"

definition load_files :: "string \<Rightarrow> u64 \<Rightarrow> segment_error + file_record list" where
  "load_files content expected_count = map_sum id fst
     (rbind (read_header k_files_magic Files_header expected_count) (\<lambda>_.
      rbind (rfor file_step [0..<unat expected_count] ({}, [])) (\<lambda>(archive_ids, files).
      rbind finish (\<lambda>_. rret files))) content 0)"

definition read_document :: "(segment_error, document_record) reader" where
  "read_document =
     rbind read_uint64 (\<lambda>doc_id. rbind read_uint32 (\<lambda>local_id. rbind read_uint32 (\<lambda>file_ordinal.
     rbind read_uint64 (\<lambda>archive_id. rbind read_uint64 (\<lambda>byte_offset. rbind read_uint64 (\<lambda>byte_length.
     rbind read_int64 (\<lambda>occurred_at_ms. rbind read_int64 (\<lambda>archived_at_ms.
     rbind read_uint32 (\<lambda>term_count.
     rbind read_string (\<lambda>line_id. rbind read_string (\<lambda>station_id. rbind read_string (\<lambda>device_id.
     rbind read_string (\<lambda>collector_id. rbind read_string (\<lambda>work_order. rbind read_string (\<lambda>product_sn.
     rbind read_string (\<lambda>source_type. rbind read_string (\<lambda>level. rbind read_string (\<lambda>module_name.
     rbind read_string (\<lambda>error_code. rbind read_string (\<lambda>event_name.
     rret \<lparr>dr_doc_id = doc_id, dr_local_id = local_id, dr_file_ordinal = file_ordinal,
           dr_archive_id = archive_id, dr_byte_offset = byte_offset, dr_byte_length = byte_length,
           dr_occurred_at_ms = occurred_at_ms, dr_archived_at_ms = archived_at_ms,
           dr_term_count = term_count, dr_line_id = line_id, dr_station_id = station_id,
           dr_device_id = device_id, dr_collector_id = collector_id, dr_work_order = work_order,
           dr_product_sn = product_sn, dr_source_type = source_type, dr_level = level,
           dr_module_name = module_name, dr_error_code = error_code,
           dr_event_name = event_name\<rparr>))))))))))))))))))))"

definition make_doc_id :: "u64 \<Rightarrow> u32 \<Rightarrow> u64" where
  "make_doc_id batch_id local_id = push_bit 32 batch_id OR ucast local_id"

definition document_invalid :: "u64 \<Rightarrow> file_record list \<Rightarrow> nat \<Rightarrow> document_record \<Rightarrow> bool" where
  "document_invalid batch_id files index d \<longleftrightarrow>
     unat (dr_local_id d) \<noteq> index \<or> dr_doc_id d \<noteq> make_doc_id batch_id (dr_local_id d) \<or>
     unat (dr_file_ordinal d) \<ge> length files \<or> dr_byte_length d = 0 \<or>
     dr_archive_id d \<noteq> fr_archive_id (files ! unat (dr_file_ordinal d)) \<or>
     dr_byte_offset d > fr_file_size (files ! unat (dr_file_ordinal d)) \<or>
     dr_byte_length d > fr_file_size (files ! unat (dr_file_ordinal d)) - dr_byte_offset d \<or>
     dr_line_id d = [] \<or> dr_station_id d = [] \<or> dr_device_id d = [] \<or> dr_collector_id d = [] \<or>
     dr_source_type d = [] \<or> dr_level d = [] \<or> dr_module_name d = []"

definition document_step ::
    "u64 \<Rightarrow> file_record list \<Rightarrow> nat \<Rightarrow> document_record list \<Rightarrow> (segment_error, document_record list) reader" where
  "document_step batch_id files index documents = rbind read_document (\<lambda>d.
     if document_invalid batch_id files index d then rfail Documents_record
     else rret (documents @ [d]))"

definition load_documents ::
    "string \<Rightarrow> u64 \<Rightarrow> u64 \<Rightarrow> file_record list \<Rightarrow> segment_error + document_record list" where
  "load_documents content expected_count batch_id files = map_sum id fst
     (rbind (read_header k_documents_magic Documents_header expected_count) (\<lambda>_.
      rbind (rfor (document_step batch_id files) [0..<unat expected_count] []) (\<lambda>documents.
      rbind finish (\<lambda>_. rret documents))) content 0)"

definition posting_step :: "nat \<Rightarrow> nat \<Rightarrow> posting list \<Rightarrow> (segment_error, posting list) reader" where
  "posting_step document_count index postings =
     rbind read_uint32 (\<lambda>local_id. rbind read_uint32 (\<lambda>term_frequency.
       if unat local_id \<ge> document_count \<or> term_frequency = 0 then rfail Postings_record
       else rret (postings @ [\<lparr>po_local_id = local_id, po_term_frequency = term_frequency\<rparr>])))"

definition load_postings :: "string \<Rightarrow> u64 \<Rightarrow> nat \<Rightarrow> segment_error + posting list" where
  "load_postings content expected_count document_count = map_sum id fst
     (rbind (read_header k_postings_magic Postings_header expected_count) (\<lambda>_.
      rbind (rfor (posting_step document_count) [0..<unat expected_count] []) (\<lambda>postings.
      rbind finish (\<lambda>_. rret postings))) content 0)"

text \<open>The inner loop over a posting list; \<open>previous_local\<close> is the last document seen.\<close>

fun postings_increasing :: "posting list \<Rightarrow> nat \<Rightarrow> nat list \<Rightarrow> u32 \<Rightarrow> bool" where
  "postings_increasing postings begin [] previous_local = True"
| "postings_increasing postings begin (posting_index # rest) previous_local =
     (let local_id = po_local_id (postings ! (begin + posting_index))
      in if posting_index \<noteq> 0 \<and> local_id \<le> previous_local then False
         else postings_increasing postings begin rest local_id)"

definition read_term :: "(segment_error, term_record) reader" where
  "read_term = rbind read_string (\<lambda>term. rbind read_uint32 (\<lambda>document_frequency.
     rbind read_uint64 (\<lambda>posting_begin. rbind read_uint32 (\<lambda>posting_count.
     rret \<lparr>te_term = term, te_document_frequency = document_frequency,
           te_posting_begin = posting_begin, te_posting_count = posting_count\<rparr>))))"

record terms_state =
  ts_terms :: "term_record list"
  ts_lookup :: "string \<rightharpoonup> nat"
  ts_expected_begin :: u64
  ts_previous :: string

definition term_invalid :: "posting list \<Rightarrow> terms_state \<Rightarrow> term_record \<Rightarrow> bool" where
  "term_invalid postings s t \<longleftrightarrow>
     te_term t = [] \<or> (ts_previous s \<noteq> [] \<and> te_term t \<le> ts_previous s) \<or>
     te_document_frequency t = 0 \<or> te_document_frequency t \<noteq> te_posting_count t \<or>
     te_posting_begin t \<noteq> ts_expected_begin s \<or> unat (te_posting_begin t) > length postings \<or>
     unat (te_posting_count t) > length postings - unat (te_posting_begin t)"

definition term_step :: "posting list \<Rightarrow> nat \<Rightarrow> terms_state \<Rightarrow> (segment_error, terms_state) reader" where
  "term_step postings index s = rbind read_term (\<lambda>t.
     if term_invalid postings s t then rfail Terms_record
     else if \<not> postings_increasing postings (unat (te_posting_begin t)) [0..<unat (te_posting_count t)] 0
     then rfail Posting_order
     else rret \<lparr>ts_terms = ts_terms s @ [t], ts_lookup = (ts_lookup s)(te_term t \<mapsto> length (ts_terms s)),
                ts_expected_begin = ts_expected_begin s + ucast (te_posting_count t),
                ts_previous = te_term t\<rparr>)"

definition load_terms ::
    "string \<Rightarrow> u64 \<Rightarrow> posting list \<Rightarrow> segment_error + term_record list \<times> (string \<rightharpoonup> nat)" where
  "load_terms content expected_count postings = map_sum id fst
     (rbind (read_header k_terms_magic Terms_header expected_count) (\<lambda>_.
      rbind (rfor (term_step postings) [0..<unat expected_count]
        \<lparr>ts_terms = [], ts_lookup = Map.empty, ts_expected_begin = 0, ts_previous = []\<rparr>) (\<lambda>s.
      if unat (ts_expected_begin s) \<noteq> length postings then rfail Postings_uncovered
      else rbind finish (\<lambda>_. rret (ts_terms s, ts_lookup s)))) content 0)"

section \<open>Record codecs\<close>

definition file_bytes :: "file_record \<Rightarrow> string" where
  "file_bytes f = append_uint64 [] (fr_archive_id f) @ append_uint64 [] (fr_file_size f) @
     hex_pairs (fr_file_sha256 f) @ string_bytes (fr_relative_path f)"

definition file_encodable :: "file_record \<Rightarrow> bool" where
  "file_encodable f \<longleftrightarrow> valid_sha256 (fr_file_sha256 f) \<and> short_string (fr_relative_path f)"

lemma append_file_bytes: "file_encodable f \<Longrightarrow> append_file out f = Inr (out @ file_bytes f)"
  by (simp add: append_file_def file_encodable_def append_sha256_hex append_string_bytes file_bytes_def
      append_uint64_bytes)

interpretation file_codec: canonical_codec file_bytes read_file file_encodable
proof unfold_locales
  fix x assume x: "file_encodable x"
  have "reads read_file x (append_uint64 [] (fr_archive_id x) @ append_uint64 [] (fr_file_size x) @
     hex_pairs (fr_file_sha256 x) @ string_bytes (fr_relative_path x) @ [])"
    unfolding read_file_def
    by (intro u64.reads_then sha.reads_then str.reads_then) (use x in \<open>simp_all add: file_encodable_def reads_ret_eq\<close>)
  then show "reads read_file x (file_bytes x)" by (simp add: file_bytes_def)
next
  show "parsed read_file (\<lambda>x b. file_encodable x \<and> b = file_bytes x)"
    unfolding read_file_def
    by (intro u64.parsed_then sha.parsed_then str.parsed_then parsed_ret)
      (simp add: file_encodable_def file_bytes_def)
qed

definition document_bytes :: "document_record \<Rightarrow> string" where
  "document_bytes d =
     append_uint64 [] (dr_doc_id d) @ append_uint32 [] (dr_local_id d) @ append_uint32 [] (dr_file_ordinal d) @
     append_uint64 [] (dr_archive_id d) @ append_uint64 [] (dr_byte_offset d) @
     append_uint64 [] (dr_byte_length d) @ append_int64 [] (dr_occurred_at_ms d) @
     append_int64 [] (dr_archived_at_ms d) @ append_uint32 [] (dr_term_count d) @
     string_bytes (dr_line_id d) @ string_bytes (dr_station_id d) @ string_bytes (dr_device_id d) @
     string_bytes (dr_collector_id d) @ string_bytes (dr_work_order d) @ string_bytes (dr_product_sn d) @
     string_bytes (dr_source_type d) @ string_bytes (dr_level d) @ string_bytes (dr_module_name d) @
     string_bytes (dr_error_code d) @ string_bytes (dr_event_name d)"

definition document_encodable :: "document_record \<Rightarrow> bool" where
  "document_encodable d \<longleftrightarrow> int64_range (dr_occurred_at_ms d) \<and> int64_range (dr_archived_at_ms d) \<and>
     short_string (dr_line_id d) \<and> short_string (dr_station_id d) \<and> short_string (dr_device_id d) \<and>
     short_string (dr_collector_id d) \<and> short_string (dr_work_order d) \<and> short_string (dr_product_sn d) \<and>
     short_string (dr_source_type d) \<and> short_string (dr_level d) \<and> short_string (dr_module_name d) \<and>
     short_string (dr_error_code d) \<and> short_string (dr_event_name d)"

lemma append_int64_bytes: "append_int64 out v = out @ append_int64 [] v"
  by (simp add: append_int64_def append_uint64_bytes)

lemma append_document_bytes: "document_encodable d \<Longrightarrow> append_document out d = Inr (out @ document_bytes d)"
  by (simp add: append_document_def document_encodable_def append_string_bytes document_bytes_def
      append_uint64_bytes append_uint32_bytes append_int64_def Let_def)

interpretation document_codec: canonical_codec document_bytes read_document document_encodable
proof unfold_locales
  fix x assume x: "document_encodable x"
  have "reads read_document x (append_uint64 [] (dr_doc_id x) @ append_uint32 [] (dr_local_id x) @
     append_uint32 [] (dr_file_ordinal x) @
     append_uint64 [] (dr_archive_id x) @ append_uint64 [] (dr_byte_offset x) @
     append_uint64 [] (dr_byte_length x) @ append_int64 [] (dr_occurred_at_ms x) @
     append_int64 [] (dr_archived_at_ms x) @ append_uint32 [] (dr_term_count x) @
     string_bytes (dr_line_id x) @ string_bytes (dr_station_id x) @ string_bytes (dr_device_id x) @
     string_bytes (dr_collector_id x) @ string_bytes (dr_work_order x) @ string_bytes (dr_product_sn x) @
     string_bytes (dr_source_type x) @ string_bytes (dr_level x) @ string_bytes (dr_module_name x) @
     string_bytes (dr_error_code x) @ string_bytes (dr_event_name x) @ [])"
    unfolding read_document_def
    by (intro u64.reads_then u32.reads_then i64.reads_then str.reads_then)
      (use x in \<open>simp_all add: document_encodable_def reads_ret_eq\<close>)
  then show "reads read_document x (document_bytes x)" by (simp add: document_bytes_def)
next
  show "parsed read_document (\<lambda>x b. document_encodable x \<and> b = document_bytes x)"
    unfolding read_document_def
    by (intro u64.parsed_then u32.parsed_then i64.parsed_then str.parsed_then parsed_ret)
      (simp add: document_encodable_def document_bytes_def)
qed

definition posting_bytes :: "posting \<Rightarrow> string" where
  "posting_bytes p = append_uint32 [] (po_local_id p) @ append_uint32 [] (po_term_frequency p)"

definition term_bytes :: "term_record \<Rightarrow> string" where
  "term_bytes t = string_bytes (te_term t) @ append_uint32 [] (te_document_frequency t) @
     append_uint64 [] (te_posting_begin t) @ append_uint32 [] (te_posting_count t)"

definition term_encodable :: "term_record \<Rightarrow> bool" where
  "term_encodable t \<longleftrightarrow> short_string (te_term t)"

lemma append_term_bytes: "term_encodable t \<Longrightarrow> append_term out t = Inr (out @ term_bytes t)"
  by (simp add: append_term_def term_encodable_def append_string_bytes term_bytes_def
      append_uint64_bytes append_uint32_bytes)

interpretation term_codec: canonical_codec term_bytes read_term term_encodable
proof unfold_locales
  fix x assume x: "term_encodable x"
  have "reads read_term x (string_bytes (te_term x) @ append_uint32 [] (te_document_frequency x) @
     append_uint64 [] (te_posting_begin x) @ append_uint32 [] (te_posting_count x) @ [])"
    unfolding read_term_def
    by (intro str.reads_then u32.reads_then u64.reads_then) (use x in \<open>simp_all add: term_encodable_def reads_ret_eq\<close>)
  then show "reads read_term x (term_bytes x)" by (simp add: term_bytes_def)
next
  show "parsed read_term (\<lambda>x b. term_encodable x \<and> b = term_bytes x)"
    unfolding read_term_def
    by (intro str.parsed_then u32.parsed_then u64.parsed_then parsed_ret)
      (simp add: term_encodable_def term_bytes_def)
qed

lemma append_all_bytes:
  "list_all P xs \<Longrightarrow> (\<And>out x. P x \<Longrightarrow> f out x = Inr (out @ g x)) \<Longrightarrow>
     append_all f xs out = Inr (out @ concat (map g xs))"
  by (induction xs arbitrary: out) simp_all

section \<open>Headers and ends\<close>

definition header_bytes :: "string \<Rightarrow> u64 \<Rightarrow> string" where
  "header_bytes magic count = magic @ append_uint32 [] k_segment_format_version @ append_uint64 [] count"

lemma append_header_eq: "length magic = 8 \<Longrightarrow> append_header [] magic count = header_bytes magic count"
  by (simp add: append_header_bytes header_bytes_def append_uint32_bytes append_uint64_bytes)

lemma reads_header: "length magic = 8 \<Longrightarrow> reads (read_header magic err n) () (header_bytes magic n)"
proof -
  assume m: "length magic = 8"
  have "reads (read_header magic err n) ()
      (magic @ append_uint32 [] k_segment_format_version @ append_uint64 [] n @ [])"
    unfolding read_header_def
    by (rule reads_bind [OF reads_magic [OF m]], intro u32.reads_then)
      (auto intro!: u64.reads_then reads_ret simp del: append_Nil2)
  then show ?thesis by (simp add: header_bytes_def)
qed

lemma parsed_header: "parsed (read_header magic err n) (\<lambda>_ b. b = header_bytes magic n)"
  unfolding read_header_def
  by (rule parsed_bind [OF parsed_magic], intro u32.parsed_then parsed_if parsed_fail u64.parsed_then parsed_ret)
    (auto simp: header_bytes_def)

lemma finish_ret: "rbind finish (\<lambda>_. rret x) c m = Inr (r, k) \<longleftrightarrow> m = length c \<and> r = x \<and> k = m"
  by (auto simp: rbind_def finish_def rret_def)

section \<open>The file table\<close>

definition file_fine :: "file_record \<Rightarrow> bool" where
  "file_fine f \<longleftrightarrow> file_encodable f \<and> fr_archive_id f \<noteq> 0 \<and> fr_file_size f \<noteq> 0 \<and>
     fr_relative_path f \<noteq> [] \<and> length (fr_relative_path f) \<le> 512"

definition files_ok :: "file_record list \<Rightarrow> bool" where
  "files_ok fs \<longleftrightarrow> list_all file_fine fs \<and> distinct (map fr_archive_id fs)"

interpretation file_table: table_codec file_step file_bytes "\<lambda>fs. (fr_archive_id ` set fs, fs)" files_ok
proof unfold_locales
  fix xs x
  show "files_ok []" by (simp add: files_ok_def)
  show "files_ok (xs @ [x]) \<Longrightarrow> files_ok xs" by (simp add: files_ok_def)
  assume ok: "files_ok (xs @ [x])"
  then have "file_encodable x" by (simp add: files_ok_def file_fine_def)
  then have "reads (file_step (length xs) (fr_archive_id ` set xs, xs))
      (fr_archive_id ` set (xs @ [x]), xs @ [x]) (file_bytes x @ [])"
    unfolding file_step_def prod.case
    by (rule file_codec.reads_then) (use ok in \<open>simp add: files_ok_def file_fine_def reads_ret\<close>)
  then show "reads (file_step (length xs) (fr_archive_id ` set xs, xs))
      (fr_archive_id ` set (xs @ [x]), xs @ [x]) (file_bytes x)" by simp
next
  fix xs assume ok: "files_ok xs"
  show "parsed (file_step (length xs) (fr_archive_id ` set xs, xs))
    (\<lambda>s b. \<exists>x. files_ok (xs @ [x]) \<and> s = (fr_archive_id ` set (xs @ [x]), xs @ [x]) \<and> b = file_bytes x)"
    unfolding file_step_def prod.case
    by (intro file_codec.parsed_then parsed_if parsed_fail parsed_ret)
      (use ok in \<open>auto simp: files_ok_def file_fine_def\<close>)
qed

lemma load_files_bytes:
  "load_files c n = Inr fs \<longleftrightarrow> length fs = unat n \<and> files_ok fs \<and>
     c = header_bytes k_files_magic n @ concat (map file_bytes fs)"
proof -
  have m: "length k_files_magic = 8" by (simp add: k_files_magic_def)
  have fin: "(\<lambda>(archive_ids, files). rbind finish (\<lambda>_. rret files)) s c m = Inr (r, k) \<longleftrightarrow>
      True \<and> m = length c \<and> r = snd s \<and> k = m" for s :: "u64 set \<times> file_record list" and c m r k
    by (cases s) (simp add: finish_ret)
  show ?thesis
    using file_table.table_file_iff [OF reads_header [OF m] parsed_header fin, where n = "unat n" and c = c and r = fs]
    by (auto simp: load_files_def)
qed

lemma serialize_files_bytes:
  "files_ok fs \<Longrightarrow> serialize_files fs =
     Inr (header_bytes k_files_magic (word_of_nat (length fs)) @ concat (map file_bytes fs))"
  unfolding serialize_files_def
  by (subst append_all_bytes [where P = file_encodable and g = file_bytes])
    (auto simp: files_ok_def file_fine_def list_all_iff append_file_bytes append_header_eq k_files_magic_def)

section \<open>The document table\<close>

definition documents_ok :: "u64 \<Rightarrow> file_record list \<Rightarrow> document_record list \<Rightarrow> bool" where
  "documents_ok batch_id files ds \<longleftrightarrow>
     (\<forall>i<length ds. document_encodable (ds ! i) \<and> \<not> document_invalid batch_id files i (ds ! i))"

lemma documents_ok_snoc:
  "documents_ok batch_id files (ds @ [d]) \<longleftrightarrow>
     documents_ok batch_id files ds \<and> document_encodable d \<and> \<not> document_invalid batch_id files (length ds) d"
  by (auto simp: documents_ok_def nth_append less_Suc_eq)

interpretation document_table: table_codec "document_step batch_id files" document_bytes "\<lambda>ds. ds"
    "documents_ok batch_id files" for batch_id files
proof unfold_locales
  fix xs x
  show "documents_ok batch_id files []" by (simp add: documents_ok_def)
  show "documents_ok batch_id files (xs @ [x]) \<Longrightarrow> documents_ok batch_id files xs"
    by (simp add: documents_ok_snoc)
  assume ok: "documents_ok batch_id files (xs @ [x])"
  then have "document_encodable x" by (simp add: documents_ok_snoc)
  then have "reads (document_step batch_id files (length xs) xs) (xs @ [x]) (document_bytes x @ [])"
    unfolding document_step_def
    by (rule document_codec.reads_then) (use ok in \<open>simp add: documents_ok_snoc reads_ret\<close>)
  then show "reads (document_step batch_id files (length xs) xs) (xs @ [x]) (document_bytes x)" by simp
next
  fix xs assume ok: "documents_ok batch_id files xs"
  show "parsed (document_step batch_id files (length xs) xs)
    (\<lambda>s b. \<exists>x. documents_ok batch_id files (xs @ [x]) \<and> s = xs @ [x] \<and> b = document_bytes x)"
    unfolding document_step_def
    by (intro document_codec.parsed_then parsed_if parsed_fail parsed_ret)
      (use ok in \<open>auto simp: documents_ok_snoc\<close>)
qed

lemma load_documents_bytes:
  "load_documents c n batch_id files = Inr ds \<longleftrightarrow> length ds = unat n \<and> documents_ok batch_id files ds \<and>
     c = header_bytes k_documents_magic n @ concat (map document_bytes ds)"
  unfolding load_documents_def
  by (subst document_table.table_file_iff [OF reads_header parsed_header, where good = "\<lambda>_. True" and out = id])
    (auto simp: k_documents_magic_def finish_ret)

lemma serialize_documents_bytes:
  "documents_ok batch_id files ds \<Longrightarrow> serialize_documents ds =
     Inr (header_bytes k_documents_magic (word_of_nat (length ds)) @ concat (map document_bytes ds))"
  unfolding serialize_documents_def
  by (subst append_all_bytes [where P = document_encodable and g = document_bytes])
    (auto simp: documents_ok_def list_all_length append_document_bytes append_header_eq k_documents_magic_def)

section \<open>The posting table\<close>

definition posting_fine :: "nat \<Rightarrow> posting \<Rightarrow> bool" where
  "posting_fine document_count p \<longleftrightarrow> unat (po_local_id p) < document_count \<and> po_term_frequency p \<noteq> 0"

interpretation posting_table: table_codec "posting_step document_count" posting_bytes "\<lambda>ps. ps"
    "list_all (posting_fine document_count)" for document_count
proof unfold_locales
  fix xs x
  assume ok: "list_all (posting_fine document_count) (xs @ [x])"
  have "reads (posting_step document_count (length xs) xs) (xs @ [x])
      (append_uint32 [] (po_local_id x) @ append_uint32 [] (po_term_frequency x) @ [])"
    unfolding posting_step_def
    by (intro u32.reads_then) (use ok in \<open>simp_all add: posting_fine_def reads_ret_eq\<close>)
  then show "reads (posting_step document_count (length xs) xs) (xs @ [x]) (posting_bytes x)"
    by (simp add: posting_bytes_def)
next
  fix xs assume ok: "list_all (posting_fine document_count) xs"
  show "parsed (posting_step document_count (length xs) xs)
    (\<lambda>s b. \<exists>x. list_all (posting_fine document_count) (xs @ [x]) \<and> s = xs @ [x] \<and> b = posting_bytes x)"
    unfolding posting_step_def
    by (intro u32.parsed_then parsed_if parsed_fail parsed_ret)
      (use ok in \<open>auto simp: posting_fine_def posting_bytes_def\<close>)
qed simp_all

lemma load_postings_bytes:
  "load_postings c n document_count = Inr ps \<longleftrightarrow> length ps = unat n \<and>
     list_all (posting_fine document_count) ps \<and>
     c = header_bytes k_postings_magic n @ concat (map posting_bytes ps)"
  unfolding load_postings_def
  by (subst posting_table.table_file_iff [OF reads_header parsed_header, where good = "\<lambda>_. True" and out = id])
    (auto simp: k_postings_magic_def finish_ret)

lemma serialize_postings_bytes:
  "serialize_postings ps = header_bytes k_postings_magic (word_of_nat (length ps)) @ concat (map posting_bytes ps)"
proof -
  have "foldl (\<lambda>out p. append_uint32 (append_uint32 out (po_local_id p)) (po_term_frequency p)) out ps =
      out @ concat (map posting_bytes ps)" for out
    by (induction ps arbitrary: out) (simp_all add: posting_bytes_def append_uint32_bytes)
  then show ?thesis
    by (simp add: serialize_postings_def append_header_eq k_postings_magic_def)
qed

section \<open>The term table\<close>

definition terms_init :: terms_state where
  "terms_init = \<lparr>ts_terms = [], ts_lookup = Map.empty, ts_expected_begin = 0, ts_previous = []\<rparr>"

definition terms_push :: "terms_state \<Rightarrow> term_record \<Rightarrow> terms_state" where
  "terms_push s t = \<lparr>ts_terms = ts_terms s @ [t], ts_lookup = (ts_lookup s)(te_term t \<mapsto> length (ts_terms s)),
     ts_expected_begin = ts_expected_begin s + ucast (te_posting_count t), ts_previous = te_term t\<rparr>"

definition terms_state_of :: "term_record list \<Rightarrow> terms_state" where
  "terms_state_of ts = foldl terms_push terms_init ts"

lemma terms_state_of_simps [simp]:
  "terms_state_of [] = terms_init"
  "terms_state_of (ts @ [t]) = terms_push (terms_state_of ts) t"
  by (simp_all add: terms_state_of_def)

definition term_fine :: "posting list \<Rightarrow> terms_state \<Rightarrow> term_record \<Rightarrow> bool" where
  "term_fine postings s t \<longleftrightarrow> term_encodable t \<and> \<not> term_invalid postings s t \<and>
     postings_increasing postings (unat (te_posting_begin t)) [0..<unat (te_posting_count t)] 0"

definition terms_ok :: "posting list \<Rightarrow> term_record list \<Rightarrow> bool" where
  "terms_ok postings ts \<longleftrightarrow> (\<forall>i<length ts. term_fine postings (terms_state_of (take i ts)) (ts ! i))"

lemma terms_ok_snoc:
  "terms_ok postings (ts @ [t]) \<longleftrightarrow> terms_ok postings ts \<and> term_fine postings (terms_state_of ts) t"
  by (auto simp: terms_ok_def nth_append less_Suc_eq)

interpretation term_table: table_codec "term_step postings" term_bytes terms_state_of "terms_ok postings"
  for postings
proof unfold_locales
  fix xs x
  show "terms_ok postings []" by (simp add: terms_ok_def)
  show "terms_ok postings (xs @ [x]) \<Longrightarrow> terms_ok postings xs" by (simp add: terms_ok_snoc)
  assume ok: "terms_ok postings (xs @ [x])"
  then have "term_encodable x" by (simp add: terms_ok_snoc term_fine_def)
  then have "reads (term_step postings (length xs) (terms_state_of xs)) (terms_state_of (xs @ [x])) (term_bytes x @ [])"
    unfolding term_step_def
    by (rule term_codec.reads_then)
      (use ok in \<open>simp add: terms_ok_snoc term_fine_def terms_push_def reads_ret\<close>)
  then show "reads (term_step postings (length xs) (terms_state_of xs)) (terms_state_of (xs @ [x])) (term_bytes x)"
    by simp
next
  fix xs assume ok: "terms_ok postings xs"
  show "parsed (term_step postings (length xs) (terms_state_of xs))
    (\<lambda>s b. \<exists>x. terms_ok postings (xs @ [x]) \<and> s = terms_state_of (xs @ [x]) \<and> b = term_bytes x)"
    unfolding term_step_def
    by (intro term_codec.parsed_then parsed_if parsed_fail parsed_ret)
      (use ok in \<open>auto simp: terms_ok_snoc term_fine_def terms_push_def\<close>)
qed

lemma ts_terms_state_of [simp]: "ts_terms (terms_state_of ts) = ts"
  by (induction ts rule: rev_induct) (simp_all add: terms_init_def terms_push_def)

definition terms_complete :: "posting list \<Rightarrow> term_record list \<Rightarrow> bool" where
  "terms_complete postings ts \<longleftrightarrow> terms_ok postings ts \<and>
     unat (ts_expected_begin (terms_state_of ts)) = length postings"

lemma load_terms_bytes:
  "load_terms c n postings = Inr (ts, lookup) \<longleftrightarrow> length ts = unat n \<and> terms_complete postings ts \<and>
     lookup = ts_lookup (terms_state_of ts) \<and>
     c = header_bytes k_terms_magic n @ concat (map term_bytes ts)"
proof -
  let ?fin = "\<lambda>s. if unat (ts_expected_begin s) \<noteq> length postings then rfail Postings_uncovered
      else rbind finish (\<lambda>_. rret (ts_terms s, ts_lookup s))"
  have fin: "?fin s c m = Inr (r, k) \<longleftrightarrow> unat (ts_expected_begin s) = length postings \<and> m = length c \<and>
      r = (ts_terms s, ts_lookup s) \<and> k = m" for s c m r k
    by (simp add: rfail_def finish_ret)
  have "map_sum id fst (rbind (read_header k_terms_magic Terms_header n)
      (\<lambda>_. rbind (rfor (term_step postings) [0..<unat n] (terms_state_of [])) ?fin) c 0) = Inr (ts, lookup) \<longleftrightarrow>
    length ts = unat n \<and> terms_complete postings ts \<and> lookup = ts_lookup (terms_state_of ts) \<and>
     c = header_bytes k_terms_magic n @ concat (map term_bytes ts)"
    by (subst term_table.table_file_iff [OF reads_header parsed_header fin])
      (auto simp: k_terms_magic_def terms_complete_def)
  then show ?thesis by (simp add: load_terms_def terms_init_def)
qed

lemma serialize_terms_bytes:
  "terms_ok postings ts \<Longrightarrow> serialize_terms ts =
     Inr (header_bytes k_terms_magic (word_of_nat (length ts)) @ concat (map term_bytes ts))"
  unfolding serialize_terms_def
  by (subst append_all_bytes [where P = term_encodable and g = term_bytes])
    (auto simp: terms_ok_def term_fine_def list_all_length append_term_bytes append_header_eq k_terms_magic_def)

section \<open>What a loaded term dictionary promises\<close>

definition posting_range :: "posting list \<Rightarrow> term_record \<Rightarrow> posting list" where
  "posting_range postings t = take (unat (te_posting_count t)) (drop (unat (te_posting_begin t)) postings)"

text \<open>
  The dictionary is sorted, its ranges cut the posting table into consecutive lists, one per term,
  each strictly increasing in the document, and the lookup is the dictionary's inverse.
\<close>

definition dictionary_wf :: "posting list \<Rightarrow> term_record list \<Rightarrow> (string \<rightharpoonup> nat) \<Rightarrow> bool" where
  "dictionary_wf postings ts lookup \<longleftrightarrow>
     sorted_wrt (<) (map te_term ts) \<and> (\<forall>t\<in>set ts. te_term t \<noteq> []) \<and>
     concat (map (posting_range postings) ts) = postings \<and>
     (\<forall>t\<in>set ts. te_posting_count t = te_document_frequency t \<and>
        length (posting_range postings t) = unat (te_document_frequency t) \<and>
        posting_range postings t \<noteq> [] \<and> sorted_wrt (<) (map po_local_id (posting_range postings t))) \<and>
     (\<forall>term i. lookup term = Some i \<longleftrightarrow> i < length ts \<and> te_term (ts ! i) = term)"

lemma postings_increasing_upt:
  "postings_increasing ps b [i..<n] p \<longleftrightarrow>
     (\<forall>j. i \<le> j \<and> j < n \<and> j \<noteq> 0 \<longrightarrow> (if j = i then p else po_local_id (ps ! (b + (j - 1)))) < po_local_id (ps ! (b + j)))"
proof (induction "n - i" arbitrary: i p)
  case 0
  then have "n \<le> i" by simp
  then show ?case by simp (meson leD le_trans)
next
  case (Suc k)
  then have upt: "[i..<n] = i # [Suc i..<n]" by (simp add: upt_rec)
  have split: "(\<forall>j. i \<le> j \<and> j < n \<and> j \<noteq> 0 \<longrightarrow> Q j) \<longleftrightarrow> (i \<noteq> 0 \<longrightarrow> Q i) \<and> (\<forall>j. Suc i \<le> j \<and> j < n \<longrightarrow> Q j)" for Q
  proof -
    have le: "i \<le> j \<longleftrightarrow> j = i \<or> Suc i \<le> j" for j by auto
    have "i < n" using Suc.hyps(2) by simp
    then show ?thesis unfolding le by auto
  qed
  have "postings_increasing ps b [Suc i..<n] (po_local_id (ps ! (b + i))) \<longleftrightarrow>
      (\<forall>j. Suc i \<le> j \<and> j < n \<longrightarrow> po_local_id (ps ! (b + (j - 1))) < po_local_id (ps ! (b + j)))"
    using Suc.hyps(2) by (subst Suc.hyps(1)) auto
  then show ?case
    unfolding upt split by (auto simp: Let_def not_le)
qed

lemma postings_increasing_sorted:
  assumes "b + n \<le> length ps"
  shows "postings_increasing ps b [0..<n] 0 \<longleftrightarrow> sorted_wrt (<) (map po_local_id (take n (drop b ps)))"
proof -
  have "sorted_wrt (<) (map po_local_id (take n (drop b ps))) \<longleftrightarrow>
      (\<forall>j. Suc j < n \<longrightarrow> po_local_id (ps ! (b + j)) < po_local_id (ps ! (b + Suc j)))"
    using assms by (subst sorted_wrt_iff_nth_Suc_transp) (auto simp: transp_on_def)
  also have "\<dots> \<longleftrightarrow> postings_increasing ps b [0..<n] 0"
    unfolding postings_increasing_upt
  proof (intro iffI allI impI)
    fix j assume h: "\<forall>j. Suc j < n \<longrightarrow> po_local_id (ps ! (b + j)) < po_local_id (ps ! (b + Suc j))"
      and j: "0 \<le> j \<and> j < n \<and> j \<noteq> 0"
    then obtain i where "j = Suc i" by (cases j) auto
    with h j show "(if j = 0 then 0 else po_local_id (ps ! (b + (j - 1)))) < po_local_id (ps ! (b + j))" by simp
  next
    fix j assume h: "\<forall>j. 0 \<le> j \<and> j < n \<and> j \<noteq> 0 \<longrightarrow>
        (if j = 0 then 0 else po_local_id (ps ! (b + (j - 1)))) < po_local_id (ps ! (b + j))" and j: "Suc j < n"
    from h [THEN spec, of "Suc j"] j show "po_local_id (ps ! (b + j)) < po_local_id (ps ! (b + Suc j))" by simp
  qed
  finally show ?thesis ..
qed

text \<open>The loop invariant of the dictionary, on the state after the terms \<open>ts\<close>.\<close>

definition dictionary_inv :: "posting list \<Rightarrow> term_record list \<Rightarrow> bool" where
  "dictionary_inv postings ts \<longleftrightarrow> (let s = terms_state_of ts in
     unat (ts_expected_begin s) \<le> length postings \<and>
     ts_previous s = (if ts = [] then [] else te_term (last ts)) \<and>
     sorted_wrt (<) (map te_term ts) \<and> (\<forall>t\<in>set ts. te_term t \<noteq> []) \<and>
     concat (map (posting_range postings) ts) = take (unat (ts_expected_begin s)) postings \<and>
     (\<forall>t\<in>set ts. te_posting_count t = te_document_frequency t \<and>
        length (posting_range postings t) = unat (te_document_frequency t) \<and>
        posting_range postings t \<noteq> [] \<and> sorted_wrt (<) (map po_local_id (posting_range postings t))) \<and>
     (\<forall>term i. ts_lookup s term = Some i \<longleftrightarrow> i < length ts \<and> te_term (ts ! i) = term))"

lemma sorted_wrt_snoc_last:
  "sorted_wrt (<) xs \<Longrightarrow> xs = [] \<or> last xs < y \<Longrightarrow> sorted_wrt (<) (xs @ [y :: 'a::linorder])"
  by (cases xs rule: rev_cases) (auto simp: sorted_wrt_append)

lemma dictionary_invI:
  assumes len: "length postings < 2 ^ 64"
  shows "terms_ok postings ts \<Longrightarrow> dictionary_inv postings ts"
proof (induction ts rule: rev_induct)
  case Nil
  then show ?case by (simp add: dictionary_inv_def terms_init_def)
next
  case (snoc t ts)
  let ?s = "terms_state_of ts"
  from snoc.prems have ok: "terms_ok postings ts" and f: "term_fine postings ?s t" by (simp_all add: terms_ok_snoc)
  note inv = snoc.IH [OF ok, unfolded dictionary_inv_def Let_def]
  define b n where "b = unat (te_posting_begin t)" and "n = unat (te_posting_count t)"
  from f have v: "te_term t \<noteq> []" "ts_previous ?s = [] \<or> ts_previous ?s < te_term t"
      "te_document_frequency t \<noteq> 0" "te_document_frequency t = te_posting_count t"
      "te_posting_begin t = ts_expected_begin ?s" "b + n \<le> length postings"
    by (auto simp: term_fine_def term_invalid_def b_def n_def not_le not_less)
  have n0: "0 < n" using v(3,4) by (simp add: n_def unat_gt_0)
  have start: "b = unat (ts_expected_begin ?s)" using v(5) by (simp add: b_def)
  have next': "unat (ts_expected_begin ?s + ucast (te_posting_count t)) = b + n"
  proof -
    have "unat (te_posting_count t) < 2 ^ 64"
      by (rule order.strict_trans2 [OF unsigned_less]) simp
    then have "unat (ucast (te_posting_count t) :: u64) = n"
      by (simp add: n_def unsigned_ucast_eq take_bit_nat_eq_self)
    then show ?thesis
      using start v(6) len by (simp add: unat_word_ariths)
  qed
  have range: "posting_range postings t = take n (drop b postings)"
    by (simp add: posting_range_def b_def n_def)
  have part: "concat (map (posting_range postings) (ts @ [t])) = take (b + n) postings"
    using inv by (simp add: range start take_add)
  have sorted: "sorted_wrt (<) (map te_term ts @ [te_term t])"
  proof (rule sorted_wrt_snoc_last)
    show "sorted_wrt (<) (map te_term ts)" using inv by blast
    show "map te_term ts = [] \<or> last (map te_term ts) < te_term t"
      using inv v(2) by (cases "ts = []") (auto simp: last_map split: if_splits)
  qed
  have incr: "sorted_wrt (<) (map po_local_id (posting_range postings t))"
    using f postings_increasing_sorted [OF v(6)] unfolding range
    by (simp add: term_fine_def b_def n_def)
  have len': "length (posting_range postings t) = n" using v(6) by (simp add: range)
  have fresh: "te_term (ts ! i) \<noteq> te_term t" if "i < length ts" for i
  proof -
    have "te_term (ts ! i) < te_term t" using sorted nth_mem [OF that] by (simp add: sorted_wrt_append)
    then show ?thesis by (rule less_imp_neq)
  qed
  have lookup: "((ts_lookup ?s)(te_term t \<mapsto> length ts)) w = Some i \<longleftrightarrow>
      i < length (ts @ [t]) \<and> te_term ((ts @ [t]) ! i) = w" for w i
    using inv fresh by (auto simp: nth_append less_Suc_eq)
  show ?case
    unfolding dictionary_inv_def Let_def terms_state_of_simps terms_push_def terms_state.simps
  proof (intro conjI)
    show "unat (ts_expected_begin ?s + ucast (te_posting_count t)) \<le> length postings"
      using next' v(6) by simp
    show "te_term t = (if ts @ [t] = [] then [] else te_term (last (ts @ [t])))" by simp
    show "sorted_wrt (<) (map te_term (ts @ [t]))" using sorted by simp
    show "\<forall>t\<in>set (ts @ [t]). te_term t \<noteq> []" using inv v(1) by auto
    show "concat (map (posting_range postings) (ts @ [t])) =
        take (unat (ts_expected_begin ?s + ucast (te_posting_count t))) postings"
      using part next' by simp
    show "\<forall>t\<in>set (ts @ [t]). te_posting_count t = te_document_frequency t \<and>
        length (posting_range postings t) = unat (te_document_frequency t) \<and>
        posting_range postings t \<noteq> [] \<and> sorted_wrt (<) (map po_local_id (posting_range postings t))"
      using inv incr len' n0 v(4) by (auto simp: n_def)
    show "\<forall>term i. ((ts_lookup ?s)(te_term t \<mapsto> length (ts_terms ?s))) term = Some i \<longleftrightarrow>
        i < length (ts @ [t]) \<and> te_term ((ts @ [t]) ! i) = term"
      using lookup by simp
  qed
qed

lemma terms_complete_wf:
  assumes "terms_complete postings ts"
  shows "dictionary_wf postings ts (ts_lookup (terms_state_of ts))"
proof -
  let ?s = "terms_state_of ts"
  have e: "unat (ts_expected_begin ?s) = length postings" "terms_ok postings ts"
    using assms by (simp_all add: terms_complete_def)
  have "unat (ts_expected_begin ?s) < 2 ^ 64" by (rule order.strict_trans2 [OF unsigned_less]) simp
  with e have "length postings < 2 ^ 64" by simp
  from dictionary_invI [OF this e(2)] e(1) show ?thesis
    by (simp add: dictionary_inv_def dictionary_wf_def Let_def)
qed

section \<open>The format\<close>

text \<open>
  C12: The file table: a content is accepted for a count exactly when it is what the serialiser writes
  for a table of that many records passing the checks (identifiers distinct and non-zero, sizes
  non-zero, paths of 1 to 512 bytes). So what is written is read back, and nothing else is accepted:
  no second byte string, truncation or trailing byte stands for the same table.
\<close>

theorem load_files_iff:
  "load_files c n = Inr fs \<longleftrightarrow> files_ok fs \<and> length fs = unat n \<and> serialize_files fs = Inr c"
  by (auto simp: load_files_bytes serialize_files_bytes)

text \<open>
  The document table likewise. A record passes when its local id is its index, its global id
  combines batch and local id, its byte range lies inside the file it names, and the required fields
  are there.
\<close>

lemma load_documents_iff:
  "load_documents c n batch_id files = Inr ds \<longleftrightarrow>
     documents_ok batch_id files ds \<and> length ds = unat n \<and> serialize_documents ds = Inr c"
  using serialize_documents_bytes [of batch_id files ds] by (auto simp: load_documents_bytes)

text \<open>
  C13: The posting table and the term dictionary likewise; the dictionary is read against the
  postings it refers to.
\<close>

theorem load_index_iff:
  "(load_postings c n document_count = Inr ps \<longleftrightarrow>
     list_all (posting_fine document_count) ps \<and> length ps = unat n \<and> serialize_postings ps = c) \<and>
   (load_terms d m ps = Inr (ts, lookup) \<longleftrightarrow>
     terms_complete ps ts \<and> lookup = ts_lookup (terms_state_of ts) \<and> length ts = unat m \<and>
     serialize_terms ts = Inr d)"
  using serialize_terms_bytes [of ps ts]
  by (auto simp: load_postings_bytes serialize_postings_bytes load_terms_bytes terms_complete_def)

text \<open>
  C14: An accepted dictionary is strictly sorted by term, its posting ranges are consecutive and
  cover the posting table exactly once, each has as many entries as the term's document frequency,
  with strictly increasing documents, and the lookup map finds exactly the dictionary's terms.
\<close>

theorem load_terms_wf:
  assumes "load_terms c n postings = Inr (ts, lookup)"
  shows "dictionary_wf postings ts lookup"
  using assms terms_complete_wf by (auto simp: load_terms_bytes)

theorem load_terms_wf_witness:
  "\<exists>c ts lookup. load_terms c 1 [\<lparr>po_local_id = 0, po_term_frequency = 1\<rparr>] = Inr (ts, lookup) \<and>
     dictionary_wf [\<lparr>po_local_id = 0, po_term_frequency = 1\<rparr>] ts lookup"
proof -
  let ?p = "[\<lparr>po_local_id = 0, po_term_frequency = 1\<rparr>]"
  let ?t = "[\<lparr>te_term = ''a'', te_document_frequency = 1, te_posting_begin = 0, te_posting_count = 1\<rparr>]"
  have ok: "terms_complete ?p ?t \<and> ts_lookup (terms_state_of ?t) = [''a'' \<mapsto> 0]"
    by (simp add: terms_complete_def terms_ok_def term_fine_def term_invalid_def term_encodable_def
        short_string_def k_string_limit_def terms_state_of_def terms_init_def terms_push_def)
  define c where "c = header_bytes k_terms_magic 1 @ concat (map term_bytes ?t)"
  have load: "load_terms c 1 ?p = Inr (?t, [''a'' \<mapsto> 0])"
    using ok by (simp add: load_terms_bytes c_def)
  from load_terms_wf [OF load] load show ?thesis by auto
qed

end
