(* ===== verification/Original_Log.thy ===== *)
theory Original_Log
  imports Segment_Codec
begin

text \<open>
  Reading an indexed archive back: the path checks of \<open>storage/storage_paths.cpp\<close> and the record
  reader of \<open>indexing/original_log_reader.cpp\<close>. The operating system is a record of functions:
  \<open>realpath\<close>, the kind of a path and the bytes of an openable file; the outcomes of the single \<open>read\<close>
  and \<open>pread\<close> calls are a list \<open>rs\<close> the environment chooses (a short count, \<open>EINTR\<close>, an error), full
  reads once it is used up. The archive is not written while it is read.
\<close>

section \<open>The operating system\<close>

datatype errno = Enoent | Other_errno

record posix =
  px_realpath :: "string \<Rightarrow> errno + string"
  px_regular :: "string \<Rightarrow> bool"
  px_open :: "string \<Rightarrow> string option"

datatype read_outcome = Short_count nat | Eintr | Read_error

datatype archive_error =
    Archive_path_invalid | Archive_file_not_found | Archive_file_not_regular
  | Cannot_open | Size_changed | Cannot_read | Read_truncated | Range_invalid | Integrity_changed

section \<open>Archive paths\<close>

lemma dropWhile_shorter: "dropWhile P xs = y # ys \<Longrightarrow> length ys < length xs"
  using length_dropWhile_le [of P xs] by simp

function relative_parts_valid :: "string \<Rightarrow> bool" where
  "relative_parts_valid rest = (let part = takeWhile (\<lambda>c. c \<noteq> CHR ''/'') rest in
     if part = [] \<or> part = ''.'' \<or> part = ''..'' then False
     else (case dropWhile (\<lambda>c. c \<noteq> CHR ''/'') rest of [] \<Rightarrow> True | _ # next \<Rightarrow> relative_parts_valid next))"
  by auto
termination
  by (relation "measure length") (auto intro: dropWhile_shorter)

declare relative_parts_valid.simps [simp del]

definition valid_relative_path :: "string \<Rightarrow> bool" where
  "valid_relative_path path =
     (if path = [] \<or> hd path = CHR ''/'' then False else relative_parts_valid path)"

definition resolve_archive_file :: "posix \<Rightarrow> string \<Rightarrow> string \<Rightarrow> archive_error + string" where
  "resolve_archive_file px archive_root relative_path =
     (if \<not> valid_relative_path relative_path then Inl Archive_path_invalid
      else case px_realpath px archive_root of
          Inl _ \<Rightarrow> Inl Cannot_open
        | Inr root \<Rightarrow>
            (case px_realpath px (archive_root @ ''/'' @ relative_path) of
                Inl e \<Rightarrow> Inl (if e = Enoent then Archive_file_not_found else Archive_path_invalid)
              | Inr candidate \<Rightarrow>
                  (let prefix = root @ ''/''
                   in if take (length prefix) candidate \<noteq> prefix then Inl Archive_path_invalid
                      else if \<not> px_regular px candidate then Inl Archive_file_not_regular
                      else Inr candidate)))"

section \<open>Reading\<close>

definition open_verified :: "posix \<Rightarrow> string \<Rightarrow> file_record \<Rightarrow> archive_error + string" where
  "open_verified px archive_root file =
     sbind (resolve_archive_file px archive_root (fr_relative_path file)) (\<lambda>path.
       case px_open px path of
         None \<Rightarrow> Inl Cannot_open
       | Some content \<Rightarrow>
           if length content \<noteq> unat (fr_file_size file) then Inl Size_changed else Inr content)"

text \<open>One \<open>pread\<close>: at most \<open>want\<close> bytes, nothing at the end of the file, otherwise at least one.\<close>

definition pread_bytes :: "string \<Rightarrow> nat \<Rightarrow> nat \<Rightarrow> nat \<Rightarrow> string" where
  "pread_bytes content pos want k = take (min want (max 1 k)) (drop pos content)"

function pread_loop ::
    "string \<Rightarrow> nat \<Rightarrow> nat \<Rightarrow> read_outcome list \<Rightarrow> string \<Rightarrow> archive_error + string" where
  "pread_loop content byte_offset nbytes rs buffer =
     (if nbytes \<le> length buffer then Inr buffer
      else case rs of
          Eintr # rs' \<Rightarrow> pread_loop content byte_offset nbytes rs' buffer
        | Read_error # rs' \<Rightarrow> Inl Cannot_read
        | Short_count k # rs' \<Rightarrow>
            (let got = pread_bytes content (byte_offset + length buffer) (nbytes - length buffer) k
             in if got = [] then Inl Read_truncated
                else pread_loop content byte_offset nbytes rs' (buffer @ got))
        | [] \<Rightarrow>
            (let got = pread_bytes content (byte_offset + length buffer) (nbytes - length buffer) nbytes
             in if got = [] then Inl Read_truncated
                else pread_loop content byte_offset nbytes [] (buffer @ got)))"
  by pat_completeness auto
termination
  by (relation "measure (\<lambda>(content, off, n, rs, buffer). (n - length buffer) + length rs)")
    (auto simp: pread_bytes_def)

declare pread_loop.simps [simp del]

definition k_off_max :: nat where "k_off_max = 2 ^ 63 - 1"

definition read_original_record ::
    "posix \<Rightarrow> string \<Rightarrow> read_outcome list \<Rightarrow> file_record \<Rightarrow> u64 \<Rightarrow> u64 \<Rightarrow> archive_error + string" where
  "read_original_record px archive_root rs file byte_offset byte_length =
     (if byte_length = 0 \<or> byte_offset > fr_file_size file \<or>
         byte_length > fr_file_size file - byte_offset \<or> unat byte_offset > k_off_max
      then Inl Range_invalid
      else sbind (open_verified px archive_root file) (\<lambda>content.
        pread_loop content (unat byte_offset) (unat byte_length) rs []))"

text \<open>The loop that reads the whole file into the digest, in blocks of 65536 bytes.\<close>

function read_loop :: "string \<Rightarrow> read_outcome list \<Rightarrow> string \<Rightarrow> archive_error + string" where
  "read_loop content rs digested =
     (case rs of
        Eintr # rs' \<Rightarrow> read_loop content rs' digested
      | Read_error # rs' \<Rightarrow> Inl Cannot_read
      | Short_count k # rs' \<Rightarrow>
          (let got = pread_bytes content (length digested) 65536 k
           in if got = [] then Inr digested else read_loop content rs' (digested @ got))
      | [] \<Rightarrow>
          (let got = pread_bytes content (length digested) 65536 65536
           in if got = [] then Inr digested else read_loop content [] (digested @ got)))"
  by pat_completeness auto
termination
  by (relation "measure (\<lambda>(content, rs, d). (length content - length d) + length rs)")
    (auto simp: pread_bytes_def)

declare read_loop.simps [simp del]

definition verify_original_archive ::
    "(string \<Rightarrow> string) \<Rightarrow> posix \<Rightarrow> string \<Rightarrow> read_outcome list \<Rightarrow> file_record \<Rightarrow> archive_error + unit" where
  "verify_original_archive sha256 px archive_root rs file =
     sbind (open_verified px archive_root file) (\<lambda>content.
     sbind (read_loop content rs []) (\<lambda>digested.
       if length digested \<noteq> unat (fr_file_size file) \<or> sha256 digested \<noteq> fr_file_sha256 file
       then Inl Integrity_changed else Inr ()))"

section \<open>Path properties\<close>

fun split_slash :: "string \<Rightarrow> string list" where
  "split_slash [] = [[]]"
| "split_slash (c # s) = (if c = CHR ''/'' then [] # split_slash s
     else (c # hd (split_slash s)) # tl (split_slash s))"

lemma split_slash_step:
  "split_slash s = takeWhile (\<lambda>c. c \<noteq> CHR ''/'') s #
     (case dropWhile (\<lambda>c. c \<noteq> CHR ''/'') s of [] \<Rightarrow> [] | _ # r \<Rightarrow> split_slash r)"
  by (induction s) (auto split: list.splits)

lemma relative_parts_valid_split:
  "relative_parts_valid s \<longleftrightarrow> (\<forall>p\<in>set (split_slash s). p \<noteq> [] \<and> p \<noteq> ''.'' \<and> p \<noteq> ''..'')"
proof (induction s rule: relative_parts_valid.induct)
  case (1 rest)
  show ?case
  proof (cases "dropWhile (\<lambda>c. c \<noteq> CHR ''/'') rest")
    case Nil
    then show ?thesis
      unfolding relative_parts_valid.simps [of rest] split_slash_step [of rest] Nil
      by (simp add: Let_def)
  next
    case (Cons c r)
    with 1 show ?thesis
      unfolding relative_parts_valid.simps [of rest] split_slash_step [of rest] Cons
      by (auto simp: Let_def)
  qed
qed

lemma valid_relative_path_iff:
  "valid_relative_path path \<longleftrightarrow> (\<forall>p\<in>set (split_slash path). p \<noteq> [] \<and> p \<noteq> ''.'' \<and> p \<noteq> ''..'')"
proof (cases "path = [] \<or> hd path = CHR ''/''")
  case True
  then have "[] \<in> set (split_slash path)" by (cases path) auto
  with True show ?thesis by (auto simp: valid_relative_path_def)
qed (simp add: valid_relative_path_def relative_parts_valid_split)

text \<open>
  C34: A path the archive resolves lies under the canonical archive root and is a regular file, and
  it came from a relative path none of whose components is empty, a dot or a double dot.
\<close>

theorem resolve_archive_contained:
  assumes "resolve_archive_file px archive_root p = Inr candidate"
  shows "(\<exists>root rest. px_realpath px archive_root = Inr root \<and> candidate = root @ ''/'' @ rest) \<and>
    px_regular px candidate \<and> (\<forall>part\<in>set (split_slash p). part \<noteq> [] \<and> part \<noteq> ''.'' \<and> part \<noteq> ''..'')"
proof -
  obtain root where r: "px_realpath px archive_root = Inr root"
    and v: "valid_relative_path p" and reg: "px_regular px candidate"
    and pre: "take (length (root @ ''/'')) candidate = root @ ''/''"
    using assms by (auto simp: resolve_archive_file_def Let_def split: if_splits sum.splits)
  have "candidate = (root @ ''/'') @ drop (length (root @ ''/'')) candidate"
    by (metis append_take_drop_id pre)
  with r v reg show ?thesis by (auto simp: valid_relative_path_iff)
qed

theorem resolve_archive_contained_witness:
  "\<exists>px. resolve_archive_file px ''/a'' ''b/c'' = Inr ''/a/b/c'' \<and> (\<exists>root rest. px_realpath px ''/a'' = Inr root \<and> ''/a/b/c'' = root @ ''/'' @ rest)"
proof -
  let ?px = "\<lparr>px_realpath = Inr, px_regular = (\<lambda>_. True), px_open = (\<lambda>_. None)\<rparr>"
  have "resolve_archive_file ?px ''/a'' ''b/c'' = Inr ''/a/b/c''"
    by (simp add: resolve_archive_file_def valid_relative_path_iff)
  from resolve_archive_contained [OF this] this show ?thesis by blast
qed

section \<open>Reading properties\<close>

lemma take_length_take: "take (length (take n xs)) xs = take n xs"
  by (cases "n \<le> length xs") simp_all

lemma pread_loop_correct:
  "buffer = take (length buffer) (drop byte_offset content) \<Longrightarrow> byte_offset + nbytes \<le> length content \<Longrightarrow>
   length buffer \<le> nbytes \<Longrightarrow> pread_loop content byte_offset nbytes rs buffer = r \<Longrightarrow>
   r = Inr (take nbytes (drop byte_offset content)) \<or> r = Inl Cannot_read \<and> Read_error \<in> set rs"
proof (induction content byte_offset nbytes rs buffer arbitrary: r rule: pread_loop.induct)
  case (1 content byte_offset nbytes rs buffer)
  show ?case
  proof (cases "nbytes \<le> length buffer")
    case True
    with 1(4-) show ?thesis by (auto simp: pread_loop.simps [of content])
  next
    case False
    have got: "pread_bytes content (byte_offset + length buffer) (nbytes - length buffer) k \<noteq> []"
        "length (buffer @ pread_bytes content (byte_offset + length buffer) (nbytes - length buffer) k) \<le> nbytes"
        "buffer @ pread_bytes content (byte_offset + length buffer) (nbytes - length buffer) k =
          take (length (buffer @ pread_bytes content (byte_offset + length buffer) (nbytes - length buffer) k))
            (drop byte_offset content)" for k
    proof -
      let ?g = "pread_bytes content (byte_offset + length buffer) (nbytes - length buffer) k"
      have len: "length ?g \<le> nbytes - length buffer" by (simp add: pread_bytes_def)
      show "?g \<noteq> []" using False 1(5) by (auto simp: pread_bytes_def)
      show "length (buffer @ ?g) \<le> nbytes" using len False by simp
      have "?g = take (min (nbytes - length buffer) (max 1 k)) (drop (length buffer) (drop byte_offset content))"
        by (simp add: pread_bytes_def add.commute)
      then have "?g = take (length ?g) (drop (length buffer) (drop byte_offset content))"
        by (metis take_length_take)
      then show "buffer @ ?g = take (length (buffer @ ?g)) (drop byte_offset content)"
        using 1(4) take_add [of "length buffer" "length ?g" "drop byte_offset content"] by simp
    qed
    show ?thesis
    proof (cases rs)
      case Nil
      have "pread_loop content byte_offset nbytes rs buffer = pread_loop content byte_offset nbytes []
          (buffer @ pread_bytes content (byte_offset + length buffer) (nbytes - length buffer) nbytes)"
        using False got(1) Nil by (subst pread_loop.simps) (simp add: Let_def)
      then show ?thesis
        using 1(1) [OF False Nil refl got(1) got(3) 1(5) got(2) refl] 1(7) Nil by simp
    next
      case (Cons o' rs')
      show ?thesis
      proof (cases o')
        case (Short_count k)
        have "pread_loop content byte_offset nbytes rs buffer = pread_loop content byte_offset nbytes rs'
            (buffer @ pread_bytes content (byte_offset + length buffer) (nbytes - length buffer) k)"
          using False got(1) Cons Short_count by (subst pread_loop.simps) (simp add: Let_def)
        then show ?thesis
          using 1(2) [OF False Cons Short_count refl got(1) got(3) 1(5) got(2) refl] 1(7) Cons by auto
      next
        case Eintr
        then show ?thesis
          using 1(3) [OF False Cons Eintr 1(4,5,6) refl] 1(7) Cons False
          by (subst (asm) (2) pread_loop.simps) auto
      next
        case Read_error
        then show ?thesis
          using 1(7) Cons False by (subst (asm) pread_loop.simps) auto
      qed
    qed
  qed
qed

lemma read_loop_correct:
  "digested = take (length digested) content \<Longrightarrow>
   read_loop content rs digested = Inr content \<or> read_loop content rs digested = Inl Cannot_read \<and> Read_error \<in> set rs"
proof (induction content rs digested rule: read_loop.induct)
  case (1 content rs digested)
  have got: "digested @ pread_bytes content (length digested) 65536 k =
      take (length (digested @ pread_bytes content (length digested) 65536 k)) content" for k
    using 1(4) take_add [of "length digested" "length (pread_bytes content (length digested) 65536 k)" content]
      take_length_take [of "min 65536 (max 1 k)" "drop (length digested) content"]
    by (simp add: pread_bytes_def)
  have done': "pread_bytes content (length digested) 65536 k = [] \<Longrightarrow> digested = content" for k
    using 1(4) by (auto simp: pread_bytes_def)
  show ?case
  proof (cases rs)
    case Nil
    then show ?thesis
      using 1(1) [OF Nil refl _ got] done' [of 65536] by (subst (1 2) read_loop.simps) (auto simp: Let_def)
  next
    case (Cons o' rs')
    show ?thesis
    proof (cases o')
      case (Short_count k)
      then show ?thesis
        using 1(2) [OF Cons Short_count refl _ got] done' [of k] Cons
        by (subst (1 2) read_loop.simps) (auto simp: Let_def)
    next
      case Eintr
      then show ?thesis
        using 1(3) [OF Cons Eintr 1(4)] Cons by (subst (1 2) read_loop.simps) auto
    next
      case Read_error
      then show ?thesis using Cons by (subst (1 2) read_loop.simps) auto
    qed
  qed
qed

lemma range_valid_unat:
  "(off \<le> sz \<and> len \<le> sz - off) \<longleftrightarrow> unat off + unat len \<le> unat (sz :: u64)"
proof
  assume a: "off \<le> sz \<and> len \<le> sz - off"
  then have "unat (sz - off) = unat sz - unat off" by (simp add: unat_sub)
  moreover have "unat len \<le> unat (sz - off)" using a by (simp add: word_le_nat_alt)
  moreover have "unat off \<le> unat sz" using a by (simp add: word_le_nat_alt)
  ultimately show "unat off + unat len \<le> unat sz" by linarith
next
  assume a: "unat off + unat len \<le> unat sz"
  then have o': "off \<le> sz" by (simp add: word_le_nat_alt)
  then have "unat (sz - off) = unat sz - unat off" by (simp add: unat_sub)
  with a o' show "off \<le> sz \<and> len \<le> sz - off" by (simp add: word_le_nat_alt)
qed

lemma open_verified_length:
  "open_verified px root file = Inr content \<Longrightarrow> length content = unat (fr_file_size file)"
  by (auto simp: open_verified_def sbind_def split: sum.splits option.splits if_splits)

text \<open>
  C33: However the operating system splits the reads and interrupts them, as long as none fails a
  record is returned exactly when the archive opens with its indexed size and the range is a
  non-empty one inside the file, and then it is the very bytes of that range.
\<close>

theorem read_original_exact:
  assumes "Read_error \<notin> set rs"
  shows "read_original_record px root rs file off len = Inr raw \<longleftrightarrow>
    (\<exists>content. open_verified px root file = Inr content \<and> 0 < unat len \<and> unat off \<le> k_off_max \<and>
       unat off + unat len \<le> length content \<and> raw = take (unat len) (drop (unat off) content))"
proof -
  have guard: "(len = 0 \<or> off > fr_file_size file \<or> len > fr_file_size file - off \<or> unat off > k_off_max) \<longleftrightarrow>
      \<not> (0 < unat len \<and> unat off + unat len \<le> unat (fr_file_size file) \<and> unat off \<le> k_off_max)"
    using range_valid_unat [of off "fr_file_size file" len] by (auto simp: not_le not_less unat_gt_0)
  have loop: "pread_loop content (unat off) (unat len) rs [] = Inr (take (unat len) (drop (unat off) content))"
    if "unat off + unat len \<le> length content" for content
    using pread_loop_correct [of "[]" "unat off" content "unat len" rs] that assms by auto
  show ?thesis
  proof (cases "open_verified px root file")
    case (Inl e)
    then show ?thesis by (auto simp: read_original_record_def)
  next
    case (Inr content)
    with open_verified_length [OF Inr] show ?thesis
      unfolding read_original_record_def guard by (auto simp: loop)
  qed
qed

theorem read_original_exact_witness:
  "\<exists>px file. read_original_record px ''/a'' [Short_count 1, Eintr] file 1 2 = Inr ''og''"
proof -
  let ?px = "\<lparr>px_realpath = Inr, px_regular = (\<lambda>_. True), px_open = (\<lambda>_. Some ''logs'')\<rparr>"
  let ?f = "\<lparr>fr_archive_id = 1, fr_file_size = 4, fr_file_sha256 = [], fr_relative_path = ''x''\<rparr>"
  have "open_verified ?px ''/a'' ?f = Inr ''logs''"
    by (simp add: open_verified_def resolve_archive_file_def valid_relative_path_iff)
  then have "read_original_record ?px ''/a'' [Short_count 1, Eintr] ?f 1 2 = Inr ''og''"
    by (subst read_original_exact) (simp_all add: k_off_max_def)
  then show ?thesis by blast
qed

lemma verify_original_iff:
  assumes "Read_error \<notin> set rs"
  shows "verify_original_archive sha256 px root rs file = Inr () \<longleftrightarrow>
    (\<exists>content. open_verified px root file = Inr content \<and> sha256 content = fr_file_sha256 file)"
proof (cases "open_verified px root file")
  case (Inr content)
  have "read_loop content rs [] = Inr content" using read_loop_correct [of "[]" content rs] assms by auto
  with Inr open_verified_length [OF Inr] show ?thesis by (simp add: verify_original_archive_def)
qed (simp add: verify_original_archive_def)

end
