(* ===== verification/Index_Snapshot.thy ===== *)
theory Index_Snapshot
  imports Original_Log Complex_Main
begin

text \<open>
  Loaded segments (\<open>LoadedSegment\<close> of \<open>indexing/segment_models.h\<close>) and the snapshot over them
  (\<open>indexing/index_snapshot.cpp\<close>). A null segment pointer is \<open>None\<close>. \<open>segment_wf\<close> is what loading
  guarantees; \<open>find_document_iff\<close> shows that the search by identifier is exact on such segments.
\<close>

section \<open>Segments\<close>

record loaded_segment =
  ls_format_version :: u32
  ls_batch_id :: u64
  ls_first_archive_id :: u64
  ls_last_archive_id :: u64
  ls_source_file_count :: nat
  ls_parsed_file_count :: nat
  ls_segment_name :: string
  ls_manifest_sha256 :: string
  ls_average_document_length :: real
  ls_min_occurred_at_ms :: int
  ls_max_occurred_at_ms :: int
  ls_files :: "file_record list"
  ls_documents :: "document_record list"
  ls_postings :: "posting list"
  ls_terms :: "term_record list"
  ls_term_lookup :: "string \<rightharpoonup> nat"

definition segment_wf :: "loaded_segment \<Rightarrow> bool" where
  "segment_wf s \<longleftrightarrow> ls_batch_id s < 2 ^ 32 \<and> files_ok (ls_files s) \<and>
     documents_ok (ls_batch_id s) (ls_files s) (ls_documents s) \<and>
     length (ls_documents s) < 2 ^ 32 \<and>
     list_all (posting_fine (length (ls_documents s))) (ls_postings s) \<and>
     dictionary_wf (ls_postings s) (ls_terms s) (ls_term_lookup s)"

section \<open>Snapshots\<close>

datatype snapshot_error = Segments_not_increasing | Document_absent | Cannot_read_original archive_error

record index_snapshot =
  sn_segments :: "loaded_segment list"
  sn_version :: u64
  sn_document_count :: nat

definition empty_snapshot :: index_snapshot where
  "empty_snapshot = \<lparr>sn_segments = [], sn_version = 0, sn_document_count = 0\<rparr>"

fun snapshot_loop ::
    "loaded_segment option list \<Rightarrow> u64 \<Rightarrow> index_snapshot \<Rightarrow> snapshot_error + index_snapshot" where
  "snapshot_loop [] previous s = Inr s"
| "snapshot_loop (None # rest) previous s = Inl Segments_not_increasing"
| "snapshot_loop (Some seg # rest) previous s =
     (if ls_batch_id seg \<le> previous then Inl Segments_not_increasing
      else snapshot_loop rest (ls_batch_id seg)
        (s\<lparr>sn_segments := sn_segments s @ [seg], sn_version := ls_batch_id seg,
           sn_document_count := sn_document_count s + length (ls_documents seg)\<rparr>))"

definition new_snapshot :: "loaded_segment option list \<Rightarrow> snapshot_error + index_snapshot" where
  "new_snapshot segments = snapshot_loop segments 0 empty_snapshot"

fun find_in_segments ::
    "loaded_segment list \<Rightarrow> u64 \<Rightarrow> u32 \<Rightarrow> u64 \<Rightarrow> (document_record \<times> file_record) option" where
  "find_in_segments [] batch_id local_id doc_id = None"
| "find_in_segments (seg # rest) batch_id local_id doc_id =
     (if ls_batch_id seg < batch_id then find_in_segments rest batch_id local_id doc_id
      else if ls_batch_id seg > batch_id \<or> unat local_id \<ge> length (ls_documents seg) then None
      else let candidate = ls_documents seg ! unat local_id
           in if dr_doc_id candidate \<noteq> doc_id \<or> unat (dr_file_ordinal candidate) \<ge> length (ls_files seg)
              then None
              else Some (candidate, ls_files seg ! unat (dr_file_ordinal candidate)))"

definition find_document :: "index_snapshot \<Rightarrow> u64 \<Rightarrow> (document_record \<times> file_record) option" where
  "find_document s doc_id =
     find_in_segments (sn_segments s) (drop_bit 32 doc_id) (ucast (doc_id AND 0xFFFFFFFF)) doc_id"

text \<open>\<open>readOriginal\<close> of the snapshot store, on the current snapshot.\<close>

definition read_original ::
    "posix \<Rightarrow> string \<Rightarrow> read_outcome list \<Rightarrow> index_snapshot \<Rightarrow> u64 \<Rightarrow> snapshot_error + string" where
  "read_original px archive_root rs s doc_id =
     (case find_document s doc_id of
        None \<Rightarrow> Inl Document_absent
      | Some (document, file) \<Rightarrow> map_sum Cannot_read_original id
          (read_original_record px archive_root rs file (dr_byte_offset document) (dr_byte_length document)))"

section \<open>Identifiers\<close>

lemma less_32_take_bit: "b < 2 ^ 32 \<longleftrightarrow> take_bit 32 b = (b :: u64)"
proof -
  have "b < 2 ^ 32 \<longleftrightarrow> unat b < 2 ^ 32" by (simp add: word_less_nat_alt)
  also have "\<dots> \<longleftrightarrow> take_bit 32 (unat b) = unat b" by (simp add: take_bit_nat_eq_self_iff)
  also have "\<dots> \<longleftrightarrow> unat (take_bit 32 b) = unat b" by (simp only: unsigned_take_bit_eq)
  also have "\<dots> \<longleftrightarrow> take_bit 32 b = b" by (simp only: word_unat_eq_iff)
  finally show ?thesis .
qed

lemma doc_id_batch: "b < 2 ^ 32 \<Longrightarrow> drop_bit 32 (make_doc_id b l) = b"
proof (rule bit_word_eqI)
  fix n assume b: "b < 2 ^ 32" and n: "n < LENGTH(64)"
  have "bit b n \<Longrightarrow> n < 32"
  proof -
    have "take_bit 32 b = b" using b by (simp only: less_32_take_bit)
    then show "bit b n \<Longrightarrow> n < 32" by (metis bit_take_bit_iff)
  qed
  then show "bit (drop_bit 32 (make_doc_id b l)) n = bit b n"
    by (auto simp: make_doc_id_def bit_simps dest: bit_imp_le_length)
qed

lemma doc_id_local: "ucast (make_doc_id b l AND 0xFFFFFFFF) = l"
proof (rule bit_word_eqI)
  fix n assume n: "n < LENGTH(32)"
  have mask: "(0xFFFFFFFF :: u64) = mask 32" by (simp add: mask_eq_exp_minus_1)
  show "bit (ucast (make_doc_id b l AND 0xFFFFFFFF) :: u32) n = bit l n"
    using n unfolding mask by (auto simp: make_doc_id_def bit_simps)
qed

lemma doc_id_parts: "make_doc_id (drop_bit 32 i) (ucast (i AND 0xFFFFFFFF)) = i"
proof (rule bit_word_eqI)
  fix n assume n: "n < LENGTH(64)"
  have mask: "(0xFFFFFFFF :: u64) = mask 32" by (simp add: mask_eq_exp_minus_1)
  show "bit (make_doc_id (drop_bit 32 i) (ucast (i AND 0xFFFFFFFF))) n = bit i n"
    using n unfolding mask by (cases "n < 32") (auto simp: make_doc_id_def bit_simps)
qed

lemma drop_bit_less: "drop_bit 32 (i :: u64) < 2 ^ 32"
proof -
  have "take_bit 32 (drop_bit 32 i) = drop_bit 32 i"
    by (rule bit_word_eqI) (auto simp: bit_simps dest: bit_imp_le_length)
  then show ?thesis by (simp only: less_32_take_bit)
qed

section \<open>A sample\<close>

text \<open>A segment of one document with one term, on which the properties are instantiated.\<close>

definition sample_file :: file_record where
  "sample_file = \<lparr>fr_archive_id = 5, fr_file_size = 10, fr_file_sha256 = replicate 64 CHR ''0'',
     fr_relative_path = ''a''\<rparr>"

definition sample_document :: document_record where
  "sample_document = \<lparr>dr_doc_id = 0x100000000, dr_local_id = 0, dr_file_ordinal = 0, dr_archive_id = 5,
     dr_byte_offset = 2, dr_byte_length = 3, dr_occurred_at_ms = 1000, dr_archived_at_ms = 2000,
     dr_term_count = 1, dr_line_id = ''L'', dr_station_id = ''S'', dr_device_id = ''D'',
     dr_collector_id = ''C'', dr_work_order = [], dr_product_sn = [], dr_source_type = ''runtime'',
     dr_level = ''ERROR'', dr_module_name = ''M'', dr_error_code = ''E1'', dr_event_name = []\<rparr>"

definition sample_segment :: loaded_segment where
  "sample_segment = \<lparr>ls_format_version = 1, ls_batch_id = 1, ls_first_archive_id = 5, ls_last_archive_id = 5,
     ls_source_file_count = 1, ls_parsed_file_count = 1, ls_segment_name = ''segment_1'',
     ls_manifest_sha256 = replicate 64 CHR ''0'', ls_average_document_length = 1,
     ls_min_occurred_at_ms = 1000, ls_max_occurred_at_ms = 1000, ls_files = [sample_file],
     ls_documents = [sample_document], ls_postings = [\<lparr>po_local_id = 0, po_term_frequency = 1\<rparr>],
     ls_terms = [\<lparr>te_term = ''x'', te_document_frequency = 1, te_posting_begin = 0, te_posting_count = 1\<rparr>],
     ls_term_lookup = [''x'' \<mapsto> 0]\<rparr>"

definition sample_snapshot :: index_snapshot where
  "sample_snapshot = \<lparr>sn_segments = [sample_segment], sn_version = 1, sn_document_count = 1\<rparr>"

lemma sample_segment_wf: "segment_wf sample_segment"
proof -
  have "make_doc_id 1 0 = 0x100000000" by (simp add: make_doc_id_def push_bit_eq_mult)
  then have "documents_ok 1 [sample_file] [sample_document]"
    by (simp add: documents_ok_def document_encodable_def document_invalid_def int64_range_def
        short_string_def k_string_limit_def sample_document_def sample_file_def)
  moreover have "files_ok [sample_file]"
    by (simp add: files_ok_def file_fine_def file_encodable_def valid_sha256_def list_all_length
        is_lower_hex_def is_digit_def short_string_def k_string_limit_def sample_file_def)
  ultimately show ?thesis
    by (simp add: segment_wf_def sample_segment_def posting_fine_def dictionary_wf_def posting_range_def
        nth_Cons')
qed

section \<open>Lookup\<close>

definition snapshot_wf :: "index_snapshot \<Rightarrow> bool" where
  "snapshot_wf s \<longleftrightarrow> sorted_wrt (<) (map ls_batch_id (sn_segments s)) \<and>
     list_all segment_wf (sn_segments s) \<and> list_all (\<lambda>g. 0 < ls_batch_id g) (sn_segments s) \<and>
     sn_version s = (if sn_segments s = [] then 0 else ls_batch_id (last (sn_segments s))) \<and>
     sn_document_count s = sum_list (map (\<lambda>g. length (ls_documents g)) (sn_segments s))"

lemma snapshot_loop_inv:
  assumes "snapshot_loop gs previous s = Inr t"
    and "sorted_wrt (<) (map ls_batch_id (sn_segments s))"
    and "sn_segments s = [] \<and> previous = 0 \<and> sn_version s = 0 \<or>
         sn_segments s \<noteq> [] \<and> previous = ls_batch_id (last (sn_segments s)) \<and> sn_version s = previous"
    and "sn_document_count s = sum_list (map (\<lambda>g. length (ls_documents g)) (sn_segments s))"
    and "list_all (\<lambda>g. 0 < ls_batch_id g) (sn_segments s)"
  shows "gs = map Some (drop (length (sn_segments s)) (sn_segments t)) \<and>
    sorted_wrt (<) (map ls_batch_id (sn_segments t)) \<and> list_all (\<lambda>g. 0 < ls_batch_id g) (sn_segments t) \<and>
    sn_version t = (if sn_segments t = [] then 0 else ls_batch_id (last (sn_segments t))) \<and>
    sn_document_count t = sum_list (map (\<lambda>g. length (ls_documents g)) (sn_segments t)) \<and>
    (\<exists>new. sn_segments t = sn_segments s @ new)"
  using assms
proof (induction gs previous s rule: snapshot_loop.induct)
  case (1 previous s)
  then show ?case by auto
next
  case (2 rest previous s)
  then show ?case by simp
next
  case (3 seg rest previous s)
  let ?s = "s\<lparr>sn_segments := sn_segments s @ [seg], sn_version := ls_batch_id seg,
           sn_document_count := sn_document_count s + length (ls_documents seg)\<rparr>"
  have less: "previous < ls_batch_id seg" and t: "snapshot_loop rest (ls_batch_id seg) ?s = Inr t"
    using 3(2) by (auto split: if_splits)
  have nleq: "\<not> ls_batch_id seg \<le> previous" using less by simp
  have sorted: "sorted_wrt (<) (map ls_batch_id (sn_segments ?s))"
    using sorted_wrt_snoc_last [OF 3(3), of "ls_batch_id seg"] 3(4) less by (auto simp: last_map)
  have pos: "0 < ls_batch_id seg" using less by (metis word_gt_0 word_not_simps(1))
  note ih = 3(1) [OF nleq t sorted]
  have "rest = map Some (drop (length (sn_segments ?s)) (sn_segments t)) \<and>
    sorted_wrt (<) (map ls_batch_id (sn_segments t)) \<and> list_all (\<lambda>g. 0 < ls_batch_id g) (sn_segments t) \<and>
    sn_version t = (if sn_segments t = [] then 0 else ls_batch_id (last (sn_segments t))) \<and>
    sn_document_count t = sum_list (map (\<lambda>g. length (ls_documents g)) (sn_segments t)) \<and>
    (\<exists>new. sn_segments t = sn_segments ?s @ new)"
    by (rule ih) (use 3(5,6) pos in simp_all)
  then show ?case by auto
qed

lemma new_snapshot_wf:
  assumes "new_snapshot (map Some gs) = Inr s" "list_all segment_wf gs"
  shows "snapshot_wf s \<and> sn_segments s = gs"
proof -
  have "map Some gs = map Some (drop (length (sn_segments empty_snapshot)) (sn_segments s)) \<and>
    sorted_wrt (<) (map ls_batch_id (sn_segments s)) \<and> list_all (\<lambda>g. 0 < ls_batch_id g) (sn_segments s) \<and>
    sn_version s = (if sn_segments s = [] then 0 else ls_batch_id (last (sn_segments s))) \<and>
    sn_document_count s = sum_list (map (\<lambda>g. length (ls_documents g)) (sn_segments s)) \<and>
    (\<exists>new. sn_segments s = sn_segments empty_snapshot @ new)"
    by (rule snapshot_loop_inv [OF assms(1) [unfolded new_snapshot_def]]) (simp_all add: empty_snapshot_def)
  moreover from this have "gs = sn_segments s"
    by (auto simp: empty_snapshot_def inj_map_eq_map)
  ultimately show ?thesis using assms(2) by (simp add: snapshot_wf_def)
qed

lemma new_snapshot_accepts:
  "(\<exists>s. snapshot_loop (map Some gs) p s0 = Inr s) \<longleftrightarrow> sorted_wrt (<) (p # map ls_batch_id gs)"
proof (induction gs arbitrary: p s0)
  case (Cons g gs)
  then show ?case
    by (auto simp: not_le dest: order.strict_trans)
qed simp

lemma segment_document_id:
  assumes "segment_wf g" "i < length (ls_documents g)"
  shows "dr_doc_id (ls_documents g ! i) = make_doc_id (ls_batch_id g) (dr_local_id (ls_documents g ! i))"
    "unat (dr_local_id (ls_documents g ! i)) = i"
    "unat (dr_file_ordinal (ls_documents g ! i)) < length (ls_files g)"
  using assms by (auto simp: segment_wf_def documents_ok_def document_invalid_def)

lemma find_in_segments_iff:
  assumes "sorted_wrt (<) (map ls_batch_id gs)" "list_all segment_wf gs"
  shows "find_in_segments gs (drop_bit 32 i) (ucast (i AND 0xFFFFFFFF)) i = Some (d, f) \<longleftrightarrow>
    (\<exists>g\<in>set gs. d \<in> set (ls_documents g) \<and> dr_doc_id d = i \<and> f = ls_files g ! unat (dr_file_ordinal d))"
  using assms
proof (induction gs)
  case Nil
  then show ?case by simp
next
  case (Cons g gs)
  let ?b = "drop_bit 32 i" and ?l = "ucast (i AND 0xFFFFFFFF) :: u32"
  have wf: "segment_wf g" using Cons.prems(2) by simp
  have here: "(\<exists>d. d \<in> set (ls_documents g) \<and> dr_doc_id d = i \<and> Q d) \<longleftrightarrow>
      ls_batch_id g = ?b \<and> unat ?l < length (ls_documents g) \<and> dr_doc_id (ls_documents g ! unat ?l) = i \<and>
      Q (ls_documents g ! unat ?l)" for Q
  proof
    assume "\<exists>d. d \<in> set (ls_documents g) \<and> dr_doc_id d = i \<and> Q d"
    then obtain k where k: "k < length (ls_documents g)" "dr_doc_id (ls_documents g ! k) = i" "Q (ls_documents g ! k)"
      by (auto simp: in_set_conv_nth)
    note s = segment_document_id [OF wf k(1)]
    have "?b = ls_batch_id g" using s(1) k(2) doc_id_batch wf by (metis segment_wf_def)
    moreover have "?l = dr_local_id (ls_documents g ! k)" using s(1) k(2) doc_id_local by metis
    ultimately show "ls_batch_id g = ?b \<and> unat ?l < length (ls_documents g) \<and>
        dr_doc_id (ls_documents g ! unat ?l) = i \<and> Q (ls_documents g ! unat ?l)"
      using k s(2) by simp
  next
    assume "ls_batch_id g = ?b \<and> unat ?l < length (ls_documents g) \<and>
      dr_doc_id (ls_documents g ! unat ?l) = i \<and> Q (ls_documents g ! unat ?l)"
    then show "\<exists>d. d \<in> set (ls_documents g) \<and> dr_doc_id d = i \<and> Q d"
      by (intro exI [of _ "ls_documents g ! unat ?l"]) (simp only: nth_mem simp_thms)
  qed
  have later: "\<not> (\<exists>g'\<in>set gs. d \<in> set (ls_documents g') \<and> dr_doc_id d = i)" if "?b \<le> ls_batch_id g" for d
  proof
    assume "\<exists>g'\<in>set gs. d \<in> set (ls_documents g') \<and> dr_doc_id d = i"
    then obtain g' k where g': "g' \<in> set gs" "k < length (ls_documents g')" "dr_doc_id (ls_documents g' ! k) = i"
      by (auto simp: in_set_conv_nth)
    then have wf': "segment_wf g'" using Cons.prems(2) by (auto simp: list_all_iff)
    have "?b = ls_batch_id g'"
      using segment_document_id(1) [OF wf' g'(2)] g'(3) doc_id_batch wf' by (metis segment_wf_def)
    moreover have "ls_batch_id g < ls_batch_id g'" using Cons.prems(1) g'(1) by simp
    ultimately show False using that by simp
  qed
  consider "ls_batch_id g < ?b" | "?b < ls_batch_id g" | "ls_batch_id g = ?b" by (rule linorder_cases)
  then show ?case
  proof cases
    case 1
    then have "\<not> (d \<in> set (ls_documents g) \<and> dr_doc_id d = i)" using here [of "\<lambda>_. True"] by auto
    with 1 Cons show ?thesis by auto
  next
    case 2
    then have "\<not> (d \<in> set (ls_documents g) \<and> dr_doc_id d = i)" using here [of "\<lambda>_. True"] by auto
    with 2 later [of d] show ?thesis by auto
  next
    case 3
    have "(\<exists>g'\<in>set (g # gs). d \<in> set (ls_documents g') \<and> dr_doc_id d = i \<and> f = ls_files g' ! unat (dr_file_ordinal d)) \<longleftrightarrow>
        (\<exists>d'. d' \<in> set (ls_documents g) \<and> dr_doc_id d' = i \<and> d' = d \<and> f = ls_files g ! unat (dr_file_ordinal d))"
      using later [of d] 3 by auto
    also have "\<dots> \<longleftrightarrow> unat ?l < length (ls_documents g) \<and> dr_doc_id (ls_documents g ! unat ?l) = i \<and>
        ls_documents g ! unat ?l = d \<and> f = ls_files g ! unat (dr_file_ordinal d)"
      unfolding here [of "\<lambda>d'. d' = d \<and> f = ls_files g ! unat (dr_file_ordinal d)"] using 3 by auto
    finally have R: "(\<exists>g'\<in>set (g # gs). d \<in> set (ls_documents g') \<and> dr_doc_id d = i \<and> f = ls_files g' ! unat (dr_file_ordinal d)) \<longleftrightarrow>
        unat ?l < length (ls_documents g) \<and> dr_doc_id (ls_documents g ! unat ?l) = i \<and>
        ls_documents g ! unat ?l = d \<and> f = ls_files g ! unat (dr_file_ordinal d)" .
    show ?thesis
      unfolding R using 3 segment_document_id(3) [OF wf, of "unat ?l"] by (auto simp: Let_def not_le)
  qed
qed

lemma find_document_iff_lemma:
  "snapshot_wf s \<Longrightarrow> find_document s i = Some (d, f) \<longleftrightarrow>
    (\<exists>g\<in>set (sn_segments s). d \<in> set (ls_documents g) \<and> dr_doc_id d = i \<and>
       f = ls_files g ! unat (dr_file_ordinal d))"
  using find_in_segments_iff [of "sn_segments s" i d f]
  by (simp add: find_document_def snapshot_wf_def)

text \<open>
  In a snapshot of loaded segments a lookup by identifier is exact: it finds a document precisely
  when some segment holds one with that identifier, and it gives the file the document names.
\<close>

lemma find_document_iff:
  assumes "snapshot_wf s"
  shows "find_document s i = Some (d, f) \<longleftrightarrow>
    (\<exists>g\<in>set (sn_segments s). d \<in> set (ls_documents g) \<and> dr_doc_id d = i \<and>
       f = ls_files g ! unat (dr_file_ordinal d))"
  by (rule find_document_iff_lemma [OF assms])

end
