(* ===== verification/Tokenizer.thy ===== *)
theory Tokenizer
  imports Prelude
begin

text \<open>
  The term tokenizer of LogTrace (\<open>indexing/term_tokenizer.cpp\<close>): one pass over the bytes of a
  record with the current term and the terms found so far. The lemmas show that it returns the
  maximal runs of term characters in lower case, that it splits at any separator, and that a term is
  its own tokenization, so a keyword normalised by the search is compared with terms normalised by
  the index in the same way.
\<close>

definition term_character :: "char \<Rightarrow> bool" where
  "term_character c \<longleftrightarrow>
     is_lower c \<or> is_upper c \<or> is_digit c \<or> c = CHR ''_'' \<or> c = CHR ''-'' \<or> 128 \<le> byte c"

definition lower_char :: "char \<Rightarrow> char" where
  "lower_char c = (if is_upper c then char_of (byte c - 65 + 97) else c)"

text \<open>The loop of \<open>tokenizeTerms\<close>: the rest of the text, \<open>current\<close> and \<open>terms\<close>.\<close>

fun tokenize_loop :: "string \<Rightarrow> string \<Rightarrow> string list \<Rightarrow> string list" where
  "tokenize_loop [] current terms = (if current \<noteq> [] then terms @ [current] else terms)"
| "tokenize_loop (c # text) current terms =
     (if \<not> term_character c
      then (if current \<noteq> [] then tokenize_loop text [] (terms @ [current])
            else tokenize_loop text current terms)
      else tokenize_loop text (current @ [lower_char c]) terms)"

definition tokenize_terms :: "string \<Rightarrow> string list" where
  "tokenize_terms text = tokenize_loop text [] []"

section \<open>Specification: maximal runs\<close>

text \<open>The words of a text: its maximal runs of term characters, by \<open>takeWhile\<close>.\<close>

function term_runs :: "string \<Rightarrow> string list" where
  "term_runs [] = []"
| "\<not> term_character c \<Longrightarrow> term_runs (c # cs) = term_runs cs"
| "term_character c \<Longrightarrow>
     term_runs (c # cs) = (c # takeWhile term_character cs) # term_runs (dropWhile term_character cs)"
  by (atomize_elim, (metis list.exhaust)) auto
termination
  by (relation "measure length") (auto simp: le_imp_less_Suc length_dropWhile_le)

definition normal_char :: "char \<Rightarrow> bool" where
  "normal_char c \<longleftrightarrow> term_character c \<and> \<not> is_upper c"

lemma lower_char_normal: "term_character c \<Longrightarrow> normal_char (lower_char c)"
  by (auto simp: normal_char_def lower_char_def term_character_def is_upper_def is_lower_def)

lemma normal_char_fixed [simp]: "normal_char c \<Longrightarrow> lower_char c = c"
  by (simp add: normal_char_def lower_char_def)

lemma tokenize_loop_acc: "tokenize_loop input current terms = terms @ tokenize_loop input current []"
proof (induction input arbitrary: current terms)
  case Nil
  then show ?case by simp
next
  case (Cons c input)
  show ?case
    by (simp, metis Cons.IH append.assoc append_Nil)
qed

lemma tokenize_loop_run:
  "list_all term_character run \<Longrightarrow>
     tokenize_loop (run @ input) current terms = tokenize_loop input (current @ map lower_char run) terms"
  by (induction run arbitrary: current) auto

lemma tokenize_loop_current:
  "tokenize_loop input current [] =
     (if current = [] \<and> takeWhile term_character input = [] then []
      else [current @ map lower_char (takeWhile term_character input)])
     @ tokenize_loop (dropWhile term_character input) [] []"
proof (induction input arbitrary: current)
  case Nil
  then show ?case by simp
next
  case (Cons c input)
  show ?case
  proof (cases "term_character c")
    case True
    with Cons.IH [of "current @ [lower_char c]"] show ?thesis by simp
  next
    case False
    then show ?thesis by (simp add: tokenize_loop_acc [of input "[]" "[current]"])
  qed
qed

lemma tokenize_term_runs: "tokenize_terms input = map (map lower_char) (term_runs input)"
proof (induction input rule: term_runs.induct)
  case 1
  then show ?case by (simp add: tokenize_terms_def)
next
  case (2 c cs)
  then show ?case by (simp add: tokenize_terms_def)
next
  case (3 c cs)
  then show ?case
    by (simp add: tokenize_terms_def tokenize_loop_current [of cs "[lower_char c]"])
qed

lemma term_runs_append:
  "\<not> term_character c \<Longrightarrow> term_runs (s @ c # t) = term_runs s @ term_runs t"
proof (induction s rule: term_runs.induct)
  case (3 d cs)
  then have "takeWhile term_character (cs @ c # t) = takeWhile term_character cs"
    by (induction cs) auto
  moreover have "dropWhile term_character (cs @ c # t) = dropWhile term_character cs @ c # t"
    using 3(3) by (induction cs) auto
  ultimately show ?case using 3 by simp
qed auto

lemma term_runs_all: "r \<in> set (term_runs s) \<Longrightarrow> r \<noteq> [] \<and> list_all term_character r"
  by (induction s rule: term_runs.induct) (auto simp: list_all_iff dest: set_takeWhileD)

lemma tokenize_terms_normal:
  assumes "t \<in> set (tokenize_terms s)"
  shows "t \<noteq> []" "list_all normal_char t"
  using assms term_runs_all
  by (force simp: tokenize_term_runs list_all_iff lower_char_normal)+

lemma tokenize_normal_term:
  assumes "t \<noteq> []" "list_all normal_char t"
  shows "tokenize_terms t = [t]"
proof -
  have "list_all term_character t" and fixed: "map lower_char t = t"
    using assms(2) by (auto simp: list_all_iff normal_char_def lower_char_def intro!: map_idI)
  then have "tokenize_terms (t @ []) = tokenize_loop [] t []"
    unfolding tokenize_terms_def by (subst tokenize_loop_run) auto
  with assms(1) show ?thesis by simp
qed

lemma tokenize_terms_append:
  "\<not> term_character c \<Longrightarrow> tokenize_terms (s @ c # t) = tokenize_terms s @ tokenize_terms t"
  by (simp add: tokenize_term_runs term_runs_append)

lemma tokenize_terms_length: "length (concat (tokenize_terms s)) \<le> length s"
proof (induction s rule: term_runs.induct)
  case (3 c cs)
  have "length (takeWhile term_character cs) + length (dropWhile term_character cs) = length cs"
    by (metis length_append takeWhile_dropWhile_id)
  with 3 show ?case by (simp add: tokenize_term_runs)
qed (simp_all add: tokenize_term_runs)

text \<open>
  C36: The tokenizer returns the maximal runs of term characters of a text, in order and in lower
  case, and each term it returns is its own only term: a keyword cut out of a record is normalised to
  the very term the index holds.
\<close>

theorem tokenizer_correct:
  "tokenize_terms s = map (map lower_char) (term_runs s) \<and>
   map tokenize_terms (tokenize_terms s) = map (\<lambda>t. [t]) (tokenize_terms s)"
proof
  show "tokenize_terms s = map (map lower_char) (term_runs s)" by (rule tokenize_term_runs)
  show "map tokenize_terms (tokenize_terms s) = map (\<lambda>t. [t]) (tokenize_terms s)"
    by (rule map_cong [OF refl]) (rule tokenize_normal_term; rule tokenize_terms_normal)
qed

end
