(* ===== verification/Search_Engine.thy ===== *)
theory Search_Engine
  imports Index_Snapshot Tokenizer "HOL-Library.Multiset"
begin

text \<open>
  Keyword search (\<open>search/search_engine.cpp\<close>, \<open>search\<close> and the functions it uses): AND over the
  keywords' terms, filters, BM25, top-k. A \<open>double\<close> is a real number and \<open>std::log\<close> is \<open>ln\<close>, so
  rounding is not modelled. The priority queue is the list of its elements, best first, whose last
  element is \<open>top()\<close>; \<open>std::sort\<close> is insertion by the comparison. That is what the library
  guarantees where \<open>is_better\<close> orders the hits strictly, which \<open>hits_separated\<close> states.
\<close>

section \<open>Queries and hits\<close>

record search_query =
  sq_keywords :: "string list"
  sq_line_id :: string
  sq_station_id :: string
  sq_device_id :: string
  sq_work_order :: string
  sq_product_sn :: string
  sq_levels :: "string list"
  sq_module_name :: string
  sq_error_code :: string
  sq_has_time_range :: bool
  sq_occurred_from_ms :: int
  sq_occurred_to_ms :: int
  sq_anomaly_only :: bool
  sq_offset :: nat
  sq_page_size :: nat

record search_hit =
  sh_document :: document_record
  sh_score :: real

record search_page =
  sp_snapshot_version :: u64
  sp_total_hits :: nat
  sp_items :: "search_hit list"

datatype search_error = Pagination_invalid

definition k_bm25_k1 :: real where "k_bm25_k1 = 1.2"
definition k_bm25_b :: real where "k_bm25_b = 0.75"

definition is_better :: "search_hit \<Rightarrow> search_hit \<Rightarrow> bool" where
  "is_better left right =
     (if \<bar>sh_score left - sh_score right\<bar> > 1 / 10 ^ 12 then sh_score left > sh_score right
      else if dr_occurred_at_ms (sh_document left) \<noteq> dr_occurred_at_ms (sh_document right)
      then dr_occurred_at_ms (sh_document left) > dr_occurred_at_ms (sh_document right)
      else dr_doc_id (sh_document left) > dr_doc_id (sh_document right))"

definition normalized_terms :: "string list \<Rightarrow> string list" where
  "normalized_terms keywords =
     sorted_list_of_set (foldl (\<lambda>unique keyword. unique \<union> set (tokenize_terms keyword)) {} keywords)"

definition matches_filters :: "document_record \<Rightarrow> search_query \<Rightarrow> bool" where
  "matches_filters d q =
     (if (sq_line_id q \<noteq> [] \<and> dr_line_id d \<noteq> sq_line_id q) \<or>
         (sq_station_id q \<noteq> [] \<and> dr_station_id d \<noteq> sq_station_id q) \<or>
         (sq_device_id q \<noteq> [] \<and> dr_device_id d \<noteq> sq_device_id q) \<or>
         (sq_work_order q \<noteq> [] \<and> dr_work_order d \<noteq> sq_work_order q) \<or>
         (sq_product_sn q \<noteq> [] \<and> dr_product_sn d \<noteq> sq_product_sn q) \<or>
         (sq_levels q \<noteq> [] \<and> dr_level d \<notin> set (sq_levels q)) \<or>
         (sq_module_name q \<noteq> [] \<and> dr_module_name d \<noteq> sq_module_name q) \<or>
         (sq_error_code q \<noteq> [] \<and> dr_error_code d \<noteq> sq_error_code q) \<or>
         (sq_has_time_range q \<and> (dr_occurred_at_ms d < sq_occurred_from_ms q \<or>
            dr_occurred_at_ms d > sq_occurred_to_ms q))
      then False
      else \<not> sq_anomaly_only q \<or> dr_level d = ''WARN'' \<or> dr_level d = ''ERROR'' \<or> dr_error_code d \<noteq> [])"

function tf_loop :: "posting list \<Rightarrow> u32 \<Rightarrow> nat \<Rightarrow> nat \<Rightarrow> nat" where
  "tf_loop postings local_id left right =
     (if left < right
      then let middle = left + (right - left) div 2
           in if po_local_id (postings ! middle) < local_id
              then tf_loop postings local_id (middle + 1) right
              else tf_loop postings local_id left middle
      else left)"
  by auto
termination by (relation "measure (\<lambda>(_, _, left, right). right - left)") auto

declare tf_loop.simps [simp del]

definition term_frequency :: "loaded_segment \<Rightarrow> term_record \<Rightarrow> u32 \<Rightarrow> u32" where
  "term_frequency seg t local_id =
     (let left = tf_loop (ls_postings seg) local_id (unat (te_posting_begin t))
                   (unat (te_posting_begin t) + unat (te_posting_count t))
      in if left < length (ls_postings seg) \<and> po_local_id (ls_postings seg ! left) = local_id
         then po_term_frequency (ls_postings seg ! left) else 0)"

definition business_weight :: "document_record \<Rightarrow> search_query \<Rightarrow> real" where
  "business_weight d q =
     (if sq_error_code q \<noteq> [] \<and> dr_error_code d = sq_error_code q then 3 else 0) +
     (if sq_module_name q \<noteq> [] \<and> dr_module_name d = sq_module_name q then 1.5 else 0) +
     (if dr_level d = ''ERROR'' then 2 else 0) + (if dr_level d = ''WARN'' then 1 else 0)"

section \<open>The search\<close>

definition add_document_frequency :: "loaded_segment \<Rightarrow> (string \<Rightarrow> nat) \<Rightarrow> string \<Rightarrow> string \<Rightarrow> nat" where
  "add_document_frequency seg df t = (case ls_term_lookup seg t of
       None \<Rightarrow> df
     | Some k \<Rightarrow> df(t := df t + unat (te_document_frequency (ls_terms seg ! k))))"

definition global_df :: "loaded_segment list \<Rightarrow> string list \<Rightarrow> string \<Rightarrow> nat" where
  "global_df segs terms =
     foldl (\<lambda>df seg. foldl (add_document_frequency seg) df terms) (\<lambda>_. 0) segs"

definition total_length :: "loaded_segment list \<Rightarrow> u64" where
  "total_length segs = foldl (\<lambda>total seg.
     foldl (\<lambda>total d. total + ucast (dr_term_count d)) total (ls_documents seg)) 0 segs"

definition average_length :: "index_snapshot \<Rightarrow> real" where
  "average_length s = (if sn_document_count s = 0 then 1
     else real (unat (total_length (sn_segments s))) / real (sn_document_count s))"

text \<open>The records of the terms in one segment; \<open>None\<close> when a term is missing there.\<close>

fun segment_terms :: "loaded_segment \<Rightarrow> string list \<Rightarrow> term_record list option" where
  "segment_terms seg [] = Some []"
| "segment_terms seg (t # ts) = (case ls_term_lookup seg t of
       None \<Rightarrow> None
     | Some k \<Rightarrow> map_option (Cons (ls_terms seg ! k)) (segment_terms seg ts))"

definition posting_ids :: "loaded_segment \<Rightarrow> term_record \<Rightarrow> u32 list" where
  "posting_ids seg t = map (\<lambda>index. po_local_id (ls_postings seg ! (unat (te_posting_begin t) + index)))
     [0..<unat (te_posting_count t)]"

fun set_intersection :: "'a::linorder list \<Rightarrow> 'a list \<Rightarrow> 'a list" where
  "set_intersection (x # xs) (y # ys) =
     (if x < y then set_intersection xs (y # ys)
      else if y < x then set_intersection (x # xs) ys
      else x # set_intersection xs ys)"
| "set_intersection [] ys = []"
| "set_intersection xs [] = []"

fun intersect_loop :: "loaded_segment \<Rightarrow> u32 list \<Rightarrow> term_record list \<Rightarrow> u32 list" where
  "intersect_loop seg candidates [] = candidates"
| "intersect_loop seg candidates (t # ts) =
     (let candidates' = set_intersection candidates (posting_ids seg t)
      in if candidates' = [] then candidates' else intersect_loop seg candidates' ts)"

definition candidates :: "loaded_segment \<Rightarrow> term_record list \<Rightarrow> u32 list" where
  "candidates seg sts = (case sts of
       [] \<Rightarrow> map word_of_nat [0..<length (ls_documents seg)]
     | first # rest \<Rightarrow> intersect_loop seg (posting_ids seg first) rest)"

definition bm25_term :: "index_snapshot \<Rightarrow> (string \<Rightarrow> nat) \<Rightarrow> document_record \<Rightarrow> string \<Rightarrow> u32 \<Rightarrow> real" where
  "bm25_term s gdf d t tf =
     (let frequency = real (unat tf); df = real (gdf t);
          idf = ln (1 + (real (sn_document_count s) - df + 0.5) / (df + 0.5));
          normalization = 1 - k_bm25_b + k_bm25_b * real (unat (dr_term_count d)) / average_length s
      in idf * frequency * (k_bm25_k1 + 1) / (frequency + k_bm25_k1 * normalization))"

definition score_document ::
    "index_snapshot \<Rightarrow> (string \<Rightarrow> nat) \<Rightarrow> search_query \<Rightarrow> loaded_segment \<Rightarrow> term_record list \<Rightarrow> u32 \<Rightarrow> real" where
  "score_document s gdf q seg sts local_id =
     foldl (\<lambda>score t. score + bm25_term s gdf (ls_documents seg ! unat local_id) (te_term t)
              (term_frequency seg t local_id))
       (business_weight (ls_documents seg ! unat local_id) q) sts"

text \<open>The priority queue.\<close>

fun pq_push :: "search_hit \<Rightarrow> search_hit list \<Rightarrow> search_hit list" where
  "pq_push x [] = [x]"
| "pq_push x (y # ys) = (if is_better x y then x # y # ys else y # pq_push x ys)"

definition pq_top :: "search_hit list \<Rightarrow> search_hit" where "pq_top best = last best"
definition pq_pop :: "search_hit list \<Rightarrow> search_hit list" where "pq_pop best = butlast best"

definition offer_hit :: "nat \<Rightarrow> search_hit list \<times> nat \<Rightarrow> search_hit \<Rightarrow> search_hit list \<times> nat" where
  "offer_hit capacity st hit = (case st of (best, total_hits) \<Rightarrow>
     (if length best < capacity then pq_push hit best
      else if is_better hit (pq_top best) then pq_push hit (pq_pop best)
      else best, total_hits + 1))"

definition search_segment ::
    "index_snapshot \<Rightarrow> (string \<Rightarrow> nat) \<Rightarrow> search_query \<Rightarrow> string list \<Rightarrow> nat \<Rightarrow>
     search_hit list \<times> nat \<Rightarrow> loaded_segment \<Rightarrow> search_hit list \<times> nat" where
  "search_segment s gdf q terms capacity st seg = (case segment_terms seg terms of
       None \<Rightarrow> st
     | Some found \<Rightarrow>
         (let sts = sort_key te_document_frequency found
          in foldl (\<lambda>st local_id.
               if \<not> matches_filters (ls_documents seg ! unat local_id) q then st
               else offer_hit capacity st \<lparr>sh_document = ls_documents seg ! unat local_id,
                      sh_score = score_document s gdf q seg sts local_id\<rparr>) st (candidates seg sts)))"

function drain_queue :: "search_hit list \<Rightarrow> search_hit list \<Rightarrow> search_hit list" where
  "drain_queue ranked best =
     (if best = [] then ranked else drain_queue (ranked @ [pq_top best]) (pq_pop best))"
  by auto
termination by (relation "measure (\<lambda>(_, best). length best)") (auto simp: pq_pop_def)

declare drain_queue.simps [simp del]

definition sort_hits :: "search_hit list \<Rightarrow> search_hit list" where
  "sort_hits hits = foldr pq_push hits []"

definition search :: "index_snapshot \<Rightarrow> search_query \<Rightarrow> search_error + search_page" where
  "search s q =
     (if sq_page_size q = 0 \<or> sq_offset q > 1000 \<or> sq_page_size q > 1000 - sq_offset q
      then Inl Pagination_invalid
      else let terms = normalized_terms (sq_keywords q);
               gdf = global_df (sn_segments s) terms;
               capacity = sq_offset q + sq_page_size q;
               (best, total_hits) = foldl (search_segment s gdf q terms capacity) ([], 0) (sn_segments s);
               ranked = sort_hits (drain_queue [] best)
           in Inr \<lparr>sp_snapshot_version = sn_version s, sp_total_hits = total_hits,
                sp_items = map (\<lambda>index. ranked ! index) [sq_offset q..<min (length ranked) capacity]\<rparr>)"

section \<open>Term frequencies\<close>

lemma tf_loop_lower_bound:
  assumes "left \<le> right" "right \<le> hi" "lo \<le> left"
    and sorted: "\<And>i j. lo \<le> i \<Longrightarrow> i < j \<Longrightarrow> j < hi \<Longrightarrow> po_local_id (ps ! i) < po_local_id (ps ! j)"
    and "\<And>i. lo \<le> i \<Longrightarrow> i < left \<Longrightarrow> po_local_id (ps ! i) < l"
    and "\<And>i. right \<le> i \<Longrightarrow> i < hi \<Longrightarrow> l \<le> po_local_id (ps ! i)"
  shows "left \<le> tf_loop ps l left right \<and> tf_loop ps l left right \<le> right \<and>
    (\<forall>i. lo \<le> i \<and> i < tf_loop ps l left right \<longrightarrow> po_local_id (ps ! i) < l) \<and>
    (\<forall>i. tf_loop ps l left right \<le> i \<and> i < hi \<longrightarrow> l \<le> po_local_id (ps ! i))"
  using assms(1,2,3,5,6)
proof (induction "right - left" arbitrary: left right rule: less_induct)
  case less
  show ?case
  proof (cases "left < right")
    case False
    with less.prems show ?thesis by (simp add: tf_loop.simps)
  next
    case True
    define middle where "middle = left + (right - left) div 2"
    have m: "left \<le> middle" "middle < right" using True by (auto simp: middle_def)
    show ?thesis
    proof (cases "po_local_id (ps ! middle) < l")
      case small: True
      have below: "po_local_id (ps ! i) < l" if "lo \<le> i" "i < middle + 1" for i
      proof (cases "i = middle")
        case False
        then have "po_local_id (ps ! i) < po_local_id (ps ! middle)"
          using that m less.prems(2) by (intro sorted) auto
        with small show ?thesis by simp
      qed (use small in simp)
      have step: "tf_loop ps l left right = tf_loop ps l (middle + 1) right"
        using True small by (subst tf_loop.simps) (simp add: middle_def Let_def)
      have "middle + 1 \<le> tf_loop ps l (middle + 1) right \<and> tf_loop ps l (middle + 1) right \<le> right \<and>
        (\<forall>i. lo \<le> i \<and> i < tf_loop ps l (middle + 1) right \<longrightarrow> po_local_id (ps ! i) < l) \<and>
        (\<forall>i. tf_loop ps l (middle + 1) right \<le> i \<and> i < hi \<longrightarrow> l \<le> po_local_id (ps ! i))"
        using m less.prems(2,3,5) below by (intro less.hyps) auto
      then show ?thesis unfolding step using m by simp
    next
      case ge: False
      have above: "l \<le> po_local_id (ps ! i)" if "middle \<le> i" "i < hi" for i
      proof (cases "i = middle")
        case False
        then have "po_local_id (ps ! middle) < po_local_id (ps ! i)"
          using that m less.prems(3) by (intro sorted) auto
        with ge show ?thesis by simp
      qed (use ge in simp)
      have step: "tf_loop ps l left right = tf_loop ps l left middle"
        using True ge by (subst tf_loop.simps) (simp add: middle_def Let_def)
      have "left \<le> tf_loop ps l left middle \<and> tf_loop ps l left middle \<le> middle \<and>
        (\<forall>i. lo \<le> i \<and> i < tf_loop ps l left middle \<longrightarrow> po_local_id (ps ! i) < l) \<and>
        (\<forall>i. tf_loop ps l left middle \<le> i \<and> i < hi \<longrightarrow> l \<le> po_local_id (ps ! i))"
        using m less.prems(2,3,4) above by (intro less.hyps) auto
      then show ?thesis unfolding step using m by simp
    qed
  qed
qed

text \<open>The frequency of a document in a posting list.\<close>

definition tf_in :: "posting list \<Rightarrow> u32 \<Rightarrow> u32 option" where
  "tf_in ps l = map_of (map (\<lambda>p. (po_local_id p, po_term_frequency p)) ps) l"

definition term_postings :: "loaded_segment \<Rightarrow> term_record \<Rightarrow> posting list" where
  "term_postings seg t = posting_range (ls_postings seg) t"

lemma segment_term_range:
  assumes "segment_wf seg" "t \<in> set (ls_terms seg)"
  shows "unat (te_posting_begin t) + unat (te_posting_count t) \<le> length (ls_postings seg)"
    and "length (term_postings seg t) = unat (te_posting_count t)"
    and "sorted_wrt (<) (map po_local_id (term_postings seg t))"
proof -
  have w: "length (term_postings seg t) = unat (te_posting_count t)" "term_postings seg t \<noteq> []"
    "sorted_wrt (<) (map po_local_id (term_postings seg t))"
    using assms by (auto simp: segment_wf_def dictionary_wf_def term_postings_def)
  then show "unat (te_posting_begin t) + unat (te_posting_count t) \<le> length (ls_postings seg)"
    by (auto simp: term_postings_def posting_range_def min_def split: if_splits)
  show "length (term_postings seg t) = unat (te_posting_count t)"
    "sorted_wrt (<) (map po_local_id (term_postings seg t))" using w by blast+
qed

lemma term_postings_nth:
  "i < length (term_postings seg t) \<Longrightarrow> term_postings seg t ! i = ls_postings seg ! (unat (te_posting_begin t) + i)"
  by (auto simp: term_postings_def posting_range_def intro!: nth_drop)

lemma posting_ids_eq:
  assumes "segment_wf seg" "t \<in> set (ls_terms seg)"
  shows "posting_ids seg t = map po_local_id (term_postings seg t)"
  using segment_term_range [OF assms]
  by (intro nth_equalityI) (auto simp: posting_ids_def term_postings_nth)

text \<open>The binary search finds the frequency of a document the term occurs in.\<close>

lemma term_frequency_correct:
  assumes "segment_wf seg" "t \<in> set (ls_terms seg)" "l \<in> po_local_id ` set (term_postings seg t)"
  shows "tf_in (term_postings seg t) l = Some (term_frequency seg t l)"
proof -
  let ?ps = "term_postings seg t" and ?b = "unat (te_posting_begin t)" and ?n = "unat (te_posting_count t)"
  note r = segment_term_range [OF assms(1,2)]
  obtain k where k: "k < length ?ps" "po_local_id (?ps ! k) = l"
    using assms(3) by (auto simp: in_set_conv_nth)
  have nth: "ls_postings seg ! (?b + i) = ?ps ! i" if "i < ?n" for i
    using term_postings_nth [of i seg t] that r(2) by simp
  have sorted: "po_local_id (ls_postings seg ! i) < po_local_id (ls_postings seg ! j)"
    if "?b \<le> i" "i < j" "j < ?b + ?n" for i j
  proof -
    have ij: "i - ?b < j - ?b" "j - ?b < ?n" using that by auto
    have "po_local_id (?ps ! (i - ?b)) < po_local_id (?ps ! (j - ?b))"
      using r(3) ij r(2) sorted_wrt_nth_less [of "(<)" "map po_local_id ?ps" "i - ?b" "j - ?b"] by simp
    then show ?thesis using nth [of "i - ?b"] nth [of "j - ?b"] ij that by simp
  qed
  let ?r = "tf_loop (ls_postings seg) l ?b (?b + ?n)"
  have "?b \<le> ?r \<and> ?r \<le> ?b + ?n \<and>
    (\<forall>i. ?b \<le> i \<and> i < ?r \<longrightarrow> po_local_id (ls_postings seg ! i) < l) \<and>
    (\<forall>i. ?r \<le> i \<and> i < ?b + ?n \<longrightarrow> l \<le> po_local_id (ls_postings seg ! i))"
    by (rule tf_loop_lower_bound) (use sorted in auto)
  moreover have at: "po_local_id (ls_postings seg ! (?b + k)) = l" using nth [of k] k r(2) by simp
  ultimately have "?r = ?b + k"
  proof -
    assume a: "?b \<le> ?r \<and> ?r \<le> ?b + ?n \<and>
      (\<forall>i. ?b \<le> i \<and> i < ?r \<longrightarrow> po_local_id (ls_postings seg ! i) < l) \<and>
      (\<forall>i. ?r \<le> i \<and> i < ?b + ?n \<longrightarrow> l \<le> po_local_id (ls_postings seg ! i))"
    have "\<not> ?b + k < ?r" using a at by (metis le_add1 order_less_irrefl)
    moreover have "\<not> ?r < ?b + k"
    proof
      assume c: "?r < ?b + k"
      have "l \<le> po_local_id (ls_postings seg ! ?r)" using a c k(1) r(2) by auto
      moreover have "po_local_id (ls_postings seg ! ?r) < l"
        using sorted [of ?r "?b + k"] a c k(1) r(2) at by auto
      ultimately show False by simp
    qed
    ultimately show ?thesis by simp
  qed
  then have tf: "term_frequency seg t l = po_term_frequency (?ps ! k)"
    using at nth [of k] k r by (simp add: term_frequency_def)
  have "distinct (map po_local_id ?ps)" using r(3) strict_sorted_iff by blast
  then have "distinct (map fst (map (\<lambda>p. (po_local_id p, po_term_frequency p)) ?ps))"
    by (simp add: comp_def)
  moreover have "(l, po_term_frequency (?ps ! k)) \<in> set (map (\<lambda>p. (po_local_id p, po_term_frequency p)) ?ps)"
    using k nth_mem [OF k(1)] by force
  ultimately show ?thesis unfolding tf tf_in_def by (rule map_of_is_SomeI)
qed

section \<open>Candidates\<close>

lemma set_intersection_sorted:
  "sorted_wrt (<) xs \<Longrightarrow> sorted_wrt (<) ys \<Longrightarrow>
     sorted_wrt (<) (set_intersection xs ys) \<and> set (set_intersection xs ys) = set xs \<inter> set (ys :: 'a::linorder list)"
proof (induction xs ys rule: set_intersection.induct)
  case (1 x xs y ys)
  consider "x < y" | "y < x" | "x = y" by (rule linorder_cases)
  then show ?case
  proof cases
    case 1
    then have "x \<notin> set (y # ys)" using \<open>sorted_wrt (<) (y # ys)\<close> by auto
    with 1 "1.IH"(1) "1.prems" show ?thesis by auto
  next
    case 2
    then have "y \<notin> set (x # xs)" using \<open>sorted_wrt (<) (x # xs)\<close> by auto
    with 2 "1.IH"(2) "1.prems" show ?thesis by auto
  next
    case 3
    with "1.IH"(3) "1.prems" show ?thesis by auto
  qed
qed auto

lemma intersect_loop_sorted:
  assumes "segment_wf seg" "set ts \<subseteq> set (ls_terms seg)" "sorted_wrt (<) cand"
  shows "sorted_wrt (<) (intersect_loop seg cand ts) \<and>
    set (intersect_loop seg cand ts) = {l \<in> set cand. \<forall>t\<in>set ts. l \<in> po_local_id ` set (term_postings seg t)}"
  using assms(2,3)
proof (induction ts arbitrary: cand)
  case Nil
  then show ?case by simp
next
  case (Cons t ts)
  have ids: "posting_ids seg t = map po_local_id (term_postings seg t)"
    using posting_ids_eq [OF assms(1)] Cons.prems(1) by simp
  have sorted: "sorted_wrt (<) (posting_ids seg t)"
    using segment_term_range(3) [OF assms(1)] Cons.prems(1) ids by simp
  note i = set_intersection_sorted [OF Cons.prems(2) sorted]
  have "set (set_intersection cand (posting_ids seg t)) =
      {l \<in> set cand. l \<in> po_local_id ` set (term_postings seg t)}"
    using i ids by auto
  then show ?case
    using Cons.IH [of "set_intersection cand (posting_ids seg t)"] Cons.prems(1) i by (auto simp: Let_def)
qed

lemma local_ids:
  assumes "segment_wf seg"
  shows "map dr_local_id (ls_documents seg) = map word_of_nat [0..<length (ls_documents seg)]"
proof (rule nth_equalityI)
  fix i assume "i < length (map dr_local_id (ls_documents seg))"
  then have i: "i < length (ls_documents seg)" by simp
  have "word_of_nat (unat (dr_local_id (ls_documents seg ! i))) = dr_local_id (ls_documents seg ! i)"
    by simp
  with segment_document_id(2) [OF assms i] i
  show "map dr_local_id (ls_documents seg) ! i = map word_of_nat [0..<length (ls_documents seg)] ! i" by simp
qed simp

lemma local_ids_sorted:
  assumes "segment_wf seg"
  shows "sorted_wrt (<) (map dr_local_id (ls_documents seg))"
proof -
  have "dr_local_id (ls_documents seg ! i) < dr_local_id (ls_documents seg ! j)"
    if "i < j" "j < length (ls_documents seg)" for i j
    using segment_document_id(2) [OF assms, of i] segment_document_id(2) [OF assms, of j] that
    by (simp add: word_less_nat_alt)
  then show ?thesis by (simp add: sorted_wrt_iff_nth_less)
qed

lemma posting_local_ids:
  assumes "segment_wf seg" "p \<in> set (ls_postings seg)"
  shows "po_local_id p \<in> dr_local_id ` set (ls_documents seg)"
proof -
  have u: "unat (po_local_id p) < length (ls_documents seg)"
    using assms by (auto simp: segment_wf_def list_all_iff posting_fine_def)
  have "dr_local_id (ls_documents seg ! unat (po_local_id p)) = po_local_id p"
    using segment_document_id(2) [OF assms(1) u] by (simp only: word_unat_eq_iff)
  with u show ?thesis by (metis image_eqI nth_mem)
qed

lemma term_postings_subset: "set (term_postings seg t) \<subseteq> set (ls_postings seg)"
  by (auto simp: term_postings_def posting_range_def dest: in_set_takeD in_set_dropD)

lemma candidates_eq:
  assumes wf: "segment_wf seg" and ts: "set ts \<subseteq> set (ls_terms seg)"
  shows "candidates seg ts = map dr_local_id (filter (\<lambda>d. \<forall>t\<in>set ts.
    dr_local_id d \<in> po_local_id ` set (term_postings seg t)) (ls_documents seg))"
proof -
  let ?P = "\<lambda>l. \<forall>t\<in>set ts. l \<in> po_local_id ` set (term_postings seg t)"
  have "map dr_local_id (filter (\<lambda>d. ?P (dr_local_id d)) (ls_documents seg)) =
      filter ?P (map dr_local_id (ls_documents seg))"
    by (simp add: filter_map comp_def)
  moreover have "candidates seg ts = filter ?P (map dr_local_id (ls_documents seg))"
  proof (cases ts)
    case Nil
    then show ?thesis by (simp add: candidates_def local_ids [OF wf])
  next
    case (Cons t ts')
    have t: "t \<in> set (ls_terms seg)" using ts Cons by simp
    have ids: "posting_ids seg t = map po_local_id (term_postings seg t)" by (rule posting_ids_eq [OF wf t])
    have s0: "sorted_wrt (<) (posting_ids seg t)" using segment_term_range(3) [OF wf t] ids by simp
    have c: "candidates seg ts = intersect_loop seg (posting_ids seg t) ts'" using Cons by (simp add: candidates_def)
    note l = intersect_loop_sorted [OF wf _ s0, of ts']
    have "sorted_wrt (<) (candidates seg ts)" using l ts Cons c by simp
    moreover have "sorted_wrt (<) (filter ?P (map dr_local_id (ls_documents seg)))"
      by (rule sorted_wrt_filter [OF local_ids_sorted [OF wf]])
    moreover have "set (candidates seg ts) = set (filter ?P (map dr_local_id (ls_documents seg)))"
      using l ts Cons c ids posting_local_ids [OF wf] term_postings_subset [of seg t] by auto
    ultimately show ?thesis
      unfolding strict_sorted_iff by (intro sorted_distinct_set_unique) blast+
  qed
  ultimately show ?thesis by simp
qed

section \<open>What a segment contributes\<close>

text \<open>The documents of a term and its frequency in one, by the dictionary.\<close>

definition has_term :: "loaded_segment \<Rightarrow> string \<Rightarrow> document_record \<Rightarrow> bool" where
  "has_term seg t d = (case ls_term_lookup seg t of
       None \<Rightarrow> False
     | Some k \<Rightarrow> dr_local_id d \<in> po_local_id ` set (term_postings seg (ls_terms seg ! k)))"

definition document_tf :: "loaded_segment \<Rightarrow> string \<Rightarrow> document_record \<Rightarrow> u32" where
  "document_tf seg t d = (case ls_term_lookup seg t of
       None \<Rightarrow> 0
     | Some k \<Rightarrow> (case tf_in (term_postings seg (ls_terms seg ! k)) (dr_local_id d) of
           None \<Rightarrow> 0 | Some f \<Rightarrow> f))"

definition spec_hit ::
    "index_snapshot \<Rightarrow> (string \<Rightarrow> nat) \<Rightarrow> search_query \<Rightarrow> string list \<Rightarrow> loaded_segment \<Rightarrow> document_record \<Rightarrow> search_hit" where
  "spec_hit s gdf q terms seg d = \<lparr>sh_document = d, sh_score = business_weight d q +
     sum_list (map (\<lambda>t. bm25_term s gdf d t (document_tf seg t d)) terms)\<rparr>"

definition segment_hits ::
    "index_snapshot \<Rightarrow> (string \<Rightarrow> nat) \<Rightarrow> search_query \<Rightarrow> string list \<Rightarrow> loaded_segment \<Rightarrow> search_hit list" where
  "segment_hits s gdf q terms seg = map (spec_hit s gdf q terms seg)
     (filter (\<lambda>d. (\<forall>t\<in>set terms. has_term seg t d) \<and> matches_filters d q) (ls_documents seg))"

lemma segment_terms_None: "segment_terms seg terms = None \<longleftrightarrow> (\<exists>t\<in>set terms. ls_term_lookup seg t = None)"
  by (induction terms) (auto split: option.splits)

lemma segment_terms_Some:
  assumes "segment_terms seg terms = Some found"
  shows "found = map (\<lambda>t. ls_terms seg ! the (ls_term_lookup seg t)) terms"
  using assms by (induction terms arbitrary: found) (auto split: option.splits)

lemma lookup_term:
  assumes "segment_wf seg" "ls_term_lookup seg t = Some k"
  shows "ls_terms seg ! k \<in> set (ls_terms seg)" "te_term (ls_terms seg ! k) = t"
  using assms by (auto simp: segment_wf_def dictionary_wf_def)

lemma foldl_add_sum: "foldl (\<lambda>acc x. acc + f x) (a :: real) xs = a + sum_list (map f xs)"
  by (induction xs arbitrary: a) (simp_all add: add.assoc)

lemma sum_list_mset_eq: "mset xs = mset ys \<Longrightarrow> sum_list (map f xs) = (sum_list (map f ys) :: real)"
  by (metis mset_map sum_mset_sum_list)

lemma score_document_spec:
  assumes wf: "segment_wf seg" and d: "d \<in> set (ls_documents seg)"
    and found: "segment_terms seg terms = Some found"
    and all: "\<forall>t\<in>set terms. has_term seg t d"
  shows "score_document s gdf q seg (sort_key te_document_frequency found) (dr_local_id d) =
    sh_score (spec_hit s gdf q terms seg d)"
proof -
  obtain i where i: "i < length (ls_documents seg)" "d = ls_documents seg ! i" using d by (auto simp: in_set_conv_nth)
  have doc: "ls_documents seg ! unat (dr_local_id d) = d" using segment_document_id(2) [OF wf i(1)] i(2) by simp
  let ?g = "\<lambda>t. bm25_term s gdf d (te_term t) (term_frequency seg t (dr_local_id d))"
  have "sum_list (map ?g (sort_key te_document_frequency found)) = sum_list (map ?g found)"
    by (rule sum_list_mset_eq) simp
  also have "map ?g found = map (\<lambda>t. bm25_term s gdf d t (document_tf seg t d)) terms"
    unfolding segment_terms_Some [OF found] map_map
  proof (rule map_cong [OF refl])
    fix t assume t: "t \<in> set terms"
    then obtain k where k: "ls_term_lookup seg t = Some k" using found segment_terms_None [of seg terms] by fastforce
    note lt = lookup_term [OF wf k]
    have "dr_local_id d \<in> po_local_id ` set (term_postings seg (ls_terms seg ! k))"
      using all t k by (auto simp: has_term_def)
    from term_frequency_correct [OF wf lt(1) this] k lt(2)
    show "(?g \<circ> (\<lambda>t. ls_terms seg ! the (ls_term_lookup seg t))) t = bm25_term s gdf d t (document_tf seg t d)"
      by (simp add: document_tf_def)
  qed
  finally show ?thesis
    by (simp add: score_document_def spec_hit_def doc foldl_add_sum)
qed

lemma foldl_filter: "foldl (\<lambda>st x. if \<not> P x then st else f st (g x)) st xs = foldl f st (map g (filter P xs))"
  by (induction xs arbitrary: st) auto

lemma search_segment_hits:
  assumes wf: "segment_wf seg"
  shows "search_segment s gdf q terms capacity st seg =
    foldl (offer_hit capacity) st (segment_hits s gdf q terms seg)"
proof (cases "segment_terms seg terms")
  case None
  then obtain t where "t \<in> set terms" "ls_term_lookup seg t = None" by (auto simp: segment_terms_None)
  then have "\<not> (\<forall>t\<in>set terms. has_term seg t d)" for d by (force simp: has_term_def)
  then have "segment_hits s gdf q terms seg = []" by (simp add: segment_hits_def)
  with None show ?thesis by (simp add: search_segment_def)
next
  case (Some found)
  let ?sts = "sort_key te_document_frequency found"
  have lk: "\<exists>k. ls_term_lookup seg t = Some k" if "t \<in> set terms" for t
    using Some that segment_terms_None [of seg terms] by fastforce
  have found: "set ?sts = (\<lambda>t. ls_terms seg ! the (ls_term_lookup seg t)) ` set terms"
    using segment_terms_Some [OF Some] by simp
  have sub: "set ?sts \<subseteq> set (ls_terms seg)"
    unfolding found using lk lookup_term(1) [OF wf] by fastforce
  have all: "(\<forall>t\<in>set ?sts. dr_local_id d \<in> po_local_id ` set (term_postings seg t)) \<longleftrightarrow>
      (\<forall>t\<in>set terms. has_term seg t d)" for d
    unfolding found has_term_def using lk by fastforce
  have doc: "ls_documents seg ! unat (dr_local_id d) = d" if "d \<in> set (ls_documents seg)" for d
    using that segment_document_id(2) [OF wf] by (auto simp: in_set_conv_nth)
  let ?docs = "filter (\<lambda>d. \<forall>t\<in>set terms. has_term seg t d) (ls_documents seg)"
  have cand: "candidates seg ?sts = map dr_local_id ?docs"
    unfolding candidates_eq [OF wf sub] all ..
  have "search_segment s gdf q terms capacity st seg = foldl (offer_hit capacity) st
      (map (\<lambda>l. \<lparr>sh_document = ls_documents seg ! unat l, sh_score = score_document s gdf q seg ?sts l\<rparr>)
        (filter (\<lambda>l. matches_filters (ls_documents seg ! unat l) q) (map dr_local_id ?docs)))"
    using Some by (simp only: search_segment_def Let_def cand option.case) (rule foldl_filter)
  also have "map (\<lambda>l. \<lparr>sh_document = ls_documents seg ! unat l, sh_score = score_document s gdf q seg ?sts l\<rparr>)
        (filter (\<lambda>l. matches_filters (ls_documents seg ! unat l) q) (map dr_local_id ?docs)) =
      map (spec_hit s gdf q terms seg) (filter (\<lambda>d. matches_filters d q) ?docs)"
  proof -
    have "filter (\<lambda>l. matches_filters (ls_documents seg ! unat l) q) (map dr_local_id ?docs) =
        map dr_local_id (filter (\<lambda>d. matches_filters d q) ?docs)"
      unfolding filter_map comp_def by (rule arg_cong [where f = "map dr_local_id"], rule filter_cong) (auto simp: doc)
    moreover have "map (\<lambda>l. \<lparr>sh_document = ls_documents seg ! unat l, sh_score = score_document s gdf q seg ?sts l\<rparr>)
        (map dr_local_id (filter (\<lambda>d. matches_filters d q) ?docs)) =
        map (spec_hit s gdf q terms seg) (filter (\<lambda>d. matches_filters d q) ?docs)"
      unfolding map_map
      by (rule map_cong [OF refl]) (auto simp: doc score_document_spec [OF wf _ Some] spec_hit_def)
    ultimately show ?thesis by simp
  qed
  also have "filter (\<lambda>d. matches_filters d q) ?docs =
      filter (\<lambda>d. (\<forall>t\<in>set terms. has_term seg t d) \<and> matches_filters d q) (ls_documents seg)"
    by (simp add: conj_commute)
  finally show ?thesis by (simp add: segment_hits_def)
qed

section \<open>Ranking\<close>

text \<open>
  Where no two scores differ by more than nothing and at most \<open>1e-12\<close>, and identifiers are
  distinct, \<open>is_better\<close> is a strict total order.
\<close>

definition hits_separated :: "search_hit set \<Rightarrow> bool" where
  "hits_separated A \<longleftrightarrow> (\<forall>x\<in>A. \<forall>y\<in>A.
     (sh_score x = sh_score y \<or> \<bar>sh_score x - sh_score y\<bar> > 1 / 10 ^ 12) \<and>
     (dr_doc_id (sh_document x) = dr_doc_id (sh_document y) \<longrightarrow> x = y))"

definition better_key :: "search_hit \<Rightarrow> search_hit \<Rightarrow> bool" where
  "better_key x y \<longleftrightarrow> sh_score x > sh_score y \<or> sh_score x = sh_score y \<and>
     (dr_occurred_at_ms (sh_document x) > dr_occurred_at_ms (sh_document y) \<or>
      dr_occurred_at_ms (sh_document x) = dr_occurred_at_ms (sh_document y) \<and>
      dr_doc_id (sh_document x) > dr_doc_id (sh_document y))"

lemma is_better_key:
  assumes "hits_separated A" "x \<in> A" "y \<in> A"
  shows "is_better x y \<longleftrightarrow> better_key x y"
proof -
  have "sh_score x = sh_score y \<or> \<bar>sh_score x - sh_score y\<bar> > 1 / 10 ^ 12"
    using assms unfolding hits_separated_def by blast
  then show ?thesis
    by (elim disjE) (auto simp: is_better_def better_key_def)
qed

lemma better_trans:
  assumes "hits_separated A" "x \<in> A" "y \<in> A" "z \<in> A" "is_better x y" "is_better y z"
  shows "is_better x z"
  using assms(5,6) unfolding is_better_key [OF assms(1,2,3)] is_better_key [OF assms(1,3,4)]
    is_better_key [OF assms(1,2,4)] by (auto simp: better_key_def)

lemma better_total:
  assumes "hits_separated A" "x \<in> A" "y \<in> A" "x \<noteq> y"
  shows "is_better x y \<longleftrightarrow> \<not> is_better y x"
proof -
  have "dr_doc_id (sh_document x) \<noteq> dr_doc_id (sh_document y)"
    using assms unfolding hits_separated_def by blast
  then show ?thesis
    unfolding is_better_key [OF assms(1,2,3)] is_better_key [OF assms(1,3,2)] by (auto simp: better_key_def)
qed

lemma mset_pq_push [simp]: "mset (pq_push x L) = add_mset x (mset L)"
  by (induction L) auto

lemma set_pq_push [simp]: "set (pq_push x L) = insert x (set L)"
  by (induction L) auto

lemma length_pq_push [simp]: "length (pq_push x L) = Suc (length L)"
  by (induction L) auto

lemma pq_push_sorted:
  "hits_separated A \<Longrightarrow> insert x (set L) \<subseteq> A \<Longrightarrow> x \<notin> set L \<Longrightarrow> sorted_wrt is_better L \<Longrightarrow>
     sorted_wrt is_better (pq_push x L)"
proof (induction L)
  case (Cons y L)
  show ?case
  proof (cases "is_better x y")
    case True
    with Cons show ?thesis using better_trans [of A x y] by auto
  next
    case False
    then have "is_better y x" using better_total [of A y x] Cons.prems by auto
    with False Cons show ?thesis by auto
  qed
qed simp

lemma pq_push_take: "take k (pq_push x L) = take k (pq_push x (take k L))"
  by (induction L arbitrary: k) (auto simp: take_Cons split: nat.splits)

lemma pq_push_before_last: "is_better x l \<Longrightarrow> pq_push x (L @ [l]) = pq_push x L @ [l]"
  by (induction L) auto

lemma pq_push_worst: "(\<And>y. y \<in> set L \<Longrightarrow> \<not> is_better x y) \<Longrightarrow> pq_push x L = L @ [x]"
  by (induction L) auto

lemma offer_hit_topk:
  assumes sep: "hits_separated A" and sub: "insert x (set L) \<subseteq> A" and new: "x \<notin> set L"
    and sorted: "sorted_wrt is_better L" and k: "0 < k"
  shows "offer_hit k (take k L, n) x = (take k (pq_push x L), n + 1)"
proof (cases "length L < k")
  case True
  then show ?thesis by (simp add: offer_hit_def)
next
  case False
  define Q where "Q = take k L"
  have len: "length Q = k" using False by (simp add: Q_def)
  with k have Q: "Q = butlast Q @ [last Q]" by (metis append_butlast_last_id list.size(3) not_less_zero)
  have pt: "take k (pq_push x L) = take k (pq_push x Q)" unfolding Q_def by (rule pq_push_take)
  have sQ: "sorted_wrt is_better Q" using sorted by (simp add: Q_def sorted_wrt_take)
  have subQ: "set Q \<subseteq> A" "x \<notin> set Q" using sub new by (auto simp: Q_def dest: in_set_takeD)
  show ?thesis
  proof (cases "is_better x (last Q)")
    case True
    have "pq_push x Q = pq_push x (butlast Q) @ [last Q]"
      using pq_push_before_last [OF True, of "butlast Q"] Q by simp
    then have "take k (pq_push x Q) = pq_push x (butlast Q)" using len k by simp
    with True len pt show ?thesis by (simp add: offer_hit_def pq_top_def pq_pop_def flip: Q_def)
  next
    case worse: False
    have "pq_push x Q = Q @ [x]"
    proof (rule pq_push_worst)
      fix y assume y: "y \<in> set Q"
      show "\<not> is_better x y"
      proof (cases "y = last Q")
        case False
        then have "y \<in> set (butlast Q)" using y Q by (metis in_set_butlast_appendI append_Nil2 insertE list.set(1) list.simps(15) set_append UnE empty_iff)
        moreover have "sorted_wrt is_better (butlast Q @ [last Q])" using sQ Q by simp
        ultimately have "is_better y (last Q)" by (simp add: sorted_wrt_append)
        moreover have "last Q \<in> A" "y \<in> A" "x \<in> A" using y Q subQ sub by (auto, metis last_in_set list.size(3) len k not_less_zero subsetD)
        ultimately show ?thesis using better_trans [OF sep, of x y "last Q"] worse by blast
      qed (use worse in simp)
    qed
    then have "take k (pq_push x Q) = Q" using len by simp
    with worse len pt show ?thesis by (simp add: offer_hit_def pq_top_def flip: Q_def)
  qed
qed

lemma foldl_offer_topk:
  assumes sep: "hits_separated A" and k: "0 < k"
  shows "set L \<union> set hs \<subseteq> A \<Longrightarrow> distinct hs \<Longrightarrow> set L \<inter> set hs = {} \<Longrightarrow>
    sorted_wrt is_better L \<Longrightarrow>
    \<exists>R. foldl (offer_hit k) (take k L, n) hs = (take k R, n + length hs) \<and>
        sorted_wrt is_better R \<and> mset R = mset L + mset hs"
proof (induction hs arbitrary: L n)
  case Nil
  then show ?case by auto
next
  case (Cons h hs)
  have step: "offer_hit k (take k L, n) h = (take k (pq_push h L), n + 1)"
    by (rule offer_hit_topk [OF sep _ _ _ k]) (use Cons.prems in auto)
  have sorted: "sorted_wrt is_better (pq_push h L)"
    by (rule pq_push_sorted [OF sep]) (use Cons.prems in auto)
  have "\<exists>R. foldl (offer_hit k) (take k (pq_push h L), n + 1) hs = (take k R, n + 1 + length hs) \<and>
      sorted_wrt is_better R \<and> mset R = mset (pq_push h L) + mset hs"
    by (rule Cons.IH) (use Cons.prems sorted in auto)
  then show ?case by (auto simp: step)
qed

lemma drain_queue_rev: "drain_queue ranked best = ranked @ rev best"
proof (induction ranked best rule: drain_queue.induct)
  case (1 ranked best)
  show ?case
  proof (cases "best = []")
    case True
    then show ?thesis by (simp add: drain_queue.simps)
  next
    case False
    then have rb: "rev best = last best # rev (butlast best)" by (metis append_butlast_last_id rev_eq_Cons_iff rev_rev_ident)
    with 1 [OF False] False show ?thesis by (subst drain_queue.simps) (simp add: pq_top_def pq_pop_def rb)
  qed
qed

lemma sort_hits_sorted:
  assumes sep: "hits_separated A"
  shows "set L \<subseteq> A \<Longrightarrow> distinct L \<Longrightarrow> sorted_wrt is_better L \<Longrightarrow> sort_hits (rev L) = L"
proof (induction L rule: rev_induct)
  case Nil
  then show ?case by (simp add: sort_hits_def)
next
  case (snoc x L)
  have "pq_push x L = L @ [x]"
  proof (rule pq_push_worst)
    fix y assume "y \<in> set L"
    then show "\<not> is_better x y"
      using snoc.prems better_total [OF sep, of y x] by (auto simp: sorted_wrt_append)
  qed
  with snoc show ?case by (simp add: sort_hits_def sorted_wrt_append)
qed

section \<open>The whole search\<close>

definition all_hits :: "index_snapshot \<Rightarrow> search_query \<Rightarrow> search_hit list" where
  "all_hits s q = concat (map (segment_hits s (global_df (sn_segments s) (normalized_terms (sq_keywords q))) q
     (normalized_terms (sq_keywords q))) (sn_segments s))"

lemma foldl_search_segments:
  "list_all segment_wf segs \<Longrightarrow>
     foldl (search_segment s gdf q terms capacity) st segs =
     foldl (offer_hit capacity) st (concat (map (segment_hits s gdf q terms) segs))"
  by (induction segs arbitrary: st) (simp_all add: search_segment_hits)

lemma segment_hits_documents:
  "sh_document ` set (segment_hits s gdf q terms seg) \<subseteq> set (ls_documents seg)"
  by (auto simp: segment_hits_def spec_hit_def)

lemma documents_distinct: "segment_wf seg \<Longrightarrow> distinct (ls_documents seg)"
  using local_ids_sorted [of seg] by (simp add: strict_sorted_iff distinct_map)

lemma segment_hits_distinct: "segment_wf seg \<Longrightarrow> distinct (segment_hits s gdf q terms seg)"
  by (auto simp: segment_hits_def distinct_map documents_distinct inj_on_def spec_hit_def)

lemma document_segment_unique:
  assumes "snapshot_wf s" "g \<in> set (sn_segments s)" "h \<in> set (sn_segments s)"
    and "d \<in> set (ls_documents g)" "e \<in> set (ls_documents h)" "dr_doc_id d = dr_doc_id e"
  shows "d = e \<and> ls_batch_id g = ls_batch_id h"
proof -
  have wf: "segment_wf g" "segment_wf h" using assms(1-3) by (auto simp: snapshot_wf_def list_all_iff)
  obtain i j where i: "i < length (ls_documents g)" "d = ls_documents g ! i"
    and j: "j < length (ls_documents h)" "e = ls_documents h ! j"
    using assms(4,5) by (auto simp: in_set_conv_nth)
  note d = segment_document_id [OF wf(1) i(1)] and e = segment_document_id [OF wf(2) j(1)]
  have b: "ls_batch_id g = ls_batch_id h"
    using d(1) e(1) i j assms(6) wf doc_id_batch by (metis segment_wf_def)
  have l: "dr_local_id d = dr_local_id e"
    using d(1) e(1) i j assms(6) doc_id_local by metis
  have "g = h"
  proof (rule ccontr)
    assume "g \<noteq> h"
    then show False
      using assms(1-3) b by (auto simp: snapshot_wf_def strict_sorted_iff distinct_map inj_on_def)
  qed
  with l d(2) e(2) i j b show ?thesis by metis
qed

lemma all_hits_facts:
  assumes wf: "snapshot_wf s"
  shows "distinct (all_hits s q)"
    and "x \<in> set (all_hits s q) \<Longrightarrow> y \<in> set (all_hits s q) \<Longrightarrow>
      dr_doc_id (sh_document x) = dr_doc_id (sh_document y) \<Longrightarrow> x = y"
proof -
  let ?h = "segment_hits s (global_df (sn_segments s) (normalized_terms (sq_keywords q))) q (normalized_terms (sq_keywords q))"
  have seg: "distinct (sn_segments s)" "inj_on ls_batch_id (set (sn_segments s))" "\<And>g. g \<in> set (sn_segments s) \<Longrightarrow> segment_wf g"
    using wf by (auto simp: snapshot_wf_def strict_sorted_iff distinct_map list_all_iff)
  have hit: "x = spec_hit s (global_df (sn_segments s) (normalized_terms (sq_keywords q))) q
      (normalized_terms (sq_keywords q)) g (sh_document x) \<and> sh_document x \<in> set (ls_documents g)"
    if "x \<in> set (?h g)" for x g
    using that by (auto simp: segment_hits_def spec_hit_def)
  have same: "x = y \<and> g = h" if "g \<in> set (sn_segments s)" "h \<in> set (sn_segments s)" "x \<in> set (?h g)" "y \<in> set (?h h)"
    "dr_doc_id (sh_document x) = dr_doc_id (sh_document y)" for x y g h
  proof -
    have "sh_document x = sh_document y \<and> ls_batch_id g = ls_batch_id h"
      using document_segment_unique [OF wf that(1,2)] hit [OF that(3)] hit [OF that(4)] that(5) by blast
    then have "g = h" using seg(2) that(1,2) by (auto simp: inj_on_def)
    with hit [OF that(3)] hit [OF that(4)] \<open>sh_document x = _ \<and> _\<close> show ?thesis by metis
  qed
  show "x \<in> set (all_hits s q) \<Longrightarrow> y \<in> set (all_hits s q) \<Longrightarrow>
      dr_doc_id (sh_document x) = dr_doc_id (sh_document y) \<Longrightarrow> x = y"
    using same by (auto simp: all_hits_def)
  have "distinct (concat (map ?h gs))" if "distinct gs" "set gs \<subseteq> set (sn_segments s)" for gs
    using that
  proof (induction gs)
    case (Cons g gs)
    have "set (?h g) \<inter> set (concat (map ?h gs)) = {}"
      using same Cons.prems by fastforce
    moreover have "distinct (?h g)" using segment_hits_distinct seg(3) Cons.prems(2) by auto
    ultimately show ?case using Cons by simp
  qed simp
  with seg(1) show "distinct (all_hits s q)" by (simp add: all_hits_def)
qed

definition scores_separated :: "search_hit list \<Rightarrow> bool" where
  "scores_separated hits \<longleftrightarrow> (\<forall>x\<in>set hits. \<forall>y\<in>set hits.
     sh_score x = sh_score y \<or> \<bar>sh_score x - sh_score y\<bar> > 1 / 10 ^ 12)"

lemma drop_as_map: "map (\<lambda>i. xs ! i) [m..<length xs] = drop m xs"
  by (rule nth_equalityI) auto

text \<open>
  C1: A search on a snapshot of loaded segments finds exactly the documents that hold every term and
  pass every filter: \<open>total_hits\<close> counts all of them, and the page is the requested slice of their
  ranking, although the code never keeps more than offset plus page size hits. The ranking is total
  where scores that differ do so by more than the comparison's tolerance.
\<close>

theorem search_correct:
  assumes wf: "snapshot_wf s" and sep: "scores_separated (all_hits s q)"
    and page: "0 < sq_page_size q" "sq_offset q + sq_page_size q \<le> 1000"
  shows "\<exists>ranked. mset ranked = mset (all_hits s q) \<and> sorted_wrt is_better ranked \<and>
    search s q = Inr \<lparr>sp_snapshot_version = sn_version s, sp_total_hits = length (all_hits s q),
      sp_items = take (sq_page_size q) (drop (sq_offset q) ranked)\<rparr>"
proof -
  let ?A = "set (all_hits s q)" and ?k = "sq_offset q + sq_page_size q"
  have sep': "hits_separated ?A"
    using sep all_hits_facts(2) [OF wf] unfolding hits_separated_def scores_separated_def by blast
  have k: "0 < ?k" using page by simp
  obtain R where R: "foldl (offer_hit ?k) (take ?k [], 0) (all_hits s q) = (take ?k R, 0 + length (all_hits s q))"
    "sorted_wrt is_better R" "mset R = mset [] + mset (all_hits s q)"
    using foldl_offer_topk [OF sep' k, of "[]" "all_hits s q" 0] all_hits_facts(1) [OF wf] by auto
  have segs: "list_all segment_wf (sn_segments s)" using wf by (simp add: snapshot_wf_def)
  have best: "foldl (search_segment s (global_df (sn_segments s) (normalized_terms (sq_keywords q))) q
      (normalized_terms (sq_keywords q)) ?k) ([], 0) (sn_segments s) = (take ?k R, length (all_hits s q))"
    using R(1) by (simp add: foldl_search_segments [OF segs] all_hits_def)
  have "set R = ?A" "distinct R"
    using R(3) all_hits_facts(1) [OF wf] by (metis set_mset_mset empty_neutral(1) mset.simps(1),
      metis mset_eq_imp_distinct_iff empty_neutral(1) mset.simps(1))
  then have "sort_hits (drain_queue [] (take ?k R)) = take ?k R"
    unfolding drain_queue_rev using R(2)
    by (simp, intro sort_hits_sorted [OF sep']) (auto simp: sorted_wrt_take dest: in_set_takeD)
  moreover have "map (\<lambda>i. take ?k R ! i) [sq_offset q..<min (length (take ?k R)) ?k] =
      take (sq_page_size q) (drop (sq_offset q) R)"
    using drop_as_map [of "take ?k R" "sq_offset q"] by (simp add: drop_take min.commute)
  ultimately have "search s q = Inr \<lparr>sp_snapshot_version = sn_version s, sp_total_hits = length (all_hits s q),
      sp_items = take (sq_page_size q) (drop (sq_offset q) R)\<rparr>"
    using page by (simp add: search_def Let_def best)
  with R(2,3) show ?thesis by auto
qed

definition sample_query :: search_query where
  "sample_query = \<lparr>sq_keywords = [''X''], sq_line_id = [], sq_station_id = [], sq_device_id = ''D'',
     sq_work_order = [], sq_product_sn = [], sq_levels = [], sq_module_name = [], sq_error_code = [],
     sq_has_time_range = False, sq_occurred_from_ms = 0, sq_occurred_to_ms = 0, sq_anomaly_only = True,
     sq_offset = 0, sq_page_size = 10\<rparr>"

lemma sample_snapshot_wf: "snapshot_wf sample_snapshot"
  using sample_segment_wf by (simp add: snapshot_wf_def sample_snapshot_def) (simp add: sample_segment_def)

theorem search_correct_witness:
  "\<exists>page. search sample_snapshot sample_query = Inr page \<and> sp_total_hits page = 1 \<and>
     map sh_document (sp_items page) = [sample_document]"
proof -
  have "tokenize_terms ''X'' = [''x'']" by code_simp
  then have terms: "normalized_terms [''X''] = [''x'']" by (simp add: normalized_terms_def)
  have "length (all_hits sample_snapshot sample_query) = 1 \<and>
      map sh_document (all_hits sample_snapshot sample_query) = [sample_document]"
    by (simp add: all_hits_def sample_query_def terms)
      (simp add: sample_snapshot_def sample_segment_def sample_document_def segment_hits_def
        has_term_def term_postings_def posting_range_def matches_filters_def spec_hit_def)
  moreover from this have "scores_separated (all_hits sample_snapshot sample_query)"
    by (auto simp: scores_separated_def length_Suc_conv)
  ultimately show ?thesis
    using search_correct [OF sample_snapshot_wf, of sample_query]
    by (auto simp: sample_query_def length_Suc_conv)
qed

text \<open>
  C39: The comparison with its tolerance is not an ordering: three hits whose scores lie within twice
  the tolerance can each be better than the next in a circle, so that neither \<open>std::sort\<close> nor the
  priority queue is given the strict weak order it requires.
\<close>

theorem is_better_cyclic:
  "\<exists>a b c. is_better a b \<and> is_better b c \<and> is_better c a"
proof -
  let ?h = "\<lambda>t x. \<lparr>sh_document = sample_document\<lparr>dr_occurred_at_ms := t\<rparr>, sh_score = x\<rparr>"
  have "is_better (?h 3 0) (?h 2 (6 / 10 ^ 13)) \<and> is_better (?h 2 (6 / 10 ^ 13)) (?h 1 (12 / 10 ^ 13)) \<and>
      is_better (?h 1 (12 / 10 ^ 13)) (?h 3 0)"
    by (simp add: is_better_def)
  then show ?thesis by blast
qed

end
