(* ===== verification/Slru_Cache.thy ===== *)
theory Slru_Cache
  imports Interfaces
begin

text \<open>
  The segmented LRU cache of LogTrace (\<open>cache/slru_cache.h\<close>), the contract its client relies on as
  the locale \<open>lookup_cache\<close>, and its interpretation. The two lists hold the keys of each partition,
  most recent first; \<open>entries\<close> holds the values. The list iterator an entry stores designates the
  key's only occurrence in its list (\<open>slru_inv\<close> has the keys distinct), so \<open>splice\<close> to the front
  and \<open>erase\<close> at that position are \<open>remove1\<close> of the key. Each operation runs under the cache's mutex
  and is one atomic step here.
\<close>

section \<open>The code\<close>

record 'v slru_entry =
  entry_value :: 'v
  is_protected :: bool

record ('k, 'v) slru =
  probation_capacity :: nat
  protected_capacity :: nat
  probation :: "'k list"
  protected :: "'k list"
  entries :: "'k \<rightharpoonup> 'v slru_entry"

datatype slru_error = Slru_capacities_must_be_positive

definition slru_new :: "nat \<Rightarrow> nat \<Rightarrow> slru_error + ('k, 'v) slru" where
  "slru_new probation_cap protected_cap =
     (if probation_cap = 0 \<or> protected_cap = 0 then Inl Slru_capacities_must_be_positive
      else Inr \<lparr>probation_capacity = probation_cap, protected_capacity = protected_cap,
                probation = [], protected = [], entries = Map.empty\<rparr>)"

definition evict_probation_if_needed :: "('k, 'v) slru \<Rightarrow> ('k, 'v) slru" where
  "evict_probation_if_needed c =
     (if length (probation c) \<le> probation_capacity c then c
      else c\<lparr>entries := (entries c)(last (probation c) := None),
             probation := butlast (probation c)\<rparr>)"

definition demote_protected_if_needed :: "('k, 'v) slru \<Rightarrow> ('k, 'v) slru" where
  "demote_protected_if_needed c =
     (if length (protected c) \<le> protected_capacity c then c
      else (let key = last (protected c);
                c1 = c\<lparr>protected := butlast (protected c), probation := key # probation c,
                       entries := (entries c)(key := map_option (is_protected_update (\<lambda>_. False))
                                                       (entries c key))\<rparr>
            in evict_probation_if_needed c1))"

text \<open>
  \<open>get\<close> reads the value through the entry after the demotion, as the code does; that the entry is
  still there is part of \<open>slru_get_value\<close>.
\<close>

definition slru_get :: "'k \<Rightarrow> ('k, 'v) slru \<Rightarrow> 'v option \<times> ('k, 'v) slru" where
  "slru_get key c = (case entries c key of
      None \<Rightarrow> (None, c)
    | Some found \<Rightarrow>
        (let c1 = (if is_protected found
                   then c\<lparr>protected := key # remove1 key (protected c)\<rparr>
                   else demote_protected_if_needed
                          (c\<lparr>probation := remove1 key (probation c), protected := key # protected c,
                             entries := (entries c)(key \<mapsto> found\<lparr>is_protected := True\<rparr>)\<rparr>))
         in (map_option entry_value (entries c1 key), c1)))"

definition slru_put :: "'k \<Rightarrow> 'v \<Rightarrow> ('k, 'v) slru \<Rightarrow> ('k, 'v) slru" where
  "slru_put key value c = (case entries c key of
      Some found \<Rightarrow>
        (let c1 = c\<lparr>entries := (entries c)(key \<mapsto> found\<lparr>entry_value := value\<rparr>)\<rparr>
         in if is_protected found then c1\<lparr>protected := key # remove1 key (protected c1)\<rparr>
            else c1\<lparr>probation := key # remove1 key (probation c1)\<rparr>)
    | None \<Rightarrow>
        evict_probation_if_needed
          (c\<lparr>probation := key # probation c,
             entries := (entries c)(key \<mapsto> \<lparr>entry_value = value, is_protected = False\<rparr>)\<rparr>))"

definition slru_erase :: "'k \<Rightarrow> ('k, 'v) slru \<Rightarrow> bool \<times> ('k, 'v) slru" where
  "slru_erase key c = (case entries c key of
      None \<Rightarrow> (False, c)
    | Some found \<Rightarrow>
        (let c1 = (if is_protected found then c\<lparr>protected := remove1 key (protected c)\<rparr>
                   else c\<lparr>probation := remove1 key (probation c)\<rparr>)
         in (True, c1\<lparr>entries := (entries c1)(key := None)\<rparr>)))"

definition slru_clear :: "('k, 'v) slru \<Rightarrow> ('k, 'v) slru" where
  "slru_clear c = c\<lparr>entries := Map.empty, probation := [], protected := []\<rparr>"

definition slru_size :: "('k, 'v) slru \<Rightarrow> nat" where
  "slru_size c = card (dom (entries c))"

section \<open>Well-formedness\<close>

definition slru_core :: "('k, 'v) slru \<Rightarrow> bool" where
  "slru_core c \<longleftrightarrow>
     0 < probation_capacity c \<and> 0 < protected_capacity c \<and>
     distinct (probation c) \<and> distinct (protected c) \<and>
     (\<forall>k. k \<in> set (probation c) \<longleftrightarrow> (\<exists>e. entries c k = Some e \<and> \<not> is_protected e)) \<and>
     (\<forall>k. k \<in> set (protected c) \<longleftrightarrow> (\<exists>e. entries c k = Some e \<and> is_protected e))"

definition slru_inv :: "('k, 'v) slru \<Rightarrow> bool" where
  "slru_inv c \<longleftrightarrow> slru_core c \<and> length (probation c) \<le> probation_capacity c \<and>
     length (protected c) \<le> protected_capacity c"

text \<open>The abstraction: the partial map from keys to values.\<close>

definition slru_contents :: "('k, 'v) slru \<Rightarrow> 'k \<rightharpoonup> 'v" where
  "slru_contents c k = map_option entry_value (entries c k)"

lemma slru_disjoint: "slru_core c \<Longrightarrow> set (probation c) \<inter> set (protected c) = {}"
  by (auto simp: slru_core_def)

lemma last_butlast_distinct:
  assumes "distinct xs" "xs \<noteq> []"
  shows "set (butlast xs) = set xs - {last xs}" "distinct (butlast xs)"
  using assms by (induction xs rule: rev_induct) auto

lemma slru_new_inv: "slru_new m n = Inr c \<Longrightarrow> slru_inv c"
  by (auto simp: slru_new_def slru_inv_def slru_core_def split: if_splits)

text \<open>Eviction removes exactly the oldest probation key, and only when the partition overflows.\<close>

lemma evict_core:
  assumes "slru_core c"
  shows "slru_core (evict_probation_if_needed c)"
proof (cases "length (probation c) \<le> probation_capacity c")
  case True
  with assms show ?thesis by (simp add: evict_probation_if_needed_def)
next
  case False
  then have ne: "probation c \<noteq> []" by auto
  have "distinct (probation c)" using assms by (simp add: slru_core_def)
  note lb = last_butlast_distinct [OF this ne]
  have "last (probation c) \<in> set (probation c)" using ne by simp
  then have "last (probation c) \<notin> set (protected c)"
    using slru_disjoint [OF assms] by blast
  then show ?thesis
    using False assms lb by (auto simp: slru_core_def evict_probation_if_needed_def)
qed

lemma evict_inv:
  assumes "slru_core c" "length (probation c) \<le> Suc (probation_capacity c)"
    "length (protected c) \<le> protected_capacity c"
  shows "slru_inv (evict_probation_if_needed c)"
  using evict_core [OF assms(1)] assms by (auto simp: slru_inv_def evict_probation_if_needed_def)

lemma evict_simps [simp]:
  "protected (evict_probation_if_needed c) = protected c"
  "probation_capacity (evict_probation_if_needed c) = probation_capacity c"
  "protected_capacity (evict_probation_if_needed c) = protected_capacity c"
  by (simp_all add: evict_probation_if_needed_def)

lemma evict_contents:
  "slru_contents (evict_probation_if_needed c) =
     (if length (probation c) \<le> probation_capacity c then slru_contents c
      else (slru_contents c)(last (probation c) := None))"
  by (auto simp: evict_probation_if_needed_def slru_contents_def)

lemma core_promote:
  assumes "slru_core c" "entries c k = Some e" "\<not> is_protected e"
  shows "slru_core (c\<lparr>probation := remove1 k (probation c), protected := k # protected c,
                      entries := (entries c)(k \<mapsto> e\<lparr>is_protected := True\<rparr>)\<rparr>)"
  using assms by (auto simp: slru_core_def set_remove1_eq)

text \<open>
  A promotion leaves room in the probation list, so the demotion it causes evicts nothing: a hit
  never loses an entry, and the entry \<open>get\<close> reads is still there.
\<close>

lemma demote_inv:
  assumes core: "slru_core c" and room: "length (probation c) < probation_capacity c"
    and prot: "length (protected c) \<le> Suc (protected_capacity c)"
  shows "slru_inv (demote_protected_if_needed c)"
    and "slru_contents (demote_protected_if_needed c) = slru_contents c"
proof -
  have "slru_inv (demote_protected_if_needed c) \<and>
        slru_contents (demote_protected_if_needed c) = slru_contents c"
  proof (cases "length (protected c) \<le> protected_capacity c")
    case True
    with core room show ?thesis by (simp add: demote_protected_if_needed_def slru_inv_def)
  next
    case False
    let ?k = "last (protected c)"
    let ?c = "c\<lparr>protected := butlast (protected c), probation := ?k # probation c,
                entries := (entries c)(?k := map_option (is_protected_update (\<lambda>_. False)) (entries c ?k))\<rparr>"
    from False have ne: "protected c \<noteq> []" by auto
    then have k: "?k \<in> set (protected c)" by simp
    then have "?k \<notin> set (probation c)" using slru_disjoint [OF core] by blast
    moreover have "distinct (protected c)" using core by (simp add: slru_core_def)
    note last_butlast_distinct [OF this ne]
    ultimately have "slru_core ?c"
      using core k by (auto simp: slru_core_def)
    moreover have "demote_protected_if_needed c = ?c"
      using False room by (simp add: demote_protected_if_needed_def evict_probation_if_needed_def Let_def)
    moreover have "slru_contents ?c = slru_contents c"
      by (auto simp: slru_contents_def option.map_comp o_def option.map_ident)
    ultimately show ?thesis
      using room prot False by (auto simp: slru_inv_def)
  qed
  then show "slru_inv (demote_protected_if_needed c)"
    and "slru_contents (demote_protected_if_needed c) = slru_contents c" by auto
qed

lemma slru_get_correct:
  assumes inv: "slru_inv c"
  shows "slru_inv (snd (slru_get k c))" "fst (slru_get k c) = slru_contents c k"
    "slru_contents (snd (slru_get k c)) = slru_contents c"
proof -
  have core: "slru_core c" using inv by (simp add: slru_inv_def)
  have "slru_inv (snd (slru_get k c)) \<and> fst (slru_get k c) = slru_contents c k \<and>
        slru_contents (snd (slru_get k c)) = slru_contents c"
  proof (cases "entries c k")
    case None
    with inv show ?thesis by (simp add: slru_get_def slru_contents_def)
  next
    case (Some e)
    show ?thesis
    proof (cases "is_protected e")
      case True
      with Some core have "k \<in> set (protected c)" by (auto simp: slru_core_def)
      then have "0 < length (protected c)" by (cases "protected c") auto
      with True Some inv \<open>k \<in> set (protected c)\<close> show ?thesis
        by (auto simp: slru_get_def slru_contents_def slru_inv_def slru_core_def Let_def
              length_remove1 set_remove1_eq)
    next
      case False
      let ?c = "c\<lparr>probation := remove1 k (probation c), protected := k # protected c,
                  entries := (entries c)(k \<mapsto> e\<lparr>is_protected := True\<rparr>)\<rparr>"
      from False Some core have k: "k \<in> set (probation c)" by (auto simp: slru_core_def)
      then have "0 < length (probation c)" by (cases "probation c") auto
      then have "length (probation c) - 1 < probation_capacity c"
        using inv unfolding slru_inv_def by linarith
      then have room: "length (probation ?c) < probation_capacity ?c"
        and prot: "length (protected ?c) \<le> Suc (protected_capacity ?c)"
        using inv k by (auto simp: slru_inv_def length_remove1)
      note d = demote_inv [OF core_promote [OF core Some False] room prot]
      have "slru_contents ?c = slru_contents c"
        using Some by (auto simp: slru_contents_def)
      with d have "slru_contents (demote_protected_if_needed ?c) = slru_contents c" by simp
      moreover from this have "map_option entry_value (entries (demote_protected_if_needed ?c) k)
          = slru_contents c k" by (simp add: slru_contents_def fun_eq_iff)
      ultimately show ?thesis
        using d False Some by (simp add: slru_get_def Let_def)
    qed
  qed
  then show "slru_inv (snd (slru_get k c))" "fst (slru_get k c) = slru_contents c k"
    "slru_contents (snd (slru_get k c)) = slru_contents c" by auto
qed

section \<open>Insertion\<close>

lemma core_insert:
  assumes "slru_core c" "entries c k = None"
  shows "slru_core (c\<lparr>probation := k # probation c,
           entries := (entries c)(k \<mapsto> \<lparr>entry_value = v, is_protected = False\<rparr>)\<rparr>)"
  using assms by (auto simp: slru_core_def)

lemma slru_put_inv:
  assumes inv: "slru_inv c"
  shows "slru_inv (slru_put k v c)"
proof (cases "entries c k")
  case None
  let ?c = "c\<lparr>probation := k # probation c,
              entries := (entries c)(k \<mapsto> \<lparr>entry_value = v, is_protected = False\<rparr>)\<rparr>"
  have "slru_inv (evict_probation_if_needed ?c)"
    using inv None by (intro evict_inv core_insert) (auto simp: slru_inv_def)
  with None show ?thesis by (simp add: slru_put_def)
next
  case (Some e)
  have core: "slru_core c" using inv by (simp add: slru_inv_def)
  show ?thesis
  proof (cases "is_protected e")
    case True
    with Some core have "k \<in> set (protected c)" by (auto simp: slru_core_def)
    then have "0 < length (protected c)" by (cases "protected c") auto
    with True Some inv \<open>k \<in> set (protected c)\<close> show ?thesis
      by (auto simp: slru_put_def slru_inv_def slru_core_def Let_def length_remove1 set_remove1_eq)
  next
    case False
    with Some core have "k \<in> set (probation c)" by (auto simp: slru_core_def)
    then have "0 < length (probation c)" by (cases "probation c") auto
    with False Some inv \<open>k \<in> set (probation c)\<close> show ?thesis
      by (auto simp: slru_put_def slru_inv_def slru_core_def Let_def length_remove1 set_remove1_eq)
  qed
qed

text \<open>
  What an insertion leaves: the new binding, and of the old ones all but possibly the oldest
  probation key, which goes only when a new key overflows the partition.
\<close>

definition slru_victim :: "'k \<Rightarrow> ('k, 'v) slru \<Rightarrow> 'k option" where
  "slru_victim k c = (if entries c k = None \<and> probation_capacity c \<le> length (probation c)
                      then Some (last (probation c)) else None)"

lemma slru_put_contents:
  assumes inv: "slru_inv c"
  shows "slru_contents (slru_put k v c) =
    (case slru_victim k c of None \<Rightarrow> (slru_contents c)(k \<mapsto> v)
     | Some w \<Rightarrow> (slru_contents c)(k \<mapsto> v, w := None))"
proof (cases "entries c k")
  case None
  have "0 < probation_capacity c" using inv by (simp add: slru_inv_def slru_core_def)
  then have ne: "probation_capacity c \<le> length (probation c) \<Longrightarrow> probation c \<noteq> []" by auto
  let ?c = "c\<lparr>probation := k # probation c,
              entries := (entries c)(k \<mapsto> \<lparr>entry_value = v, is_protected = False\<rparr>)\<rparr>"
  have "slru_contents ?c = (slru_contents c)(k \<mapsto> v)" by (auto simp: slru_contents_def)
  with None ne show ?thesis
    by (auto simp: slru_put_def evict_contents slru_victim_def not_le Suc_le_eq)
next
  case (Some e)
  then show ?thesis
    by (auto simp: slru_put_def slru_contents_def slru_victim_def Let_def)
qed

lemma slru_victim_probation:
  assumes "slru_inv c" "slru_victim k c = Some w"
  shows "w \<in> set (probation c)"
proof -
  have "0 < probation_capacity c" using assms(1) by (simp add: slru_inv_def slru_core_def)
  with assms(2) have "probation c \<noteq> [] \<and> w = last (probation c)"
    by (auto simp: slru_victim_def split: if_splits)
  then show ?thesis by simp
qed

lemma slru_victim_not_self:
  assumes "slru_inv c" "slru_victim k c = Some w"
  shows "w \<noteq> k"
proof
  assume "w = k"
  with slru_victim_probation [OF assms] have "\<exists>e. entries c k = Some e"
    using assms(1) by (auto simp: slru_inv_def slru_core_def)
  with assms(2) show False by (auto simp: slru_victim_def split: if_splits)
qed

lemma slru_erase_core:
  assumes core: "slru_core c"
  shows "slru_core (snd (slru_erase k c))"
proof (cases "entries c k")
  case None
  with core show ?thesis by (simp add: slru_erase_def)
next
  case (Some e)
  then show ?thesis
    using core by (cases "is_protected e") (auto simp: slru_erase_def slru_core_def Let_def)
qed

lemma length_remove1_le: "length (remove1 x xs) \<le> length xs"
  by (simp add: length_remove1)

lemma slru_erase_inv: "slru_inv c \<Longrightarrow> slru_inv (snd (slru_erase k c))"
  using slru_erase_core [of c k]
  by (auto simp: slru_inv_def slru_erase_def Let_def split: option.splits
      intro: order_trans [OF length_remove1_le])

lemma slru_erase_contents:
  "slru_contents (snd (slru_erase k c)) = (slru_contents c)(k := None)"
  "fst (slru_erase k c) \<longleftrightarrow> slru_contents c k \<noteq> None"
  by (auto simp: slru_erase_def slru_contents_def Let_def split: option.splits)

lemma slru_clear_inv: "slru_inv c \<Longrightarrow> slru_inv (slru_clear c)"
  by (auto simp: slru_clear_def slru_inv_def slru_core_def)

section \<open>The contract\<close>

lemma slru_put_contents_le:
  "slru_inv c \<Longrightarrow> slru_contents (slru_put k v c) \<subseteq>\<^sub>m (slru_contents c)(k \<mapsto> v)"
  by (auto simp: slru_put_contents map_le_def split: option.splits)

interpretation slru: lookup_cache slru_get slru_put slru_contents slru_inv
  by unfold_locales (simp_all add: slru_get_correct slru_put_inv slru_put_contents_le)

section \<open>Runs\<close>

datatype ('k, 'v) slru_op = Slru_get 'k | Slru_put 'k 'v | Slru_erase 'k | Slru_clear

fun slru_step :: "('k, 'v) slru_op \<Rightarrow> ('k, 'v) slru \<Rightarrow> ('k, 'v) slru" where
  "slru_step (Slru_get k) c = snd (slru_get k c)"
| "slru_step (Slru_put k v) c = slru_put k v c"
| "slru_step (Slru_erase k) c = snd (slru_erase k c)"
| "slru_step Slru_clear c = slru_clear c"

lemma slru_step_inv: "slru_inv c \<Longrightarrow> slru_inv (slru_step op c)"
  by (cases op) (simp_all add: slru_get_correct slru_put_inv slru_erase_inv slru_clear_inv)

lemma slru_run_inv: "slru_inv c \<Longrightarrow> slru_inv (fold slru_step ops c)"
  by (induction ops arbitrary: c) (simp_all add: slru_step_inv)

lemma demote_capacity [simp]:
  "probation_capacity (demote_protected_if_needed c) = probation_capacity c"
  "protected_capacity (demote_protected_if_needed c) = protected_capacity c"
  by (simp_all add: demote_protected_if_needed_def Let_def)

lemma slru_step_capacity [simp]:
  "probation_capacity (slru_step op c) = probation_capacity c"
  "protected_capacity (slru_step op c) = protected_capacity c"
  by (cases op; simp add: slru_get_def slru_put_def slru_erase_def slru_clear_def Let_def
        split: option.split)+

lemma slru_run_capacity [simp]:
  "probation_capacity (fold slru_step ops c) = probation_capacity c"
  "protected_capacity (fold slru_step ops c) = protected_capacity c"
  by (induction ops arbitrary: c) simp_all

lemma slru_size_eq:
  assumes "slru_inv c"
  shows "slru_size c = length (probation c) + length (protected c)"
proof -
  have core: "slru_core c" using assms by (simp add: slru_inv_def)
  have "dom (entries c) = set (probation c) \<union> set (protected c)"
    using core by (auto simp: slru_core_def)
  with slru_disjoint [OF core] core show ?thesis
    by (simp add: slru_size_def card_Un_disjoint distinct_card slru_core_def)
qed

text \<open>
  C35: Whatever the sequence of get, put, erase and clear calls on a freshly constructed cache, the
  two lists and the entry map stay consistent (each entry is in exactly the list its flag says, no
  key twice), each partition stays within its capacity, and \<open>size()\<close> is the sum of the two
  partition sizes and so never exceeds the sum of the capacities.
\<close>

theorem slru_run_bounded:
  assumes "slru_new m n = Inr c"
  shows "slru_inv (fold slru_step ops c) \<and>
    slru_size (fold slru_step ops c) =
      length (probation (fold slru_step ops c)) + length (protected (fold slru_step ops c)) \<and>
    slru_size (fold slru_step ops c) \<le> m + n"
proof -
  have inv: "slru_inv (fold slru_step ops c)"
    by (rule slru_run_inv [OF slru_new_inv [OF assms]])
  moreover have "probation_capacity c = m" "protected_capacity c = n"
    using assms by (auto simp: slru_new_def split: if_splits)
  ultimately show ?thesis
    using slru_size_eq [OF inv] by (auto simp: slru_inv_def add_mono)
qed

theorem slru_run_bounded_witness:
  "\<exists>c. slru_new 1 2 = Inr c \<and> slru_inv c \<and>
     slru_size (fold slru_step [Slru_put (1::nat) ''a'', Slru_get 1, Slru_put 2 ''b'', Slru_put 3 ''c''] c) \<le> 3"
proof -
  obtain c where c: "(slru_new 1 2 :: slru_error + (nat, string) slru) = Inr c"
    by (simp add: slru_new_def)
  show ?thesis
    using c slru_new_inv [OF c] slru_run_bounded [OF c,
        of "[Slru_put 1 ''a'', Slru_get 1, Slru_put 2 ''b'', Slru_put 3 ''c'']"]
    by auto
qed

text \<open>
  A lookup in a well-formed cache returns exactly the value the cache holds for the key, and it
  loses nothing: after a hit the promotion, and the demotion and eviction check it may trigger, leave
  every binding in place, so in particular the entry whose value \<open>get\<close> copies out is still there.
\<close>

lemma slru_get_lossless:
  assumes "slru_inv c"
  shows "fst (slru_get k c) = slru_contents c k \<and>
    slru_contents (snd (slru_get k c)) = slru_contents c \<and> slru_inv (snd (slru_get k c))"
  using slru_get_correct [OF assms] by blast

text \<open>
  The purpose of the two partitions: a run of insertions, however long, evicts no protected key.
\<close>

lemma slru_put_protected:
  assumes inv: "slru_inv c" and k: "k \<in> set (protected c)"
  shows "k \<in> set (protected (slru_put j v c))"
    and "slru_contents (slru_put j v c) k = (if j = k then Some v else slru_contents c k)"
proof -
  have core: "slru_core c" using inv by (simp add: slru_inv_def)
  show "k \<in> set (protected (slru_put j v c))"
    using k by (auto simp: slru_put_def Let_def split: option.splits) (metis in_set_remove1)
  have "slru_victim j c \<noteq> Some k"
    using slru_victim_probation [OF inv] k slru_disjoint [OF core] by blast
  then show "slru_contents (slru_put j v c) k = (if j = k then Some v else slru_contents c k)"
    using slru_victim_not_self [OF inv]
    by (auto simp: slru_put_contents [OF inv] split: option.splits)
qed

text \<open>
  Scan resistance. A key that has reached the protected partition survives any sequence of
  insertions of other keys, with its value unchanged, however many of them pass through probation.
\<close>

lemma slru_scan_resistant:
  assumes "slru_inv c" "k \<in> set (protected c)" "k \<notin> fst ` set kvs"
  shows "k \<in> set (protected (fold (\<lambda>(j, v). slru_put j v) kvs c)) \<and>
    slru_contents (fold (\<lambda>(j, v). slru_put j v) kvs c) k = slru_contents c k"
  using assms
proof (induction kvs arbitrary: c)
  case Nil
  then show ?case by simp
next
  case (Cons jv kvs)
  obtain j v where jv: "jv = (j, v)" by (cases jv)
  have "j \<noteq> k" using Cons.prems(3) jv by auto
  then show ?case
    using Cons.IH [OF slru_put_inv [OF Cons.prems(1), of j v]
        slru_put_protected(1) [OF Cons.prems(1,2)]] Cons.prems(3) jv
      slru_put_protected(2) [OF Cons.prems(1,2), of j v] by simp
qed

end
