(* ===== verification/Calendar.thy ===== *)
theory Calendar
  imports Prelude
begin

text \<open>
  The C library's calendar, which both products use for their timestamps: the proleptic Gregorian
  calendar without leap seconds. \<open>timegm\<close> normalises its month and otherwise adds the fields up,
  \<open>gmtime\<close> is computed from the day number by the 400-, 100-, 4- and 1-year cycles;
  \<open>gmtime_valid_inverse\<close> and \<open>gmtime_timegm\<close> show the two inverse on valid broken-down times.
\<close>

section \<open>The C library's calendar\<close>

record tm =
  tm_year :: int
  tm_mon :: int
  tm_mday :: int
  tm_hour :: int
  tm_min :: int
  tm_sec :: int

definition is_leap :: "int \<Rightarrow> bool" where
  "is_leap y \<longleftrightarrow> y mod 4 = 0 \<and> (y mod 100 \<noteq> 0 \<or> y mod 400 = 0)"

definition month_lengths :: "int \<Rightarrow> int list" where
  "month_lengths y = [31, if is_leap y then 29 else 28, 31, 30, 31, 30, 31, 31, 30, 31, 30, 31]"

definition year_length :: "int \<Rightarrow> int" where
  "year_length y = (if is_leap y then 366 else 365)"

text \<open>Days from 1 January of year 1 to 1 January of year \<open>y\<close>.\<close>

definition days_before_year :: "int \<Rightarrow> int" where
  "days_before_year y = 365 * (y - 1) + (y - 1) div 4 - (y - 1) div 100 + (y - 1) div 400"

definition epoch_day :: int where
  "epoch_day = days_before_year 1970"

definition timegm :: "tm \<Rightarrow> int" where
  "timegm t = (let y = tm_year t + 1900 + tm_mon t div 12; m = nat (tm_mon t mod 12)
     in (days_before_year y + sum_list (take m (month_lengths y)) + tm_mday t - 1 - epoch_day) * 86400
        + tm_hour t * 3600 + tm_min t * 60 + tm_sec t)"

text \<open>The year of a day number and the day within it, by 400-, 100-, 4- and 1-year cycles.\<close>

definition year_of_day :: "int \<Rightarrow> int \<times> int" where
  "year_of_day n = (let n400 = n div 146097; r = n mod 146097;
       n100 = min 3 (r div 36524); r1 = r - n100 * 36524;
       n4 = r1 div 1461; r2 = r1 mod 1461; n1 = min 3 (r2 div 365)
     in (400 * n400 + 100 * n100 + 4 * n4 + n1 + 1, r2 - 365 * n1))"

fun month_of_day :: "int list \<Rightarrow> int \<Rightarrow> nat \<times> int" where
  "month_of_day [] d = (0, d + 1)"
| "month_of_day (l # ls) d =
     (if d < l then (0, d + 1) else (let (m, k) = month_of_day ls (d - l) in (Suc m, k)))"

definition gmtime :: "int \<Rightarrow> tm" where
  "gmtime e = (let (y, yday) = year_of_day (e div 86400 + epoch_day);
       (m, d) = month_of_day (month_lengths y) yday; r = e mod 86400
     in \<lparr>tm_year = y - 1900, tm_mon = int m, tm_mday = d,
         tm_hour = r div 3600, tm_min = r mod 3600 div 60, tm_sec = r mod 60\<rparr>)"

section \<open>The calendar is a bijection\<close>

lemma epoch_day_val: "epoch_day = 719162"
  by (simp add: epoch_day_def days_before_year_def)

lemma div_step:
  fixes y k :: int
  assumes "1 < k"
  shows "y div k - (y - 1) div k = (if y mod k = 0 then 1 else 0)"
proof (cases "y mod k = 0")
  case True
  then have "y - 1 = k * (y div k - 1) + (k - 1)"
    using mult_div_mod_eq [of k y] by (simp add: right_diff_distrib)
  from int_div_pos_eq [OF this] assms True show ?thesis by simp
next
  case False
  have "0 \<le> y mod k" "y mod k < k" using assms by simp_all
  moreover have "y - 1 = k * (y div k) + (y mod k - 1)"
    using mult_div_mod_eq [of k y] by simp
  ultimately show ?thesis using int_div_pos_eq [of "y - 1" k "y div k" "y mod k - 1"] False by simp
qed

lemma mod_of_mod:
  fixes y :: int
  assumes "y mod n = 0" "m dvd n"
  shows "y mod m = 0"
  using assms by (meson dvd_trans mod_0_imp_dvd mod_eq_0_iff_dvd)

lemma days_before_year_Suc: "days_before_year (y + 1) = days_before_year y + year_length y"
proof -
  have leap: "y mod 100 = 0 \<Longrightarrow> y mod 4 = 0" "y mod 400 = 0 \<Longrightarrow> y mod 100 = 0"
    by (erule mod_of_mod, simp)+
  define a b c where "a = (y - 1) div 4" and "b = (y - 1) div 100" and "c = (y - 1) div 400"
  have "y div 4 = a + (if y mod 4 = 0 then 1 else 0)"
    "y div 100 = b + (if y mod 100 = 0 then 1 else 0)"
    "y div 400 = c + (if y mod 400 = 0 then 1 else 0)"
    using div_step [of 4 y] div_step [of 100 y] div_step [of 400 y] unfolding a_def b_def c_def
    by (simp_all only: diff_eq_eq add.commute)
  then have "days_before_year (y + 1) = 365 * y + (a + (if y mod 4 = 0 then 1 else 0))
      - (b + (if y mod 100 = 0 then 1 else 0)) + (c + (if y mod 400 = 0 then 1 else 0))"
    by (simp only: days_before_year_def add_diff_cancel_right')
  moreover have "days_before_year y = 365 * (y - 1) + a - b + c"
    by (simp only: days_before_year_def a_def b_def c_def)
  ultimately have "days_before_year (y + 1) - days_before_year y = 365 + (if y mod 4 = 0 then 1 else 0)
      - (if y mod 100 = 0 then 1 else 0) + (if y mod 400 = 0 then 1 else 0)"
    by (simp only:) (simp only: algebra_simps)
  also have "\<dots> = year_length y"
    by (cases "y mod 4 = 0"; cases "y mod 100 = 0"; cases "y mod 400 = 0")
      (use leap in \<open>simp_all only: year_length_def is_leap_def simp_thms if_True if_False\<close>)
  finally show ?thesis by linarith
qed

lemma days_before_year_cycles:
  assumes "0 \<le> b" "b \<le> 3" "0 \<le> c" "c \<le> 24" "0 \<le> d" "d \<le> 3"
  shows "days_before_year (400 * a + 100 * b + 4 * c + d + 1) = 146097 * a + 36524 * b + 1461 * c + 365 * d"
    and "is_leap (400 * a + 100 * b + 4 * c + d + 1) \<longleftrightarrow> d = 3 \<and> (c < 24 \<or> b = 3)"
proof -
  define y where "y = 400 * a + 100 * b + 4 * c + d"
  have q: "y = 4 * (100 * a + 25 * b + c) + d" "y = 100 * (4 * a + b) + (4 * c + d)"
      "y = 400 * a + (100 * b + 4 * c + d)"
    by (simp_all add: y_def)
  have "y div 4 = 100 * a + 25 * b + c" using assms by (intro int_div_pos_eq [OF q(1)]) linarith+
  moreover have "y div 100 = 4 * a + b" using assms by (intro int_div_pos_eq [OF q(2)]) linarith+
  moreover have "y div 400 = a" using assms by (intro int_div_pos_eq [OF q(3)]) linarith+
  ultimately have "days_before_year (y + 1) = 146097 * a + 36524 * b + 1461 * c + 365 * d"
    by (simp add: days_before_year_def) (simp add: y_def)
  then show "days_before_year (400 * a + 100 * b + 4 * c + d + 1)
      = 146097 * a + 36524 * b + 1461 * c + 365 * d" by (simp only: y_def)
  have m: "(y + 1) mod 4 = (if d = 3 then 0 else d + 1)"
    "(y + 1) mod 100 = (if d = 3 \<and> c = 24 then 0 else 4 * c + d + 1)"
    "(y + 1) mod 400 = (if d = 3 \<and> c = 24 \<and> b = 3 then 0 else 100 * b + 4 * c + d + 1)"
  proof -
    have "(y + 1) mod 4 = (d + 1) mod 4"
      using mod_mult_self4 [of 4 "100 * a + 25 * b + c" "d + 1"] unfolding q(1) by (simp add: add.assoc)
    then show "(y + 1) mod 4 = (if d = 3 then 0 else d + 1)" using assms by auto
    have "(y + 1) mod 100 = (4 * c + d + 1) mod 100"
      using mod_mult_self4 [of 100 "4 * a + b" "4 * c + d + 1"] unfolding q(2) by (simp add: add.assoc)
    then show "(y + 1) mod 100 = (if d = 3 \<and> c = 24 then 0 else 4 * c + d + 1)" using assms by auto
    have "(y + 1) mod 400 = (100 * b + 4 * c + d + 1) mod 400"
      using mod_mult_self4 [of 400 a "100 * b + 4 * c + d + 1"] unfolding q(3) by (simp add: add.assoc)
    then show "(y + 1) mod 400 = (if d = 3 \<and> c = 24 \<and> b = 3 then 0 else 100 * b + 4 * c + d + 1)"
      using assms by auto
  qed
  have "is_leap (y + 1) \<longleftrightarrow> d = 3 \<and> (c < 24 \<or> b = 3)"
    unfolding is_leap_def m using assms by auto
  then show "is_leap (400 * a + 100 * b + 4 * c + d + 1) \<longleftrightarrow> d = 3 \<and> (c < 24 \<or> b = 3)"
    by (simp only: y_def)
qed

lemma year_of_day_correct:
  assumes "year_of_day n = (y, k)"
  shows "days_before_year y + k = n" "0 \<le> k" "k < year_length y"
proof -
  define a r where "a = n div 146097" and "r = n mod 146097"
  define b where "b = min 3 (r div 36524)"
  define r1 where "r1 = r - b * 36524"
  define c r2 where "c = r1 div 1461" and "r2 = r1 mod 1461"
  define d where "d = min 3 (r2 div 365)"
  have y: "y = 400 * a + 100 * b + 4 * c + d + 1" and k: "k = r2 - 365 * d"
    using assms unfolding year_of_day_def Let_def a_def [symmetric] r_def [symmetric] b_def [symmetric]
      r1_def [symmetric] c_def [symmetric] r2_def [symmetric] d_def [symmetric] by simp_all
  have r: "0 \<le> r" "r < 146097" by (simp_all add: r_def)
  then have b: "0 \<le> b" "b \<le> 3" by (auto simp: b_def pos_imp_zdiv_nonneg_iff)
  have r1: "0 \<le> r1" "r1 < 36524 \<or> (b = 3 \<and> r1 \<le> 36524)"
    using r by (auto simp: r1_def b_def min_def)
  have r1_eq: "r1 = 1461 * c + r2" by (simp add: c_def r2_def)
  have r2: "0 \<le> r2" "r2 < 1461" by (simp_all add: r2_def)
  have c: "0 \<le> c" "c \<le> 24" using r1 r1_eq r2 by linarith+
  have c24: "r2 < 1460" if "c = 24" "b < 3" using r1 r1_eq that by auto
  have d: "0 \<le> d" "d \<le> 3" and k0: "0 \<le> r2 - 365 * d" and k1: "r2 - 365 * d < 365 \<or> (d = 3 \<and> r2 = 1460)"
    using r2 by (auto simp: d_def min_def)
  have "n = 146097 * a + r" by (simp add: a_def r_def)
  moreover have "r = 36524 * b + r1" by (simp add: r1_def)
  moreover note r1_eq
  ultimately show "days_before_year y + k = n"
    using days_before_year_cycles(1) [OF b c d, of a] y k by simp
  show "0 \<le> k" using k k0 by simp
  show "k < year_length y"
    using k k1 c b c24 days_before_year_cycles(2) [OF b c d, of a] y
    by (cases "b = 3"; cases "c = 24"; auto simp: year_length_def)
qed

lemma year_length_pos: "365 \<le> year_length y"
  by (simp add: year_length_def)

lemma days_before_year_mono_nat: "days_before_year y + 365 * int n \<le> days_before_year (y + int n)"
proof (induction n)
  case (Suc n)
  then show ?case
    using days_before_year_Suc [of "y + int n"] year_length_pos [of "y + int n"]
    by (simp add: algebra_simps)
qed simp

lemma days_before_year_less: "y < z \<Longrightarrow> days_before_year y + year_length y \<le> days_before_year z"
  using days_before_year_mono_nat [of "y + 1" "nat (z - (y + 1))"] days_before_year_Suc [of y] by simp

lemma year_of_day_unique:
  assumes "0 \<le> k" "k < year_length y"
  shows "year_of_day (days_before_year y + k) = (y, k)"
proof -
  obtain y' k' where e: "year_of_day (days_before_year y + k) = (y', k')" by fastforce
  note c = year_of_day_correct [OF e]
  have "y' = y"
    using c assms days_before_year_less [of y y'] days_before_year_less [of y' y] by linarith
  with c e show ?thesis by simp
qed

lemma month_of_day_correct:
  assumes "0 \<le> k" "k < sum_list ls" "month_of_day ls k = (m, d)"
  shows "m < length ls \<and> 1 \<le> d \<and> d \<le> ls ! m \<and> sum_list (take m ls) + d - 1 = k"
  using assms
proof (induction ls k arbitrary: m d rule: month_of_day.induct)
  case (2 l ls k)
  show ?case
  proof (cases "k < l")
    case True
    with 2 show ?thesis by auto
  next
    case False
    obtain m' d' where m': "month_of_day ls (k - l) = (m', d')" by fastforce
    from 2(1) [OF False _ _ m'] 2 False m' show ?thesis by auto
  qed
qed simp

lemma month_of_day_unique:
  assumes "list_all (\<lambda>l. 0 \<le> l) ls" "m < length ls" "1 \<le> d" "d \<le> ls ! m"
  shows "month_of_day ls (sum_list (take m ls) + d - 1) = (m, d)"
  using assms
proof (induction ls arbitrary: m)
  case (Cons l ls)
  show ?case
  proof (cases m)
    case 0
    with Cons.prems show ?thesis by simp
  next
    case (Suc m')
    have "list_all (\<lambda>l. 0 \<le> l) (take m' ls)"
      using Cons.prems(1) by (auto simp: list_all_iff dest: in_set_takeD)
    then have "0 \<le> sum_list (take m' ls)" by (simp add: list_all_iff sum_list_nonneg)
    with Suc Cons show ?thesis by (simp add: algebra_simps)
  qed
qed simp

lemma sum_month_lengths: "sum_list (month_lengths y) = year_length y"
  by (simp add: month_lengths_def year_length_def)

lemma length_month_lengths [simp]: "length (month_lengths y) = 12"
  by (simp add: month_lengths_def)

lemma month_lengths_nonneg: "list_all (\<lambda>l. 0 \<le> l) (month_lengths y)"
  by (simp add: month_lengths_def)

text \<open>The fields a broken-down time may have.\<close>

definition valid_tm :: "tm \<Rightarrow> bool" where
  "valid_tm t \<longleftrightarrow> 0 \<le> tm_mon t \<and> tm_mon t < 12 \<and> 1 \<le> tm_mday t \<and>
     tm_mday t \<le> month_lengths (tm_year t + 1900) ! nat (tm_mon t) \<and>
     0 \<le> tm_hour t \<and> tm_hour t < 24 \<and> 0 \<le> tm_min t \<and> tm_min t < 60 \<and> 0 \<le> tm_sec t \<and> tm_sec t < 60"

lemma gmtime_parts:
  assumes "year_of_day (e div 86400 + epoch_day) = (y, k)" "month_of_day (month_lengths y) k = (m, d)"
  shows "gmtime e = \<lparr>tm_year = y - 1900, tm_mon = int m, tm_mday = d, tm_hour = e mod 86400 div 3600,
    tm_min = e mod 86400 mod 3600 div 60, tm_sec = e mod 86400 mod 60\<rparr>"
  using assms by (simp add: gmtime_def Let_def)

lemma hms_split: "r div 3600 * 3600 + r mod 3600 div 60 * 60 + r mod 60 = (r::int)"
proof -
  have "r mod 3600 mod 60 = r mod 60" by (simp add: mod_mod_cancel)
  then show ?thesis
    using div_mult_mod_eq [of r 3600] div_mult_mod_eq [of "r mod 3600" 60] by linarith
qed

lemma hms_bounds:
  assumes "0 \<le> r" "r < (86400::int)"
  shows "0 \<le> r div 3600" "r div 3600 < 24" "0 \<le> r mod 3600 div 60" "r mod 3600 div 60 < 60"
proof -
  have "0 \<le> r mod 3600" "r mod 3600 < 3600" by simp_all
  with assms show "0 \<le> r div 3600" "r div 3600 < 24" "0 \<le> r mod 3600 div 60" "r mod 3600 div 60 < 60"
    by linarith+
qed

lemma hms_unique:
  fixes h m s :: int
  assumes "0 \<le> m" "m < 60" "0 \<le> s" "s < 60"
  shows "(h * 3600 + m * 60 + s) div 3600 = h" "(h * 3600 + m * 60 + s) mod 3600 div 60 = m"
    "(h * 3600 + m * 60 + s) mod 60 = s"
proof -
  let ?r = "h * 3600 + m * 60 + s"
  have q: "?r = 3600 * h + (m * 60 + s)" "?r = 60 * (h * 60 + m) + s" by simp_all
  show "?r div 3600 = h" using assms by (intro int_div_pos_eq [OF q(1)]) linarith+
  have "?r mod 3600 = m * 60 + s" using assms by (intro int_mod_pos_eq [OF q(1)]) linarith+
  moreover have "(m * 60 + s) div 60 = m" using assms by simp
  ultimately show "?r mod 3600 div 60 = m" by simp
  show "?r mod 60 = s" using assms by (intro int_mod_pos_eq [OF q(2)]) linarith+
qed

lemma gmtime_valid_inverse: "valid_tm (gmtime e) \<and> timegm (gmtime e) = e"
proof -
  obtain y k where yk: "year_of_day (e div 86400 + epoch_day) = (y, k)" by fastforce
  obtain m d where md: "month_of_day (month_lengths y) k = (m, d)" by fastforce
  note c = year_of_day_correct [OF yk]
  have k: "k < sum_list (month_lengths y)" using c by (simp add: sum_month_lengths)
  note mc = month_of_day_correct [OF c(2) k md]
  define r where "r = e mod 86400"
  have r: "0 \<le> r" "r < 86400" and e: "e = e div 86400 * 86400 + r" by (simp_all add: r_def)
  have hms: "r div 3600 * 3600 + r mod 3600 div 60 * 60 + r mod 60 = r"
    "0 \<le> r div 3600" "r div 3600 < 24" "0 \<le> r mod 3600 div 60" "r mod 3600 div 60 < 60"
    using hms_split hms_bounds [OF r] by blast+
  have "valid_tm (gmtime e)"
    using mc hms by (simp add: gmtime_parts [OF yk md] valid_tm_def r_def)
  moreover have "sum_list (take m (month_lengths y)) + d - 1 = k" "m < 12" using mc by simp_all
  then have "timegm (gmtime e) = (days_before_year y + k - epoch_day) * 86400 +
      r div 3600 * 3600 + r mod 3600 div 60 * 60 + r mod 60"
    by (simp add: gmtime_parts [OF yk md] timegm_def Let_def flip: r_def)
  then have "timegm (gmtime e) = e div 86400 * 86400 +
      (r div 3600 * 3600 + r mod 3600 div 60 * 60 + r mod 60)"
    using c(1) by simp
  then have "timegm (gmtime e) = e" unfolding hms(1) using e by simp
  ultimately show ?thesis ..
qed

lemma gmtime_timegm:
  assumes "valid_tm t"
  shows "gmtime (timegm t) = t"
proof -
  define y where "y = tm_year t + 1900"
  define m where "m = nat (tm_mon t)"
  define k where "k = sum_list (take m (month_lengths y)) + tm_mday t - 1"
  define r where "r = tm_hour t * 3600 + tm_min t * 60 + tm_sec t"
  have m: "m < 12" "int m = tm_mon t" using assms by (auto simp: m_def valid_tm_def)
  have d: "1 \<le> tm_mday t" "tm_mday t \<le> month_lengths y ! m"
    using assms by (auto simp: m_def y_def valid_tm_def)
  have r: "0 \<le> r" "r < 86400" using assms by (auto simp: r_def valid_tm_def)
  have e: "timegm t = (days_before_year y + k - epoch_day) * 86400 + r"
    using m assms by (simp add: timegm_def Let_def k_def r_def y_def valid_tm_def flip: m_def)
  have md: "month_of_day (month_lengths y) k = (m, tm_mday t)"
    unfolding k_def using month_of_day_unique [OF month_lengths_nonneg _ d] m by simp
  have "0 \<le> sum_list (take m (month_lengths y))"
    using month_lengths_nonneg by (auto simp: list_all_iff intro!: sum_list_nonneg dest: in_set_takeD)
  then have k0: "0 \<le> k" using d by (simp add: k_def)
  have "sum_list (take (Suc m) (month_lengths y)) \<le> sum_list (month_lengths y)"
  proof -
    have "0 \<le> sum_list (drop (Suc m) (month_lengths y))"
      using month_lengths_nonneg by (auto simp: list_all_iff intro!: sum_list_nonneg dest: in_set_dropD)
    then show ?thesis by (metis append_take_drop_id le_add_same_cancel1 sum_list_append)
  qed
  then have "k < year_length y"
    using d m by (simp add: k_def take_Suc_conv_app_nth sum_month_lengths)
  then have yk: "year_of_day (timegm t div 86400 + epoch_day) = (y, k)"
  proof -
    have "timegm t div 86400 = days_before_year y + k - epoch_day"
      using int_div_pos_eq [of "timegm t" 86400 "days_before_year y + k - epoch_day" r] e r by simp
    with \<open>k < year_length y\<close> show ?thesis using year_of_day_unique [OF k0] by simp
  qed
  have "timegm t mod 86400 = r"
    using int_mod_pos_eq [of "timegm t" 86400 "days_before_year y + k - epoch_day" r] e r by simp
  moreover have "r div 3600 = tm_hour t" "r mod 3600 div 60 = tm_min t" "r mod 60 = tm_sec t"
    using hms_unique [of "tm_min t" "tm_sec t" "tm_hour t"] assms unfolding r_def valid_tm_def by blast+
  ultimately show ?thesis
    using gmtime_parts [OF yk md] m by (simp add: y_def)
qed

end
