(* ===== verification/Time_Utils.thy ===== *)
theory Time_Utils
  imports Calendar "HOL-Library.Signed_Division"
begin

text \<open>
  Strict ISO 8601 parsing and UTC rendering (\<open>common/time_utils.cpp\<close>, the same code in both
  products). The regular expressions of the code have a fixed length and so are lists of character
  classes; \<open>timegm\<close>, \<open>gmtime_r\<close> and \<open>strftime\<close> come from the calendar theory. The C++ quotient and
  remainder truncate towards zero (\<open>sdiv\<close>, \<open>smod\<close>). A rendered year has no padding.
\<close>

section \<open>Fixed-length patterns\<close>

datatype char_class = Digit | Literal char

fun class_matches :: "char_class \<Rightarrow> char \<Rightarrow> bool" where
  "class_matches Digit c = is_digit c"
| "class_matches (Literal d) c = (c = d)"

definition pattern_matches :: "char_class list \<Rightarrow> string \<Rightarrow> bool" where
  "pattern_matches p s = list_all2 class_matches p s"

definition date_pattern :: "char \<Rightarrow> char_class list" where
  "date_pattern sep = [Digit, Digit, Digit, Digit, Literal CHR ''-'', Digit, Digit, Literal CHR ''-'',
     Digit, Digit, Literal sep, Digit, Digit, Literal CHR '':'', Digit, Digit, Literal CHR '':'',
     Digit, Digit, Literal CHR ''.'', Digit, Digit, Digit]"

definition zone_pattern :: "char_class list" where
  "zone_pattern = [Digit, Digit, Literal CHR '':'', Digit, Digit]"

definition zone_matches :: "string \<Rightarrow> bool" where
  "zone_matches z \<longleftrightarrow> z = ''Z'' \<or>
     (case z of [] \<Rightarrow> False
      | c # r \<Rightarrow> (c = CHR ''+'' \<or> c = CHR ''-'') \<and> pattern_matches zone_pattern r)"

definition iso_matches :: "string \<Rightarrow> bool" where
  "iso_matches s \<longleftrightarrow> pattern_matches (date_pattern CHR ''T'') (take 23 s) \<and> zone_matches (drop 23 s)"

text \<open>The number in a capture group (\<open>std::stoi\<close> on two to four digits).\<close>

definition field :: "string \<Rightarrow> nat \<Rightarrow> nat \<Rightarrow> int" where
  "field s i n = int (digits_val (take n (drop i s)))"

section \<open>Parsing\<close>

definition parsed_tm :: "string \<Rightarrow> tm" where
  "parsed_tm s = \<lparr>tm_year = field s 0 4 - 1900, tm_mon = field s 5 2 - 1, tm_mday = field s 8 2,
     tm_hour = field s 11 2, tm_min = field s 14 2, tm_sec = field s 17 2\<rparr>"

definition valid_calendar_time :: "tm \<Rightarrow> int \<Rightarrow> bool" where
  "valid_calendar_time input epoch \<longleftrightarrow> (let normalized = gmtime epoch in
     tm_year normalized = tm_year input \<and> tm_mon normalized = tm_mon input \<and>
     tm_mday normalized = tm_mday input \<and> tm_hour normalized = tm_hour input \<and>
     tm_min normalized = tm_min input \<and> tm_sec normalized = tm_sec input)"

definition zone_offset_seconds :: "string \<Rightarrow> int option" where
  "zone_offset_seconds z =
     (if z = ''Z'' then Some 0
      else let offset_hours = field z 1 2; offset_minutes = field z 4 2
           in if offset_hours > 14 \<or> offset_minutes > 59 \<or> (offset_hours = 14 \<and> offset_minutes \<noteq> 0)
              then None
              else let offset_seconds = (offset_hours * 60 + offset_minutes) * 60
                   in Some (if z ! 0 = CHR ''-'' then - offset_seconds else offset_seconds))"

definition parse_iso8601_milliseconds :: "string \<Rightarrow> int option" where
  "parse_iso8601_milliseconds s =
     (if \<not> iso_matches s then None
      else let local = parsed_tm s; milliseconds = field s 20 3; local_epoch = timegm local
           in if \<not> valid_calendar_time local local_epoch then None
              else case zone_offset_seconds (drop 23 s) of
                  None \<Rightarrow> None
                | Some offset_seconds \<Rightarrow> Some ((local_epoch - offset_seconds) * 1000 + milliseconds))"

section \<open>Rendering\<close>

text \<open>\<open>%0wd\<close>: at least \<open>w\<close> characters, zeros after the sign.\<close>

definition pad_zeros :: "nat \<Rightarrow> string \<Rightarrow> string" where
  "pad_zeros w s = replicate (w - length s) CHR ''0'' @ s"

definition pad_int :: "nat \<Rightarrow> int \<Rightarrow> string" where
  "pad_int w i = (if i < 0 then CHR ''-'' # pad_zeros (w - 1) (to_string (nat (- i)))
                  else pad_zeros w (to_string (nat i)))"

definition strftime_base :: "char \<Rightarrow> tm \<Rightarrow> string" where
  "strftime_base sep t = pad_int 1 (tm_year t + 1900) @ ''-'' @ pad_int 2 (tm_mon t + 1) @ ''-'' @
     pad_int 2 (tm_mday t) @ [sep] @ pad_int 2 (tm_hour t) @ '':'' @ pad_int 2 (tm_min t) @ '':'' @
     pad_int 2 (tm_sec t)"

definition format_utc_milliseconds :: "int \<Rightarrow> string" where
  "format_utc_milliseconds ms =
     strftime_base CHR ''T'' (gmtime (ms sdiv 1000)) @ ''.'' @ pad_int 3 (ms smod 1000) @ ''Z''"

definition format_mysql_milliseconds :: "int \<Rightarrow> string" where
  "format_mysql_milliseconds ms = butlast ((format_utc_milliseconds ms)[10 := CHR '' ''])"

text \<open>\<open>currentServerTime\<close> of DataStream, at the clock reading \<open>now\<close> in milliseconds.\<close>

record server_time =
  st_iso8601 :: string
  st_mysql :: string

definition server_time_at :: "int \<Rightarrow> server_time" where
  "server_time_at now = (let utc = gmtime (now sdiv 1000); ms = pad_int 3 (now smod 1000) in
     \<lparr>st_iso8601 = strftime_base CHR ''T'' utc @ ''.'' @ ms @ ''Z'',
      st_mysql = strftime_base CHR '' '' utc @ ''.'' @ ms\<rparr>)"

definition mysql_datetime_to_iso8601 :: "string \<Rightarrow> string option" where
  "mysql_datetime_to_iso8601 s =
     (if \<not> pattern_matches (date_pattern CHR '' '') s then None
      else let iso = s[10 := CHR ''T''] @ ''Z''
           in if parse_iso8601_milliseconds iso \<noteq> None then Some iso else None)"

section \<open>Fixed-width fields\<close>

lemma length_to_string_le: "n < 10 ^ w \<Longrightarrow> 0 < w \<Longrightarrow> length (to_string n) \<le> w"
proof (induction n arbitrary: w rule: to_string.induct)
  case (1 n)
  show ?case
  proof (cases "n < 10")
    case True
    with 1(3) show ?thesis by (simp add: to_string.simps [of n])
  next
    case False
    obtain v where v: "w = Suc v" using 1(3) by (cases w) auto
    with False 1(2) have "0 < v" by (cases v) auto
    moreover have "n div 10 < 10 ^ v" using 1(2) v by (simp add: div_less_iff_less_mult)
    ultimately show ?thesis using 1(1) [OF False] False v by (simp add: to_string.simps [of n])
  qed
qed

lemma length_to_string_ge: "10 ^ k \<le> n \<Longrightarrow> k < length (to_string n)"
proof (induction n arbitrary: k rule: to_string.induct)
  case (1 n)
  show ?case
  proof (cases k)
    case (Suc j)
    have "10 ^ 1 \<le> (10::nat) ^ k" using Suc by (intro power_increasing) simp_all
    with 1(2) have n: "\<not> n < 10" by simp
    moreover have "10 ^ j \<le> n div 10" using 1(2) Suc by (simp add: less_eq_div_iff_mult_less_eq)
    ultimately show ?thesis using 1(1) [OF n] Suc by (simp add: to_string.simps [of n])
  qed simp
qed

lemma digits_val_zeros [simp]: "digits_val (replicate k CHR ''0'' @ s) = digits_val s"
proof (induction k)
  case (Suc k)
  then show ?case by (simp add: digits_val_def digit_val_def)
qed simp

lemma pad_int_props:
  assumes "0 \<le> i" "i < 10 ^ w" "0 < w"
  shows "length (pad_int w i) = w" "list_all is_digit (pad_int w i)" "int (digits_val (pad_int w i)) = i"
proof -
  have "nat i < 10 ^ w" using assms by (simp add: nat_less_iff)
  from length_to_string_le [OF this assms(3)] assms
  show "length (pad_int w i) = w" by (simp add: pad_int_def pad_zeros_def)
  have "is_digit CHR ''0''" by (simp add: is_digit_def)
  then show "list_all is_digit (pad_int w i)"
    using assms(1) by (auto simp: pad_int_def pad_zeros_def list_all_iff intro: to_string_digits)
  show "int (digits_val (pad_int w i)) = i"
    using assms(1) by (simp add: pad_int_def pad_zeros_def)
qed

lemma pad_year: "1000 \<le> y \<Longrightarrow> y < 10000 \<Longrightarrow> pad_int 1 y = pad_int 4 y"
  using length_to_string_ge [of 3 "nat y"] length_to_string_le [of "nat y" 4]
  by (simp add: pad_int_def pad_zeros_def nat_less_iff nat_le_eq_zle le_nat_iff)

lemma two_digits:
  assumes "length s = 2" "list_all is_digit s"
  obtains a b where "s = [a, b]" "is_digit a" "is_digit b"
  using assms by (auto simp: numeral_2_eq_2 length_Suc_conv)

lemma pad2_digits:
  assumes "0 \<le> i" "i < 100"
  obtains a b where "pad_int 2 i = [a, b]" "is_digit a" "is_digit b" "int (digits_val [a, b]) = i"
  using pad_int_props [of i 2] assms by (auto simp: numeral_2_eq_2 length_Suc_conv)

lemma pad3_digits:
  assumes "0 \<le> i" "i < 1000"
  obtains a b c where "pad_int 3 i = [a, b, c]" "is_digit a" "is_digit b" "is_digit c"
    "int (digits_val [a, b, c]) = i"
  using pad_int_props [of i 3] assms by (auto simp: numeral_3_eq_3 length_Suc_conv)

lemma pad4_digits:
  assumes "1000 \<le> i" "i < 10000"
  obtains a b c d where "pad_int 1 i = [a, b, c, d]" "is_digit a" "is_digit b" "is_digit c" "is_digit d"
    "int (digits_val [a, b, c, d]) = i"
  using pad_int_props [of i 4] pad_year [OF assms] assms
  by (auto simp: numeral_eq_Suc length_Suc_conv)

text \<open>A valid broken-down time with a four-digit year is rendered so that the pattern reads it back.\<close>

lemma rendered_fields:
  assumes "valid_tm t" "1000 \<le> tm_year t + 1900" "tm_year t + 1900 < 10000" "0 \<le> ms" "ms < 1000"
    and s: "s = strftime_base sep t @ ''.'' @ pad_int 3 ms"
  shows "pattern_matches (date_pattern sep) s" "length s = 23" "parsed_tm (s @ z) = t" "field (s @ z) 20 3 = ms"
    "s ! 10 = sep"
proof -
  have mon: "0 \<le> tm_mon t + 1" "tm_mon t + 1 < 100" and hour: "0 \<le> tm_hour t" "tm_hour t < 100"
    and minute: "0 \<le> tm_min t" "tm_min t < 100" and second: "0 \<le> tm_sec t" "tm_sec t < 100"
    using assms(1) by (auto simp: valid_tm_def)
  have "nat (tm_mon t) < 12" using assms(1) by (simp add: valid_tm_def nat_less_iff)
  then have "month_lengths (tm_year t + 1900) ! nat (tm_mon t) \<in> set (month_lengths (tm_year t + 1900))"
    by (intro nth_mem) simp
  then have "month_lengths (tm_year t + 1900) ! nat (tm_mon t) \<le> 31"
    by (auto simp: month_lengths_def split: if_splits)
  then have mday: "0 \<le> tm_mday t" "tm_mday t < 100"
    using assms(1) by (auto simp: valid_tm_def)
  obtain y1 y2 y3 y4 where y: "pad_int 1 (tm_year t + 1900) = [y1, y2, y3, y4]"
    "is_digit y1" "is_digit y2" "is_digit y3" "is_digit y4" "int (digits_val [y1, y2, y3, y4]) = tm_year t + 1900"
    using pad4_digits [OF assms(2,3)] .
  obtain o1 o2 where o: "pad_int 2 (tm_mon t + 1) = [o1, o2]" "is_digit o1" "is_digit o2"
    "int (digits_val [o1, o2]) = tm_mon t + 1" using pad2_digits [OF mon] .
  obtain d1 d2 where d: "pad_int 2 (tm_mday t) = [d1, d2]" "is_digit d1" "is_digit d2"
    "int (digits_val [d1, d2]) = tm_mday t" using pad2_digits [OF mday] .
  obtain h1 h2 where h: "pad_int 2 (tm_hour t) = [h1, h2]" "is_digit h1" "is_digit h2"
    "int (digits_val [h1, h2]) = tm_hour t" using pad2_digits [OF hour] .
  obtain n1 n2 where n: "pad_int 2 (tm_min t) = [n1, n2]" "is_digit n1" "is_digit n2"
    "int (digits_val [n1, n2]) = tm_min t" using pad2_digits [OF minute] .
  obtain e1 e2 where e: "pad_int 2 (tm_sec t) = [e1, e2]" "is_digit e1" "is_digit e2"
    "int (digits_val [e1, e2]) = tm_sec t" using pad2_digits [OF second] .
  obtain m1 m2 m3 where m: "pad_int 3 ms = [m1, m2, m3]" "is_digit m1" "is_digit m2" "is_digit m3"
    "int (digits_val [m1, m2, m3]) = ms" using pad3_digits [OF assms(4,5)] .
  have s: "s = [y1, y2, y3, y4, CHR ''-'', o1, o2, CHR ''-'', d1, d2, sep, h1, h2, CHR '':'',
      n1, n2, CHR '':'', e1, e2, CHR ''.'', m1, m2, m3]"
    by (simp add: s strftime_base_def y(1) o(1) d(1) h(1) n(1) e(1) m(1) del: One_nat_def)
  show "pattern_matches (date_pattern sep) s"
    using y o d h n e m by (simp add: s pattern_matches_def date_pattern_def)
  show "length s = 23" "s ! 10 = sep" by (simp_all add: s)
  have f: "field (s @ z) 0 4 = tm_year t + 1900" "field (s @ z) 5 2 = tm_mon t + 1" "field (s @ z) 8 2 = tm_mday t"
    "field (s @ z) 11 2 = tm_hour t" "field (s @ z) 14 2 = tm_min t" "field (s @ z) 17 2 = tm_sec t"
    using y(6) o(4) d(4) h(4) n(4) e(4) by (simp_all add: s field_def)
  then show "parsed_tm (s @ z) = t" by (simp add: parsed_tm_def)
  show "field (s @ z) 20 3 = ms" using m(5) by (simp add: s field_def)
qed

lemma valid_calendar_time_iff: "valid_calendar_time t (timegm t) \<longleftrightarrow> valid_tm t"
proof
  assume "valid_calendar_time t (timegm t)"
  then have "gmtime (timegm t) = t" by (simp add: valid_calendar_time_def Let_def)
  then show "valid_tm t" using gmtime_valid_inverse [of "timegm t"] by simp
next
  assume "valid_tm t"
  then show "valid_calendar_time t (timegm t)"
    by (simp add: valid_calendar_time_def Let_def gmtime_timegm)
qed

text \<open>The instants whose UTC year has four digits and which are not before 1970.\<close>

definition last_instant :: int where
  "last_instant = timegm \<lparr>tm_year = 10000 - 1900, tm_mon = 0, tm_mday = 1, tm_hour = 0, tm_min = 0, tm_sec = 0\<rparr>"

lemma last_instant_val: "last_instant = 253402300800"
  by (simp add: last_instant_def timegm_def days_before_year_def epoch_day_val)

lemma gmtime_year_range:
  assumes "0 \<le> e" "e < last_instant"
  shows "1970 \<le> tm_year (gmtime e) + 1900" "tm_year (gmtime e) + 1900 < 10000"
proof -
  obtain y k where yk: "year_of_day (e div 86400 + epoch_day) = (y, k)" by fastforce
  obtain m d where md: "month_of_day (month_lengths y) k = (m, d)" by fastforce
  have year: "tm_year (gmtime e) + 1900 = y" by (simp add: gmtime_parts [OF yk md])
  note c = year_of_day_correct [OF yk]
  have "0 \<le> e div 86400" "e div 86400 < 2932897"
    using assms by (simp_all add: pos_imp_zdiv_nonneg_iff last_instant_val div_less_iff_less_mult)
  then have day: "days_before_year 1970 \<le> days_before_year y + k" "days_before_year y + k < days_before_year 10000"
    using c(1) by (simp_all add: epoch_day_val days_before_year_def)
  show "1970 \<le> tm_year (gmtime e) + 1900" unfolding year
    using days_before_year_less [of y 1970] day c by linarith
  show "tm_year (gmtime e) + 1900 < 10000" unfolding year
  proof (rule ccontr)
    assume "\<not> y < 10000"
    then consider "y = 10000" | "10000 < y" by linarith
    then show False
    proof cases
      case 1
      with day(2) c(2) show False by simp
    next
      case 2
      then show False
        using days_before_year_less [OF 2] year_length_pos [of 10000] day(2) c(2) by linarith
    qed
  qed
qed

lemma sdiv_smod_nonneg: "0 \<le> (t::int) \<Longrightarrow> t sdiv 1000 = t div 1000 \<and> t smod 1000 = t mod 1000"
  by (cases "t = 0") (simp_all add: signed_divide_int_def signed_modulo_int_def)

lemma format_parts:
  assumes "0 \<le> t" "t < last_instant * 1000"
    and "b = strftime_base sep (gmtime (t sdiv 1000)) @ ''.'' @ pad_int 3 (t smod 1000)"
  shows "pattern_matches (date_pattern sep) b" "length b = 23" "parsed_tm (b @ z) = gmtime (t div 1000)"
    "field (b @ z) 20 3 = t mod 1000" "b ! 10 = sep"
proof -
  have e: "0 \<le> t div 1000" "t div 1000 < last_instant"
    using assms(1,2) by (simp_all add: pos_imp_zdiv_nonneg_iff last_instant_val div_less_iff_less_mult)
  have v: "valid_tm (gmtime (t div 1000))" using gmtime_valid_inverse by blast
  have y: "1000 \<le> tm_year (gmtime (t div 1000)) + 1900" using gmtime_year_range(1) [OF e] by simp
  note r = rendered_fields [OF v y gmtime_year_range(2) [OF e], of "t mod 1000" b sep]
  have "b = strftime_base sep (gmtime (t div 1000)) @ ''.'' @ pad_int 3 (t mod 1000)"
    using assms(3) sdiv_smod_nonneg [OF assms(1)] by simp
  with r show "pattern_matches (date_pattern sep) b" "length b = 23" "parsed_tm (b @ z) = gmtime (t div 1000)"
    "field (b @ z) 20 3 = t mod 1000" "b ! 10 = sep" by simp_all
qed

lemma parse_format_lemma:
  assumes "0 \<le> t" "t < last_instant * 1000"
  shows "parse_iso8601_milliseconds (format_utc_milliseconds t) = Some t"
proof -
  let ?b = "strftime_base CHR ''T'' (gmtime (t sdiv 1000)) @ ''.'' @ pad_int 3 (t smod 1000)"
  note p = format_parts [OF assms refl, of "CHR ''T''"]
  have s: "format_utc_milliseconds t = ?b @ ''Z''" by (simp add: format_utc_milliseconds_def)
  have inv: "valid_tm (gmtime (t div 1000)) \<and> timegm (gmtime (t div 1000)) = t div 1000"
    by (rule gmtime_valid_inverse)
  then have "valid_calendar_time (gmtime (t div 1000)) (t div 1000)"
    using valid_calendar_time_iff [of "gmtime (t div 1000)"] by simp
  with p inv show ?thesis
    by (simp add: s parse_iso8601_milliseconds_def iso_matches_def zone_matches_def
        zone_offset_seconds_def Let_def del: append_assoc)
qed

text \<open>
  C37: Round trip: every instant from 1970 up to the year 10000 that the code renders, the parser
  reads back to the same millisecond.
\<close>

theorem parse_format_utc:
  assumes "0 \<le> t" "t < last_instant * 1000"
  shows "parse_iso8601_milliseconds (format_utc_milliseconds t) = Some t"
  using assms by (rule parse_format_lemma)

theorem parse_format_utc_witness:
  "parse_iso8601_milliseconds (format_utc_milliseconds 1735689600123) = Some 1735689600123"
  by (rule parse_format_utc) (simp_all add: last_instant_val)

lemma zone_offset_bounds:
  assumes "zone_offset_seconds z = Some off"
  shows "60 dvd off" "\<bar>off\<bar> \<le> 14 * 3600"
proof -
  have f: "0 \<le> field z 1 2" "0 \<le> field z 4 2" by (simp_all add: field_def)
  from assms show "60 dvd off"
    by (auto simp: zone_offset_seconds_def Let_def split: if_splits)
  from assms f show "\<bar>off\<bar> \<le> 14 * 3600"
    by (auto simp: zone_offset_seconds_def Let_def split: if_splits)
qed

text \<open>
  What the parser accepts: exactly the strings of the pattern whose fields are a calendar time
  (day within its month, 29 February only in leap years, no leap second) and whose offset is at most
  fourteen hours; the value is then the local time less the offset, an offset of whole minutes.
\<close>

lemma parse_iso8601_iff:
  "parse_iso8601_milliseconds s = Some ms \<longleftrightarrow>
     iso_matches s \<and> valid_tm (parsed_tm s) \<and>
     (\<exists>off. zone_offset_seconds (drop 23 s) = Some off \<and> 60 dvd off \<and> \<bar>off\<bar> \<le> 14 * 3600 \<and>
        ms = (timegm (parsed_tm s) - off) * 1000 + field s 20 3)"
  using zone_offset_bounds [of "drop 23 s"] valid_calendar_time_iff [of "parsed_tm s"]
  by (auto simp: parse_iso8601_milliseconds_def Let_def split: option.splits)

section \<open>MySQL timestamps\<close>

lemma format_as_base:
  "format_utc_milliseconds t =
     (strftime_base CHR ''T'' (gmtime (t sdiv 1000)) @ ''.'' @ pad_int 3 (t smod 1000)) @ ''Z''"
  by (simp add: format_utc_milliseconds_def)

lemma strftime_base_sep:
  assumes "length (strftime_base a t @ ''.'' @ r) = 23" "(strftime_base a t @ ''.'' @ r) ! 10 = a"
    and "length r = 3" "length (pad_int 1 (tm_year t + 1900)) = 4"
    "length (pad_int 2 (tm_mon t + 1)) = 2" "length (pad_int 2 (tm_mday t)) = 2"
  shows "(strftime_base a t @ ''.'' @ r)[10 := b] = strftime_base b t @ ''.'' @ r"
proof -
  have u: "(xs @ [a] @ ys)[length xs := b] = xs @ [b] @ ys" for xs ys :: string
    by (simp add: list_update_append)
  let ?xs = "pad_int 1 (tm_year t + 1900) @ ''-'' @ pad_int 2 (tm_mon t + 1) @ ''-'' @ pad_int 2 (tm_mday t)"
  have "length ?xs = 10" using assms(4-6) by (simp del: One_nat_def)
  with u [of ?xs] show ?thesis by (simp add: strftime_base_def del: One_nat_def)
qed

lemma format_mysql_base:
  assumes "0 \<le> t" "t < last_instant * 1000"
  shows "format_mysql_milliseconds t =
    strftime_base CHR '' '' (gmtime (t sdiv 1000)) @ ''.'' @ pad_int 3 (t smod 1000)"
proof -
  let ?g = "gmtime (t sdiv 1000)"
  have e: "0 \<le> t sdiv 1000" "t sdiv 1000 < last_instant"
    using assms sdiv_smod_nonneg [OF assms(1)]
    by (simp_all add: pos_imp_zdiv_nonneg_iff last_instant_val div_less_iff_less_mult)
  have v: "valid_tm ?g" using gmtime_valid_inverse by blast
  then have "nat (tm_mon ?g) < 12" by (simp add: valid_tm_def nat_less_iff)
  then have "month_lengths (tm_year ?g + 1900) ! nat (tm_mon ?g) \<in> set (month_lengths (tm_year ?g + 1900))"
    by (intro nth_mem) simp
  then have "month_lengths (tm_year ?g + 1900) ! nat (tm_mon ?g) \<le> 31"
    by (auto simp: month_lengths_def split: if_splits)
  then have w: "length (pad_int 2 (tm_mon ?g + 1)) = 2" "length (pad_int 2 (tm_mday ?g)) = 2"
    using v by (auto intro!: pad_int_props(1) simp: valid_tm_def)
  have y: "length (pad_int 1 (tm_year ?g + 1900)) = 4"
    using pad_year [of "tm_year ?g + 1900"] pad_int_props(1) [of "tm_year ?g + 1900" 4] gmtime_year_range [OF e]
    by (simp del: One_nat_def)
  have r: "length (pad_int 3 (t smod 1000)) = 3"
    using sdiv_smod_nonneg [OF assms(1)] by (intro pad_int_props(1)) simp_all
  note p = format_parts [OF assms refl, of "CHR ''T''"]
  have "(strftime_base CHR ''T'' ?g @ ''.'' @ pad_int 3 (t smod 1000))[10 := CHR '' ''] =
      strftime_base CHR '' '' ?g @ ''.'' @ pad_int 3 (t smod 1000)"
    by (rule strftime_base_sep [OF p(2) p(5) r y w])
  then show ?thesis
    using p(2) by (simp add: format_mysql_milliseconds_def format_as_base list_update_append butlast_append
        del: append_assoc)
qed

text \<open>
  The three renderings agree: the MySQL form of an instant converts back to its ISO 8601 form, and
  the two strings of a server time are these two forms.
\<close>

lemma mysql_round_trip:
  assumes "0 \<le> t" "t < last_instant * 1000"
  shows "mysql_datetime_to_iso8601 (format_mysql_milliseconds t) = Some (format_utc_milliseconds t) \<and>
    server_time_at t = \<lparr>st_iso8601 = format_utc_milliseconds t, st_mysql = format_mysql_milliseconds t\<rparr>"
proof -
  note p = format_parts [OF assms refl, of "CHR '' ''"]
  let ?m = "strftime_base CHR '' '' (gmtime (t sdiv 1000)) @ ''.'' @ pad_int 3 (t smod 1000)"
  let ?i = "strftime_base CHR ''T'' (gmtime (t sdiv 1000)) @ ''.'' @ pad_int 3 (t smod 1000)"
  have i: "?i[10 := CHR '' ''] = ?m"
  proof -
    have "butlast ((?i @ ''Z'')[10 := CHR '' '']) = ?m"
      using format_mysql_base [OF assms] by (simp add: format_mysql_milliseconds_def format_as_base)
    then show ?thesis
      using format_parts(2) [OF assms refl, of "CHR ''T''"]
      by (simp add: list_update_append butlast_append del: append_assoc)
  qed
  have "?m[10 := CHR ''T''] = ?i[10 := CHR ''T'']" unfolding i [symmetric] by simp
  also have "\<dots> = ?i"
    using format_parts(5) [OF assms refl, of "CHR ''T''"] by (metis list_update_id)
  finally have "?m[10 := CHR ''T''] @ ''Z'' = format_utc_milliseconds t"
    by (simp add: format_as_base)
  moreover have "parse_iso8601_milliseconds (format_utc_milliseconds t) \<noteq> None"
    using parse_format_lemma [OF assms] by simp
  ultimately have "mysql_datetime_to_iso8601 ?m = Some (format_utc_milliseconds t)"
    unfolding mysql_datetime_to_iso8601_def Let_def using p(1) by simp
  then show ?thesis
    by (simp add: format_mysql_base [OF assms] server_time_at_def format_as_base Let_def)
qed

section \<open>Instants before 1970\<close>

text \<open>
  The remainder of a negative instant is negative, so \<open>%03d\<close> puts a sign among the digits: what the
  code renders for the last second before 1970 is not a timestamp its own parser accepts, although
  the parser accepts earlier dates.
\<close>

lemma format_negative:
  assumes "-1000 < t" "t < 0"
  shows "format_utc_milliseconds t = ''1970-01-01T00:00:00.'' @ pad_int 3 t @ ''Z''"
proof -
  have "t sdiv 1000 = 0" "t smod 1000 = t"
    using assms by (simp_all add: signed_divide_int_def signed_modulo_int_def)
  moreover have "strftime_base CHR ''T'' (gmtime 0) = ''1970-01-01T00:00:00''" by code_simp
  ultimately show ?thesis by (simp add: format_utc_milliseconds_def)
qed

text \<open>
  For the milliseconds just before 1970 the code renders a string that its parser refuses, while
  the same instant, written as 31 December 1969, is accepted.
\<close>

lemma format_negative_not_parsed:
  assumes "-1000 < t" "t < 0"
  shows "parse_iso8601_milliseconds (format_utc_milliseconds t) = None \<and>
    parse_iso8601_milliseconds ''1969-12-31T23:59:59.999Z'' = Some (-1)"
proof -
  have "pad_int 3 t = CHR ''-'' # pad_zeros 2 (to_string (nat (- t)))"
    using assms by (simp add: pad_int_def)
  then have "(take 23 (format_utc_milliseconds t)) ! 20 = CHR ''-''"
    using format_negative [OF assms] by simp
  moreover have "\<not> class_matches (date_pattern CHR ''T'' ! 20) CHR ''-''"
    by (simp add: date_pattern_def is_digit_def)
  moreover have "20 < length (date_pattern CHR ''T'')" by (simp add: date_pattern_def)
  ultimately have "\<not> pattern_matches (date_pattern CHR ''T'') (take 23 (format_utc_milliseconds t))"
    unfolding pattern_matches_def by (metis list_all2_conv_all_nth)
  then have "parse_iso8601_milliseconds (format_utc_milliseconds t) = None"
    by (simp add: parse_iso8601_milliseconds_def iso_matches_def)
  moreover have "parse_iso8601_milliseconds ''1969-12-31T23:59:59.999Z'' = Some (-1)" by code_simp
  ultimately show ?thesis ..
qed

end
