(* ===== verification/Json_Model.thy ===== *)
theory Json_Model
  imports Prelude Complex_Main
begin

text \<open>
  The JSON library (nlohmann) the caches and the artifact files go through. It is not part of the
  repository, so it is a record \<open>json_lib\<close> of the operations the code calls, over an abstract type of
  values; \<open>json_laws\<close> states their documented behaviour on constructed values. That a text parses
  back to the value it was dumped from is a separate hypothesis of the theorems, per value.
\<close>

record 'j json_lib =
  jl_parse :: "string \<Rightarrow> 'j option"
  jl_dump :: "'j \<Rightarrow> string"
  jl_dump_pretty :: "'j \<Rightarrow> string"
  jl_object :: "(string \<times> 'j) list \<Rightarrow> 'j"
  jl_array :: "'j list \<Rightarrow> 'j"
  jl_unsigned :: "u64 \<Rightarrow> 'j"
  jl_integer :: "int \<Rightarrow> 'j"
  jl_double :: "real \<Rightarrow> 'j"
  jl_string :: "string \<Rightarrow> 'j"
  jl_bool :: "bool \<Rightarrow> 'j"
  jl_size :: "'j \<Rightarrow> nat option"
  jl_keys :: "'j \<Rightarrow> string list option"
  jl_at :: "'j \<Rightarrow> string \<Rightarrow> 'j option"
  jl_elements :: "'j \<Rightarrow> 'j list option"
  jl_get_unsigned :: "'j \<Rightarrow> u64 option"
  jl_get_double :: "'j \<Rightarrow> real option"
  jl_to_u64 :: "'j \<Rightarrow> u64 option"
  jl_to_u32 :: "'j \<Rightarrow> u32 option"
  jl_get_string :: "'j \<Rightarrow> string option"

text \<open>
  \<open>size\<close> is the number of members of an object and \<open>keys\<close> their names, \<open>at\<close> a member, \<open>elements\<close> the
  items of an array; \<open>get_unsigned\<close> is \<open>is_number_unsigned\<close> with the value; \<open>get_double\<close>, \<open>to_u64\<close>,
  \<open>to_u32\<close> are the conversions \<open>get<double>\<close>, \<open>get<std::uint64_t>\<close>, \<open>get<std::uint32_t>\<close>, which take any
  number and truncate; \<open>dump_pretty\<close> is \<open>dump(2)\<close>. \<open>None\<close> is an exception of the library.
\<close>

definition json_laws :: "'j json_lib \<Rightarrow> bool" where
  "json_laws jl \<longleftrightarrow>
     (\<forall>kvs. distinct (map fst kvs) \<longrightarrow> jl_size jl (jl_object jl kvs) = Some (length kvs) \<and>
        (\<exists>ks. jl_keys jl (jl_object jl kvs) = Some ks \<and> set ks = fst ` set kvs) \<and>
        (\<forall>k. jl_at jl (jl_object jl kvs) k = map_of kvs k)) \<and>
     (\<forall>xs. jl_elements jl (jl_array jl xs) = Some xs) \<and>
     (\<forall>n. jl_get_unsigned jl (jl_unsigned jl n) = Some n \<and> jl_to_u64 jl (jl_unsigned jl n) = Some n \<and>
        jl_to_u32 jl (jl_unsigned jl n) = Some (ucast n)) \<and>
     (\<forall>n. unat n \<le> 2 ^ 53 \<longrightarrow> jl_get_double jl (jl_unsigned jl n) = Some (real (unat n))) \<and>
     (\<forall>r. jl_get_double jl (jl_double jl r) = Some r) \<and>
     (\<forall>s. jl_get_string jl (jl_string jl s) = Some s)"

lemma json_object:
  assumes "json_laws jl" and "distinct (map fst kvs)"
  shows "jl_size jl (jl_object jl kvs) = Some (length kvs)"
    "jl_at jl (jl_object jl kvs) k = map_of kvs k"
    "\<exists>ks. jl_keys jl (jl_object jl kvs) = Some ks \<and> set ks = fst ` set kvs"
  using assms unfolding json_laws_def by blast+

lemma json_values:
  assumes "json_laws jl"
  shows "jl_elements jl (jl_array jl xs) = Some xs" "jl_get_unsigned jl (jl_unsigned jl n) = Some n"
    "jl_to_u64 jl (jl_unsigned jl n) = Some n" "jl_to_u32 jl (jl_unsigned jl n) = Some (ucast n)"
    "jl_get_double jl (jl_double jl r) = Some r" "jl_get_string jl (jl_string jl s) = Some s"
    "unat n \<le> 2 ^ 53 \<Longrightarrow> jl_get_double jl (jl_unsigned jl n) = Some (real (unat n))"
  using assms unfolding json_laws_def by blast+

text \<open>Booleans and integers of different values are different.\<close>

definition json_distinct :: "'j json_lib \<Rightarrow> bool" where
  "json_distinct jl \<longleftrightarrow> jl_bool jl True \<noteq> jl_bool jl False \<and> inj (jl_integer jl)"

text \<open>\<open>requireKeys\<close>: an object of exactly the expected members.\<close>

definition require_keys :: "'j json_lib \<Rightarrow> string list \<Rightarrow> 'j \<Rightarrow> bool" where
  "require_keys jl expected v \<longleftrightarrow> (case jl_keys jl v of
       None \<Rightarrow> False
     | Some ks \<Rightarrow> jl_size jl v = Some (length expected) \<and> list_all (\<lambda>k. k \<in> set expected) ks)"

text \<open>Members with their conversion.\<close>

definition u64_at :: "'j json_lib \<Rightarrow> 'j \<Rightarrow> string \<Rightarrow> u64 option" where
  "u64_at jl v k = Option.bind (jl_at jl v k) (jl_to_u64 jl)"

definition u32_at :: "'j json_lib \<Rightarrow> 'j \<Rightarrow> string \<Rightarrow> u32 option" where
  "u32_at jl v k = Option.bind (jl_at jl v k) (jl_to_u32 jl)"

definition string_at :: "'j json_lib \<Rightarrow> 'j \<Rightarrow> string \<Rightarrow> string option" where
  "string_at jl v k = Option.bind (jl_at jl v k) (jl_get_string jl)"

definition double_at :: "'j json_lib \<Rightarrow> 'j \<Rightarrow> string \<Rightarrow> real option" where
  "double_at jl v k = Option.bind (jl_at jl v k) (jl_get_double jl)"

lemma require_keys_object:
  assumes "json_laws jl" and "distinct (map fst kvs)" and "set expected = fst ` set kvs"
    and "length expected = length kvs"
  shows "require_keys jl expected (jl_object jl kvs)"
  using json_object [OF assms(1,2)] assms(3,4) by (auto simp: require_keys_def list_all_iff)

lemma those_map_Some: "(\<And>x. x \<in> set xs \<Longrightarrow> f (g x) = Some (h x)) \<Longrightarrow> those (map f (map g xs)) = Some (map h xs)"
  by (induction xs) auto

section \<open>A sample library\<close>

text \<open>A library that knows a table of texts, on which the hypotheses are seen to hold together.\<close>

datatype sample_json =
    Jobject "(string \<times> sample_json) list" | Jarray "sample_json list" | Junsigned u64 | Jinteger int
  | Jdouble real | Jstring string | Jbool bool

definition sample_dump :: "(string \<times> sample_json) list \<Rightarrow> sample_json \<Rightarrow> string" where
  "sample_dump texts j = (case find (\<lambda>(s, v). v = j) texts of None \<Rightarrow> ''null'' | Some (s, v) \<Rightarrow> s)"

definition sample_json_lib :: "(string \<times> sample_json) list \<Rightarrow> sample_json json_lib" where
  "sample_json_lib texts = \<lparr>jl_parse = map_of texts, jl_dump = sample_dump texts,
     jl_dump_pretty = sample_dump texts,
     jl_object = Jobject, jl_array = Jarray, jl_unsigned = Junsigned, jl_integer = Jinteger,
     jl_double = Jdouble, jl_string = Jstring, jl_bool = Jbool,
     jl_size = (\<lambda>v. case v of Jobject kvs \<Rightarrow> Some (length kvs) | _ \<Rightarrow> None),
     jl_keys = (\<lambda>v. case v of Jobject kvs \<Rightarrow> Some (map fst kvs) | _ \<Rightarrow> None),
     jl_at = (\<lambda>v k. case v of Jobject kvs \<Rightarrow> map_of kvs k | _ \<Rightarrow> None),
     jl_elements = (\<lambda>v. case v of Jarray xs \<Rightarrow> Some xs | _ \<Rightarrow> None),
     jl_get_unsigned = (\<lambda>v. case v of Junsigned n \<Rightarrow> Some n | _ \<Rightarrow> None),
     jl_get_double = (\<lambda>v. case v of Jdouble r \<Rightarrow> Some r | Junsigned n \<Rightarrow> Some (real (unat n))
        | Jinteger i \<Rightarrow> Some (of_int i) | _ \<Rightarrow> None),
     jl_to_u64 = (\<lambda>v. case v of Junsigned n \<Rightarrow> Some n | _ \<Rightarrow> None),
     jl_to_u32 = (\<lambda>v. case v of Junsigned n \<Rightarrow> Some (ucast n) | _ \<Rightarrow> None),
     jl_get_string = (\<lambda>v. case v of Jstring s \<Rightarrow> Some s | _ \<Rightarrow> None)\<rparr>"

lemma sample_json_constructors [simp]:
  "jl_parse (sample_json_lib texts) = map_of texts" "jl_dump (sample_json_lib texts) = sample_dump texts"
  "jl_dump_pretty (sample_json_lib texts) = sample_dump texts"
  "jl_object (sample_json_lib texts) = Jobject" "jl_array (sample_json_lib texts) = Jarray"
  "jl_unsigned (sample_json_lib texts) = Junsigned" "jl_integer (sample_json_lib texts) = Jinteger"
  "jl_double (sample_json_lib texts) = Jdouble" "jl_string (sample_json_lib texts) = Jstring"
  "jl_bool (sample_json_lib texts) = Jbool"
  by (simp_all add: sample_json_lib_def)

lemma sample_dump_head [simp]: "sample_dump ((s, v) # texts) v = s"
  by (simp add: sample_dump_def)

lemma sample_json_laws: "json_laws (sample_json_lib texts)"
  by (simp add: json_laws_def sample_json_lib_def)

lemma sample_json_distinct: "json_distinct (sample_json_lib texts)"
  by (simp add: json_distinct_def inj_on_def)

end
