(* ===== verification/Search_Service.thy ===== *)
theory Search_Service
  imports Search_Engine Slru_Cache Time_Utils Json_Model
begin

text \<open>
  Detail reading and page restoring of the search engine (\<open>search_engine.cpp\<close>, \<open>detail\<close> and
  \<open>restore\<close>) with its two segmented LRU caches, and the query cache (\<open>cache/query_cache.cpp\<close>). JSON is
  the parameter of \<open>Json_Model\<close>, SHA-256 a function.
\<close>

section \<open>Detail\<close>

record log_detail =
  ld_document :: document_record
  ld_file :: file_record
  ld_raw :: string

record engine =
  en_detail_cache :: "(string, log_detail) slru"
  en_file_cache :: "(string, file_record) slru"

datatype detail_error = Detail_absent | Detail_unreadable archive_error

definition cache_key :: "u64 \<Rightarrow> u64 \<Rightarrow> string" where
  "cache_key version i = to_string (unat version) @ '':'' @ to_string (unat i)"

definition detail ::
    "posix \<Rightarrow> string \<Rightarrow> read_outcome list \<Rightarrow> nat \<Rightarrow> index_snapshot \<Rightarrow> u64 \<Rightarrow> engine \<Rightarrow>
     (detail_error + log_detail) \<times> engine" where
  "detail px archive_root rs max_detail_bytes s doc_id e =
     (let key = cache_key (sn_version s) doc_id;
          (cached, dc) = slru_get key (en_detail_cache e);
          e = e\<lparr>en_detail_cache := dc\<rparr>
      in case cached of
          Some d \<Rightarrow> (Inr d, e)
        | None \<Rightarrow>
            (case find_document s doc_id of
               None \<Rightarrow> (Inl Detail_absent, e)
             | Some (document, file) \<Rightarrow>
                 (let file_key = cache_key (sn_version s) (fr_archive_id file);
                      (hit, fc) = slru_get file_key (en_file_cache e);
                      cached_file = (case hit of Some f \<Rightarrow> f | None \<Rightarrow> file);
                      fc = (case hit of Some f \<Rightarrow> fc | None \<Rightarrow> slru_put file_key file fc);
                      e = e\<lparr>en_file_cache := fc\<rparr>
                  in case read_original_record px archive_root rs cached_file
                            (dr_byte_offset document) (dr_byte_length document) of
                      Inl err \<Rightarrow> (Inl (Detail_unreadable err), e)
                    | Inr raw \<Rightarrow>
                        (let result = \<lparr>ld_document = document, ld_file = cached_file, ld_raw = raw\<rparr>
                         in (Inr result,
                             if length raw \<le> max_detail_bytes
                             then e\<lparr>en_detail_cache := slru_put key result (en_detail_cache e)\<rparr>
                             else e)))))"

text \<open>The same without caches.\<close>

definition detail_uncached ::
    "posix \<Rightarrow> string \<Rightarrow> read_outcome list \<Rightarrow> index_snapshot \<Rightarrow> u64 \<Rightarrow> detail_error + log_detail" where
  "detail_uncached px archive_root rs s doc_id = (case find_document s doc_id of
       None \<Rightarrow> Inl Detail_absent
     | Some (document, file) \<Rightarrow>
         (case read_original_record px archive_root rs file (dr_byte_offset document) (dr_byte_length document) of
            Inl err \<Rightarrow> Inl (Detail_unreadable err)
          | Inr raw \<Rightarrow> Inr \<lparr>ld_document = document, ld_file = file, ld_raw = raw\<rparr>))"

section \<open>Cache keys and coherence\<close>

lemma digit_run_unique:
  "(\<And>c. c \<in> set a \<Longrightarrow> is_digit c) \<Longrightarrow> (\<And>c. c \<in> set b \<Longrightarrow> is_digit c) \<Longrightarrow>
     a @ CHR '':'' # x = b @ CHR '':'' # y \<Longrightarrow> a = b \<and> x = (y :: string)"
proof (induction a arbitrary: b)
  case Nil
  have "\<not> is_digit CHR '':''" by (simp add: is_digit_def)
  with Nil show ?case by (cases b) auto
next
  case (Cons c a)
  have "\<not> is_digit CHR '':''" by (simp add: is_digit_def)
  with Cons.prems obtain b' where b: "b = c # b'" by (cases b) auto
  with Cons.prems Cons.IH [of b'] show ?case by auto
qed

lemma cache_key_inject: "cache_key v i = cache_key w j \<longleftrightarrow> v = w \<and> i = j"
proof
  assume "cache_key v i = cache_key w j"
  then have "to_string (unat v) = to_string (unat w) \<and> to_string (unat i) = to_string (unat j)"
    unfolding cache_key_def
    by (intro digit_run_unique [of "to_string (unat v)" "to_string (unat w)"]) (auto intro: to_string_digits)
  then show "v = w \<and> i = j" by (simp add: word_unat_eq_iff)
qed simp

text \<open>
  \<open>hist\<close> gives the snapshot of each version the engine has served. What a cache may hold for a key:
  the uncached answer on the key's version.
\<close>

definition detail_truth ::
    "posix \<Rightarrow> string \<Rightarrow> read_outcome list \<Rightarrow> (u64 \<Rightarrow> index_snapshot) \<Rightarrow> string \<rightharpoonup> log_detail" where
  "detail_truth px base rs hist key = (if \<exists>v i d. key = cache_key v i \<and> detail_uncached px base rs (hist v) i = Inr d
     then Some (THE d. \<exists>v i. key = cache_key v i \<and> detail_uncached px base rs (hist v) i = Inr d) else None)"

definition snapshot_files :: "index_snapshot \<Rightarrow> file_record set" where
  "snapshot_files s = (\<Union>g\<in>set (sn_segments s). set (ls_files g))"

definition archives_unique :: "index_snapshot \<Rightarrow> bool" where
  "archives_unique s \<longleftrightarrow> inj_on fr_archive_id (snapshot_files s)"

definition file_truth :: "(u64 \<Rightarrow> index_snapshot) \<Rightarrow> string \<rightharpoonup> file_record" where
  "file_truth hist key = (if \<exists>v f. f \<in> snapshot_files (hist v) \<and> key = cache_key v (fr_archive_id f)
     then Some (THE f. \<exists>v. f \<in> snapshot_files (hist v) \<and> key = cache_key v (fr_archive_id f)) else None)"

lemma detail_truth_key:
  "detail_truth px base rs hist (cache_key v i) = Some d \<longleftrightarrow> detail_uncached px base rs (hist v) i = Inr d"
proof -
  have eq: "(\<exists>w j. cache_key v i = cache_key w j \<and> detail_uncached px base rs (hist w) j = Inr x) \<longleftrightarrow>
      detail_uncached px base rs (hist v) i = Inr x" for x
    by (auto simp: cache_key_inject)
  have ex: "(\<exists>w j x. cache_key v i = cache_key w j \<and> detail_uncached px base rs (hist w) j = Inr x) \<longleftrightarrow>
      (\<exists>x. detail_uncached px base rs (hist v) i = Inr x)"
    using eq by blast
  show ?thesis unfolding detail_truth_def eq ex by auto
qed

lemma file_truth_key:
  assumes "archives_unique (hist v)" "f \<in> snapshot_files (hist v)"
  shows "file_truth hist (cache_key v (fr_archive_id f)) = Some g \<longleftrightarrow> g = f"
proof -
  have eq: "(\<exists>w. x \<in> snapshot_files (hist w) \<and> cache_key v (fr_archive_id f) = cache_key w (fr_archive_id x)) \<longleftrightarrow> x = f" for x
    using assms by (auto simp: cache_key_inject archives_unique_def inj_on_def)
  have ex: "(\<exists>w x. x \<in> snapshot_files (hist w) \<and> cache_key v (fr_archive_id f) = cache_key w (fr_archive_id x)) \<longleftrightarrow> True"
    using eq by blast
  show ?thesis unfolding file_truth_def eq ex by auto
qed

definition engine_coherent ::
    "posix \<Rightarrow> string \<Rightarrow> read_outcome list \<Rightarrow> (u64 \<Rightarrow> index_snapshot) \<Rightarrow> engine \<Rightarrow> bool" where
  "engine_coherent px base rs hist e \<longleftrightarrow>
     slru.coherent (detail_truth px base rs hist) (en_detail_cache e) \<and>
     slru.coherent (file_truth hist) (en_file_cache e)"

lemma find_document_file:
  assumes "snapshot_wf s" "find_document s i = Some (d, f)"
  shows "f \<in> snapshot_files s"
proof -
  obtain g where g: "g \<in> set (sn_segments s)" "d \<in> set (ls_documents g)" "f = ls_files g ! unat (dr_file_ordinal d)"
    using assms find_document_iff_lemma by blast
  obtain k where k: "k < length (ls_documents g)" "d = ls_documents g ! k" using g(2) by (auto simp: in_set_conv_nth)
  have "segment_wf g" using assms(1) g(1) by (auto simp: snapshot_wf_def list_all_iff)
  from segment_document_id(3) [OF this k(1)] g(3) k(2) have "f \<in> set (ls_files g)" by simp
  with g(1) show ?thesis by (auto simp: snapshot_files_def)
qed

text \<open>
  C31: Reading a detail through the caches gives exactly what reading it afresh gives, on every
  branch, and keeps the caches truthful: a cached detail or file never outlives the snapshot version
  it was read on, and one whose text exceeds the limit is not stored.
\<close>

theorem detail_cached_correct:
  assumes coh: "engine_coherent px base rs hist e" and now: "hist (sn_version s) = s"
    and wf: "snapshot_wf s" and uniq: "archives_unique s"
  shows "fst (detail px base rs m s i e) = detail_uncached px base rs s i \<and>
    engine_coherent px base rs hist (snd (detail px base rs m s i e))"
proof -
  let ?key = "cache_key (sn_version s) i"
  obtain cached dc where dc: "slru_get ?key (en_detail_cache e) = (cached, dc)" by fastforce
  have c1: "slru.coherent (detail_truth px base rs hist) dc"
    using coh slru.coherent_get dc by (auto simp: engine_coherent_def)
  have c2: "slru.coherent (file_truth hist) (en_file_cache e)" using coh by (simp add: engine_coherent_def)
  show ?thesis
  proof (cases cached)
    case (Some d)
    then have "detail_truth px base rs hist ?key = Some d"
      using coh dc slru.coherent_hit by (auto simp: engine_coherent_def)
    then have "detail_uncached px base rs s i = Inr d" by (simp add: detail_truth_key now)
    with Some dc c1 c2 show ?thesis by (simp add: detail_def engine_coherent_def)
  next
    case None
    show ?thesis
    proof (cases "find_document s i")
      case absent: None
      with None dc c1 c2 show ?thesis by (simp add: detail_def detail_uncached_def engine_coherent_def)
    next
      case (Some df)
      obtain d f where df: "df = (d, f)" by fastforce
      have f: "f \<in> snapshot_files s" using find_document_file [OF wf] Some df by simp
      let ?fk = "cache_key (sn_version s) (fr_archive_id f)"
      have ft: "file_truth hist ?fk = Some g \<longleftrightarrow> g = f" for g
        using file_truth_key [of hist "sn_version s" f g] uniq f now by simp
      obtain hit fc where fc: "slru_get ?fk (en_file_cache e) = (hit, fc)" by fastforce
      have c3: "slru.coherent (file_truth hist) fc" using slru.coherent_get [OF c2 fc] .
      define cf where "cf = (case hit of Some g \<Rightarrow> g | None \<Rightarrow> f)"
      define fc' where "fc' = (case hit of Some g \<Rightarrow> fc | None \<Rightarrow> slru_put ?fk f fc)"
      have cf: "cf = f" using slru.coherent_hit [OF c2] fc ft by (cases hit) (auto simp: cf_def)
      have c4: "slru.coherent (file_truth hist) fc'"
        using c3 slru.coherent_put [OF c3, of ?fk f] ft by (cases hit) (auto simp: fc'_def)
      let ?r = "read_original_record px base rs f (dr_byte_offset d) (dr_byte_length d)"
      show ?thesis
      proof (cases ?r)
        case (Inl err)
        with None Some df dc fc cf c1 c4 show ?thesis
          by (simp add: detail_def detail_uncached_def engine_coherent_def Let_def flip: cf_def fc'_def)
      next
        case (Inr raw)
        let ?res = "\<lparr>ld_document = d, ld_file = f, ld_raw = raw\<rparr>"
        have u: "detail_uncached px base rs s i = Inr ?res" using Some df Inr by (simp add: detail_uncached_def)
        then have "detail_truth px base rs hist ?key = Some ?res" by (simp add: detail_truth_key now)
        then have c5: "slru.coherent (detail_truth px base rs hist) (slru_put ?key ?res dc)"
          by (rule slru.coherent_put [OF c1])
        show ?thesis
          using None Some df dc fc cf c1 c4 c5 u Inr
          by (simp add: detail_def engine_coherent_def Let_def flip: cf_def fc'_def)
      qed
    qed
  qed
qed

definition empty_engine :: engine where
  "empty_engine =
     \<lparr>en_detail_cache = \<lparr>probation_capacity = 2, protected_capacity = 2, probation = [], protected = [], entries = Map.empty\<rparr>,
      en_file_cache = \<lparr>probation_capacity = 2, protected_capacity = 2, probation = [], protected = [], entries = Map.empty\<rparr>\<rparr>"

lemma empty_slru_contents:
  "slru_contents \<lparr>probation_capacity = m, protected_capacity = n, probation = [], protected = [],
      entries = Map.empty\<rparr> = Map.empty"
  by (simp add: slru_contents_def fun_eq_iff)

lemma empty_engine_coherent: "engine_coherent px base rs hist empty_engine"
  by (simp add: engine_coherent_def empty_engine_def slru.coherent_def slru_inv_def slru_core_def
      empty_slru_contents)

theorem detail_cached_correct_witness:
  "\<exists>px. fst (detail px ''/a'' [] 100 sample_snapshot 0x100000000 empty_engine) =
     Inr \<lparr>ld_document = sample_document, ld_file = sample_file, ld_raw = ''cde''\<rparr>"
proof -
  let ?px = "\<lparr>px_realpath = Inr, px_regular = (\<lambda>_. True), px_open = (\<lambda>_. Some ''abcdefghij'')\<rparr>"
  have u: "archives_unique sample_snapshot"
    by (simp add: archives_unique_def snapshot_files_def sample_snapshot_def sample_segment_def)
  have f: "find_document sample_snapshot 0x100000000 = Some (sample_document, sample_file)"
    by (subst find_document_iff_lemma [OF sample_snapshot_wf])
      (simp add: sample_snapshot_def sample_segment_def sample_document_def)
  have "open_verified ?px ''/a'' sample_file = Inr ''abcdefghij''"
    by (simp add: open_verified_def resolve_archive_file_def valid_relative_path_iff sample_file_def)
  then have "read_original_record ?px ''/a'' [] sample_file 2 3 = Inr ''cde''"
    by (simp add: read_original_record_def sample_file_def k_off_max_def pread_loop.simps pread_bytes_def Let_def)
  then have "detail_uncached ?px ''/a'' [] sample_snapshot 0x100000000 =
      Inr \<lparr>ld_document = sample_document, ld_file = sample_file, ld_raw = ''cde''\<rparr>"
    by (simp add: detail_uncached_def f) (simp add: sample_document_def)
  moreover have coh: "engine_coherent ?px ''/a'' [] (\<lambda>_. sample_snapshot) empty_engine"
    by (rule empty_engine_coherent)
  ultimately show ?thesis
    using detail_cached_correct [OF coh refl sample_snapshot_wf u] by (metis (no_types, lifting))
qed

section \<open>Restoring a page\<close>

datatype restore_error = Sizes_differ | Snapshot_stale | Cached_absent

fun restore_items :: "index_snapshot \<Rightarrow> u64 list \<Rightarrow> real list \<Rightarrow> search_hit list \<Rightarrow> restore_error + search_hit list" where
  "restore_items s (i # ids) (x # scores) items = (case find_document s i of
       None \<Rightarrow> Inl Cached_absent
     | Some (document, file) \<Rightarrow>
         restore_items s ids scores (items @ [\<lparr>sh_document = document, sh_score = x\<rparr>]))"
| "restore_items s ids scores items = Inr items"

definition restore_page ::
    "index_snapshot \<Rightarrow> u64 \<Rightarrow> nat \<Rightarrow> u64 list \<Rightarrow> real list \<Rightarrow> restore_error + search_page" where
  "restore_page s snapshot_version total_hits doc_ids scores =
     (if length doc_ids \<noteq> length scores then Inl Sizes_differ
      else if sn_version s \<noteq> snapshot_version then Inl Snapshot_stale
      else map_sum id (\<lambda>items. \<lparr>sp_snapshot_version = snapshot_version, sp_total_hits = total_hits,
             sp_items = items\<rparr>) (restore_items s doc_ids scores []))"

lemma restore_items_inverse:
  "(\<And>h. h \<in> set hits \<Longrightarrow> \<exists>f. find_document s (dr_doc_id (sh_document h)) = Some (sh_document h, f)) \<Longrightarrow>
     restore_items s (map (\<lambda>h. dr_doc_id (sh_document h)) hits) (map sh_score hits) items = Inr (items @ hits)"
proof (induction hits arbitrary: items)
  case (Cons h hits)
  from Cons.prems [of h] obtain f where "find_document s (dr_doc_id (sh_document h)) = Some (sh_document h, f)" by auto
  with Cons show ?case by simp
qed simp

section \<open>The query cache\<close>

record cache_config =
  cc_active_window_seconds :: int
  cc_active_ttl_seconds :: int
  cc_active_empty_ttl_seconds :: int
  cc_historical_ttl_seconds :: int
  cc_historical_empty_ttl_seconds :: int

text \<open>What the digest of a key is taken of: the query, its keywords as terms and its levels in order.\<close>

definition query_json :: "'j json_lib \<Rightarrow> search_query \<Rightarrow> 'j" where
  "query_json jl q = (let text = jl_string jl in jl_object jl
     [(''keywords'', jl_array jl (map text (normalized_terms (sq_keywords q)))),
      (''line_id'', text (sq_line_id q)), (''station_id'', text (sq_station_id q)),
      (''device_id'', text (sq_device_id q)), (''work_order'', text (sq_work_order q)),
      (''product_sn'', text (sq_product_sn q)),
      (''levels'', jl_array jl (map text (sort (sq_levels q)))),
      (''module_name'', text (sq_module_name q)), (''error_code'', text (sq_error_code q)),
      (''has_time_range'', jl_bool jl (sq_has_time_range q)),
      (''occurred_from_ms'', jl_integer jl (sq_occurred_from_ms q)),
      (''occurred_to_ms'', jl_integer jl (sq_occurred_to_ms q)),
      (''anomaly_only'', jl_bool jl (sq_anomaly_only q)),
      (''offset'', jl_unsigned jl (word_of_nat (sq_offset q))),
      (''page_size'', jl_unsigned jl (word_of_nat (sq_page_size q)))])"

definition query_key ::
    "'j json_lib \<Rightarrow> (string \<Rightarrow> string) \<Rightarrow> string \<Rightarrow> search_query \<Rightarrow> u64 \<Rightarrow> string" where
  "query_key jl sha256 key_prefix q snapshot_version =
     key_prefix @ ''query:v1:'' @ to_string (unat snapshot_version) @ '':'' @ sha256 (jl_dump jl (query_json jl q))"

definition page_json :: "'j json_lib \<Rightarrow> search_page \<Rightarrow> 'j" where
  "page_json jl page = jl_object jl
     [(''format'', jl_unsigned jl 1),
      (''snapshot_version'', jl_unsigned jl (sp_snapshot_version page)),
      (''total_hits'', jl_unsigned jl (word_of_nat (sp_total_hits page))),
      (''doc_ids'', jl_array jl (map (\<lambda>h. jl_unsigned jl (dr_doc_id (sh_document h))) (sp_items page))),
      (''scores'', jl_array jl (map (\<lambda>h. jl_double jl (sh_score h)) (sp_items page)))]"

definition serialize_page :: "'j json_lib \<Rightarrow> search_page \<Rightarrow> string" where
  "serialize_page jl page = jl_dump jl (page_json jl page)"

text \<open>
  Any exception of the parser, the conversions or the engine makes \<open>restore\<close> return false. The format may
  be any number equal to one, and identifiers and scores any numbers.
\<close>

definition restore_cached :: "'j json_lib \<Rightarrow> index_snapshot \<Rightarrow> string \<Rightarrow> search_page option" where
  "restore_cached jl s value = Option.bind (jl_parse jl value) (\<lambda>parsed.
     Option.bind (jl_size jl parsed) (\<lambda>members.
     if members \<noteq> 5 then None else
     Option.bind (jl_at jl parsed ''format'') (\<lambda>format.
     if jl_get_double jl format \<noteq> Some 1 then None else
     Option.bind (Option.bind (jl_at jl parsed ''snapshot_version'') (jl_get_unsigned jl)) (\<lambda>version.
     Option.bind (Option.bind (jl_at jl parsed ''total_hits'') (jl_get_unsigned jl)) (\<lambda>total_hits.
     Option.bind (Option.bind (jl_at jl parsed ''doc_ids'') (jl_elements jl)) (\<lambda>ids.
     Option.bind (Option.bind (jl_at jl parsed ''scores'') (jl_elements jl)) (\<lambda>scores.
     if length ids \<noteq> length scores \<or> length ids > 200 then None else
     Option.bind (those (map (jl_to_u64 jl) ids)) (\<lambda>doc_ids.
     Option.bind (those (map (jl_get_double jl) scores)) (\<lambda>score_values.
     case restore_page s version (unat total_hits) doc_ids score_values of
       Inl _ \<Rightarrow> None | Inr page \<Rightarrow> Some page)))))))))"

definition ttl_seconds :: "cache_config \<Rightarrow> search_query \<Rightarrow> bool \<Rightarrow> int \<Rightarrow> int" where
  "ttl_seconds cfg q is_empty now_ms =
     (let historical = sq_has_time_range q \<and>
            sq_occurred_to_ms q < now_ms - cc_active_window_seconds cfg * 1000
      in if historical
         then (if is_empty then cc_historical_empty_ttl_seconds cfg else cc_historical_ttl_seconds cfg)
         else (if is_empty then cc_active_empty_ttl_seconds cfg else cc_active_ttl_seconds cfg))"

lemma search_page_eq: "\<lparr>sp_snapshot_version = sp_snapshot_version p, sp_total_hits = sp_total_hits p,
    sp_items = sp_items p\<rparr> = (p :: search_page)"
  by simp

lemma restore_cached_serialized:
  assumes laws: "json_laws jl" and trip: "jl_parse jl (serialize_page jl page) = Some (page_json jl page)"
    and small: "length (sp_items page) \<le> 200" "sp_total_hits page < 2 ^ 64"
  shows "restore_cached jl s (serialize_page jl page) =
    (case restore_page s (sp_snapshot_version page) (sp_total_hits page)
        (map (\<lambda>h. dr_doc_id (sh_document h)) (sp_items page)) (map sh_score (sp_items page)) of
       Inl _ \<Rightarrow> None | Inr p \<Rightarrow> Some p)"
proof -
  let ?kvs = "[(''format'', jl_unsigned jl 1),
      (''snapshot_version'', jl_unsigned jl (sp_snapshot_version page)),
      (''total_hits'', jl_unsigned jl (word_of_nat (sp_total_hits page))),
      (''doc_ids'', jl_array jl (map (\<lambda>h. jl_unsigned jl (dr_doc_id (sh_document h))) (sp_items page))),
      (''scores'', jl_array jl (map (\<lambda>h. jl_double jl (sh_score h)) (sp_items page)))]"
  have obj: "jl_size jl (jl_object jl ?kvs) = Some 5" "jl_at jl (jl_object jl ?kvs) k = map_of ?kvs k" for k
    using laws unfolding json_laws_def by (auto simp del: map_of.simps)
  have arr: "jl_elements jl (jl_array jl xs) = Some xs" "jl_get_unsigned jl (jl_unsigned jl n) = Some n"
    "jl_to_u64 jl (jl_unsigned jl n) = Some n" "jl_get_double jl (jl_double jl r) = Some r" for xs n r
    using json_values [OF laws] by auto
  have one: "jl_get_double jl (jl_unsigned jl 1) = Some 1" using json_values(7) [OF laws, of 1] by simp
  have ids: "those (map (jl_to_u64 jl) (map (\<lambda>h. jl_unsigned jl (dr_doc_id (sh_document h))) (sp_items page))) =
      Some (map (\<lambda>h. dr_doc_id (sh_document h)) (sp_items page))"
    by (rule those_map_Some) (simp add: arr)
  have scores: "those (map (jl_get_double jl) (map (\<lambda>h. jl_double jl (sh_score h)) (sp_items page))) =
      Some (map sh_score (sp_items page))"
    by (rule those_map_Some) (simp add: arr)
  have u: "unat (word_of_nat (sp_total_hits page) :: u64) = sp_total_hits page"
    using small(2) by (simp add: unat_of_nat take_bit_nat_eq_self)
  show ?thesis
    using small(1) ids scores
    by (simp add: restore_cached_def trip page_json_def obj arr one u del: map_map)
qed

lemma query_cache_restore:
  assumes laws: "json_laws jl" and trip: "jl_parse jl (serialize_page jl page) = Some (page_json jl page)"
    and small: "length (sp_items page) \<le> 200" "sp_total_hits page < 2 ^ 64"
    and held: "\<forall>h\<in>set (sp_items page). \<exists>f. find_document t (dr_doc_id (sh_document h)) = Some (sh_document h, f)"
    and version: "sp_snapshot_version page = sn_version t"
  shows "restore_cached jl t (serialize_page jl page) = Some page"
proof -
  have "restore_items t (map (\<lambda>h. dr_doc_id (sh_document h)) (sp_items page)) (map sh_score (sp_items page)) [] =
      Inr ([] @ sp_items page)"
    by (rule restore_items_inverse) (use held in blast)
  then have "restore_page t (sp_snapshot_version page) (sp_total_hits page)
      (map (\<lambda>h. dr_doc_id (sh_document h)) (sp_items page)) (map sh_score (sp_items page)) = Inr page"
    using version by (simp add: restore_page_def)
  then show ?thesis by (simp add: restore_cached_serialized [OF laws trip small])
qed

text \<open>
  C32: A page put in the query cache comes back as it was from the snapshot it was made on, with the
  documents themselves read from the snapshot, and is refused on any other snapshot version; so a
  cached value can never show a document of another generation of the index.
\<close>

theorem query_cache_round_trip:
  assumes laws: "json_laws jl" and trip: "jl_parse jl (serialize_page jl page) = Some (page_json jl page)"
    and small: "length (sp_items page) \<le> 200" "sp_total_hits page < 2 ^ 64"
    and held: "\<forall>h\<in>set (sp_items page). \<exists>f. find_document t (dr_doc_id (sh_document h)) = Some (sh_document h, f)"
    and version: "sp_snapshot_version page = sn_version t"
  shows "restore_cached jl t (serialize_page jl page) = Some page \<and>
    (sn_version s \<noteq> sn_version t \<longrightarrow> restore_cached jl s (serialize_page jl page) = None)"
proof -
  have "restore_page s (sp_snapshot_version page) (sp_total_hits page)
      (map (\<lambda>h. dr_doc_id (sh_document h)) (sp_items page)) (map sh_score (sp_items page)) = Inl Snapshot_stale"
    if "sn_version s \<noteq> sn_version t"
    using version that by (simp add: restore_page_def)
  then show ?thesis
    using query_cache_restore [OF laws trip small held version]
    by (simp add: restore_cached_serialized [OF laws trip small])
qed

theorem query_cache_round_trip_witness:
  "\<exists>jl :: sample_json json_lib. \<exists>page. sp_items page \<noteq> [] \<and>
     restore_cached jl sample_snapshot (serialize_page jl page) = Some page \<and>
     restore_cached jl empty_snapshot (serialize_page jl page) = None"
proof -
  let ?page = "\<lparr>sp_snapshot_version = 1, sp_total_hits = 1,
    sp_items = [\<lparr>sh_document = sample_document, sh_score = 3\<rparr>]\<rparr>"
  let ?jl = "sample_json_lib [(''text'', page_json (sample_json_lib []) ?page)]"
  have "page_json ?jl ?page = page_json (sample_json_lib []) ?page" by (simp add: page_json_def)
  then have trip: "jl_parse ?jl (serialize_page ?jl ?page) = Some (page_json ?jl ?page)"
    by (simp add: serialize_page_def)
  have "find_document sample_snapshot (dr_doc_id sample_document) = Some (sample_document, sample_file)"
    by (subst find_document_iff_lemma [OF sample_snapshot_wf])
      (simp add: sample_snapshot_def sample_segment_def sample_document_def)
  then have "restore_cached ?jl sample_snapshot (serialize_page ?jl ?page) = Some ?page \<and>
      (sn_version empty_snapshot \<noteq> sn_version sample_snapshot \<longrightarrow>
       restore_cached ?jl empty_snapshot (serialize_page ?jl ?page) = None)"
    by (intro query_cache_round_trip [OF sample_json_laws trip]) (auto simp: sample_snapshot_def)
  then show ?thesis
    by (intro exI [of _ ?jl] exI [of _ ?page]) (simp add: empty_snapshot_def sample_snapshot_def)
qed

end
