(* ===== verification/Search_Rpc.thy ===== *)
theory Search_Rpc
  imports Search_Service
begin

text \<open>
  The two boundaries of a search: the request checks of the HTTP gateway (\<open>api/search_controller.cpp\<close>,
  \<open>auth/operator_authenticator.cpp\<close>, \<open>common/api_response.cpp\<close>) and the RPC service behind it
  (\<open>rpc/search_health_service.cpp\<close>) with the Redis query cache around the engine. Redis is the answer
  to one GET (\<open>None\<close> for a miss or a failure) and the SETEX command the service issues, if any.
\<close>

section \<open>Gateway: tokens, numbers, text\<close>

definition operator_authenticate :: "string \<Rightarrow> string \<Rightarrow> bool" where
  "operator_authenticate bearer_token authorization =
     (let prefix = ''Bearer ''
      in if take (length prefix) authorization \<noteq> prefix then False
         else let candidate = drop (length prefix) authorization
              in length candidate = length bearer_token \<and> candidate = bearer_token)"

fun parse_unsigned_loop :: "string \<Rightarrow> u64 \<Rightarrow> u64 option" where
  "parse_unsigned_loop [] acc = Some acc"
| "parse_unsigned_loop (c # value) acc =
     (if byte c < 48 \<or> byte c > 57 then None
      else let digit = word_of_nat (byte c - 48)
           in if acc > (- 1 - digit) div 10 then None
              else parse_unsigned_loop value (acc * 10 + digit))"

definition parse_unsigned :: "string \<Rightarrow> u64 option" where
  "parse_unsigned value = (if value = [] then None else parse_unsigned_loop value 0)"

definition valid_text :: "string \<Rightarrow> nat \<Rightarrow> bool" where
  "valid_text value maximum =
     (if value = [] \<or> length value > maximum then False
      else list_all (\<lambda>c. \<not> (byte c < 0x20 \<or> byte c = 0x7f)) value)"

definition parse_page :: "'j json_lib \<Rightarrow> 'j \<Rightarrow> (u32 \<times> u32) option" where
  "parse_page jl body =
     (case (Option.bind (jl_at jl body ''offset'') (jl_get_unsigned jl),
            Option.bind (jl_at jl body ''page_size'') (jl_get_unsigned jl)) of
        (Some parsed_offset, Some parsed_size) \<Rightarrow>
          if parsed_size = 0 \<or> parsed_size > 200 \<or> parsed_offset + parsed_size > 1000 then None
          else Some (ucast parsed_offset, ucast parsed_size)
      | _ \<Rightarrow> None)"

section \<open>Error codes\<close>

datatype error_code =
    Ok | ServiceNotReady | SearchRpcUnavailable | SearchRpcTimeout | InvalidArgument
  | OperatorTokenInvalid | LogNotFound | ErrorCodeNotFound | IndexCorrupted | StorageIoError
  | MySqlUnavailable

fun error_code_name :: "error_code \<Rightarrow> string" where
  "error_code_name Ok = ''OK''"
| "error_code_name ServiceNotReady = ''SERVICE_NOT_READY''"
| "error_code_name SearchRpcUnavailable = ''SEARCH_RPC_UNAVAILABLE''"
| "error_code_name SearchRpcTimeout = ''SEARCH_RPC_TIMEOUT''"
| "error_code_name InvalidArgument = ''INVALID_ARGUMENT''"
| "error_code_name OperatorTokenInvalid = ''OPERATOR_TOKEN_INVALID''"
| "error_code_name LogNotFound = ''LOG_NOT_FOUND''"
| "error_code_name ErrorCodeNotFound = ''ERROR_CODE_NOT_FOUND''"
| "error_code_name IndexCorrupted = ''INDEX_CORRUPTED''"
| "error_code_name StorageIoError = ''STORAGE_IO_ERROR''"
| "error_code_name MySqlUnavailable = ''MYSQL_UNAVAILABLE''"

fun http_status :: "error_code \<Rightarrow> nat" where
  "http_status Ok = 200"
| "http_status ServiceNotReady = 503"
| "http_status SearchRpcUnavailable = 502"
| "http_status SearchRpcTimeout = 504"
| "http_status InvalidArgument = 400"
| "http_status OperatorTokenInvalid = 401"
| "http_status LogNotFound = 404"
| "http_status ErrorCodeNotFound = 404"
| "http_status IndexCorrupted = 500"
| "http_status StorageIoError = 500"
| "http_status MySqlUnavailable = 503"

definition business_code :: "string \<Rightarrow> error_code" where
  "business_code code =
     (if code = ''INVALID_ARGUMENT'' then InvalidArgument
      else if code = ''LOG_NOT_FOUND'' then LogNotFound
      else if code = ''ERROR_CODE_NOT_FOUND'' then ErrorCodeNotFound
      else if code = ''INDEX_CORRUPTED'' then IndexCorrupted
      else if code = ''STORAGE_IO_ERROR'' then StorageIoError
      else if code = ''MYSQL_UNAVAILABLE'' then MySqlUnavailable
      else IndexCorrupted)"

section \<open>RPC requests\<close>

record search_filter =
  sf_line_id :: string
  sf_station_id :: string
  sf_device_id :: string
  sf_work_order :: string
  sf_product_sn :: string
  sf_levels :: "string list"
  sf_module_name :: string
  sf_error_code :: string
  sf_has_time_range :: bool
  sf_occurred_from_ms :: int
  sf_occurred_to_ms :: int

record search_request =
  rq_keywords :: "string list"
  rq_filter :: search_filter
  rq_offset :: u32
  rq_page_size :: u32

definition make_query :: "search_filter \<Rightarrow> nat \<Rightarrow> nat \<Rightarrow> bool \<Rightarrow> search_query" where
  "make_query flt offset page_size anomaly_only = \<lparr>sq_keywords = [],
     sq_line_id = sf_line_id flt, sq_station_id = sf_station_id flt,
     sq_device_id = sf_device_id flt, sq_work_order = sf_work_order flt,
     sq_product_sn = sf_product_sn flt, sq_levels = sf_levels flt,
     sq_module_name = sf_module_name flt, sq_error_code = sf_error_code flt,
     sq_has_time_range = sf_has_time_range flt, sq_occurred_from_ms = sf_occurred_from_ms flt,
     sq_occurred_to_ms = sf_occurred_to_ms flt, sq_anomaly_only = anomaly_only,
     sq_offset = offset, sq_page_size = page_size\<rparr>"

definition valid_pagination :: "u32 \<Rightarrow> u32 \<Rightarrow> bool" where
  "valid_pagination offset page_size \<longleftrightarrow> page_size \<noteq> 0 \<and> page_size \<le> 200 \<and> offset + page_size \<le> 1000"

definition valid_filter :: "search_filter \<Rightarrow> bool" where
  "valid_filter f =
     (if length (sf_line_id f) > 64 \<or> length (sf_station_id f) > 64 \<or> length (sf_device_id f) > 64 \<or>
         length (sf_work_order f) > 64 \<or> length (sf_product_sn f) > 96 \<or> length (sf_module_name f) > 64 \<or>
         length (sf_error_code f) > 64 \<or> length (sf_levels f) > 3 then False
      else if \<not> list_all (\<lambda>l. l = ''INFO'' \<or> l = ''WARN'' \<or> l = ''ERROR'') (sf_levels f) then False
      else if sf_has_time_range f \<and>
         (sf_occurred_from_ms f < 946684800000 \<or> sf_occurred_to_ms f > 4102444800000 \<or>
          sf_occurred_from_ms f > sf_occurred_to_ms f \<or>
          sf_occurred_to_ms f - sf_occurred_from_ms f > 31 * 86400 * 1000) then False
      else sf_device_id f \<noteq> [] \<or> sf_work_order f \<noteq> [] \<or> sf_product_sn f \<noteq> [] \<or>
           sf_error_code f \<noteq> [] \<or> sf_has_time_range f)"

definition valid_keywords :: "string list \<Rightarrow> bool" where
  "valid_keywords keywords =
     (if length keywords > 8 then False
      else list_all (\<lambda>k. \<not> (k = [] \<or> length k > 64 \<or> tokenize_terms k = [])) keywords)"

section \<open>Responses\<close>

record log_summary =
  su_doc_id :: u64
  su_score :: real
  su_occurred_at :: string
  su_archived_at :: string
  su_line_id :: string
  su_station_id :: string
  su_device_id :: string
  su_collector_id :: string
  su_work_order :: string
  su_product_sn :: string
  su_source_type :: string
  su_level :: string
  su_module_name :: string
  su_error_code :: string
  su_event_name :: string

record search_response =
  re_code :: string
  re_message :: string
  re_snapshot_version :: u64
  re_total_hits :: nat
  re_items :: "log_summary list"

definition error_response :: "string \<Rightarrow> string \<Rightarrow> search_response" where
  "error_response code message = \<lparr>re_code = code, re_message = message, re_snapshot_version = 0,
     re_total_hits = 0, re_items = []\<rparr>"

definition fill_summary :: "search_hit \<Rightarrow> log_summary" where
  "fill_summary hit = (let d = sh_document hit in \<lparr>su_doc_id = dr_doc_id d, su_score = sh_score hit,
     su_occurred_at = format_utc_milliseconds (dr_occurred_at_ms d),
     su_archived_at = format_utc_milliseconds (dr_archived_at_ms d),
     su_line_id = dr_line_id d, su_station_id = dr_station_id d, su_device_id = dr_device_id d,
     su_collector_id = dr_collector_id d, su_work_order = dr_work_order d, su_product_sn = dr_product_sn d,
     su_source_type = dr_source_type d, su_level = dr_level d, su_module_name = dr_module_name d,
     su_error_code = dr_error_code d, su_event_name = dr_event_name d\<rparr>)"

definition fill_page :: "search_page \<Rightarrow> search_response" where
  "fill_page page = \<lparr>re_code = ''OK'', re_message = ''success'',
     re_snapshot_version = sp_snapshot_version page, re_total_hits = sp_total_hits page,
     re_items = map fill_summary (sp_items page)\<rparr>"

record setex =
  sx_key :: string
  sx_seconds :: int
  sx_value :: string

text \<open>The query cache's parameters: the JSON library, the digest, the Redis prefix and the times.\<close>

record 'j query_cache =
  qc_json :: "'j json_lib"
  qc_sha256 :: "string \<Rightarrow> string"
  qc_prefix :: string
  qc_config :: cache_config

text \<open>
  The engine asks the snapshot store for the current snapshot at each call: for the version in the key,
  before the trip to Redis, and afterwards for restoring the cached page and for searching. A refresh may
  come in between.
\<close>

record snapshot_reads =
  rd_key :: index_snapshot
  rd_restore :: index_snapshot
  rd_search :: index_snapshot

definition cached_query_key :: "'j query_cache \<Rightarrow> search_query \<Rightarrow> u64 \<Rightarrow> string" where
  "cached_query_key qc q version = query_key (qc_json qc) (qc_sha256 qc) (qc_prefix qc) q version"

definition execute_cached_search ::
    "'j query_cache \<Rightarrow> snapshot_reads \<Rightarrow> (string \<Rightarrow> string option) \<Rightarrow> int \<Rightarrow> search_query \<Rightarrow>
     search_response \<times> setex option" where
  "execute_cached_search qc rd redis_get now_ms q =
     (let key = cached_query_key qc q (sn_version (rd_key rd))
      in case Option.bind (redis_get key) (restore_cached (qc_json qc) (rd_restore rd)) of
          Some page \<Rightarrow> (fill_page page, None)
        | None \<Rightarrow>
            (case search (rd_search rd) q of
               Inl _ \<Rightarrow> (error_response ''INDEX_CORRUPTED'' ''search index cannot complete the query'', None)
             | Inr page \<Rightarrow> (fill_page page,
                 Some \<lparr>sx_key = key, sx_seconds = ttl_seconds (qc_config qc) q (sp_total_hits page = 0) now_ms,
                       sx_value = serialize_page (qc_json qc) page\<rparr>)))"

definition request_query :: "search_request \<Rightarrow> search_query" where
  "request_query rq = (make_query (rq_filter rq) (unat (rq_offset rq)) (unat (rq_page_size rq)) False)
     \<lparr>sq_keywords := rq_keywords rq\<rparr>"

definition anomaly_query :: "search_request \<Rightarrow> search_query" where
  "anomaly_query rq = make_query (rq_filter rq) (unat (rq_offset rq)) (unat (rq_page_size rq)) True"

definition search_logs ::
    "'j query_cache \<Rightarrow> snapshot_reads \<Rightarrow> (string \<Rightarrow> string option) \<Rightarrow> int \<Rightarrow> search_request \<Rightarrow>
     search_response \<times> setex option" where
  "search_logs qc rd redis_get now_ms rq =
     (if \<not> valid_pagination (rq_offset rq) (rq_page_size rq) \<or> \<not> valid_filter (rq_filter rq) \<or>
         \<not> valid_keywords (rq_keywords rq)
      then (error_response ''INVALID_ARGUMENT'' ''search pagination is invalid'', None)
      else execute_cached_search qc rd redis_get now_ms (request_query rq))"

definition list_anomalies ::
    "'j query_cache \<Rightarrow> snapshot_reads \<Rightarrow> (string \<Rightarrow> string option) \<Rightarrow> int \<Rightarrow> search_request \<Rightarrow>
     search_response \<times> setex option" where
  "list_anomalies qc rd redis_get now_ms rq =
     (if \<not> valid_pagination (rq_offset rq) (rq_page_size rq) \<or> \<not> valid_filter (rq_filter rq)
      then (error_response ''INVALID_ARGUMENT'' ''anomaly pagination is invalid'', None)
      else execute_cached_search qc rd redis_get now_ms (anomaly_query rq))"

record detail_response =
  de_code :: string
  de_message :: string
  de_document :: "log_summary option"
  de_archive_id :: u64
  de_byte_offset :: u64
  de_byte_length :: u64
  de_raw :: string

definition detail_failure :: "string \<Rightarrow> string \<Rightarrow> detail_response" where
  "detail_failure code message = \<lparr>de_code = code, de_message = message, de_document = None,
     de_archive_id = 0, de_byte_offset = 0, de_byte_length = 0, de_raw = []\<rparr>"

definition get_log_detail ::
    "posix \<Rightarrow> string \<Rightarrow> read_outcome list \<Rightarrow> nat \<Rightarrow> index_snapshot \<Rightarrow> u64 \<Rightarrow> engine \<Rightarrow> detail_response \<times> engine" where
  "get_log_detail px archive_root rs max_detail_bytes s doc_id e =
     (if doc_id = 0 then (detail_failure ''INVALID_ARGUMENT'' ''doc_id is invalid'', e)
      else case detail px archive_root rs max_detail_bytes s doc_id e of
          (Inr d, e') \<Rightarrow> (\<lparr>de_code = ''OK'', de_message = ''success'',
             de_document = Some (fill_summary \<lparr>sh_document = ld_document d, sh_score = 0\<rparr>),
             de_archive_id = fr_archive_id (ld_file d), de_byte_offset = dr_byte_offset (ld_document d),
             de_byte_length = dr_byte_length (ld_document d), de_raw = ld_raw d\<rparr>, e')
        | (Inl Detail_absent, e') \<Rightarrow> (detail_failure ''LOG_NOT_FOUND'' ''log document was not found'', e')
        | (Inl (Detail_unreadable _), e') \<Rightarrow>
            (detail_failure ''STORAGE_IO_ERROR'' ''original log cannot be read'', e'))"

section \<open>Numbers and tokens\<close>

lemma operator_authenticate_iff:
  "operator_authenticate token authorization \<longleftrightarrow> authorization = ''Bearer '' @ token"
proof
  assume "operator_authenticate token authorization"
  then have "take 7 authorization = ''Bearer ''" "drop 7 authorization = token"
    by (auto simp: operator_authenticate_def Let_def numeral_eq_Suc split: if_splits)
  then show "authorization = ''Bearer '' @ token" by (metis append_take_drop_id)
qed (simp add: operator_authenticate_def)

lemma digits_val_Cons_acc:
  "foldl (\<lambda>acc c. acc * 10 + digit_val c) a s = a * 10 ^ length s + digits_val s"
proof (induction s arbitrary: a)
  case (Cons c s)
  have "digits_val (c # s) = digit_val c * 10 ^ length s + digits_val s"
    using Cons.IH [of "digit_val c"] by (simp add: digits_val_def)
  with Cons.IH [of "a * 10 + digit_val c"] show ?case by (simp add: algebra_simps)
qed simp

lemma parse_unsigned_loop_correct:
  "parse_unsigned_loop s p = Some w \<longleftrightarrow> list_all is_digit s \<and>
     unat p * 10 ^ length s + digits_val s < 2 ^ 64 \<and> w = word_of_nat (unat p * 10 ^ length s + digits_val s)"
proof (induction s arbitrary: p)
  case Nil
  have "unat p < 2 ^ 64" by (rule order.strict_trans2 [OF unsigned_less]) simp
  then show ?case by auto
next
  case (Cons c s)
  show ?case
  proof (cases "is_digit c")
    case False
    then show ?thesis by (auto simp: is_digit_def)
  next
    case True
    define d where "d = byte c - 48"
    have d: "d < 10" "digit_val c = d" using True by (auto simp: d_def is_digit_def digit_val_def)
    have ud: "unat (word_of_nat d :: u64) = d" using d(1) by (simp add: unat_of_nat take_bit_nat_eq_self)
    have val: "digits_val (c # s) = d * 10 ^ length s + digits_val s"
      using digits_val_Cons_acc [of d s] d(2) by (simp add: digits_val_def)
    have max: "unat (- 1 - word_of_nat d :: u64) = 2 ^ 64 - 1 - d"
    proof -
      have "(word_of_nat d :: u64) \<le> - 1" by simp
      then show ?thesis by (simp add: unat_sub ud unsigned_minus_1_eq_mask mask_eq_exp_minus_1)
    qed
    have le10: "unat ((- 1 - word_of_nat d) div 10 :: u64) = (2 ^ 64 - 1 - d) div 10"
      by (simp add: unat_div_distrib max)
    have over: "p > (- 1 - word_of_nat d) div 10 \<longleftrightarrow> 2 ^ 64 \<le> unat p * 10 + d"
    proof -
      have "p > (- 1 - word_of_nat d) div 10 \<longleftrightarrow> (2 ^ 64 - 1 - d) div 10 < unat p"
        using le10 by (simp only: word_less_nat_alt)
      also have "\<dots> \<longleftrightarrow> 2 ^ 64 - 1 - d < unat p * 10" by (simp add: div_less_iff_less_mult)
      also have "\<dots> \<longleftrightarrow> 2 ^ 64 \<le> unat p * 10 + d" using d(1) by simp linarith
      finally show ?thesis .
    qed
    show ?thesis
    proof (cases "2 ^ 64 \<le> unat p * 10 + d")
      case big: True
      have "2 ^ 64 \<le> unat p * 10 ^ length (c # s) + digits_val (c # s)"
      proof -
        have "(unat p * 10 + d) * 1 \<le> (unat p * 10 + d) * 10 ^ length s" by (intro mult_le_mono2) simp
        with big show ?thesis unfolding val by (simp add: algebra_simps)
      qed
      moreover have "parse_unsigned_loop (c # s) p = None"
        using True big over by (simp add: is_digit_def d_def Let_def)
      ultimately show ?thesis by simp
    next
      case small: False
      then have "unat (p * 10 + word_of_nat d) = unat p * 10 + d"
        using ud by (simp add: unat_word_ariths)
      moreover have "parse_unsigned_loop (c # s) p = parse_unsigned_loop s (p * 10 + word_of_nat d)"
        using True small over by (simp add: is_digit_def d_def Let_def)
      ultimately show ?thesis
        using Cons.IH [of "p * 10 + word_of_nat d"] True unfolding val by (simp add: algebra_simps)
    qed
  qed
qed

text \<open>
  The gateway's number parser accepts exactly the non-empty strings of decimal digits whose value
  fits 64 bits, and gives that value: the overflow test before each multiplication is exact.
\<close>

lemma parse_unsigned_iff:
  "parse_unsigned s = Some w \<longleftrightarrow>
     s \<noteq> [] \<and> list_all is_digit s \<and> digits_val s < 2 ^ 64 \<and> w = word_of_nat (digits_val s)"
  using parse_unsigned_loop_correct [of s 0 w] by (simp add: parse_unsigned_def)

section \<open>Pages of a search\<close>

lemma offer_hit_subset: "set (fst (offer_hit k (best, n) h)) \<subseteq> insert h (set best)"
  by (auto simp: offer_hit_def pq_pop_def dest: in_set_butlastD)

lemma foldl_offer_subset:
  "set (fst (foldl (offer_hit k) (best, n) hs)) \<subseteq> set best \<union> set hs \<and>
   snd (foldl (offer_hit k) (best, n) hs) = n + length hs"
proof (induction hs arbitrary: best n)
  case (Cons h hs)
  obtain b m where bm: "offer_hit k (best, n) h = (b, m)" by fastforce
  have "m = n + 1" using bm by (simp add: offer_hit_def)
  moreover have "set b \<subseteq> insert h (set best)" using offer_hit_subset [of k best n h] bm by simp
  ultimately show ?case using Cons.IH [of b m] bm by auto
qed simp

lemma set_sort_hits: "set (sort_hits hs) = set hs"
  by (induction hs) (auto simp: sort_hits_def)

lemma search_items_hits:
  assumes wf: "snapshot_wf s" and found: "search s q = Inr page"
  shows "set (sp_items page) \<subseteq> set (all_hits s q) \<and> length (sp_items page) \<le> sq_page_size q \<and>
    sp_total_hits page = length (all_hits s q) \<and> sp_snapshot_version page = sn_version s"
proof -
  let ?k = "sq_offset q + sq_page_size q"
  let ?terms = "normalized_terms (sq_keywords q)"
  obtain best n where bn: "foldl (search_segment s (global_df (sn_segments s) ?terms) q ?terms ?k) ([], 0) (sn_segments s) = (best, n)"
    by fastforce
  have segs: "list_all segment_wf (sn_segments s)" using wf by (simp add: snapshot_wf_def)
  have "foldl (offer_hit ?k) ([], 0) (all_hits s q) = (best, n)"
    using bn by (simp add: foldl_search_segments [OF segs] all_hits_def)
  then have best: "set best \<subseteq> set (all_hits s q)" "n = length (all_hits s q)"
    using foldl_offer_subset [of ?k "[]" 0 "all_hits s q"] by auto
  let ?r = "sort_hits (drain_queue [] best)"
  have r: "set ?r \<subseteq> set (all_hits s q)" using best(1) by (simp add: set_sort_hits drain_queue_rev)
  have page: "page = \<lparr>sp_snapshot_version = sn_version s, sp_total_hits = n,
      sp_items = map (\<lambda>i. ?r ! i) [sq_offset q..<min (length ?r) ?k]\<rparr>"
    using found by (simp add: search_def Let_def bn split: if_splits)
  have "set (map (\<lambda>i. ?r ! i) [sq_offset q..<min (length ?r) ?k]) \<subseteq> set ?r" by auto
  with r page best(2) show ?thesis by auto
qed

lemma all_hits_documents:
  assumes "h \<in> set (all_hits s q)"
  shows "\<exists>g\<in>set (sn_segments s). sh_document h \<in> set (ls_documents g)"
  using assms segment_hits_documents by (fastforce simp: all_hits_def)

lemma all_hits_held:
  assumes "snapshot_wf s" "h \<in> set (all_hits s q)"
  shows "\<exists>f. find_document s (dr_doc_id (sh_document h)) = Some (sh_document h, f)"
  using find_document_iff_lemma [OF assms(1)] all_hits_documents [OF assms(2)] by blast

lemma all_hits_count:
  assumes "snapshot_wf s"
  shows "length (all_hits s q) \<le> sn_document_count s"
proof -
  have "length (concat (map (segment_hits s gdf q ts) gs)) \<le> sum_list (map (\<lambda>g. length (ls_documents g)) gs)" for gdf ts gs
    by (induction gs) (auto simp: segment_hits_def intro!: add_mono)
  then show ?thesis using assms by (simp add: all_hits_def snapshot_wf_def)
qed

section \<open>Pagination\<close>

lemma search_accepts:
  "0 < sq_page_size q \<Longrightarrow> sq_offset q + sq_page_size q \<le> 1000 \<Longrightarrow> \<exists>page. search s q = Inr page"
  by (auto simp: search_def Let_def case_prod_unfold)

lemma valid_pagination_iff:
  "valid_pagination off n \<longleftrightarrow> 0 < unat n \<and> unat n \<le> 200 \<and>
     (unat off + unat n \<le> 1000 \<or> 2 ^ 32 \<le> unat off + unat n)"
proof -
  have o: "unat off < 2 ^ 32" by (rule order.strict_trans2 [OF unsigned_less]) simp
  have "unat (off + n) = (unat off + unat n) mod 2 ^ 32" by (simp add: unat_word_ariths)
  moreover have "unat off + unat n < 2 ^ 32 + 200 \<Longrightarrow> 2 ^ 32 \<le> unat off + unat n \<Longrightarrow>
      (unat off + unat n) mod 2 ^ 32 = unat off + unat n - 2 ^ 32"
    by (simp add: mod_if)
  ultimately show ?thesis
    using o by (auto simp: valid_pagination_def word_le_nat_alt unat_gt_0 not_le)
qed

text \<open>
  C40: The sum of offset and page size wraps: a request for offset 18446744073709551615 and one hit
  passes the gateway's check, is narrowed to offset 4294967295, passes the service's check too, whose
  sum wraps in 32 bits, and ends as a corrupted index instead of an invalid argument.
\<close>

theorem pagination_sum_wraps:
  assumes "json_laws (qc_json qc)" "valid_filter flt" "valid_keywords ks"
    and "\<forall>key. redis_get key = None"
  shows "parse_page (qc_json qc) (jl_object (qc_json qc)
      [(''offset'', jl_unsigned (qc_json qc) 18446744073709551615), (''page_size'', jl_unsigned (qc_json qc) 1)]) =
      Some (4294967295, 1) \<and>
    re_code (fst (search_logs qc rd redis_get now
      \<lparr>rq_keywords = ks, rq_filter = flt, rq_offset = 4294967295, rq_page_size = 1\<rparr>)) = ''INDEX_CORRUPTED''"
proof -
  have at: "jl_at (qc_json qc) (jl_object (qc_json qc) [(''offset'', x), (''page_size'', y)]) k =
      map_of [(''offset'', x), (''page_size'', y)] k" for x y k
    using assms(1) unfolding json_laws_def by simp
  have get: "jl_get_unsigned (qc_json qc) (jl_unsigned (qc_json qc) n) = Some n" for n
    using assms(1) unfolding json_laws_def by simp
  have "valid_pagination 4294967295 1" by (simp add: valid_pagination_def)
  then have "re_code (fst (search_logs qc rd redis_get now
      \<lparr>rq_keywords = ks, rq_filter = flt, rq_offset = 4294967295, rq_page_size = 1\<rparr>)) = ''INDEX_CORRUPTED''"
    using assms(2-4)
    by (simp add: search_logs_def execute_cached_search_def request_query_def search_def make_query_def error_response_def Let_def)
  then show ?thesis by (simp add: parse_page_def at get)
qed

definition sample_filter :: search_filter where
  "sample_filter = \<lparr>sf_line_id = [], sf_station_id = [], sf_device_id = ''D'', sf_work_order = [],
     sf_product_sn = [], sf_levels = [''ERROR''], sf_module_name = [], sf_error_code = [],
     sf_has_time_range = False, sf_occurred_from_ms = 0, sf_occurred_to_ms = 0\<rparr>"

definition sample_cache :: "sample_json query_cache" where
  "sample_cache = \<lparr>qc_json = sample_json_lib [], qc_sha256 = (\<lambda>_. replicate 64 CHR ''0''),
     qc_prefix = ''lt:'', qc_config = \<lparr>cc_active_window_seconds = 3600, cc_active_ttl_seconds = 30,
       cc_active_empty_ttl_seconds = 5, cc_historical_ttl_seconds = 600, cc_historical_empty_ttl_seconds = 60\<rparr>\<rparr>"

text \<open>No refresh in between.\<close>

definition reads_at :: "index_snapshot \<Rightarrow> snapshot_reads" where
  "reads_at s = \<lparr>rd_key = s, rd_restore = s, rd_search = s\<rparr>"

lemma sample_filter_valid: "valid_filter sample_filter"
  by (simp add: valid_filter_def sample_filter_def)

lemma sample_keywords_valid: "valid_keywords [''x'']"
  by code_simp

theorem pagination_sum_wraps_witness:
  "re_code (fst (search_logs sample_cache (reads_at sample_snapshot) (\<lambda>_. None) 0
     \<lparr>rq_keywords = [''x''], rq_filter = sample_filter, rq_offset = 4294967295, rq_page_size = 1\<rparr>)) = ''INDEX_CORRUPTED''"
  by (rule pagination_sum_wraps [THEN conjunct2])
    (simp_all add: sample_filter_valid sample_keywords_valid sample_json_laws sample_cache_def)

end
