(* ===== verification/Redis_Model.thy ===== *)
theory Redis_Model
  imports Prelude "HOL-Library.AList"
begin

text \<open>
  The Redis commands the ingest service uses, as its Lua scripts and commands call them: a database of
  strings (which are also the bitmaps), hashes and sorted sets, each with an optional expiry instant in
  milliseconds. A script runs at one instant, so the time is an argument. A key past its expiry reads
  as absent. The keys of the program carry their type in the name, so a command never meets a value of
  another type; such a value reads as an empty one here.
\<close>

datatype redis_value = Rstring string | Rhash "(string \<times> string) list" | Rzset "(string \<times> int) list"

type_synonym redis_db = "string \<rightharpoonup> redis_value \<times> int option"

named_theorems redis \<open>what a command leaves under each key\<close>

definition live :: "int \<Rightarrow> redis_db \<Rightarrow> string \<Rightarrow> redis_value option" where
  "live now r k = (case r k of
       None \<Rightarrow> None
     | Some (v, None) \<Rightarrow> Some v
     | Some (v, Some e) \<Rightarrow> if now < e then Some v else None)"

definition expiry_of :: "int \<Rightarrow> redis_db \<Rightarrow> string \<Rightarrow> int option" where
  "expiry_of now r k = (if live now r k = None then None else snd (the (r k)))"

definition put :: "int \<Rightarrow> string \<Rightarrow> redis_value \<Rightarrow> redis_db \<Rightarrow> redis_db" where
  "put now k v r = r(k \<mapsto> (v, expiry_of now r k))"

definition rexists :: "int \<Rightarrow> redis_db \<Rightarrow> string \<Rightarrow> bool" where
  "rexists now r k \<longleftrightarrow> live now r k \<noteq> None"

definition expire :: "int \<Rightarrow> string \<Rightarrow> int \<Rightarrow> redis_db \<Rightarrow> redis_db" where
  "expire now k seconds r = (case live now r k of
       None \<Rightarrow> r
     | Some v \<Rightarrow> r(k \<mapsto> (v, Some (now + seconds * 1000))))"

definition del :: "string \<Rightarrow> redis_db \<Rightarrow> redis_db" where
  "del k r = r(k := None)"

text \<open>\<open>SET key value NX EX seconds\<close>: \<open>None\<close> is the nil reply.\<close>

definition set_nx_ex :: "int \<Rightarrow> string \<Rightarrow> string \<Rightarrow> int \<Rightarrow> redis_db \<Rightarrow> redis_db option" where
  "set_nx_ex now k v seconds r =
     (if rexists now r k then None else Some (r(k \<mapsto> (Rstring v, Some (now + seconds * 1000)))))"

section \<open>Hashes\<close>

definition update_fields :: "(string \<times> string) list \<Rightarrow> (string \<times> string) list \<Rightarrow> (string \<times> string) list" where
  "update_fields h fs = foldl (\<lambda>h (f, v). AList.update f v h) h fs"

definition hash_at :: "int \<Rightarrow> redis_db \<Rightarrow> string \<Rightarrow> (string \<times> string) list" where
  "hash_at now r k = (case live now r k of Some (Rhash h) \<Rightarrow> h | _ \<Rightarrow> [])"

definition hset :: "int \<Rightarrow> string \<Rightarrow> (string \<times> string) list \<Rightarrow> redis_db \<Rightarrow> redis_db" where
  "hset now k fs r = put now k (Rhash (update_fields (hash_at now r k) fs)) r"

definition hget :: "int \<Rightarrow> redis_db \<Rightarrow> string \<Rightarrow> string \<Rightarrow> string option" where
  "hget now r k f = map_of (hash_at now r k) f"

text \<open>\<open>HGETALL\<close> lists fields and values in turn.\<close>

definition hgetall :: "int \<Rightarrow> redis_db \<Rightarrow> string \<Rightarrow> string list" where
  "hgetall now r k = concat (map (\<lambda>(f, v). [f, v]) (hash_at now r k))"

section \<open>Sorted sets\<close>

definition zset_at :: "int \<Rightarrow> redis_db \<Rightarrow> string \<Rightarrow> (string \<times> int) list" where
  "zset_at now r k = (case live now r k of Some (Rzset z) \<Rightarrow> z | _ \<Rightarrow> [])"

definition zadd :: "int \<Rightarrow> string \<Rightarrow> int \<Rightarrow> string \<Rightarrow> redis_db \<Rightarrow> redis_db" where
  "zadd now k score m r = put now k (Rzset (AList.update m score (zset_at now r k))) r"

definition zrem :: "int \<Rightarrow> string \<Rightarrow> string \<Rightarrow> redis_db \<Rightarrow> redis_db" where
  "zrem now k m r = put now k (Rzset (AList.delete m (zset_at now r k))) r"

text \<open>\<open>ZRANGEBYSCORE k -inf n\<close> and \<open>ZREM\<close> of what it lists.\<close>

definition zrem_up_to :: "int \<Rightarrow> string \<Rightarrow> int \<Rightarrow> redis_db \<Rightarrow> redis_db" where
  "zrem_up_to now k n r = put now k (Rzset (filter (\<lambda>(m, score). n < score) (zset_at now r k))) r"

section \<open>Bitmaps\<close>

text \<open>Bit 0 is the most significant bit of the first byte, as in Redis.\<close>

definition bit_value :: "nat \<Rightarrow> nat" where
  "bit_value i = 2 ^ (7 - i mod 8)"

definition bitmap_at :: "int \<Rightarrow> redis_db \<Rightarrow> string \<Rightarrow> string" where
  "bitmap_at now r k = (case live now r k of Some (Rstring s) \<Rightarrow> s | _ \<Rightarrow> [])"

definition get_bit :: "string \<Rightarrow> nat \<Rightarrow> bool" where
  "get_bit s i \<longleftrightarrow> i div 8 < length s \<and> odd (byte (s ! (i div 8)) div bit_value i)"

definition with_bit :: "string \<Rightarrow> nat \<Rightarrow> string" where
  "with_bit s i = (let padded = s @ replicate (Suc (i div 8) - length s) (char_of (0::nat));
       b = byte (padded ! (i div 8))
     in if odd (b div bit_value i) then padded else padded[i div 8 := char_of (b + bit_value i)])"

definition setbit :: "int \<Rightarrow> string \<Rightarrow> nat \<Rightarrow> redis_db \<Rightarrow> redis_db" where
  "setbit now k i r = put now k (Rstring (with_bit (bitmap_at now r k) i)) r"

definition bitcount :: "string \<Rightarrow> nat" where
  "bitcount s = length (filter (get_bit s) [0..<8 * length s])"

section \<open>Laws\<close>

lemma live_upd [redis]: "live now (r(k \<mapsto> (v, None))) j = (if j = k then Some v else live now r j)"
  by (simp add: live_def)

lemma live_upd_ex [redis]:
  "live now (r(k \<mapsto> (v, Some e))) j = (if j = k then if now < e then Some v else None else live now r j)"
  by (simp add: live_def)

lemma live_del [redis]: "live now (del k r) j = (if j = k then None else live now r j)"
  by (simp add: live_def del_def)

lemma live_put [redis]: "live now (put now k v r) j = (if j = k then Some v else live now r j)"
  by (auto simp: live_def put_def expiry_of_def split: option.splits if_splits)

lemma live_expire [redis]:
  "live now (expire now k s r) j =
     (if j = k \<and> live now r k \<noteq> None then if 0 < s then live now r k else None else live now r j)"
  by (auto simp: live_def expire_def split: option.splits)

lemma hash_at_put [redis]:
  "hash_at now (put now k v r) j = (if j = k then (case v of Rhash h \<Rightarrow> h | _ \<Rightarrow> []) else hash_at now r j)"
  by (simp add: hash_at_def redis)

lemma zset_at_put [redis]:
  "zset_at now (put now k v r) j = (if j = k then (case v of Rzset z \<Rightarrow> z | _ \<Rightarrow> []) else zset_at now r j)"
  by (simp add: zset_at_def redis)

lemma bitmap_at_put [redis]:
  "bitmap_at now (put now k v r) j = (if j = k then (case v of Rstring s \<Rightarrow> s | _ \<Rightarrow> []) else bitmap_at now r j)"
  by (simp add: bitmap_at_def redis)

lemma at_expire [redis]:
  assumes "0 < s"
  shows "live now (expire now k s r) j = live now r j" "hash_at now (expire now k s r) j = hash_at now r j"
    "zset_at now (expire now k s r) j = zset_at now r j" "bitmap_at now (expire now k s r) j = bitmap_at now r j"
proof -
  show l: "live now (expire now k s r) j = live now r j" using assms by (auto simp: live_expire)
  show "hash_at now (expire now k s r) j = hash_at now r j" by (simp add: hash_at_def l)
  show "zset_at now (expire now k s r) j = zset_at now r j" by (simp add: zset_at_def l)
  show "bitmap_at now (expire now k s r) j = bitmap_at now r j" by (simp add: bitmap_at_def l)
qed

lemma hash_at_hset [redis]:
  "hash_at now (hset now k fs r) j = (if j = k then update_fields (hash_at now r k) fs else hash_at now r j)"
  by (simp add: hset_def redis)

lemma zset_at_hset [redis]: "zset_at now (hset now k fs r) j = (if j = k then [] else zset_at now r j)"
  by (simp add: hset_def redis)

lemma map_of_update_fields:
  "map_of (update_fields h fs) = (map_of h ++ map_of (rev fs))"
proof (induction fs arbitrary: h)
  case (Cons p fs)
  show ?case
    by (cases p) (simp add: update_fields_def Cons [unfolded update_fields_def] update_conv' map_add_def fun_eq_iff split: option.splits)
qed (simp add: update_fields_def)

lemma distinct_update_fields:
  "distinct (map fst h) \<Longrightarrow> distinct (map fst (update_fields h fs))"
  by (induction fs arbitrary: h) (auto simp: update_fields_def intro: distinct_update)

text \<open>Bits.\<close>

lemma bit_value_less: "bit_value i < 256"
proof -
  have "7 - i mod 8 < 8" by simp
  then have "bit_value i < 2 ^ 8" unfolding bit_value_def by (intro power_strict_increasing) simp_all
  then show ?thesis by simp
qed

lemma odd_div_bit_add:
  fixes b :: nat
  assumes "\<not> odd (b div 2 ^ j)"
  shows "odd ((b + 2 ^ j) div 2 ^ k) \<longleftrightarrow> odd (b div 2 ^ k) \<or> k = j"
proof -
  have nb: "\<not> bit b j" using assms by (simp add: bit_iff_odd)
  then have d: "and b (2 ^ j) = 0" by (intro bit_eqI) (auto simp: bit_and_iff bit_exp_iff)
  have "b + 2 ^ j = or b (2 ^ j)" using d by (rule disjunctive_add_eq_or)
  then have "bit (b + 2 ^ j) k \<longleftrightarrow> bit b k \<or> k = j" by (auto simp: bit_or_iff bit_exp_iff)
  then show ?thesis by (simp add: bit_iff_odd)
qed

lemma bit_fits:
  fixes b :: nat
  assumes "b < 256" and "j < 8" and "\<not> odd (b div 2 ^ j)"
  shows "b + 2 ^ j < 256"
proof -
  have nb: "\<not> bit b j" using assms by (simp add: bit_iff_odd)
  have "and b (2 ^ j) = 0" using nb by (intro bit_eqI) (auto simp: bit_and_iff bit_exp_iff)
  then have eq: "b + 2 ^ j = or b (2 ^ j)" by (rule disjunctive_add_eq_or)
  have "take_bit 8 b = b" using assms(1) by (simp add: take_bit_nat_eq_self)
  moreover have "take_bit 8 (2 ^ j :: nat) = 2 ^ j"
    using assms(2) power_strict_increasing [of j 8 "2::nat"] by (intro take_bit_nat_eq_self) simp
  ultimately have "take_bit 8 (or b (2 ^ j)) = or b (2 ^ j)" by (simp add: take_bit_or)
  then have "or b (2 ^ j) < 2 ^ 8" by (metis take_bit_nat_less_exp)
  then show ?thesis unfolding eq by simp
qed

lemma get_with_bit: "get_bit (with_bit s i) j \<longleftrightarrow> get_bit s j \<or> j = i"
proof -
  define p where "p = s @ replicate (Suc (i div 8) - length s) (char_of (0::nat))"
  define b where "b = byte (p ! (i div 8))"
  have len: "i div 8 < length p" by (simp add: p_def)
  have old: "get_bit p k \<longleftrightarrow> get_bit s k" for k
    by (auto simp: get_bit_def p_def nth_append of_char_of)
  have same: "odd (b div bit_value i) \<longleftrightarrow> get_bit p i" using len by (simp add: get_bit_def b_def)
  show ?thesis
  proof (cases "odd (b div bit_value i)")
    case True
    then show ?thesis using old same by (auto simp: with_bit_def p_def [symmetric] b_def [symmetric] Let_def)
  next
    case False
    have lt: "7 - i mod 8 < 8" by simp
    have "b + bit_value i < 256"
      using bit_fits [of b "7 - i mod 8"] False by (simp add: bit_value_def b_def)
    then have byte: "byte (char_of (b + bit_value i)) = b + bit_value i" by simp
    have w: "with_bit s i = p[i div 8 := char_of (b + bit_value i)]"
      using False by (simp add: with_bit_def p_def [symmetric] b_def [symmetric] Let_def)
    show ?thesis
    proof (cases "j div 8 = i div 8")
      case True
      have "get_bit (with_bit s i) j \<longleftrightarrow> odd ((b + bit_value i) div bit_value j)"
        using len True by (simp only: w get_bit_def byte length_list_update nth_list_update_eq simp_thms)
      also have "\<dots> \<longleftrightarrow> odd (b div bit_value j) \<or> 7 - j mod 8 = 7 - i mod 8"
        using odd_div_bit_add [of b "7 - i mod 8" "7 - j mod 8"] False by (simp add: bit_value_def)
      also have "odd (b div bit_value j) \<longleftrightarrow> get_bit p j" using len True by (simp add: get_bit_def b_def)
      also have "7 - j mod 8 = 7 - i mod 8 \<longleftrightarrow> j = i"
      proof
        assume "7 - j mod 8 = 7 - i mod 8"
        moreover have "j mod 8 < 8" "i mod 8 < 8" by simp_all
        ultimately have "j mod 8 = i mod 8" by linarith
        with True show "j = i" by (metis div_mod_decomp)
      qed simp
      finally show ?thesis using old by simp
    next
      case False
      then have "get_bit (with_bit s i) j \<longleftrightarrow> get_bit p j" by (simp add: w get_bit_def)
      with False old show ?thesis by auto
    qed
  qed
qed

end
