(* ===== verification/Durable_Files.thy ===== *)
theory Durable_Files
  imports Prelude "HOL-Library.List_Lexorder" "HOL-Library.Char_ord"
begin

text \<open>
  The files under an index root and the helpers both artifact writers are made of (\<open>ensureDirectory\<close>,
  \<open>syncDirectory\<close>, \<open>writeDurableFile\<close>, \<open>readRegularFile\<close>, \<open>removeFile\<close>, \<open>directoryEntries\<close> of
  \<open>indexing/segment_store.cpp\<close>; \<open>parsed_batch_writer.cpp\<close> and \<open>parsed_batch_reader.cpp\<close> have their
  own copies). A path is the list of its names below the root, \<open>path + "/" + name\<close> is \<open>path @ [name]\<close>.
  Every system call takes its outcome from the list of events the environment chose; when that is
  used up, calls succeed. A crash stops between two effects; what was written stays (loss of the page
  cache on power failure is not modelled, so \<open>fsync\<close> has only its error).
\<close>

type_synonym fpath = "string list"

datatype node = Dir | File string

datatype io_error = Sys_error | Not_directory | File_invalid

record store_state =
  st_nodes :: "(fpath \<times> node) list"
  st_events :: "outcome list"

definition node_at :: "'a store_state_scheme \<Rightarrow> fpath \<Rightarrow> node option" where
  "node_at s p = map_of (st_nodes s) p"

definition put_node :: "fpath \<Rightarrow> node \<Rightarrow> 'a store_state_scheme \<Rightarrow> 'a store_state_scheme" where
  "put_node p n s = s\<lparr>st_nodes := (p, n) # filter (\<lambda>e. fst e \<noteq> p) (st_nodes s)\<rparr>"

definition delete_node :: "fpath \<Rightarrow> 'a store_state_scheme \<Rightarrow> 'a store_state_scheme" where
  "delete_node p s = s\<lparr>st_nodes := filter (\<lambda>e. fst e \<noteq> p) (st_nodes s)\<rparr>"

definition below :: "fpath \<Rightarrow> fpath \<Rightarrow> bool" where
  "below p q \<longleftrightarrow> take (length p) q = p"

definition move_node :: "fpath \<Rightarrow> fpath \<Rightarrow> 'a store_state_scheme \<Rightarrow> 'a store_state_scheme" where
  "move_node a b s = s\<lparr>st_nodes := map (\<lambda>(p, n). (if below a p then b @ drop (length a) p else p, n))
     (filter (\<lambda>e. \<not> below b (fst e)) (st_nodes s))\<rparr>"

text \<open>The names in a directory, in order.\<close>

definition child_names :: "'a store_state_scheme \<Rightarrow> fpath \<Rightarrow> string list" where
  "child_names s p = sort (remdups (map (\<lambda>e. last (fst e))
     (filter (\<lambda>e. fst e \<noteq> [] \<and> butlast (fst e) = p) (st_nodes s))))"

section \<open>System calls\<close>

definition next_event :: "('a store_state_scheme, 'e, outcome) proc" where
  "next_event s = (case st_events s of
       [] \<Rightarrow> (Ret Io_ok, s)
     | e # es \<Rightarrow> (Ret e, s\<lparr>st_events := es\<rparr>))"

text \<open>\<open>effect\<close> is what the call does when the system lets it, with its own errors.\<close>

definition syscall ::
    "'e \<Rightarrow> ('a store_state_scheme, 'e, 'b) proc \<Rightarrow> ('a store_state_scheme, 'e, 'b) proc" where
  "syscall err effect = bind next_event (\<lambda>e. case e of
       Io_fail \<Rightarrow> throw err
     | Io_intr \<Rightarrow> throw err
     | Io_lost \<Rightarrow> seq effect (throw err)
     | Io_crash \<Rightarrow> crash
     | _ \<Rightarrow> effect)"

definition is_directory :: "fpath \<Rightarrow> ('a store_state_scheme, 'e, bool) proc" where
  "is_directory p = bind next_event (\<lambda>e. case e of
       Io_fail \<Rightarrow> ret False
     | Io_intr \<Rightarrow> ret False
     | Io_lost \<Rightarrow> ret False
     | Io_crash \<Rightarrow> crash
     | _ \<Rightarrow> gets (\<lambda>s. node_at s p = Some Dir))"

text \<open>An existing node is no error of \<open>mkdir\<close> here; a file is found out by the check after it.\<close>

definition mkdir :: "fpath \<Rightarrow> ('a store_state_scheme, io_error, unit) proc" where
  "mkdir p = bind (gets (\<lambda>s. (node_at s p, node_at s (butlast p)))) (\<lambda>(n, parent).
     if n \<noteq> None then ret ()
     else if p = [] \<or> parent \<noteq> Some Dir then throw Sys_error
     else modify (put_node p Dir))"

definition ensure_directory :: "fpath \<Rightarrow> ('a store_state_scheme, io_error, unit) proc" where
  "ensure_directory p = seq (syscall Sys_error (mkdir p))
     (bind (is_directory p) (\<lambda>d. if d then ret () else throw Not_directory))"

definition sync_directory :: "fpath \<Rightarrow> ('a store_state_scheme, io_error, unit) proc" where
  "sync_directory p =
     seq (syscall Sys_error (bind (gets (\<lambda>s. node_at s p)) (\<lambda>n. if n = Some Dir then ret () else throw Sys_error)))
     (seq (syscall Sys_error (ret ())) (syscall Sys_error (ret ())))"

text \<open>
  A loop of \<open>read\<close> or \<open>write\<close> calls over \<open>n\<close> bytes: whether it completed, failed or crashed, how many
  bytes were transferred, and the events left.
\<close>

datatype transfer = Transferred | Transfer_failed | Transfer_crashed

fun transfer_loop :: "nat \<Rightarrow> outcome list \<Rightarrow> transfer \<times> nat \<times> outcome list" where
  "transfer_loop n [] = (Transferred, n, [])"
| "transfer_loop n (e # es) =
     (if n = 0 then (Transferred, 0, e # es)
      else case e of
          Io_ok \<Rightarrow> (Transferred, n, es)
        | Io_fail \<Rightarrow> (Transfer_failed, 0, es)
        | Io_lost \<Rightarrow> (Transfer_failed, 0, es)
        | Io_crash \<Rightarrow> (Transfer_crashed, 0, es)
        | Io_intr \<Rightarrow> transfer_loop n es
        | Io_short k \<Rightarrow> (let count = min n (max 1 k)
            in case transfer_loop (n - count) es of (r, m, es') \<Rightarrow> (r, count + m, es')))"

definition write_all :: "fpath \<Rightarrow> string \<Rightarrow> ('a store_state_scheme, io_error, unit) proc" where
  "write_all p content s = (case transfer_loop (length content) (st_events s) of
     (r, k, es) \<Rightarrow>
       (case r of Transferred \<Rightarrow> Ret () | Transfer_failed \<Rightarrow> Throw Sys_error | Transfer_crashed \<Rightarrow> Crashed,
        put_node p (File (take k content)) (s\<lparr>st_events := es\<rparr>)))"

definition create_file :: "fpath \<Rightarrow> ('a store_state_scheme, io_error, unit) proc" where
  "create_file p = bind (gets (\<lambda>s. (node_at s p, node_at s (butlast p)))) (\<lambda>(n, parent).
     if n \<noteq> None \<or> p = [] \<or> parent \<noteq> Some Dir then throw Sys_error
     else modify (put_node p (File [])))"

definition write_durable_file :: "fpath \<Rightarrow> string \<Rightarrow> ('a store_state_scheme, io_error, unit) proc" where
  "write_durable_file p content =
     seq (syscall Sys_error (create_file p))
     (seq (write_all p content)
     (seq (syscall Sys_error (ret ())) (syscall Sys_error (ret ()))))"

definition read_all :: "string \<Rightarrow> ('a store_state_scheme, io_error, string) proc" where
  "read_all content s = (case transfer_loop (length content) (st_events s) of
     (r, k, es) \<Rightarrow>
       (case r of Transferred \<Rightarrow> Ret content | Transfer_failed \<Rightarrow> Throw Sys_error | Transfer_crashed \<Rightarrow> Crashed,
        s\<lparr>st_events := es\<rparr>))"

definition file_content :: "fpath \<Rightarrow> nat \<Rightarrow> ('a store_state_scheme, io_error, string) proc" where
  "file_content p limit = bind (gets (\<lambda>s. node_at s p)) (\<lambda>n. case n of
       Some (File c) \<Rightarrow> if length c > limit then throw File_invalid else ret c
     | _ \<Rightarrow> throw File_invalid)"

definition read_regular_file :: "fpath \<Rightarrow> nat \<Rightarrow> ('a store_state_scheme, io_error, string) proc" where
  "read_regular_file p limit =
     bind (syscall File_invalid (file_content p limit)) (\<lambda>c.
       seq (syscall Sys_error (ret ()))
       (bind (read_all c) (\<lambda>content. seq (syscall Sys_error (ret ())) (ret content))))"

definition remove_file :: "fpath \<Rightarrow> ('a store_state_scheme, io_error, unit) proc" where
  "remove_file p = syscall Sys_error (bind (gets (\<lambda>s. node_at s p)) (\<lambda>n. case n of
       None \<Rightarrow> ret ()
     | Some Dir \<Rightarrow> throw Sys_error
     | Some (File _) \<Rightarrow> modify (delete_node p)))"

definition remove_directory :: "fpath \<Rightarrow> ('a store_state_scheme, io_error, unit) proc" where
  "remove_directory p = syscall Sys_error (bind (gets (\<lambda>s. (node_at s p, child_names s p))) (\<lambda>(n, names). case n of
       None \<Rightarrow> ret ()
     | Some (File _) \<Rightarrow> throw Sys_error
     | Some Dir \<Rightarrow> if names \<noteq> [] then throw Sys_error else modify (delete_node p)))"

definition rename_directory :: "fpath \<Rightarrow> fpath \<Rightarrow> ('a store_state_scheme, io_error, unit) proc" where
  "rename_directory a b = syscall Sys_error
     (bind (gets (\<lambda>s. (node_at s a, node_at s b, child_names s b, node_at s (butlast b)))) (\<lambda>(na, nb, names, parent).
       if na \<noteq> Some Dir \<or> parent \<noteq> Some Dir \<or> nb \<noteq> None \<and> (nb \<noteq> Some Dir \<or> names \<noteq> [])
       then throw Sys_error else modify (move_node a b)))"

definition directory_entries :: "fpath \<Rightarrow> ('a store_state_scheme, io_error, string list) proc" where
  "directory_entries p =
     bind (syscall Sys_error (bind (gets (\<lambda>s. (node_at s p, child_names s p))) (\<lambda>(n, names).
       if n = Some Dir then ret names else throw Sys_error))) (\<lambda>names.
     seq (syscall Sys_error (ret ())) (seq (syscall Sys_error (ret ())) (ret names)))"

section \<open>The tree\<close>

lemma map_of_filter_key: "map_of (filter (\<lambda>e. fst e \<noteq> p) xs) q = (if q = p then None else map_of xs q)"
  by (induction xs) auto

lemma node_at_put [simp]: "node_at (put_node p n s) q = (if q = p then Some n else node_at s q)"
  by (simp add: node_at_def put_node_def map_of_filter_key)

lemma node_at_delete [simp]: "node_at (delete_node p s) q = (if q = p then None else node_at s q)"
  by (simp add: node_at_def delete_node_def map_of_filter_key)

lemma node_at_events [simp]: "node_at (s\<lparr>st_events := es\<rparr>) q = node_at s q"
  by (simp add: node_at_def)

lemma child_names_events [simp]: "child_names (s\<lparr>st_events := es\<rparr>) p = child_names s p"
  by (simp add: child_names_def)

lemma child_names_iff: "c \<in> set (child_names s p) \<longleftrightarrow> node_at s (p @ [c]) \<noteq> None"
proof -
  have eq: "q \<noteq> [] \<and> butlast q = p \<and> last q = c \<longleftrightarrow> q = p @ [c]" for q :: fpath
    by (cases q rule: rev_cases) auto
  have "c \<in> set (child_names s p) \<longleftrightarrow> (\<exists>e\<in>set (st_nodes s). fst e \<noteq> [] \<and> butlast (fst e) = p \<and> last (fst e) = c)"
    unfolding child_names_def by force
  also have "\<dots> \<longleftrightarrow> p @ [c] \<in> fst ` set (st_nodes s)" unfolding eq by force
  also have "\<dots> \<longleftrightarrow> node_at s (p @ [c]) \<noteq> None" by (metis node_at_def map_of_eq_None_iff)
  finally show ?thesis .
qed

lemma child_names_sorted: "sorted (child_names s p)" "distinct (child_names s p)"
  by (simp_all add: child_names_def)

text \<open>Names are determined by what is there.\<close>

lemma child_names_cong:
  assumes "\<And>c. node_at s (p @ [c]) = None \<longleftrightarrow> node_at t (q @ [c]) = None"
  shows "child_names s p = child_names t q"
proof (rule sorted_distinct_set_unique)
  show "set (child_names s p) = set (child_names t q)"
    by (rule set_eqI) (simp only: child_names_iff assms)
qed (rule child_names_sorted)+

lemma below_append [simp]: "below p (p @ q)"
  by (simp add: below_def)

lemma below_iff: "below p q \<longleftrightarrow> (\<exists>r. q = p @ r)"
  unfolding below_def by (metis append_eq_conv_conj)

section \<open>Normal returns\<close>

text \<open>How a sequence that returns got there.\<close>

named_theorems returns \<open>what a normal return says\<close>

lemma ret_returns [returns]: "ret y s = (Ret x, t) \<longleftrightarrow> x = y \<and> t = s"
  by (auto simp: ret_def)

lemma throw_returns [returns]: "throw e s \<noteq> (Ret x, t)"
  by (simp add: throw_def)

lemma crash_returns [returns]: "crash s \<noteq> (Ret x, t)"
  by (simp add: crash_def)

lemma gets_returns [returns]: "gets f s = (Ret x, t) \<longleftrightarrow> x = f s \<and> t = s"
  by (auto simp: gets_def)

lemma modify_returns [returns]: "modify f s = (Ret x, t) \<longleftrightarrow> t = f s"
  by (auto simp: modify_def)

lemma bind_returns [returns]: "bind m f s = (Ret x, t) \<longleftrightarrow> (\<exists>y u. m s = (Ret y, u) \<and> f y u = (Ret x, t))"
  by (auto simp: bind_def split: prod.splits result.splits)

lemma seq_returns [returns]: "seq m n s = (Ret x, t) \<longleftrightarrow> (\<exists>y u. m s = (Ret y, u) \<and> n u = (Ret x, t))"
  by (simp add: seq_def bind_returns)

lemma if_returns [returns]: "(if b then m else n) s = (Ret x, t) \<longleftrightarrow> (b \<longrightarrow> m s = (Ret x, t)) \<and> (\<not> b \<longrightarrow> n s = (Ret x, t))"
  by simp

text \<open>Two states that differ in their pending events only.\<close>

definition same_files :: "'a store_state_scheme \<Rightarrow> 'a store_state_scheme \<Rightarrow> bool" where
  "same_files s t \<longleftrightarrow> st_nodes t = st_nodes s \<and> store_state.more t = store_state.more s"

lemma same_files_refl [simp]: "same_files s s"
  by (simp add: same_files_def)

lemma same_files_events [simp]: "same_files s (s\<lparr>st_events := es\<rparr>)"
  by (simp add: same_files_def)

lemma same_files_trans: "same_files s t \<Longrightarrow> same_files t u \<Longrightarrow> same_files s u"
  by (simp add: same_files_def)

lemma same_files_node: "same_files s t \<Longrightarrow> node_at t p = node_at s p"
  by (simp add: same_files_def node_at_def)

lemma same_files_child: "same_files s t \<Longrightarrow> child_names t p = child_names s p"
  by (simp add: same_files_def child_names_def)

lemma syscall_returns:
  "syscall err effect s = (Ret x, t) \<longleftrightarrow>
     (case st_events s of [] \<Rightarrow> effect s = (Ret x, t)
      | e # es \<Rightarrow> (e = Io_ok \<or> (\<exists>k. e = Io_short k)) \<and> effect (s\<lparr>st_events := es\<rparr>) = (Ret x, t))"
  by (auto simp: syscall_def next_event_def returns split: list.splits outcome.splits)

lemma syscallE:
  assumes "syscall err effect s = (Ret x, t)"
  obtains u where "same_files s u" "effect u = (Ret x, t)"
proof (cases "st_events s")
  case Nil
  with assms that [of s] show ?thesis by (simp add: syscall_returns)
next
  case (Cons e es)
  with assms that [of "s\<lparr>st_events := es\<rparr>"] show ?thesis by (auto simp: syscall_returns)
qed

lemma syscall_ret: "syscall err (ret ()) s = (Ret x, t) \<Longrightarrow> same_files s t"
  by (auto simp: returns elim!: syscallE)

lemma is_directory_returns: "is_directory p s = (Ret True, t) \<Longrightarrow> same_files s t \<and> node_at t p = Some Dir"
  by (auto simp: is_directory_def returns next_event_def same_files_def node_at_def split: list.splits outcome.splits)

lemma ensure_directory_returns:
  "ensure_directory p s = (Ret x, t) \<Longrightarrow> node_at t p = Some Dir"
  by (auto simp: ensure_directory_def returns dest!: is_directory_returns split: if_splits)

lemma transfer_loop_done: "transfer_loop n es = (Transferred, k, es') \<Longrightarrow> k = n"
proof (induction n es arbitrary: k es' rule: transfer_loop.induct)
  case (2 n e es)
  show ?case
  proof (cases e)
    case (Io_short j)
    show ?thesis
    proof (cases "n = 0")
      case False
      obtain r m es'' where l: "transfer_loop (n - min n (max 1 j)) es = (r, m, es'')" by (metis prod_cases3)
      with "2.prems" False Io_short have "r = Transferred" "k = min n (max 1 j) + m" by (auto simp: Let_def)
      moreover have "m = n - min n (max 1 j)" if "r = Transferred"
        using "2.IH"(2) [OF False Io_short refl, of m es''] l that by simp
      ultimately show ?thesis by simp
    qed (use "2.prems" in simp)
  qed (use "2.prems" "2.IH"(1) in \<open>auto split: if_splits\<close>)
qed simp

lemma write_all_returns: "write_all p c s = (Ret x, t) \<Longrightarrow> node_at t p = Some (File c)"
  by (auto simp: write_all_def split: prod.splits transfer.splits dest!: transfer_loop_done)

lemma write_durable_returns:
  assumes "write_durable_file p c s = (Ret x, t)"
  shows "node_at t p = Some (File c)"
proof -
  obtain u v w where "write_all p c u = (Ret (), v)" and v: "same_files v w" "same_files w t"
    using assms unfolding write_durable_file_def seq_returns by (metis (full_types) old.unit.exhaust syscall_ret)
  from write_all_returns [OF this(1)] same_files_node [OF v(1)] same_files_node [OF v(2)] show ?thesis by simp
qed

lemma read_all_returns: "read_all c s = (Ret x, t) \<Longrightarrow> x = c \<and> same_files s t"
  by (auto simp: read_all_def split: prod.splits transfer.splits)

lemma read_regular_returns:
  assumes "read_regular_file p limit s = (Ret c, t)"
  shows "node_at s p = Some (File c)" "length c \<le> limit" "same_files s t"
proof -
  obtain c' u v w z where c: "syscall File_invalid (file_content p limit) s = (Ret c', u)"
    and o: "syscall Sys_error (ret ()) u = (Ret (), v)" and r: "read_all c' v = (Ret c, w)"
    and z: "syscall Sys_error (ret ()) w = (Ret (), t)"
    using assms unfolding read_regular_file_def bind_returns seq_returns ret_returns
    by (metis (full_types) old.unit.exhaust)
  obtain s' where s': "same_files s s'" "file_content p limit s' = (Ret c', u)" using c by (rule syscallE)
  then have u: "u = s'" "node_at s' p = Some (File c')" "length c' \<le> limit"
    by (auto simp: file_content_def returns split: option.splits node.splits if_splits)
  have "same_files u v" "same_files w t" using o z by (auto dest: syscall_ret)
  with u s' read_all_returns [OF r] show "node_at s p = Some (File c)" "length c \<le> limit" "same_files s t"
    by (auto simp: same_files_node intro: same_files_trans)
qed

lemma remove_file_returns: "remove_file p s = (Ret x, t) \<Longrightarrow> node_at t p = None"
  by (auto simp: remove_file_def returns elim!: syscallE split: option.splits node.splits)

lemma remove_directory_returns: "remove_directory p s = (Ret x, t) \<Longrightarrow> node_at t p = None"
  by (auto simp: remove_directory_def returns elim!: syscallE split: option.splits node.splits if_splits)

lemma directory_entries_returns:
  assumes "directory_entries p s = (Ret ns, t)"
  shows "ns = child_names s p" "node_at s p = Some Dir" "same_files s t"
proof -
  let ?e = "bind (gets (\<lambda>s. (node_at s p, child_names s p))) (\<lambda>(n, names).
       if n = Some Dir then ret names else throw Sys_error)"
  obtain ns' u v where c: "syscall Sys_error ?e s = (Ret ns', u)"
    and o: "syscall Sys_error (ret ()) u = (Ret (), v)" "syscall Sys_error (ret ()) v = (Ret (), t)" "ns = ns'"
    using assms unfolding directory_entries_def bind_returns [of "syscall Sys_error ?e"] seq_returns ret_returns
    by (metis (full_types) old.unit.exhaust)
  obtain s' where s': "same_files s s'" "?e s' = (Ret ns', u)" using c by (rule syscallE)
  then have u: "u = s'" "node_at s' p = Some Dir" "ns' = child_names s' p"
    by (auto simp: returns split: if_splits)
  have "same_files u v" "same_files v t" using o by (auto dest: syscall_ret)
  with u s' o(3) show "ns = child_names s p" "node_at s p = Some Dir" "same_files s t"
    by (auto simp: same_files_node same_files_child intro: same_files_trans)
qed

section \<open>What a computation leaves alone\<close>

text \<open>
  \<open>touches P m\<close>: whatever happens, \<open>m\<close> changes nodes inside \<open>P\<close> only, and no part of the state but the
  files and the events.
\<close>

definition touches :: "(fpath \<Rightarrow> bool) \<Rightarrow> ('a store_state_scheme, 'e, 'b) proc \<Rightarrow> bool" where
  "touches P m \<longleftrightarrow> (\<forall>s. store_state.more (snd (m s)) = store_state.more s \<and>
     (\<forall>q. \<not> P q \<longrightarrow> node_at (snd (m s)) q = node_at s q))"

named_theorems frame \<open>what operations touch\<close>

lemma touchesD:
  assumes "touches P m" and "m s = (r, t)"
  shows "store_state.more t = store_state.more s" and "\<not> P q \<Longrightarrow> node_at t q = node_at s q"
  using assms unfolding touches_def by (metis snd_conv)+

lemma touches_mono: "touches P m \<Longrightarrow> (\<And>q. P q \<Longrightarrow> Q q) \<Longrightarrow> touches Q m"
  unfolding touches_def by blast

lemma touches_ret [frame]: "touches P (ret x)" and touches_throw [frame]: "touches P (throw e)"
  and touches_crash [frame]: "touches P crash" and touches_gets [frame]: "touches P (gets f)"
  by (simp_all add: touches_def ret_def throw_def crash_def gets_def)

lemma touches_bind [frame]:
  assumes "touches P m" and "\<And>x. touches P (f x)"
  shows "touches P (bind m f)"
  unfolding touches_def
proof (intro allI conjI impI)
  fix s q
  obtain r t where m: "m s = (r, t)" by (cases "m s")
  note d = touchesD [OF assms(1) m]
  show "store_state.more (snd (bind m f s)) = store_state.more s"
  proof (cases r)
    case (Ret x)
    with m d touchesD(1) [OF assms(2) [of x], of t] show ?thesis
      by (cases "f x t") (simp add: bind_def)
  qed (use m d in \<open>simp_all add: bind_def\<close>)
  assume q: "\<not> P q"
  show "node_at (snd (bind m f s)) q = node_at s q"
  proof (cases r)
    case (Ret x)
    with m d(2) [OF q] touchesD(2) [OF assms(2) [of x] _ q, of t] show ?thesis
      by (cases "f x t") (simp add: bind_def)
  qed (use m d q in \<open>simp_all add: bind_def\<close>)
qed

lemma touches_seq [frame]: "touches P m \<Longrightarrow> touches P n \<Longrightarrow> touches P (seq m n)"
  unfolding seq_def by (rule touches_bind)

lemma touches_catch [frame]:
  assumes "touches P m" and "\<And>e. touches P (h e)"
  shows "touches P (catch m h)"
  unfolding touches_def
proof (intro allI conjI impI)
  fix s q
  obtain r t where m: "m s = (r, t)" by (cases "m s")
  note d = touchesD [OF assms(1) m]
  show "store_state.more (snd (catch m h s)) = store_state.more s"
  proof (cases r)
    case (Throw e)
    with m d touchesD(1) [OF assms(2) [of e], of t] show ?thesis
      by (cases "h e t") (simp add: catch_def)
  qed (use m d in \<open>simp_all add: catch_def\<close>)
  assume q: "\<not> P q"
  show "node_at (snd (catch m h s)) q = node_at s q"
  proof (cases r)
    case (Throw e)
    with m d(2) [OF q] touchesD(2) [OF assms(2) [of e] _ q, of t] show ?thesis
      by (cases "h e t") (simp add: catch_def)
  qed (use m d q in \<open>simp_all add: catch_def\<close>)
qed

lemma touches_if [frame]: "touches P m \<Longrightarrow> touches P n \<Longrightarrow> touches P (if b then m else n)"
  by simp

lemma touches_next_event [frame]: "touches P next_event"
  by (auto simp: touches_def next_event_def split: list.splits)

lemma touches_syscall [frame]: "touches P effect \<Longrightarrow> touches P (syscall err effect)"
  unfolding syscall_def by (intro touches_bind touches_next_event) (auto intro!: frame split: outcome.splits)

lemma touches_put: "P p \<Longrightarrow> touches P (modify (put_node p n))"
  by (auto simp: touches_def modify_def) (simp add: put_node_def)

lemma touches_delete: "P p \<Longrightarrow> touches P (modify (delete_node p))"
  by (auto simp: touches_def modify_def) (simp add: delete_node_def)

lemma touches_is_directory [frame]: "touches P (is_directory p)"
  unfolding is_directory_def by (intro touches_bind touches_next_event) (auto intro!: frame split: outcome.splits)

lemma touches_ensure: "P p \<Longrightarrow> touches P (ensure_directory p)"
  unfolding ensure_directory_def mkdir_def
  by (intro frame) (auto intro!: frame touches_put split: prod.splits)

lemma touches_sync [frame]: "touches P (sync_directory p)"
  unfolding sync_directory_def by (intro frame)

lemma touches_write: "P p \<Longrightarrow> touches P (write_durable_file p c)"
proof -
  assume p: "P p"
  have "touches P (write_all p c)"
    using p by (auto simp: touches_def write_all_def split: prod.splits) (simp add: put_node_def)
  then show ?thesis
    unfolding write_durable_file_def create_file_def
    by (intro frame) (auto intro!: frame touches_put p split: prod.splits)
qed

lemma touches_read [frame]: "touches P (read_regular_file p limit)"
proof -
  have "touches P (read_all c)" for c
    by (auto simp: touches_def read_all_def split: prod.splits)
  then show ?thesis
    unfolding read_regular_file_def file_content_def
    by (intro frame) (auto intro!: frame split: option.splits node.splits)
qed

lemma touches_remove_file: "P p \<Longrightarrow> touches P (remove_file p)"
  unfolding remove_file_def by (intro frame) (auto intro!: frame touches_delete split: option.splits node.splits)

lemma touches_remove_directory: "P p \<Longrightarrow> touches P (remove_directory p)"
  unfolding remove_directory_def
  by (intro frame) (auto intro!: frame touches_delete split: option.splits node.splits prod.splits)

lemma touches_entries [frame]: "touches P (directory_entries p)"
  unfolding directory_entries_def by (intro frame) (auto intro!: frame split: prod.splits)

section \<open>Renaming\<close>

lemma node_at_move:
  assumes ab: "\<not> below a b" "\<not> below b a"
  shows "node_at (move_node a b s) q =
    (if below b q then node_at s (a @ drop (length b) q) else if below a q then None else node_at s q)"
proof -
  let ?f = "\<lambda>p. if below a p then b @ drop (length a) p else p"
  have key: "?f p = q \<longleftrightarrow> (if below b q then p = a @ drop (length b) q else \<not> below a q \<and> p = q)"
    if "\<not> below b p" for p
    using that by (auto simp: below_iff)
  have none: "\<not> below b (a @ r)" for r
    using ab by (auto simp: below_iff append_eq_append_conv2)
  have "map_of (map (\<lambda>(p, n). (?f p, n)) (filter (\<lambda>e. \<not> below b (fst e)) xs)) q =
      (if below b q then map_of xs (a @ drop (length b) q) else if below a q then None else map_of xs q)"
    for xs :: "(fpath \<times> node) list"
  proof (induction xs)
    case (Cons e xs)
    obtain p n where e: "e = (p, n)" by (cases e)
    show ?case
    proof (cases "below b p")
      case True
      then have "a @ drop (length b) q \<noteq> p" using none by metis
      with True Cons show ?thesis by (auto simp: e)
    next
      case False
      with Cons key [OF False] show ?thesis by (auto simp: e)
    qed
  qed simp
  then show ?thesis by (simp add: node_at_def move_node_def)
qed

lemma rename_returns:
  assumes "rename_directory a b s = (Ret x, t)" and ab: "\<not> below a b" "\<not> below b a"
  shows "node_at s a = Some Dir"
    and "node_at t q = (if below b q then node_at s (a @ drop (length b) q) else if below a q then None else node_at s q)"
    and "child_names t b = child_names s a"
proof -
  obtain u where u: "same_files s u" "node_at u a = Some Dir" "t = move_node a b u"
    using assms(1) by (auto simp: rename_directory_def returns elim!: syscallE split: if_splits)
  show dir: "node_at s a = Some Dir" using u by (simp add: same_files_node)
  have moved: "node_at t q = (if below b q then node_at s (a @ drop (length b) q) else if below a q then None else node_at s q)"
    for q using u by (simp add: same_files_node node_at_move [OF ab])
  show "node_at t q = (if below b q then node_at s (a @ drop (length b) q) else if below a q then None else node_at s q)"
    by (rule moved)
  show "child_names t b = child_names s a"
    by (rule child_names_cong) (simp add: moved)
qed

lemma touches_rename:
  assumes ab: "\<not> below a b" "\<not> below b a" and P: "\<And>q. below a q \<or> below b q \<Longrightarrow> P q"
  shows "touches P (rename_directory a b)"
proof -
  have "touches P (modify (move_node a b))"
    using P by (auto simp: touches_def modify_def node_at_move [OF ab]) (simp add: move_node_def)
  then show ?thesis
    unfolding rename_directory_def by (intro frame) (auto intro!: frame split: prod.splits)
qed

section \<open>Errors of a component\<close>

text \<open>The same computation with its errors embedded into a larger error type.\<close>

definition map_error :: "('e \<Rightarrow> 'f) \<Rightarrow> ('s, 'e, 'b) proc \<Rightarrow> ('s, 'f, 'b) proc" where
  "map_error f m s = (case m s of
       (Ret x, t) \<Rightarrow> (Ret x, t)
     | (Throw e, t) \<Rightarrow> (Throw (f e), t)
     | (Crashed, t) \<Rightarrow> (Crashed, t))"

lemma map_error_returns [returns]: "map_error f m s = (Ret x, t) \<longleftrightarrow> m s = (Ret x, t)"
  by (auto simp: map_error_def split: prod.splits result.splits)

lemma touches_map_error [frame]: "touches P m \<Longrightarrow> touches P (map_error f m)"
  by (auto simp: touches_def map_error_def split: prod.splits result.splits) (metis snd_conv)+

end
