(* ===== verification/Ds_World.thy ===== *)
theory Ds_World
  imports Redis_Model Durable_Files Time_Utils Json_Model Binary_Format
begin

text \<open>
  The world of the ingest service (\<open>01_SMT_DataStream\<close>): the files below the service's file system
  root, the Redis database, the MySQL tables it reads and writes (\<open>migrations/\<close>), the clock and the
  random source. Every call to one of them takes its outcome from the pending events, as in
  \<open>Durable_Files\<close>; a Redis or MySQL call that fails may have taken effect. The clock moves forward by
  an amount the environment chooses at every reading and at every Redis command.
\<close>

section \<open>Business codes\<close>

datatype ds_code =
    Success | Invalid_argument | Auth_required | Signature_invalid | Timestamp_expired
  | Request_replayed | Device_disabled | Device_not_found | Collector_device_mismatch
  | Upload_not_found | Upload_device_mismatch | Upload_state_conflict | Chunk_content_conflict
  | File_too_large | Chunk_too_large | Upload_limit_exceeded | Storage_capacity_exceeded
  | Chunks_incomplete | File_integrity_mismatch | Invalid_cursor | Archive_not_found
  | Ds_operator_token_invalid | Ds_service_not_ready | Mysql_unavailable | Redis_unavailable
  | Ds_storage_io_error

fun ds_code_name :: "ds_code \<Rightarrow> string" where
  "ds_code_name Success = ''OK''"
| "ds_code_name Invalid_argument = ''INVALID_ARGUMENT''"
| "ds_code_name Auth_required = ''AUTH_REQUIRED''"
| "ds_code_name Signature_invalid = ''SIGNATURE_INVALID''"
| "ds_code_name Timestamp_expired = ''TIMESTAMP_EXPIRED''"
| "ds_code_name Request_replayed = ''REQUEST_REPLAYED''"
| "ds_code_name Device_disabled = ''DEVICE_DISABLED''"
| "ds_code_name Device_not_found = ''DEVICE_NOT_FOUND''"
| "ds_code_name Collector_device_mismatch = ''COLLECTOR_DEVICE_MISMATCH''"
| "ds_code_name Upload_not_found = ''UPLOAD_NOT_FOUND''"
| "ds_code_name Upload_device_mismatch = ''UPLOAD_DEVICE_MISMATCH''"
| "ds_code_name Upload_state_conflict = ''UPLOAD_STATE_CONFLICT''"
| "ds_code_name Chunk_content_conflict = ''CHUNK_CONTENT_CONFLICT''"
| "ds_code_name File_too_large = ''FILE_TOO_LARGE''"
| "ds_code_name Chunk_too_large = ''CHUNK_TOO_LARGE''"
| "ds_code_name Upload_limit_exceeded = ''UPLOAD_LIMIT_EXCEEDED''"
| "ds_code_name Storage_capacity_exceeded = ''STORAGE_CAPACITY_EXCEEDED''"
| "ds_code_name Chunks_incomplete = ''CHUNKS_INCOMPLETE''"
| "ds_code_name File_integrity_mismatch = ''FILE_INTEGRITY_MISMATCH''"
| "ds_code_name Invalid_cursor = ''INVALID_CURSOR''"
| "ds_code_name Archive_not_found = ''ARCHIVE_NOT_FOUND''"
| "ds_code_name Ds_operator_token_invalid = ''OPERATOR_TOKEN_INVALID''"
| "ds_code_name Ds_service_not_ready = ''SERVICE_NOT_READY''"
| "ds_code_name Mysql_unavailable = ''MYSQL_UNAVAILABLE''"
| "ds_code_name Redis_unavailable = ''REDIS_UNAVAILABLE''"
| "ds_code_name Ds_storage_io_error = ''STORAGE_IO_ERROR''"

fun ds_http_status :: "ds_code \<Rightarrow> nat" where
  "ds_http_status Success = 200"
| "ds_http_status Invalid_argument = 400"
| "ds_http_status Invalid_cursor = 400"
| "ds_http_status Auth_required = 401"
| "ds_http_status Signature_invalid = 401"
| "ds_http_status Timestamp_expired = 401"
| "ds_http_status Ds_operator_token_invalid = 401"
| "ds_http_status Device_disabled = 403"
| "ds_http_status Collector_device_mismatch = 403"
| "ds_http_status Upload_device_mismatch = 403"
| "ds_http_status Device_not_found = 404"
| "ds_http_status Upload_not_found = 404"
| "ds_http_status Archive_not_found = 404"
| "ds_http_status Request_replayed = 409"
| "ds_http_status Upload_state_conflict = 409"
| "ds_http_status Chunk_content_conflict = 409"
| "ds_http_status Chunks_incomplete = 409"
| "ds_http_status File_too_large = 413"
| "ds_http_status Chunk_too_large = 413"
| "ds_http_status Upload_limit_exceeded = 429"
| "ds_http_status Storage_capacity_exceeded = 507"
| "ds_http_status File_integrity_mismatch = 422"
| "ds_http_status Ds_storage_io_error = 500"
| "ds_http_status Ds_service_not_ready = 503"
| "ds_http_status Mysql_unavailable = 503"
| "ds_http_status Redis_unavailable = 503"

section \<open>Tables\<close>

record line_row =
  ln_line_id :: string
  ln_enabled :: bool

record station_row =
  sn_station_id :: string
  sn_line_id :: string
  sn_enabled :: bool

record device_row =
  dv_device_id :: string
  dv_station_id :: string
  dv_software_version :: "string option"
  dv_hmac_secret :: string
  dv_enabled :: bool
  dv_last_seen_at :: "string option"

record binding_row =
  bd_collector_id :: string
  bd_device_id :: string
  bd_enabled :: bool

text \<open>\<open>ArchiveRecord\<close>, which is also the row of \<open>archive_file\<close>; an empty string is a NULL column.\<close>

record archive_entry =
  ar_archive_id :: u64
  ar_upload_id :: string
  ar_line_id :: string
  ar_station_id :: string
  ar_device_id :: string
  ar_collector_id :: string
  ar_work_order :: string
  ar_product_sn :: string
  ar_file_type :: string
  ar_result :: string
  ar_original_filename :: string
  ar_relative_path :: string
  ar_file_size :: u64
  ar_file_sha256 :: string
  ar_produced_at :: string
  ar_archived_at :: string
  ar_archived_at_milliseconds :: int

record ds_world = store_state +
  ds_clock :: int
  ds_ticks :: "nat list"
  ds_random :: "string option list"
  ds_redis :: redis_db
  ds_lines :: "line_row list"
  ds_stations :: "station_row list"
  ds_devices :: "device_row list"
  ds_bindings :: "binding_row list"
  ds_archives :: "archive_entry list"
  ds_next_archive :: u64
  ds_bavail :: u64
  ds_blocks :: u64
  ds_frsize :: u64

section \<open>Clock, Redis, MySQL\<close>

definition advance_clock :: "'w ds_world_scheme \<Rightarrow> 'w ds_world_scheme" where
  "advance_clock w = (case ds_ticks w of
       [] \<Rightarrow> w
     | d # ds \<Rightarrow> w\<lparr>ds_clock := ds_clock w + int d, ds_ticks := ds\<rparr>)"

definition read_clock :: "('w ds_world_scheme, 'e, int) proc" where
  "read_clock = seq (modify advance_clock) (gets ds_clock)"

text \<open>\<open>duration_cast<seconds>\<close> truncates towards zero.\<close>

definition unix_seconds :: "int \<Rightarrow> int" where
  "unix_seconds ms = sgn ms * (\<bar>ms\<bar> div 1000)"

definition int_to_string :: "int \<Rightarrow> string" where
  "int_to_string n = (if n < 0 then ''-'' @ to_string (nat (- n)) else to_string (nat n))"

definition current_unix_seconds :: "('w ds_world_scheme, 'e, int) proc" where
  "current_unix_seconds = bind read_clock (\<lambda>ms. ret (unix_seconds ms))"

text \<open>
  A Redis command: \<open>None\<close> is a task that did not succeed, with or without effect on the server.
\<close>

definition redis_effect :: "(int \<Rightarrow> redis_db \<Rightarrow> 'r \<times> redis_db) \<Rightarrow> ('w ds_world_scheme, 'e, 'r) proc" where
  "redis_effect f w = (let u = advance_clock w in
     case f (ds_clock u) (ds_redis u) of (x, r) \<Rightarrow> (Ret x, u\<lparr>ds_redis := r\<rparr>))"

definition redis_call :: "(int \<Rightarrow> redis_db \<Rightarrow> 'r \<times> redis_db) \<Rightarrow> ('w ds_world_scheme, 'e, 'r option) proc" where
  "redis_call f = bind next_event (\<lambda>e. case e of
       Io_fail \<Rightarrow> ret None
     | Io_intr \<Rightarrow> ret None
     | Io_lost \<Rightarrow> seq (redis_effect f) (ret None)
     | Io_crash \<Rightarrow> crash
     | _ \<Rightarrow> bind (redis_effect f) (\<lambda>x. ret (Some x)))"

text \<open>A MySQL query and an update; \<open>None\<close> is a failed task or an error packet.\<close>

definition mysql_query :: "('w ds_world_scheme \<Rightarrow> 'r) \<Rightarrow> ('w ds_world_scheme, 'e, 'r option) proc" where
  "mysql_query f = bind next_event (\<lambda>e. case e of
       Io_fail \<Rightarrow> ret None
     | Io_intr \<Rightarrow> ret None
     | Io_lost \<Rightarrow> ret None
     | Io_crash \<Rightarrow> crash
     | _ \<Rightarrow> gets (\<lambda>w. Some (f w)))"

definition mysql_update ::
    "('w ds_world_scheme \<Rightarrow> 'r \<times> 'w ds_world_scheme) \<Rightarrow> ('w ds_world_scheme, 'e, 'r option) proc" where
  "mysql_update f = bind next_event (\<lambda>e. case e of
       Io_fail \<Rightarrow> ret None
     | Io_intr \<Rightarrow> ret None
     | Io_lost \<Rightarrow> seq (\<lambda>w. (Ret (), snd (f w))) (ret None)
     | Io_crash \<Rightarrow> crash
     | _ \<Rightarrow> (\<lambda>w. case f w of (x, v) \<Rightarrow> (Ret (Some x), v)))"

section \<open>Chains of tasks\<close>

text \<open>
  A request is served by a series of Workflow tasks: the callback of each decides what follows. Between
  two tasks any other request may run one of its own. A chain is that structure: it has answered, was
  killed with the process (an exception in a callback ends it too), or does one atomic task and goes on.
\<close>

datatype ('s, 'r) chain = Finished 'r | Killed | Step "'s \<Rightarrow> 's \<times> ('s, 'r) chain"

definition task :: "('s, unit, 'a) proc \<Rightarrow> ('a \<Rightarrow> ('s, 'r) chain) \<Rightarrow> ('s, 'r) chain" where
  "task m k = Step (\<lambda>s. case m s of (Ret x, t) \<Rightarrow> (t, k x) | (Throw e, t) \<Rightarrow> (t, Killed) | (Crashed, t) \<Rightarrow> (t, Killed))"

text \<open>A chain run by itself.\<close>

primrec run_chain :: "('s, 'r) chain \<Rightarrow> 's \<Rightarrow> 'r option \<times> 's" where
  "run_chain (Finished r) = (\<lambda>s. (Some r, s))"
| "run_chain Killed = (\<lambda>s. (None, s))"
| "run_chain (Step f) = (\<lambda>s. (\<lambda>(t, g). g t) ((map_prod id run_chain \<circ> f) s))"

section \<open>Identifiers\<close>

definition is_smt_identifier :: "string \<Rightarrow> bool" where
  "is_smt_identifier value =
     (if length value < 2 \<or> length value > 64 then False
      else list_all (\<lambda>c. is_upper c \<or> is_digit c \<or> c = CHR ''_'' \<or> c = CHR ''-'') value)"

definition is_printable_ascii :: "string \<Rightarrow> nat \<Rightarrow> bool" where
  "is_printable_ascii value maximum =
     (if value = [] \<or> length value > maximum then False
      else list_all (\<lambda>c. \<not> (byte c < 0x20 \<or> byte c > 0x7e)) value)"

definition is_lower_hex_digest :: "string \<Rightarrow> bool" where
  "is_lower_hex_digest value =
     (if length value \<noteq> 64 then False
      else list_all (\<lambda>c. is_digit c \<or> byte c \<ge> 97 \<and> byte c \<le> 102) value)"

text \<open>The HTTP request as the handlers read it.\<close>

record http_request =
  rq_method :: string
  rq_path :: string
  rq_headers :: "(string \<times> string) list"
  rq_body :: string
  rq_params :: "(string \<times> string) list"
  rq_json :: bool
  rq_octet_stream :: bool
  rq_query :: "(string \<times> string) list"

definition header :: "http_request \<Rightarrow> string \<Rightarrow> string" where
  "header rq name = (case map_of (rq_headers rq) name of None \<Rightarrow> '''' | Some v \<Rightarrow> v)"

definition has_header :: "http_request \<Rightarrow> string \<Rightarrow> bool" where
  "has_header rq name \<longleftrightarrow> map_of (rq_headers rq) name \<noteq> None"

definition param :: "http_request \<Rightarrow> string \<Rightarrow> string" where
  "param rq name = (case map_of (rq_params rq) name of None \<Rightarrow> '''' | Some v \<Rightarrow> v)"

section \<open>Files of the service\<close>

text \<open>A path string names the node of its components.\<close>

fun path_parts :: "string \<Rightarrow> string list" where
  "path_parts [] = [[]]"
| "path_parts (c # s) = (if c = CHR ''/'' then [] # path_parts s
     else (c # hd (path_parts s)) # tl (path_parts s))"

definition path_of :: "string \<Rightarrow> fpath" where
  "path_of s = filter (\<lambda>p. p \<noteq> []) (path_parts s)"

lemma path_parts_nonempty [simp]: "path_parts s \<noteq> []"
  by (cases s) auto

lemma path_parts_append: "path_parts (a @ CHR ''/'' # b) = path_parts a @ path_parts b"
  by (induction a) auto

lemma path_of_append: "path_of (a @ CHR ''/'' # b) = path_of a @ path_of b"
  by (simp add: path_of_def path_parts_append)

section \<open>Laws of the world\<close>

lemma advance_clock_mono: "ds_clock w \<le> ds_clock (advance_clock w)"
  by (simp add: advance_clock_def split: list.splits)

lemma advance_clock_simps [simp]:
  "ds_redis (advance_clock w) = ds_redis w" "st_nodes (advance_clock w) = st_nodes w"
  "st_events (advance_clock w) = st_events w" "ds_archives (advance_clock w) = ds_archives w"
  "ds_next_archive (advance_clock w) = ds_next_archive w" "ds_devices (advance_clock w) = ds_devices w"
  "ds_stations (advance_clock w) = ds_stations w" "ds_lines (advance_clock w) = ds_lines w"
  "ds_bindings (advance_clock w) = ds_bindings w" "ds_random (advance_clock w) = ds_random w"
  "ds_bavail (advance_clock w) = ds_bavail w" "ds_blocks (advance_clock w) = ds_blocks w"
  "ds_frsize (advance_clock w) = ds_frsize w" "node_at (advance_clock w) p = node_at w p"
  by (simp_all add: advance_clock_def node_at_def split: list.splits)

lemma node_at_world [simp]:
  "node_at (w\<lparr>ds_redis := r\<rparr>) p = node_at w p" "node_at (w\<lparr>ds_archives := a\<rparr>) p = node_at w p"
  "node_at (w\<lparr>ds_next_archive := n\<rparr>) p = node_at w p" "node_at (w\<lparr>ds_random := rs\<rparr>) p = node_at w p"
  "node_at (w\<lparr>ds_devices := d\<rparr>) p = node_at w p" "node_at (w\<lparr>ds_clock := c\<rparr>) p = node_at w p"
  "node_at (w\<lparr>ds_ticks := t\<rparr>) p = node_at w p"
  by (simp_all add: node_at_def)

lemma run_task:
  "run_chain (task m k) s = (case m s of (Ret x, t) \<Rightarrow> run_chain (k x) t | (Throw e, t) \<Rightarrow> (None, t)
     | (Crashed, t) \<Rightarrow> (None, t))"
  by (simp add: task_def split: prod.splits result.splits)

lemma task_if [simp]: "run_chain (if b then c else d) = (if b then run_chain c else run_chain d)"
  by simp

end
