(* ===== verification/Ds_Json.thy ===== *)
theory Ds_Json
  imports Ds_World
begin

text \<open>
  The JSON library as the ingest service and the collector use it: beside the operations of \<open>Json_Model\<close>,
  null values, the conversion \<open>get<std::int64_t>\<close> (\<open>dj_get_integer\<close> asks \<open>is_number_integer\<close> first), reading one value from a stream (\<open>dj_read\<close>), and whether
  \<open>dump\<close> returns (\<open>dj_dumps\<close>; it throws on a string that is not UTF-8). The checks every reader of the
  service repeats are here.
\<close>

record 'j ds_json = "'j json_lib" +
  dj_null :: 'j
  dj_is_null :: "'j \<Rightarrow> bool"
  dj_to_int64 :: "'j \<Rightarrow> int option"
  dj_get_integer :: "'j \<Rightarrow> int option"
  dj_read :: "string \<Rightarrow> 'j option"
  dj_dumps :: "'j \<Rightarrow> bool"

definition ds_json_laws :: "'j ds_json \<Rightarrow> bool" where
  "ds_json_laws dj \<longleftrightarrow> json_laws (json_lib.truncate dj) \<and>
     dj_is_null dj (dj_null dj) \<and> jl_get_string dj (dj_null dj) = None \<and>
     (\<forall>s. \<not> dj_is_null dj (jl_string dj s)) \<and>
     (\<forall>n. - (2 ^ 63) \<le> n \<and> n < 2 ^ 63 \<longrightarrow> dj_to_int64 dj (jl_integer dj n) = Some n) \<and>
     (\<forall>v. dj_dumps dj v \<longrightarrow> dj_read dj (jl_dump dj v) = Some v)"

lemma ds_json_base:
  assumes "ds_json_laws dj"
  shows "distinct (map fst kvs) \<Longrightarrow> jl_size dj (jl_object dj kvs) = Some (length kvs)"
    "distinct (map fst kvs) \<Longrightarrow> jl_at dj (jl_object dj kvs) k = map_of kvs k"
    "distinct (map fst kvs) \<Longrightarrow> \<exists>ks. jl_keys dj (jl_object dj kvs) = Some ks \<and> set ks = fst ` set kvs"
    "jl_get_unsigned dj (jl_unsigned dj n) = Some n" "jl_to_u64 dj (jl_unsigned dj n) = Some n"
    "jl_get_string dj (jl_string dj s) = Some s" "jl_elements dj (jl_array dj xs) = Some xs"
proof -
  have l: "json_laws (json_lib.truncate dj)" using assms by (simp add: ds_json_laws_def)
  show "distinct (map fst kvs) \<Longrightarrow> jl_size dj (jl_object dj kvs) = Some (length kvs)"
    "distinct (map fst kvs) \<Longrightarrow> jl_at dj (jl_object dj kvs) k = map_of kvs k"
    "distinct (map fst kvs) \<Longrightarrow> \<exists>ks. jl_keys dj (jl_object dj kvs) = Some ks \<and> set ks = fst ` set kvs"
    using json_object [OF l, of kvs] by (simp_all add: json_lib.truncate_def)
  show "jl_get_unsigned dj (jl_unsigned dj n) = Some n" "jl_to_u64 dj (jl_unsigned dj n) = Some n"
    "jl_get_string dj (jl_string dj s) = Some s" "jl_elements dj (jl_array dj xs) = Some xs"
    using json_values [OF l] by (simp_all add: json_lib.truncate_def)
qed

text \<open>An object with exactly the expected members.\<close>

definition exact_fields :: "'j ds_json \<Rightarrow> string list \<Rightarrow> 'j \<Rightarrow> bool" where
  "exact_fields dj expected v \<longleftrightarrow> (case jl_keys dj v of
       None \<Rightarrow> False
     | Some ks \<Rightarrow> jl_size dj v = Some (length expected) \<and> list_all (\<lambda>k. k \<in> set expected) ks)"

definition string_member :: "'j ds_json \<Rightarrow> 'j \<Rightarrow> string \<Rightarrow> string option" where
  "string_member dj v k = Option.bind (jl_at dj v k) (jl_get_string dj)"

definition unsigned_member :: "'j ds_json \<Rightarrow> 'j \<Rightarrow> string \<Rightarrow> u64 option" where
  "unsigned_member dj v k = Option.bind (jl_at dj v k) (jl_get_unsigned dj)"

definition int64_member :: "'j ds_json \<Rightarrow> 'j \<Rightarrow> string \<Rightarrow> int option" where
  "int64_member dj v k = Option.bind (jl_at dj v k) (dj_to_int64 dj)"

text \<open>A member that is a string or null: \<open>Some None\<close> for null, \<open>None\<close> for another type.\<close>

definition nullable_member :: "'j ds_json \<Rightarrow> 'j \<Rightarrow> string \<Rightarrow> string option option" where
  "nullable_member dj v k = Option.bind (jl_at dj v k) (\<lambda>m.
     if dj_is_null dj m then Some None else map_option Some (jl_get_string dj m))"

definition nullable_json :: "'j ds_json \<Rightarrow> string \<Rightarrow> 'j" where
  "nullable_json dj s = (if s = '''' then dj_null dj else jl_string dj s)"

lemma exact_fields_object:
  assumes "ds_json_laws dj" and "distinct (map fst kvs)" and "map fst kvs = expected"
  shows "exact_fields dj expected (jl_object dj kvs)"
  using ds_json_base(1,3) [OF assms(1,2)] assms(3) by (auto simp: exact_fields_def list_all_iff)

section \<open>Responses\<close>

record 'j api_response =
  rp_status :: nat
  rp_request_id :: string
  rp_body :: 'j

definition make_api_response :: "'j ds_json \<Rightarrow> ds_code \<Rightarrow> string \<Rightarrow> string \<Rightarrow> 'j \<Rightarrow> 'j" where
  "make_api_response dj code message request_id data = jl_object dj
     [(''code'', jl_string dj (ds_code_name code)), (''message'', jl_string dj message),
      (''request_id'', jl_string dj request_id), (''data'', data)]"

definition send_api_response :: "'j ds_json \<Rightarrow> ds_code \<Rightarrow> string \<Rightarrow> string \<Rightarrow> 'j \<Rightarrow> 'j api_response" where
  "send_api_response dj code message request_id data =
     \<lparr>rp_status = ds_http_status code, rp_request_id = request_id,
      rp_body = make_api_response dj code message request_id data\<rparr>"

text \<open>An answer without data, as every early return of the handlers gives.\<close>

definition refuse :: "'j ds_json \<Rightarrow> ds_code \<Rightarrow> string \<Rightarrow> string \<Rightarrow> 'j api_response" where
  "refuse dj code message request_id = send_api_response dj code message request_id (dj_null dj)"

section \<open>A sample library\<close>

datatype ds_value = Dobject "(string \<times> ds_value) list" | Darray "ds_value list" | Dunsigned u64
  | Dinteger int | Ddouble real | Dstring string | Dbool bool | Dnull

definition ds_sample_json :: "(string \<times> ds_value) list \<Rightarrow> ds_value ds_json" where
  "ds_sample_json texts = \<lparr>jl_parse = map_of texts,
     jl_dump = (\<lambda>j. case find (\<lambda>(s, v). v = j) texts of None \<Rightarrow> ''null'' | Some (s, v) \<Rightarrow> s),
     jl_dump_pretty = (\<lambda>j. case find (\<lambda>(s, v). v = j) texts of None \<Rightarrow> ''null'' | Some (s, v) \<Rightarrow> s),
     jl_object = Dobject, jl_array = Darray, jl_unsigned = Dunsigned, jl_integer = Dinteger,
     jl_double = Ddouble, jl_string = Dstring, jl_bool = Dbool,
     jl_size = (\<lambda>v. case v of Dobject kvs \<Rightarrow> Some (length kvs) | _ \<Rightarrow> None),
     jl_keys = (\<lambda>v. case v of Dobject kvs \<Rightarrow> Some (map fst kvs) | _ \<Rightarrow> None),
     jl_at = (\<lambda>v k. case v of Dobject kvs \<Rightarrow> map_of kvs k | _ \<Rightarrow> None),
     jl_elements = (\<lambda>v. case v of Darray xs \<Rightarrow> Some xs | _ \<Rightarrow> None),
     jl_get_unsigned = (\<lambda>v. case v of Dunsigned n \<Rightarrow> Some n | _ \<Rightarrow> None),
     jl_get_double = (\<lambda>v. case v of Ddouble r \<Rightarrow> Some r | Dunsigned n \<Rightarrow> Some (real (unat n))
        | Dinteger n \<Rightarrow> Some (of_int n) | _ \<Rightarrow> None),
     jl_to_u64 = (\<lambda>v. case v of Dunsigned n \<Rightarrow> Some n | _ \<Rightarrow> None),
     jl_to_u32 = (\<lambda>v. case v of Dunsigned n \<Rightarrow> Some (ucast n) | _ \<Rightarrow> None),
     jl_get_string = (\<lambda>v. case v of Dstring s \<Rightarrow> Some s | _ \<Rightarrow> None),
     dj_null = Dnull, dj_is_null = (\<lambda>v. v = Dnull),
     dj_to_int64 = (\<lambda>v. case v of Dinteger n \<Rightarrow> Some n | Dunsigned n \<Rightarrow> Some (sint n) | _ \<Rightarrow> None),
     dj_get_integer = (\<lambda>v. case v of Dinteger n \<Rightarrow> Some n | Dunsigned n \<Rightarrow> Some (sint n) | _ \<Rightarrow> None),
     dj_read = map_of texts, dj_dumps = (\<lambda>v. \<exists>s. find (\<lambda>(s, w). w = v) texts = Some (s, v) \<and> map_of texts s = Some v)\<rparr>"

lemma ds_sample_laws: "ds_json_laws (ds_sample_json texts)"
  by (auto simp: ds_json_laws_def json_laws_def json_lib.truncate_def ds_sample_json_def)

lemma ds_sample_simps [simp]:
  "jl_parse (ds_sample_json texts) = map_of texts"
  "jl_object (ds_sample_json texts) = Dobject" "jl_array (ds_sample_json texts) = Darray"
  "jl_unsigned (ds_sample_json texts) = Dunsigned" "jl_integer (ds_sample_json texts) = Dinteger"
  "jl_string (ds_sample_json texts) = Dstring" "dj_null (ds_sample_json texts) = Dnull"
  "dj_is_null (ds_sample_json texts) v \<longleftrightarrow> v = Dnull"
  "jl_get_string (ds_sample_json texts) (Dstring s) = Some s"
  "jl_get_unsigned (ds_sample_json texts) (Dunsigned n) = Some n"
  "jl_size (ds_sample_json texts) (Dobject kvs) = Some (length kvs)"
  "jl_keys (ds_sample_json texts) (Dobject kvs) = Some (map fst kvs)"
  "jl_at (ds_sample_json texts) (Dobject kvs) k = map_of kvs k"
  "jl_elements (ds_sample_json texts) (Darray xs) = Some xs"
  by (simp_all add: ds_sample_json_def)

end
