(* ===== verification/Search_Gateway.thy ===== *)
theory Search_Gateway
  imports Search_Rpc Ds_Json
begin

text \<open>
  The HTTP gateway of LogTrace (\<open>api/search_controller.cpp\<close>) and what is left of the RPC service
  (\<open>rpc/search_health_service.cpp\<close>: the error code knowledge and the health answer). An endpoint answers at
  once, or calls the service and answers with a function of what the call gives. The record of an HTTP
  request and the JSON library are those of the ingest service; the URL decoder is a parameter.
\<close>

section \<open>Calls and answers\<close>

text \<open>\<open>RpcCallResult\<close>\<close>

datatype 'a rpc_result = Rpc_success 'a | Rpc_unavailable | Rpc_timeout

datatype ('q, 'a, 'j) endpoint = Answered "'j api_response" | Calling 'q "'a rpc_result \<Rightarrow> 'j api_response"

definition gateway_answer :: "'j ds_json \<Rightarrow> error_code \<Rightarrow> string \<Rightarrow> string \<Rightarrow> 'j \<Rightarrow> 'j api_response" where
  "gateway_answer dj code message request_id data = \<lparr>rp_status = http_status code, rp_request_id = request_id,
     rp_body = jl_object dj [(''code'', jl_string dj (error_code_name code)), (''message'', jl_string dj message),
       (''request_id'', jl_string dj request_id), (''data'', data)]\<rparr>"

definition gateway_refuse :: "'j ds_json \<Rightarrow> error_code \<Rightarrow> string \<Rightarrow> string \<Rightarrow> 'j api_response" where
  "gateway_refuse dj code message request_id = gateway_answer dj code message request_id (dj_null dj)"

text \<open>What all endpoints begin with.\<close>

definition with_token ::
    "'j ds_json \<Rightarrow> string \<Rightarrow> string \<Rightarrow> http_request \<Rightarrow> ('q, 'a, 'j) endpoint \<Rightarrow> ('q, 'a, 'j) endpoint" where
  "with_token dj token request_id rq serve =
     (if \<not> has_header rq ''Authorization'' \<or> \<not> operator_authenticate token (header rq ''Authorization'')
      then Answered (gateway_refuse dj OperatorTokenInvalid ''operator token is invalid'' request_id) else serve)"

text \<open>\<open>handleTransport\<close>, and the check of the business code every callback repeats.\<close>

definition answer_call ::
    "'j ds_json \<Rightarrow> string \<Rightarrow> ('a \<Rightarrow> string \<times> string) \<Rightarrow> ('a \<Rightarrow> 'j) \<Rightarrow> 'a rpc_result \<Rightarrow> 'j api_response" where
  "answer_call dj request_id outcome data r = (case r of
       Rpc_timeout \<Rightarrow> gateway_refuse dj SearchRpcTimeout ''search RPC timed out'' request_id
     | Rpc_unavailable \<Rightarrow> gateway_refuse dj SearchRpcUnavailable ''search RPC is unavailable'' request_id
     | Rpc_success response \<Rightarrow> (case outcome response of (code, message) \<Rightarrow>
         if code \<noteq> ''OK'' then gateway_refuse dj (business_code code) message request_id
         else gateway_answer dj Ok ''success'' request_id (data response)))"

section \<open>Request bodies\<close>

text \<open>\<open>None\<close> is a member the request must not have; a missing one is the empty string.\<close>

definition optional_string :: "'j ds_json \<Rightarrow> 'j \<Rightarrow> string \<Rightarrow> nat \<Rightarrow> string option" where
  "optional_string dj body key maximum = (case jl_at dj body key of
       None \<Rightarrow> Some ''''
     | Some m \<Rightarrow> if dj_is_null dj m then Some ''''
         else (case jl_get_string dj m of None \<Rightarrow> None | Some s \<Rightarrow> if valid_text s maximum then Some s else None))"

text \<open>A member that is there and not null.\<close>

definition given :: "'j ds_json \<Rightarrow> 'j \<Rightarrow> string \<Rightarrow> 'j option" where
  "given dj body key = Option.bind (jl_at dj body key) (\<lambda>m. if dj_is_null dj m then None else Some m)"

definition parse_levels :: "'j ds_json \<Rightarrow> 'j \<Rightarrow> string list option" where
  "parse_levels dj body = (case given dj body ''levels'' of
       None \<Rightarrow> Some []
     | Some m \<Rightarrow> (case jl_elements dj m of
           None \<Rightarrow> None
         | Some items \<Rightarrow> if length items > 3 then None
             else those (map (\<lambda>item. Option.bind (jl_get_string dj item)
               (\<lambda>s. if s \<in> {''INFO'', ''WARN'', ''ERROR''} then Some s else None)) items)))"

text \<open>\<open>Some None\<close> without a range.\<close>

definition parse_range :: "'j ds_json \<Rightarrow> 'j \<Rightarrow> (int \<times> int) option option" where
  "parse_range dj body = (case (given dj body ''occurred_from'', given dj body ''occurred_to'') of
       (None, None) \<Rightarrow> Some None
     | (Some a, Some b) \<Rightarrow>
         (case (Option.bind (jl_get_string dj a) parse_iso8601_milliseconds,
            Option.bind (jl_get_string dj b) parse_iso8601_milliseconds) of
           (Some lo, Some hi) \<Rightarrow> if lo > hi \<or> hi - lo > 31 * 86400 * 1000 then None else Some (Some (lo, hi))
         | _ \<Rightarrow> None)
     | _ \<Rightarrow> None)"

definition parse_filter_json :: "'j ds_json \<Rightarrow> 'j \<Rightarrow> search_filter option" where
  "parse_filter_json dj body =
     (case (optional_string dj body ''line_id'' 64, optional_string dj body ''station_id'' 64,
        optional_string dj body ''device_id'' 64, optional_string dj body ''work_order'' 64,
        optional_string dj body ''product_sn'' 96, optional_string dj body ''module_name'' 64,
        optional_string dj body ''error_code'' 64, parse_levels dj body, parse_range dj body) of
        (Some line_id, Some station_id, Some device_id, Some work_order, Some product_sn, Some module_name,
         Some error_code, Some levels, Some window) \<Rightarrow>
          if device_id \<noteq> '''' \<or> work_order \<noteq> '''' \<or> product_sn \<noteq> '''' \<or> error_code \<noteq> '''' \<or> window \<noteq> None
          then Some \<lparr>sf_line_id = line_id, sf_station_id = station_id, sf_device_id = device_id,
            sf_work_order = work_order, sf_product_sn = product_sn, sf_levels = levels, sf_module_name = module_name,
            sf_error_code = error_code, sf_has_time_range = (window \<noteq> None),
            sf_occurred_from_ms = (case window of None \<Rightarrow> 0 | Some (lo, hi) \<Rightarrow> lo),
            sf_occurred_to_ms = (case window of None \<Rightarrow> 0 | Some (lo, hi) \<Rightarrow> hi)\<rparr>
          else None
      | _ \<Rightarrow> None)"

definition contains_only :: "string list \<Rightarrow> string list \<Rightarrow> bool" where
  "contains_only ks allowed = list_all (\<lambda>k. k \<in> set allowed) ks"

definition anomaly_parameters :: "string list" where
  "anomaly_parameters = [''line_id'', ''station_id'', ''device_id'', ''work_order'', ''product_sn'', ''levels'',
     ''module_name'', ''error_code'', ''occurred_from'', ''occurred_to'', ''offset'', ''page_size'']"

definition search_members :: "string list" where
  "search_members = ''keywords'' # anomaly_parameters"

definition parse_keywords :: "'j ds_json \<Rightarrow> 'j list \<Rightarrow> string list option" where
  "parse_keywords dj items = those (map (\<lambda>item. Option.bind (jl_get_string dj item)
     (\<lambda>s. if valid_text s 64 then Some s else None)) items)"

text \<open>The pieces between commas.\<close>

fun split_commas :: "string \<Rightarrow> string list" where
  "split_commas [] = [[]]"
| "split_commas (c # s) = (if c = CHR '','' then [] # split_commas s
     else (c # hd (split_commas s)) # tl (split_commas s))"

section \<open>Data of the answers\<close>

definition log_summary_fields :: "'j ds_json \<Rightarrow> log_summary \<Rightarrow> (string \<times> 'j) list" where
  "log_summary_fields dj i =
     [(''doc_id'', jl_unsigned dj (su_doc_id i)), (''score'', jl_double dj (su_score i)),
      (''occurred_at'', jl_string dj (su_occurred_at i)), (''archived_at'', jl_string dj (su_archived_at i)),
      (''line_id'', jl_string dj (su_line_id i)), (''station_id'', jl_string dj (su_station_id i)),
      (''device_id'', jl_string dj (su_device_id i)), (''collector_id'', jl_string dj (su_collector_id i)),
      (''work_order'', nullable_json dj (su_work_order i)), (''product_sn'', nullable_json dj (su_product_sn i)),
      (''source_type'', jl_string dj (su_source_type i)), (''level'', jl_string dj (su_level i)),
      (''module_name'', jl_string dj (su_module_name i)), (''error_code'', nullable_json dj (su_error_code i)),
      (''event_name'', jl_string dj (su_event_name i))]"

definition log_summary_json :: "'j ds_json \<Rightarrow> log_summary \<Rightarrow> 'j" where
  "log_summary_json dj i = jl_object dj (log_summary_fields dj i)"

definition rpc_page_json :: "'j ds_json \<Rightarrow> search_response \<Rightarrow> 'j" where
  "rpc_page_json dj r = jl_object dj
     [(''snapshot_version'', jl_unsigned dj (re_snapshot_version r)),
      (''total_hits'', jl_unsigned dj (word_of_nat (re_total_hits r))),
      (''items'', jl_array dj (map (log_summary_json dj) (re_items r)))]"

section \<open>Searching\<close>

definition page_outcome :: "search_response \<Rightarrow> string \<times> string" where
  "page_outcome r = (re_code r, re_message r)"

definition search_endpoint ::
    "'j ds_json \<Rightarrow> string \<Rightarrow> string \<Rightarrow> http_request \<Rightarrow> (search_request, search_response, 'j) endpoint" where
  "search_endpoint dj token request_id rq = with_token dj token request_id rq
     (let invalid = Answered (gateway_refuse dj InvalidArgument ''search request is invalid'' request_id) in
      case jl_parse dj (rq_body rq) of None \<Rightarrow> invalid | Some body \<Rightarrow>
      case (jl_keys dj body, Option.bind (jl_at dj body ''keywords'') (jl_elements dj),
          parse_page (json_lib.truncate dj) body, parse_filter_json dj body) of
        (Some ks, Some items, Some (page_offset, page_size), Some flt) \<Rightarrow>
          if \<not> contains_only ks search_members \<or> length items > 8 then invalid
          else (case parse_keywords dj items of
              None \<Rightarrow> Answered (gateway_refuse dj InvalidArgument ''search keyword is invalid'' request_id)
            | Some keywords \<Rightarrow> Calling \<lparr>rq_keywords = keywords, rq_filter = flt, rq_offset = page_offset, rq_page_size = page_size\<rparr>
                (answer_call dj request_id page_outcome (rpc_page_json dj)))
      | _ \<Rightarrow> invalid)"

text \<open>
  The parameters become the members of a body, the levels split at commas and the two numbers parsed; the
  checks of the body are those of a search. \<open>query_list\<close> is ordered by name.
\<close>

definition anomaly_member :: "'j ds_json \<Rightarrow> u64 \<Rightarrow> u64 \<Rightarrow> string \<times> string \<Rightarrow> string \<times> 'j" where
  "anomaly_member dj page_offset page_size p = (case p of (name, v) \<Rightarrow>
     (name, if name = ''levels'' then jl_array dj (map (jl_string dj) (split_commas v))
            else if name = ''offset'' then jl_unsigned dj page_offset
            else if name = ''page_size'' then jl_unsigned dj page_size else jl_string dj v))"

definition anomalies_endpoint ::
    "'j ds_json \<Rightarrow> (string \<Rightarrow> string) \<Rightarrow> string \<Rightarrow> string \<Rightarrow> http_request \<Rightarrow>
     (search_request, search_response, 'j) endpoint" where
  "anomalies_endpoint dj url_decode token request_id rq = with_token dj token request_id rq
     (let invalid = Answered (gateway_refuse dj InvalidArgument ''anomaly query is invalid'' request_id);
          params = map (\<lambda>(name, v). (name, url_decode v)) (rq_query rq) in
      if \<not> contains_only (map fst params) anomaly_parameters
      then Answered (gateway_refuse dj InvalidArgument ''anomaly query contains an unknown parameter'' request_id)
      else case (Option.bind (map_of params ''offset'') parse_unsigned, Option.bind (map_of params ''page_size'') parse_unsigned) of
        (Some page_offset, Some page_size) \<Rightarrow>
          let body = jl_object dj (map (anomaly_member dj page_offset page_size) params) in
          (case (parse_page (json_lib.truncate dj) body, parse_filter_json dj body) of
             (Some (n, k), Some flt) \<Rightarrow> Calling \<lparr>rq_keywords = [], rq_filter = flt, rq_offset = n, rq_page_size = k\<rparr>
               (answer_call dj request_id page_outcome (rpc_page_json dj))
           | _ \<Rightarrow> invalid)
      | _ \<Rightarrow> invalid)"

section \<open>One log\<close>

text \<open>A message without a document reads as one with empty fields.\<close>

definition empty_summary :: log_summary where
  "empty_summary = \<lparr>su_doc_id = 0, su_score = 0, su_occurred_at = '''', su_archived_at = '''', su_line_id = '''',
     su_station_id = '''', su_device_id = '''', su_collector_id = '''', su_work_order = '''', su_product_sn = '''',
     su_source_type = '''', su_level = '''', su_module_name = '''', su_error_code = '''', su_event_name = ''''\<rparr>"

definition detail_data :: "'j ds_json \<Rightarrow> detail_response \<Rightarrow> 'j" where
  "detail_data dj r = jl_object dj
     (log_summary_fields dj (case de_document r of None \<Rightarrow> empty_summary | Some d \<Rightarrow> d) @
      [(''archive_id'', jl_unsigned dj (de_archive_id r)), (''byte_offset'', jl_unsigned dj (de_byte_offset r)),
       (''byte_length'', jl_unsigned dj (de_byte_length r)), (''raw'', jl_string dj (de_raw r))])"

definition detail_endpoint ::
    "'j ds_json \<Rightarrow> string \<Rightarrow> string \<Rightarrow> http_request \<Rightarrow> (u64, detail_response, 'j) endpoint" where
  "detail_endpoint dj token request_id rq = with_token dj token request_id rq
     (case parse_unsigned (param rq ''doc_id'') of
        None \<Rightarrow> Answered (gateway_refuse dj InvalidArgument ''doc_id is invalid'' request_id)
      | Some doc_id \<Rightarrow>
          if doc_id = 0 then Answered (gateway_refuse dj InvalidArgument ''doc_id is invalid'' request_id)
          else Calling doc_id (answer_call dj request_id (\<lambda>r. (de_code r, de_message r)) (detail_data dj)))"

section \<open>Error codes\<close>

record error_knowledge =
  ek_module_name :: string
  ek_title :: string
  ek_description :: string
  ek_recommended_action :: string

record error_code_response =
  ec_code :: string
  ec_message :: string
  ec_error_code :: string
  ec_knowledge :: error_knowledge
  ec_matching_logs :: "log_summary list"

text \<open>What the query of the catalog gives: the four columns, any of them NULL.\<close>

datatype catalog_reply = Catalog_unavailable | Catalog_absent
  | Catalog_row "string option" "string option" "string option" "string option"

definition no_knowledge :: error_knowledge where
  "no_knowledge = \<lparr>ek_module_name = '''', ek_title = '''', ek_description = '''', ek_recommended_action = ''''\<rparr>"

definition error_code_failure :: "string \<Rightarrow> string \<Rightarrow> error_code_response" where
  "error_code_failure code message = \<lparr>ec_code = code, ec_message = message, ec_error_code = '''',
     ec_knowledge = no_knowledge, ec_matching_logs = []\<rparr>"

definition matches_query :: "string \<Rightarrow> search_query" where
  "matches_query code = (make_query \<lparr>sf_line_id = '''', sf_station_id = '''', sf_device_id = '''', sf_work_order = '''',
     sf_product_sn = '''', sf_levels = [], sf_module_name = '''', sf_error_code = '''', sf_has_time_range = False,
     sf_occurred_from_ms = 0, sf_occurred_to_ms = 0\<rparr> 0 5 False)\<lparr>sq_error_code := code\<rparr>"

definition execute_cached_matches ::
    "'j query_cache \<Rightarrow> snapshot_reads \<Rightarrow> (string \<Rightarrow> string option) \<Rightarrow> int \<Rightarrow> string \<Rightarrow> error_knowledge \<Rightarrow>
     error_code_response \<times> setex option" where
  "execute_cached_matches qc rd redis_get now_ms code knowledge =
     (let q = matches_query code; key = cached_query_key qc q (sn_version (rd_key rd));
          filled = (\<lambda>page. \<lparr>ec_code = ''OK'', ec_message = ''success'', ec_error_code = code,
            ec_knowledge = knowledge, ec_matching_logs = map fill_summary (sp_items page)\<rparr>)
      in case Option.bind (redis_get key) (restore_cached (qc_json qc) (rd_restore rd)) of
          Some page \<Rightarrow> (filled page, None)
        | None \<Rightarrow> (case search (rd_search rd) q of
            Inl _ \<Rightarrow> (error_code_failure ''INDEX_CORRUPTED'' ''search index cannot complete the query'', None)
          | Inr page \<Rightarrow> (filled page,
              Some \<lparr>sx_key = key, sx_seconds = ttl_seconds (qc_config qc) q (sp_total_hits page = 0) now_ms,
                    sx_value = serialize_page (qc_json qc) page\<rparr>)))"

text \<open>\<open>catalog\<close> is the query for the enabled row of a code; the state is the cache of knowledge.\<close>

definition get_error_code ::
    "'j query_cache \<Rightarrow> snapshot_reads \<Rightarrow> (string \<Rightarrow> string option) \<Rightarrow> int \<Rightarrow> (string \<Rightarrow> catalog_reply) \<Rightarrow> string \<Rightarrow>
     (string, error_knowledge) slru \<Rightarrow> (error_code_response \<times> setex option) \<times> (string, error_knowledge) slru" where
  "get_error_code qc rd redis_get now_ms catalog code cache =
     (if code = '''' \<or> length code > 64 then ((error_code_failure ''INVALID_ARGUMENT'' ''error_code is invalid'', None), cache)
      else case slru_get code cache of
          (Some knowledge, cache1) \<Rightarrow> (execute_cached_matches qc rd redis_get now_ms code knowledge, cache1)
        | (None, cache1) \<Rightarrow> (case catalog code of
            Catalog_absent \<Rightarrow> ((error_code_failure ''ERROR_CODE_NOT_FOUND'' ''error code was not found'', None), cache1)
          | Catalog_row (Some module_name) (Some title) (Some description) (Some action) \<Rightarrow>
              (let knowledge = \<lparr>ek_module_name = module_name, ek_title = title, ek_description = description,
                 ek_recommended_action = action\<rparr>
               in (execute_cached_matches qc rd redis_get now_ms code knowledge, slru_put code knowledge cache1))
          | _ \<Rightarrow> ((error_code_failure ''MYSQL_UNAVAILABLE'' ''error code catalog is unavailable'', None), cache1)))"

definition error_code_data :: "'j ds_json \<Rightarrow> error_code_response \<Rightarrow> 'j" where
  "error_code_data dj r = jl_object dj
     [(''error_code'', jl_string dj (ec_error_code r)), (''module_name'', jl_string dj (ek_module_name (ec_knowledge r))),
      (''title'', jl_string dj (ek_title (ec_knowledge r))), (''description'', jl_string dj (ek_description (ec_knowledge r))),
      (''recommended_action'', jl_string dj (ek_recommended_action (ec_knowledge r))),
      (''matching_logs'', jl_array dj (map (log_summary_json dj) (ec_matching_logs r)))]"

definition error_code_endpoint ::
    "'j ds_json \<Rightarrow> (string \<Rightarrow> string) \<Rightarrow> string \<Rightarrow> string \<Rightarrow> http_request \<Rightarrow> (string, error_code_response, 'j) endpoint" where
  "error_code_endpoint dj url_decode token request_id rq = with_token dj token request_id rq
     (let code = url_decode (param rq ''code'') in
      if \<not> valid_text code 64 then Answered (gateway_refuse dj InvalidArgument ''error code is invalid'' request_id)
      else Calling code (answer_call dj request_id (\<lambda>r. (ec_code r, ec_message r)) (error_code_data dj)))"

section \<open>Health\<close>

datatype service_status = Status_unspecified | Status_ready | Status_not_ready

record health_response =
  hr_status :: service_status
  hr_code :: string
  hr_message :: string

text \<open>The four probes: the two databases, Redis and the storage.\<close>

definition health_answer :: "bool \<Rightarrow> bool \<Rightarrow> string option \<Rightarrow> bool \<Rightarrow> health_response" where
  "health_answer source_ready state_ready pong storage_ready =
     (let ready = source_ready \<and> state_ready \<and> pong = Some ''PONG'' \<and> storage_ready in
      \<lparr>hr_status = (if ready then Status_ready else Status_not_ready), hr_code = (if ready then ''OK'' else ''SERVICE_NOT_READY''),
       hr_message = (if ready then ''success'' else ''search service is not ready'')\<rparr>)"

datatype health_status = Health_ready | Health_not_ready | Health_unavailable | Health_timeout

definition classify_health :: "health_response rpc_result \<Rightarrow> health_status \<times> string" where
  "classify_health r = (case r of
       Rpc_timeout \<Rightarrow> (Health_timeout, ''search RPC timed out'')
     | Rpc_unavailable \<Rightarrow> (Health_unavailable, ''search RPC is unavailable'')
     | Rpc_success h \<Rightarrow>
         if hr_status h = Status_ready \<and> hr_code h = ''OK'' then (Health_ready, hr_message h)
         else if hr_status h = Status_not_ready \<and> hr_code h = ''SERVICE_NOT_READY'' then (Health_not_ready, hr_message h)
         else (Health_unavailable, ''invalid health RPC response''))"

text \<open>The answer of \<open>/health/ready\<close> of the gateway.\<close>

definition health_endpoint :: "'j ds_json \<Rightarrow> string \<Rightarrow> health_response rpc_result \<Rightarrow> 'j api_response" where
  "health_endpoint dj request_id r = (case classify_health r of (status, message) \<Rightarrow>
     let not_ready = jl_object dj [(''status'', jl_string dj ''not_ready'')] in (case status of
         Health_ready \<Rightarrow> gateway_answer dj Ok ''success'' request_id (jl_object dj [(''status'', jl_string dj ''ready'')])
       | Health_not_ready \<Rightarrow> gateway_answer dj ServiceNotReady message request_id not_ready
       | Health_timeout \<Rightarrow> gateway_answer dj SearchRpcTimeout message request_id not_ready
       | Health_unavailable \<Rightarrow> gateway_answer dj SearchRpcUnavailable message request_id not_ready))"

section \<open>What the gateway forwards\<close>

lemma optional_string_length: "optional_string dj body key n = Some s \<Longrightarrow> length s \<le> n"
  by (auto simp: optional_string_def valid_text_def split: option.splits if_splits)

lemma those_all: "those (map f xs) = Some ys \<Longrightarrow> (\<And>x y. f x = Some y \<Longrightarrow> P y) \<Longrightarrow> list_all P ys \<and> length ys = length xs"
  by (induction xs arbitrary: ys) (auto split: option.splits)

lemma parse_levels_ok:
  assumes "parse_levels dj body = Some ls"
  shows "length ls \<le> 3" "list_all (\<lambda>l. l = ''INFO'' \<or> l = ''WARN'' \<or> l = ''ERROR'') ls"
proof -
  have "length ls \<le> 3 \<and> list_all (\<lambda>l. l = ''INFO'' \<or> l = ''WARN'' \<or> l = ''ERROR'') ls"
  proof (cases "ls = []")
    case False
    then obtain items where items: "those (map (\<lambda>item. Option.bind (jl_get_string dj item)
        (\<lambda>s. if s \<in> {''INFO'', ''WARN'', ''ERROR''} then Some s else None)) items) = Some ls" "length items \<le> 3"
      using assms by (auto simp: parse_levels_def not_less split: option.splits if_splits)
    from items(1) have "list_all (\<lambda>l. l = ''INFO'' \<or> l = ''WARN'' \<or> l = ''ERROR'') ls \<and> length ls = length items"
      by (rule those_all) (auto simp: bind_eq_Some_conv split: if_splits)
    then show ?thesis using items(2) by simp
  qed simp
  then show "length ls \<le> 3" "list_all (\<lambda>l. l = ''INFO'' \<or> l = ''WARN'' \<or> l = ''ERROR'') ls" by simp_all
qed

lemma parse_range_ok: "parse_range dj body = Some (Some (lo, hi)) \<Longrightarrow> lo \<le> hi \<and> hi - lo \<le> 31 * 86400 * 1000"
  by (auto simp: parse_range_def split: option.splits if_splits)

lemma parse_filter_ok:
  assumes parsed: "parse_filter_json dj body = Some f"
    and times: "sf_has_time_range f \<Longrightarrow> 946684800000 \<le> sf_occurred_from_ms f \<and> sf_occurred_to_ms f \<le> 4102444800000"
  shows "valid_filter f"
proof -
  obtain a b c d e m x ls w where parts:
    "optional_string dj body ''line_id'' 64 = Some a" "optional_string dj body ''station_id'' 64 = Some b"
    "optional_string dj body ''device_id'' 64 = Some c" "optional_string dj body ''work_order'' 64 = Some d"
    "optional_string dj body ''product_sn'' 96 = Some e" "optional_string dj body ''module_name'' 64 = Some m"
    "optional_string dj body ''error_code'' 64 = Some x" "parse_levels dj body = Some ls" "parse_range dj body = Some w"
    and any: "c \<noteq> '''' \<or> d \<noteq> '''' \<or> e \<noteq> '''' \<or> x \<noteq> '''' \<or> w \<noteq> None"
    and f: "f = \<lparr>sf_line_id = a, sf_station_id = b, sf_device_id = c, sf_work_order = d, sf_product_sn = e, sf_levels = ls,
      sf_module_name = m, sf_error_code = x, sf_has_time_range = (w \<noteq> None),
      sf_occurred_from_ms = (case w of None \<Rightarrow> 0 | Some (lo, hi) \<Rightarrow> lo),
      sf_occurred_to_ms = (case w of None \<Rightarrow> 0 | Some (lo, hi) \<Rightarrow> hi)\<rparr>"
    using parsed by (auto simp: parse_filter_json_def split: option.splits if_splits)
  have "lo \<le> hi \<and> hi - lo \<le> 31 * 86400 * 1000" if "w = Some (lo, hi)" for lo hi
    using parse_range_ok [of dj body lo hi] parts(9) that by simp
  then show ?thesis
    using parts(1-7) [THEN optional_string_length] parse_levels_ok [OF parts(8)] any times
    unfolding f by (cases w) (auto simp: valid_filter_def)
qed

lemma parse_page_ok:
  assumes parsed: "parse_page jl body = Some (n, k)" and small: "unat n \<le> 1000"
  shows "valid_pagination n k" "unat n + unat k \<le> 1000"
proof -
  obtain u v :: u64 where p: "v \<noteq> 0" "v \<le> 200" "u + v \<le> 1000" "n = ucast u" "k = ucast v"
    using parsed by (auto simp: parse_page_def not_less split: option.splits if_splits intro: that)
  have v: "0 < unat v" "unat v \<le> 200" using p by (auto simp: word_le_nat_alt unat_gt_0)
  have sum: "(unat u + unat v) mod 2 ^ 64 \<le> 1000" using p(3) by (simp add: word_le_nat_alt unat_word_ariths)
  have n: "unat n = unat u mod 2 ^ 32" and k: "unat k = unat v"
    using v by (simp_all add: p unsigned_ucast_eq take_bit_eq_mod)
  have u: "unat u < 2 ^ 64" by (rule order.strict_trans2 [OF unsigned_less]) simp
  have "unat u + unat v < 2 ^ 64"
  proof (rule ccontr)
    assume wraps: "\<not> unat u + unat v < 2 ^ 64"
    then have big: "2 ^ 64 - 200 \<le> unat u" using v(2) by simp
    define d where "d = 2 ^ 64 - unat u"
    have d: "unat u = 2 ^ 64 - d" "0 < d" "d \<le> 200" using big u by (simp_all add: d_def)
    have "unat u mod 2 ^ 32 = 2 ^ 32 - d"
    proof -
      have "unat u = (2 ^ 32 - d) + (2 ^ 32 - 1) * 2 ^ 32" using d by simp
      then have "unat u mod 2 ^ 32 = (2 ^ 32 - d) mod 2 ^ 32" by (simp only: mod_mult_self1)
      then show ?thesis using d by simp
    qed
    then show False using n small d by simp
  qed
  then have total: "unat u + unat v \<le> 1000" using sum by simp
  then have "unat n = unat u" using n by simp
  then show "unat n + unat k \<le> 1000" using total k by simp
  then show "valid_pagination n k" using k v by (simp add: valid_pagination_iff)
qed

lemma parse_keywords_ok:
  assumes "parse_keywords dj items = Some ws" and "length items \<le> 8" and "\<forall>w \<in> set ws. tokenize_terms w \<noteq> []"
  shows "valid_keywords ws"
proof -
  have "list_all (\<lambda>w. valid_text w 64) ws \<and> length ws = length items"
    using assms(1) unfolding parse_keywords_def by (rule those_all) (auto simp: bind_eq_Some_conv split: if_splits)
  then show ?thesis using assms(2,3) by (auto simp: valid_keywords_def valid_text_def list_all_iff)
qed

lemma search_endpoint_calls:
  assumes "search_endpoint dj token request_id rq = Calling r k"
  obtains body items where "operator_authenticate token (header rq ''Authorization'')" "jl_parse dj (rq_body rq) = Some body"
    "parse_page (json_lib.truncate dj) body = Some (rq_offset r, rq_page_size r)" "parse_filter_json dj body = Some (rq_filter r)"
    "length items \<le> 8" "parse_keywords dj items = Some (rq_keywords r)"
    "k = answer_call dj request_id page_outcome (rpc_page_json dj)"
  using assms
  by (auto simp: search_endpoint_def with_token_def Let_def not_less split: if_splits option.splits intro: that)

section \<open>A sample\<close>

definition sample_gateway_json :: "ds_value ds_json" where
  "sample_gateway_json = ds_sample_json [(''{S}'', Dobject [(''keywords'', Darray [Dstring ''x'']),
     (''device_id'', Dstring ''D''), (''levels'', Darray [Dstring ''ERROR'']), (''offset'', Dunsigned 0), (''page_size'', Dunsigned 10)])]"

definition sample_search_http :: http_request where
  "sample_search_http = \<lparr>rq_method = ''POST'', rq_path = ''/api/v1/search'', rq_headers = [(''Authorization'', ''Bearer T'')],
     rq_body = ''{S}'', rq_params = [], rq_json = True, rq_octet_stream = False, rq_query = []\<rparr>"

lemma sample_search_calls: "search_endpoint sample_gateway_json ''T'' ''r'' sample_search_http =
    Calling \<lparr>rq_keywords = [''x''], rq_filter = sample_filter, rq_offset = 0, rq_page_size = 10\<rparr>
      (answer_call sample_gateway_json ''r'' page_outcome (rpc_page_json sample_gateway_json))"
  by (simp add: search_endpoint_def with_token_def sample_gateway_json_def sample_search_http_def header_def has_header_def
    operator_authenticate_iff parse_page_def json_lib.truncate_def ds_sample_json_def parse_filter_json_def
    optional_string_def parse_levels_def parse_range_def given_def valid_text_def contains_only_def search_members_def
    anomaly_parameters_def parse_keywords_def sample_filter_def Let_def)

end
