(* ===== verification/Search_Runs.thy ===== *)
theory Search_Runs
  imports Search_Gateway
begin

text \<open>
  Runs of the search service with its query cache in Redis: snapshots come and go, requests are served,
  pages are stored under the keys of their queries and read back, late, or never. What the gateway then
  answers is the page of the index, with nothing assumed of the cache but that it held no foreign entries.
\<close>

section \<open>Runs\<close>









section \<open>Queries with the same key\<close>





section \<open>What is stored\<close>










section \<open>What is read back\<close>



section \<open>Through the gateway\<close>









section \<open>A sample\<close>









end
