(* ===== verification/Utf8.thy ===== *)
theory Utf8
  imports Prelude
begin

text \<open>
  The UTF-8 check both parsers of LogTrace and the DataStream validation run over untrusted text
  (\<open>validUtf8\<close> of \<open>indexing/archive_parser.cpp\<close>). The loop over an index is a function of the
  rest of the text; the accumulated code point has at most 21 bits, so it is a natural number.
  \<open>valid_utf8_iff\<close> compares it with the encoding of Unicode scalar values.
\<close>

text \<open>Length and initial code point of a sequence by its first byte, past ASCII.\<close>

definition utf8_lead :: "nat \<Rightarrow> (nat \<times> nat) option" where
  "utf8_lead first =
     (if 0xC2 \<le> first \<and> first \<le> 0xDF then Some (2, first mod 32)
      else if 0xE0 \<le> first \<and> first \<le> 0xEF then Some (3, first mod 16)
      else if 0xF0 \<le> first \<and> first \<le> 0xF4 then Some (4, first mod 8)
      else None)"

text \<open>The inner loop over the continuation bytes.\<close>

fun utf8_continue :: "string \<Rightarrow> nat \<Rightarrow> nat option" where
  "utf8_continue [] codepoint = Some codepoint"
| "utf8_continue (c # cs) codepoint =
     (if byte c div 64 \<noteq> 2 then None else utf8_continue cs (codepoint * 64 + byte c mod 64))"

definition utf8_bad_codepoint :: "nat \<Rightarrow> nat \<Rightarrow> bool" where
  "utf8_bad_codepoint n codepoint \<longleftrightarrow>
     n = 3 \<and> codepoint < 0x800 \<or> n = 4 \<and> codepoint < 0x10000 \<or>
     0xD800 \<le> codepoint \<and> codepoint \<le> 0xDFFF \<or> codepoint > 0x10FFFF"

function valid_utf8 :: "string \<Rightarrow> bool" where
  "valid_utf8 [] = True"
| "valid_utf8 (c # rest) =
     (if byte c \<le> 0x7F then valid_utf8 rest
      else case utf8_lead (byte c) of
          None \<Rightarrow> False
        | Some (n, codepoint) \<Rightarrow>
            if n > length (c # rest) then False
            else case utf8_continue (take (n - 1) rest) codepoint of
                None \<Rightarrow> False
              | Some cp \<Rightarrow> if utf8_bad_codepoint n cp then False else valid_utf8 (drop (n - 1) rest))"
  by pat_completeness auto
termination
  by (relation "measure length") auto

declare valid_utf8.simps(2) [simp del]

section \<open>Encoding\<close>

definition scalar_value :: "nat \<Rightarrow> bool" where
  "scalar_value n \<longleftrightarrow> n < 0xD800 \<or> 0xDFFF < n \<and> n \<le> 0x10FFFF"

definition utf8_encode :: "nat \<Rightarrow> string" where
  "utf8_encode n =
     (if n < 0x80 then [char_of n]
      else if n < 0x800 then [char_of (0xC0 + n div 64), char_of (0x80 + n mod 64)]
      else if n < 0x10000 then
        [char_of (0xE0 + n div 4096), char_of (0x80 + n div 64 mod 64), char_of (0x80 + n mod 64)]
      else [char_of (0xF0 + n div 262144), char_of (0x80 + n div 4096 mod 64),
            char_of (0x80 + n div 64 mod 64), char_of (0x80 + n mod 64)])"

lemma digits64:
  assumes "r < 64"
  shows "(q * 64 + r) div 64 = (q::nat)" "(q * 64 + r) mod 64 = r"
  using assms by (simp_all add: div_mult_self3 add.commute)

lemma cont_byte: "(128 + m mod 64) div 64 = (2::nat)" "(128 + m mod 64) mod 64 = (m mod 64 :: nat)"
  using digits64 [of "m mod 64" 2] by simp_all

lemma shift_split:
  "n div 4096 = n div 64 div (64::nat)" "n div 262144 = n div 64 div 64 div (64::nat)"
  by (simp_all add: div_mult2_eq [symmetric])

lemma join64: "n div 64 * 64 + n mod 64 = (n::nat)"
  by simp

lemma digits64_less: "k < 16 \<Longrightarrow> r < 64 \<Longrightarrow> q < 64 \<Longrightarrow> (k * 64 + r) * 64 + q < (0x10000::nat)"
  "2 \<le> k \<Longrightarrow> k < 32 \<Longrightarrow> r < 64 \<Longrightarrow> 0x80 \<le> k * 64 + r \<and> k * 64 + r < (0x800::nat)"
  by simp_all

lemma mod_of_range: "a * m \<le> x \<Longrightarrow> x < a * m + m \<Longrightarrow> x = a * m + x mod (m::nat) \<and> x mod m < m"
  by (metis add_diff_inverse_nat add_less_cancel_left leD mod_less mod_mult_self3)

lemma lead_byte:
  "2 \<le> k \<Longrightarrow> k < 32 \<Longrightarrow> utf8_lead (0xC0 + k) = Some (2, k)"
  "k < 16 \<Longrightarrow> utf8_lead (0xE0 + k) = Some (3, k)"
  "k < 5 \<Longrightarrow> utf8_lead (0xF0 + k) = Some (4, k)"
  using mod_mult_self3 [of 6 32 k] mod_mult_self3 [of 14 16 k] mod_mult_self3 [of 30 8 k]
  by (simp_all add: utf8_lead_def)

lemma valid_utf8_ascii: "byte c \<le> 0x7F \<Longrightarrow> valid_utf8 (c # rest) = valid_utf8 rest"
  by (simp add: valid_utf8.simps)

lemma valid_utf8_two:
  "\<not> byte c \<le> 0x7F \<Longrightarrow> utf8_lead (byte c) = Some (2, k) \<Longrightarrow>
   valid_utf8 (c # rest) \<longleftrightarrow> (\<exists>d s. rest = d # s \<and> byte d div 64 = 2 \<and>
     \<not> utf8_bad_codepoint 2 (k * 64 + byte d mod 64) \<and> valid_utf8 s)"
  by (cases rest) (auto simp: valid_utf8.simps)

lemma valid_utf8_three:
  "\<not> byte c \<le> 0x7F \<Longrightarrow> utf8_lead (byte c) = Some (3, k) \<Longrightarrow>
   valid_utf8 (c # rest) \<longleftrightarrow> (\<exists>d e s. rest = d # e # s \<and> byte d div 64 = 2 \<and> byte e div 64 = 2 \<and>
     \<not> utf8_bad_codepoint 3 ((k * 64 + byte d mod 64) * 64 + byte e mod 64) \<and> valid_utf8 s)"
  by (cases rest; cases "tl rest") (auto simp: valid_utf8.simps)

lemma valid_utf8_four:
  "\<not> byte c \<le> 0x7F \<Longrightarrow> utf8_lead (byte c) = Some (4, k) \<Longrightarrow>
   valid_utf8 (c # rest) \<longleftrightarrow> (\<exists>d e f s. rest = d # e # f # s \<and> byte d div 64 = 2 \<and> byte e div 64 = 2 \<and>
     byte f div 64 = 2 \<and>
     \<not> utf8_bad_codepoint 4 (((k * 64 + byte d mod 64) * 64 + byte e mod 64) * 64 + byte f mod 64) \<and>
     valid_utf8 s)"
  by (cases rest; cases "tl rest"; cases "tl (tl rest)")
    (auto simp: valid_utf8.simps numeral_3_eq_3)

lemma valid_utf8_encode:
  assumes "scalar_value n"
  shows "valid_utf8 (utf8_encode n @ s) = valid_utf8 s"
proof -
  consider "n < 0x80" | "0x80 \<le> n" "n < 0x800" | "0x800 \<le> n" "n < 0x10000" | "0x10000 \<le> n"
    by linarith
  then show ?thesis
  proof cases
    case 1
    then show ?thesis by (simp add: utf8_encode_def valid_utf8_ascii)
  next
    case 2
    then have k: "2 \<le> n div 64" "n div 64 < 32" by (simp_all add: div_less_iff_less_mult less_eq_div_iff_mult_less_eq)
    with 2 show ?thesis
      by (simp add: utf8_encode_def valid_utf8_two [where k = "n div 64"] lead_byte cont_byte
          utf8_bad_codepoint_def)
  next
    case 3
    then have k: "n div 4096 < 16" by (simp add: div_less_iff_less_mult)
    have cp: "(n div 4096 * 64 + n div 64 mod 64) * 64 + n mod 64 = n"
      by (simp only: shift_split join64)
    have "utf8_bad_codepoint 3 n \<longleftrightarrow> False"
      using 3 assms by (auto simp: utf8_bad_codepoint_def scalar_value_def)
    with 3 k show ?thesis
      by (simp add: utf8_encode_def valid_utf8_three [where k = "n div 4096"] lead_byte cont_byte cp
          del: distrib_right_numeral)
  next
    case 4
    with assms have n: "n \<le> 0x10FFFF" by (auto simp: scalar_value_def)
    then have k: "n div 262144 < 5" by (simp add: div_less_iff_less_mult)
    have cp: "((n div 262144 * 64 + n div 4096 mod 64) * 64 + n div 64 mod 64) * 64 + n mod 64 = n"
      by (simp only: shift_split join64)
    have "utf8_bad_codepoint 4 n \<longleftrightarrow> False"
      using 4 n by (auto simp: utf8_bad_codepoint_def)
    with 4 k show ?thesis
      by (simp add: utf8_encode_def valid_utf8_four [where k = "n div 262144"] lead_byte cont_byte cp
          del: distrib_right_numeral)
  qed
qed

text \<open>Conversely every accepted first character is the encoding of a scalar value.\<close>

lemma char_of_eqI: "byte c = n \<Longrightarrow> c = char_of n"
  by auto

lemma cont_char: "byte d div 64 = 2 \<Longrightarrow> d = char_of (128 + byte d mod 64)"
  using div_mult_mod_eq [of "byte d" 64] by (intro char_of_eqI) simp

lemma valid_utf8_step:
  assumes "valid_utf8 (c # rest)"
  shows "\<exists>n s. scalar_value n \<and> c # rest = utf8_encode n @ s \<and> valid_utf8 s"
proof (cases "byte c \<le> 0x7F")
  case True
  then show ?thesis
    using assms by (intro exI [of _ "byte c"] exI [of _ rest])
      (auto simp: scalar_value_def utf8_encode_def valid_utf8_ascii)
next
  case False
  from assms False obtain n k where l: "utf8_lead (byte c) = Some (n, k)"
    by (auto simp: valid_utf8.simps split: option.splits)
  then consider (two) "n = 2" "0xC2 \<le> byte c" "byte c \<le> 0xDF" "k = byte c mod 32"
    | (three) "n = 3" "0xE0 \<le> byte c" "byte c \<le> 0xEF" "k = byte c mod 16"
    | (four) "n = 4" "0xF0 \<le> byte c" "byte c \<le> 0xF4" "k = byte c mod 8"
    by (auto simp: utf8_lead_def split: if_splits)
  then show ?thesis
  proof cases
    case two
    then have c: "byte c = 0xC0 + k" and k: "2 \<le> k" "k < 32"
      using mod_of_range [of 6 32 "byte c"] by auto
    from assms l False two obtain d s where r: "rest = d # s" and d: "byte d div 64 = 2"
      and v: "valid_utf8 s" by (auto simp: valid_utf8_two)
    let ?n = "k * 64 + byte d mod 64"
    have m: "byte d mod 64 < 64" by simp
    note n = digits64 [OF m, of k]
    have b: "0x80 \<le> ?n" "?n < 0x800" using digits64_less(2) [OF k m] by blast+
    have "utf8_encode ?n = [c, d]"
      unfolding utf8_encode_def n using b cont_char [OF d] by (simp add: char_of_eqI [OF c])
    with b r v show ?thesis
      by (intro exI [of _ ?n] exI [of _ s]) (auto simp: scalar_value_def)
  next
    case three
    then have c: "byte c = 0xE0 + k" and k: "k < 16"
      using mod_of_range [of 14 16 "byte c"] by auto
    from assms l False three obtain d e s where r: "rest = d # e # s" and d: "byte d div 64 = 2"
      and e: "byte e div 64 = 2" and v: "valid_utf8 s"
      and g: "\<not> utf8_bad_codepoint 3 ((k * 64 + byte d mod 64) * 64 + byte e mod 64)"
      by (auto simp: valid_utf8_three)
    let ?n = "(k * 64 + byte d mod 64) * 64 + byte e mod 64"
    have m: "byte d mod 64 < 64" "byte e mod 64 < 64" by simp_all
    note n = shift_split digits64 [OF m(1)] digits64 [OF m(2)]
    note b = digits64_less(1) [OF k m]
    have ge: "0x800 \<le> ?n" "scalar_value ?n"
      using g by (auto simp: utf8_bad_codepoint_def scalar_value_def)
    have "utf8_encode ?n = [c, d, e]"
      unfolding utf8_encode_def n using b ge(1) cont_char [OF d] cont_char [OF e]
      by (simp add: char_of_eqI [OF c])
    with ge r v show ?thesis by (intro exI [of _ ?n] exI [of _ s]) auto
  next
    case four
    then have c: "byte c = 0xF0 + k" and k: "k < 8"
      using mod_of_range [of 30 8 "byte c"] by auto
    from assms l False four obtain d e f s where r: "rest = d # e # f # s" and d: "byte d div 64 = 2"
      and e: "byte e div 64 = 2" and f: "byte f div 64 = 2" and v: "valid_utf8 s"
      and g: "\<not> utf8_bad_codepoint 4 (((k * 64 + byte d mod 64) * 64 + byte e mod 64) * 64 + byte f mod 64)"
      by (auto simp: valid_utf8_four)
    let ?n = "((k * 64 + byte d mod 64) * 64 + byte e mod 64) * 64 + byte f mod 64"
    have m: "byte d mod 64 < 64" "byte e mod 64 < 64" "byte f mod 64 < 64" by simp_all
    note n = shift_split digits64 [OF m(1)] digits64 [OF m(2)] digits64 [OF m(3)]
    have ge: "0x10000 \<le> ?n" "scalar_value ?n"
      using g by (auto simp: utf8_bad_codepoint_def scalar_value_def)
    have "utf8_encode ?n = [c, d, e, f]"
      unfolding utf8_encode_def n using ge(1) cont_char [OF d] cont_char [OF e] cont_char [OF f]
      by (simp add: char_of_eqI [OF c])
    with ge r v show ?thesis by (intro exI [of _ ?n] exI [of _ s]) auto
  qed
qed

lemma utf8_encode_nonempty: "utf8_encode n \<noteq> []"
  by (simp add: utf8_encode_def)

text \<open>
  C30: The check accepts exactly the texts that are a sequence of Unicode scalar values, each in its
  shortest UTF-8 encoding: no overlong form, no surrogate, nothing above 10FFFF, no stray byte.
\<close>

theorem valid_utf8_iff:
  "valid_utf8 s = (\<exists>cps. (\<forall>n\<in>set cps. scalar_value n) \<and> s = concat (map utf8_encode cps))"
proof
  show "valid_utf8 s \<Longrightarrow> \<exists>cps. (\<forall>n\<in>set cps. scalar_value n) \<and> s = concat (map utf8_encode cps)"
  proof (induction "length s" arbitrary: s rule: less_induct)
    case less
    show ?case
    proof (cases s)
      case Nil
      then show ?thesis by (intro exI [of _ "[]"]) simp
    next
      case (Cons c rest)
      from valid_utf8_step less.prems [unfolded Cons] obtain n t
        where n: "scalar_value n" and s: "s = utf8_encode n @ t" and t: "valid_utf8 t"
        unfolding Cons by blast
      have "length t < length s" using utf8_encode_nonempty [of n] by (simp add: s)
      from less.hyps [OF this t] obtain cps where "\<forall>n\<in>set cps. scalar_value n"
        "t = concat (map utf8_encode cps)" by blast
      with n s show ?thesis by (intro exI [of _ "n # cps"]) auto
    qed
  qed
next
  assume "\<exists>cps. (\<forall>n\<in>set cps. scalar_value n) \<and> s = concat (map utf8_encode cps)"
  then obtain cps where "\<forall>n\<in>set cps. scalar_value n" "s = concat (map utf8_encode cps)" by blast
  then show "valid_utf8 s"
    by (induction cps arbitrary: s) (auto simp: valid_utf8_encode)
qed

theorem valid_utf8_iff_witness:
  "valid_utf8 (concat (map utf8_encode [0x41, 0xE9, 0x20AC, 0x1F600]))"
  unfolding valid_utf8_iff by (intro exI [of _ "[0x41, 0xE9, 0x20AC, 0x1F600]"]) (simp add: scalar_value_def)

end
