(* ===== verification/Csv_Row.thy ===== *)
theory Csv_Row
  imports Prelude
begin

text \<open>
  The CSV row reader of the report parser (\<open>parseCsvRow\<close> of \<open>indexing/archive_parser.cpp\<close>): one
  pass over the bytes with the current field and the two flags \<open>quoted\<close> and \<open>quote_closed\<close>.
  \<open>parse_csv_row_iff\<close> compares it with a grammar of rows: cells are joined by commas, a cell is bare
  (no comma, no quote) or quoted with its quotes doubled.
\<close>

abbreviation quote_char :: char where "quote_char \<equiv> CHR 0x22"
abbreviation comma :: char where "comma \<equiv> CHR 0x2C"

fun csv_loop :: "string \<Rightarrow> string \<Rightarrow> bool \<Rightarrow> bool \<Rightarrow> string list \<Rightarrow> string list option" where
  "csv_loop [] field quoted quote_closed fields = (if quoted then None else Some (fields @ [field]))"
| "csv_loop (ch # rest) field quoted quote_closed fields =
     (if quoted
      then if ch = quote_char
           then if rest \<noteq> [] \<and> hd rest = quote_char
                then csv_loop (tl rest) (field @ [quote_char]) True quote_closed fields
                else csv_loop rest field False True fields
           else csv_loop rest (field @ [ch]) True quote_closed fields
      else if quote_closed
      then if ch \<noteq> comma then None else csv_loop rest [] False False (fields @ [field])
      else if ch = comma then csv_loop rest [] False False (fields @ [field])
      else if ch = quote_char
      then if field \<noteq> [] then None else csv_loop rest field True False fields
      else csv_loop rest (field @ [ch]) False False fields)"

definition parse_csv_row :: "string \<Rightarrow> string list option" where
  "parse_csv_row line = csv_loop line [] False False []"

section \<open>Grammar\<close>

definition bare :: "string \<Rightarrow> bool" where
  "bare f \<longleftrightarrow> comma \<notin> set f \<and> quote_char \<notin> set f"

definition doubled :: "string \<Rightarrow> string" where
  "doubled f = concat (map (\<lambda>c. if c = quote_char then [quote_char, quote_char] else [c]) f)"

definition csv_cell :: "string \<Rightarrow> string \<Rightarrow> bool" where
  "csv_cell t f \<longleftrightarrow> t = f \<and> bare f \<or> t = quote_char # doubled f @ [quote_char]"

inductive csv_row :: "string \<Rightarrow> string list \<Rightarrow> bool" where
  one_cell: "csv_cell t f \<Longrightarrow> csv_row t [f]"
| more_cells: "csv_cell t f \<Longrightarrow> csv_row rest fs \<Longrightarrow> csv_row (t @ comma # rest) (f # fs)"

lemma doubled_simps [simp]: "doubled [] = []" "doubled (f @ g) = doubled f @ doubled g"
  "doubled [c] = (if c = quote_char then [quote_char, quote_char] else [c])"
  by (simp_all add: doubled_def)

lemma bare_snoc [simp]: "bare [] \<and> (bare (f @ [c]) \<longleftrightarrow> bare f \<and> c \<noteq> comma \<and> c \<noteq> quote_char)"
  by (auto simp: bare_def)

section \<open>The reader accepts the rows of the grammar\<close>

lemma csv_loop_bare: "bare t \<Longrightarrow> csv_loop (t @ rest) field False False fields =
    csv_loop rest (field @ t) False False fields"
  by (induction t arbitrary: field) (auto simp: bare_def)

lemma csv_loop_quoted:
  "rest = [] \<or> hd rest \<noteq> quote_char \<Longrightarrow>
     csv_loop (doubled f @ quote_char # rest) field True closed fields = csv_loop rest (field @ f) False True fields"
proof (induction f arbitrary: field)
  case (Cons c f)
  have "doubled (c # f) = doubled [c] @ doubled f" by (simp only: doubled_simps(2) [symmetric] append_Cons append_Nil)
  with Cons show ?case by auto
qed auto

lemma csv_loop_cell:
  assumes "csv_cell t f" and "rest = [] \<or> (\<exists>r. rest = comma # r)"
  shows "csv_loop (t @ rest) [] False False fields =
    (case rest of [] \<Rightarrow> Some (fields @ [f]) | _ # r \<Rightarrow> csv_loop r [] False False (fields @ [f]))"
  using assms csv_loop_bare [of f "[]" "[]" fields] unfolding csv_cell_def
  by (auto simp: csv_loop_bare csv_loop_quoted)

lemma csv_row_accepted: "csv_row line fs \<Longrightarrow> csv_loop line [] False False fields = Some (fields @ fs)"
proof (induction line fs arbitrary: fields rule: csv_row.induct)
  case (one_cell t f)
  from csv_loop_cell [OF one_cell, of "[]"] show ?case by simp
next
  case (more_cells t f rest fs)
  from csv_loop_cell [OF more_cells.hyps(1), of "comma # rest"] more_cells.IH show ?case by simp
qed

section \<open>What the reader accepts is a row\<close>

lemma csv_row_cons:
  assumes "csv_row rest gs" and "csv_cell t f"
  shows "csv_row (t @ comma # rest) (f # gs)"
  using assms by (rule more_cells [rotated])

lemma csv_loop_sound:
  "csv_loop rest field quoted closed fields = Some r \<Longrightarrow> \<not> (quoted \<and> closed) \<Longrightarrow>
   (\<not> quoted \<and> \<not> closed \<longrightarrow> bare field) \<Longrightarrow>
   \<exists>gs. r = fields @ gs \<and>
     csv_row ((if quoted then quote_char # doubled field
               else if closed then quote_char # doubled field @ [quote_char] else field) @ rest) gs"
proof (induction rest field quoted closed fields rule: csv_loop.induct)
  case (1 field quoted closed fields)
  then show ?case
    by (auto split: if_splits intro!: one_cell simp: csv_cell_def)
next
  case (2 ch rest field quoted closed fields)
  show ?case
  proof (cases quoted)
    case True
    then have nc: "\<not> closed" using "2.prems" by simp
    show ?thesis
    proof (cases "ch = quote_char")
      case v: True
      show ?thesis
      proof (cases "rest \<noteq> [] \<and> hd rest = quote_char")
        case h: True
        then have rest: "rest = quote_char # tl rest" by (cases rest) auto
        from "2.IH"(1) [OF True v h] "2.prems" True v h nc
        obtain gs where "r = fields @ gs" "csv_row ((quote_char # doubled (field @ [quote_char])) @ tl rest) gs"
          by auto
        moreover have "(quote_char # doubled (field @ [quote_char])) @ tl rest = (quote_char # doubled field) @ ch # rest"
          using v by (subst (2) rest) simp
        ultimately have "r = fields @ gs \<and> csv_row ((quote_char # doubled field) @ ch # rest) gs" by metis
        then show ?thesis unfolding if_P [OF True] by blast
      next
        case h: False
        from "2.IH"(2) [OF True v h] "2.prems" True v h nc show ?thesis by simp
      qed
    next
      case v: False
      from "2.IH"(3) [OF True v] "2.prems" True v nc show ?thesis by simp
    qed
  next
    case q: False
    show ?thesis
    proof (cases closed)
      case True
      with "2.prems" q have v: "ch = comma" by (simp split: if_splits)
      from "2.IH"(4) [OF q True] "2.prems" q True v obtain gs where
        "r = fields @ [field] @ gs" "csv_row rest gs" by auto
      with q True v csv_row_cons [of rest gs "quote_char # doubled field @ [quote_char]" field]
      show ?thesis by (intro exI [of _ "field # gs"]) (auto simp: csv_cell_def)
    next
      case c: False
      with "2.prems" q have b: "bare field" by simp
      show ?thesis
      proof (cases "ch = comma")
        case True
        from "2.IH"(5) [OF q c True] "2.prems" q c True obtain gs where
          "r = fields @ [field] @ gs" "csv_row rest gs" by auto
        with q c True b csv_row_cons [of rest gs field field]
        show ?thesis by (intro exI [of _ "field # gs"]) (auto simp: csv_cell_def)
      next
        case v: False
        show ?thesis
        proof (cases "ch = quote_char")
          case True
          with "2.prems" q c v have "field = []" by (simp split: if_splits)
          with "2.IH"(6) [OF q c v True] "2.prems" q c v True show ?thesis by simp
        next
          case w: False
          from "2.IH"(7) [OF q c v w] "2.prems" q c v w b show ?thesis by simp
        qed
      qed
    qed
  qed
qed

text \<open>
  C29: The row reader accepts a line exactly when it is a row of the grammar, and returns its fields
  with the doubled quotes undone; a quote inside a bare field, text after a closing quote and an
  unclosed quote are refused, and no line has two readings.
\<close>

theorem parse_csv_row_iff: "parse_csv_row line = Some fs \<longleftrightarrow> csv_row line fs"
proof
  assume "parse_csv_row line = Some fs"
  then show "csv_row line fs"
    using csv_loop_sound [of line "[]" False False "[]" fs] by (simp add: parse_csv_row_def)
qed (simp add: parse_csv_row_def csv_row_accepted)

end
