(* ===== verification/Strtod.thy ===== *)
theory Strtod
  imports Prelude Complex_Main
begin

text \<open>
  The C library's \<open>strtod\<close> (in the C locale) and IEEE 754 rounding, as far as
  \<open>parseFiniteNumber\<close> of \<open>indexing/archive_parser.cpp\<close> uses them. The parser accepts a text only
  if \<open>strtod\<close> consumes all of it, so only whole texts of the number grammar matter: white space, a
  sign, decimal digits with an optional point and exponent, or the hexadecimal form. Infinities and
  NaNs are refused by \<open>std::isfinite\<close>, as is a text that is no number. The result is the nearest
  double, as a rational; \<open>ERANGE\<close> is set on overflow and on a tiny inexact result.
\<close>

section \<open>Rounding to a double\<close>

fun ilog2 :: "nat \<Rightarrow> nat" where
  "ilog2 n = (if n < 2 then 0 else Suc (ilog2 (n div 2)))"

declare ilog2.simps [simp del]

definition pow_int :: "rat \<Rightarrow> int \<Rightarrow> rat" where
  "pow_int b e = (if 0 \<le> e then b ^ nat e else 1 / b ^ nat (- e))"

text \<open>The binary exponent of a positive rational: the greatest \<open>k\<close> with \<open>2 ^ k \<le> x\<close>.\<close>

definition binary_exponent :: "rat \<Rightarrow> int" where
  "binary_exponent x = (case quotient_of x of (a, b) \<Rightarrow>
     let k = int (ilog2 (nat a)) - int (ilog2 (nat b))
     in if pow_int 2 k \<le> x then k else k - 1)"

definition round_half_even :: "rat \<Rightarrow> int" where
  "round_half_even y = (let f = \<lfloor>y\<rfloor>; d = y - of_int f
     in if d < 1 / 2 \<or> d = 1 / 2 \<and> even f then f else f + 1)"

text \<open>Rounding to a multiple of \<open>2 ^ e\<close>.\<close>

definition round_at :: "int \<Rightarrow> rat \<Rightarrow> rat" where
  "round_at e x = of_int (round_half_even (x / pow_int 2 e)) * pow_int 2 e"

definition nearest_double :: "rat \<Rightarrow> rat" where
  "nearest_double x = (if x = 0 then 0
     else sgn x * round_at (max (- 1074) (binary_exponent \<bar>x\<bar> - 52)) \<bar>x\<bar>)"

definition double_range_error :: "rat \<Rightarrow> bool" where
  "double_range_error x \<longleftrightarrow> x \<noteq> 0 \<and>
     (\<bar>nearest_double x\<bar> \<ge> pow_int 2 1024 \<or>
      round_at (binary_exponent \<bar>x\<bar> - 52) \<bar>x\<bar> < pow_int 2 (- 1022) \<and> nearest_double x \<noteq> x)"

section \<open>The number grammar\<close>

definition is_hex_digit :: "char \<Rightarrow> bool" where
  "is_hex_digit c \<longleftrightarrow> is_digit c \<or> 65 \<le> byte c \<and> byte c \<le> 70 \<or> 97 \<le> byte c \<and> byte c \<le> 102"

definition hex_digit_val :: "char \<Rightarrow> nat" where
  "hex_digit_val c = (if is_digit c then byte c - 48 else if byte c \<le> 70 then byte c - 55 else byte c - 87)"

definition c_space :: "char \<Rightarrow> bool" where
  "c_space c \<longleftrightarrow> byte c = 32 \<or> 9 \<le> byte c \<and> byte c \<le> 13"

text \<open>An optional exponent that takes the rest of the text, after one of two letters.\<close>

definition exponent_rest :: "char \<Rightarrow> char \<Rightarrow> string \<Rightarrow> int option" where
  "exponent_rest lo up s = (case s of
       [] \<Rightarrow> Some 0
     | c # t \<Rightarrow>
         (let digits = (if t \<noteq> [] \<and> (hd t = CHR ''+'' \<or> hd t = CHR ''-'') then tl t else t)
          in if (c = lo \<or> c = up) \<and> digits \<noteq> [] \<and> list_all is_digit digits
             then Some (if hd t = CHR ''-'' then - int (digits_val digits) else int (digits_val digits))
             else None))"

text \<open>The digits before and after an optional point, and what follows.\<close>

definition mantissa :: "(char \<Rightarrow> bool) \<Rightarrow> string \<Rightarrow> string \<times> string \<times> string" where
  "mantissa digit s =
     (let whole = takeWhile digit s; rest = dropWhile digit s
      in if rest \<noteq> [] \<and> hd rest = CHR ''.''
         then (whole, takeWhile digit (tl rest), dropWhile digit (tl rest))
         else (whole, [], rest))"

definition decimal_value :: "string \<Rightarrow> rat option" where
  "decimal_value s = (case mantissa is_digit s of (whole, fraction, rest) \<Rightarrow>
     if whole = [] \<and> fraction = [] then None
     else map_option (\<lambda>e. of_nat (digits_val (whole @ fraction)) * pow_int 10 (e - int (length fraction)))
       (exponent_rest CHR ''e'' CHR ''E'' rest))"

definition hex_value :: "string \<Rightarrow> rat option" where
  "hex_value s = (case mantissa is_hex_digit s of (whole, fraction, rest) \<Rightarrow>
     if whole = [] \<and> fraction = [] then None
     else map_option (\<lambda>e. of_nat (foldl (\<lambda>acc c. acc * 16 + hex_digit_val c) 0 (whole @ fraction)) *
         pow_int 2 (e - 4 * int (length fraction)))
       (exponent_rest CHR ''p'' CHR ''P'' rest))"

definition unsigned_value :: "string \<Rightarrow> rat option" where
  "unsigned_value s =
     (if take 2 s = ''0x'' \<or> take 2 s = ''0X'' then hex_value (drop 2 s) else decimal_value s)"

definition number_value :: "string \<Rightarrow> rat option" where
  "number_value s = (let t = dropWhile c_space s
     in if t \<noteq> [] \<and> hd t = CHR ''-'' then map_option uminus (unsigned_value (tl t))
        else if t \<noteq> [] \<and> hd t = CHR ''+'' then unsigned_value (tl t)
        else unsigned_value t)"

text \<open>\<open>parseFiniteNumber\<close>; \<open>isFiniteNumber\<close> drops the number.\<close>

definition parse_finite_number :: "string \<Rightarrow> rat option" where
  "parse_finite_number s =
     (if s = [] then None
      else case number_value s of
          None \<Rightarrow> None
        | Some x \<Rightarrow> if double_range_error x then None else Some (nearest_double x))"

definition is_finite_number :: "string \<Rightarrow> bool" where
  "is_finite_number s \<longleftrightarrow> parse_finite_number s \<noteq> None"

end
