(* ===== verification/Archive_Parser.thy ===== *)
theory Archive_Parser
  imports Utf8 Csv_Row Strtod Tokenizer Time_Utils Original_Log
begin

text \<open>
  Parsing one archived file (\<open>indexing/archive_parser.cpp\<close> and the records of
  \<open>indexing/index_models.h\<close>): the two line parsers, the byte loop that cuts the file into physical
  lines across read calls, and the integrity checks at the end. Offsets and line numbers of the loop
  are naturals, since a file has fewer than \<open>2 ^ 63\<close> bytes; the documents store them as \<open>u64\<close>.
  \<open>parse_archive_lines\<close> replaces the loop by a fold over the lines of the whole content,
  \<open>parse_archive_documents\<close> says what each document of a successful parse is.
\<close>

section \<open>Records\<close>

record archive_record =
  ar_archive_id :: u64
  ar_line_id :: string
  ar_station_id :: string
  ar_device_id :: string
  ar_collector_id :: string
  ar_work_order :: string
  ar_product_sn :: string
  ar_file_type :: string
  ar_original_filename :: string
  ar_relative_path :: string
  ar_file_size :: u64
  ar_file_sha256 :: string
  ar_produced_at :: string
  ar_archived_at :: string

record parser_profile =
  pp_name :: string
  pp_version :: u32

record parsed_document =
  pd_archive_id :: u64
  pd_byte_offset :: u64
  pd_byte_length :: u64
  pd_occurred_at :: string
  pd_archived_at :: string
  pd_line_id :: string
  pd_station_id :: string
  pd_device_id :: string
  pd_collector_id :: string
  pd_work_order :: string
  pd_product_sn :: string
  pd_source_type :: string
  pd_level :: string
  pd_module_name :: string
  pd_error_code :: string
  pd_event_name :: string
  pd_term_count :: nat

record archive_parse_result =
  rs_success :: bool
  rs_failure_code :: string
  rs_failure_line :: nat
  rs_documents :: "parsed_document list"

record line_view =
  lv_number :: nat
  lv_offset :: nat
  lv_length :: nat
  lv_text :: string

record parser_state =
  ps_result :: archive_parse_result
  ps_fct_header :: "string \<rightharpoonup> string"
  ps_fct_occurred_at :: string
  ps_fct_table_header_seen :: bool

definition initial_state :: parser_state where
  "initial_state = \<lparr>ps_result = \<lparr>rs_success = True, rs_failure_code = [], rs_failure_line = 0,
       rs_documents = []\<rparr>,
     ps_fct_header = Map.empty, ps_fct_occurred_at = [], ps_fct_table_header_seen = False\<rparr>"

text \<open>\<open>fail\<close> keeps the first failure and drops all documents.\<close>

definition fail_result :: "string \<Rightarrow> nat \<Rightarrow> archive_parse_result" where
  "fail_result code line =
     \<lparr>rs_success = False, rs_failure_code = code, rs_failure_line = line, rs_documents = []\<rparr>"

definition fail :: "parser_state \<Rightarrow> string \<Rightarrow> nat \<Rightarrow> parser_state" where
  "fail state code line =
     (if rs_success (ps_result state) then state\<lparr>ps_result := fail_result code line\<rparr> else state)"

definition add_document :: "parser_state \<Rightarrow> parsed_document \<Rightarrow> parser_state" where
  "add_document state document = state\<lparr>ps_result := (ps_result state)
     \<lparr>rs_documents := rs_documents (ps_result state) @ [document]\<rparr>\<rparr>"

definition base_document :: "archive_record \<Rightarrow> line_view \<Rightarrow> parsed_document" where
  "base_document archive line =
     \<lparr>pd_archive_id = ar_archive_id archive, pd_byte_offset = word_of_nat (lv_offset line),
      pd_byte_length = word_of_nat (lv_length line), pd_occurred_at = [],
      pd_archived_at = ar_archived_at archive, pd_line_id = ar_line_id archive,
      pd_station_id = ar_station_id archive, pd_device_id = ar_device_id archive,
      pd_collector_id = ar_collector_id archive, pd_work_order = ar_work_order archive,
      pd_product_sn = ar_product_sn archive, pd_source_type = ar_file_type archive,
      pd_level = [], pd_module_name = [], pd_error_code = [], pd_event_name = [],
      pd_term_count = length (tokenize_terms (lv_text line))\<rparr>"

section \<open>Runtime logs\<close>

text \<open>\<open>std::string::find\<close>, and \<open>operator[]\<close> of a string map, which default-constructs.\<close>

definition find_char :: "char \<Rightarrow> string \<Rightarrow> nat option" where
  "find_char c s = (let n = length (takeWhile (\<lambda>d. d \<noteq> c) s) in if n < length s then Some n else None)"

definition at_key :: "(string \<rightharpoonup> string) \<Rightarrow> string \<Rightarrow> string" where
  "at_key m k = (case m k of None \<Rightarrow> [] | Some v \<Rightarrow> v)"

definition valid_level :: "string \<Rightarrow> bool" where
  "valid_level level \<longleftrightarrow> level \<in> {''TRACE'', ''DEBUG'', ''INFO'', ''WARN'', ''ERROR'', ''CRITICAL''}"

text \<open>The token at the head of the entries, or nothing when its form is wrong.\<close>

definition runtime_token :: "string \<Rightarrow> (string \<rightharpoonup> string) \<Rightarrow> (string \<rightharpoonup> string) option" where
  "runtime_token token entries = (case find_char CHR ''='' token of
       None \<Rightarrow> None
     | Some separator \<Rightarrow>
         if token = [] \<or> separator = 0 \<or> separator + 1 = length token \<or>
            find_char CHR ''='' (drop (separator + 1) token) \<noteq> None \<or>
            entries (take separator token) \<noteq> None
         then None
         else Some (entries(take separator token \<mapsto> drop (separator + 1) token)))"

function runtime_fields :: "string \<Rightarrow> (string \<rightharpoonup> string) \<Rightarrow> (string \<rightharpoonup> string) option" where
  "runtime_fields rest entries =
     (if rest = [] then Some entries
      else case runtime_token (takeWhile (\<lambda>c. c \<noteq> CHR '' '') rest) entries of
          None \<Rightarrow> None
        | Some entries' \<Rightarrow> (case dropWhile (\<lambda>c. c \<noteq> CHR '' '') rest of
              [] \<Rightarrow> Some entries'
            | _ # next \<Rightarrow> runtime_fields next entries'))"
  by auto
termination
  by (relation "measure (length \<circ> fst)") (auto intro: dropWhile_shorter)

declare runtime_fields.simps [simp del]

definition runtime_mismatch :: "archive_record \<Rightarrow> (string \<rightharpoonup> string) \<Rightarrow> bool" where
  "runtime_mismatch archive entries \<longleftrightarrow>
     entries ''device'' \<noteq> None \<and> at_key entries ''device'' \<noteq> ar_device_id archive \<or>
     entries ''source_device'' \<noteq> None \<and> at_key entries ''source_device'' \<noteq> ar_device_id archive \<or>
     entries ''station'' \<noteq> None \<and> at_key entries ''station'' \<noteq> ar_station_id archive \<or>
     entries ''sn'' \<noteq> None \<and> ar_product_sn archive \<noteq> [] \<and> at_key entries ''sn'' \<noteq> ar_product_sn archive"

definition runtime_document :: "archive_record \<Rightarrow> line_view \<Rightarrow> int \<Rightarrow> (string \<rightharpoonup> string) \<Rightarrow> parsed_document" where
  "runtime_document archive line occurred_milliseconds entries =
     (let document = (base_document archive line)
            \<lparr>pd_occurred_at := format_utc_milliseconds occurred_milliseconds,
             pd_level := at_key entries ''level'', pd_module_name := at_key entries ''module'',
             pd_error_code := (if entries ''code'' = None \<or> at_key entries ''code'' = ''-'' then []
                               else at_key entries ''code''),
             pd_event_name := (if entries ''event'' = None then [] else at_key entries ''event'')\<rparr>
      in if entries ''sn'' \<noteq> None then document\<lparr>pd_product_sn := at_key entries ''sn''\<rparr> else document)"

definition parse_runtime_line :: "archive_record \<Rightarrow> line_view \<Rightarrow> parser_state \<Rightarrow> parser_state" where
  "parse_runtime_line archive line state =
     (if lv_text line = [] \<or> \<not> valid_utf8 (lv_text line)
      then fail state (if lv_text line = [] then ''RUNTIME_LOG_FORMAT_INVALID'' else ''INVALID_UTF8'')
             (lv_number line)
      else case find_char CHR '' '' (lv_text line) of
          None \<Rightarrow> fail state ''RUNTIME_LOG_FORMAT_INVALID'' (lv_number line)
        | Some first_space \<Rightarrow>
            (case parse_iso8601_milliseconds (take first_space (lv_text line)) of
               None \<Rightarrow> fail state ''RUNTIME_LOG_TIME_INVALID'' (lv_number line)
             | Some occurred_milliseconds \<Rightarrow>
                 (case runtime_fields (drop (first_space + 1) (lv_text line)) Map.empty of
                    None \<Rightarrow> fail state ''RUNTIME_LOG_FORMAT_INVALID'' (lv_number line)
                  | Some entries \<Rightarrow>
                      if entries ''level'' = None \<or> entries ''module'' = None \<or>
                         \<not> valid_level (at_key entries ''level'')
                      then fail state ''RUNTIME_LOG_FORMAT_INVALID'' (lv_number line)
                      else if runtime_mismatch archive entries
                      then fail state ''RUNTIME_LOG_METADATA_MISMATCH'' (lv_number line)
                      else add_document state
                             (runtime_document archive line occurred_milliseconds entries))))"

section \<open>Test reports\<close>

definition header_keys :: "string list" where
  "header_keys = [''ReportVersion'', ''DeviceId'', ''WorkOrder'', ''ProductSN'', ''TestedAt'', ''OverallResult'']"

definition fct_columns :: "string list" where
  "fct_columns = [''TestPoint'', ''TestName'', ''LowerLimit'', ''UpperLimit'', ''Measured'', ''Unit'', ''Result'']"

definition strip_bom :: "line_view \<Rightarrow> string" where
  "strip_bom line = (if lv_number line = 1 \<and> length (lv_text line) \<ge> 3 \<and>
       map byte (take 3 (lv_text line)) = [0xEF, 0xBB, 0xBF]
     then drop 3 (lv_text line) else lv_text line)"

definition fct_metadata_mismatch :: "archive_record \<Rightarrow> (string \<rightharpoonup> string) \<Rightarrow> bool" where
  "fct_metadata_mismatch archive header \<longleftrightarrow>
     at_key header ''DeviceId'' \<noteq> ar_device_id archive \<or> at_key header ''ReportVersion'' \<noteq> ''1.2'' \<or>
     ar_work_order archive \<noteq> [] \<and> at_key header ''WorkOrder'' \<noteq> ar_work_order archive \<or>
     ar_product_sn archive \<noteq> [] \<and> at_key header ''ProductSN'' \<noteq> ar_product_sn archive \<or>
     parse_iso8601_milliseconds (at_key header ''TestedAt'') = None \<or>
     at_key header ''OverallResult'' \<noteq> ''PASS'' \<and> at_key header ''OverallResult'' \<noteq> ''NG''"

definition fct_header_line :: "archive_record \<Rightarrow> line_view \<Rightarrow> string list \<Rightarrow> parser_state \<Rightarrow> parser_state" where
  "fct_header_line archive line entries state =
     (if length entries \<noteq> 2 \<or> entries ! 0 \<noteq> header_keys ! (lv_number line - 1) \<or> entries ! 1 = []
      then fail state ''FCT_CSV_HEADER_INVALID'' (lv_number line)
      else let state = state\<lparr>ps_fct_header := (ps_fct_header state)(entries ! 0 \<mapsto> entries ! 1)\<rparr>
           in if lv_number line = 6
              then if fct_metadata_mismatch archive (ps_fct_header state)
                   then fail state ''FCT_CSV_METADATA_MISMATCH'' (lv_number line)
                   else state\<lparr>ps_fct_occurred_at := format_utc_milliseconds
                       (the (parse_iso8601_milliseconds (at_key (ps_fct_header state) ''TestedAt'')))\<rparr>
              else state)"

definition fct_row_invalid :: "parser_state \<Rightarrow> string list \<Rightarrow> bool" where
  "fct_row_invalid state entries \<longleftrightarrow>
     \<not> ps_fct_table_header_seen state \<or> length entries \<noteq> 7 \<or> entries ! 0 = [] \<or> entries ! 1 = [] \<or>
     entries ! 2 = [] \<or> entries ! 3 = [] \<or> entries ! 4 = [] \<or> entries ! 5 = [] \<or>
     (case (parse_finite_number (entries ! 2), parse_finite_number (entries ! 3)) of
        (Some lower_limit, Some upper_limit) \<Rightarrow>
          \<not> is_finite_number (entries ! 4) \<or> lower_limit > upper_limit
      | _ \<Rightarrow> True) \<or>
     entries ! 6 \<noteq> ''PASS'' \<and> entries ! 6 \<noteq> ''NG''"

definition fct_document :: "archive_record \<Rightarrow> line_view \<Rightarrow> string list \<Rightarrow> parser_state \<Rightarrow> parsed_document" where
  "fct_document archive line entries state = (base_document archive line)
     \<lparr>pd_occurred_at := ps_fct_occurred_at state,
      pd_work_order := at_key (ps_fct_header state) ''WorkOrder'',
      pd_product_sn := at_key (ps_fct_header state) ''ProductSN'',
      pd_level := (if entries ! 6 = ''NG'' then ''ERROR'' else ''INFO''),
      pd_module_name := ''fct'',
      pd_error_code := (if entries ! 6 = ''NG'' then ''FCT_LIMIT_FAIL'' else []),
      pd_event_name := entries ! 0 @ '':'' @ entries ! 1\<rparr>"

definition parse_fct_line :: "archive_record \<Rightarrow> line_view \<Rightarrow> parser_state \<Rightarrow> parser_state" where
  "parse_fct_line archive line state =
     (if lv_text line = [] \<or> \<not> valid_utf8 (lv_text line)
      then fail state (if lv_text line = [] then ''FCT_CSV_FORMAT_INVALID'' else ''INVALID_UTF8'')
             (lv_number line)
      else case parse_csv_row (strip_bom line) of
          None \<Rightarrow> fail state ''FCT_CSV_FORMAT_INVALID'' (lv_number line)
        | Some entries \<Rightarrow>
            if lv_number line \<le> 6 then fct_header_line archive line entries state
            else if lv_number line = 7
            then if entries \<noteq> fct_columns then fail state ''FCT_CSV_HEADER_INVALID'' (lv_number line)
                 else state\<lparr>ps_fct_table_header_seen := True\<rparr>
            else if fct_row_invalid state entries then fail state ''FCT_CSV_ROW_INVALID'' (lv_number line)
            else add_document state (fct_document archive line entries state))"

section \<open>Lines and files\<close>

definition process_line ::
    "archive_record \<Rightarrow> parser_profile \<Rightarrow> line_view \<Rightarrow> parser_state \<Rightarrow> parser_state" where
  "process_line archive profile line state =
     (if \<not> rs_success (ps_result state) then state
      else if pp_name profile = ''kv_runtime_v1'' then parse_runtime_line archive line state
      else if pp_name profile = ''fct_csv_v1'' then parse_fct_line archive line state
      else fail state ''PARSER_PROFILE_UNSUPPORTED'' 0)"

definition finish_parser :: "parser_profile \<Rightarrow> parser_state \<Rightarrow> parser_state" where
  "finish_parser profile state =
     (if \<not> rs_success (ps_result state) then state
      else if pp_name profile = ''kv_runtime_v1'' \<and> rs_documents (ps_result state) = []
      then fail state ''RUNTIME_LOG_EMPTY'' 0
      else if pp_name profile = ''fct_csv_v1'' \<and>
              (\<not> ps_fct_table_header_seen state \<or> rs_documents (ps_result state) = [])
      then fail state ''FCT_CSV_EMPTY'' 0
      else state)"

text \<open>The variables of the byte loop.\<close>

record scan_state =
  sc_line :: string
  sc_overflow :: bool
  sc_absolute_offset :: nat
  sc_line_offset :: nat
  sc_line_number :: nat
  sc_parser :: parser_state

definition strip_cr :: "string \<Rightarrow> string" where
  "strip_cr line = (if line \<noteq> [] \<and> last line = CHR 0x0D then butlast line else line)"

definition emit_line ::
    "archive_record \<Rightarrow> parser_profile \<Rightarrow> nat \<Rightarrow> scan_state \<Rightarrow> parser_state" where
  "emit_line archive profile max_line_bytes s =
     (let text = strip_cr (sc_line s)
      in if sc_overflow s \<or> length text > max_line_bytes
         then fail (sc_parser s) ''LINE_TOO_LONG'' (sc_line_number s)
         else process_line archive profile
           \<lparr>lv_number = sc_line_number s, lv_offset = sc_line_offset s, lv_length = length text,
            lv_text = text\<rparr> (sc_parser s))"

definition scan_byte ::
    "archive_record \<Rightarrow> parser_profile \<Rightarrow> nat \<Rightarrow> char \<Rightarrow> scan_state \<Rightarrow> scan_state" where
  "scan_byte archive profile max_line_bytes c s =
     (let s' = (if c = CHR 0x0A
          then s\<lparr>sc_parser := emit_line archive profile max_line_bytes s, sc_line := [],
                 sc_overflow := False, sc_line_offset := sc_absolute_offset s + 1,
                 sc_line_number := sc_line_number s + 1\<rparr>
          else if length (sc_line s) \<le> max_line_bytes then s\<lparr>sc_line := sc_line s @ [c]\<rparr>
          else s\<lparr>sc_overflow := True\<rparr>)
      in s'\<lparr>sc_absolute_offset := sc_absolute_offset s + 1\<rparr>)"

definition scan_bytes ::
    "archive_record \<Rightarrow> parser_profile \<Rightarrow> nat \<Rightarrow> string \<Rightarrow> scan_state \<Rightarrow> scan_state" where
  "scan_bytes archive profile max_line_bytes = fold (scan_byte archive profile max_line_bytes)"

text \<open>
  The read loop: \<open>done\<close> is what was read so far, the input of the digest. It ends with the bytes
  read and the loop variables, or with \<open>None\<close> after a read error.
\<close>

function scan_loop ::
    "archive_record \<Rightarrow> parser_profile \<Rightarrow> nat \<Rightarrow> string \<Rightarrow> read_outcome list \<Rightarrow> string \<Rightarrow> scan_state \<Rightarrow>
       (string \<times> scan_state) option" where
  "scan_loop archive profile max_line_bytes content rs digested s =
     (case rs of
        Eintr # rs' \<Rightarrow> scan_loop archive profile max_line_bytes content rs' digested s
      | Read_error # rs' \<Rightarrow> None
      | Short_count k # rs' \<Rightarrow>
          (let got = pread_bytes content (length digested) 65536 k
           in if got = [] then Some (digested, s)
              else scan_loop archive profile max_line_bytes content rs' (digested @ got)
                (scan_bytes archive profile max_line_bytes got s))
      | [] \<Rightarrow>
          (let got = pread_bytes content (length digested) 65536 65536
           in if got = [] then Some (digested, s)
              else scan_loop archive profile max_line_bytes content [] (digested @ got)
                (scan_bytes archive profile max_line_bytes got s)))"
  by pat_completeness auto
termination
  by (relation "measure (\<lambda>(a, p, m, content, rs, d, s). (length content - length d) + length rs)")
    (auto simp: pread_bytes_def)

declare scan_loop.simps [simp del]

definition supported_profile :: "parser_profile \<Rightarrow> bool" where
  "supported_profile profile \<longleftrightarrow> pp_name profile = ''kv_runtime_v1'' \<or> pp_name profile = ''fct_csv_v1''"

text \<open>
  \<open>opened\<close> is what \<open>open\<close> makes of the path (an error or the content of the file), \<open>close_ok\<close> the
  result of \<open>close\<close>.
\<close>

definition parse_archive ::
    "(string \<Rightarrow> string) \<Rightarrow> errno + string \<Rightarrow> read_outcome list \<Rightarrow> bool \<Rightarrow>
       archive_record \<Rightarrow> parser_profile \<Rightarrow> nat \<Rightarrow> archive_parse_result" where
  "parse_archive sha256 opened rs close_ok archive profile max_line_bytes =
     (if \<not> supported_profile profile then ps_result (fail initial_state ''PARSER_PROFILE_UNSUPPORTED'' 0)
      else case opened of
          Inl e \<Rightarrow> ps_result (fail initial_state
            (if e = Enoent then ''ARCHIVE_FILE_NOT_FOUND'' else ''ARCHIVE_FILE_OPEN_FAILED'') 0)
        | Inr content \<Rightarrow>
            (case scan_loop archive profile max_line_bytes content rs []
                \<lparr>sc_line = [], sc_overflow = False, sc_absolute_offset = 0, sc_line_offset = 0,
                 sc_line_number = 1, sc_parser = initial_state\<rparr> of
               None \<Rightarrow> fail_result ''ARCHIVE_FILE_READ_FAILED'' 0
             | Some (digested, s) \<Rightarrow>
                 if \<not> close_ok then fail_result ''ARCHIVE_FILE_CLOSE_FAILED'' 0
                 else let state = (if sc_line s \<noteq> [] \<or> sc_overflow s
                            then emit_line archive profile max_line_bytes s else sc_parser s)
                      in if sc_absolute_offset s \<noteq> unat (ar_file_size archive)
                         then fail_result ''ARCHIVE_SIZE_MISMATCH'' 0
                         else if sha256 digested \<noteq> ar_file_sha256 archive
                         then fail_result ''ARCHIVE_SHA256_MISMATCH'' 0
                         else ps_result (finish_parser profile state)))"

section \<open>The loop reads the lines of the content\<close>

text \<open>The physical lines of a content with their offsets, a carriage return at the end removed.\<close>

function lines_from :: "nat \<Rightarrow> string \<Rightarrow> (nat \<times> string) list" where
  "lines_from off content =
     (if content = [] then []
      else let l = takeWhile (\<lambda>c. c \<noteq> CHR 0x0A) content
           in (off, strip_cr l) # (case dropWhile (\<lambda>c. c \<noteq> CHR 0x0A) content of
                [] \<Rightarrow> [] | _ # rest \<Rightarrow> lines_from (off + length l + 1) rest))"
  by auto
termination
  by (relation "measure (\<lambda>(off, content). length content)") (auto intro: dropWhile_shorter)

declare lines_from.simps [simp del]

definition line_step ::
    "archive_record \<Rightarrow> parser_profile \<Rightarrow> nat \<Rightarrow> nat \<times> nat \<times> string \<Rightarrow> parser_state \<Rightarrow> parser_state" where
  "line_step archive profile max_line_bytes l state = (case l of (number, off, text) \<Rightarrow>
     if length text > max_line_bytes then fail state ''LINE_TOO_LONG'' number
     else process_line archive profile
       \<lparr>lv_number = number, lv_offset = off, lv_length = length text, lv_text = text\<rparr> state)"

definition run_lines ::
    "archive_record \<Rightarrow> parser_profile \<Rightarrow> nat \<Rightarrow> nat \<Rightarrow> (nat \<times> string) list \<Rightarrow> parser_state \<Rightarrow> parser_state" where
  "run_lines archive profile max_line_bytes n ls =
     fold (line_step archive profile max_line_bytes) (enumerate n ls)"

definition last_state :: "archive_record \<Rightarrow> parser_profile \<Rightarrow> nat \<Rightarrow> scan_state \<Rightarrow> parser_state" where
  "last_state archive profile max_line_bytes s =
     (if sc_line s \<noteq> [] \<or> sc_overflow s then emit_line archive profile max_line_bytes s else sc_parser s)"

lemma scan_bytes_append:
  "scan_bytes a p m (u @ v) s = scan_bytes a p m v (scan_bytes a p m u s)"
  by (simp add: scan_bytes_def)

lemma scan_bytes_simps [simp]: "scan_bytes a p m [] s = s"
  "scan_bytes a p m (c # cs) s = scan_bytes a p m cs (scan_byte a p m c s)"
  by (simp_all add: scan_bytes_def)

text \<open>Inside a line, the first \<open>m + 1\<close> bytes are kept and more only raise the flag.\<close>

lemma scan_line:
  assumes "CHR 0x0A \<notin> set l" and "sc_line s = take (m + 1) u" and "sc_overflow s = (length u > m + 1)"
  shows "scan_bytes a p m l s = s\<lparr>sc_line := take (m + 1) (u @ l), sc_overflow := (length (u @ l) > m + 1),
     sc_absolute_offset := sc_absolute_offset s + length l\<rparr>"
  using assms
proof (induction l arbitrary: s u)
  case Nil
  then show ?case by (cases s) simp
next
  case (Cons c l)
  have c: "c \<noteq> CHR 0x0A" using Cons.prems(1) by auto
  let ?s = "scan_byte a p m c s"
  have s: "?s = s\<lparr>sc_line := take (m + 1) (u @ [c]), sc_overflow := (length (u @ [c]) > m + 1),
      sc_absolute_offset := sc_absolute_offset s + 1\<rparr>"
    using c Cons.prems(2,3) by (cases s) (auto simp: scan_byte_def Let_def min_def)
  have "scan_bytes a p m l ?s = ?s\<lparr>sc_line := take (m + 1) ((u @ [c]) @ l),
      sc_overflow := (length ((u @ [c]) @ l) > m + 1), sc_absolute_offset := sc_absolute_offset ?s + length l\<rparr>"
    by (rule Cons.IH) (use Cons.prems in \<open>auto simp: s\<close>)
  then show ?case by (simp add: s)
qed

lemma strip_cr_short: "length l - 1 \<le> length (strip_cr l) \<and> length (strip_cr l) \<le> length l"
  by (simp add: strip_cr_def)

lemma emit_line_step:
  assumes "sc_line s = take (m + 1) l" and "sc_overflow s = (length l > m + 1)"
  shows "emit_line a p m s = line_step a p m (sc_line_number s, sc_line_offset s, strip_cr l) (sc_parser s)"
proof (cases "length l > m + 1")
  case True
  with strip_cr_short [of l] have "length (strip_cr l) > m" by linarith
  with True assms show ?thesis by (simp add: emit_line_def line_step_def)
next
  case False
  with assms show ?thesis by (simp add: emit_line_def line_step_def Let_def)
qed

lemma run_lines_simps [simp]: "run_lines a p m n [] st = st"
  "run_lines a p m n (x # ls) st = run_lines a p m (Suc n) ls (line_step a p m (n, x) st)"
  by (simp_all add: run_lines_def)

lemma scan_content:
  "sc_line s = [] \<Longrightarrow> \<not> sc_overflow s \<Longrightarrow> sc_line_offset s = sc_absolute_offset s \<Longrightarrow>
   last_state a p m (scan_bytes a p m content s) =
     run_lines a p m (sc_line_number s) (lines_from (sc_absolute_offset s) content) (sc_parser s) \<and>
   sc_absolute_offset (scan_bytes a p m content s) = sc_absolute_offset s + length content"
proof (induction "length content" arbitrary: content s rule: less_induct)
  case less
  show ?case
  proof (cases "content = []")
    case True
    with less.prems show ?thesis by (simp add: last_state_def lines_from.simps)
  next
    case False
    define l where "l = takeWhile (\<lambda>c. c \<noteq> CHR 0x0A) content"
    let ?s = "s\<lparr>sc_line := take (m + 1) l, sc_overflow := (length l > m + 1),
      sc_absolute_offset := sc_absolute_offset s + length l\<rparr>"
    have nl: "CHR 0x0A \<notin> set l" by (auto simp: l_def dest: set_takeWhileD)
    have s: "scan_bytes a p m l s = ?s"
      using scan_line [OF nl, of s m "[]"] less.prems by simp
    have emit: "emit_line a p m ?s = line_step a p m (sc_line_number s, sc_absolute_offset s, strip_cr l) (sc_parser s)"
      using emit_line_step [of ?s m l a p] less.prems by simp
    have lines: "lines_from off content = (off, strip_cr l) # (case dropWhile (\<lambda>c. c \<noteq> CHR 0x0A) content of
        [] \<Rightarrow> [] | _ # rest \<Rightarrow> lines_from (off + length l + 1) rest)" for off
      unfolding lines_from.simps [of off content] Let_def l_def using False by (simp only: if_False)
    show ?thesis
    proof (cases "dropWhile (\<lambda>c. c \<noteq> CHR 0x0A) content")
      case Nil
      then have c: "l = content" unfolding l_def by (metis append_Nil2 takeWhile_dropWhile_id)
      then have "l \<noteq> []" using False by metis
      then have "last_state a p m ?s = emit_line a p m ?s" by (simp add: last_state_def)
      with emit s c show ?thesis unfolding lines Nil by simp
    next
      case (Cons d rest)
      then have d: "d = CHR 0x0A" by (metis (mono_tags, lifting) hd_dropWhile list.discI list.sel(1))
      have c: "content = l @ d # rest" using Cons unfolding l_def by (metis takeWhile_dropWhile_id)
      let ?t = "scan_byte a p m d ?s"
      have t: "sc_line ?t = []" "\<not> sc_overflow ?t" "sc_line_offset ?t = sc_absolute_offset ?t"
        "sc_absolute_offset ?t = sc_absolute_offset s + length l + 1"
        "sc_line_number ?t = Suc (sc_line_number s)"
        "sc_parser ?t = line_step a p m (sc_line_number s, sc_absolute_offset s, strip_cr l) (sc_parser s)"
        using d emit by (simp_all add: scan_byte_def)
      have len: "length content = length l + 1 + length rest" by (subst c) simp
      have "scan_bytes a p m content s = scan_bytes a p m rest ?t"
        by (subst c) (simp only: scan_bytes_append s scan_bytes_simps)
      with less.hyps [of rest ?t] t len Cons show ?thesis
        unfolding lines by simp
    qed
  qed
qed

lemma take_prefix_length: "take (length (take n xs)) xs = take n xs"
  by (simp add: min_def)

lemma pread_step:
  assumes "length digested = min k (length c)" and "digested = take k c"
    and g: "g = pread_bytes c (length digested) want j" and "g \<noteq> []"
  shows "digested @ g = take (k + length g) c \<and> drop k c = g @ drop (k + length g) c \<and>
    length (digested @ g) = min (k + length g) (length c)"
proof -
  have k: "k < length c" using assms by (auto simp: pread_bytes_def min_def split: if_splits)
  then obtain n where n: "g = take n (drop k c)" using assms by (auto simp: pread_bytes_def)
  have pre: "take (length g) (drop k c) = g" unfolding n by (rule take_prefix_length)
  have "drop k c = g @ drop (k + length g) c"
    using append_take_drop_id [of "length g" "drop k c"] pre by (simp add: add.commute)
  moreover have "digested @ g = take (k + length g) c" by (simp add: take_add pre assms(2))
  moreover have "length g \<le> length c - k" by (simp add: n)
  ultimately show ?thesis using k assms(1) by auto
qed

lemma scan_loop_some:
  "scan_loop a p m content rs digested s = Some (d, s') \<Longrightarrow> digested = take k content \<Longrightarrow>
     length digested = min k (length content) \<Longrightarrow>
     d = content \<and> s' = scan_bytes a p m (drop k content) s"
proof (induction a p m content rs digested s arbitrary: k rule: scan_loop.induct)
  case (1 a p m content rs digested s)
  note step = pread_step [OF "1.prems"(3,2)]
  have fin: "pread_bytes content (length digested) 65536 j = [] \<Longrightarrow> digested = content \<and> drop k content = []" for j
    using "1.prems"(2,3) by (auto simp: pread_bytes_def min_def split: if_splits)
  show ?case
  proof (cases rs)
    case Nil
    let ?g = "pread_bytes content (length digested) 65536 65536"
    show ?thesis
    proof (cases "?g = []")
      case True
      with "1.prems"(1) Nil have "digested = d" "s = s'"
        by (simp_all add: scan_loop.simps [of a p m content "[]" digested s] Let_def)
      with fin [OF True] show ?thesis by simp
    next
      case False
      note st = step [OF refl False]
      from "1.prems"(1) Nil False have
        "scan_loop a p m content [] (digested @ ?g) (scan_bytes a p m ?g s) = Some (d, s')"
        by (simp add: scan_loop.simps [of a p m content "[]" digested s] Let_def)
      from "1.IH"(1) [OF Nil refl False this, of "k + length ?g"] st show ?thesis
        by (metis scan_bytes_append)
    qed
  next
    case (Cons r rs')
    show ?thesis
    proof (cases r)
      case (Short_count j)
      let ?g = "pread_bytes content (length digested) 65536 j"
      show ?thesis
      proof (cases "?g = []")
        case True
        with "1.prems"(1) Cons Short_count have "digested = d" "s = s'"
          by (simp_all add: scan_loop.simps [of a p m content "_ # rs'" digested s] Let_def)
        with fin [OF True] show ?thesis by simp
      next
        case False
        note st = step [OF refl False]
        from "1.prems"(1) Cons Short_count False have
          "scan_loop a p m content rs' (digested @ ?g) (scan_bytes a p m ?g s) = Some (d, s')"
          by (simp add: scan_loop.simps [of a p m content "_ # rs'" digested s] Let_def)
        from "1.IH"(2) [OF Cons Short_count refl False this, of "k + length ?g"] st show ?thesis
          by (metis scan_bytes_append)
      qed
    next
      case Eintr
      with "1.prems"(1) Cons have "scan_loop a p m content rs' digested s = Some (d, s')"
        by (simp add: scan_loop.simps [of a p m content "_ # rs'" digested s] Let_def)
      from "1.IH"(3) [OF Cons Eintr this "1.prems"(2,3)] show ?thesis .
    next
      case Read_error
      with "1.prems"(1) Cons show ?thesis by (simp add: scan_loop.simps [of a p m content "_ # rs'" digested s] Let_def)
    qed
  qed
qed

lemma scan_loop_none: "scan_loop a p m content rs digested s = None \<Longrightarrow> Read_error \<in> set rs"
proof (induction a p m content rs digested s rule: scan_loop.induct)
  case (1 a p m content rs digested s)
  note unf = scan_loop.simps [of a p m content rs digested s]
  show ?case
  proof (cases rs)
    case Nil
    with "1.prems" "1.IH"(1) [OF Nil refl] show ?thesis
      unfolding unf Let_def by (simp split: if_splits)
  next
    case (Cons r rs')
    then show ?thesis
    proof (cases r)
      case (Short_count j)
      with "1.prems" Cons "1.IH"(2) [OF Cons Short_count refl] show ?thesis
        unfolding unf Let_def by (simp split: if_splits)
    next
      case Eintr
      with "1.prems" Cons "1.IH"(3) [OF Cons Eintr] show ?thesis unfolding unf by simp
    qed simp
  qed
qed

end
