(* ===== verification/Parsed_Documents.thy ===== *)
theory Parsed_Documents
  imports Archive_Parser
begin

text \<open>
  What a successful parse of an archive yields: \<open>parser_inv\<close> is kept by every line, so each document
  names a line of the content with its term count, in the order of the file, and a failure leaves no
  document behind.
\<close>

section \<open>What the documents are\<close>

text \<open>\<open>raw_at\<close> is the byte range a document names.\<close>

definition raw_at :: "string \<Rightarrow> u64 \<Rightarrow> u64 \<Rightarrow> string" where
  "raw_at content off len = take (unat len) (drop (unat off) content)"

text \<open>
  A document of the archive: its range lies in the content, is one valid UTF-8 line, has the recorded
  number of terms; its metadata are the archive's and its time is a rendered instant.
\<close>

definition document_of :: "archive_record \<Rightarrow> string \<Rightarrow> parsed_document \<Rightarrow> bool" where
  "document_of archive content d \<longleftrightarrow>
     (let raw = raw_at content (pd_byte_offset d) (pd_byte_length d)
      in length raw = unat (pd_byte_length d) \<and> raw \<noteq> [] \<and> CHR 0x0A \<notin> set raw \<and> valid_utf8 raw \<and>
         pd_term_count d = length (tokenize_terms raw)) \<and>
     pd_archive_id d = ar_archive_id archive \<and> pd_archived_at d = ar_archived_at archive \<and>
     pd_line_id d = ar_line_id archive \<and> pd_station_id d = ar_station_id archive \<and>
     pd_device_id d = ar_device_id archive \<and> pd_collector_id d = ar_collector_id archive \<and>
     pd_source_type d = ar_file_type archive \<and> valid_level (pd_level d) \<and>
     (\<exists>ms. pd_occurred_at d = format_utc_milliseconds ms)"

definition before :: "parsed_document \<Rightarrow> parsed_document \<Rightarrow> bool" where
  "before d e \<longleftrightarrow> unat (pd_byte_offset d) + unat (pd_byte_length d) < unat (pd_byte_offset e)"

text \<open>A line view that names its text in the content.\<close>

definition line_of :: "string \<Rightarrow> line_view \<Rightarrow> bool" where
  "line_of content l \<longleftrightarrow> take (lv_length l) (drop (lv_offset l) content) = lv_text l \<and>
     length (lv_text l) = lv_length l \<and> lv_offset l + lv_length l \<le> length content \<and>
     CHR 0x0A \<notin> set (lv_text l)"

abbreviation docs :: "parser_state \<Rightarrow> parsed_document list" where
  "docs st \<equiv> rs_documents (ps_result st)"

lemma fail_docs [simp]: "rs_success (ps_result st) \<Longrightarrow> docs (fail st code n) = []"
  "\<not> rs_success (ps_result (fail st code n))"
  by (auto simp: fail_def fail_result_def)

lemma add_document_simps [simp]: "docs (add_document st d) = docs st @ [d]"
  "rs_success (ps_result (add_document st d)) = rs_success (ps_result st)"
  "ps_fct_occurred_at (add_document st d) = ps_fct_occurred_at st"
  by (simp_all add: add_document_def)

lemma base_document_of:
  assumes "line_of content l" and "length content < 2 ^ 64" and "lv_text l \<noteq> []" and "valid_utf8 (lv_text l)"
  shows "raw_at content (word_of_nat (lv_offset l)) (word_of_nat (lv_length l)) = lv_text l"
    "unat (word_of_nat (lv_offset l) :: u64) = lv_offset l"
    "unat (word_of_nat (lv_length l) :: u64) = lv_length l"
proof -
  have "lv_offset l < 2 ^ 64" "lv_length l < 2 ^ 64" using assms by (auto simp: line_of_def)
  then show "unat (word_of_nat (lv_offset l) :: u64) = lv_offset l"
    "unat (word_of_nat (lv_length l) :: u64) = lv_length l"
    by (simp_all add: unat_of_nat take_bit_nat_eq_self)
  then show "raw_at content (word_of_nat (lv_offset l)) (word_of_nat (lv_length l)) = lv_text l"
    using assms by (simp add: raw_at_def line_of_def)
qed

text \<open>The state after the lines before number \<open>n\<close>, all of which end before \<open>bound\<close>.\<close>

definition parser_inv :: "archive_record \<Rightarrow> parser_profile \<Rightarrow> string \<Rightarrow> nat \<Rightarrow> nat \<Rightarrow> parser_state \<Rightarrow> bool" where
  "parser_inv archive profile content n bound st \<longleftrightarrow>
     (\<forall>d\<in>set (docs st). document_of archive content d \<and>
        unat (pd_byte_offset d) + unat (pd_byte_length d) < bound) \<and>
     sorted_wrt before (docs st) \<and>
     (rs_success (ps_result st) \<and> pp_name profile = ''fct_csv_v1'' \<and> n > 6 \<longrightarrow>
        (\<exists>ms. ps_fct_occurred_at st = format_utc_milliseconds ms)) \<and>
     (\<not> rs_success (ps_result st) \<longrightarrow> docs st = [] \<and> rs_failure_code (ps_result st) \<noteq> [])"

lemma parser_inv_fail: "rs_success (ps_result st) \<Longrightarrow> code \<noteq> [] \<Longrightarrow> parser_inv archive profile content n bound (fail st code k)"
  by (simp add: parser_inv_def fail_def fail_result_def)

lemma parser_inv_mono: "parser_inv archive profile content n bound st \<Longrightarrow> bound \<le> bound' \<Longrightarrow>
    \<not> rs_success (ps_result st) \<Longrightarrow> parser_inv archive profile content n' bound' st"
  by (auto simp: parser_inv_def)

lemma parser_inv_add:
  assumes inv: "parser_inv archive profile content n bound st" and suc: "rs_success (ps_result st)"
    and d: "document_of archive content d" and off: "bound \<le> unat (pd_byte_offset d)"
    and bound': "unat (pd_byte_offset d) + unat (pd_byte_length d) < bound'" and n: "n > 6 \<or> n' \<le> 6 \<or> pp_name profile \<noteq> ''fct_csv_v1''"
  shows "parser_inv archive profile content n' bound' (add_document st d)"
  using inv suc d off bound' n unfolding parser_inv_def
  by (auto simp: sorted_wrt_append before_def; force)

lemma parse_runtime_inv:
  assumes inv: "parser_inv archive profile content n bound st" and suc: "rs_success (ps_result st)"
    and p: "pp_name profile = ''kv_runtime_v1''"
    and l: "line_of content l" "length content < 2 ^ 64" "bound \<le> lv_offset l"
    and bound': "lv_offset l + lv_length l < bound'"
  shows "parser_inv archive profile content n' bound' (parse_runtime_line archive l st)"
proof (cases "lv_text l = [] \<or> \<not> valid_utf8 (lv_text l)")
  case True
  with suc show ?thesis by (auto simp: parse_runtime_line_def intro!: parser_inv_fail)
next
  case False
  then have t: "lv_text l \<noteq> []" "valid_utf8 (lv_text l)" by auto
  note b = base_document_of [OF l(1,2) t]
  have "parser_inv archive profile content n' bound'
      (add_document st (runtime_document archive l ms entries))"
    if "valid_level (at_key entries ''level'')" for ms entries
  proof (rule parser_inv_add [OF inv suc])
    show "document_of archive content (runtime_document archive l ms entries)"
      using that b l t by (auto simp: document_of_def runtime_document_def base_document_def Let_def line_of_def)
  qed (use b l bound' p in \<open>auto simp: runtime_document_def base_document_def Let_def\<close>)
  then show ?thesis
    using False suc by (auto simp: parse_runtime_line_def split: option.splits intro!: parser_inv_fail)
qed

lemma parse_fct_inv:
  assumes inv: "parser_inv archive profile content (lv_number l) bound st" and suc: "rs_success (ps_result st)"
    and p: "pp_name profile = ''fct_csv_v1''"
    and l: "line_of content l" "length content < 2 ^ 64" "bound \<le> lv_offset l"
    and bound': "lv_offset l + lv_length l < bound'"
  shows "parser_inv archive profile content (Suc (lv_number l)) bound' (parse_fct_line archive l st)"
proof (cases "lv_text l = [] \<or> \<not> valid_utf8 (lv_text l)")
  case True
  with suc show ?thesis by (auto simp: parse_fct_line_def intro!: parser_inv_fail)
next
  case False
  then have t: "lv_text l \<noteq> []" "valid_utf8 (lv_text l)" by auto
  note b = base_document_of [OF l(1,2) t]
  have old: "\<forall>d\<in>set (docs st). document_of archive content d \<and> unat (pd_byte_offset d) + unat (pd_byte_length d) < bound'"
    "sorted_wrt before (docs st)"
    using inv l bound' by (fastforce simp: parser_inv_def)+
  have header: "parser_inv archive profile content (Suc (lv_number l)) bound' (fct_header_line archive l fs st)"
    if "lv_number l \<le> 6" for fs
    using that suc old
    by (auto simp: fct_header_line_def Let_def parser_inv_def fail_def fail_result_def)
  have seven: "parser_inv archive profile content (Suc (lv_number l)) bound' (st\<lparr>ps_fct_table_header_seen := True\<rparr>)"
    if "lv_number l = 7"
    using that suc old inv by (simp add: parser_inv_def)
  have row: "parser_inv archive profile content (Suc (lv_number l)) bound' (add_document st (fct_document archive l fs st))"
    if "lv_number l > 6" and "pp_name profile = ''fct_csv_v1''" for fs
  proof (rule parser_inv_add [OF inv suc])
    from inv suc that obtain ms where "ps_fct_occurred_at st = format_utc_milliseconds ms"
      by (auto simp: parser_inv_def)
    then show "document_of archive content (fct_document archive l fs st)"
      using b l t by (auto simp: document_of_def fct_document_def base_document_def line_of_def valid_level_def)
  qed (use b l bound' that in \<open>auto simp: fct_document_def base_document_def\<close>)
  from p False suc header seven row show ?thesis
    by (auto simp: parse_fct_line_def split: option.splits intro!: parser_inv_fail)
qed

lemma line_step_inv:
  assumes inv: "parser_inv archive profile content n bound st" and p: "supported_profile profile"
    and l: "take (length t) (drop off content) = t" "off + length t \<le> length content" "CHR 0x0A \<notin> set t"
    and len: "length content < 2 ^ 64" and bound: "bound \<le> off" "off + length t < bound'"
  shows "parser_inv archive profile content (Suc n) bound' (line_step archive profile m (n, off, t) st)"
proof (cases "rs_success (ps_result st)")
  case False
  then have "line_step archive profile m (n, off, t) st = st"
    by (simp add: line_step_def fail_def process_line_def)
  with parser_inv_mono [OF inv _ False] bound show ?thesis by simp
next
  case True
  let ?l = "\<lparr>lv_number = n, lv_offset = off, lv_length = length t, lv_text = t\<rparr>"
  have lo: "line_of content ?l" using l by (simp add: line_of_def)
  have b: "bound \<le> lv_offset ?l" "lv_offset ?l + lv_length ?l < bound'" using bound by simp_all
  have inv': "parser_inv archive profile content (lv_number ?l) bound st" using inv by simp
  show ?thesis
  proof (cases "pp_name profile = ''kv_runtime_v1''")
    case kv: True
    from parse_runtime_inv [OF inv True kv lo len b] True kv show ?thesis
      by (simp add: line_step_def process_line_def parser_inv_fail)
  next
    case False
    with p have csv: "pp_name profile = ''fct_csv_v1''" by (simp add: supported_profile_def)
    from parse_fct_inv [OF inv' True csv lo len b] True csv show ?thesis
      by (simp add: line_step_def process_line_def parser_inv_fail)
  qed
qed

lemma strip_cr_take: "strip_cr l = take (length (strip_cr l)) l" "length (strip_cr l) \<le> length l"
  "set (strip_cr l) \<subseteq> set l"
  by (auto simp: strip_cr_def butlast_conv_take dest: in_set_takeD)

lemma run_lines_inv:
  "parser_inv archive profile content n off st \<Longrightarrow> supported_profile profile \<Longrightarrow> length content < 2 ^ 64 \<Longrightarrow>
   rest = drop off content \<Longrightarrow> off \<le> length content \<Longrightarrow>
   \<exists>k b. parser_inv archive profile content k b (run_lines archive profile m n (lines_from off rest) st)"
proof (induction off rest arbitrary: n st rule: lines_from.induct)
  case (1 off rest)
  show ?case
  proof (cases "rest = []")
    case True
    have "lines_from off rest = []" unfolding lines_from.simps [of off rest] using True by simp
    with "1.prems"(1) show ?thesis by auto
  next
    case False
    define l where "l = takeWhile (\<lambda>c. c \<noteq> CHR 0x0A) rest"
    have lines: "lines_from off rest = (off, strip_cr l) # (case dropWhile (\<lambda>c. c \<noteq> CHR 0x0A) rest of
        [] \<Rightarrow> [] | _ # r \<Rightarrow> lines_from (off + length l + 1) r)"
      unfolding lines_from.simps [of off rest] Let_def l_def using False by (simp only: if_False)
    have pre: "take (length l) rest = l" unfolding l_def by (metis takeWhile_eq_take take_prefix_length)
    have "length l \<le> length rest" unfolding l_def by (rule length_takeWhile_le)
    with "1.prems"(4,5) have len: "off + length l \<le> length content" by simp
    have t: "take (length (strip_cr l)) (drop off content) = strip_cr l"
      using strip_cr_take(1,2) [of l] pre "1.prems"(4) by (metis min.absorb1 take_take)
    have nl: "CHR 0x0A \<notin> set (strip_cr l)" using strip_cr_take(3) [of l] by (auto simp: l_def dest: set_takeWhileD)
    have step: "parser_inv archive profile content (Suc n) (off + length l + 1)
        (line_step archive profile m (n, off, strip_cr l) st)"
      by (rule line_step_inv [OF "1.prems"(1,2) t _ nl "1.prems"(3)])
        (use strip_cr_take(2) [of l] len in auto)
    show ?thesis
    proof (cases "dropWhile (\<lambda>c. c \<noteq> CHR 0x0A) rest")
      case Nil
      from step show ?thesis unfolding lines Nil by auto
    next
      case (Cons c r)
      have "rest = l @ c # r" using Cons unfolding l_def by (metis takeWhile_dropWhile_id)
      then have dr: "drop off content = l @ c # r" using "1.prems"(4) by simp
      have r: "r = drop (off + length l + 1) content"
        using arg_cong [OF dr, of "drop (length l + 1)"] by (simp add: add.commute add.left_commute)
      have le: "off + length l + 1 \<le> length content"
        using arg_cong [OF dr, of length] "1.prems"(5) by simp
      from "1.IH" [OF False l_def Cons step "1.prems"(2,3) r le] show ?thesis
        unfolding lines Cons by simp
    qed
  qed
qed

section \<open>Successful and failed parses\<close>

definition scan_start :: scan_state where
  "scan_start = \<lparr>sc_line = [], sc_overflow = False, sc_absolute_offset = 0, sc_line_offset = 0,
     sc_line_number = 1, sc_parser = initial_state\<rparr>"

text \<open>The parse of a whole content, with no trace of how it was read.\<close>

definition parse_content ::
    "(string \<Rightarrow> string) \<Rightarrow> archive_record \<Rightarrow> parser_profile \<Rightarrow> nat \<Rightarrow> string \<Rightarrow> archive_parse_result" where
  "parse_content sha256 archive profile max_line_bytes content =
     (if length content \<noteq> unat (ar_file_size archive) then fail_result ''ARCHIVE_SIZE_MISMATCH'' 0
      else if sha256 content \<noteq> ar_file_sha256 archive then fail_result ''ARCHIVE_SHA256_MISMATCH'' 0
      else ps_result (finish_parser profile
        (run_lines archive profile max_line_bytes 1 (lines_from 0 content) initial_state)))"

lemma parse_archive_opened:
  assumes "supported_profile profile"
  shows "parse_archive sha256 (Inr content) rs close_ok archive profile m =
    (case scan_loop archive profile m content rs [] scan_start of
       None \<Rightarrow> fail_result ''ARCHIVE_FILE_READ_FAILED'' 0
     | Some _ \<Rightarrow> if \<not> close_ok then fail_result ''ARCHIVE_FILE_CLOSE_FAILED'' 0
                 else parse_content sha256 archive profile m content)"
proof (cases "scan_loop archive profile m content rs [] scan_start")
  case None
  with assms show ?thesis unfolding scan_start_def by (simp add: parse_archive_def)
next
  case (Some ds)
  obtain d s where ds: "ds = (d, s)" by (cases ds)
  from scan_loop_some [OF Some [unfolded ds], of 0]
  have d: "d = content" and s: "s = scan_bytes archive profile m content scan_start" by simp_all
  have "last_state archive profile m s = run_lines archive profile m 1 (lines_from 0 content) initial_state \<and>
      sc_absolute_offset s = length content"
    unfolding s using scan_content [of scan_start archive profile m content] by (simp add: scan_start_def)
  with assms Some ds d show ?thesis
    by (simp add: parse_archive_def parse_content_def scan_start_def last_state_def Let_def del: One_nat_def)
qed

text \<open>
  C27: However the operating system cuts the reads, an archive whose reads and close succeed is parsed
  as the whole content would be: by running the line parser over the physical lines, each with its
  number and offset, after the size and the SHA-256 were compared with the archive record.
\<close>

theorem parse_archive_lines:
  assumes "supported_profile profile" and "Read_error \<notin> set rs"
  shows "parse_archive sha256 (Inr content) rs True archive profile m =
    parse_content sha256 archive profile m content"
  using parse_archive_opened [OF assms(1), of sha256 content rs True archive m] assms(2)
    scan_loop_none [of archive profile m content rs "[]" scan_start]
  by (cases "scan_loop archive profile m content rs [] scan_start") auto

lemma initial_inv: "parser_inv archive profile content 1 0 initial_state"
  by (simp add: parser_inv_def initial_state_def)

lemma finish_parser_cases:
  assumes "parser_inv archive profile content k b st"
  shows "if rs_success (ps_result (finish_parser profile st))
    then finish_parser profile st = st \<and> (supported_profile profile \<longrightarrow> docs st \<noteq> [])
    else docs (finish_parser profile st) = [] \<and> rs_failure_code (ps_result (finish_parser profile st)) \<noteq> []"
  using assms by (auto simp: finish_parser_def supported_profile_def parser_inv_def fail_def fail_result_def)

lemma parse_content_result:
  assumes "supported_profile profile"
  shows "if rs_success (parse_content sha256 archive profile m content)
    then length content = unat (ar_file_size archive) \<and> sha256 content = ar_file_sha256 archive \<and>
      rs_documents (parse_content sha256 archive profile m content) \<noteq> [] \<and>
      list_all (document_of archive content) (rs_documents (parse_content sha256 archive profile m content)) \<and>
      sorted_wrt before (rs_documents (parse_content sha256 archive profile m content))
    else rs_documents (parse_content sha256 archive profile m content) = [] \<and>
      rs_failure_code (parse_content sha256 archive profile m content) \<noteq> []"
proof (cases "length content = unat (ar_file_size archive) \<and> sha256 content = ar_file_sha256 archive")
  case False
  then show ?thesis by (auto simp: parse_content_def fail_result_def)
next
  case True
  have "length content < 2 ^ 64" using True unsigned_less [of "ar_file_size archive"] by simp
  from run_lines_inv [OF initial_inv [of archive profile content] assms this]
  obtain k b where inv: "parser_inv archive profile content k b
      (run_lines archive profile m 1 (lines_from 0 content) initial_state)" by fastforce
  from finish_parser_cases [OF this] this True assms show ?thesis
    by (auto simp: parse_content_def parser_inv_def list_all_iff split: if_splits)
qed

text \<open>
  C25: A successful parse has verified the size and the digest of the content, and it returns at least
  one document; each names a non-empty line of the content, valid as UTF-8, whose tokens it has
  counted, with the archive's metadata, and the documents follow each other in the file.
\<close>

theorem parse_archive_documents:
  assumes "rs_success (parse_archive sha256 opened rs close_ok archive profile m)"
  shows "\<exists>content. opened = Inr content \<and> length content = unat (ar_file_size archive) \<and>
    sha256 content = ar_file_sha256 archive \<and>
    rs_documents (parse_archive sha256 opened rs close_ok archive profile m) \<noteq> [] \<and>
    list_all (document_of archive content) (rs_documents (parse_archive sha256 opened rs close_ok archive profile m)) \<and>
    sorted_wrt before (rs_documents (parse_archive sha256 opened rs close_ok archive profile m))"
proof -
  have p: "supported_profile profile"
    using assms by (auto simp: parse_archive_def fail_def initial_state_def fail_result_def split: if_splits)
  obtain content where o: "opened = Inr content"
    using assms p by (cases opened) (auto simp: parse_archive_def fail_def initial_state_def fail_result_def)
  have "parse_archive sha256 opened rs close_ok archive profile m = parse_content sha256 archive profile m content"
    using assms unfolding o parse_archive_opened [OF p]
    by (auto simp: fail_result_def split: option.splits if_splits)
  with parse_content_result [OF p, of sha256 archive m content] assms o show ?thesis by simp
qed

text \<open>
  C28: A parse that fails is atomic: it returns no document, and a failure code that names the cause.
\<close>

theorem parse_archive_atomic:
  "rs_success (parse_archive sha256 opened rs close_ok archive profile m) \<or>
   rs_documents (parse_archive sha256 opened rs close_ok archive profile m) = [] \<and>
   rs_failure_code (parse_archive sha256 opened rs close_ok archive profile m) \<noteq> []"
proof (cases "supported_profile profile")
  case False
  then show ?thesis by (simp add: parse_archive_def fail_def initial_state_def fail_result_def)
next
  case True
  show ?thesis
  proof (cases opened)
    case (Inl e)
    with True show ?thesis by (simp add: parse_archive_def fail_def initial_state_def fail_result_def)
  next
    case (Inr content)
    from parse_content_result [OF True, of sha256 archive m content] show ?thesis
      unfolding Inr parse_archive_opened [OF True]
      by (auto simp: fail_result_def split: option.splits if_splits)
  qed
qed

section \<open>A sample\<close>

definition sample_content :: string where
  "sample_content = ''2024-05-06T07:08:09.010Z level=WARN module=fct code=E1'' @ [CHR 0x0D, CHR 0x0A]"

definition sample_archive :: archive_record where
  "sample_archive = \<lparr>ar_archive_id = 5, ar_line_id = ''L'', ar_station_id = ''S'', ar_device_id = ''D'',
     ar_collector_id = ''C'', ar_work_order = [], ar_product_sn = [], ar_file_type = ''runtime_log'',
     ar_original_filename = ''a'', ar_relative_path = ''a'', ar_file_size = 56,
     ar_file_sha256 = replicate 64 CHR ''0'', ar_produced_at = [], ar_archived_at = []\<rparr>"

lemma sample_parse:
  "rs_success (parse_content (\<lambda>_. replicate 64 CHR ''0'') sample_archive \<lparr>pp_name = ''kv_runtime_v1'', pp_version = 1\<rparr> 100 sample_content)"
  by code_simp

theorem parse_archive_lines_witness:
  "rs_success (parse_archive (\<lambda>_. replicate 64 CHR ''0'') (Inr sample_content) [Short_count 3, Eintr] True sample_archive
     \<lparr>pp_name = ''kv_runtime_v1'', pp_version = 1\<rparr> 100)"
proof -
  have "supported_profile \<lparr>pp_name = ''kv_runtime_v1'', pp_version = 1\<rparr>" by (simp add: supported_profile_def)
  then show ?thesis
    using sample_parse parse_archive_lines [of "\<lparr>pp_name = ''kv_runtime_v1'', pp_version = 1\<rparr>" "[Short_count 3, Eintr]"
        "\<lambda>_. replicate 64 CHR ''0''" sample_content sample_archive 100] by simp
qed

lemma sample_archive_parse:
  "rs_success (parse_archive (\<lambda>_. replicate 64 CHR ''0'') (Inr sample_content) [] True sample_archive
     \<lparr>pp_name = ''kv_runtime_v1'', pp_version = 1\<rparr> 100)"
  using parse_archive_opened [of "\<lparr>pp_name = ''kv_runtime_v1'', pp_version = 1\<rparr>" "\<lambda>_. replicate 64 CHR ''0''" sample_content "[]" True
      sample_archive 100] sample_parse scan_loop_none [of sample_archive "\<lparr>pp_name = ''kv_runtime_v1'', pp_version = 1\<rparr>" 100 sample_content "[]" "[]" scan_start]
  by (auto simp: supported_profile_def split: option.splits)

theorem parse_archive_documents_witness:
  "rs_documents (parse_archive (\<lambda>_. replicate 64 CHR ''0'') (Inr sample_content) [] True sample_archive
     \<lparr>pp_name = ''kv_runtime_v1'', pp_version = 1\<rparr> 100) \<noteq> []"
  using parse_archive_documents [OF sample_archive_parse] by blast

end
