(* ===== verification/Ordered_Map.thy ===== *)
theory Ordered_Map
  imports Main
begin

text \<open>
  \<open>std::map\<close> as a strictly sorted association list: \<open>map_put\<close> is \<open>m[k] = v\<close>, \<open>map_of\<close> is \<open>find\<close> and the
  list itself is the iteration order.
\<close>

fun map_put :: "'k::linorder \<Rightarrow> 'v \<Rightarrow> ('k \<times> 'v) list \<Rightarrow> ('k \<times> 'v) list" where
  "map_put k v [] = [(k, v)]"
| "map_put k v ((l, w) # m) =
     (if k < l then (k, v) # (l, w) # m else if k = l then (k, v) # m else (l, w) # map_put k v m)"

definition ordered :: "('k::linorder \<times> 'v) list \<Rightarrow> bool" where
  "ordered m \<longleftrightarrow> sorted_wrt (<) (map fst m)"

lemma ordered_simps [simp]: "ordered []"
  "ordered ((k, v) # m) \<longleftrightarrow> (\<forall>l\<in>fst ` set m. k < l) \<and> ordered m"
  by (auto simp: ordered_def)

lemma map_put_keys [simp]: "fst ` set (map_put k v m) = insert k (fst ` set m)"
  by (induction k v m rule: map_put.induct) auto

lemma map_put_ordered [simp]: "ordered m \<Longrightarrow> ordered (map_put k v m)"
  by (induction k v m rule: map_put.induct) auto

lemma map_of_map_put [simp]: "map_of (map_put k v m) = (map_of m)(k \<mapsto> v)"
  by (induction k v m rule: map_put.induct) (auto simp: fun_eq_iff)

lemma ordered_distinct: "ordered m \<Longrightarrow> distinct (map fst m)"
  unfolding ordered_def by (induction m) auto

text \<open>A key above all others goes to the end.\<close>

lemma map_put_last: "(\<And>l. l \<in> fst ` set m \<Longrightarrow> l < k) \<Longrightarrow> map_put k v m = m @ [(k, v)]"
proof (induction k v m rule: map_put.induct)
  case (2 k v l w m)
  then have "l < k" by simp
  with 2 show ?case by (auto dest: less_asym)
qed simp

lemma map_put_nonempty [simp]: "map_put k v m \<noteq> []"
  by (induction k v m rule: map_put.induct) auto

lemma map_of_ordered_Some: "ordered m \<Longrightarrow> map_of m k = Some v \<longleftrightarrow> (k, v) \<in> set m"
  by (simp add: ordered_distinct)

end
