(* ===== verification/Segment_Build.thy ===== *)
theory Segment_Build
  imports Parsed_Documents Index_Snapshot Ordered_Map
begin

text \<open>
  The tables of a new segment (first part of \<open>SegmentStore::build\<close>, \<open>indexing/segment_store.cpp\<close>,
  and the batch records of \<open>indexing/segment_models.h\<close>): the file table after verifying every
  archive, the document table and the inverted index over the re-read records, and the flattening
  of the index into postings and dictionary. \<open>std::map\<close> is the sorted list of \<open>Ordered_Map\<close>.
\<close>

section \<open>Batches\<close>

record parsed_batch_descriptor =
  bd_batch_id :: u64
  bd_first_archive_id :: u64
  bd_last_archive_id :: u64
  bd_source_file_count :: u64
  bd_document_count :: u64
  bd_parsed_path :: string
  bd_parsed_sha256 :: string

record parsed_artifact_file =
  af_archive :: archive_record
  af_profile :: parser_profile
  af_document_count :: u64

record parsed_artifact_document =
  ad_local_id :: u32
  ad_document :: parsed_document

record parsed_batch_data =
  bt_descriptor :: parsed_batch_descriptor
  bt_parsed_file_count :: u64
  bt_failed_file_count :: u64
  bt_files :: "parsed_artifact_file list"
  bt_documents :: "parsed_artifact_document list"

datatype build_error =
    Batch_unrepresentable | Original_failed archive_error | Unknown_file | Term_count_changed
  | Frequency_limit | Time_invalid | Document_frequency_limit | No_terms | Serialize_failed segment_error

text \<open>The archives as the build sees them: the operating system and the outcomes of its read calls,
  for the verification of file \<open>i\<close> and for the record of document \<open>i\<close>.\<close>

record archive_access =
  ax_sha256 :: "string \<Rightarrow> string"
  ax_posix :: posix
  ax_root :: string
  ax_file_reads :: "nat \<Rightarrow> read_outcome list"
  ax_record_reads :: "nat \<Rightarrow> read_outcome list"

section \<open>The file table\<close>

definition segment_file :: "archive_record \<Rightarrow> file_record" where
  "segment_file archive = \<lparr>fr_archive_id = ar_archive_id archive, fr_file_size = ar_file_size archive,
     fr_file_sha256 = ar_file_sha256 archive, fr_relative_path = ar_relative_path archive\<rparr>"

fun build_files :: "archive_access \<Rightarrow> parsed_artifact_file list \<Rightarrow> file_record list \<Rightarrow> (u64 \<rightharpoonup> u32) \<Rightarrow>
    build_error + file_record list \<times> (u64 \<rightharpoonup> u32)" where
  "build_files ax [] files file_ordinals = Inr (files, file_ordinals)"
| "build_files ax (f # rest) files file_ordinals =
     (let file = segment_file (af_archive f); index = length files
      in case verify_original_archive (ax_sha256 ax) (ax_posix ax) (ax_root ax) (ax_file_reads ax index) file of
          Inl e \<Rightarrow> Inl (Original_failed e)
        | Inr _ \<Rightarrow> build_files ax rest (files @ [file])
            (file_ordinals(fr_archive_id file \<mapsto> word_of_nat index)))"

section \<open>Documents and the inverted index\<close>

fun count_terms :: "string list \<Rightarrow> (string \<times> u32) list \<Rightarrow> build_error + (string \<times> u32) list" where
  "count_terms [] frequencies = Inr frequencies"
| "count_terms (t # ts) frequencies =
     (let frequency = (case map_of frequencies t of None \<Rightarrow> 0 | Some f \<Rightarrow> f)
      in if frequency = - 1 then Inl Frequency_limit
         else count_terms ts (map_put t (frequency + 1) frequencies))"

type_synonym inverted_index = "(string \<times> (u32 \<times> u32) list) list"

definition add_posting :: "u32 \<Rightarrow> string \<times> u32 \<Rightarrow> inverted_index \<Rightarrow> inverted_index" where
  "add_posting local_id f inverted = map_put (fst f)
     (map_put local_id (snd f) (case map_of inverted (fst f) of None \<Rightarrow> [] | Some m \<Rightarrow> m)) inverted"

record build_state =
  bs_documents :: "document_record list"
  bs_inverted :: inverted_index
  bs_total_terms :: nat
  bs_min_time :: int
  bs_max_time :: int

definition build_start :: build_state where
  "build_start = \<lparr>bs_documents = [], bs_inverted = [], bs_total_terms = 0,
     bs_min_time = 2 ^ 63 - 1, bs_max_time = - (2 ^ 63)\<rparr>"

definition segment_document ::
    "u64 \<Rightarrow> u32 \<Rightarrow> parsed_artifact_document \<Rightarrow> int \<Rightarrow> int \<Rightarrow> u32 \<Rightarrow> document_record" where
  "segment_document batch_id file_ordinal parsed_doc occurred_at archived_at term_count =
     (let d = ad_document parsed_doc
      in \<lparr>dr_doc_id = make_doc_id batch_id (ad_local_id parsed_doc), dr_local_id = ad_local_id parsed_doc,
          dr_file_ordinal = file_ordinal, dr_archive_id = pd_archive_id d,
          dr_byte_offset = pd_byte_offset d, dr_byte_length = pd_byte_length d,
          dr_occurred_at_ms = occurred_at, dr_archived_at_ms = archived_at, dr_term_count = term_count,
          dr_line_id = pd_line_id d, dr_station_id = pd_station_id d, dr_device_id = pd_device_id d,
          dr_collector_id = pd_collector_id d, dr_work_order = pd_work_order d,
          dr_product_sn = pd_product_sn d, dr_source_type = pd_source_type d, dr_level = pd_level d,
          dr_module_name = pd_module_name d, dr_error_code = pd_error_code d,
          dr_event_name = pd_event_name d\<rparr>)"

definition build_document ::
    "archive_access \<Rightarrow> u64 \<Rightarrow> file_record list \<Rightarrow> (u64 \<rightharpoonup> u32) \<Rightarrow> parsed_artifact_document \<Rightarrow> build_state \<Rightarrow>
       build_error + build_state" where
  "build_document ax batch_id files file_ordinals p s =
     (let d = ad_document p
      in case file_ordinals (pd_archive_id d) of
          None \<Rightarrow> Inl Unknown_file
        | Some file_ordinal \<Rightarrow>
            (case read_original_record (ax_posix ax) (ax_root ax)
                (ax_record_reads ax (length (bs_documents s)))
                (files ! unat file_ordinal) (pd_byte_offset d) (pd_byte_length d) of
               Inl e \<Rightarrow> Inl (Original_failed e)
             | Inr raw \<Rightarrow>
                 (let terms = tokenize_terms raw
                  in if length terms \<noteq> pd_term_count d \<or> length terms > 2 ^ 32 - 1 then Inl Term_count_changed
                     else sbind (count_terms terms []) (\<lambda>frequencies.
                       case (parse_iso8601_milliseconds (pd_occurred_at d),
                             parse_iso8601_milliseconds (pd_archived_at d)) of
                         (Some occurred_at, Some archived_at) \<Rightarrow>
                           Inr \<lparr>bs_documents = bs_documents s @ [segment_document batch_id file_ordinal p
                                  occurred_at archived_at (word_of_nat (length terms))],
                                bs_inverted = fold (add_posting (ad_local_id p)) frequencies (bs_inverted s),
                                bs_total_terms = bs_total_terms s + length terms,
                                bs_min_time = min (bs_min_time s) occurred_at,
                                bs_max_time = max (bs_max_time s) occurred_at\<rparr>
                       | _ \<Rightarrow> Inl Time_invalid))))"

primrec build_documents ::
    "archive_access \<Rightarrow> u64 \<Rightarrow> file_record list \<Rightarrow> (u64 \<rightharpoonup> u32) \<Rightarrow> parsed_artifact_document list \<Rightarrow>
       build_state \<Rightarrow> build_error + build_state" where
  "build_documents ax batch_id files file_ordinals [] s = Inr s"
| "build_documents ax batch_id files file_ordinals (p # ps) s =
     sbind (build_document ax batch_id files file_ordinals p s)
       (build_documents ax batch_id files file_ordinals ps)"

section \<open>Postings and dictionary\<close>

fun flatten_index ::
    "inverted_index \<Rightarrow> posting list \<Rightarrow> term_record list \<Rightarrow> build_error + posting list \<times> term_record list" where
  "flatten_index [] postings terms = Inr (postings, terms)"
| "flatten_index ((t, locals) # rest) postings terms =
     (if length locals > 2 ^ 32 - 1 then Inl Document_frequency_limit
      else flatten_index rest
        (postings @ map (\<lambda>(l, f). \<lparr>po_local_id = l, po_term_frequency = f\<rparr>) locals)
        (terms @ [\<lparr>te_term = t, te_document_frequency = word_of_nat (length locals),
           te_posting_begin = word_of_nat (length postings), te_posting_count = word_of_nat (length locals)\<rparr>]))"

record segment_tables =
  sg_files :: "file_record list"
  sg_documents :: "document_record list"
  sg_postings :: "posting list"
  sg_terms :: "term_record list"
  sg_total_terms :: nat
  sg_min_time :: int
  sg_max_time :: int

definition build_tables :: "archive_access \<Rightarrow> parsed_batch_data \<Rightarrow> build_error + segment_tables" where
  "build_tables ax batch =
     (let batch_id = bd_batch_id (bt_descriptor batch)
      in if batch_id > 0xFFFFFFFF \<or> bt_files batch = [] \<or> bt_documents batch = [] then Inl Batch_unrepresentable
         else sbind (build_files ax (bt_files batch) [] Map.empty) (\<lambda>(files, file_ordinals).
           sbind (build_documents ax batch_id files file_ordinals (bt_documents batch) build_start) (\<lambda>s.
           sbind (flatten_index (bs_inverted s) [] []) (\<lambda>(postings, terms).
             if terms = [] \<or> postings = [] then Inl No_terms
             else Inr \<lparr>sg_files = files, sg_documents = bs_documents s, sg_postings = postings,
                       sg_terms = terms, sg_total_terms = bs_total_terms s,
                       sg_min_time = bs_min_time s, sg_max_time = bs_max_time s\<rparr>))))"

end
