(* ===== verification/Segment_Index.thy ===== *)
theory Segment_Index
  imports Segment_Build Search_Engine
begin

text \<open>
  What \<open>build_tables\<close> computes: the inverted index holds for every term the documents that contain it
  with their frequencies, in document order, and the flattened dictionary gives exactly that back to
  the search (\<open>built_terms\<close>). \<open>Segment_Acceptance\<close> draws the conclusion for what is loaded.
\<close>

section \<open>Term frequencies of one document\<close>

definition frequency_map :: "string list \<Rightarrow> (string \<times> u32) list \<Rightarrow> bool" where
  "frequency_map ts m \<longleftrightarrow> ordered m \<and>
     (\<forall>t. map_of m t = (if t \<in> set ts then Some (word_of_nat (count_list ts t)) else None))"

lemma count_list_length: "count_list ts t \<le> length ts"
  by (induction ts) auto

lemma count_list_snoc: "count_list (p @ [t]) u = count_list p u + (if u = t then 1 else 0)"
  by (induction p) auto

lemma count_list_0: "t \<notin> set ts \<Longrightarrow> count_list ts t = 0"
  by (induction ts) auto

lemma word_count_max:
  assumes "n < 2 ^ 32 - 1"
  shows "(word_of_nat n :: u32) \<noteq> - 1"
proof
  assume "(word_of_nat n :: u32) = - 1"
  then have "unat (word_of_nat n :: u32) = unat (- 1 :: u32)" by simp
  moreover have "unat (word_of_nat n :: u32) = n"
    using assms by (simp add: unat_of_nat take_bit_nat_eq_self)
  moreover have "unat (- 1 :: u32) = 2 ^ 32 - 1" by (simp add: unsigned_minus_1_eq_mask mask_eq_exp_minus_1)
  ultimately show False using assms by simp
qed

lemma count_terms_correct:
  "frequency_map p m \<Longrightarrow> length (p @ ts) \<le> 2 ^ 32 - 1 \<Longrightarrow>
     \<exists>m'. count_terms ts m = Inr m' \<and> frequency_map (p @ ts) m'"
proof (induction ts arbitrary: p m)
  case (Cons t ts)
  let ?f = "case map_of m t of None \<Rightarrow> 0 | Some f \<Rightarrow> f"
  have f: "?f = word_of_nat (count_list p t)"
    using Cons.prems(1) by (simp add: frequency_map_def count_list_0)
  have "count_list p t < 2 ^ 32 - 1" using count_list_length [of p t] Cons.prems(2) by simp
  from word_count_max [OF this] have ne: "?f \<noteq> - 1" by (simp only: f not_False_eq_True)
  have "frequency_map (p @ [t]) (map_put t (?f + 1) m)"
    unfolding frequency_map_def
  proof (intro conjI allI)
    show "ordered (map_put t (?f + 1) m)" using Cons.prems(1) by (simp add: frequency_map_def)
    fix u
    show "map_of (map_put t (?f + 1) m) u =
        (if u \<in> set (p @ [t]) then Some (word_of_nat (count_list (p @ [t]) u)) else None)"
      unfolding f using Cons.prems(1) by (simp add: frequency_map_def count_list_snoc add.commute)
  qed
  from Cons.IH [OF this] Cons.prems(2) ne show ?case by (simp add: Let_def)
qed simp

section \<open>The inverted index\<close>

text \<open>The documents of a term with its frequency, in document order.\<close>

definition occurrences :: "string list list \<Rightarrow> string \<Rightarrow> (u32 \<times> u32) list" where
  "occurrences toks t = map (\<lambda>i. (word_of_nat i, word_of_nat (count_list (toks ! i) t)))
     (filter (\<lambda>i. t \<in> set (toks ! i)) [0..<length toks])"

definition inverts :: "string list list \<Rightarrow> inverted_index \<Rightarrow> bool" where
  "inverts toks ix \<longleftrightarrow> ordered ix \<and>
     (\<forall>t. map_of ix t = (if occurrences toks t = [] then None else Some (occurrences toks t)))"

lemma occurrences_snoc:
  "occurrences (toks @ [x]) t = occurrences toks t @
     (if t \<in> set x then [(word_of_nat (length toks), word_of_nat (count_list x t))] else [])"
proof -
  have "filter (\<lambda>i. t \<in> set ((toks @ [x]) ! i)) [0..<length toks] = filter (\<lambda>i. t \<in> set (toks ! i)) [0..<length toks]"
    by (rule filter_cong) (auto simp: nth_append)
  then show ?thesis
    by (auto simp: occurrences_def nth_append)
qed

lemma occurrences_keys: "l \<in> fst ` set (occurrences toks t) \<Longrightarrow> \<exists>i<length toks. l = word_of_nat i"
  by (auto simp: occurrences_def)

lemma add_postings_lookup:
  "distinct (map fst m) \<Longrightarrow> map_of (fold (add_posting l) m ix) t =
     (case map_of m t of None \<Rightarrow> map_of ix t
      | Some f \<Rightarrow> Some (map_put l f (case map_of ix t of None \<Rightarrow> [] | Some x \<Rightarrow> x)))"
proof (induction m arbitrary: ix)
  case (Cons e m)
  obtain u f where e: "e = (u, f)" by (cases e)
  have "map_of m u = None" using Cons.prems e by (simp add: map_of_eq_None_iff)
  with Cons e show ?case by (auto simp: add_posting_def split: option.splits)
qed simp

lemma add_postings_ordered: "ordered ix \<Longrightarrow> ordered (fold (add_posting l) m ix)"
  by (induction m arbitrary: ix) (auto simp: add_posting_def split: prod.splits)

lemma inverts_snoc:
  assumes ix: "inverts toks ix" and m: "frequency_map ts m" and small: "length toks < 2 ^ 32"
  shows "inverts (toks @ [ts]) (fold (add_posting (word_of_nat (length toks))) m ix)"
  unfolding inverts_def
proof (intro conjI allI)
  show "ordered (fold (add_posting (word_of_nat (length toks))) m ix)"
    using ix by (simp add: inverts_def add_postings_ordered)
  fix t
  have last: "map_put (word_of_nat (length toks)) f (occurrences toks t) =
      occurrences toks t @ [(word_of_nat (length toks), f)]" for f :: u32
  proof (rule map_put_last)
    fix l assume "l \<in> fst ` set (occurrences toks t)"
    then obtain i where "i < length toks" "l = word_of_nat i" using occurrences_keys by blast
    with small show "l < word_of_nat (length toks)"
      by (simp add: word_less_nat_alt unat_of_nat take_bit_nat_eq_self)
  qed
  have old: "(case map_of ix t of None \<Rightarrow> [] | Some x \<Rightarrow> x) = occurrences toks t"
    using ix by (simp add: inverts_def)
  have d: "distinct (map fst m)" using m by (simp add: frequency_map_def ordered_distinct)
  show "map_of (fold (add_posting (word_of_nat (length toks))) m ix) t =
      (if occurrences (toks @ [ts]) t = [] then None else Some (occurrences (toks @ [ts]) t))"
    unfolding add_postings_lookup [OF d] old
    using m ix by (simp add: frequency_map_def inverts_def occurrences_snoc last)
qed

section \<open>The document loop\<close>

definition archived_record :: "archive_access \<Rightarrow> file_record \<Rightarrow> u64 \<Rightarrow> u64 \<Rightarrow> string \<Rightarrow> bool" where
  "archived_record ax file off len raw \<longleftrightarrow> (\<exists>content. open_verified (ax_posix ax) (ax_root ax) file = Inr content \<and>
     unat off + unat len \<le> length content \<and> raw = raw_at content off len)"

lemma read_original_sound:
  assumes "read_original_record (ax_posix ax) (ax_root ax) rs file off len = Inr raw"
  shows "archived_record ax file off len raw"
proof -
  obtain content where c: "open_verified (ax_posix ax) (ax_root ax) file = Inr content"
    and l: "pread_loop content (unat off) (unat len) rs [] = Inr raw"
    and g: "off \<le> fr_file_size file" "len \<le> fr_file_size file - off"
    using assms by (auto simp: read_original_record_def sbind_def not_less split: if_splits sum.splits)
  have r: "unat off + unat len \<le> length content"
    using g range_valid_unat [of off "fr_file_size file" len] open_verified_length [OF c] by simp
  with pread_loop_correct [of "[]" "unat off" content "unat len" rs, OF _ _ _ l] c
  show ?thesis by (auto simp: archived_record_def raw_at_def)
qed

definition doc_built ::
    "archive_access \<Rightarrow> u64 \<Rightarrow> file_record list \<Rightarrow> (u64 \<rightharpoonup> u32) \<Rightarrow> parsed_artifact_document \<Rightarrow>
       document_record \<Rightarrow> string list \<Rightarrow> bool" where
  "doc_built ax batch_id files ords p d toks \<longleftrightarrow>
     (\<exists>ord raw occurred archived. ords (pd_archive_id (ad_document p)) = Some ord \<and>
        archived_record ax (files ! unat ord) (pd_byte_offset (ad_document p)) (pd_byte_length (ad_document p)) raw \<and>
        toks = tokenize_terms raw \<and> length toks = pd_term_count (ad_document p) \<and> length toks < 2 ^ 32 \<and>
        parse_iso8601_milliseconds (pd_occurred_at (ad_document p)) = Some occurred \<and>
        parse_iso8601_milliseconds (pd_archived_at (ad_document p)) = Some archived \<and>
        d = segment_document batch_id ord p occurred archived (word_of_nat (length toks)))"

lemma build_document_built:
  assumes "build_document ax batch_id files ords p s = Inr s'"
  shows "\<exists>d toks m. doc_built ax batch_id files ords p d toks \<and> frequency_map toks m \<and>
    s' = \<lparr>bs_documents = bs_documents s @ [d],
      bs_inverted = fold (add_posting (ad_local_id p)) m (bs_inverted s),
      bs_total_terms = bs_total_terms s + length toks,
      bs_min_time = min (bs_min_time s) (dr_occurred_at_ms d),
      bs_max_time = max (bs_max_time s) (dr_occurred_at_ms d)\<rparr>"
proof -
  let ?d = "ad_document p"
  obtain ord where ord: "ords (pd_archive_id ?d) = Some ord"
    using assms by (auto simp: build_document_def Let_def split: option.splits)
  obtain raw where raw: "read_original_record (ax_posix ax) (ax_root ax) (ax_record_reads ax (length (bs_documents s)))
      (files ! unat ord) (pd_byte_offset ?d) (pd_byte_length ?d) = Inr raw"
    using assms ord by (auto simp: build_document_def Let_def split: sum.splits)
  define toks where "toks = tokenize_terms raw"
  have len: "length toks = pd_term_count ?d" "length toks \<le> 2 ^ 32 - 1"
    using assms ord raw by (auto simp: build_document_def Let_def toks_def split: if_splits)
  have "frequency_map [] []" by (simp add: frequency_map_def)
  from count_terms_correct [OF this, of toks] len(2) obtain m where
    m: "count_terms toks [] = Inr m" "frequency_map toks m" by auto
  obtain occurred archived where
    t: "parse_iso8601_milliseconds (pd_occurred_at ?d) = Some occurred"
      "parse_iso8601_milliseconds (pd_archived_at ?d) = Some archived"
    using assms ord raw m(1) len
    by (auto simp: build_document_def Let_def toks_def split: if_splits option.splits)
  have "doc_built ax batch_id files ords p
      (segment_document batch_id ord p occurred archived (word_of_nat (length toks))) toks"
    unfolding doc_built_def using ord read_original_sound [OF raw] len t toks_def
    by (intro exI [of _ ord] exI [of _ raw] exI [of _ occurred] exI [of _ archived]) auto
  moreover have "dr_occurred_at_ms (segment_document batch_id ord p occurred archived w) = occurred" for w
    by (simp add: segment_document_def Let_def)
  ultimately show ?thesis
    using assms ord raw m len t toks_def
    by (intro exI [of _ "segment_document batch_id ord p occurred archived (word_of_nat (length toks))"]
        exI [of _ toks] exI [of _ m]) (auto simp: build_document_def Let_def)
qed

lemma build_documents_built:
  "build_documents ax batch_id files ords ps s = Inr s' \<Longrightarrow> inverts toks (bs_inverted s) \<Longrightarrow>
   (\<forall>i<length ps. ad_local_id (ps ! i) = word_of_nat (length toks + i)) \<Longrightarrow> length toks + length ps \<le> 2 ^ 32 \<Longrightarrow>
   \<exists>ds toks'. bs_documents s' = bs_documents s @ ds \<and> length ds = length ps \<and> length toks' = length ps \<and>
     inverts (toks @ toks') (bs_inverted s') \<and>
     (\<forall>i<length ps. doc_built ax batch_id files ords (ps ! i) (ds ! i) (toks' ! i)) \<and>
     bs_total_terms s' = bs_total_terms s + sum_list (map length toks') \<and>
     bs_min_time s' = fold min (map dr_occurred_at_ms ds) (bs_min_time s) \<and>
     bs_max_time s' = fold max (map dr_occurred_at_ms ds) (bs_max_time s)"
proof (induction ps arbitrary: s toks)
  case Nil
  then show ?case by auto
next
  case (Cons p ps)
  obtain s1 where s1: "build_document ax batch_id files ords p s = Inr s1"
    and rest: "build_documents ax batch_id files ords ps s1 = Inr s'"
    using Cons.prems(1) by (auto simp: sbind_def split: sum.splits)
  from build_document_built [OF s1] obtain d tk m where d: "doc_built ax batch_id files ords p d tk"
    and m: "frequency_map tk m"
    and s1': "s1 = \<lparr>bs_documents = bs_documents s @ [d],
      bs_inverted = fold (add_posting (ad_local_id p)) m (bs_inverted s),
      bs_total_terms = bs_total_terms s + length tk,
      bs_min_time = min (bs_min_time s) (dr_occurred_at_ms d),
      bs_max_time = max (bs_max_time s) (dr_occurred_at_ms d)\<rparr>" by blast
  have lid: "ad_local_id p = word_of_nat (length toks)" using Cons.prems(3) [rule_format, of 0] by simp
  have ix: "inverts (toks @ [tk]) (bs_inverted s1)"
    using inverts_snoc [OF Cons.prems(2) m] Cons.prems(4) by (simp add: s1' lid)
  have ids: "\<forall>i<length ps. ad_local_id (ps ! i) = word_of_nat (length (toks @ [tk]) + i)"
  proof (intro allI impI)
    fix i assume "i < length ps"
    with Cons.prems(3) [rule_format, of "Suc i"] show "ad_local_id (ps ! i) = word_of_nat (length (toks @ [tk]) + i)"
      by (simp add: ac_simps)
  qed
  from Cons.IH [OF rest ix ids] Cons.prems(4) obtain ds toks' where
    ih: "bs_documents s' = bs_documents s1 @ ds" "length ds = length ps" "length toks' = length ps"
      "inverts ((toks @ [tk]) @ toks') (bs_inverted s')"
      "\<forall>i<length ps. doc_built ax batch_id files ords (ps ! i) (ds ! i) (toks' ! i)"
      "bs_total_terms s' = bs_total_terms s1 + sum_list (map length toks')"
      "bs_min_time s' = fold min (map dr_occurred_at_ms ds) (bs_min_time s1)"
      "bs_max_time s' = fold max (map dr_occurred_at_ms ds) (bs_max_time s1)" by auto
  show ?case
    using ih d s1' by (intro exI [of _ "d # ds"] exI [of _ "tk # toks'"])
      (auto simp: nth_Cons min.commute max.commute split: nat.splits)
qed

section \<open>Postings and dictionary\<close>

definition entry_postings :: "string \<times> (u32 \<times> u32) list \<Rightarrow> posting list" where
  "entry_postings e = map (\<lambda>(l, f). \<lparr>po_local_id = l, po_term_frequency = f\<rparr>) (snd e)"

lemma unat_small_u32: "n < 2 ^ 32 \<Longrightarrow> unat (word_of_nat n :: u32) = n"
  by (simp add: unat_of_nat take_bit_nat_eq_self)

lemma flatten_index_result:
  "flatten_index ix ps0 ts0 = Inr (ps, ts) \<Longrightarrow>
     ps = ps0 @ concat (map entry_postings ix) \<and>
     (\<exists>es. ts = ts0 @ es \<and> map te_term es = map fst ix \<and>
        map (\<lambda>e. unat (te_document_frequency e)) es = map (\<lambda>e. length (snd e)) ix)"
proof (induction ix arbitrary: ps0 ts0)
  case (Cons e ix)
  obtain t locals where e: "e = (t, locals)" by (cases e)
  from Cons.prems e have small: "length locals < 2 ^ 32"
    and rest: "flatten_index ix (ps0 @ entry_postings e)
      (ts0 @ [\<lparr>te_term = t, te_document_frequency = word_of_nat (length locals),
        te_posting_begin = word_of_nat (length ps0), te_posting_count = word_of_nat (length locals)\<rparr>]) = Inr (ps, ts)"
    by (auto simp: entry_postings_def split: if_splits)
  from Cons.IH [OF rest] obtain es where "ps = (ps0 @ entry_postings e) @ concat (map entry_postings ix)"
    "ts = (ts0 @ [\<lparr>te_term = t, te_document_frequency = word_of_nat (length locals),
        te_posting_begin = word_of_nat (length ps0), te_posting_count = word_of_nat (length locals)\<rparr>]) @ es"
    "map te_term es = map fst ix" "map (\<lambda>e. unat (te_document_frequency e)) es = map (\<lambda>e. length (snd e)) ix"
    by blast
  then show ?case
    using e unat_small_u32 [OF small] by auto
qed simp

lemma concat_equal_parts:
  "concat xss = concat yss \<Longrightarrow> map length xss = map length yss \<Longrightarrow> xss = yss"
proof (induction xss arbitrary: yss)
  case (Cons xs xss)
  then obtain ys yss' where "yss = ys # yss'" "length xs = length ys" by (cases yss) auto
  with Cons show ?case by auto
qed auto

lemma occurrences_lookup:
  assumes "length toks \<le> 2 ^ 32" and "i < length toks"
  shows "map_of (occurrences toks t) (word_of_nat i) =
    (if t \<in> set (toks ! i) then Some (word_of_nat (count_list (toks ! i) t)) else None)"
proof -
  have inj: "(word_of_nat j :: u32) = word_of_nat i \<longleftrightarrow> j = i" if "j < length toks" for j
    using that assms unat_small_u32 [of i] unat_small_u32 [of j] by (metis order_less_le_trans)
  have "map_of (map (\<lambda>j. (word_of_nat j :: u32, g j :: u32)) (filter P js)) (word_of_nat i) =
      (if i \<in> set js \<and> P i then Some (g i) else None)" if "\<forall>j\<in>set js. j < length toks" for js g P
    using that
  proof (induction js)
    case (Cons a js)
    have "(word_of_nat a :: u32) = word_of_nat i \<longleftrightarrow> a = i" using Cons.prems by (intro inj) simp
    with Cons show ?case by (cases "a = i") simp_all
  qed simp
  from this [of "[0..<length toks]" "\<lambda>j. word_of_nat (count_list (toks ! j) t)" "\<lambda>j. t \<in> set (toks ! j)"] assms(2)
  show ?thesis by (simp add: occurrences_def)
qed

lemma dictionary_entries:
  assumes flat: "flatten_index ix [] [] = Inr (postings, terms)" and wf: "dictionary_wf postings terms lookup"
    and ord: "ordered ix"
  shows "(case lookup t of
       None \<Rightarrow> map_of ix t = None
     | Some k \<Rightarrow> k < length terms \<and> (\<exists>locals. map_of ix t = Some locals \<and>
         posting_range postings (terms ! k) = map (\<lambda>(l, f). \<lparr>po_local_id = l, po_term_frequency = f\<rparr>) locals))"
proof -
  from flatten_index_result [OF flat] have ps: "postings = concat (map entry_postings ix)"
    and names: "map te_term terms = map fst ix"
    and dfs: "map (\<lambda>e. unat (te_document_frequency e)) terms = map (\<lambda>e. length (snd e)) ix" by auto
  have len: "length terms = length ix" using names by (metis length_map)
  have parts: "map (posting_range postings) terms = map entry_postings ix"
  proof (rule concat_equal_parts)
    show "concat (map (posting_range postings) terms) = concat (map entry_postings ix)"
      using wf ps by (simp add: dictionary_wf_def)
    have "map length (map (posting_range postings) terms) = map (\<lambda>e. unat (te_document_frequency e)) terms"
      using wf by (simp add: dictionary_wf_def)
    also have "\<dots> = map length (map entry_postings ix)" using dfs by (simp add: entry_postings_def)
    finally show "map length (map (posting_range postings) terms) = map length (map entry_postings ix)" .
  qed
  have look: "lookup t = Some k \<longleftrightarrow> k < length ix \<and> fst (ix ! k) = t" for k
    using wf len names by (simp add: dictionary_wf_def) (metis len nth_map)
  show ?thesis
  proof (cases "lookup t")
    case None
    have "t \<notin> fst ` set ix"
    proof
      assume "t \<in> fst ` set ix"
      then obtain k where "k < length ix" "fst (ix ! k) = t" by (auto simp: in_set_conv_nth image_iff)
      with look None show False by auto
    qed
    with None show ?thesis by (simp add: map_of_eq_None_iff)
  next
    case (Some k)
    with look have k: "k < length ix" "fst (ix ! k) = t" by auto
    then have "(t, snd (ix ! k)) \<in> set ix" by (metis nth_mem prod.collapse)
    then have m: "map_of ix t = Some (snd (ix ! k))" using ord by (simp add: map_of_ordered_Some)
    have "posting_range postings (terms ! k) = entry_postings (ix ! k)"
      using parts k len by (metis nth_map)
    with Some m k len show ?thesis by (simp add: entry_postings_def)
  qed
qed

section \<open>The index gives the terms of every document\<close>

lemma build_start_empty: "bs_documents build_start = []" "bs_inverted build_start = []"
  by (simp_all add: build_start_def)

lemma build_tables_parts:
  assumes "build_tables ax batch = Inr tb"
  obtains ords s where "build_files ax (bt_files batch) [] Map.empty = Inr (sg_files tb, ords)"
    and "build_documents ax (bd_batch_id (bt_descriptor batch)) (sg_files tb) ords (bt_documents batch) build_start = Inr s"
    and "flatten_index (bs_inverted s) [] [] = Inr (sg_postings tb, sg_terms tb)"
    and "sg_documents tb = bs_documents s" and "sg_total_terms tb = bs_total_terms s"
    and "sg_min_time tb = bs_min_time s" and "sg_max_time tb = bs_max_time s"
    and "sg_terms tb \<noteq> []" and "sg_postings tb \<noteq> []"
    and "bd_batch_id (bt_descriptor batch) \<le> 0xFFFFFFFF" and "bt_files batch \<noteq> []" and "bt_documents batch \<noteq> []"
  using assms by (auto simp: build_tables_def Let_def sbind_def not_less split: if_splits sum.splits)

text \<open>The file table: one record per file of the batch, each verified, and ordinals that name their file.\<close>

lemma build_files_result:
  "build_files ax fs files ords = Inr (files', ords') \<Longrightarrow>
     files' = files @ map (\<lambda>f. segment_file (af_archive f)) fs \<and>
     (\<forall>f\<in>set fs. \<exists>rs. verify_original_archive (ax_sha256 ax) (ax_posix ax) (ax_root ax) rs (segment_file (af_archive f)) = Inr ())"
  by (induction ax fs files ords rule: build_files.induct) (auto simp: Let_def split: sum.splits)

lemma build_files_ordinals:
  "build_files ax fs files ords = Inr (files', ords') \<Longrightarrow> length files + length fs \<le> 2 ^ 32 \<Longrightarrow>
     (\<forall>a i. ords a = Some i \<longrightarrow> unat i < length files \<and> fr_archive_id (files ! unat i) = a) \<Longrightarrow>
     (\<forall>a i. ords' a = Some i \<longrightarrow> unat i < length files' \<and> fr_archive_id (files' ! unat i) = a)"
proof (induction ax fs files ords rule: build_files.induct)
  case (2 ax f rest files ords)
  let ?file = "segment_file (af_archive f)"
  have n: "unat (word_of_nat (length files) :: u32) = length files"
    using "2.prems"(2) by (simp add: unat_of_nat take_bit_nat_eq_self)
  have rest: "build_files ax rest (files @ [?file]) (ords(fr_archive_id ?file \<mapsto> word_of_nat (length files))) = Inr (files', ords')"
    and ok: "verify_original_archive (ax_sha256 ax) (ax_posix ax) (ax_root ax) (ax_file_reads ax (length files)) ?file = Inr ()"
    using "2.prems"(1) by (auto simp: Let_def split: sum.splits)
  have "\<forall>a i. (ords(fr_archive_id ?file \<mapsto> word_of_nat (length files))) a = Some i \<longrightarrow>
      unat i < length (files @ [?file]) \<and> fr_archive_id ((files @ [?file]) ! unat i) = a"
    using "2.prems"(3) by (auto simp: n nth_append less_Suc_eq)
  then show ?case using "2.IH" [OF refl refl ok rest] "2.prems"(2) by simp
qed simp

text \<open>What the tables of a batch were built from.\<close>

lemma build_tables_built:
  assumes build: "build_tables ax batch = Inr tb"
    and ids: "\<forall>i<length (bt_documents batch). ad_local_id (bt_documents batch ! i) = word_of_nat i"
    and small: "length (bt_documents batch) \<le> 2 ^ 32"
  obtains ords ix toks where
    "build_files ax (bt_files batch) [] Map.empty = Inr (sg_files tb, ords)"
    "flatten_index ix [] [] = Inr (sg_postings tb, sg_terms tb)" "inverts toks ix"
    "length (sg_documents tb) = length (bt_documents batch)" "length toks = length (bt_documents batch)"
    "\<forall>i<length (bt_documents batch). doc_built ax (bd_batch_id (bt_descriptor batch)) (sg_files tb) ords
       (bt_documents batch ! i) (sg_documents tb ! i) (toks ! i)"
    "sg_total_terms tb = sum_list (map length toks)"
proof -
  obtain ords s where
    files: "build_files ax (bt_files batch) [] Map.empty = Inr (sg_files tb, ords)"
    and docs: "build_documents ax (bd_batch_id (bt_descriptor batch)) (sg_files tb) ords (bt_documents batch) build_start = Inr s"
    and flat: "flatten_index (bs_inverted s) [] [] = Inr (sg_postings tb, sg_terms tb)"
    and out: "sg_documents tb = bs_documents s" "sg_total_terms tb = bs_total_terms s"
    using build_tables_parts [OF build] by metis
  have start: "inverts [] (bs_inverted build_start)" by (simp add: inverts_def occurrences_def build_start_def)
  have pre: "\<forall>i<length (bt_documents batch). ad_local_id (bt_documents batch ! i) = word_of_nat (length ([] :: string list list) + i)"
    using ids by simp
  have "length ([] :: string list list) + length (bt_documents batch) \<le> 2 ^ 32" using small by simp
  from build_documents_built [OF docs start pre this, unfolded build_start_empty append_Nil]
  obtain toks where b: "length (bs_documents s) = length (bt_documents batch)" "length toks = length (bt_documents batch)"
    "inverts toks (bs_inverted s)" "\<forall>i<length (bt_documents batch). doc_built ax (bd_batch_id (bt_descriptor batch)) (sg_files tb) ords
         (bt_documents batch ! i) (bs_documents s ! i) (toks ! i)"
    "bs_total_terms s = bs_total_terms build_start + sum_list (map length toks)" by blast
  show thesis by (rule that [OF files flat b(3)]) (use b out in \<open>simp_all add: build_start_def\<close>)
qed

lemma build_tables_file:
  assumes "build_files ax (bt_files batch) [] Map.empty = Inr (files, ords)"
    and "length (bt_files batch) \<le> 2 ^ 32" and "ords a = Some i"
  shows "unat i < length files" and "fr_archive_id (files ! unat i) = a"
    and "\<exists>f\<in>set (bt_files batch). files ! unat i = segment_file (af_archive f)"
proof -
  show i: "unat i < length files" "fr_archive_id (files ! unat i) = a"
    using build_files_ordinals [OF assms(1)] assms(2,3) by simp_all
  have "files = map (\<lambda>f. segment_file (af_archive f)) (bt_files batch)" using build_files_result [OF assms(1)] by simp
  then show "\<exists>f\<in>set (bt_files batch). files ! unat i = segment_file (af_archive f)" using i(1) by auto
qed

text \<open>The terms the loaded tables give for a document are those it was built from.\<close>

lemma built_terms:
  assumes flat: "flatten_index ix [] [] = Inr (ls_postings seg, ls_terms seg)" and ix: "inverts toks ix"
    and wf: "dictionary_wf (ls_postings seg) (ls_terms seg) (ls_term_lookup seg)"
    and small: "length toks \<le> 2 ^ 32" and i: "i < length toks" and lid: "dr_local_id d = word_of_nat i"
  shows "has_term seg t d \<longleftrightarrow> t \<in> set (toks ! i)"
    and "document_tf seg t d = word_of_nat (count_list (toks ! i) t)"
proof -
  have ord: "ordered ix" using ix by (simp add: inverts_def)
  note entries = dictionary_entries [OF flat wf ord]
  have occ: "map_of ix t = (if occurrences toks t = [] then None else Some (occurrences toks t))"
    using ix by (simp add: inverts_def)
  have found: "map_of (occurrences toks t) (word_of_nat i) =
      (if t \<in> set (toks ! i) then Some (word_of_nat (count_list (toks ! i) t)) else None)"
    by (rule occurrences_lookup [OF small i])
  have "(has_term seg t d \<longleftrightarrow> t \<in> set (toks ! i)) \<and> document_tf seg t d = word_of_nat (count_list (toks ! i) t)"
  proof (cases "ls_term_lookup seg t")
    case None
    with entries [of t] occ have "occurrences toks t = []" by (auto split: if_splits)
    with found have "t \<notin> set (toks ! i)" by (auto split: if_splits)
    with None show ?thesis by (simp add: has_term_def document_tf_def count_list_0)
  next
    case (Some k)
    with entries [of t] occ have pr: "term_postings seg (ls_terms seg ! k) =
        map (\<lambda>(l, f). \<lparr>po_local_id = l, po_term_frequency = f\<rparr>) (occurrences toks t)"
      by (auto simp: term_postings_def split: if_splits)
    have keys: "po_local_id ` set (term_postings seg (ls_terms seg ! k)) = fst ` set (occurrences toks t)"
      unfolding pr by force
    have "map (\<lambda>p. (po_local_id p, po_term_frequency p)) (term_postings seg (ls_terms seg ! k)) = occurrences toks t"
      unfolding pr by (simp add: comp_def case_prod_unfold)
    then have tf: "tf_in (term_postings seg (ls_terms seg ! k)) (word_of_nat i) = map_of (occurrences toks t) (word_of_nat i)"
      by (simp add: tf_in_def)
    have "word_of_nat i \<in> fst ` set (occurrences toks t) \<longleftrightarrow> map_of (occurrences toks t) (word_of_nat i) \<noteq> None"
      by (metis map_of_eq_None_iff)
    with Some found show ?thesis
      by (simp add: has_term_def document_tf_def keys lid tf count_list_0)
  qed
  then show "has_term seg t d \<longleftrightarrow> t \<in> set (toks ! i)"
    "document_tf seg t d = word_of_nat (count_list (toks ! i) t)" by simp_all
qed

section \<open>A sample\<close>

definition sample_access :: archive_access where
  "sample_access = \<lparr>ax_sha256 = (\<lambda>_. replicate 64 CHR ''0''),
     ax_posix = \<lparr>px_realpath = Inr, px_regular = (\<lambda>_. True), px_open = (\<lambda>_. Some ''ab x  cdef'')\<rparr>,
     ax_root = ''/r'', ax_file_reads = (\<lambda>_. [Short_count 4, Eintr]), ax_record_reads = (\<lambda>_. [Short_count 2])\<rparr>"

definition sample_batch :: parsed_batch_data where
  "sample_batch = \<lparr>bt_descriptor = \<lparr>bd_batch_id = 1, bd_first_archive_id = 5, bd_last_archive_id = 5,
       bd_source_file_count = 1, bd_document_count = 1, bd_parsed_path = ''parsed/batch_1'',
       bd_parsed_sha256 = replicate 64 CHR ''0''\<rparr>,
     bt_parsed_file_count = 1, bt_failed_file_count = 0,
     bt_files = [\<lparr>af_archive = sample_archive\<lparr>ar_file_type := ''runtime'', ar_file_size := 10,
         ar_produced_at := ''1970-01-01T00:00:01.000Z'', ar_archived_at := ''1970-01-01T00:00:02.000Z''\<rparr>,
       af_profile = \<lparr>pp_name = ''kv_runtime_v1'', pp_version = 1\<rparr>, af_document_count = 1\<rparr>],
     bt_documents = [\<lparr>ad_local_id = 0, ad_document = \<lparr>pd_archive_id = 5, pd_byte_offset = 2, pd_byte_length = 3,
       pd_occurred_at = ''1970-01-01T00:00:01.000Z'', pd_archived_at = ''1970-01-01T00:00:02.000Z'',
       pd_line_id = ''L'', pd_station_id = ''S'', pd_device_id = ''D'', pd_collector_id = ''C'',
       pd_work_order = [], pd_product_sn = [], pd_source_type = ''runtime'', pd_level = ''ERROR'',
       pd_module_name = ''M'', pd_error_code = ''E1'', pd_event_name = [], pd_term_count = 1\<rparr>\<rparr>]\<rparr>"

definition sample_tables :: segment_tables where
  "sample_tables = \<lparr>sg_files = [sample_file], sg_documents = [sample_document],
     sg_postings = [\<lparr>po_local_id = 0, po_term_frequency = 1\<rparr>],
     sg_terms = [\<lparr>te_term = ''x'', te_document_frequency = 1, te_posting_begin = 0, te_posting_count = 1\<rparr>],
     sg_total_terms = 1, sg_min_time = 1000, sg_max_time = 1000\<rparr>"

lemma sample_open: "open_verified (ax_posix sample_access) ''/r'' sample_file = Inr ''ab x  cdef''"
  by (simp add: open_verified_def resolve_archive_file_def valid_relative_path_iff sample_access_def sample_file_def)

lemma sample_verify: "verify_original_archive (ax_sha256 sample_access) (ax_posix sample_access) ''/r''
    [Short_count 4, Eintr] sample_file = Inr ()"
  by (subst verify_original_iff) (simp_all add: sample_open, simp add: sample_access_def sample_file_def)

lemma sample_read: "read_original_record (ax_posix sample_access) ''/r'' [Short_count 2] sample_file 2 3 = Inr '' x ''"
  by (simp add: read_original_record_def sample_open k_off_max_def)
    (simp add: sample_file_def pread_loop.simps pread_bytes_def)

lemma sample_times: "parse_iso8601_milliseconds ''1970-01-01T00:00:01.000Z'' = Some 1000"
  "parse_iso8601_milliseconds ''1970-01-01T00:00:02.000Z'' = Some 2000" "tokenize_terms '' x '' = [''x'']"
  by code_simp+

lemma sample_build: "build_tables sample_access sample_batch = Inr sample_tables"
proof -
  have ax: "ax_root sample_access = ''/r''" "ax_file_reads sample_access i = [Short_count 4, Eintr]"
    "ax_record_reads sample_access i = [Short_count 2]" for i by (simp_all add: sample_access_def)
  have f: "segment_file (sample_archive\<lparr>ar_file_type := ''runtime'', ar_file_size := 10,
      ar_produced_at := ''1970-01-01T00:00:01.000Z'', ar_archived_at := ''1970-01-01T00:00:02.000Z''\<rparr>) = sample_file"
    by (simp add: segment_file_def sample_archive_def sample_file_def)
  have d: "sample_document = segment_document 1 0 \<lparr>ad_local_id = 0, ad_document = \<lparr>pd_archive_id = 5, pd_byte_offset = 2, pd_byte_length = 3,
       pd_occurred_at = ''1970-01-01T00:00:01.000Z'', pd_archived_at = ''1970-01-01T00:00:02.000Z'',
       pd_line_id = ''L'', pd_station_id = ''S'', pd_device_id = ''D'', pd_collector_id = ''C'',
       pd_work_order = [], pd_product_sn = [], pd_source_type = ''runtime'', pd_level = ''ERROR'',
       pd_module_name = ''M'', pd_error_code = ''E1'', pd_event_name = [], pd_term_count = 1\<rparr>\<rparr> 1000 2000 1"
    by (simp add: segment_document_def Let_def sample_document_def make_doc_id_def push_bit_eq_mult)
  have five: "fr_archive_id sample_file = 5" by (simp add: sample_file_def)
  show ?thesis
    unfolding d sample_tables_def
    by (simp add: build_tables_def sample_batch_def ax f five sample_verify build_document_def sample_read sample_times
        Let_def build_start_def add_posting_def)
qed

end
