(* ===== verification/Segment_Store.thy ===== *)
theory Segment_Store
  imports Segment_Index Json_Model Durable_Files
begin

text \<open>
  The segment store (\<open>indexing/segment_store.cpp\<close>): the manifest, loading and validating a segment
  directory, building one and publishing it by a rename, and the operations on the directory tree.
  Paths are relative to the index root.
\<close>

datatype index_error =
    Io io_error | Layout_invalid | Json_invalid | Manifest_invalid | Sha_mismatch | Codec segment_error
  | Statistics_invalid | Descriptor_invalid | Build build_error | Unexpected_entry
  | Counts_invalid | Rows_invalid | Identity_invalid | Batch_exists | Db_failed | Snapshot_failed
  | Index_locked

abbreviation io :: "('a store_state_scheme, io_error, 'b) proc \<Rightarrow> ('a store_state_scheme, index_error, 'b) proc" where
  "io \<equiv> map_error Io"

definition lift_sum :: "index_error + 'b \<Rightarrow> ('s, index_error, 'b) proc" where
  "lift_sum r = (case r of Inl e \<Rightarrow> throw e | Inr x \<Rightarrow> ret x)"

text \<open>What the store is given: the JSON library, SHA-256 and the clock.\<close>

record 'j store_env =
  en_json :: "'j json_lib"
  en_sha256 :: "string \<Rightarrow> string"
  en_now :: int

section \<open>Names and limits\<close>

definition segment_name :: "u64 \<Rightarrow> string" where
  "segment_name batch_id = ''segment_'' @ to_string (unat batch_id)"

definition valid_segment_name :: "string \<Rightarrow> bool" where
  "valid_segment_name name \<longleftrightarrow> (let prefix = ''segment_'' in
     take (length prefix) name = prefix \<and> length name \<noteq> length prefix \<and>
     list_all is_digit (drop (length prefix) name))"

definition k_manifest_limit :: nat where "k_manifest_limit = 1024 * 1024"
definition k_binary_limit :: nat where "k_binary_limit = 2 * 1024 * 1024 * 1024"

definition segments_root :: fpath where "segments_root = [''segments'']"
definition building_root :: fpath where "building_root = [''segments'', ''.building'']"

section \<open>The manifest\<close>

record segment_manifest =
  mf_format_version :: u32
  mf_batch_id :: u64
  mf_first_archive_id :: u64
  mf_last_archive_id :: u64
  mf_segment_name :: string
  mf_file_count :: u64
  mf_source_file_count :: u64
  mf_document_count :: u64
  mf_term_count :: u64
  mf_posting_count :: u64
  mf_average :: real
  mf_min_time :: int
  mf_max_time :: int
  mf_facts :: "(string \<times> u64 \<times> string) list"

definition manifest_keys :: "string list" where
  "manifest_keys = [''format_version'', ''batch_id'', ''first_archive_id'', ''last_archive_id'', ''segment_name'',
     ''source_file_count'', ''parsed_file_count'', ''document_count'', ''term_count'', ''posting_count'',
     ''average_document_length'', ''min_occurred_at'', ''max_occurred_at'', ''created_at'', ''artifacts'']"

definition artifact_names :: "string list" where
  "artifact_names = [''documents.bin'', ''files.bin'', ''postings.bin'', ''terms.bin'']"

definition parse_fact :: "'j json_lib \<Rightarrow> 'j \<Rightarrow> index_error + u64 \<times> string" where
  "parse_fact jl entry =
     (if \<not> require_keys jl [''size'', ''sha256''] entry then Inl Manifest_invalid
      else case (u64_at jl entry ''size'', string_at jl entry ''sha256'') of
          (Some sz, Some sha) \<Rightarrow>
            if \<not> valid_sha256 sha \<or> unat sz > k_binary_limit then Inl Manifest_invalid else Inr (sz, sha)
        | _ \<Rightarrow> Inl Json_invalid)"

primrec parse_facts :: "'j json_lib \<Rightarrow> 'j \<Rightarrow> string list \<Rightarrow> index_error + (string \<times> u64 \<times> string) list" where
  "parse_facts jl v [] = Inr []"
| "parse_facts jl v (name # names) = (case jl_at jl v name of
       None \<Rightarrow> Inl Json_invalid
     | Some entry \<Rightarrow> sbind (parse_fact jl entry) (\<lambda>f. sbind (parse_facts jl v names) (\<lambda>fs. Inr ((name, f) # fs))))"

definition parse_artifact_facts :: "'j json_lib \<Rightarrow> 'j \<Rightarrow> index_error + (string \<times> u64 \<times> string) list" where
  "parse_artifact_facts jl v =
     (if \<not> require_keys jl artifact_names v then Inl Manifest_invalid else parse_facts jl v artifact_names)"

text \<open>The members with their conversions, times and facts apart.\<close>

definition manifest_members :: "'j json_lib \<Rightarrow> 'j \<Rightarrow> segment_manifest option" where
  "manifest_members jl m =
     Option.bind (u32_at jl m ''format_version'') (\<lambda>version.
     Option.bind (u64_at jl m ''batch_id'') (\<lambda>batch_id.
     Option.bind (u64_at jl m ''first_archive_id'') (\<lambda>first.
     Option.bind (u64_at jl m ''last_archive_id'') (\<lambda>last.
     Option.bind (string_at jl m ''segment_name'') (\<lambda>name.
     Option.bind (u64_at jl m ''parsed_file_count'') (\<lambda>file_count.
     Option.bind (u64_at jl m ''source_file_count'') (\<lambda>source_count.
     Option.bind (u64_at jl m ''document_count'') (\<lambda>document_count.
     Option.bind (u64_at jl m ''term_count'') (\<lambda>term_count.
     Option.bind (u64_at jl m ''posting_count'') (\<lambda>posting_count.
     Option.bind (double_at jl m ''average_document_length'') (\<lambda>average.
     Some \<lparr>mf_format_version = version, mf_batch_id = batch_id, mf_first_archive_id = first,
       mf_last_archive_id = last, mf_segment_name = name, mf_file_count = file_count,
       mf_source_file_count = source_count, mf_document_count = document_count,
       mf_term_count = term_count, mf_posting_count = posting_count, mf_average = average,
       mf_min_time = 0, mf_max_time = 0, mf_facts = []\<rparr>)))))))))))"

definition members_invalid :: "string \<Rightarrow> u64 \<Rightarrow> segment_manifest \<Rightarrow> bool" where
  "members_invalid expected_name expected_batch_id m \<longleftrightarrow>
     mf_format_version m \<noteq> k_segment_format_version \<or> mf_batch_id m \<noteq> expected_batch_id \<or>
     mf_batch_id m > 0xFFFFFFFF \<or> mf_first_archive_id m = 0 \<or>
     mf_last_archive_id m < mf_first_archive_id m \<or> mf_segment_name m \<noteq> expected_name \<or>
     mf_source_file_count m < mf_file_count m \<or> mf_file_count m = 0 \<or> mf_document_count m = 0 \<or>
     mf_term_count m = 0 \<or> mf_posting_count m = 0 \<or> mf_average m \<le> 0"

definition time_at :: "'j json_lib \<Rightarrow> 'j \<Rightarrow> string \<Rightarrow> index_error + int" where
  "time_at jl m k = (case string_at jl m k of
       None \<Rightarrow> Inl Json_invalid
     | Some s \<Rightarrow> (case parse_iso8601_milliseconds s of None \<Rightarrow> Inl Manifest_invalid | Some t \<Rightarrow> Inr t))"

definition parse_manifest :: "'j json_lib \<Rightarrow> string \<Rightarrow> u64 \<Rightarrow> string \<Rightarrow> index_error + segment_manifest" where
  "parse_manifest jl expected_name expected_batch_id content = (case jl_parse jl content of
       None \<Rightarrow> Inl Json_invalid
     | Some manifest \<Rightarrow>
         if \<not> require_keys jl manifest_keys manifest then Inl Manifest_invalid
         else case manifest_members jl manifest of
             None \<Rightarrow> Inl Json_invalid
           | Some m \<Rightarrow>
               if members_invalid expected_name expected_batch_id m then Inl Manifest_invalid
               else sbind (time_at jl manifest ''min_occurred_at'') (\<lambda>min_time.
                    sbind (time_at jl manifest ''max_occurred_at'') (\<lambda>max_time.
                    sbind (time_at jl manifest ''created_at'') (\<lambda>created_at.
                    if min_time > max_time then Inl Manifest_invalid
                    else case jl_at jl manifest ''artifacts'' of
                        None \<Rightarrow> Inl Json_invalid
                      | Some v \<Rightarrow> sbind (parse_artifact_facts jl v) (\<lambda>facts.
                          Inr (m\<lparr>mf_min_time := min_time, mf_max_time := max_time, mf_facts := facts\<rparr>))))))"

section \<open>Loading\<close>

definition require_exact_segment_files :: "fpath \<Rightarrow> ('a store_state_scheme, index_error, unit) proc" where
  "require_exact_segment_files path = bind (io (directory_entries path)) (\<lambda>names.
     if names \<noteq> [''documents.bin'', ''files.bin'', ''manifest.json'', ''postings.bin'', ''terms.bin'']
     then throw Layout_invalid else ret ())"

text \<open>The artifacts in the order of the map, each checked against its entry.\<close>

primrec read_artifacts :: "(string \<Rightarrow> string) \<Rightarrow> fpath \<Rightarrow> (string \<times> u64 \<times> string) list \<Rightarrow>
    ('a store_state_scheme, index_error, (string \<times> string) list) proc" where
  "read_artifacts sha256 path [] = ret []"
| "read_artifacts sha256 path (entry # facts) = (case entry of (name, sz, sha) \<Rightarrow>
     bind (io (read_regular_file (path @ [name]) k_binary_limit)) (\<lambda>content.
       if length content \<noteq> unat sz \<or> sha256 content \<noteq> sha then throw Sha_mismatch
       else bind (read_artifacts sha256 path facts) (\<lambda>contents. ret ((name, content) # contents))))"

definition content_of :: "(string \<times> string) list \<Rightarrow> string \<Rightarrow> string" where
  "content_of contents name = (case map_of contents name of None \<Rightarrow> [] | Some c \<Rightarrow> c)"

definition codec :: "segment_error + 'b \<Rightarrow> index_error + 'b" where
  "codec = map_sum Codec id"

definition load_tables :: "segment_manifest \<Rightarrow> string \<Rightarrow> (string \<times> string) list \<Rightarrow> index_error + loaded_segment" where
  "load_tables m manifest_sha contents =
     sbind (codec (load_files (content_of contents ''files.bin'') (mf_file_count m))) (\<lambda>files.
     sbind (codec (load_documents (content_of contents ''documents.bin'') (mf_document_count m) (mf_batch_id m) files)) (\<lambda>documents.
     sbind (codec (load_postings (content_of contents ''postings.bin'') (mf_posting_count m) (length documents))) (\<lambda>postings.
     sbind (codec (load_terms (content_of contents ''terms.bin'') (mf_term_count m) postings)) (\<lambda>(terms, lookup).
       let total_terms = sum_list (map (\<lambda>d. unat (dr_term_count d)) documents);
           actual_min = fold min (map dr_occurred_at_ms documents) (2 ^ 63 - 1);
           actual_max = fold max (map dr_occurred_at_ms documents) (- (2 ^ 63));
           actual_average = real total_terms / real (length documents)
       in if \<bar>actual_average - mf_average m\<bar> > 1 / 1000000000 \<or> actual_min \<noteq> mf_min_time m \<or>
             actual_max \<noteq> mf_max_time m
          then Inl Statistics_invalid
          else Inr \<lparr>ls_format_version = mf_format_version m, ls_batch_id = mf_batch_id m,
            ls_first_archive_id = mf_first_archive_id m, ls_last_archive_id = mf_last_archive_id m,
            ls_source_file_count = unat (mf_source_file_count m), ls_parsed_file_count = unat (mf_file_count m),
            ls_segment_name = mf_segment_name m, ls_manifest_sha256 = manifest_sha,
            ls_average_document_length = mf_average m, ls_min_occurred_at_ms = mf_min_time m,
            ls_max_occurred_at_ms = mf_max_time m, ls_files = files, ls_documents = documents,
            ls_postings = postings, ls_terms = terms, ls_term_lookup = lookup\<rparr>))))"

definition load_at_path :: "'j store_env \<Rightarrow> fpath \<Rightarrow> string \<Rightarrow> u64 \<Rightarrow> string \<Rightarrow>
    ('a store_state_scheme, index_error, loaded_segment) proc" where
  "load_at_path en path expected_name expected_batch_id expected_manifest_sha =
     seq (require_exact_segment_files path)
     (bind (io (read_regular_file (path @ [''manifest.json'']) k_manifest_limit)) (\<lambda>manifest_content.
        let manifest_sha = en_sha256 en manifest_content
        in if expected_manifest_sha \<noteq> [] \<and> manifest_sha \<noteq> expected_manifest_sha then throw Sha_mismatch
           else bind (lift_sum (parse_manifest (en_json en) expected_name expected_batch_id manifest_content)) (\<lambda>m.
             bind (read_artifacts (en_sha256 en) path (mf_facts m)) (\<lambda>contents.
             lift_sum (load_tables m manifest_sha contents)))))"

section \<open>Building and publishing\<close>

definition fact_json :: "'j store_env \<Rightarrow> string \<Rightarrow> 'j" where
  "fact_json en content = jl_object (en_json en)
     [(''size'', jl_unsigned (en_json en) (word_of_nat (length content))),
      (''sha256'', jl_string (en_json en) (en_sha256 en content))]"

record segment_contents =
  sc_files :: string
  sc_documents :: string
  sc_postings :: string
  sc_terms :: string

definition serialize_tables :: "segment_tables \<Rightarrow> index_error + segment_contents" where
  "serialize_tables tb =
     sbind (codec (serialize_files (sg_files tb))) (\<lambda>files.
     sbind (codec (serialize_documents (sg_documents tb))) (\<lambda>documents.
     sbind (codec (serialize_terms (sg_terms tb))) (\<lambda>terms.
       Inr \<lparr>sc_files = files, sc_documents = documents,
            sc_postings = serialize_postings (sg_postings tb), sc_terms = terms\<rparr>)))"

definition manifest_json :: "'j store_env \<Rightarrow> parsed_batch_descriptor \<Rightarrow> segment_tables \<Rightarrow> segment_contents \<Rightarrow> 'j" where
  "manifest_json en descriptor tb c =
     (let jl = en_json en; number = (\<lambda>n. jl_unsigned jl (word_of_nat n))
      in jl_object jl
        [(''format_version'', jl_unsigned jl (ucast k_segment_format_version)),
         (''batch_id'', jl_unsigned jl (bd_batch_id descriptor)),
         (''first_archive_id'', jl_unsigned jl (bd_first_archive_id descriptor)),
         (''last_archive_id'', jl_unsigned jl (bd_last_archive_id descriptor)),
         (''segment_name'', jl_string jl (segment_name (bd_batch_id descriptor))),
         (''source_file_count'', jl_unsigned jl (bd_source_file_count descriptor)),
         (''parsed_file_count'', number (length (sg_files tb))),
         (''document_count'', number (length (sg_documents tb))),
         (''term_count'', number (length (sg_terms tb))),
         (''posting_count'', number (length (sg_postings tb))),
         (''average_document_length'', jl_double jl (real (sg_total_terms tb) / real (length (sg_documents tb)))),
         (''min_occurred_at'', jl_string jl (format_utc_milliseconds (sg_min_time tb))),
         (''max_occurred_at'', jl_string jl (format_utc_milliseconds (sg_max_time tb))),
         (''created_at'', jl_string jl (format_utc_milliseconds (en_now en))),
         (''artifacts'', jl_object jl
            [(''files.bin'', fact_json en (sc_files c)), (''documents.bin'', fact_json en (sc_documents c)),
             (''postings.bin'', fact_json en (sc_postings c)), (''terms.bin'', fact_json en (sc_terms c))])])"

record segment_build_result =
  br_batch_id :: u64
  br_segment_name :: string
  br_manifest_sha256 :: string
  br_document_count :: nat
  br_term_count :: nat
  br_posting_count :: nat

definition remove_segment_directory :: "fpath \<Rightarrow> ('a store_state_scheme, index_error, unit) proc" where
  "remove_segment_directory path =
     seq (io (remove_file (path @ [''manifest.json''])))
     (seq (io (remove_file (path @ [''terms.bin''])))
     (seq (io (remove_file (path @ [''postings.bin''])))
     (seq (io (remove_file (path @ [''documents.bin''])))
     (seq (io (remove_file (path @ [''files.bin''])))
     (io (remove_directory path))))))"

text \<open>The steps under the handler: write the files, validate them in place, rename.\<close>

definition write_and_publish :: "'j store_env \<Rightarrow> fpath \<Rightarrow> fpath \<Rightarrow> string \<Rightarrow> u64 \<Rightarrow> segment_contents \<Rightarrow> string \<Rightarrow>
    ('a store_state_scheme, index_error, unit) proc" where
  "write_and_publish en building_path final_path name batch_id c manifest_content =
     seq (io (write_durable_file (building_path @ [''files.bin'']) (sc_files c)))
     (seq (io (write_durable_file (building_path @ [''documents.bin'']) (sc_documents c)))
     (seq (io (write_durable_file (building_path @ [''postings.bin'']) (sc_postings c)))
     (seq (io (write_durable_file (building_path @ [''terms.bin'']) (sc_terms c)))
     (seq (io (write_durable_file (building_path @ [''manifest.json'']) manifest_content))
     (seq (io (sync_directory building_path))
     (seq (load_at_path en building_path name batch_id (en_sha256 en manifest_content))
     (seq (io (rename_directory building_path final_path))
     (io (sync_directory segments_root)))))))))"

definition build :: "'j store_env \<Rightarrow> archive_access \<Rightarrow> parsed_batch_data \<Rightarrow>
    ('a store_state_scheme, index_error, segment_build_result) proc" where
  "build en ax batch =
     bind (lift_sum (map_sum Build id (build_tables ax batch))) (\<lambda>tb.
     bind (lift_sum (serialize_tables tb)) (\<lambda>c.
       let descriptor = bt_descriptor batch;
           name = segment_name (bd_batch_id descriptor);
           manifest_content = jl_dump_pretty (en_json en) (manifest_json en descriptor tb c) @ [CHR 0x0A];
           building_path = building_root @ [name];
           final_path = segments_root @ [name]
       in seq (io (ensure_directory segments_root))
         (seq (io (ensure_directory building_root))
         (seq (remove_segment_directory building_path)
         (seq (remove_segment_directory final_path)
         (seq (io (ensure_directory building_path))
         (seq (catch (write_and_publish en building_path final_path name (bd_batch_id descriptor) c manifest_content)
                 (\<lambda>e. seq (remove_segment_directory building_path) (throw e)))
         (ret \<lparr>br_batch_id = bd_batch_id descriptor, br_segment_name = name,
               br_manifest_sha256 = en_sha256 en manifest_content,
               br_document_count = length (sg_documents tb), br_term_count = length (sg_terms tb),
               br_posting_count = length (sg_postings tb)\<rparr>))))))))"

section \<open>The store's other operations\<close>

record ready_segment_descriptor =
  rd_batch_id :: u64
  rd_segment_name :: string
  rd_segment_sha256 :: string

definition load_segment :: "'j store_env \<Rightarrow> ready_segment_descriptor \<Rightarrow>
    ('a store_state_scheme, index_error, loaded_segment) proc" where
  "load_segment en d =
     (if rd_batch_id d = 0 \<or> rd_segment_name d \<noteq> segment_name (rd_batch_id d) \<or> \<not> valid_sha256 (rd_segment_sha256 d)
      then throw Descriptor_invalid
      else load_at_path en (segments_root @ [rd_segment_name d]) (rd_segment_name d) (rd_batch_id d)
             (rd_segment_sha256 d))"

definition load_unpublished :: "'j store_env \<Rightarrow> u64 \<Rightarrow> ('a store_state_scheme, index_error, loaded_segment) proc" where
  "load_unpublished en batch_id = load_at_path en (segments_root @ [segment_name batch_id])
     (segment_name batch_id) batch_id []"

definition published_exists :: "u64 \<Rightarrow> ('a store_state_scheme, index_error, bool) proc" where
  "published_exists batch_id = is_directory (segments_root @ [segment_name batch_id])"

definition remove_segment :: "u64 \<Rightarrow> ('a store_state_scheme, index_error, unit) proc" where
  "remove_segment batch_id =
     seq (remove_segment_directory (building_root @ [segment_name batch_id]))
         (remove_segment_directory (segments_root @ [segment_name batch_id]))"

definition cleanup_building :: "('a store_state_scheme, index_error, unit) proc" where
  "cleanup_building =
     seq (io (ensure_directory segments_root))
     (seq (io (ensure_directory building_root))
     (bind (io (directory_entries building_root)) (\<lambda>names.
        seq (for_each (\<lambda>name. bind (if valid_segment_name name then is_directory (building_root @ [name]) else ret False) (\<lambda>d.
               if \<not> d then throw Unexpected_entry else remove_segment_directory (building_root @ [name]))) names)
            (io (sync_directory building_root)))))"

primrec published_names :: "string list \<Rightarrow> ('a store_state_scheme, index_error, string list) proc" where
  "published_names [] = ret []"
| "published_names (name # names) =
     (if name = ''.building'' then published_names names
      else bind (if valid_segment_name name then is_directory (segments_root @ [name]) else ret False) (\<lambda>d.
        if \<not> d then throw Unexpected_entry
        else bind (published_names names) (\<lambda>rest. ret (name # rest))))"

definition list_published_names :: "('a store_state_scheme, index_error, string list) proc" where
  "list_published_names = seq (io (ensure_directory segments_root))
     (bind (io (directory_entries segments_root)) published_names)"

end
