(* ===== verification/Segment_Publish.thy ===== *)
theory Segment_Publish
  imports Segment_Store
begin

text \<open>
  What the segment store promises: a load returns only well-formed segments whose manifest has the
  digest asked for (\<open>load_segment_sound\<close>); a build that returns has published a directory that loads,
  and whatever happens it touches nothing but its own batch's directories (\<open>build_publishes\<close>,
  \<open>build_contained\<close>). \<open>segment_at\<close> is loading without the system calls, a function of the files.
\<close>

section \<open>Loading as a function of the files\<close>

definition file_at :: "'a store_state_scheme \<Rightarrow> fpath \<Rightarrow> nat \<Rightarrow> index_error + string" where
  "file_at s p limit = (case node_at s p of
       Some (File c) \<Rightarrow> if length c > limit then Inl (Io File_invalid) else Inr c
     | _ \<Rightarrow> Inl (Io File_invalid))"

primrec artifacts_at :: "(string \<Rightarrow> string) \<Rightarrow> 'a store_state_scheme \<Rightarrow> fpath \<Rightarrow> (string \<times> u64 \<times> string) list \<Rightarrow>
    index_error + (string \<times> string) list" where
  "artifacts_at sha256 s path [] = Inr []"
| "artifacts_at sha256 s path (e # es) = (case e of (name, sz, sha) \<Rightarrow>
     sbind (file_at s (path @ [name]) k_binary_limit) (\<lambda>content.
       if length content \<noteq> unat sz \<or> sha256 content \<noteq> sha then Inl Sha_mismatch
       else sbind (artifacts_at sha256 s path es) (\<lambda>contents. Inr ((name, content) # contents))))"

definition segment_at :: "'j store_env \<Rightarrow> 'a store_state_scheme \<Rightarrow> fpath \<Rightarrow> string \<Rightarrow> u64 \<Rightarrow> index_error + loaded_segment" where
  "segment_at en s path name batch_id =
     (if node_at s path \<noteq> Some Dir \<or>
         child_names s path \<noteq> [''documents.bin'', ''files.bin'', ''manifest.json'', ''postings.bin'', ''terms.bin'']
      then Inl Layout_invalid
      else sbind (file_at s (path @ [''manifest.json'']) k_manifest_limit) (\<lambda>content.
           sbind (parse_manifest (en_json en) name batch_id content) (\<lambda>m.
           sbind (artifacts_at (en_sha256 en) s path (mf_facts m)) (\<lambda>contents.
           load_tables m (en_sha256 en content) contents))))"

lemma read_file_at: "io (read_regular_file p limit) s = (Ret c, t) \<Longrightarrow> file_at s p limit = Inr c \<and> same_files s t"
  unfolding map_error_returns using read_regular_returns [of p limit s c t] by (simp add: file_at_def)

lemma file_at_cong: "node_at s p = node_at t q \<Longrightarrow> file_at s p limit = file_at t q limit"
  by (simp add: file_at_def)

lemma artifacts_at_cong:
  "(\<And>r. node_at s (p @ r) = node_at t (q @ r)) \<Longrightarrow> artifacts_at sha256 s p es = artifacts_at sha256 t q es"
proof (induction es)
  case (Cons e es)
  obtain name sz sha where e: "e = (name, sz, sha)" by (cases e) auto
  have "file_at s (p @ [name]) k_binary_limit = file_at t (q @ [name]) k_binary_limit"
    by (rule file_at_cong) (rule Cons.prems)
  with Cons.IH [OF Cons.prems] show ?case by (simp add: e cong: if_cong)
qed simp

lemma segment_at_cong:
  assumes "\<And>r. node_at s (p @ r) = node_at t (q @ r)"
  shows "segment_at en s p name batch_id = segment_at en t q name batch_id"
proof -
  have "child_names s p = child_names t q" by (rule child_names_cong) (simp add: assms)
  with assms [of "[]"] show ?thesis
    by (simp add: segment_at_def file_at_cong [OF assms] artifacts_at_cong [OF assms])
qed

lemma segment_at_same: "same_files s t \<Longrightarrow> segment_at en t p name b = segment_at en s p name b"
  by (rule segment_at_cong) (simp add: same_files_node)

lemma read_artifacts_at:
  "read_artifacts sha256 path es s = (Ret contents, t) \<Longrightarrow>
     artifacts_at sha256 s path es = Inr contents \<and> same_files s t"
proof (induction es arbitrary: s t contents)
  case (Cons e es)
  obtain name sz sha where e: "e = (name, sz, sha)" by (cases e) auto
  from Cons.prems obtain content u rest v where
    c: "io (read_regular_file (path @ [name]) k_binary_limit) s = (Ret content, u)"
    and ok: "length content = unat sz" "sha256 content = sha"
    and rest: "read_artifacts sha256 path es u = (Ret rest, v)" and out: "contents = (name, content) # rest" "t = v"
    by (auto simp: e bind_returns throw_returns ret_returns split: if_splits)
  from Cons.IH [OF rest] have r: "artifacts_at sha256 u path es = Inr rest" "same_files u v" by auto
  have su: "same_files s u" using read_file_at [OF c] by blast
  have "artifacts_at sha256 s path es = Inr rest"
    using r(1) artifacts_at_cong [of s path u path] same_files_node [OF su] by metis
  with read_file_at [OF c] ok out r(2) su show ?case
    by (auto simp: e intro: same_files_trans)
qed (simp add: ret_returns)

lemma lift_sum_returns [returns]: "lift_sum r s = (Ret x, t) \<longleftrightarrow> r = Inr x \<and> t = s"
  by (auto simp: lift_sum_def ret_returns throw_returns split: sum.splits)

lemma load_at_path_returns:
  assumes "load_at_path en path name batch_id sha s = (Ret seg, t)"
  shows "segment_at en s path name batch_id = Inr seg" and "sha = [] \<or> ls_manifest_sha256 seg = sha"
    and "same_files s t"
proof -
  obtain names u v w x content m contents where
    d: "io (directory_entries path) s = (Ret names, u)"
      "names = [''documents.bin'', ''files.bin'', ''manifest.json'', ''postings.bin'', ''terms.bin'']"
    and c: "io (read_regular_file (path @ [''manifest.json'']) k_manifest_limit) u = (Ret content, v)"
    and sha: "sha = [] \<or> en_sha256 en content = sha"
    and m: "parse_manifest (en_json en) name batch_id content = Inr m"
    and a: "read_artifacts (en_sha256 en) path (mf_facts m) v = (Ret contents, w)"
    and l: "load_tables m (en_sha256 en content) contents = Inr seg" "t = w"
  proof -
    from assms obtain y names u u' v content where
      d: "io (directory_entries path) s = (Ret names, u)"
      and n: "(if names \<noteq> [''documents.bin'', ''files.bin'', ''manifest.json'', ''postings.bin'', ''terms.bin'']
        then throw Layout_invalid else ret ()) u = (Ret y, u')"
      and c: "io (read_regular_file (path @ [''manifest.json'']) k_manifest_limit) u' = (Ret content, v)"
      and rest: "(if sha \<noteq> [] \<and> en_sha256 en content \<noteq> sha then throw Sha_mismatch
           else bind (lift_sum (parse_manifest (en_json en) name batch_id content)) (\<lambda>m.
             bind (read_artifacts (en_sha256 en) path (mf_facts m)) (\<lambda>contents.
             lift_sum (load_tables m (en_sha256 en content) contents)))) v = (Ret seg, t)"
      unfolding load_at_path_def require_exact_segment_files_def seq_returns bind_returns Let_def by blast
    from n have n': "names = [''documents.bin'', ''files.bin'', ''manifest.json'', ''postings.bin'', ''terms.bin'']" "u' = u"
      by (simp_all add: throw_returns ret_returns del: list.inject split: if_splits)
    from rest have sha: "sha = [] \<or> en_sha256 en content = sha" by (auto simp: throw_returns split: if_splits)
    with rest obtain m contents w where m: "parse_manifest (en_json en) name batch_id content = Inr m"
      "read_artifacts (en_sha256 en) path (mf_facts m) v = (Ret contents, w)"
      "load_tables m (en_sha256 en content) contents = Inr seg" "t = w"
      by (auto simp: bind_returns lift_sum_returns)
    show thesis by (rule that [OF d n'(1) c [unfolded n'(2)] sha m])
  qed
  note e = directory_entries_returns [OF d(1) [unfolded map_error_returns]]
  note f = read_file_at [OF c] and r = read_artifacts_at [OF a]
  have sv: "same_files s v" using e(3) f by (blast intro: same_files_trans)
  have "file_at s (path @ [''manifest.json'']) k_manifest_limit = Inr content"
    using f by (simp add: file_at_def same_files_node [OF e(3)])
  moreover have "artifacts_at (en_sha256 en) s path (mf_facts m) = Inr contents"
    using r artifacts_at_cong [of s path v path "en_sha256 en" "mf_facts m"] same_files_node [OF sv] by simp
  ultimately show "segment_at en s path name batch_id = Inr seg"
    using e d(2) m l(1) by (simp add: segment_at_def)
  show "same_files s t" using sv r l(2) by (blast intro: same_files_trans)
  have "ls_manifest_sha256 seg = en_sha256 en content"
    using l(1) by (auto simp: load_tables_def sbind_def Let_def split: sum.splits prod.splits if_splits)
  with sha show "sha = [] \<or> ls_manifest_sha256 seg = sha" by simp
qed

section \<open>What is loaded is well-formed\<close>

lemma codec_Inr: "codec r = Inr x \<longleftrightarrow> r = Inr x"
  by (cases r) (auto simp: codec_def)

lemma document_bytes_nonempty: "document_bytes d \<noteq> []"
  by (simp add: document_bytes_def append_uint64_def)

lemma concat_length_ge: "(\<And>x. x \<in> set xs \<Longrightarrow> f x \<noteq> []) \<Longrightarrow> length xs \<le> length (concat (map f xs))"
proof (induction xs)
  case (Cons x xs)
  then have "f x \<noteq> []" "length xs \<le> length (concat (map f xs))" by auto
  then show ?case by (cases "f x") auto
qed simp

lemma load_documents_length: "load_documents c n b files = Inr ds \<Longrightarrow> length ds \<le> length c"
  using concat_length_ge [of ds document_bytes] document_bytes_nonempty
  by (auto simp: load_documents_bytes)

lemma load_tables_wf:
  assumes l: "load_tables m sha contents = Inr seg" and b: "mf_batch_id m \<le> 0xFFFFFFFF"
    and small: "length (content_of contents ''documents.bin'') \<le> k_binary_limit"
  shows "segment_wf seg \<and> ls_batch_id seg = mf_batch_id m \<and> ls_segment_name seg = mf_segment_name m"
proof -
  obtain files documents postings terms lookup where
    f: "load_files (content_of contents ''files.bin'') (mf_file_count m) = Inr files"
    and d: "load_documents (content_of contents ''documents.bin'') (mf_document_count m) (mf_batch_id m) files = Inr documents"
    and p: "load_postings (content_of contents ''postings.bin'') (mf_posting_count m) (length documents) = Inr postings"
    and t: "load_terms (content_of contents ''terms.bin'') (mf_term_count m) postings = Inr (terms, lookup)"
    and seg: "ls_files seg = files" "ls_documents seg = documents" "ls_postings seg = postings"
      "ls_terms seg = terms" "ls_term_lookup seg = lookup" "ls_batch_id seg = mf_batch_id m"
      "ls_segment_name seg = mf_segment_name m"
    using l by (auto simp: load_tables_def sbind_def codec_Inr Let_def split: sum.splits prod.splits if_splits)
  have "length documents < 2 ^ 32"
    using load_documents_length [OF d] small by (simp add: k_binary_limit_def)
  moreover have "mf_batch_id m < 2 ^ 32" using b by (simp add: word_le_nat_alt word_less_nat_alt)
  ultimately show ?thesis
    using f d p t seg terms_complete_wf [of postings terms]
    by (simp add: segment_wf_def load_files_bytes load_documents_bytes load_postings_bytes load_terms_bytes)
qed

lemma artifacts_at_sizes:
  "artifacts_at sha256 s path es = Inr contents \<Longrightarrow> map_of contents name = Some c \<Longrightarrow> length c \<le> k_binary_limit"
proof (induction es arbitrary: contents)
  case (Cons e es)
  then show ?case
    by (auto simp: sbind_def file_at_def split: prod.splits sum.splits option.splits node.splits if_splits)
qed simp

lemma parse_manifest_fields:
  assumes "parse_manifest jl name batch_id content = Inr m"
  shows "mf_batch_id m = batch_id \<and> mf_segment_name m = name \<and> mf_batch_id m \<le> 0xFFFFFFFF"
  using assms
  by (auto simp: parse_manifest_def sbind_def members_invalid_def not_less split: option.splits if_splits sum.splits)

lemma segment_at_wf:
  assumes "segment_at en s path name batch_id = Inr seg"
  shows "segment_wf seg \<and> ls_batch_id seg = batch_id \<and> ls_segment_name seg = name"
proof -
  obtain content m contents where
    m: "parse_manifest (en_json en) name batch_id content = Inr m"
    and a: "artifacts_at (en_sha256 en) s path (mf_facts m) = Inr contents"
    and l: "load_tables m (en_sha256 en content) contents = Inr seg"
    using assms by (auto simp: segment_at_def sbind_def split: if_splits sum.splits)
  have "length (content_of contents ''documents.bin'') \<le> k_binary_limit"
    using artifacts_at_sizes [OF a] by (auto simp: content_of_def split: option.splits)
  with parse_manifest_fields [OF m] show ?thesis
    using load_tables_wf [OF l] by auto
qed

lemma load_segment_returns:
  assumes "load_segment en d s = (Ret seg, t)"
  shows "segment_at en s (segments_root @ [segment_name (rd_batch_id d)]) (segment_name (rd_batch_id d)) (rd_batch_id d) = Inr seg"
    and "ls_manifest_sha256 seg = rd_segment_sha256 d" and "same_files s t" and "rd_batch_id d \<noteq> 0"
proof -
  have d: "rd_batch_id d \<noteq> 0" "rd_segment_name d = segment_name (rd_batch_id d)" "valid_sha256 (rd_segment_sha256 d)"
    and l: "load_at_path en (segments_root @ [rd_segment_name d]) (rd_segment_name d) (rd_batch_id d)
      (rd_segment_sha256 d) s = (Ret seg, t)"
    using assms by (auto simp: load_segment_def returns split: if_splits)
  have "rd_segment_sha256 d \<noteq> []" using d(3) by (auto simp: valid_sha256_def)
  with d load_at_path_returns [OF l] show
    "segment_at en s (segments_root @ [segment_name (rd_batch_id d)]) (segment_name (rd_batch_id d)) (rd_batch_id d) = Inr seg"
    "ls_manifest_sha256 seg = rd_segment_sha256 d" "same_files s t" "rd_batch_id d \<noteq> 0" by auto
qed

text \<open>
  A segment the store loads for a READY descriptor is well-formed (files, documents, postings and
  dictionary agree with each other and every identifier carries the batch), is the batch asked for,
  and its manifest has the digest the database recorded; loading changes no file.
\<close>

lemma load_segment_sound:
  assumes "load_segment en d s = (Ret seg, t)"
  shows "segment_wf seg \<and> ls_batch_id seg = rd_batch_id d \<and> ls_segment_name seg = rd_segment_name d \<and>
    ls_manifest_sha256 seg = rd_segment_sha256 d \<and> st_nodes t = st_nodes s"
proof -
  have "rd_segment_name d = segment_name (rd_batch_id d)"
    using assms by (auto simp: load_segment_def returns split: if_splits)
  with load_segment_returns [OF assms] segment_at_wf [OF load_segment_returns(1) [OF assms]]
  show ?thesis by (simp add: same_files_def)
qed

section \<open>Building touches its own directories only\<close>

definition batch_paths :: "u64 \<Rightarrow> fpath \<Rightarrow> bool" where
  "batch_paths batch_id q \<longleftrightarrow> q = segments_root \<or> q = building_root \<or>
     below (building_root @ [segment_name batch_id]) q \<or> below (segments_root @ [segment_name batch_id]) q"

lemma segment_name_inject: "segment_name a = segment_name b \<longleftrightarrow> a = b"
  by (simp add: segment_name_def word_unat_eq_iff)

lemma segment_name_not_building: "segment_name b \<noteq> ''.building''"
  by (simp add: segment_name_def)

lemma segment_paths_apart:
  "\<not> below (building_root @ [segment_name b]) (segments_root @ [segment_name c])"
  "\<not> below (segments_root @ [segment_name c]) (building_root @ [segment_name b])"
  by (simp_all add: below_iff building_root_def segments_root_def segment_name_not_building
      segment_name_not_building [symmetric])

lemma touches_remove_segment: "(\<And>q. below p q \<Longrightarrow> P q) \<Longrightarrow> touches P (remove_segment_directory p)"
  unfolding remove_segment_directory_def
  by (intro frame touches_remove_file touches_remove_directory) (auto simp: below_iff)

lemma touches_lift_sum [frame]: "touches P (lift_sum r)"
  by (auto simp: lift_sum_def intro: frame split: sum.splits)

lemma touches_read_artifacts [frame]: "touches P (read_artifacts sha256 path es)"
  by (induction es) (auto intro!: frame split: prod.splits)

lemma touches_load [frame]: "touches P (load_at_path en path name b sha)"
  unfolding load_at_path_def require_exact_segment_files_def Let_def
  by (intro frame)

lemma touches_write_and_publish:
  assumes ab: "\<not> below a b" "\<not> below b a" and P: "\<And>q. below a q \<or> below b q \<Longrightarrow> P q"
  shows "touches P (write_and_publish en a b name batch_id c manifest)"
  unfolding write_and_publish_def
  by (intro frame touches_write touches_rename [OF ab] P) auto

lemma touches_build: "touches (batch_paths (bd_batch_id (bt_descriptor batch))) (build en ax batch)"
  unfolding build_def Let_def
  by (intro frame touches_ensure touches_remove_segment touches_write_and_publish segment_paths_apart)
    (auto simp: batch_paths_def below_iff)

text \<open>
  C24: Whatever happens during a build, be it a failing or interrupted call or a crash anywhere, every
  file outside this batch's two directories is as it was: no other published segment is affected.
\<close>

theorem build_contained:
  assumes "snd (build en ax batch s) = t" and "c \<noteq> bd_batch_id (bt_descriptor batch)"
  shows "node_at t (segments_root @ segment_name c # r) = node_at s (segments_root @ segment_name c # r)"
proof -
  have "\<not> batch_paths (bd_batch_id (bt_descriptor batch)) (segments_root @ segment_name c # r)"
    using assms(2) segment_name_not_building
    by (auto simp: batch_paths_def segments_root_def building_root_def below_def segment_name_inject)
  with touches_build [of batch en ax] assms(1) show ?thesis unfolding touches_def by blast
qed

section \<open>A build that returns has published\<close>

lemma build_returns:
  assumes "build en ax batch s = (Ret r, t)"
  obtains tb c u v where "build_tables ax batch = Inr tb" and "serialize_tables tb = Inr c"
    and "write_and_publish en (building_root @ [segment_name (bd_batch_id (bt_descriptor batch))])
       (segments_root @ [segment_name (bd_batch_id (bt_descriptor batch))])
       (segment_name (bd_batch_id (bt_descriptor batch))) (bd_batch_id (bt_descriptor batch)) c
       (jl_dump_pretty (en_json en) (manifest_json en (bt_descriptor batch) tb c) @ [CHR 0x0A]) u = (Ret (), t)"
    and "r = \<lparr>br_batch_id = bd_batch_id (bt_descriptor batch),
       br_segment_name = segment_name (bd_batch_id (bt_descriptor batch)),
       br_manifest_sha256 = en_sha256 en (jl_dump_pretty (en_json en) (manifest_json en (bt_descriptor batch) tb c) @ [CHR 0x0A]),
       br_document_count = length (sg_documents tb), br_term_count = length (sg_terms tb),
       br_posting_count = length (sg_postings tb)\<rparr>"
proof -
  have catch: "catch m (\<lambda>e. seq (remove_segment_directory p) (throw e)) u = (Ret x, t) \<Longrightarrow> m u = (Ret x, t)"
    for m :: "('a store_state_scheme, index_error, unit) proc" and p u x
    by (auto simp: catch_def seq_returns throw_returns split: prod.splits result.splits)
  from assms obtain tb c u where tb: "map_sum Build id (build_tables ax batch) = Inr tb" and c: "serialize_tables tb = Inr c"
    and w: "catch (write_and_publish en (building_root @ [segment_name (bd_batch_id (bt_descriptor batch))])
       (segments_root @ [segment_name (bd_batch_id (bt_descriptor batch))])
       (segment_name (bd_batch_id (bt_descriptor batch))) (bd_batch_id (bt_descriptor batch)) c
       (jl_dump_pretty (en_json en) (manifest_json en (bt_descriptor batch) tb c) @ [CHR 0x0A]))
       (\<lambda>e. seq (remove_segment_directory (building_root @ [segment_name (bd_batch_id (bt_descriptor batch))])) (throw e)) u = (Ret (), t)"
    and r: "r = \<lparr>br_batch_id = bd_batch_id (bt_descriptor batch),
       br_segment_name = segment_name (bd_batch_id (bt_descriptor batch)),
       br_manifest_sha256 = en_sha256 en (jl_dump_pretty (en_json en) (manifest_json en (bt_descriptor batch) tb c) @ [CHR 0x0A]),
       br_document_count = length (sg_documents tb), br_term_count = length (sg_terms tb),
       br_posting_count = length (sg_postings tb)\<rparr>"
    unfolding build_def Let_def bind_returns seq_returns ret_returns lift_sum_returns by auto
  have "build_tables ax batch = Inr tb" using tb by (cases "build_tables ax batch") auto
  from that [OF this c catch [OF w] r] show thesis .
qed

lemma write_and_publish_returns:
  assumes "write_and_publish en a b name batch_id c manifest s = (Ret x, t)"
    and ab: "\<not> below a b" "\<not> below b a" and sha: "en_sha256 en manifest \<noteq> []"
  shows "\<exists>seg. segment_at en t b name batch_id = Inr seg \<and> ls_manifest_sha256 seg = en_sha256 en manifest"
    and "node_at t a = None"
proof -
  obtain s1 seg s2 s3 y where l: "load_at_path en a name batch_id (en_sha256 en manifest) s1 = (Ret seg, s2)"
    and r: "rename_directory a b s2 = (Ret y, s3)" and f: "sync_directory segments_root s3 = (Ret x, t)"
    using assms(1) unfolding write_and_publish_def seq_returns map_error_returns by metis
  note load = load_at_path_returns [OF l]
  have moved: "node_at s3 (b @ q) = node_at s2 (a @ q)" for q using rename_returns(2) [OF r ab] by simp
  have "segment_at en s3 b name batch_id = segment_at en s2 a name batch_id"
    by (rule segment_at_cong) (rule moved)
  moreover have "segment_at en t b name batch_id = segment_at en s3 b name batch_id"
    by (rule segment_at_cong) (rule touchesD(2) [OF touches_sync f, where P = "\<lambda>_. False"], simp)
  ultimately show "\<exists>seg. segment_at en t b name batch_id = Inr seg \<and> ls_manifest_sha256 seg = en_sha256 en manifest"
    using load(1,2) sha segment_at_same [OF load(3), of en a name batch_id] by auto
  have "below a a" by (simp add: below_def)
  then have "node_at s3 a = None" using rename_returns(2) [OF r ab, of a] ab(2) by simp
  then show "node_at t a = None" using touchesD(2) [OF touches_sync f, where P = "\<lambda>_. False"] by simp
qed

lemma build_publishes_lemma:
  assumes "build en ax batch s = (Ret r, t)" and "\<And>c. en_sha256 en c \<noteq> []"
  shows "\<exists>seg. segment_at en t (segments_root @ [br_segment_name r]) (br_segment_name r) (br_batch_id r) = Inr seg \<and>
    ls_manifest_sha256 seg = br_manifest_sha256 r \<and> segment_wf seg \<and>
    br_batch_id r = bd_batch_id (bt_descriptor batch) \<and>
    node_at t (building_root @ [br_segment_name r]) = None"
proof -
  obtain tb c u where w: "write_and_publish en (building_root @ [segment_name (bd_batch_id (bt_descriptor batch))])
       (segments_root @ [segment_name (bd_batch_id (bt_descriptor batch))])
       (segment_name (bd_batch_id (bt_descriptor batch))) (bd_batch_id (bt_descriptor batch)) c
       (jl_dump_pretty (en_json en) (manifest_json en (bt_descriptor batch) tb c) @ [CHR 0x0A]) u = (Ret (), t)"
    and r: "r = \<lparr>br_batch_id = bd_batch_id (bt_descriptor batch),
       br_segment_name = segment_name (bd_batch_id (bt_descriptor batch)),
       br_manifest_sha256 = en_sha256 en (jl_dump_pretty (en_json en) (manifest_json en (bt_descriptor batch) tb c) @ [CHR 0x0A]),
       br_document_count = length (sg_documents tb), br_term_count = length (sg_terms tb),
       br_posting_count = length (sg_postings tb)\<rparr>"
    using build_returns [OF assms(1)] by metis
  from write_and_publish_returns [OF w segment_paths_apart assms(2)] segment_at_wf
  show ?thesis unfolding r by fastforce
qed

text \<open>
  C17: A build that returns has published: the final directory of the batch loads, to a well-formed
  segment of this batch whose manifest digest is the one returned, and no building directory is left.
\<close>

theorem build_publishes:
  assumes "build en ax batch s = (Ret r, t)" and "\<And>c. en_sha256 en c \<noteq> []"
  shows "\<exists>seg. segment_at en t (segments_root @ [br_segment_name r]) (br_segment_name r) (br_batch_id r) = Inr seg \<and>
    ls_manifest_sha256 seg = br_manifest_sha256 r \<and> segment_wf seg \<and>
    br_batch_id r = bd_batch_id (bt_descriptor batch) \<and>
    node_at t (building_root @ [br_segment_name r]) = None"
  using assms by (rule build_publishes_lemma)

end
