(* ===== verification/Segment_Complete.thy ===== *)
theory Segment_Complete
  imports Segment_Publish
begin

text \<open>
  A build with no fault and tables that the codecs accept: the validation in place accepts what was
  written and the segment is published (\<open>build_quiet_lemma\<close>). \<open>quiet s\<close> says that no fault is pending, so
  every call takes its effect. That the tables of a build are ones the codecs accept is shown in
  \<open>Segment_Acceptance\<close>.
\<close>

abbreviation quiet :: "'a store_state_scheme \<Rightarrow> bool" where
  "quiet s \<equiv> st_events s = []"

section \<open>Operations without faults\<close>

lemma events_put [simp]: "st_events (put_node p n s) = st_events s"
  by (simp add: put_node_def)

lemma events_delete [simp]: "st_events (delete_node p s) = st_events s"
  by (simp add: delete_node_def)

lemma events_move [simp]: "st_events (move_node a b s) = st_events s"
  by (simp add: move_node_def)

lemma put_put [simp]: "put_node p n (put_node p m s) = put_node p n s"
  by (simp add: put_node_def)

lemma syscall_quiet: "quiet s \<Longrightarrow> syscall err m s = m s"
  by (simp add: syscall_def next_event_def bind_def)

lemma transfer_loop_quiet [simp]: "transfer_loop n [] = (Transferred, n, [])"
  by simp

lemma events_refl [simp]: "quiet s \<Longrightarrow> s\<lparr>st_events := []\<rparr> = s"
  by (cases s) simp

named_theorems quiet_simps \<open>operations without faults\<close>

lemma write_durable_quiet [quiet_simps]:
  assumes "quiet s" "node_at s p = None" "p \<noteq> []" "node_at s (butlast p) = Some Dir"
  shows "write_durable_file p c s = (Ret (), put_node p (File c) s)"
  using assms by (simp add: write_durable_file_def create_file_def write_all_def syscall_quiet exec_simps)

lemma read_quiet [quiet_simps]:
  assumes "quiet s" "node_at s p = Some (File c)" "length c \<le> limit"
  shows "read_regular_file p limit s = (Ret c, s)"
  using assms by (simp add: read_regular_file_def file_content_def read_all_def syscall_quiet exec_simps)

lemma sync_quiet [quiet_simps]:
  assumes "quiet s" "node_at s p = Some Dir"
  shows "sync_directory p s = (Ret (), s)"
  using assms by (simp add: sync_directory_def syscall_quiet exec_simps)

lemma entries_quiet [quiet_simps]:
  assumes "quiet s" "node_at s p = Some Dir"
  shows "directory_entries p s = (Ret (child_names s p), s)"
  using assms by (simp add: directory_entries_def syscall_quiet exec_simps)

lemma is_directory_quiet [quiet_simps]:
  "quiet s \<Longrightarrow> is_directory p s = (Ret (node_at s p = Some Dir), s)"
  by (simp add: is_directory_def next_event_def exec_simps)

lemma ensure_quiet [quiet_simps]:
  assumes "quiet s" "p \<noteq> []" "node_at s (butlast p) = Some Dir" "node_at s p = None \<or> node_at s p = Some Dir"
  shows "ensure_directory p s = (Ret (), if node_at s p = None then put_node p Dir s else s)"
  using assms by (auto simp: ensure_directory_def mkdir_def syscall_quiet is_directory_quiet exec_simps)

lemma remove_file_quiet [quiet_simps]:
  assumes "quiet s" "node_at s p \<noteq> Some Dir"
  shows "remove_file p s = (Ret (), if node_at s p = None then s else delete_node p s)"
  using assms by (auto simp: remove_file_def syscall_quiet exec_simps split: option.splits node.splits)

lemma remove_directory_quiet [quiet_simps]:
  assumes "quiet s" "node_at s p = None \<or> node_at s p = Some Dir \<and> child_names s p = []"
  shows "remove_directory p s = (Ret (), if node_at s p = None then s else delete_node p s)"
  using assms by (auto simp: remove_directory_def syscall_quiet exec_simps)

lemma rename_quiet [quiet_simps]:
  assumes "quiet s" "node_at s a = Some Dir" "node_at s (butlast b) = Some Dir" "node_at s b = None"
  shows "rename_directory a b s = (Ret (), move_node a b s)"
  using assms by (simp add: rename_directory_def syscall_quiet exec_simps)

lemma map_error_quiet: "m s = (Ret x, t) \<Longrightarrow> map_error f m s = (Ret x, t)"
  by (simp add: map_error_def)

text \<open>Chaining normal returns.\<close>

lemma seqI: "m s = (Ret x, t) \<Longrightarrow> n t = (Ret y, u) \<Longrightarrow> seq m n s = (Ret y, u)"
  by (simp add: seq_def bind_def)

lemma bindI: "m s = (Ret x, t) \<Longrightarrow> f x t = (Ret y, u) \<Longrightarrow> bind m f s = (Ret y, u)"
  by (simp add: bind_def)

lemma catchI: "m s = (Ret x, t) \<Longrightarrow> catch m h s = (Ret x, t)"
  by (simp add: catch_def)

section \<open>Clearing a directory\<close>

text \<open>A directory is absent, or holds at most the files of a segment.\<close>

definition segment_files :: "string list" where
  "segment_files = [''documents.bin'', ''files.bin'', ''manifest.json'', ''postings.bin'', ''terms.bin'']"

definition segment_shaped :: "'a store_state_scheme \<Rightarrow> fpath \<Rightarrow> bool" where
  "segment_shaped s p \<longleftrightarrow> (node_at s p = None \<or> node_at s p = Some Dir) \<and>
     (\<forall>c. node_at s (p @ [c]) \<noteq> None \<longrightarrow> node_at s (p @ [c]) \<noteq> Some Dir \<and>
        c \<in> set segment_files)"

definition no_subdirs :: "'a store_state_scheme \<Rightarrow> fpath \<Rightarrow> bool" where
  "no_subdirs s p \<longleftrightarrow> (\<forall>c. node_at s (p @ [c]) \<noteq> Some Dir)"

lemma remove_child_quiet:
  assumes "quiet s" "no_subdirs s p"
  obtains t where "io (remove_file (p @ [c])) s = (Ret (), t)" "quiet t" "no_subdirs t p"
    "\<And>q. node_at t q = (if q = p @ [c] then None else node_at s q)"
proof
  let ?t = "if node_at s (p @ [c]) = None then s else delete_node (p @ [c]) s"
  show "io (remove_file (p @ [c])) s = (Ret (), ?t)"
    using assms by (intro map_error_quiet remove_file_quiet) (simp_all add: no_subdirs_def)
  show "quiet ?t" using assms by simp
  show "node_at ?t q = (if q = p @ [c] then None else node_at s q)" for q by auto
  then show "no_subdirs ?t p" using assms by (simp add: no_subdirs_def)
qed

lemma remove_segment_quiet:
  assumes q: "quiet s" and shape: "segment_shaped s p"
  obtains t where "remove_segment_directory p s = (Ret (), t)" "quiet t"
    "\<And>r. node_at t r = (if r = p \<or> (\<exists>c. r = p @ [c]) then None else node_at s r)"
proof -
  have files: "no_subdirs s p"
    using shape unfolding segment_shaped_def no_subdirs_def by fastforce
  obtain s1 where s1: "io (remove_file (p @ [''manifest.json''])) s = (Ret (), s1)" "quiet s1" "no_subdirs s1 p"
    "\<And>r. node_at s1 r = (if r = p @ [''manifest.json''] then None else node_at s r)"
    using remove_child_quiet [OF q files] by blast
  obtain s2 where s2: "io (remove_file (p @ [''terms.bin''])) s1 = (Ret (), s2)" "quiet s2" "no_subdirs s2 p"
    "\<And>r. node_at s2 r = (if r = p @ [''terms.bin''] then None else node_at s1 r)"
    using remove_child_quiet [OF s1(2,3)] by blast
  obtain s3 where s3: "io (remove_file (p @ [''postings.bin''])) s2 = (Ret (), s3)" "quiet s3" "no_subdirs s3 p"
    "\<And>r. node_at s3 r = (if r = p @ [''postings.bin''] then None else node_at s2 r)"
    using remove_child_quiet [OF s2(2,3)] by blast
  obtain s4 where s4: "io (remove_file (p @ [''documents.bin''])) s3 = (Ret (), s4)" "quiet s4" "no_subdirs s4 p"
    "\<And>r. node_at s4 r = (if r = p @ [''documents.bin''] then None else node_at s3 r)"
    using remove_child_quiet [OF s3(2,3)] by blast
  obtain s5 where s5: "io (remove_file (p @ [''files.bin''])) s4 = (Ret (), s5)" "quiet s5" "no_subdirs s5 p"
    "\<And>r. node_at s5 r = (if r = p @ [''files.bin''] then None else node_at s4 r)"
    using remove_child_quiet [OF s4(2,3)] by blast
  have all: "node_at s5 r = (if \<exists>c. r = p @ [c] then None else node_at s r)" for r
  proof (cases "\<exists>c. r = p @ [c]")
    case True
    then obtain c where r: "r = p @ [c]" ..
    have "node_at s5 (p @ [c]) = None"
    proof (cases "node_at s (p @ [c]) = None")
      case False
      with shape have "c \<in> set segment_files" unfolding segment_shaped_def by blast
      then show ?thesis
        unfolding s5(4) s4(4) s3(4) s2(4) s1(4) segment_files_def by (auto simp del: list.inject)
    qed (simp add: s5(4) s4(4) s3(4) s2(4) s1(4))
    with r show ?thesis by simp
  next
    case False
    then show ?thesis by (simp add: s5(4) s4(4) s3(4) s2(4) s1(4))
  qed
  have "node_at s5 p = node_at s p" by (simp add: all)
  moreover have "c \<notin> set (child_names s5 p)" for c by (simp add: child_names_iff all)
  then have "child_names s5 p = []" by (cases "child_names s5 p") auto
  moreover have "node_at s p = None \<or> node_at s p = Some Dir" using shape by (simp add: segment_shaped_def)
  ultimately have d: "io (remove_directory p) s5 = (Ret (), if node_at s p = None then s5 else delete_node p s5)"
    by (intro map_error_quiet) (simp add: remove_directory_quiet [OF s5(2)])
  have "remove_segment_directory p s = (Ret (), if node_at s p = None then s5 else delete_node p s5)"
    unfolding remove_segment_directory_def
    by (rule seqI, rule s1(1), rule seqI, rule s2(1), rule seqI, rule s3(1), rule seqI, rule s4(1),
        rule seqI, rule s5(1), rule d)
  then show thesis
  proof (rule that)
    show "quiet (if node_at s p = None then s5 else delete_node p s5)" using s5(2) by simp
    show "node_at (if node_at s p = None then s5 else delete_node p s5) r =
      (if r = p \<or> (\<exists>c. r = p @ [c]) then None else node_at s r)" for r
      by (auto simp: all)
  qed
qed

section \<open>Statistics\<close>

text \<open>The totals a build keeps are those of its documents, which loading computes again.\<close>

definition statistics_ok :: "document_record list \<Rightarrow> nat \<Rightarrow> int \<Rightarrow> int \<Rightarrow> bool" where
  "statistics_ok ds n lo hi \<longleftrightarrow> n = sum_list (map (\<lambda>d. unat (dr_term_count d)) ds) \<and>
     lo = fold min (map dr_occurred_at_ms ds) (2 ^ 63 - 1) \<and> hi = fold max (map dr_occurred_at_ms ds) (- (2 ^ 63))"

lemma build_document_statistics:
  assumes "build_document ax b files ord p s = Inr t"
    and "statistics_ok (bs_documents s) (bs_total_terms s) (bs_min_time s) (bs_max_time s)"
  shows "statistics_ok (bs_documents t) (bs_total_terms t) (bs_min_time t) (bs_max_time t)"
proof -
  from assms(1) obtain n d where "n \<le> 2 ^ 32 - 1" "dr_term_count d = word_of_nat n"
    and t: "bs_documents t = bs_documents s @ [d]" "bs_total_terms t = bs_total_terms s + n"
      "bs_min_time t = min (bs_min_time s) (dr_occurred_at_ms d)" "bs_max_time t = max (bs_max_time s) (dr_occurred_at_ms d)"
  proof -
    from assms(1) obtain fo n occ arch freqs where len: "n \<le> 2 ^ 32 - 1"
      and t: "t = \<lparr>bs_documents = bs_documents s @ [segment_document b fo p occ arch (word_of_nat n)],
          bs_inverted = fold (add_posting (ad_local_id p)) freqs (bs_inverted s),
          bs_total_terms = bs_total_terms s + n, bs_min_time = min (bs_min_time s) occ,
          bs_max_time = max (bs_max_time s) occ\<rparr>"
      by (auto simp: build_document_def Let_def sbind_def not_less split: option.splits sum.splits if_splits)
    have d: "dr_occurred_at_ms (segment_document b fo p occ arch x) = occ"
      "dr_term_count (segment_document b fo p occ arch x) = x" for x
      by (simp_all add: segment_document_def Let_def)
    show thesis
      by (rule that [OF len, of "segment_document b fo p occ arch (word_of_nat n)"])
        (simp_all only: t d build_state.simps)
  qed
  then have "unat (dr_term_count d) = n" by (simp add: unat_small_u32)
  with t assms(2) show ?thesis
    by (simp add: statistics_ok_def min.commute max.commute)
qed

lemma build_documents_statistics:
  "build_documents ax b files ord ps s = Inr t \<Longrightarrow>
     statistics_ok (bs_documents s) (bs_total_terms s) (bs_min_time s) (bs_max_time s) \<Longrightarrow>
     statistics_ok (bs_documents t) (bs_total_terms t) (bs_min_time t) (bs_max_time t)"
  by (induction ps arbitrary: s) (auto simp: sbind_def split: sum.splits dest: build_document_statistics)

lemma build_tables_statistics:
  assumes "build_tables ax batch = Inr tb"
  shows "statistics_ok (sg_documents tb) (sg_total_terms tb) (sg_min_time tb) (sg_max_time tb)"
    and "sg_terms tb \<noteq> []" "sg_postings tb \<noteq> []" "bd_batch_id (bt_descriptor batch) \<le> 0xFFFFFFFF"
proof -
  have start: "statistics_ok (bs_documents build_start) (bs_total_terms build_start)
      (bs_min_time build_start) (bs_max_time build_start)"
    by (simp add: statistics_ok_def build_start_def)
  from assms obtain files ord s where "build_documents ax (bd_batch_id (bt_descriptor batch)) files ord (bt_documents batch) build_start = Inr s"
    and tb: "sg_documents tb = bs_documents s" "sg_total_terms tb = bs_total_terms s" "sg_min_time tb = bs_min_time s"
      "sg_max_time tb = bs_max_time s" "sg_terms tb \<noteq> []" "sg_postings tb \<noteq> []" "bd_batch_id (bt_descriptor batch) \<le> 0xFFFFFFFF"
    by (auto simp: build_tables_def sbind_def Let_def not_less split: sum.splits prod.splits if_splits)
  with build_documents_statistics [OF this(1) start] show
    "statistics_ok (sg_documents tb) (sg_total_terms tb) (sg_min_time tb) (sg_max_time tb)"
    "sg_terms tb \<noteq> []" "sg_postings tb \<noteq> []" "bd_batch_id (bt_descriptor batch) \<le> 0xFFFFFFFF" by simp_all
qed

section \<open>What was written loads\<close>

text \<open>Tables the codecs accept, of a size the file format and the manifest can hold.\<close>

definition tables_valid :: "u64 \<Rightarrow> segment_tables \<Rightarrow> bool" where
  "tables_valid batch_id tb \<longleftrightarrow> files_ok (sg_files tb) \<and> documents_ok batch_id (sg_files tb) (sg_documents tb) \<and>
     list_all (posting_fine (length (sg_documents tb))) (sg_postings tb) \<and>
     terms_complete (sg_postings tb) (sg_terms tb) \<and> sg_files tb \<noteq> [] \<and> sg_documents tb \<noteq> [] \<and>
     0 < sg_total_terms tb \<and>
     length (sg_files tb) < 2 ^ 64 \<and> length (sg_documents tb) < 2 ^ 64 \<and>
     length (sg_postings tb) < 2 ^ 64 \<and> length (sg_terms tb) < 2 ^ 64"

lemma unat_small_u64: "n < 2 ^ 64 \<Longrightarrow> unat (word_of_nat n :: u64) = n"
  by (simp add: unat_of_nat take_bit_eq_mod)

lemma serialized_tables_load:
  assumes v: "tables_valid b tb" and c: "serialize_tables tb = Inr c"
  shows "load_files (sc_files c) (word_of_nat (length (sg_files tb))) = Inr (sg_files tb)"
    "load_documents (sc_documents c) (word_of_nat (length (sg_documents tb))) b (sg_files tb) = Inr (sg_documents tb)"
    "load_postings (sc_postings c) (word_of_nat (length (sg_postings tb))) (length (sg_documents tb)) = Inr (sg_postings tb)"
    "load_terms (sc_terms c) (word_of_nat (length (sg_terms tb))) (sg_postings tb) =
       Inr (sg_terms tb, ts_lookup (terms_state_of (sg_terms tb)))"
proof -
  have ok: "files_ok (sg_files tb)" "documents_ok b (sg_files tb) (sg_documents tb)"
    "terms_ok (sg_postings tb) (sg_terms tb)"
    using v by (simp_all add: tables_valid_def terms_complete_def)
  have sc: "serialize_files (sg_files tb) = Inr (sc_files c)" "serialize_documents (sg_documents tb) = Inr (sc_documents c)"
    "serialize_terms (sg_terms tb) = Inr (sc_terms c)" "sc_postings c = serialize_postings (sg_postings tb)"
    using c by (auto simp: serialize_tables_def sbind_def codec_Inr split: sum.splits)
  have bytes: "sc_files c = header_bytes k_files_magic (word_of_nat (length (sg_files tb))) @ concat (map file_bytes (sg_files tb))"
    "sc_documents c = header_bytes k_documents_magic (word_of_nat (length (sg_documents tb))) @ concat (map document_bytes (sg_documents tb))"
    "sc_terms c = header_bytes k_terms_magic (word_of_nat (length (sg_terms tb))) @ concat (map term_bytes (sg_terms tb))"
    using sc serialize_files_bytes [OF ok(1)] serialize_documents_bytes [OF ok(2)] serialize_terms_bytes [OF ok(3)]
    by simp_all
  note n = v [unfolded tables_valid_def]
  show "load_files (sc_files c) (word_of_nat (length (sg_files tb))) = Inr (sg_files tb)"
    unfolding load_files_bytes using n bytes(1) by (simp add: unat_small_u64)
  show "load_documents (sc_documents c) (word_of_nat (length (sg_documents tb))) b (sg_files tb) = Inr (sg_documents tb)"
    unfolding load_documents_bytes using n bytes(2) by (simp add: unat_small_u64)
  show "load_postings (sc_postings c) (word_of_nat (length (sg_postings tb))) (length (sg_documents tb)) = Inr (sg_postings tb)"
    unfolding load_postings_bytes sc(4) serialize_postings_bytes using n by (simp add: unat_small_u64)
  show "load_terms (sc_terms c) (word_of_nat (length (sg_terms tb))) (sg_postings tb) =
       Inr (sg_terms tb, ts_lookup (terms_state_of (sg_terms tb)))"
    unfolding load_terms_bytes using n bytes(3) by (simp add: unat_small_u64)
qed

text \<open>What the manifest says of the tables written under it.\<close>

definition built_manifest :: "'j store_env \<Rightarrow> parsed_batch_descriptor \<Rightarrow> segment_tables \<Rightarrow> segment_contents \<Rightarrow> segment_manifest" where
  "built_manifest en d tb c = \<lparr>mf_format_version = ucast (ucast k_segment_format_version :: u64), mf_batch_id = bd_batch_id d,
     mf_first_archive_id = bd_first_archive_id d, mf_last_archive_id = bd_last_archive_id d,
     mf_segment_name = segment_name (bd_batch_id d), mf_file_count = word_of_nat (length (sg_files tb)),
     mf_source_file_count = bd_source_file_count d, mf_document_count = word_of_nat (length (sg_documents tb)),
     mf_term_count = word_of_nat (length (sg_terms tb)), mf_posting_count = word_of_nat (length (sg_postings tb)),
     mf_average = real (sg_total_terms tb) / real (length (sg_documents tb)), mf_min_time = sg_min_time tb,
     mf_max_time = sg_max_time tb,
     mf_facts = map (\<lambda>(n, x). (n, word_of_nat (length x), en_sha256 en x))
       [(''documents.bin'', sc_documents c), (''files.bin'', sc_files c),
        (''postings.bin'', sc_postings c), (''terms.bin'', sc_terms c)]\<rparr>"

definition sizes_ok :: "segment_contents \<Rightarrow> bool" where
  "sizes_ok c \<longleftrightarrow> length (sc_files c) \<le> k_binary_limit \<and> length (sc_documents c) \<le> k_binary_limit \<and>
     length (sc_postings c) \<le> k_binary_limit \<and> length (sc_terms c) \<le> k_binary_limit"

lemma parse_fact_json:
  assumes laws: "json_laws (en_json en)" and sha: "\<And>c. valid_sha256 (en_sha256 en c)"
    and small: "length c \<le> k_binary_limit"
  shows "parse_fact (en_json en) (fact_json en c) = Inr (word_of_nat (length c), en_sha256 en c)"
proof -
  have "unat (word_of_nat (length c) :: u64) = length c"
    using small by (intro unat_small_u64) (simp add: k_binary_limit_def)
  moreover have "require_keys (en_json en) [''size'', ''sha256''] (fact_json en c)"
    unfolding fact_json_def by (rule require_keys_object [OF laws]) auto
  ultimately show ?thesis
    using sha small
    by (simp add: parse_fact_def u64_at_def string_at_def fact_json_def json_object [OF laws] json_values [OF laws])
qed

lemma parse_facts_json:
  assumes laws: "json_laws (en_json en)" and sha: "\<And>c. valid_sha256 (en_sha256 en c)" and small: "sizes_ok c"
  shows "parse_artifact_facts (en_json en) (jl_object (en_json en)
      [(''files.bin'', fact_json en (sc_files c)), (''documents.bin'', fact_json en (sc_documents c)),
       (''postings.bin'', fact_json en (sc_postings c)), (''terms.bin'', fact_json en (sc_terms c))]) =
    Inr (mf_facts (built_manifest en d tb c))"
proof -
  have "require_keys (en_json en) artifact_names (jl_object (en_json en)
      [(''files.bin'', fact_json en (sc_files c)), (''documents.bin'', fact_json en (sc_documents c)),
       (''postings.bin'', fact_json en (sc_postings c)), (''terms.bin'', fact_json en (sc_terms c))])"
    by (rule require_keys_object [OF laws]) (auto simp: artifact_names_def)
  then show ?thesis
    using small
    by (simp add: parse_artifact_facts_def artifact_names_def json_object [OF laws] parse_fact_json [OF laws sha]
        sizes_ok_def sbind_def built_manifest_def)
qed

text \<open>A descriptor whose counts and identifiers a manifest accepts.\<close>

definition descriptor_ok :: "parsed_batch_descriptor \<Rightarrow> segment_tables \<Rightarrow> bool" where
  "descriptor_ok d tb \<longleftrightarrow> bd_batch_id d \<le> 0xFFFFFFFF \<and> bd_first_archive_id d \<noteq> 0 \<and>
     bd_first_archive_id d \<le> bd_last_archive_id d \<and>
     (word_of_nat (length (sg_files tb)) :: u64) \<le> bd_source_file_count d"

definition instant_ok :: "int \<Rightarrow> bool" where
  "instant_ok t \<longleftrightarrow> 0 \<le> t \<and> t < last_instant * 1000"

lemma word_length_zero: "n < 2 ^ 64 \<Longrightarrow> (word_of_nat n :: u64) = 0 \<longleftrightarrow> n = 0"
  using unat_small_u64 [of n] by (simp only: unat_eq_0 [symmetric])

lemma manifest_json_keys:
  assumes laws: "json_laws (en_json en)"
  shows "require_keys (en_json en) manifest_keys (manifest_json en d tb c)"
  unfolding manifest_json_def Let_def
  by (rule require_keys_object [OF laws]) (auto simp: manifest_keys_def)

lemma manifest_json_at:
  assumes laws: "json_laws (en_json en)"
  shows "string_at (en_json en) (manifest_json en d tb c) ''min_occurred_at'' = Some (format_utc_milliseconds (sg_min_time tb))"
    "string_at (en_json en) (manifest_json en d tb c) ''max_occurred_at'' = Some (format_utc_milliseconds (sg_max_time tb))"
    "string_at (en_json en) (manifest_json en d tb c) ''created_at'' = Some (format_utc_milliseconds (en_now en))"
    "jl_at (en_json en) (manifest_json en d tb c) ''artifacts'' = Some (jl_object (en_json en)
      [(''files.bin'', fact_json en (sc_files c)), (''documents.bin'', fact_json en (sc_documents c)),
       (''postings.bin'', fact_json en (sc_postings c)), (''terms.bin'', fact_json en (sc_terms c))])"
  by (simp_all add: manifest_json_def Let_def string_at_def json_object [OF laws] json_values [OF laws])

lemma manifest_json_members:
  assumes laws: "json_laws (en_json en)"
  shows "manifest_members (en_json en) (manifest_json en d tb c) =
    Some ((built_manifest en d tb c)\<lparr>mf_min_time := 0, mf_max_time := 0, mf_facts := []\<rparr>)"
  by (simp add: manifest_members_def manifest_json_def Let_def u32_at_def u64_at_def string_at_def double_at_def
      json_object [OF laws] json_values [OF laws] built_manifest_def)

lemma parse_manifest_json:
  assumes laws: "json_laws (en_json en)" and sha: "\<And>c. valid_sha256 (en_sha256 en c)" and small: "sizes_ok c"
    and parse: "jl_parse (en_json en) content = Some (manifest_json en d tb c)"
    and v: "tables_valid (bd_batch_id d) tb" and d: "descriptor_ok d tb"
    and ne: "sg_terms tb \<noteq> []" "sg_postings tb \<noteq> []"
    and times: "instant_ok (sg_min_time tb)" "instant_ok (sg_max_time tb)" "instant_ok (en_now en)"
      "sg_min_time tb \<le> sg_max_time tb"
  shows "parse_manifest (en_json en) (segment_name (bd_batch_id d)) (bd_batch_id d) content = Inr (built_manifest en d tb c)"
proof -
  let ?m = "(built_manifest en d tb c)\<lparr>mf_min_time := 0, mf_max_time := 0, mf_facts := []\<rparr>"
  note n = v [unfolded tables_valid_def]
  have pos: "\<not> real (sg_total_terms tb) / real (length (sg_documents tb)) \<le> 0"
    using n by (simp only: not_le) (intro divide_pos_pos, simp_all)
  have fine: "\<not> members_invalid (segment_name (bd_batch_id d)) (bd_batch_id d) ?m"
    using n d ne by (simp add: members_invalid_def built_manifest_def descriptor_ok_def word_length_zero not_less
        k_segment_format_version_def pos)
  have ts: "parse_iso8601_milliseconds (format_utc_milliseconds t) = Some t" if "instant_ok t" for t
    using that by (intro parse_format_lemma) (simp_all add: instant_ok_def)
  have "?m\<lparr>mf_min_time := sg_min_time tb, mf_max_time := sg_max_time tb, mf_facts := mf_facts (built_manifest en d tb c)\<rparr> =
      built_manifest en d tb c"
    by (simp add: built_manifest_def)
  then show ?thesis
    using fine times
    by (simp add: parse_manifest_def parse manifest_json_keys [OF laws] manifest_json_members [OF laws]
        time_at_def manifest_json_at [OF laws] ts parse_facts_json [OF laws sha small, where d = d and tb = tb] sbind_def)
qed

text \<open>The segment a build publishes.\<close>

definition built_segment :: "'j store_env \<Rightarrow> parsed_batch_descriptor \<Rightarrow> segment_tables \<Rightarrow> segment_contents \<Rightarrow> string \<Rightarrow> loaded_segment" where
  "built_segment en d tb c sha = (let m = built_manifest en d tb c in
     \<lparr>ls_format_version = mf_format_version m, ls_batch_id = bd_batch_id d,
      ls_first_archive_id = bd_first_archive_id d, ls_last_archive_id = bd_last_archive_id d,
      ls_source_file_count = unat (bd_source_file_count d), ls_parsed_file_count = length (sg_files tb),
      ls_segment_name = segment_name (bd_batch_id d), ls_manifest_sha256 = sha,
      ls_average_document_length = mf_average m, ls_min_occurred_at_ms = sg_min_time tb,
      ls_max_occurred_at_ms = sg_max_time tb, ls_files = sg_files tb, ls_documents = sg_documents tb,
      ls_postings = sg_postings tb, ls_terms = sg_terms tb, ls_term_lookup = ts_lookup (terms_state_of (sg_terms tb))\<rparr>)"

definition contents_list :: "segment_contents \<Rightarrow> (string \<times> string) list" where
  "contents_list c = [(''documents.bin'', sc_documents c), (''files.bin'', sc_files c),
     (''postings.bin'', sc_postings c), (''terms.bin'', sc_terms c)]"

lemma load_built_tables:
  assumes v: "tables_valid (bd_batch_id d) tb" and c: "serialize_tables tb = Inr c"
    and st: "statistics_ok (sg_documents tb) (sg_total_terms tb) (sg_min_time tb) (sg_max_time tb)"
  shows "load_tables (built_manifest en d tb c) sha (contents_list c) = Inr (built_segment en d tb c sha)"
proof -
  have n: "unat (word_of_nat (length (sg_files tb)) :: u64) = length (sg_files tb)"
    using v by (simp add: tables_valid_def unat_small_u64)
  show ?thesis
    using serialized_tables_load [OF v c] st n
    by (simp add: load_tables_def content_of_def contents_list_def codec_def sbind_def statistics_ok_def Let_def
        built_manifest_def built_segment_def)
qed

section \<open>A build without faults\<close>

lemma read_at_quiet:
  "quiet s \<Longrightarrow> file_at s p limit = Inr c \<Longrightarrow> io (read_regular_file p limit) s = (Ret c, s)"
  by (intro map_error_quiet read_quiet) (auto simp: file_at_def split: option.splits node.splits if_splits)

lemma read_artifacts_quiet:
  "quiet s \<Longrightarrow> artifacts_at sha256 s path es = Inr contents \<Longrightarrow> read_artifacts sha256 path es s = (Ret contents, s)"
proof (induction es arbitrary: contents)
  case (Cons e es)
  obtain name sz sha where e: "e = (name, sz, sha)" by (cases e) auto
  from Cons.prems obtain c rest where c: "file_at s (path @ [name]) k_binary_limit = Inr c"
    "length c = unat sz" "sha256 c = sha"
    and rest: "artifacts_at sha256 s path es = Inr rest" "contents = (name, c) # rest"
    by (auto simp: e sbind_def split: sum.splits if_splits)
  from Cons.IH [OF Cons.prems(1) rest(1)] read_at_quiet [OF Cons.prems(1) c(1)] c(2,3) rest(2)
  show ?case by (simp add: e exec_simps)
qed (simp add: ret_def)

lemma load_quiet:
  assumes q: "quiet s" and at: "segment_at en s path name b = Inr seg" and sha: "sha = [] \<or> ls_manifest_sha256 seg = sha"
  shows "load_at_path en path name b sha s = (Ret seg, s)"
proof -
  from at obtain content m contents where d: "node_at s path = Some Dir"
    "child_names s path = [''documents.bin'', ''files.bin'', ''manifest.json'', ''postings.bin'', ''terms.bin'']"
    and c: "file_at s (path @ [''manifest.json'']) k_manifest_limit = Inr content"
    and m: "parse_manifest (en_json en) name b content = Inr m"
    and a: "artifacts_at (en_sha256 en) s path (mf_facts m) = Inr contents"
    and l: "load_tables m (en_sha256 en content) contents = Inr seg"
    by (auto simp: segment_at_def sbind_def split: if_splits sum.splits)
  have "ls_manifest_sha256 seg = en_sha256 en content"
    using l by (auto simp: load_tables_def sbind_def Let_def split: sum.splits prod.splits if_splits)
  with sha have "sha \<noteq> [] \<longrightarrow> en_sha256 en content = sha" by auto
  moreover have "require_exact_segment_files path s = (Ret (), s)"
    unfolding require_exact_segment_files_def
    by (rule bindI, rule map_error_quiet, rule entries_quiet [OF q d(1)]) (simp add: d(2) ret_def)
  ultimately show ?thesis
    by (auto simp: load_at_path_def exec_simps read_at_quiet [OF q c] m read_artifacts_quiet [OF q a] l lift_sum_def Let_def)
qed

lemma segment_at_built:
  assumes laws: "json_laws (en_json en)" and sha: "\<And>c. valid_sha256 (en_sha256 en c)" and small: "sizes_ok c"
    and parse: "jl_parse (en_json en) content = Some (manifest_json en d tb c)" and len: "length content \<le> k_manifest_limit"
    and v: "tables_valid (bd_batch_id d) tb" and d: "descriptor_ok d tb"
    and ne: "sg_terms tb \<noteq> []" "sg_postings tb \<noteq> []"
    and times: "instant_ok (sg_min_time tb)" "instant_ok (sg_max_time tb)" "instant_ok (en_now en)"
      "sg_min_time tb \<le> sg_max_time tb"
    and c: "serialize_tables tb = Inr c"
    and st: "statistics_ok (sg_documents tb) (sg_total_terms tb) (sg_min_time tb) (sg_max_time tb)"
    and dir: "node_at s p = Some Dir" "child_names s p = segment_files"
    and nodes: "node_at s (p @ [''manifest.json'']) = Some (File content)"
      "\<forall>(n, x)\<in>set (contents_list c). node_at s (p @ [n]) = Some (File x)"
  shows "segment_at en s p (segment_name (bd_batch_id d)) (bd_batch_id d) =
    Inr (built_segment en d tb c (en_sha256 en content))"
proof -
  have size: "unat (word_of_nat (length x) :: u64) = length x" if "length x \<le> k_binary_limit" for x :: string
    using that by (intro unat_small_u64) (simp add: k_binary_limit_def)
  have "artifacts_at (en_sha256 en) s p (mf_facts (built_manifest en d tb c)) = Inr (contents_list c)"
    using nodes(2) small by (simp add: built_manifest_def contents_list_def file_at_def sbind_def sizes_ok_def size)
  moreover have "file_at s (p @ [''manifest.json'']) k_manifest_limit = Inr content"
    using nodes(1) len by (simp add: file_at_def)
  ultimately show ?thesis
    using parse_manifest_json [OF laws sha small parse v d ne times] load_built_tables [OF v c st] dir
    by (simp add: segment_at_def sbind_def segment_files_def)
qed

lemma child_names_five:
  assumes "\<And>c. node_at s (p @ [c]) \<noteq> None \<longleftrightarrow> c \<in> set segment_files"
  shows "child_names s p = segment_files"
proof (rule sorted_distinct_set_unique)
  show "set (child_names s p) = set segment_files" using assms by (auto simp: child_names_iff)
  show "sorted segment_files" "distinct segment_files" by (simp_all add: segment_files_def less_eq_char_def)
qed (rule child_names_sorted)+

text \<open>The five files written into an empty directory.\<close>

lemma write_child_quiet:
  assumes "quiet s" "node_at s p = Some Dir" "node_at s (p @ [n]) = None"
  shows "io (write_durable_file (p @ [n]) x) s = (Ret (), put_node (p @ [n]) (File x) s)"
  using assms by (intro map_error_quiet write_durable_quiet) simp_all

definition written :: "fpath \<Rightarrow> segment_contents \<Rightarrow> string \<Rightarrow> 'a store_state_scheme \<Rightarrow> 'a store_state_scheme" where
  "written p c manifest s = put_node (p @ [''manifest.json'']) (File manifest)
     (put_node (p @ [''terms.bin'']) (File (sc_terms c)) (put_node (p @ [''postings.bin'']) (File (sc_postings c))
     (put_node (p @ [''documents.bin'']) (File (sc_documents c)) (put_node (p @ [''files.bin'']) (File (sc_files c)) s))))"

lemma written_nodes:
  assumes dir: "node_at s p = Some Dir" and empty: "\<And>n. node_at s (p @ [n]) = None"
  shows "node_at (written p c m s) p = Some Dir" "child_names (written p c m s) p = segment_files"
    "node_at (written p c m s) (p @ [''manifest.json'']) = Some (File m)"
    "\<forall>(n, x)\<in>set (contents_list c). node_at (written p c m s) (p @ [n]) = Some (File x)"
    "\<not> below p q \<Longrightarrow> node_at (written p c m s) q = node_at s q" "st_events (written p c m s) = st_events s"
proof -
  show "node_at (written p c m s) p = Some Dir" using dir by (simp add: written_def)
  show "node_at (written p c m s) (p @ [''manifest.json'']) = Some (File m)" by (simp add: written_def)
  show "\<forall>(n, x)\<in>set (contents_list c). node_at (written p c m s) (p @ [n]) = Some (File x)"
    by (simp add: written_def contents_list_def)
  show "st_events (written p c m s) = st_events s" by (simp add: written_def)
  show "node_at (written p c m s) q = node_at s q" if "\<not> below p q" for q
  proof -
    have "q \<noteq> p @ [n]" for n using that by auto
    then show ?thesis by (simp add: written_def)
  qed
  show "child_names (written p c m s) p = segment_files"
  proof (rule child_names_five)
    fix n
    have "node_at (written p c m s) (p @ [n]) = None \<longleftrightarrow> n \<notin> set segment_files"
      unfolding written_def segment_files_def node_at_put by (simp add: empty)
    then show "node_at (written p c m s) (p @ [n]) \<noteq> None \<longleftrightarrow> n \<in> set segment_files" by simp
  qed
qed

lemma write_and_publish_quiet:
  assumes q: "quiet s" and dir: "node_at s a = Some Dir" and empty: "\<And>n. node_at s (a @ [n]) = None"
    and ab: "\<not> below a b" and b: "node_at s b = None" "node_at s (butlast b) = Some Dir" "\<not> below a (butlast b)"
    and sr: "node_at s segments_root = Some Dir" "\<not> below a segments_root" "\<not> below b segments_root" "\<not> below b a"
    and at: "segment_at en (written a c m s) a name batch_id = Inr seg" "ls_manifest_sha256 seg = en_sha256 en m"
  shows "write_and_publish en a b name batch_id c m s = (Ret (), move_node a b (written a c m s))"
proof -
  note w = written_nodes [OF dir empty, where c = c and m = m]
  have wq: "quiet (written a c m s)" using q w(6) by simp
  have ren: "rename_directory a b (written a c m s) = (Ret (), move_node a b (written a c m s))"
    using w(1,5) b ab by (intro rename_quiet wq) simp_all
  have moved: "node_at (move_node a b (written a c m s)) segments_root = Some Dir"
    using sr w(5) by (simp add: node_at_move [OF ab sr(4)])
  show ?thesis
    unfolding write_and_publish_def
    apply (rule seqI, rule write_child_quiet [OF q dir empty])
    apply (rule seqI, (rule write_child_quiet; simp add: q dir empty))
    apply (rule seqI, (rule write_child_quiet; simp add: q dir empty))
    apply (rule seqI, (rule write_child_quiet; simp add: q dir empty))
    apply (rule seqI, (rule write_child_quiet; simp add: q dir empty))
    apply (fold written_def)
    apply (rule seqI, rule map_error_quiet, rule sync_quiet [OF wq w(1)])
    apply (rule seqI, rule load_quiet [OF wq at(1)], simp add: at(2))
    apply (rule seqI, rule map_error_quiet, rule ren)
    apply (rule map_error_quiet, rule sync_quiet, simp add: wq, rule moved)
    done
qed

lemma ensure_step:
  assumes "quiet s" "p \<noteq> []" "node_at s (butlast p) = Some Dir" "node_at s p = None \<or> node_at s p = Some Dir"
  obtains t where "io (ensure_directory p) s = (Ret (), t)" "quiet t"
    "\<And>q. node_at t q = (if q = p then Some Dir else node_at s q)"
proof
  let ?t = "if node_at s p = None then put_node p Dir s else s"
  show "io (ensure_directory p) s = (Ret (), ?t)" by (rule map_error_quiet) (rule ensure_quiet [OF assms])
  show "quiet ?t" using assms(1) by simp
  show "node_at ?t q = (if q = p then Some Dir else node_at s q)" for q using assms(4) by auto
qed

text \<open>
  A store a build can start from: the directories are there or can be made, and the two directories of
  the batch hold nothing but segment files.
\<close>

definition store_ready :: "'a store_state_scheme \<Rightarrow> u64 \<Rightarrow> bool" where
  "store_ready s b \<longleftrightarrow> node_at s [] = Some Dir \<and>
     (node_at s segments_root = None \<or> node_at s segments_root = Some Dir) \<and>
     (node_at s building_root = None \<or> node_at s building_root = Some Dir) \<and>
     segment_shaped s (building_root @ [segment_name b]) \<and> segment_shaped s (segments_root @ [segment_name b])"

definition manifest_text :: "'j store_env \<Rightarrow> parsed_batch_descriptor \<Rightarrow> segment_tables \<Rightarrow> segment_contents \<Rightarrow> string" where
  "manifest_text en d tb c = jl_dump_pretty (en_json en) (manifest_json en d tb c) @ [CHR 0x0A]"

text \<open>What the validation asks of tables, manifest and times.\<close>

definition build_acceptable :: "'j store_env \<Rightarrow> parsed_batch_descriptor \<Rightarrow> segment_tables \<Rightarrow> segment_contents \<Rightarrow> bool" where
  "build_acceptable en d tb c \<longleftrightarrow> tables_valid (bd_batch_id d) tb \<and> descriptor_ok d tb \<and> sizes_ok c \<and>
     length (manifest_text en d tb c) \<le> k_manifest_limit \<and>
     jl_parse (en_json en) (manifest_text en d tb c) = Some (manifest_json en d tb c) \<and>
     instant_ok (sg_min_time tb) \<and> instant_ok (sg_max_time tb) \<and> instant_ok (en_now en) \<and>
     sg_min_time tb \<le> sg_max_time tb"

lemma build_quiet_lemma:
  assumes laws: "json_laws (en_json en)" and sha: "\<And>c. valid_sha256 (en_sha256 en c)"
    and tb: "build_tables ax batch = Inr tb" and c: "serialize_tables tb = Inr c"
    and ok: "build_acceptable en (bt_descriptor batch) tb c"
    and q: "quiet s" and ready: "store_ready s (bd_batch_id (bt_descriptor batch))"
  shows "\<exists>r t. build en ax batch s = (Ret r, t)"
proof -
  let ?d = "bt_descriptor batch"
  let ?n = "segment_name (bd_batch_id ?d)"
  let ?a = "building_root @ [?n]" and ?b = "segments_root @ [?n]"
  let ?m = "manifest_text en ?d tb c"
  note r = ready [unfolded store_ready_def]
  have roots: "butlast segments_root = []" "segments_root \<noteq> []" "building_root \<noteq> []" "butlast building_root = segments_root"
    "building_root \<noteq> segments_root" by (simp_all add: segments_root_def building_root_def)
  obtain s1 where s1: "io (ensure_directory segments_root) s = (Ret (), s1)" "quiet s1"
      "\<And>q. node_at s1 q = (if q = segments_root then Some Dir else node_at s q)"
    using ensure_step [OF q roots(2)] r roots(1) by metis
  have "node_at s1 building_root = None \<or> node_at s1 building_root = Some Dir" "node_at s1 (butlast building_root) = Some Dir"
    using r roots by (simp_all add: s1(3))
  then obtain s2 where s2: "io (ensure_directory building_root) s1 = (Ret (), s2)" "quiet s2"
      "\<And>q. node_at s2 q = (if q = building_root then Some Dir else node_at s1 q)"
    using ensure_step [OF s1(2) roots(3)] by metis
  have far: "?a @ q \<noteq> segments_root" "?a @ q \<noteq> building_root" "?b @ q \<noteq> segments_root" "?b @ q \<noteq> building_root"
      "?a @ q \<noteq> ?b @ w" for q w
    by (auto simp: segments_root_def building_root_def segment_name_not_building segment_name_not_building [symmetric])
  have same2: "node_at s2 (?a @ q) = node_at s (?a @ q)" "node_at s2 (?b @ q) = node_at s (?b @ q)" for q
    by (simp_all only: s2(3) s1(3) far if_False)
  have "segment_shaped s2 ?a"
    using r same2(1) [of "[]"] same2(1) [of "[_]"] by (simp add: segment_shaped_def)
  then obtain s3 where s3: "remove_segment_directory ?a s2 = (Ret (), s3)" "quiet s3"
      "\<And>q. node_at s3 q = (if q = ?a \<or> (\<exists>e. q = ?a @ [e]) then None else node_at s2 q)"
    using remove_segment_quiet [OF s2(2)] by metis
  have same3: "node_at s3 (?b @ q) = node_at s2 (?b @ q)" for q
    using far(5) [of "[]" q, symmetric] far(5) [of "[_]" q, symmetric] by (simp add: s3(3))
  have "segment_shaped s3 ?b"
    using r same2(2) [of "[]"] same2(2) [of "[_]"] same3 [of "[]"] same3 [of "[_]"] by (simp add: segment_shaped_def)
  then obtain s4 where s4: "remove_segment_directory ?b s3 = (Ret (), s4)" "quiet s4"
      "\<And>q. node_at s4 q = (if q = ?b \<or> (\<exists>e. q = ?b @ [e]) then None else node_at s3 q)"
    using remove_segment_quiet [OF s3(2)] by metis
  have roots4: "node_at s4 segments_root = Some Dir" "node_at s4 building_root = Some Dir"
    using far(1-4) [of "[]"] far(1-4) [of "[_]"] roots(5)
    by (simp_all add: s4(3) s3(3) s2(3) s1(3) del: append_self_conv append_self_conv2) metis+
  have empty4: "node_at s4 ?a = None" "node_at s4 (?a @ [e]) = None" for e
    using far(5) [of "[]" "[]"] far(5) [of "[]" "[_]"] far(5) [of "[_]" "[]"] far(5) [of "[_]" "[_]"]
    by (simp_all add: s4(3) s3(3))
  obtain s5 where s5: "io (ensure_directory ?a) s4 = (Ret (), s5)" "quiet s5"
      "\<And>q. node_at s5 q = (if q = ?a then Some Dir else node_at s4 q)"
    using ensure_step [OF s4(2), of ?a] roots4 empty4 by auto
  have dir5: "node_at s5 ?a = Some Dir" "node_at s5 (?a @ [e]) = None" "node_at s5 ?b = None"
      "node_at s5 segments_root = Some Dir" "node_at s5 (butlast ?b) = Some Dir" for e
    using empty4 roots4 s4(3) [of ?b] far(1) [of "[]"] far(5) [of "[]" "[]"] by (simp_all add: s5(3))
  have apart: "\<not> below ?a segments_root" "\<not> below ?b segments_root" "\<not> below ?a (butlast ?b)"
    by (simp_all add: below_iff segments_root_def building_root_def)
  note w = written_nodes [OF dir5(1,2), where c = c and m = ?m]
  note acc = ok [unfolded build_acceptable_def]
  note st = build_tables_statistics [OF tb]
  have at: "segment_at en (written ?a c ?m s5) ?a ?n (bd_batch_id ?d) =
      Inr (built_segment en ?d tb c (en_sha256 en ?m))"
    using acc by (intro segment_at_built [OF laws sha _ _ _ _ _ st(2,3) _ _ _ _ c st(1)] w(1-4)) simp_all
  have "write_and_publish en ?a ?b ?n (bd_batch_id ?d) c ?m s5 = (Ret (), move_node ?a ?b (written ?a c ?m s5))"
    using dir5 apart segment_paths_apart
    by (intro write_and_publish_quiet [OF s5(2) dir5(1,2) _ _ _ _ _ _ _ _ at]) (simp_all add: built_segment_def Let_def)
  then have t: "catch (write_and_publish en ?a ?b ?n (bd_batch_id ?d) c ?m)
      (\<lambda>e. seq (remove_segment_directory ?a) (throw e)) s5 = (Ret (), move_node ?a ?b (written ?a c ?m s5))"
    by (rule catchI)
  show ?thesis
    unfolding build_def Let_def
    by (intro exI, rule bindI, simp add: tb lift_sum_def ret_def, rule bindI, simp add: c lift_sum_def ret_def,
        rule seqI, rule s1(1), rule seqI, rule s2(1), rule seqI, rule s3(1), rule seqI, rule s4(1),
        rule seqI, rule s5(1), rule seqI, rule t [unfolded manifest_text_def], rule ret_def)
qed

section \<open>A sample\<close>

definition sample_sha :: "string \<Rightarrow> string" where
  "sample_sha _ = replicate 64 CHR ''0''"

definition sample_contents :: segment_contents where
  "sample_contents = \<lparr>sc_files = header_bytes k_files_magic 1 @ file_bytes sample_file,
     sc_documents = header_bytes k_documents_magic 1 @ document_bytes sample_document,
     sc_postings = header_bytes k_postings_magic 1 @ posting_bytes \<lparr>po_local_id = 0, po_term_frequency = 1\<rparr>,
     sc_terms = header_bytes k_terms_magic 1 @
       term_bytes \<lparr>te_term = ''x'', te_document_frequency = 1, te_posting_begin = 0, te_posting_count = 1\<rparr>\<rparr>"

definition sample_env_of :: "sample_json \<Rightarrow> sample_json store_env" where
  "sample_env_of j = \<lparr>en_json = sample_json_lib [(''M'', j), (''M'' @ [CHR 0x0A], j)], en_sha256 = sample_sha, en_now = 3000\<rparr>"

definition sample_manifest :: sample_json where
  "sample_manifest = manifest_json (sample_env_of (Jbool True)) (bt_descriptor sample_batch) sample_tables sample_contents"

definition sample_env :: "sample_json store_env" where
  "sample_env = sample_env_of sample_manifest"

definition sample_store :: store_state where
  "sample_store = \<lparr>st_nodes = [([], Dir)], st_events = []\<rparr>"

lemma sample_manifest_json: "manifest_json (sample_env_of j) (bt_descriptor sample_batch) sample_tables sample_contents = sample_manifest"
  by (simp add: sample_manifest_def manifest_json_def fact_json_def sample_env_of_def Let_def)

lemma sample_tables_valid: "tables_valid 1 sample_tables"
proof -
  have "files_ok [sample_file]" "documents_ok 1 [sample_file] [sample_document]"
    using sample_segment_wf by (simp_all add: segment_wf_def sample_segment_def)
  then show ?thesis
    by (simp add: tables_valid_def sample_tables_def posting_fine_def terms_complete_def terms_ok_def term_fine_def
        term_invalid_def term_encodable_def short_string_def k_string_limit_def terms_state_of_def terms_init_def terms_push_def)
qed

lemma sample_serialize: "serialize_tables sample_tables = Inr sample_contents"
proof -
  note v = sample_tables_valid [unfolded tables_valid_def terms_complete_def]
  have ok: "files_ok (sg_files sample_tables)" "documents_ok 1 (sg_files sample_tables) (sg_documents sample_tables)"
    "terms_ok (sg_postings sample_tables) (sg_terms sample_tables)" using v by simp_all
  show ?thesis
    unfolding serialize_tables_def serialize_files_bytes [OF ok(1)] serialize_documents_bytes [OF ok(2)]
      serialize_terms_bytes [OF ok(3)] serialize_postings_bytes
    by (simp add: codec_def sbind_def sample_tables_def sample_contents_def)
qed

lemma sample_env_facts:
  shows "json_laws (en_json sample_env)" "valid_sha256 (en_sha256 sample_env c)" "en_sha256 sample_env c = sample_sha c"
    "manifest_text sample_env (bt_descriptor sample_batch) sample_tables sample_contents = ''M'' @ [CHR 0x0A]"
    "jl_parse (en_json sample_env) (''M'' @ [CHR 0x0A]) =
      Some (manifest_json sample_env (bt_descriptor sample_batch) sample_tables sample_contents)"
proof -
  show "json_laws (en_json sample_env)" by (simp add: sample_env_def sample_env_of_def sample_json_laws)
  show "valid_sha256 (en_sha256 sample_env c)"
    by (simp add: sample_env_def sample_env_of_def sample_sha_def valid_sha256_def list_all_length is_lower_hex_def is_digit_def)
  show "en_sha256 sample_env c = sample_sha c" by (simp add: sample_env_def sample_env_of_def)
  show "manifest_text sample_env (bt_descriptor sample_batch) sample_tables sample_contents = ''M'' @ [CHR 0x0A]"
    unfolding manifest_text_def sample_env_def sample_manifest_json by (simp add: sample_env_of_def)
  show "jl_parse (en_json sample_env) (''M'' @ [CHR 0x0A]) =
      Some (manifest_json sample_env (bt_descriptor sample_batch) sample_tables sample_contents)"
    unfolding sample_env_def sample_manifest_json by (simp add: sample_env_of_def)
qed

lemma hex_pairs_length: "length (hex_pairs h) \<le> length h"
  by (induction h rule: hex_pairs.induct) auto

lemma sample_acceptable: "build_acceptable sample_env (bt_descriptor sample_batch) sample_tables sample_contents"
proof -
  have b: "bd_batch_id (bt_descriptor sample_batch) = 1" by (simp add: sample_batch_def)
  have now: "en_now sample_env = 3000" by (simp add: sample_env_def sample_env_of_def)
  have hex: "length (hex_pairs (replicate 64 CHR ''0'')) \<le> 64"
    using hex_pairs_length [of "replicate 64 CHR ''0''"] by simp
  from hex have "sizes_ok sample_contents"
    by (simp add: sizes_ok_def append_int64_def string_bytes_def sample_contents_def k_binary_limit_def header_bytes_def file_bytes_def document_bytes_def
        posting_bytes_def term_bytes_def append_uint64_def append_uint32_def append_string_def
        k_files_magic_def k_documents_magic_def k_postings_magic_def k_terms_magic_def sample_file_def sample_document_def)
  moreover have "descriptor_ok (bt_descriptor sample_batch) sample_tables"
    by (simp add: descriptor_ok_def sample_batch_def sample_tables_def)
  ultimately show ?thesis
    using sample_tables_valid
    by (simp add: build_acceptable_def b sample_env_facts k_manifest_limit_def instant_ok_def last_instant_val
        sample_tables_def [THEN arg_cong [where f = sg_min_time]] sample_tables_def [THEN arg_cong [where f = sg_max_time]])
      (simp add: now sample_env_facts(5) [unfolded append_Cons append_Nil])
qed

lemma sample_ready: "store_ready sample_store 1"
  by (simp add: store_ready_def segment_shaped_def sample_store_def node_at_def segments_root_def building_root_def)

lemma sample_batch_id: "bd_batch_id (bt_descriptor sample_batch) = 1"
  by (simp add: sample_batch_def)

lemmas sample_run = build_quiet_lemma [OF sample_env_facts(1,2) sample_build sample_serialize sample_acceptable]

lemma sample_run_returns: obtains r t where "build sample_env sample_access sample_batch sample_store = (Ret r, t)"
proof -
  have "st_events sample_store = []" by (simp add: sample_store_def)
  from sample_run [OF this] sample_ready that show thesis by (auto simp: sample_batch_id)
qed

theorem build_publishes_witness:
  "\<exists>r t seg. build sample_env sample_access sample_batch sample_store = (Ret r, t) \<and>
     segment_at sample_env t (segments_root @ [br_segment_name r]) (br_segment_name r) 1 = Inr seg \<and> segment_wf seg"
proof -
  obtain r t where r: "build sample_env sample_access sample_batch sample_store = (Ret r, t)" by (rule sample_run_returns)
  have "en_sha256 sample_env c \<noteq> []" for c by (simp add: sample_env_facts(3) sample_sha_def)
  from build_publishes [OF r this] r show ?thesis by (auto simp: sample_batch_id)
qed

theorem build_contained_witness:
  "node_at (snd (build sample_env sample_access sample_batch
     \<lparr>st_nodes = [([''segments'', ''segment_2''], Dir), ([''segments''], Dir), ([], Dir)], st_events = [Io_ok, Io_crash]\<rparr>))
     [''segments'', ''segment_2''] = Some Dir"
proof -
  have "segment_name 2 = ''segment_2''" by (simp add: segment_name_def) code_simp
  with build_contained [OF refl, where c = 2 and r = "[]" and en = sample_env and ax = sample_access and batch = sample_batch
      and s = "\<lparr>st_nodes = [([''segments'', ''segment_2''], Dir), ([''segments''], Dir), ([], Dir)], st_events = [Io_ok, Io_crash]\<rparr>"]
  show ?thesis by (simp add: sample_batch_id segments_root_def node_at_def)
qed

end
