(* ===== verification/Parsed_Batch.thy ===== *)
theory Parsed_Batch
  imports Segment_Store
begin

text \<open>
  Parsed batches on disk: the writer (\<open>indexing/parsed_batch_writer.cpp\<close>), which streams two JSON
  lines files, their manifest, and publishes by a rename, and the strict reader
  (\<open>indexing/parsed_batch_reader.cpp\<close>). A \<open>DurableFile\<close> is its path and the text fed to its digest.
\<close>

record parsed_archive =
  pa_archive :: archive_record
  pa_profile :: parser_profile
  pa_documents :: "parsed_document list"

record parsed_batch_artifact =
  pb_relative_path :: string
  pb_manifest_sha256 :: string

definition parsed_root :: fpath where "parsed_root = [''parsed'']"
definition parsed_building :: fpath where "parsed_building = [''parsed'', ''.building'']"

definition batch_name :: "u64 \<Rightarrow> string" where
  "batch_name batch_id = ''batch_'' @ to_string (unat batch_id)"

abbreviation LF :: char where "LF \<equiv> CHR 0x0A"

section \<open>Writing\<close>

definition open_durable :: "fpath \<Rightarrow> ('a store_state_scheme, io_error, unit) proc" where
  "open_durable p = syscall Sys_error (create_file p)"

definition append_durable :: "fpath \<Rightarrow> string \<Rightarrow> ('a store_state_scheme, io_error, unit) proc" where
  "append_durable p v s = (case transfer_loop (length v) (st_events s) of
     (r, k, es) \<Rightarrow>
       (case r of Transferred \<Rightarrow> Ret () | Transfer_failed \<Rightarrow> Throw Sys_error | Transfer_crashed \<Rightarrow> Crashed,
        put_node p (File ((case node_at s p of Some (File c) \<Rightarrow> c | _ \<Rightarrow> []) @ take k v)) (s\<lparr>st_events := es\<rparr>)))"

definition finish_durable :: "('a store_state_scheme, io_error, unit) proc" where
  "finish_durable = seq (syscall Sys_error (ret ())) (syscall Sys_error (ret ()))"

definition remove_parsed_directory :: "fpath \<Rightarrow> ('a store_state_scheme, index_error, unit) proc" where
  "remove_parsed_directory path =
     seq (io (remove_file (path @ [''manifest.json''])))
     (seq (io (remove_file (path @ [''archives.jsonl''])))
     (seq (io (remove_file (path @ [''documents.jsonl''])))
     (io (remove_directory path))))"

definition archive_json :: "'j json_lib \<Rightarrow> parsed_archive \<Rightarrow> 'j" where
  "archive_json jl p = (let archive = pa_archive p in jl_object jl
     [(''archive_id'', jl_unsigned jl (ar_archive_id archive)), (''line_id'', jl_string jl (ar_line_id archive)),
      (''station_id'', jl_string jl (ar_station_id archive)), (''device_id'', jl_string jl (ar_device_id archive)),
      (''collector_id'', jl_string jl (ar_collector_id archive)), (''work_order'', jl_string jl (ar_work_order archive)),
      (''product_sn'', jl_string jl (ar_product_sn archive)), (''file_type'', jl_string jl (ar_file_type archive)),
      (''original_filename'', jl_string jl (ar_original_filename archive)),
      (''relative_path'', jl_string jl (ar_relative_path archive)),
      (''file_size'', jl_unsigned jl (ar_file_size archive)), (''file_sha256'', jl_string jl (ar_file_sha256 archive)),
      (''produced_at'', jl_string jl (ar_produced_at archive)), (''archived_at'', jl_string jl (ar_archived_at archive)),
      (''parser_profile'', jl_string jl (pp_name (pa_profile p))),
      (''parser_version'', jl_unsigned jl (ucast (pp_version (pa_profile p)))),
      (''document_count'', jl_unsigned jl (word_of_nat (length (pa_documents p))))])"

definition document_json :: "'j json_lib \<Rightarrow> u64 \<Rightarrow> parsed_document \<Rightarrow> 'j" where
  "document_json jl local_id d = jl_object jl
     [(''local_id'', jl_unsigned jl local_id), (''archive_id'', jl_unsigned jl (pd_archive_id d)),
      (''byte_offset'', jl_unsigned jl (pd_byte_offset d)), (''byte_length'', jl_unsigned jl (pd_byte_length d)),
      (''occurred_at'', jl_string jl (pd_occurred_at d)), (''archived_at'', jl_string jl (pd_archived_at d)),
      (''line_id'', jl_string jl (pd_line_id d)), (''station_id'', jl_string jl (pd_station_id d)),
      (''device_id'', jl_string jl (pd_device_id d)), (''collector_id'', jl_string jl (pd_collector_id d)),
      (''work_order'', jl_string jl (pd_work_order d)), (''product_sn'', jl_string jl (pd_product_sn d)),
      (''source_type'', jl_string jl (pd_source_type d)), (''level'', jl_string jl (pd_level d)),
      (''module_name'', jl_string jl (pd_module_name d)), (''error_code'', jl_string jl (pd_error_code d)),
      (''event_name'', jl_string jl (pd_event_name d)),
      (''term_count'', jl_unsigned jl (word_of_nat (pd_term_count d)))]"

text \<open>The two loops: each row goes to its file and to the digest of that file.\<close>

primrec write_documents :: "'j json_lib \<Rightarrow> fpath \<Rightarrow> parsed_document list \<Rightarrow> u64 \<times> string \<Rightarrow>
    ('a store_state_scheme, index_error, u64 \<times> string) proc" where
  "write_documents jl p [] acc = ret acc"
| "write_documents jl p (d # ds) acc = (case acc of (local_id, digested) \<Rightarrow>
     let row = jl_dump jl (document_json jl local_id d) @ [LF]
     in seq (io (append_durable p row)) (write_documents jl p ds (local_id + 1, digested @ row)))"

primrec write_archives :: "'j json_lib \<Rightarrow> fpath \<Rightarrow> fpath \<Rightarrow> parsed_archive list \<Rightarrow> string \<Rightarrow> u64 \<times> string \<Rightarrow>
    ('a store_state_scheme, index_error, string \<times> u64 \<times> string) proc" where
  "write_archives jl pa pd [] archives_digested acc = ret (archives_digested, acc)"
| "write_archives jl pa pd (a # as) archives_digested acc =
     (let row = jl_dump jl (archive_json jl a) @ [LF]
      in seq (io (append_durable pa row))
        (bind (write_documents jl pd (pa_documents a) acc)
           (write_archives jl pa pd as (archives_digested @ row))))"

definition batch_manifest_json :: "'j store_env \<Rightarrow> u64 \<Rightarrow> u64 \<Rightarrow> u64 \<Rightarrow> u64 \<Rightarrow> u64 \<Rightarrow> parsed_archive list \<Rightarrow> u64 \<Rightarrow>
    string \<Rightarrow> string \<Rightarrow> 'j" where
  "batch_manifest_json en batch_id first_id last_id source_count failed_count archives local_id archives_sha documents_sha =
     (let jl = en_json en in jl_object jl
       [(''format_version'', jl_unsigned jl 1), (''batch_id'', jl_unsigned jl batch_id),
        (''first_archive_id'', jl_unsigned jl first_id), (''last_archive_id'', jl_unsigned jl last_id),
        (''source_file_count'', jl_unsigned jl source_count),
        (''parsed_file_count'', jl_unsigned jl (word_of_nat (length archives))),
        (''failed_file_count'', jl_unsigned jl failed_count), (''document_count'', jl_unsigned jl local_id),
        (''created_at'', jl_string jl (format_utc_milliseconds (en_now en))),
        (''archives_sha256'', jl_string jl archives_sha), (''documents_sha256'', jl_string jl documents_sha)])"

definition write_rows_and_publish :: "'j store_env \<Rightarrow> fpath \<Rightarrow> fpath \<Rightarrow> u64 \<Rightarrow> u64 \<Rightarrow> u64 \<Rightarrow> u64 \<Rightarrow> u64 \<Rightarrow>
    parsed_archive list \<Rightarrow> ('a store_state_scheme, index_error, parsed_batch_artifact) proc" where
  "write_rows_and_publish en building_path final_path batch_id first_id last_id source_count failed_count archives =
     (let jl = en_json en; archives_file = building_path @ [''archives.jsonl''];
          documents_file = building_path @ [''documents.jsonl'']; manifest_file = building_path @ [''manifest.json'']
      in seq (io (open_durable archives_file))
        (seq (io (open_durable documents_file))
        (bind (write_archives jl archives_file documents_file archives [] (0, []))
          (\<lambda>(archives_text, local_id, documents_text).
        seq (io finish_durable)
        (seq (io finish_durable)
        (let manifest = jl_dump_pretty jl (batch_manifest_json en batch_id first_id last_id source_count failed_count
               archives local_id (en_sha256 en archives_text) (en_sha256 en documents_text)) @ [LF]
         in seq (io (open_durable manifest_file))
           (seq (io (append_durable manifest_file manifest))
           (seq (io finish_durable)
           (seq (io (sync_directory building_path))
           (seq (io (rename_directory building_path final_path))
           (seq (io (sync_directory parsed_root))
           (ret \<lparr>pb_relative_path = ''parsed/'' @ batch_name batch_id,
                 pb_manifest_sha256 = en_sha256 en manifest\<rparr>))))))))))))"

definition write_batch :: "'j store_env \<Rightarrow> u64 \<Rightarrow> u64 \<Rightarrow> u64 \<Rightarrow> u64 \<Rightarrow> u64 \<Rightarrow> parsed_archive list \<Rightarrow>
    ('a store_state_scheme, index_error, parsed_batch_artifact) proc" where
  "write_batch en batch_id first_id last_id source_count failed_count archives =
     (let building_path = parsed_building @ [batch_name batch_id]; final_path = parsed_root @ [batch_name batch_id]
      in seq (io (ensure_directory parsed_root))
        (seq (io (ensure_directory parsed_building))
        (bind (is_directory final_path) (\<lambda>d.
          if d then throw Batch_exists
          else seq (remove_parsed_directory building_path)
            (seq (io (ensure_directory building_path))
            (catch (write_rows_and_publish en building_path final_path batch_id first_id last_id source_count
                      failed_count archives)
               (\<lambda>e. seq (remove_parsed_directory building_path) (throw e))))))))"

definition remove_batch :: "u64 \<Rightarrow> ('a store_state_scheme, index_error, unit) proc" where
  "remove_batch batch_id =
     seq (remove_parsed_directory (parsed_building @ [batch_name batch_id]))
         (remove_parsed_directory (parsed_root @ [batch_name batch_id]))"

section \<open>Reading rows\<close>

definition k_json_lines_limit :: nat where "k_json_lines_limit = 1024 * 1024 * 1024"

function json_rows :: "'j json_lib \<Rightarrow> string \<Rightarrow> index_error + 'j list" where
  "json_rows jl content =
     (if content = [] then Inr []
      else let row = takeWhile (\<lambda>c. c \<noteq> LF) content; rest = dropWhile (\<lambda>c. c \<noteq> LF) content
        in if row = [] \<or> rest = [] then Inl Rows_invalid
           else case jl_parse jl row of
               None \<Rightarrow> Inl Json_invalid
             | Some v \<Rightarrow> sbind (json_rows jl (tl rest)) (\<lambda>rows. Inr (v # rows)))"
  by pat_completeness auto
termination
  by (relation "measure (length \<circ> snd)")
    (auto intro!: order.strict_trans1 [OF diff_le_mono [OF length_dropWhile_le]])

declare json_rows.simps [simp del]

definition parse_json_lines :: "'j json_lib \<Rightarrow> string \<Rightarrow> index_error + 'j list" where
  "parse_json_lines jl content =
     (if content = [] \<or> last content \<noteq> LF then Inl Rows_invalid else json_rows jl content)"

definition to_uint32 :: "u64 \<Rightarrow> index_error + u32" where
  "to_uint32 v = (if v > 0xFFFFFFFF then Inl Rows_invalid else Inr (ucast v))"

definition archive_keys :: "string list" where
  "archive_keys = [''archive_id'', ''line_id'', ''station_id'', ''device_id'', ''collector_id'', ''work_order'',
     ''product_sn'', ''file_type'', ''original_filename'', ''relative_path'', ''file_size'', ''file_sha256'',
     ''produced_at'', ''archived_at'', ''parser_profile'', ''parser_version'', ''document_count'']"

definition archive_members :: "'j json_lib \<Rightarrow> 'j \<Rightarrow> parsed_artifact_file option" where
  "archive_members jl row =
     Option.bind (u64_at jl row ''archive_id'') (\<lambda>archive_id.
     Option.bind (string_at jl row ''line_id'') (\<lambda>line_id.
     Option.bind (string_at jl row ''station_id'') (\<lambda>station_id.
     Option.bind (string_at jl row ''device_id'') (\<lambda>device_id.
     Option.bind (string_at jl row ''collector_id'') (\<lambda>collector_id.
     Option.bind (string_at jl row ''work_order'') (\<lambda>work_order.
     Option.bind (string_at jl row ''product_sn'') (\<lambda>product_sn.
     Option.bind (string_at jl row ''file_type'') (\<lambda>file_type.
     Option.bind (string_at jl row ''original_filename'') (\<lambda>original_filename.
     Option.bind (string_at jl row ''relative_path'') (\<lambda>relative_path.
     Option.bind (u64_at jl row ''file_size'') (\<lambda>file_size.
     Option.bind (string_at jl row ''file_sha256'') (\<lambda>file_sha256.
     Option.bind (string_at jl row ''produced_at'') (\<lambda>produced_at.
     Option.bind (string_at jl row ''archived_at'') (\<lambda>archived_at.
     Option.bind (string_at jl row ''parser_profile'') (\<lambda>profile.
     Option.bind (u32_at jl row ''parser_version'') (\<lambda>version.
     Option.bind (u64_at jl row ''document_count'') (\<lambda>document_count.
     Some \<lparr>af_archive = \<lparr>ar_archive_id = archive_id, ar_line_id = line_id, ar_station_id = station_id,
         ar_device_id = device_id, ar_collector_id = collector_id, ar_work_order = work_order,
         ar_product_sn = product_sn, ar_file_type = file_type, ar_original_filename = original_filename,
         ar_relative_path = relative_path, ar_file_size = file_size, ar_file_sha256 = file_sha256,
         ar_produced_at = produced_at, ar_archived_at = archived_at\<rparr>,
       af_profile = \<lparr>pp_name = profile, pp_version = version\<rparr>,
       af_document_count = document_count\<rparr>)))))))))))))))))"

definition archive_invalid :: "parsed_artifact_file \<Rightarrow> bool" where
  "archive_invalid f \<longleftrightarrow> (let archive = af_archive f; profile = af_profile f in
     ar_archive_id archive = 0 \<or> ar_file_size archive = 0 \<or> ar_line_id archive = [] \<or>
     ar_station_id archive = [] \<or> ar_device_id archive = [] \<or> ar_collector_id archive = [] \<or>
     ar_relative_path archive = [] \<or> length (ar_relative_path archive) > 512 \<or>
     \<not> valid_sha256 (ar_file_sha256 archive) \<or> pp_name profile = [] \<or> pp_version profile = 0 \<or>
     parse_iso8601_milliseconds (ar_produced_at archive) = None \<or>
     parse_iso8601_milliseconds (ar_archived_at archive) = None)"

definition parse_archive_row :: "'j json_lib \<Rightarrow> 'j \<Rightarrow> index_error + parsed_artifact_file" where
  "parse_archive_row jl row =
     (if \<not> require_keys jl archive_keys row then Inl Rows_invalid
      else case archive_members jl row of
          None \<Rightarrow> Inl Json_invalid
        | Some f \<Rightarrow> if archive_invalid f then Inl Rows_invalid else Inr f)"

definition document_keys :: "string list" where
  "document_keys = [''local_id'', ''archive_id'', ''byte_offset'', ''byte_length'', ''occurred_at'', ''archived_at'',
     ''line_id'', ''station_id'', ''device_id'', ''collector_id'', ''work_order'', ''product_sn'',
     ''source_type'', ''level'', ''module_name'', ''error_code'', ''event_name'', ''term_count'']"

definition document_members :: "'j json_lib \<Rightarrow> 'j \<Rightarrow> parsed_document option" where
  "document_members jl row =
     Option.bind (u64_at jl row ''archive_id'') (\<lambda>archive_id.
     Option.bind (u64_at jl row ''byte_offset'') (\<lambda>byte_offset.
     Option.bind (u64_at jl row ''byte_length'') (\<lambda>byte_length.
     Option.bind (string_at jl row ''occurred_at'') (\<lambda>occurred_at.
     Option.bind (string_at jl row ''archived_at'') (\<lambda>archived_at.
     Option.bind (string_at jl row ''line_id'') (\<lambda>line_id.
     Option.bind (string_at jl row ''station_id'') (\<lambda>station_id.
     Option.bind (string_at jl row ''device_id'') (\<lambda>device_id.
     Option.bind (string_at jl row ''collector_id'') (\<lambda>collector_id.
     Option.bind (string_at jl row ''work_order'') (\<lambda>work_order.
     Option.bind (string_at jl row ''product_sn'') (\<lambda>product_sn.
     Option.bind (string_at jl row ''source_type'') (\<lambda>source_type.
     Option.bind (string_at jl row ''level'') (\<lambda>level.
     Option.bind (string_at jl row ''module_name'') (\<lambda>module_name.
     Option.bind (string_at jl row ''error_code'') (\<lambda>error_code.
     Option.bind (string_at jl row ''event_name'') (\<lambda>event_name.
     Option.bind (u64_at jl row ''term_count'') (\<lambda>term_count.
     Some \<lparr>pd_archive_id = archive_id, pd_byte_offset = byte_offset, pd_byte_length = byte_length,
       pd_occurred_at = occurred_at, pd_archived_at = archived_at, pd_line_id = line_id,
       pd_station_id = station_id, pd_device_id = device_id, pd_collector_id = collector_id,
       pd_work_order = work_order, pd_product_sn = product_sn, pd_source_type = source_type, pd_level = level,
       pd_module_name = module_name, pd_error_code = error_code, pd_event_name = event_name,
       pd_term_count = unat term_count\<rparr>)))))))))))))))))"

definition document_fields_invalid :: "parsed_document \<Rightarrow> bool" where
  "document_fields_invalid d \<longleftrightarrow> pd_archive_id d = 0 \<or> pd_byte_length d = 0 \<or> pd_line_id d = [] \<or>
     pd_station_id d = [] \<or> pd_device_id d = [] \<or> pd_collector_id d = [] \<or> pd_source_type d = [] \<or>
     pd_level d = [] \<or> pd_module_name d = [] \<or> pd_term_count d > 2 ^ 32 - 1 \<or>
     parse_iso8601_milliseconds (pd_occurred_at d) = None \<or> parse_iso8601_milliseconds (pd_archived_at d) = None"

definition parse_document_row :: "'j json_lib \<Rightarrow> 'j \<Rightarrow> index_error + parsed_artifact_document" where
  "parse_document_row jl row =
     (if \<not> require_keys jl document_keys row then Inl Rows_invalid
      else case u64_at jl row ''local_id'' of
          None \<Rightarrow> Inl Json_invalid
        | Some v \<Rightarrow> sbind (to_uint32 v) (\<lambda>local_id.
            case document_members jl row of
              None \<Rightarrow> Inl Json_invalid
            | Some d \<Rightarrow> if document_fields_invalid d then Inl Rows_invalid
                else Inr \<lparr>ad_local_id = local_id, ad_document = d\<rparr>))"

section \<open>Loading\<close>

definition batch_manifest_keys :: "string list" where
  "batch_manifest_keys = [''format_version'', ''batch_id'', ''first_archive_id'', ''last_archive_id'',
     ''source_file_count'', ''parsed_file_count'', ''failed_file_count'', ''document_count'', ''created_at'',
     ''archives_sha256'', ''documents_sha256'']"

text \<open>The checks of the manifest before the rows are read; the result is the two digests.\<close>

definition check_batch_manifest :: "'j json_lib \<Rightarrow> parsed_batch_descriptor \<Rightarrow> 'j \<Rightarrow> index_error + string \<times> string" where
  "check_batch_manifest jl d manifest =
     (if \<not> require_keys jl batch_manifest_keys manifest then Inl Rows_invalid
      else case (string_at jl manifest ''archives_sha256'', string_at jl manifest ''documents_sha256'',
          u32_at jl manifest ''format_version'', u64_at jl manifest ''batch_id'',
          u64_at jl manifest ''first_archive_id'', u64_at jl manifest ''last_archive_id'',
          u64_at jl manifest ''source_file_count'', u64_at jl manifest ''document_count'',
          string_at jl manifest ''created_at'') of
        (Some archives_sha, Some documents_sha, Some version, Some batch_id, Some first_id, Some last_id,
         Some source_count, Some document_count, Some created_at) \<Rightarrow>
          if version \<noteq> 1 then Inl Manifest_invalid
          else if batch_id \<noteq> bd_batch_id d \<or> first_id \<noteq> bd_first_archive_id d \<or> last_id \<noteq> bd_last_archive_id d
          then Inl Identity_invalid
          else if source_count \<noteq> bd_source_file_count d \<or> document_count \<noteq> bd_document_count d
          then Inl Counts_invalid
          else if \<not> valid_sha256 archives_sha \<or> \<not> valid_sha256 documents_sha then Inl Manifest_invalid
          else if parse_iso8601_milliseconds created_at = None then Inl Manifest_invalid
          else Inr (archives_sha, documents_sha)
      | _ \<Rightarrow> Inl Json_invalid)"

text \<open>The archive rows: in the range of the batch, no archive twice.\<close>

fun load_archive_rows :: "'j json_lib \<Rightarrow> parsed_batch_descriptor \<Rightarrow> 'j list \<Rightarrow> parsed_artifact_file list \<Rightarrow>
    index_error + parsed_artifact_file list" where
  "load_archive_rows jl d [] files = Inr files"
| "load_archive_rows jl d (row # rows) files = sbind (parse_archive_row jl row) (\<lambda>f.
     let archive_id = ar_archive_id (af_archive f)
     in if archive_id < bd_first_archive_id d \<or> archive_id > bd_last_archive_id d \<or>
           archive_id \<in> set (map (\<lambda>f. ar_archive_id (af_archive f)) files)
        then Inl Rows_invalid else load_archive_rows jl d rows (files @ [f]))"

text \<open>\<open>file_ordinals\<close>: where an archive stands among the files.\<close>

definition file_ordinal :: "parsed_artifact_file list \<Rightarrow> u64 \<Rightarrow> nat option" where
  "file_ordinal files archive_id = find (\<lambda>i. ar_archive_id (af_archive (files ! i)) = archive_id) [0..<length files]"

definition document_inconsistent :: "archive_record \<Rightarrow> parsed_document \<Rightarrow> bool" where
  "document_inconsistent archive d \<longleftrightarrow> pd_byte_offset d > ar_file_size archive \<or>
     pd_byte_length d > ar_file_size archive - pd_byte_offset d \<or> pd_line_id d \<noteq> ar_line_id archive \<or>
     pd_station_id d \<noteq> ar_station_id archive \<or> pd_device_id d \<noteq> ar_device_id archive \<or>
     pd_collector_id d \<noteq> ar_collector_id archive \<or> pd_source_type d \<noteq> ar_file_type archive \<or>
     pd_archived_at d \<noteq> ar_archived_at archive"

fun load_document_rows :: "'j json_lib \<Rightarrow> parsed_artifact_file list \<Rightarrow> 'j list \<Rightarrow>
    parsed_artifact_document list \<Rightarrow> u64 list \<Rightarrow> index_error + parsed_artifact_document list \<times> u64 list" where
  "load_document_rows jl files [] documents actual = Inr (documents, actual)"
| "load_document_rows jl files (row # rows) documents actual = sbind (parse_document_row jl row) (\<lambda>document.
     if unat (ad_local_id document) \<noteq> length documents then Inl Rows_invalid
     else case file_ordinal files (pd_archive_id (ad_document document)) of
         None \<Rightarrow> Inl Rows_invalid
       | Some i \<Rightarrow>
           if document_inconsistent (af_archive (files ! i)) (ad_document document) then Inl Rows_invalid
           else load_document_rows jl files rows (documents @ [document]) (actual[i := actual ! i + 1]))"

definition load_rows :: "'j json_lib \<Rightarrow> parsed_batch_descriptor \<Rightarrow> 'j \<Rightarrow> string \<Rightarrow> string \<Rightarrow> index_error + parsed_batch_data" where
  "load_rows jl d manifest archives_content documents_content =
     (case (u64_at jl manifest ''parsed_file_count'', u64_at jl manifest ''failed_file_count'') of
       (Some parsed_count, Some failed_count) \<Rightarrow>
         if parsed_count = 0 \<or> parsed_count + failed_count \<noteq> bd_source_file_count d then Inl Counts_invalid
         else sbind (parse_json_lines jl archives_content) (\<lambda>archive_rows.
              sbind (parse_json_lines jl documents_content) (\<lambda>document_rows.
              if length archive_rows \<noteq> unat parsed_count \<or> length document_rows \<noteq> unat (bd_document_count d)
              then Inl Counts_invalid
              else sbind (load_archive_rows jl d archive_rows []) (\<lambda>files.
                   sbind (load_document_rows jl files document_rows [] (replicate (length files) 0)) (\<lambda>(documents, actual).
                   if actual \<noteq> map af_document_count files then Inl Counts_invalid
                   else Inr \<lparr>bt_descriptor = d, bt_parsed_file_count = parsed_count,
                          bt_failed_file_count = failed_count, bt_files = files, bt_documents = documents\<rparr>))))
     | _ \<Rightarrow> Inl Json_invalid)"

definition load_batch :: "'j store_env \<Rightarrow> parsed_batch_descriptor \<Rightarrow> ('a store_state_scheme, index_error, parsed_batch_data) proc" where
  "load_batch en d =
     (if bd_batch_id d = 0 \<or> bd_parsed_path d \<noteq> ''parsed/'' @ batch_name (bd_batch_id d) \<or>
         \<not> valid_sha256 (bd_parsed_sha256 d)
      then throw Descriptor_invalid
      else let jl = en_json en; path = parsed_root @ [batch_name (bd_batch_id d)]
        in bind (io (read_regular_file (path @ [''manifest.json'']) k_manifest_limit)) (\<lambda>content.
           if en_sha256 en content \<noteq> bd_parsed_sha256 d then throw Sha_mismatch
           else case jl_parse jl content of
               None \<Rightarrow> throw Json_invalid
             | Some manifest \<Rightarrow> bind (lift_sum (check_batch_manifest jl d manifest)) (\<lambda>(archives_sha, documents_sha).
                 bind (io (read_regular_file (path @ [''archives.jsonl'']) k_json_lines_limit)) (\<lambda>archives_content.
                 bind (io (read_regular_file (path @ [''documents.jsonl'']) k_json_lines_limit)) (\<lambda>documents_content.
                 if en_sha256 en archives_content \<noteq> archives_sha \<or> en_sha256 en documents_content \<noteq> documents_sha
                 then throw Sha_mismatch
                 else lift_sum (load_rows jl d manifest archives_content documents_content))))))"

end
