(* ===== verification/Parsed_Batch_Files.thy ===== *)
theory Parsed_Batch_Files
  imports Parsed_Batch Segment_Complete
begin

text \<open>
  What the parsed batch files promise: the reader returns only consistent batches
  (\<open>load_batch_consistent\<close>), which is what the segment build relies on, and a published batch is read
  back as it was written (\<open>batch_round_trip\<close>).
\<close>

section \<open>What is read is consistent\<close>

definition file_consistent :: "parsed_batch_descriptor \<Rightarrow> parsed_artifact_file \<Rightarrow> bool" where
  "file_consistent d f \<longleftrightarrow> \<not> archive_invalid f \<and> bd_first_archive_id d \<le> ar_archive_id (af_archive f) \<and>
     ar_archive_id (af_archive f) \<le> bd_last_archive_id d"

definition document_consistent :: "parsed_artifact_file list \<Rightarrow> parsed_document \<Rightarrow> bool" where
  "document_consistent files d \<longleftrightarrow> \<not> document_fields_invalid d \<and>
     (\<exists>f\<in>set files. ar_archive_id (af_archive f) = pd_archive_id d \<and> \<not> document_inconsistent (af_archive f) d)"

definition documents_of :: "u64 \<Rightarrow> parsed_artifact_document list \<Rightarrow> parsed_artifact_document list" where
  "documents_of archive_id ds = filter (\<lambda>d. pd_archive_id (ad_document d) = archive_id) ds"

definition batch_consistent :: "parsed_batch_data \<Rightarrow> bool" where
  "batch_consistent b \<longleftrightarrow> bt_files b \<noteq> [] \<and> length (bt_files b) = unat (bt_parsed_file_count b) \<and>
     distinct (map (\<lambda>f. ar_archive_id (af_archive f)) (bt_files b)) \<and>
     (\<forall>f\<in>set (bt_files b). file_consistent (bt_descriptor b) f \<and>
        af_document_count f = word_of_nat (length (documents_of (ar_archive_id (af_archive f)) (bt_documents b)))) \<and>
     length (bt_documents b) = unat (bd_document_count (bt_descriptor b)) \<and> length (bt_documents b) \<le> 2 ^ 32 \<and>
     (\<forall>i<length (bt_documents b). unat (ad_local_id (bt_documents b ! i)) = i \<and>
        document_consistent (bt_files b) (ad_document (bt_documents b ! i)))"

lemma load_archive_rows_sound:
  "load_archive_rows jl d rows files = Inr fs \<Longrightarrow> \<forall>f\<in>set files. file_consistent d f \<Longrightarrow>
     distinct (map (\<lambda>f. ar_archive_id (af_archive f)) files) \<Longrightarrow>
     (\<forall>f\<in>set fs. file_consistent d f) \<and> distinct (map (\<lambda>f. ar_archive_id (af_archive f)) fs) \<and>
     length fs = length files + length rows"
proof (induction jl d rows files rule: load_archive_rows.induct)
  case (2 jl d row rows files)
  then obtain f where f: "parse_archive_row jl row = Inr f" by (auto simp: sbind_def split: sum.splits)
  then have "\<not> archive_invalid f"
    by (auto simp: parse_archive_row_def split: option.splits if_splits)
  with f "2.prems"(1) have ok: "file_consistent d f" "ar_archive_id (af_archive f) \<notin> set (map (\<lambda>f. ar_archive_id (af_archive f)) files)"
    and rest: "load_archive_rows jl d rows (files @ [f]) = Inr fs"
    by (auto simp: sbind_def Let_def file_consistent_def not_less split: if_splits)
  have "\<forall>g\<in>set (files @ [f]). file_consistent d g" "distinct (map (\<lambda>f. ar_archive_id (af_archive f)) (files @ [f]))"
    using ok "2.prems"(2,3) by simp_all
  moreover have "\<not> (ar_archive_id (af_archive f) < bd_first_archive_id d \<or> bd_last_archive_id d < ar_archive_id (af_archive f) \<or>
      ar_archive_id (af_archive f) \<in> set (map (\<lambda>f. ar_archive_id (af_archive f)) files))"
    using ok by (simp add: file_consistent_def not_less)
  ultimately show ?case using "2.IH" [where x = f, OF refl _ rest] by simp
qed auto

lemma file_ordinal_Some:
  "file_ordinal files a = Some i \<Longrightarrow> i < length files \<and> ar_archive_id (af_archive (files ! i)) = a"
  by (auto simp: file_ordinal_def find_Some_iff)

definition counts_match :: "parsed_artifact_file list \<Rightarrow> parsed_artifact_document list \<Rightarrow> u64 list \<Rightarrow> bool" where
  "counts_match files documents actual \<longleftrightarrow> length actual = length files \<and>
     (\<forall>i<length files. actual ! i = word_of_nat (length (documents_of (ar_archive_id (af_archive (files ! i))) documents)))"

lemma counts_match_step:
  assumes "counts_match files documents actual" and "i < length files"
    and "ar_archive_id (af_archive (files ! i)) = pd_archive_id (ad_document doc)"
    and "distinct (map (\<lambda>f. ar_archive_id (af_archive f)) files)"
  shows "counts_match files (documents @ [doc]) (actual[i := actual ! i + 1])"
proof -
  have key: "pd_archive_id (ad_document doc) = ar_archive_id (af_archive (files ! j)) \<longleftrightarrow> j = i" if "j < length files" for j
    using assms that nth_eq_iff_index_eq [OF assms(4), of j i] by auto
  have "(actual[i := actual ! i + 1]) ! j =
      word_of_nat (length (documents_of (ar_archive_id (af_archive (files ! j))) (documents @ [doc])))"
    if "j < length files" for j
    using that assms(1,2) key [OF that] by (cases "j = i") (simp_all add: counts_match_def documents_of_def)
  then show ?thesis using assms(1) by (simp add: counts_match_def)
qed

lemma load_document_rows_sound:
  "load_document_rows jl files rows documents actual = Inr (ds, counts) \<Longrightarrow>
     distinct (map (\<lambda>f. ar_archive_id (af_archive f)) files) \<Longrightarrow> counts_match files documents actual \<Longrightarrow>
     \<forall>i<length documents. unat (ad_local_id (documents ! i)) = i \<and> document_consistent files (ad_document (documents ! i)) \<Longrightarrow>
     counts_match files ds counts \<and> length ds = length documents + length rows \<and>
     (\<forall>i<length ds. unat (ad_local_id (ds ! i)) = i \<and> document_consistent files (ad_document (ds ! i)))"
proof (induction jl files rows documents actual rule: load_document_rows.induct)
  case (2 jl files row rows documents actual)
  then obtain doc where doc: "parse_document_row jl row = Inr doc" by (auto simp: sbind_def split: sum.splits)
  then have fine: "\<not> document_fields_invalid (ad_document doc)"
    by (auto simp: parse_document_row_def sbind_def split: option.splits if_splits sum.splits)
  from "2.prems"(1) doc obtain i where i: "unat (ad_local_id doc) = length documents"
      "file_ordinal files (pd_archive_id (ad_document doc)) = Some i"
      "\<not> document_inconsistent (af_archive (files ! i)) (ad_document doc)"
    and rest: "load_document_rows jl files rows (documents @ [doc]) (actual[i := actual ! i + 1]) = Inr (ds, counts)"
    by (auto simp: sbind_def split: option.splits if_splits)
  note o = file_ordinal_Some [OF i(2)]
  have "document_consistent files (ad_document doc)"
    using fine i(3) o by (force simp: document_consistent_def)
  with "2.prems"(4) i(1) have ok: "\<forall>j<length (documents @ [doc]). unat (ad_local_id ((documents @ [doc]) ! j)) = j \<and>
      document_consistent files (ad_document ((documents @ [doc]) ! j))"
    by (auto simp: nth_append less_Suc_eq)
  have "counts_match files (documents @ [doc]) (actual[i := actual ! i + 1])"
    using counts_match_step [OF "2.prems"(3)] o "2.prems"(2) by simp
  from "2.IH" [of doc, OF _ i(2,3) rest "2.prems"(2) this ok] i(1) show ?case by simp
qed auto

lemma json_rows_nonempty: "parse_json_lines jl content = Inr rows \<Longrightarrow> rows \<noteq> []"
  by (auto simp: parse_json_lines_def json_rows.simps [of jl content] Let_def sbind_def
      split: if_splits option.splits sum.splits)

lemma load_rows_consistent:
  assumes "load_rows jl d manifest ac dc = Inr b"
  shows "batch_consistent b \<and> bt_descriptor b = d"
proof -
  obtain pc fc arows drows files documents where
    rows: "parse_json_lines jl ac = Inr arows" "parse_json_lines jl dc = Inr drows"
    and n: "length arows = unat pc" "length drows = unat (bd_document_count d)"
    and f: "load_archive_rows jl d arows [] = Inr files"
    and l: "load_document_rows jl files drows [] (replicate (length files) 0) = Inr (documents, map af_document_count files)"
    and b: "b = \<lparr>bt_descriptor = d, bt_parsed_file_count = pc, bt_failed_file_count = fc, bt_files = files, bt_documents = documents\<rparr>"
    using assms by (auto simp: load_rows_def sbind_def split: option.splits if_splits sum.splits prod.splits)
  have fs: "\<forall>f\<in>set files. file_consistent d f" "distinct (map (\<lambda>f. ar_archive_id (af_archive f)) files)"
    "length files = length arows" using load_archive_rows_sound [OF f] by simp_all
  have "counts_match files [] (replicate (length files) 0)" by (simp add: counts_match_def documents_of_def)
  from load_document_rows_sound [OF l fs(2) this] have
    ds: "counts_match files documents (map af_document_count files)" "length documents = length drows"
      "\<forall>i<length documents. unat (ad_local_id (documents ! i)) = i \<and> document_consistent files (ad_document (documents ! i))"
    by simp_all
  have "length documents \<le> 2 ^ 32"
  proof (rule ccontr)
    assume "\<not> length documents \<le> 2 ^ 32"
    then have "unat (ad_local_id (documents ! (2 ^ 32))) = 2 ^ 32" using ds(3) by simp
    moreover have "unat w < 2 ^ 32" for w :: u32 by (rule order.strict_trans2 [OF unsigned_less]) simp
    ultimately show False by (metis less_irrefl)
  qed
  moreover have "\<forall>f\<in>set files. af_document_count f = word_of_nat (length (documents_of (ar_archive_id (af_archive f)) documents))"
    using ds(1) by (auto simp: counts_match_def in_set_conv_nth)
  moreover have "files \<noteq> []" using json_rows_nonempty [OF rows(1)] fs(3) by auto
  ultimately show ?thesis using fs n ds by (simp add: b batch_consistent_def)
qed

lemma load_batch_returns:
  assumes "load_batch en d s = (Ret b, t)"
  obtains ac dc manifest where "load_rows (en_json en) d manifest ac dc = Inr b"
  using assms unfolding load_batch_def Let_def
  by (auto simp: returns lift_sum_returns split: if_splits option.splits prod.splits)

lemma load_batch_consistent_lemma:
  "load_batch en d s = (Ret b, t) \<Longrightarrow> batch_consistent b \<and> bt_descriptor b = d"
  by (erule load_batch_returns) (rule load_rows_consistent)

section \<open>What is written\<close>

definition archives_text :: "'j json_lib \<Rightarrow> parsed_archive list \<Rightarrow> string" where
  "archives_text jl as = concat (map (\<lambda>a. jl_dump jl (archive_json jl a) @ [LF]) as)"

primrec documents_text :: "'j json_lib \<Rightarrow> u64 \<Rightarrow> parsed_document list \<Rightarrow> string" where
  "documents_text jl n [] = []"
| "documents_text jl n (d # ds) = (jl_dump jl (document_json jl n d) @ [LF]) @ documents_text jl (n + 1) ds"

definition all_documents :: "parsed_archive list \<Rightarrow> parsed_document list" where
  "all_documents as = concat (map pa_documents as)"

lemma documents_text_append:
  "documents_text jl n (xs @ ys) = documents_text jl n xs @ documents_text jl (n + word_of_nat (length xs)) ys"
  by (induction xs arbitrary: n) (simp_all add: algebra_simps)

lemma append_durable_returns:
  assumes "append_durable p v s = (Ret x, t)" and "node_at s p = Some (File c)"
  shows "node_at t q = (if q = p then Some (File (c @ v)) else node_at s q)"
  using assms by (auto simp: append_durable_def split: prod.splits transfer.splits dest!: transfer_loop_done)

lemma write_documents_returns:
  "write_documents jl p ds (n, dg) s = (Ret (m, dg'), t) \<Longrightarrow> node_at s p = Some (File c) \<Longrightarrow>
     m = n + word_of_nat (length ds) \<and> dg' = dg @ documents_text jl n ds \<and>
     (\<forall>q. node_at t q = (if q = p then Some (File (c @ documents_text jl n ds)) else node_at s q))"
proof (induction ds arbitrary: n dg s c)
  case (Cons d ds)
  let ?row = "jl_dump jl (document_json jl n d) @ [LF]"
  from Cons.prems(1) obtain y u where a: "append_durable p ?row s = (Ret y, u)"
    and r: "write_documents jl p ds (n + 1, dg @ ?row) u = (Ret (m, dg'), t)"
    by (auto simp: returns Let_def)
  note u = append_durable_returns [OF a Cons.prems(2)]
  have "node_at u p = Some (File (c @ ?row))" by (simp add: u)
  from Cons.IH [OF r this] show ?case by (simp add: u algebra_simps)
qed (simp add: ret_returns)

lemma write_archives_returns:
  "write_archives jl pa pd as ad (n, dd) s = (Ret (ad', m, dd'), t) \<Longrightarrow> pa \<noteq> pd \<Longrightarrow>
     node_at s pa = Some (File ca) \<Longrightarrow> node_at s pd = Some (File cd) \<Longrightarrow>
     ad' = ad @ archives_text jl as \<and> m = n + word_of_nat (length (all_documents as)) \<and>
     dd' = dd @ documents_text jl n (all_documents as) \<and>
     (\<forall>q. node_at t q = (if q = pa then Some (File (ca @ archives_text jl as))
        else if q = pd then Some (File (cd @ documents_text jl n (all_documents as))) else node_at s q))"
proof (induction as arbitrary: ad n dd s ca cd)
  case (Cons a as)
  let ?row = "jl_dump jl (archive_json jl a) @ [LF]"
  from Cons.prems(1) obtain y u n1 dd1 v where a: "append_durable pa ?row s = (Ret y, u)"
    and d: "write_documents jl pd (pa_documents a) (n, dd) u = (Ret (n1, dd1), v)"
    and r: "write_archives jl pa pd as (ad @ ?row) (n1, dd1) v = (Ret (ad', m, dd'), t)"
    by (auto simp: returns Let_def)
  note u = append_durable_returns [OF a Cons.prems(3)]
  have "node_at u pd = Some (File cd)" using Cons.prems(2,4) by (simp add: u)
  note v = write_documents_returns [OF d this]
  have "node_at v pa = Some (File (ca @ ?row))"
    "node_at v pd = Some (File (cd @ documents_text jl n (pa_documents a)))"
    using Cons.prems(2) v by (simp_all add: u)
  note w = Cons.IH [OF r Cons.prems(2) this]
  show ?case using w v Cons.prems(2)
    by (simp add: u archives_text_def all_documents_def documents_text_append algebra_simps)
qed (auto simp: ret_returns archives_text_def all_documents_def)

lemma open_durable_returns:
  "open_durable p s = (Ret x, t) \<Longrightarrow> node_at t q = (if q = p then Some (File []) else node_at s q)"
  by (auto simp: open_durable_def create_file_def returns same_files_node elim!: syscallE split: if_splits)

lemma finish_durable_returns: "finish_durable s = (Ret x, t) \<Longrightarrow> same_files s t"
  unfolding finish_durable_def seq_returns by (blast intro: same_files_trans dest: syscall_ret)

text \<open>The manifest text of a batch.\<close>

definition batch_manifest :: "'j store_env \<Rightarrow> u64 \<Rightarrow> u64 \<Rightarrow> u64 \<Rightarrow> u64 \<Rightarrow> u64 \<Rightarrow> parsed_archive list \<Rightarrow> 'j" where
  "batch_manifest en batch_id first_id last_id source_count failed_count as =
     batch_manifest_json en batch_id first_id last_id source_count failed_count as
       (word_of_nat (length (all_documents as)))
       (en_sha256 en (archives_text (en_json en) as))
       (en_sha256 en (documents_text (en_json en) 0 (all_documents as)))"

definition batch_manifest_text :: "'j store_env \<Rightarrow> u64 \<Rightarrow> u64 \<Rightarrow> u64 \<Rightarrow> u64 \<Rightarrow> u64 \<Rightarrow> parsed_archive list \<Rightarrow> string" where
  "batch_manifest_text en b f l sc fc as = jl_dump_pretty (en_json en) (batch_manifest en b f l sc fc as) @ [LF]"

definition batch_files_at :: "'j store_env \<Rightarrow> 'a store_state_scheme \<Rightarrow> u64 \<Rightarrow> u64 \<Rightarrow> u64 \<Rightarrow> u64 \<Rightarrow> u64 \<Rightarrow> parsed_archive list \<Rightarrow> fpath \<Rightarrow> bool" where
  "batch_files_at en s b f l sc fc as p \<longleftrightarrow>
     node_at s (p @ [''manifest.json'']) = Some (File (batch_manifest_text en b f l sc fc as)) \<and>
     node_at s (p @ [''archives.jsonl'']) = Some (File (archives_text (en_json en) as)) \<and>
     node_at s (p @ [''documents.jsonl'']) = Some (File (documents_text (en_json en) 0 (all_documents as)))"

lemma write_rows_returns:
  assumes "write_rows_and_publish en a b batch_id f l sc fc as s = (Ret art, t)"
    and ab: "\<not> below a b" "\<not> below b a"
  shows "batch_files_at en t batch_id f l sc fc as b"
    and "art = \<lparr>pb_relative_path = ''parsed/'' @ batch_name batch_id,
      pb_manifest_sha256 = en_sha256 en (batch_manifest_text en batch_id f l sc fc as)\<rparr>"
    and "node_at t a = None"
proof -
  let ?af = "a @ [''archives.jsonl'']" and ?df = "a @ [''documents.jsonl'']" and ?mf = "a @ [''manifest.json'']"
  let ?jl = "en_json en"
  let ?M = "\<lambda>atx n dt. jl_dump_pretty ?jl (batch_manifest_json en batch_id f l sc fc as n (en_sha256 en atx) (en_sha256 en dt)) @ [LF]"
  obtain y1 s1 y2 s2 r s3 where o: "open_durable ?af s = (Ret y1, s1)" "open_durable ?df s1 = (Ret y2, s2)"
    and w': "write_archives ?jl ?af ?df as [] (0, []) s2 = (Ret r, s3)"
    and rest': "(case r of (atx, n, dt) \<Rightarrow> seq (io finish_durable)
        (seq (io finish_durable)
         (seq (io (open_durable ?mf))
           (seq (io (append_durable ?mf (?M atx n dt)))
           (seq (io finish_durable)
           (seq (io (sync_directory a))
           (seq (io (rename_directory a b))
           (seq (io (sync_directory parsed_root))
           (ret \<lparr>pb_relative_path = ''parsed/'' @ batch_name batch_id,
                 pb_manifest_sha256 = en_sha256 en (?M atx n dt)\<rparr>))))))))) s3 = (Ret art, t)"
    using assms(1) unfolding write_rows_and_publish_def Let_def
    by (simp only: seq_returns [of "io (open_durable _)"] bind_returns map_error_returns) blast
  obtain atx n dt where r: "r = (atx, n, dt)" by (rule prod_cases3)
  note w = w' [unfolded r] and rest = rest' [unfolded r prod.case]
  have c: "node_at s2 ?af = Some (File [])" "node_at s2 ?df = Some (File [])"
    using open_durable_returns [OF o(1)] open_durable_returns [OF o(2)] by simp_all
  have acc: "atx = archives_text ?jl as" "n = word_of_nat (length (all_documents as))" "dt = documents_text ?jl 0 (all_documents as)"
    and s3: "node_at s3 ?af = Some (File (archives_text ?jl as))" "node_at s3 ?df = Some (File (documents_text ?jl 0 (all_documents as)))"
    using write_archives_returns [OF w _ c] by simp_all
  let ?m = "batch_manifest_text en batch_id f l sc fc as"
  have m: "jl_dump_pretty ?jl (batch_manifest_json en batch_id f l sc fc as n (en_sha256 en atx) (en_sha256 en dt)) @ [LF] = ?m"
    by (simp add: batch_manifest_text_def batch_manifest_def acc)
  from rest [unfolded m] obtain y1 s4 y2 s5 y3 s6 y4 s7 y5 s8 y6 s9 y7 s10 y8 where
    s4: "finish_durable s3 = (Ret y1, s4)" and s5: "finish_durable s4 = (Ret y2, s5)" and s6: "open_durable ?mf s5 = (Ret y3, s6)"
    and s7: "append_durable ?mf ?m s6 = (Ret y4, s7)" and s8: "finish_durable s7 = (Ret y5, s8)"
    and s9: "sync_directory a s8 = (Ret y6, s9)" and s10: "rename_directory a b s9 = (Ret y7, s10)"
    and t: "sync_directory parsed_root s10 = (Ret y8, t)"
    and art: "art = \<lparr>pb_relative_path = ''parsed/'' @ batch_name batch_id, pb_manifest_sha256 = en_sha256 en ?m\<rparr>"
    unfolding seq_returns map_error_returns ret_returns by auto
  have f5: "node_at s5 q = node_at s3 q" for q
    using finish_durable_returns [OF s4] finish_durable_returns [OF s5] by (simp add: same_files_node)
  note f6 = open_durable_returns [OF s6]
  have mf: "node_at s6 ?mf = Some (File [])" by (simp add: f6)
  note f7 = append_durable_returns [OF s7 mf]
  have f9: "node_at s9 q = node_at s7 q" for q
    using finish_durable_returns [OF s8] touchesD(2) [OF touches_sync s9, where P = "\<lambda>_. False"] by (simp add: same_files_node)
  note f10 = rename_returns(2) [OF s10 ab]
  have ft: "node_at t q = node_at s10 q" for q
    using touchesD(2) [OF touches_sync t, where P = "\<lambda>_. False"] by simp
  have "node_at t (b @ r) = node_at s7 (a @ r)" for r by (simp add: ft f10 f9)
  then show "batch_files_at en t batch_id f l sc fc as b"
    by (simp add: batch_files_at_def f7 f6 f5 s3)
  show "art = \<lparr>pb_relative_path = ''parsed/'' @ batch_name batch_id,
      pb_manifest_sha256 = en_sha256 en (batch_manifest_text en batch_id f l sc fc as)\<rparr>" by (rule art)
  have "below a a" by (simp add: below_def)
  then show "node_at t a = None" using ab(2) by (simp add: ft f10)
qed

lemma batch_paths_apart:
  "\<not> below (parsed_building @ [batch_name b]) (parsed_root @ [batch_name c])"
  "\<not> below (parsed_root @ [batch_name c]) (parsed_building @ [batch_name b])"
  by (simp_all add: below_iff parsed_building_def parsed_root_def batch_name_def)

lemma catch_rethrow_returns:
  "catch m (\<lambda>e. seq (cleanup e) (throw e)) u = (Ret x, t) \<Longrightarrow> m u = (Ret x, t)"
  by (auto simp: catch_def seq_returns throw_returns split: prod.splits result.splits)

lemma write_batch_returns:
  assumes "write_batch en batch_id f l sc fc as s = (Ret art, t)"
  shows "batch_files_at en t batch_id f l sc fc as (parsed_root @ [batch_name batch_id])"
    and "art = \<lparr>pb_relative_path = ''parsed/'' @ batch_name batch_id,
      pb_manifest_sha256 = en_sha256 en (batch_manifest_text en batch_id f l sc fc as)\<rparr>"
    and "node_at t (parsed_building @ [batch_name batch_id]) = None"
proof -
  obtain u where w: "write_rows_and_publish en (parsed_building @ [batch_name batch_id]) (parsed_root @ [batch_name batch_id])
      batch_id f l sc fc as u = (Ret art, t)"
    using assms unfolding write_batch_def Let_def seq_returns bind_returns
    by (auto simp: throw_returns seq_returns dest!: catch_rethrow_returns split: if_splits)
  show "batch_files_at en t batch_id f l sc fc as (parsed_root @ [batch_name batch_id])"
    "art = \<lparr>pb_relative_path = ''parsed/'' @ batch_name batch_id,
      pb_manifest_sha256 = en_sha256 en (batch_manifest_text en batch_id f l sc fc as)\<rparr>"
    "node_at t (parsed_building @ [batch_name batch_id]) = None"
    by (rule write_rows_returns [OF w batch_paths_apart])+
qed

section \<open>What was written is read\<close>

definition row_law :: "'j json_lib \<Rightarrow> 'j \<Rightarrow> bool" where
  "row_law jl v \<longleftrightarrow> jl_parse jl (jl_dump jl v) = Some v \<and> jl_dump jl v \<noteq> [] \<and> LF \<notin> set (jl_dump jl v)"

definition rows_text :: "'j json_lib \<Rightarrow> 'j list \<Rightarrow> string" where
  "rows_text jl vs = concat (map (\<lambda>v. jl_dump jl v @ [LF]) vs)"

lemma json_rows_text: "\<forall>v\<in>set vs. row_law jl v \<Longrightarrow> json_rows jl (rows_text jl vs) = Inr vs"
proof (induction vs)
  case (Cons v vs)
  then have v: "jl_parse jl (jl_dump jl v) = Some v" "jl_dump jl v \<noteq> []" "LF \<notin> set (jl_dump jl v)"
    by (simp_all add: row_law_def)
  have row: "takeWhile (\<lambda>c. c \<noteq> LF) (jl_dump jl v @ LF # rest) = jl_dump jl v"
    "dropWhile (\<lambda>c. c \<noteq> LF) (jl_dump jl v @ LF # rest) = LF # rest" for rest
    using v(3) by (induction "jl_dump jl v") (auto simp: takeWhile_append dropWhile_append)
  have "rows_text jl (v # vs) = jl_dump jl v @ LF # rows_text jl vs" by (simp add: rows_text_def)
  then show ?case using Cons v by (simp add: json_rows.simps [of jl "_ @ _"] row sbind_def)
qed (simp add: rows_text_def json_rows.simps)

lemma parse_rows_text:
  assumes "\<forall>v\<in>set vs. row_law jl v" and "vs \<noteq> []"
  shows "parse_json_lines jl (rows_text jl vs) = Inr vs"
proof -
  have "rows_text jl vs \<noteq> [] \<and> last (rows_text jl vs) = LF"
    using assms(2) by (cases vs rule: rev_cases) (simp_all add: rows_text_def)
  with json_rows_text [OF assms(1)] show ?thesis by (simp add: parse_json_lines_def)
qed

primrec document_values :: "'j json_lib \<Rightarrow> nat \<Rightarrow> parsed_document list \<Rightarrow> 'j list" where
  "document_values jl n [] = []"
| "document_values jl n (d # ds) = document_json jl (word_of_nat n) d # document_values jl (Suc n) ds"

primrec number_documents :: "nat \<Rightarrow> parsed_document list \<Rightarrow> parsed_artifact_document list" where
  "number_documents n [] = []"
| "number_documents n (d # ds) = \<lparr>ad_local_id = word_of_nat n, ad_document = d\<rparr> # number_documents (Suc n) ds"

definition artifact_file :: "parsed_archive \<Rightarrow> parsed_artifact_file" where
  "artifact_file a = \<lparr>af_archive = pa_archive a, af_profile = pa_profile a,
     af_document_count = word_of_nat (length (pa_documents a))\<rparr>"

lemma documents_text_rows: "documents_text jl (word_of_nat n) ds = rows_text jl (document_values jl n ds)"
proof (induction ds arbitrary: n)
  case (Cons d ds)
  from Cons [of "Suc n"] show ?case by (simp add: rows_text_def add.commute)
qed (simp add: rows_text_def)

lemma archives_text_rows: "archives_text jl as = rows_text jl (map (archive_json jl) as)"
  by (simp add: archives_text_def rows_text_def comp_def)

lemma length_document_values [simp]: "length (document_values jl n ds) = length ds"
  by (induction ds arbitrary: n) simp_all

lemma ucast_u32_u64 [simp]: "ucast (ucast (v :: u32) :: u64) = v"
  by (rule bit_word_eqI) (simp add: bit_simps)

lemma parse_archive_written:
  assumes laws: "json_laws jl" and ok: "\<not> archive_invalid (artifact_file a)"
  shows "parse_archive_row jl (archive_json jl a) = Inr (artifact_file a)"
proof -
  have "require_keys jl archive_keys (archive_json jl a)"
    unfolding archive_json_def Let_def by (rule require_keys_object [OF laws]) (auto simp: archive_keys_def)
  moreover have "archive_members jl (archive_json jl a) = Some (artifact_file a)"
    by (simp add: archive_members_def archive_json_def Let_def u64_at_def u32_at_def string_at_def
        json_object [OF laws] json_values [OF laws] artifact_file_def)
  ultimately show ?thesis using ok by (simp add: parse_archive_row_def)
qed

lemma parse_document_written:
  assumes laws: "json_laws jl" and ok: "\<not> document_fields_invalid d" and n: "n < 2 ^ 32"
  shows "parse_document_row jl (document_json jl (word_of_nat n) d) = Inr \<lparr>ad_local_id = word_of_nat n, ad_document = d\<rparr>"
proof -
  have "require_keys jl document_keys (document_json jl (word_of_nat n) d)"
    unfolding document_json_def by (rule require_keys_object [OF laws]) (auto simp: document_keys_def)
  moreover have "unat (word_of_nat (pd_term_count d) :: u64) = pd_term_count d"
    using ok by (intro unat_small_u64) (simp add: document_fields_invalid_def)
  then have "document_members jl (document_json jl (word_of_nat n) d) = Some d"
    by (simp add: document_members_def document_json_def u64_at_def string_at_def
        json_object [OF laws] json_values [OF laws])
  moreover have "u64_at jl (document_json jl (word_of_nat n) d) ''local_id'' = Some (word_of_nat n)"
    by (simp add: document_json_def u64_at_def json_object [OF laws] json_values [OF laws])
  moreover have "to_uint32 (word_of_nat n) = Inr (word_of_nat n)"
  proof -
    have u: "unat (word_of_nat n :: u64) = n" using n by (intro unat_small_u64) simp
    then have "\<not> (word_of_nat n :: u64) > 0xFFFFFFFF" using n by (simp add: word_less_nat_alt)
    moreover have "ucast (word_of_nat n :: u64) = (word_of_nat n :: u32)"
      by (rule bit_word_eqI) (simp add: bit_simps)
    ultimately show ?thesis by (simp add: to_uint32_def)
  qed
  ultimately show ?thesis using ok by (simp add: parse_document_row_def sbind_def)
qed

text \<open>A batch as the indexer hands it to the writer.\<close>

definition archive_fine :: "u64 \<Rightarrow> u64 \<Rightarrow> parsed_archive \<Rightarrow> bool" where
  "archive_fine first_id last_id a \<longleftrightarrow> \<not> archive_invalid (artifact_file a) \<and>
     first_id \<le> ar_archive_id (pa_archive a) \<and> ar_archive_id (pa_archive a) \<le> last_id \<and>
     (\<forall>d\<in>set (pa_documents a). \<not> document_fields_invalid d \<and> pd_archive_id d = ar_archive_id (pa_archive a) \<and>
        \<not> document_inconsistent (pa_archive a) d)"

definition batch_fine :: "u64 \<Rightarrow> u64 \<Rightarrow> u64 \<Rightarrow> u64 \<Rightarrow> parsed_archive list \<Rightarrow> bool" where
  "batch_fine first_id last_id source_count failed_count as \<longleftrightarrow> as \<noteq> [] \<and> all_documents as \<noteq> [] \<and>
     length (all_documents as) \<le> 2 ^ 32 \<and> length as < 2 ^ 64 \<and>
     word_of_nat (length as) + failed_count = source_count \<and>
     distinct (map (\<lambda>a. ar_archive_id (pa_archive a)) as) \<and> (\<forall>a\<in>set as. archive_fine first_id last_id a)"

lemma artifact_file_sel [simp]: "af_archive (artifact_file a) = pa_archive a"
  "af_document_count (artifact_file a) = word_of_nat (length (pa_documents a))"
  by (simp_all add: artifact_file_def)

lemma load_archives_written:
  assumes laws: "json_laws jl"
  shows "\<forall>a\<in>set as. archive_fine (bd_first_archive_id d) (bd_last_archive_id d) a \<Longrightarrow>
    distinct (map (\<lambda>f. ar_archive_id (af_archive f)) (files @ map artifact_file as)) \<Longrightarrow>
    load_archive_rows jl d (map (archive_json jl) as) files = Inr (files @ map artifact_file as)"
proof (induction as arbitrary: files)
  case (Cons a as)
  then have a: "\<not> archive_invalid (artifact_file a)" "\<not> ar_archive_id (pa_archive a) < bd_first_archive_id d"
      "\<not> bd_last_archive_id d < ar_archive_id (pa_archive a)"
      "ar_archive_id (pa_archive a) \<notin> set (map (\<lambda>f. ar_archive_id (af_archive f)) files)"
    by (auto simp: archive_fine_def not_less)
  have "load_archive_rows jl d (map (archive_json jl) as) (files @ [artifact_file a]) =
      Inr ((files @ [artifact_file a]) @ map artifact_file as)"
    using Cons.prems by (intro Cons.IH) simp_all
  then show ?case using a by (simp add: parse_archive_written [OF laws a(1)] sbind_def Let_def)
qed simp

lemma file_ordinal_unique:
  assumes "distinct (map (\<lambda>f. ar_archive_id (af_archive f)) files)" and "f \<in> set files"
  shows "\<exists>i<length files. files ! i = f \<and> file_ordinal files (ar_archive_id (af_archive f)) = Some i"
proof -
  obtain i where i: "i < length files" "files ! i = f" using assms(2) by (auto simp: in_set_conv_nth)
  have "file_ordinal files (ar_archive_id (af_archive f)) \<noteq> None"
    using i by (auto simp: file_ordinal_def find_None_iff)
  then obtain j where j: "file_ordinal files (ar_archive_id (af_archive f)) = Some j" by blast
  note o = file_ordinal_Some [OF j]
  then have "j = i" using nth_eq_iff_index_eq [OF assms(1), of j i] i by simp
  with i j show ?thesis by blast
qed

lemma load_documents_written:
  assumes laws: "json_laws jl" and dist: "distinct (map (\<lambda>f. ar_archive_id (af_archive f)) files)"
  shows "\<forall>d\<in>set ds. document_consistent files d \<Longrightarrow> length documents + length ds \<le> 2 ^ 32 \<Longrightarrow>
    counts_match files documents actual \<Longrightarrow>
    \<exists>counts. load_document_rows jl files (document_values jl (length documents) ds) documents actual =
        Inr (documents @ number_documents (length documents) ds, counts) \<and>
      counts_match files (documents @ number_documents (length documents) ds) counts"
proof (induction ds arbitrary: documents actual)
  case (Cons d ds)
  let ?doc = "\<lparr>ad_local_id = word_of_nat (length documents), ad_document = d\<rparr>"
  have n: "length documents < 2 ^ 32" using Cons.prems(2) by simp
  from Cons.prems(1) obtain f where f: "f \<in> set files" "ar_archive_id (af_archive f) = pd_archive_id d"
      "\<not> document_inconsistent (af_archive f) d" and fine: "\<not> document_fields_invalid d"
    by (auto simp: document_consistent_def)
  from file_ordinal_unique [OF dist f(1)] f(2) obtain i where i: "i < length files" "files ! i = f"
      "file_ordinal files (pd_archive_id d) = Some i" by auto
  have cm: "counts_match files (documents @ [?doc]) (actual[i := actual ! i + 1])"
    using counts_match_step [OF Cons.prems(3) i(1)] i(2) f(2) dist by simp
  obtain counts where IH: "load_document_rows jl files (document_values jl (length (documents @ [?doc])) ds)
        (documents @ [?doc]) (actual[i := actual ! i + 1]) =
      Inr ((documents @ [?doc]) @ number_documents (length (documents @ [?doc])) ds, counts)"
      "counts_match files ((documents @ [?doc]) @ number_documents (length (documents @ [?doc])) ds) counts"
    using Cons.IH [OF _ _ cm] Cons.prems(1,2) by auto
  have "unat (word_of_nat (length documents) :: u32) = length documents" using n by (rule unat_small_u32)
  then show ?case
    using IH i f(3) by (auto simp: parse_document_written [OF laws fine n] sbind_def)
qed simp

lemma documents_of_written:
  "distinct (map (\<lambda>a. ar_archive_id (pa_archive a)) as) \<Longrightarrow> a \<in> set as \<Longrightarrow>
   \<forall>b\<in>set as. \<forall>d\<in>set (pa_documents b). pd_archive_id d = ar_archive_id (pa_archive b) \<Longrightarrow>
   length (documents_of (ar_archive_id (pa_archive a)) (number_documents n (all_documents as))) = length (pa_documents a)"
proof -
  have num: "length (documents_of i (number_documents n ds)) = length (filter (\<lambda>d. pd_archive_id d = i) ds)" for i n ds
    by (induction ds arbitrary: n) (simp_all add: documents_of_def)
  have "filter (\<lambda>d. pd_archive_id d = ar_archive_id (pa_archive a)) (all_documents as) = pa_documents a"
    if "distinct (map (\<lambda>a. ar_archive_id (pa_archive a)) as)" "a \<in> set as"
      "\<forall>b\<in>set as. \<forall>d\<in>set (pa_documents b). pd_archive_id d = ar_archive_id (pa_archive b)" for as
    using that
  proof (induction as)
    case (Cons b as)
    have other: "filter (\<lambda>d. pd_archive_id d = i) (all_documents as) = []"
      if "i \<notin> (\<lambda>a. ar_archive_id (pa_archive a)) ` set as" for i
      using Cons.prems(3) that by (force simp: all_documents_def filter_empty_conv)
    show ?case
    proof (cases "a = b")
      case True
      then show ?thesis using Cons.prems other [of "ar_archive_id (pa_archive b)"]
        by (simp add: all_documents_def filter_id_conv)
    next
      case False
      then have a: "a \<in> set as" using Cons.prems(2) by simp
      then have "ar_archive_id (pa_archive a) \<in> (\<lambda>a. ar_archive_id (pa_archive a)) ` set as" by (rule imageI)
      then have "ar_archive_id (pa_archive b) \<noteq> ar_archive_id (pa_archive a)" using Cons.prems(1) by auto
      then have "filter (\<lambda>d. pd_archive_id d = ar_archive_id (pa_archive a)) (pa_documents b) = []"
        using Cons.prems(3) by (simp add: filter_empty_conv)
      with Cons.IH [OF _ a] Cons.prems(1,3) show ?thesis by (simp add: all_documents_def)
    qed
  qed simp
  then show "distinct (map (\<lambda>a. ar_archive_id (pa_archive a)) as) \<Longrightarrow> a \<in> set as \<Longrightarrow>
   \<forall>b\<in>set as. \<forall>d\<in>set (pa_documents b). pd_archive_id d = ar_archive_id (pa_archive b) \<Longrightarrow>
   length (documents_of (ar_archive_id (pa_archive a)) (number_documents n (all_documents as))) = length (pa_documents a)"
    by (simp add: num)
qed

definition written_batch :: "parsed_batch_descriptor \<Rightarrow> u64 \<Rightarrow> parsed_archive list \<Rightarrow> parsed_batch_data" where
  "written_batch d failed_count as = \<lparr>bt_descriptor = d, bt_parsed_file_count = word_of_nat (length as),
     bt_failed_file_count = failed_count, bt_files = map artifact_file as,
     bt_documents = number_documents 0 (all_documents as)\<rparr>"

text \<open>What the JSON library does with the rows of this batch and its manifest.\<close>

definition batch_json_ok :: "'j store_env \<Rightarrow> u64 \<Rightarrow> u64 \<Rightarrow> u64 \<Rightarrow> u64 \<Rightarrow> u64 \<Rightarrow> parsed_archive list \<Rightarrow> bool" where
  "batch_json_ok en b f l sc fc as \<longleftrightarrow>
     list_all (row_law (en_json en)) (map (archive_json (en_json en)) as) \<and>
     list_all (row_law (en_json en)) (document_values (en_json en) 0 (all_documents as)) \<and>
     jl_parse (en_json en) (batch_manifest_text en b f l sc fc as) = Some (batch_manifest en b f l sc fc as) \<and>
     length (batch_manifest_text en b f l sc fc as) \<le> k_manifest_limit \<and>
     length (archives_text (en_json en) as) \<le> k_json_lines_limit \<and>
     length (documents_text (en_json en) 0 (all_documents as)) \<le> k_json_lines_limit"

definition batch_descriptor :: "parsed_batch_artifact \<Rightarrow> u64 \<Rightarrow> u64 \<Rightarrow> u64 \<Rightarrow> u64 \<Rightarrow> parsed_archive list \<Rightarrow> parsed_batch_descriptor" where
  "batch_descriptor art b f l sc as = \<lparr>bd_batch_id = b, bd_first_archive_id = f, bd_last_archive_id = l,
     bd_source_file_count = sc, bd_document_count = word_of_nat (length (all_documents as)),
     bd_parsed_path = pb_relative_path art, bd_parsed_sha256 = pb_manifest_sha256 art\<rparr>"

lemma load_rows_written:
  assumes laws: "json_laws jl" and fine: "batch_fine (bd_first_archive_id d) (bd_last_archive_id d) (bd_source_file_count d) fc as"
    and rows: "list_all (row_law jl) (map (archive_json jl) as)" "list_all (row_law jl) (document_values jl 0 (all_documents as))"
    and counts: "u64_at jl m ''parsed_file_count'' = Some (word_of_nat (length as))" "u64_at jl m ''failed_file_count'' = Some fc"
    and dc: "bd_document_count d = word_of_nat (length (all_documents as))"
  shows "load_rows jl d m (archives_text jl as) (documents_text jl 0 (all_documents as)) = Inr (written_batch d fc as)"
proof -
  note f = fine [unfolded batch_fine_def]
  let ?files = "map artifact_file as"
  have dist: "distinct (map (\<lambda>f. ar_archive_id (af_archive f)) ?files)" using f by (simp add: comp_def)
  have ar: "parse_json_lines jl (archives_text jl as) = Inr (map (archive_json jl) as)"
    unfolding archives_text_rows using rows(1) f by (intro parse_rows_text) (simp_all add: list_all_iff)
  have "document_values jl 0 (all_documents as) \<noteq> []" using f by (metis length_0_conv length_document_values)
  then have dr: "parse_json_lines jl (documents_text jl 0 (all_documents as)) = Inr (document_values jl 0 (all_documents as))"
    using documents_text_rows [of jl 0] rows(2) by (simp add: parse_rows_text list_all_iff)
  have files: "load_archive_rows jl d (map (archive_json jl) as) [] = Inr ?files"
    using load_archives_written [OF laws, of as d "[]"] f dist by simp
  have cons: "\<forall>x\<in>set (all_documents as). document_consistent ?files x"
    using f by (fastforce simp: all_documents_def archive_fine_def document_consistent_def)
  have "counts_match ?files [] (replicate (length ?files) 0)" by (simp add: counts_match_def documents_of_def)
  from load_documents_written [OF laws dist cons _ this] f obtain cs where
    l: "load_document_rows jl ?files (document_values jl 0 (all_documents as)) [] (replicate (length ?files) 0) =
        Inr (number_documents 0 (all_documents as), cs)" and cm: "counts_match ?files (number_documents 0 (all_documents as)) cs"
    by auto
  have "cs = map af_document_count ?files"
  proof (rule nth_equalityI)
    show len: "length cs = length (map af_document_count ?files)" using cm by (simp add: counts_match_def)
    fix i assume "i < length cs"
    with len have i: "i < length as" by simp
    have "\<forall>b\<in>set as. \<forall>d\<in>set (pa_documents b). pd_archive_id d = ar_archive_id (pa_archive b)"
      using f by (simp add: archive_fine_def)
    from documents_of_written [OF _ nth_mem [OF i] this, of 0] f
    show "cs ! i = map af_document_count ?files ! i" using cm i by (simp add: counts_match_def)
  qed
  moreover have "unat (word_of_nat (length as) :: u64) = length as" "(word_of_nat (length as) :: u64) \<noteq> 0"
    "unat (word_of_nat (length (all_documents as)) :: u64) = length (all_documents as)"
    using f by (simp_all add: unat_small_u64 word_length_zero)
  ultimately show ?thesis
    using f l by (simp add: load_rows_def counts ar dr files sbind_def dc written_batch_def)
qed

lemma check_manifest_written:
  assumes laws: "json_laws (en_json en)" and sha: "\<And>c. valid_sha256 (en_sha256 en c)" and now: "instant_ok (en_now en)"
  shows "check_batch_manifest (en_json en) (batch_descriptor art b f l sc as) (batch_manifest en b f l sc fc as) =
    Inr (en_sha256 en (archives_text (en_json en) as), en_sha256 en (documents_text (en_json en) 0 (all_documents as)))"
    and "u64_at (en_json en) (batch_manifest en b f l sc fc as) ''parsed_file_count'' = Some (word_of_nat (length as))"
    and "u64_at (en_json en) (batch_manifest en b f l sc fc as) ''failed_file_count'' = Some fc"
proof -
  have keys: "require_keys (en_json en) batch_manifest_keys (batch_manifest en b f l sc fc as)"
    unfolding batch_manifest_def batch_manifest_json_def Let_def
    by (rule require_keys_object [OF laws]) (auto simp: batch_manifest_keys_def)
  have "parse_iso8601_milliseconds (format_utc_milliseconds (en_now en)) = Some (en_now en)"
    using now by (intro parse_format_lemma) (simp_all add: instant_ok_def)
  with keys sha show "check_batch_manifest (en_json en) (batch_descriptor art b f l sc as) (batch_manifest en b f l sc fc as) =
    Inr (en_sha256 en (archives_text (en_json en) as), en_sha256 en (documents_text (en_json en) 0 (all_documents as)))"
    by (simp add: check_batch_manifest_def batch_manifest_def batch_manifest_json_def u64_at_def u32_at_def string_at_def
        Let_def json_object [OF laws] json_values [OF laws] batch_descriptor_def)
  show "u64_at (en_json en) (batch_manifest en b f l sc fc as) ''parsed_file_count'' = Some (word_of_nat (length as))"
    "u64_at (en_json en) (batch_manifest en b f l sc fc as) ''failed_file_count'' = Some fc"
    by (simp_all add: batch_manifest_def batch_manifest_json_def u64_at_def Let_def json_object [OF laws] json_values [OF laws])
qed

lemma batch_round_trip_lemma:
  assumes w: "write_batch en b f l sc fc as s = (Ret art, t)"
    and laws: "json_laws (en_json en)" and json: "batch_json_ok en b f l sc fc as"
    and sha: "\<And>c. valid_sha256 (en_sha256 en c)" and now: "instant_ok (en_now en)" and "b \<noteq> 0"
    and fine: "batch_fine f l sc fc as"
  shows "load_batch en (batch_descriptor art b f l sc as) (t\<lparr>st_events := []\<rparr>) =
    (Ret (written_batch (batch_descriptor art b f l sc as) fc as), t\<lparr>st_events := []\<rparr>)"
proof -
  let ?d = "batch_descriptor art b f l sc as" and ?t = "t\<lparr>st_events := []\<rparr>"
  let ?p = "parsed_root @ [batch_name b]"
  have art: "art = \<lparr>pb_relative_path = ''parsed/'' @ batch_name b, pb_manifest_sha256 = en_sha256 en (batch_manifest_text en b f l sc fc as)\<rparr>"
    by (rule write_batch_returns(2) [OF w])
  note at = write_batch_returns(1) [OF w, unfolded batch_files_at_def]
  note j = json [unfolded batch_json_ok_def]
  have r: "io (read_regular_file (?p @ [''manifest.json'']) k_manifest_limit) ?t = (Ret (batch_manifest_text en b f l sc fc as), ?t)"
    "io (read_regular_file (?p @ [''archives.jsonl'']) k_json_lines_limit) ?t = (Ret (archives_text (en_json en) as), ?t)"
    "io (read_regular_file (?p @ [''documents.jsonl'']) k_json_lines_limit) ?t = (Ret (documents_text (en_json en) 0 (all_documents as)), ?t)"
    using at j by (auto intro!: map_error_quiet read_quiet simp del: append_assoc)
  have "load_rows (en_json en) ?d (batch_manifest en b f l sc fc as) (archives_text (en_json en) as)
      (documents_text (en_json en) 0 (all_documents as)) = Inr (written_batch ?d fc as)"
    using fine j check_manifest_written(2,3) [OF laws sha now]
    by (intro load_rows_written [OF laws]) (simp_all add: batch_descriptor_def)
  then show ?thesis
    using sha assms(6) j r check_manifest_written(1) [OF laws sha now, where art = art]
    by (simp add: load_batch_def batch_descriptor_def art Let_def exec_simps lift_sum_def)
qed

section \<open>Writing without faults\<close>

lemma append_durable_quiet:
  assumes "quiet s" "node_at s p = Some (File c)"
  shows "append_durable p v s = (Ret (), put_node p (File (c @ v)) s)"
  using assms by (simp add: append_durable_def)

lemma open_durable_quiet:
  assumes "quiet s" "node_at s (p @ [n]) = None" "node_at s p = Some Dir"
  shows "open_durable (p @ [n]) s = (Ret (), put_node (p @ [n]) (File []) s)"
  using assms by (simp add: open_durable_def create_file_def syscall_quiet exec_simps)

lemma finish_quiet: "quiet s \<Longrightarrow> finish_durable s = (Ret (), s)"
  by (simp add: finish_durable_def syscall_quiet exec_simps)

lemma write_documents_quiet:
  "quiet s \<Longrightarrow> node_at s p = Some (File c) \<Longrightarrow> \<exists>r t. write_documents jl p ds acc s = (Ret r, t) \<and> quiet t"
proof (induction ds arbitrary: acc s c)
  case (Cons d ds)
  obtain n dg where acc: "acc = (n, dg)" by (cases acc)
  let ?row = "jl_dump jl (document_json jl n d) @ [LF]"
  let ?s = "put_node p (File (c @ ?row)) s"
  have "io (append_durable p ?row) s = (Ret (), ?s)" by (rule map_error_quiet) (rule append_durable_quiet [OF Cons.prems])
  moreover obtain r t where "write_documents jl p ds (n + 1, dg @ ?row) ?s = (Ret r, t)" "quiet t"
    using Cons.IH [of ?s] Cons.prems(1) by fastforce
  ultimately have "write_documents jl p (d # ds) acc s = (Ret r, t)"
    unfolding acc write_documents.simps prod.case Let_def by (intro seqI)
  then show ?case using \<open>quiet t\<close> by blast
qed (simp add: ret_def)

lemma write_archives_quiet:
  "quiet s \<Longrightarrow> pa \<noteq> pd \<Longrightarrow> node_at s pa = Some (File ca) \<Longrightarrow> node_at s pd = Some (File cd) \<Longrightarrow>
     \<exists>r t. write_archives jl pa pd as ad acc s = (Ret r, t) \<and> quiet t"
proof (induction as arbitrary: ad acc s ca cd)
  case (Cons a as)
  obtain n dg where acc: "acc = (n, dg)" by (cases acc)
  let ?row = "jl_dump jl (archive_json jl a) @ [LF]"
  let ?s = "put_node pa (File (ca @ ?row)) s"
  have a: "io (append_durable pa ?row) s = (Ret (), ?s)"
    by (rule map_error_quiet) (rule append_durable_quiet [OF Cons.prems(1,3)])
  have pd: "node_at ?s pd = Some (File cd)" "quiet ?s" using Cons.prems by simp_all
  obtain n' dg' u where d: "write_documents jl pd (pa_documents a) (n, dg) ?s = (Ret (n', dg'), u)" "quiet u"
    using write_documents_quiet [OF pd(2,1), of jl "pa_documents a" "(n, dg)"] by fastforce
  note u = write_documents_returns [OF d(1) pd(1)]
  have "node_at u pa = Some (File (ca @ ?row))" "\<exists>c. node_at u pd = Some (File c)"
    using u Cons.prems(2) by simp_all
  then obtain r t where "write_archives jl pa pd as (ad @ ?row) (n', dg') u = (Ret r, t)" "quiet t"
    using Cons.IH [OF d(2) Cons.prems(2)] by metis
  have "write_archives jl pa pd (a # as) ad acc s = (Ret r, t)"
    unfolding acc write_archives.simps prod.case Let_def
    by (rule seqI, rule a, rule bindI, rule d(1)) (rule \<open>write_archives jl pa pd as (ad @ ?row) (n', dg') u = (Ret r, t)\<close>)
  then show ?case using \<open>quiet t\<close> by blast
qed (simp add: ret_def)

definition parsed_shaped :: "'a store_state_scheme \<Rightarrow> fpath \<Rightarrow> bool" where
  "parsed_shaped s p \<longleftrightarrow> (node_at s p = None \<or> node_at s p = Some Dir) \<and>
     (\<forall>c. node_at s (p @ [c]) \<noteq> None \<longrightarrow> node_at s (p @ [c]) \<noteq> Some Dir \<and>
        c \<in> set [''archives.jsonl'', ''documents.jsonl'', ''manifest.json''])"

text \<open>A store the writer can start from; an interrupted earlier attempt may have left its building files.\<close>

definition parsed_ready :: "'a store_state_scheme \<Rightarrow> u64 \<Rightarrow> bool" where
  "parsed_ready s b \<longleftrightarrow> node_at s [] = Some Dir \<and>
     (node_at s parsed_root = None \<or> node_at s parsed_root = Some Dir) \<and>
     (node_at s parsed_building = None \<or> node_at s parsed_building = Some Dir) \<and>
     parsed_shaped s (parsed_building @ [batch_name b]) \<and> node_at s (parsed_root @ [batch_name b]) = None"

lemma remove_parsed_quiet:
  assumes q: "quiet s" and shape: "parsed_shaped s p"
  obtains t where "remove_parsed_directory p s = (Ret (), t)" "quiet t"
    "\<And>r. node_at t r = (if r = p \<or> (\<exists>c. r = p @ [c]) then None else node_at s r)"
proof -
  have files: "no_subdirs s p"
    using shape unfolding parsed_shaped_def no_subdirs_def by fastforce
  obtain s1 where s1: "io (remove_file (p @ [''manifest.json''])) s = (Ret (), s1)" "quiet s1" "no_subdirs s1 p"
    "\<And>r. node_at s1 r = (if r = p @ [''manifest.json''] then None else node_at s r)"
    using remove_child_quiet [OF q files] by blast
  obtain s2 where s2: "io (remove_file (p @ [''archives.jsonl''])) s1 = (Ret (), s2)" "quiet s2" "no_subdirs s2 p"
    "\<And>r. node_at s2 r = (if r = p @ [''archives.jsonl''] then None else node_at s1 r)"
    using remove_child_quiet [OF s1(2,3)] by blast
  obtain s3 where s3: "io (remove_file (p @ [''documents.jsonl''])) s2 = (Ret (), s3)" "quiet s3" "no_subdirs s3 p"
    "\<And>r. node_at s3 r = (if r = p @ [''documents.jsonl''] then None else node_at s2 r)"
    using remove_child_quiet [OF s2(2,3)] by blast
  have all: "node_at s3 r = (if \<exists>c. r = p @ [c] then None else node_at s r)" for r
  proof (cases "\<exists>c. r = p @ [c]")
    case True
    then obtain c where r: "r = p @ [c]" ..
    have "node_at s3 (p @ [c]) = None"
    proof (cases "node_at s (p @ [c]) = None")
      case False
      with shape have "c \<in> set [''archives.jsonl'', ''documents.jsonl'', ''manifest.json'']"
        unfolding parsed_shaped_def by blast
      then show ?thesis unfolding s3(4) s2(4) s1(4) by (auto simp del: list.inject)
    qed (simp add: s3(4) s2(4) s1(4))
    with r show ?thesis by simp
  qed (simp add: s3(4) s2(4) s1(4))
  have "node_at s3 p = node_at s p" by (simp add: all)
  moreover have "c \<notin> set (child_names s3 p)" for c by (simp add: child_names_iff all)
  then have "child_names s3 p = []" by (cases "child_names s3 p") auto
  moreover have "node_at s p = None \<or> node_at s p = Some Dir" using shape by (simp add: parsed_shaped_def)
  ultimately have d: "io (remove_directory p) s3 = (Ret (), if node_at s p = None then s3 else delete_node p s3)"
    by (intro map_error_quiet) (simp add: remove_directory_quiet [OF s3(2)])
  have "remove_parsed_directory p s = (Ret (), if node_at s p = None then s3 else delete_node p s3)"
    unfolding remove_parsed_directory_def
    by (rule seqI, rule s1(1), rule seqI, rule s2(1), rule seqI, rule s3(1), rule d)
  then show thesis
  proof (rule that)
    show "quiet (if node_at s p = None then s3 else delete_node p s3)" using s3(2) by simp
    show "node_at (if node_at s p = None then s3 else delete_node p s3) r =
      (if r = p \<or> (\<exists>c. r = p @ [c]) then None else node_at s r)" for r
      by (auto simp: all)
  qed
qed

lemma write_rows_quiet:
  assumes q: "quiet s" and dir: "node_at s a = Some Dir" and none: "\<And>n. node_at s (a @ [n]) = None"
    and ab: "\<not> below a b" "\<not> below b a" and b: "node_at s b = None" "node_at s (butlast b) = Some Dir" "\<not> below a (butlast b)"
    and sr: "node_at s parsed_root = Some Dir" "\<not> below a parsed_root" "\<not> below b parsed_root"
  shows "\<exists>r t. write_rows_and_publish en a b i f l sc fc as s = (Ret r, t)"
proof -
  let ?af = "a @ [''archives.jsonl'']" and ?df = "a @ [''documents.jsonl'']" and ?mf = "a @ [''manifest.json'']"
  let ?s1 = "put_node ?af (File []) s"
  let ?s2 = "put_node ?df (File []) ?s1"
  have o1: "io (open_durable ?af) s = (Ret (), ?s1)"
    by (rule map_error_quiet) (rule open_durable_quiet [OF q none dir])
  have o2: "io (open_durable ?df) ?s1 = (Ret (), ?s2)"
    by (rule map_error_quiet, rule open_durable_quiet) (simp_all add: q none dir)
  have c: "node_at ?s2 ?af = Some (File [])" "node_at ?s2 ?df = Some (File [])" "?af \<noteq> ?df" "quiet ?s2" using q by simp_all
  obtain atx n dt s3 where w: "write_archives (en_json en) ?af ?df as [] (0, []) ?s2 = (Ret (atx, n, dt), s3)" "quiet s3"
    using write_archives_quiet [OF c(4,3,1,2), of "en_json en" as "[]" "(0, [])"] by (metis prod_cases3)
  have s3: "node_at s3 q = node_at s q" if "q \<noteq> ?af" "q \<noteq> ?df" for q
    using write_archives_returns [OF w(1) c(3,1,2)] that by simp
  let ?m = "jl_dump_pretty (en_json en) (batch_manifest_json en i f l sc fc as n (en_sha256 en atx) (en_sha256 en dt)) @ [LF]"
  let ?s4 = "put_node ?mf (File []) s3"
  let ?s5 = "put_node ?mf (File ?m) ?s4"
  have fin: "io finish_durable u = (Ret (), u)" if "quiet u" for u :: "'a store_state_scheme"
    by (rule map_error_quiet) (rule finish_quiet [OF that])
  have o4: "io (open_durable ?mf) s3 = (Ret (), ?s4)"
    by (rule map_error_quiet, rule open_durable_quiet) (simp_all add: w(2) s3 none dir)
  have a4: "io (append_durable ?mf ?m) ?s4 = (Ret (), ?s5)"
    using append_durable_quiet [of ?s4 ?mf "[]" ?m] w(2) by (intro map_error_quiet) simp
  have dir5: "node_at ?s5 a = Some Dir" "quiet ?s5" using w(2) by (simp_all add: s3 dir)
  have far: "node_at ?s5 q = node_at s q" if "\<not> below a q" for q
  proof -
    have "q \<noteq> a @ [x]" for x using that by auto
    then show ?thesis by (simp add: s3)
  qed
  have sy: "io (sync_directory a) ?s5 = (Ret (), ?s5)" by (rule map_error_quiet) (rule sync_quiet [OF dir5(2,1)])
  have rn: "io (rename_directory a b) ?s5 = (Ret (), move_node a b ?s5)"
    using dir5 far [OF ab(1)] far [OF b(3)] b by (intro map_error_quiet rename_quiet) simp_all
  have "node_at (move_node a b ?s5) parsed_root = Some Dir"
    using sr far [OF sr(2)] by (simp add: node_at_move [OF ab])
  then have sy2: "io (sync_directory parsed_root) (move_node a b ?s5) = (Ret (), move_node a b ?s5)"
    using dir5(2) by (intro map_error_quiet sync_quiet) simp_all
  have q4: "quiet ?s4" using w(2) by simp
  show ?thesis
    unfolding write_rows_and_publish_def Let_def
    apply (intro exI)
    apply (rule seqI, rule o1, rule seqI, rule o2, rule bindI, rule w(1))
    apply (unfold prod.case)
    apply (rule seqI, rule fin [OF w(2)], rule seqI, rule fin [OF w(2)], rule seqI, rule o4, rule seqI, rule a4)
    apply (rule seqI, rule fin [OF dir5(2)], rule seqI, rule sy, rule seqI, rule rn, rule seqI, rule sy2, rule ret_def)
    done
qed

lemma write_batch_quiet:
  assumes q: "quiet s" and ready: "parsed_ready s b"
  shows "\<exists>r t. write_batch en b f l sc fc as s = (Ret r, t)"
proof -
  let ?n = "batch_name b"
  let ?a = "parsed_building @ [?n]" and ?b = "parsed_root @ [?n]"
  note r = ready [unfolded parsed_ready_def]
  have nb: "?n \<noteq> ''.building''" by (simp add: batch_name_def)
  have roots: "butlast parsed_root = []" "parsed_root \<noteq> []" "parsed_building \<noteq> []" "butlast parsed_building = parsed_root"
    "parsed_building \<noteq> parsed_root" by (simp_all add: parsed_root_def parsed_building_def)
  obtain s1 where s1: "io (ensure_directory parsed_root) s = (Ret (), s1)" "quiet s1"
      "\<And>q. node_at s1 q = (if q = parsed_root then Some Dir else node_at s q)"
    using ensure_step [OF q roots(2)] r roots(1) by metis
  have "node_at s1 parsed_building = None \<or> node_at s1 parsed_building = Some Dir" "node_at s1 (butlast parsed_building) = Some Dir"
    using r roots by (simp_all add: s1(3))
  then obtain s2 where s2: "io (ensure_directory parsed_building) s1 = (Ret (), s2)" "quiet s2"
      "\<And>q. node_at s2 q = (if q = parsed_building then Some Dir else node_at s1 q)"
    using ensure_step [OF s1(2) roots(3)] by metis
  have far: "?a @ q \<noteq> parsed_root" "?a @ q \<noteq> parsed_building" "?b @ q \<noteq> parsed_root" "?b @ q \<noteq> parsed_building"
      "?a @ q \<noteq> ?b @ w" for q w
    using nb by (auto simp: parsed_root_def parsed_building_def)
  have same2: "node_at s2 (?a @ q) = node_at s (?a @ q)" "node_at s2 (?b @ q) = node_at s (?b @ q)" for q
    by (simp_all only: s2(3) s1(3) far if_False)
  have none2: "node_at s2 ?b = None" using r same2(2) [of "[]"] by simp
  have isd: "is_directory ?b s2 = (Ret False, s2)" by (simp add: is_directory_quiet s2(2) none2)
  have "parsed_shaped s2 ?a"
    using r same2(1) [of "[]"] same2(1) [of "[_]"] by (simp add: parsed_shaped_def)
  then obtain s3 where s3: "remove_parsed_directory ?a s2 = (Ret (), s3)" "quiet s3"
      "\<And>q. node_at s3 q = (if q = ?a \<or> (\<exists>e. q = ?a @ [e]) then None else node_at s2 q)"
    using remove_parsed_quiet [OF s2(2)] by metis
  have roots3: "node_at s3 parsed_root = Some Dir" "node_at s3 parsed_building = Some Dir" "node_at s3 ?b = None"
      "node_at s3 ?a = None" "node_at s3 (?a @ [e]) = None" for e
    using far(1,2) [of "[]"] far(1,2) [of "[_]"] far(1,2) [of "[_]", symmetric] far(5) [of "[]" "[]"] far(5) [of "[_]" "[]"] roots(5) none2
    by (auto simp: s3(3) s2(3) s1(3))
  obtain s4 where s4: "io (ensure_directory ?a) s3 = (Ret (), s4)" "quiet s4"
      "\<And>q. node_at s4 q = (if q = ?a then Some Dir else node_at s3 q)"
    using ensure_step [OF s3(2), of ?a] roots3 by auto
  have at4: "node_at s4 ?a = Some Dir" "node_at s4 (?a @ [e]) = None" "node_at s4 ?b = None"
      "node_at s4 parsed_root = Some Dir" "node_at s4 (butlast ?b) = Some Dir" for e
    using roots3 far(1) [of "[]"] far(5) [of "[]" "[]"] by (simp_all add: s4(3))
  have apart: "\<not> below ?a parsed_root" "\<not> below ?b parsed_root" "\<not> below ?a (butlast ?b)"
    by (simp_all add: below_iff parsed_root_def parsed_building_def)
  obtain art t where w: "write_rows_and_publish en ?a ?b b f l sc fc as s4 = (Ret art, t)"
    using write_rows_quiet [OF s4(2) at4(1,2) batch_paths_apart at4(3,5) apart(3) at4(4) apart(1,2)] by blast
  then have c: "catch (write_rows_and_publish en ?a ?b b f l sc fc as) (\<lambda>e. seq (remove_parsed_directory ?a) (throw e)) s4 = (Ret art, t)"
    by (rule catchI)
  show ?thesis
    unfolding write_batch_def Let_def
    apply (intro exI)
    apply (rule seqI, rule s1(1), rule seqI, rule s2(1), rule bindI, rule isd)
    apply (unfold if_False)
    apply (rule seqI, rule s3(1), rule seqI, rule s4(1), rule c)
    done
qed

section \<open>The promises\<close>

text \<open>
  C20: Whatever files are on disk, the reader returns only consistent batches: local identifiers are
  the positions, every document lies inside the archive it names and has its identity, no archive
  occurs twice or outside the batch's range, and the per-archive counts are right.
\<close>

theorem load_batch_consistent:
  assumes "load_batch en d s = (Ret b, t)"
  shows "batch_consistent b \<and> bt_descriptor b = d"
  using assms by (rule load_batch_consistent_lemma)

text \<open>
  C19: A published batch is read back as it was written, and the writer leaves no building directory.
\<close>

theorem batch_round_trip:
  assumes "write_batch en b f l sc fc as s = (Ret art, t)"
    and "json_laws (en_json en)" and "batch_json_ok en b f l sc fc as"
    and "\<And>c. valid_sha256 (en_sha256 en c)" and "instant_ok (en_now en)" and "b \<noteq> 0"
    and "batch_fine f l sc fc as"
  shows "load_batch en (batch_descriptor art b f l sc as) (t\<lparr>st_events := []\<rparr>) =
      (Ret (written_batch (batch_descriptor art b f l sc as) fc as), t\<lparr>st_events := []\<rparr>) \<and>
    node_at t (parsed_building @ [batch_name b]) = None"
  using batch_round_trip_lemma [OF assms] write_batch_returns(3) [OF assms(1)] by simp

section \<open>A sample batch\<close>

definition sample_parsed :: parsed_archive where
  "sample_parsed = \<lparr>pa_archive = sample_archive\<lparr>ar_produced_at := ''1970-01-01T00:00:01.000Z'',
       ar_archived_at := ''1970-01-01T00:00:02.000Z''\<rparr>,
     pa_profile = \<lparr>pp_name = ''kv_runtime_v1'', pp_version = 1\<rparr>,
     pa_documents = [\<lparr>pd_archive_id = 5, pd_byte_offset = 2, pd_byte_length = 3,
       pd_occurred_at = ''1970-01-01T00:00:01.000Z'', pd_archived_at = ''1970-01-01T00:00:02.000Z'',
       pd_line_id = ''L'', pd_station_id = ''S'', pd_device_id = ''D'', pd_collector_id = ''C'',
       pd_work_order = [], pd_product_sn = [], pd_source_type = ''runtime_log'', pd_level = ''ERROR'',
       pd_module_name = ''M'', pd_error_code = ''E1'', pd_event_name = [], pd_term_count = 1\<rparr>]\<rparr>"

definition sample_rows_env :: "sample_json \<Rightarrow> sample_json \<Rightarrow> sample_json \<Rightarrow> sample_json store_env" where
  "sample_rows_env a d m = \<lparr>en_json = sample_json_lib [(''A'', a), (''D'', d), (''M'', m), (''M'' @ [LF], m)],
     en_sha256 = sample_sha, en_now = 3000\<rparr>"

definition sample_row_a :: sample_json where
  "sample_row_a = archive_json (sample_json_lib []) sample_parsed"
definition sample_row_d :: sample_json where
  "sample_row_d = document_json (sample_json_lib []) 0 (hd (pa_documents sample_parsed))"
definition sample_row_m :: sample_json where
  "sample_row_m = batch_manifest (sample_rows_env (Jbool True) (Jbool True) (Jbool True)) 1 5 5 1 0 [sample_parsed]"

definition sample_batch_env :: "sample_json store_env" where
  "sample_batch_env = sample_rows_env sample_row_a sample_row_d sample_row_m"

lemma sample_rows:
  "archive_json (sample_json_lib texts) sample_parsed = sample_row_a"
  "document_json (sample_json_lib texts) 0 (hd (pa_documents sample_parsed)) = sample_row_d"
  "batch_manifest (sample_rows_env a d m) 1 5 5 1 0 [sample_parsed] = sample_row_m"
  by (simp_all add: sample_row_a_def sample_row_d_def sample_row_m_def archive_json_def document_json_def
      batch_manifest_def batch_manifest_json_def Let_def sample_rows_env_def sample_sha_def)

lemma sample_rows_distinct: "sample_row_a \<noteq> sample_row_d" "sample_row_a \<noteq> sample_row_m" "sample_row_d \<noteq> sample_row_m"
  by (simp_all add: sample_row_a_def sample_row_d_def sample_row_m_def archive_json_def document_json_def
      batch_manifest_def batch_manifest_json_def Let_def sample_rows_env_def)

lemma sample_batch_fine: "batch_fine 5 5 1 0 [sample_parsed]"
  by (simp add: batch_fine_def all_documents_def archive_fine_def sample_parsed_def archive_invalid_def artifact_file_def
      sample_archive_def sample_times valid_sha256_def list_all_length is_lower_hex_def is_digit_def
      document_fields_invalid_def document_inconsistent_def Let_def)

lemma sample_documents: "all_documents [sample_parsed] = [hd (pa_documents sample_parsed)]"
  by (simp add: all_documents_def sample_parsed_def)

lemma sample_batch_json: "batch_json_ok sample_batch_env 1 5 5 1 0 [sample_parsed]"
proof -
  have law: "row_law (en_json sample_batch_env) sample_row_a" "row_law (en_json sample_batch_env) sample_row_d"
    using sample_rows_distinct
    by (simp_all add: row_law_def sample_batch_env_def sample_rows_env_def sample_dump_def)
  have m: "batch_manifest_text sample_batch_env 1 5 5 1 0 [sample_parsed] = ''M'' @ [LF]"
    using sample_rows_distinct
    by (simp add: batch_manifest_text_def sample_batch_env_def sample_rows(3)) (simp add: sample_rows_env_def sample_dump_def)
  have a: "archive_json (en_json sample_batch_env) sample_parsed = sample_row_a"
    "document_json (en_json sample_batch_env) 0 (hd (pa_documents sample_parsed)) = sample_row_d"
    by (simp_all add: sample_batch_env_def sample_rows_env_def sample_rows)
  have dump: "jl_dump (en_json sample_batch_env) sample_row_a = ''A''" "jl_dump (en_json sample_batch_env) sample_row_d = ''D''"
    using sample_rows_distinct by (simp_all add: sample_batch_env_def sample_rows_env_def sample_dump_def)
  have "batch_manifest sample_batch_env 1 5 5 1 0 [sample_parsed] = sample_row_m"
    by (simp add: sample_batch_env_def sample_rows(3))
  moreover have "jl_parse (en_json sample_batch_env) (''M'' @ [LF]) = Some sample_row_m"
    by (simp add: sample_batch_env_def sample_rows_env_def)
  ultimately show ?thesis
    by (simp add: batch_json_ok_def sample_documents a law m dump archives_text_def k_manifest_limit_def k_json_lines_limit_def)
qed

lemma sample_batch_env_facts: "json_laws (en_json sample_batch_env)" "valid_sha256 (en_sha256 sample_batch_env c)"
    "instant_ok (en_now sample_batch_env)"
  by (simp_all add: sample_batch_env_def sample_rows_env_def sample_json_laws sample_sha_def valid_sha256_def
      list_all_length is_lower_hex_def is_digit_def instant_ok_def last_instant_val)

lemma sample_write: obtains art t where
  "write_batch sample_batch_env 1 5 5 1 0 [sample_parsed] sample_store = (Ret art, t)"
proof -
  have "parsed_ready sample_store 1"
    by (simp add: parsed_ready_def parsed_shaped_def sample_store_def node_at_def parsed_root_def parsed_building_def)
  moreover have "st_events sample_store = []" by (simp add: sample_store_def)
  ultimately show thesis using write_batch_quiet that by blast
qed

theorem batch_round_trip_witness:
  "\<exists>art t. write_batch sample_batch_env 1 5 5 1 0 [sample_parsed] sample_store = (Ret art, t) \<and>
     fst (load_batch sample_batch_env (batch_descriptor art 1 5 5 1 [sample_parsed]) (t\<lparr>st_events := []\<rparr>)) =
       Ret (written_batch (batch_descriptor art 1 5 5 1 [sample_parsed]) 0 [sample_parsed])"
proof -
  obtain art t where w: "write_batch sample_batch_env 1 5 5 1 0 [sample_parsed] sample_store = (Ret art, t)" by (rule sample_write)
  from batch_round_trip [OF w sample_batch_env_facts(1) sample_batch_json sample_batch_env_facts(2,3) _ sample_batch_fine] w
  show ?thesis by auto
qed

theorem load_batch_consistent_witness:
  "\<exists>d s b t. load_batch sample_batch_env d (s :: store_state) = (Ret b, t) \<and> batch_consistent b"
proof -
  obtain art t where w: "write_batch sample_batch_env 1 5 5 1 0 [sample_parsed] sample_store = (Ret art, t)" by (rule sample_write)
  have "load_batch sample_batch_env (batch_descriptor art 1 5 5 1 [sample_parsed]) (t\<lparr>st_events := []\<rparr>) =
    (Ret (written_batch (batch_descriptor art 1 5 5 1 [sample_parsed]) 0 [sample_parsed]), t\<lparr>st_events := []\<rparr>)"
    by (rule batch_round_trip_lemma [OF w sample_batch_env_facts(1) sample_batch_json sample_batch_env_facts(2,3) _ sample_batch_fine]) simp
  from load_batch_consistent [OF this] this show ?thesis by blast
qed

end
