(* ===== verification/Segment_Acceptance.thy ===== *)
theory Segment_Acceptance
  imports Parsed_Batch_Files
begin

text \<open>
  From a consistent batch to an accepted segment: the tables a build makes are ones its own loader takes
  (\<open>built_tables_valid\<close>), so a build without faults publishes (\<open>build_completes\<close>), and what is loaded from
  them is the inverted index of the archived bytes (\<open>build_index_correct\<close>).
\<close>

section \<open>Instants fit the file format\<close>

lemma digits_val_bound: "digits_val s + 23 \<le> 23 * 10 ^ length s"
proof (induction s rule: rev_induct)
  case (snoc c s)
  have "digit_val c \<le> 207" using byte_less_256 [of c] unfolding digit_val_def by linarith
  with snoc show ?case by simp
qed simp

lemma field_bound: "0 \<le> field s i n \<and> field s i n \<le> 23 * 10 ^ n"
proof -
  have "digits_val (take n (drop i s)) \<le> 23 * 10 ^ length (take n (drop i s))"
    using digits_val_bound [of "take n (drop i s)"] by linarith
  also have "\<dots> \<le> 23 * 10 ^ n" by (intro mult_le_mono2 power_increasing) simp_all
  finally have "int (digits_val (take n (drop i s))) \<le> int (23 * 10 ^ n)" by (simp only: of_nat_le_iff)
  then show ?thesis by (simp add: field_def)
qed

lemma timegm_bound:
  assumes "valid_tm t" and "- 1900 \<le> tm_year t" and "tm_year t \<le> 300000"
  shows "\<bar>timegm t\<bar> \<le> 10 ^ 13"
proof -
  define y m where "y = tm_year t + 1900" and "m = nat (tm_mon t)"
  have m: "tm_mon t div 12 = 0" "tm_mon t mod 12 = tm_mon t" "m < 12" using assms(1) by (auto simp: valid_tm_def m_def)
  have days: "\<forall>l\<in>set (month_lengths y). 0 \<le> l \<and> l \<le> 31" by (auto simp: month_lengths_def)
  have "0 \<le> sum_list (take m (month_lengths y))" by (rule sum_list_nonneg) (use days in \<open>auto dest: in_set_takeD\<close>)
  moreover have "sum_list (take m (month_lengths y)) \<le> 31 * int (length (take m (month_lengths y)))"
  proof -
    have sum: "sum_list xs \<le> 31 * int (length xs)" if "\<forall>l\<in>set xs. l \<le> 31" for xs :: "int list"
      using that by (induction xs) auto
    show ?thesis by (rule sum) (use days in \<open>auto dest: in_set_takeD\<close>)
  qed
  moreover have "int (length (take m (month_lengths y))) \<le> 12" using m(3) by simp
  moreover have "tm_mday t \<le> 31"
  proof -
    have "month_lengths y ! m \<in> set (month_lengths y)" using m(3) by (intro nth_mem) (simp add: month_lengths_def)
    then show ?thesis using days assms(1) by (auto simp: valid_tm_def y_def m_def)
  qed
  moreover have "- 1000 \<le> days_before_year y" "days_before_year y \<le> 112000000"
  proof -
    define z where "z = y - 1"
    have "z div k * k \<le> z" "z < z div k * k + k" if "0 < k" for k
      using div_mult_mod_eq [of z k] pos_mod_bound [OF that, of z] pos_mod_sign [OF that, of z] by linarith+
    from this [of 4] this [of 100] this [of 400]
    have "z div 4 * 4 \<le> z" "z < z div 4 * 4 + 4" "z div 100 * 100 \<le> z" "z < z div 100 * 100 + 100"
      "z div 400 * 400 \<le> z" "z < z div 400 * 400 + 400" by simp_all
    moreover have "- 1 \<le> z" "z \<le> 301899" using assms(2,3) by (simp_all add: z_def y_def)
    ultimately show "- 1000 \<le> days_before_year y" "days_before_year y \<le> 112000000"
      unfolding days_before_year_def z_def [symmetric] by linarith+
  qed
  moreover have "timegm t = (days_before_year y + sum_list (take m (month_lengths y)) + tm_mday t - 1 - epoch_day) * 86400
      + tm_hour t * 3600 + tm_min t * 60 + tm_sec t"
    by (simp add: timegm_def Let_def m(1,2) flip: y_def m_def)
  ultimately show ?thesis using assms(1) by (auto simp: valid_tm_def epoch_day_val)
qed

lemma parsed_instant_range:
  assumes "parse_iso8601_milliseconds s = Some ms"
  shows "int64_range ms"
proof -
  obtain off where t: "valid_tm (parsed_tm s)" "\<bar>off\<bar> \<le> 14 * 3600" "ms = (timegm (parsed_tm s) - off) * 1000 + field s 20 3"
    using assms by (auto simp: parse_iso8601_iff)
  have "0 \<le> field s 0 4" "field s 0 4 \<le> 230000" using field_bound [of s 0 4] by simp_all
  then have "\<bar>timegm (parsed_tm s)\<bar> \<le> 10 ^ 13" by (intro timegm_bound [OF t(1)]) (simp_all add: parsed_tm_def)
  then have "timegm (parsed_tm s) \<le> 10000000000000" "- 10000000000000 \<le> timegm (parsed_tm s)" by simp_all
  moreover have "off \<le> 50400" "- 50400 \<le> off" using t(2) by simp_all
  moreover have "field s 20 3 \<le> 23000" "0 \<le> field s 20 3" using field_bound [of s 20 3] by simp_all
  moreover have "ms = timegm (parsed_tm s) * 1000 - off * 1000 + field s 20 3" using t(3) by (simp add: left_diff_distrib)
  ultimately have "- 9223372036854775808 \<le> ms" "ms < 9223372036854775808" by linarith+
  then show ?thesis by (simp add: int64_range_def)
qed

section \<open>Postings and dictionary\<close>

lemma term_fine_append:
  assumes "term_fine ps s t"
  shows "term_fine (ps @ qs) s t"
proof -
  have fits: "unat (te_posting_begin t) + unat (te_posting_count t) \<le> length ps"
    using assms by (auto simp: term_fine_def term_invalid_def not_le not_less)
  then have "take (unat (te_posting_count t)) (drop (unat (te_posting_begin t)) (ps @ qs)) =
      take (unat (te_posting_count t)) (drop (unat (te_posting_begin t)) ps)" by simp
  with assms fits show ?thesis
    by (auto simp: term_fine_def term_invalid_def postings_increasing_sorted)
qed

lemma terms_ok_append: "terms_ok ps ts \<Longrightarrow> terms_ok (ps @ qs) ts"
  by (simp add: terms_ok_def term_fine_append)

lemma previous_term: "ts_previous (terms_state_of ts) = (if ts = [] then [] else te_term (last ts))"
  by (cases ts rule: rev_cases) (simp_all add: terms_init_def terms_push_def)

text \<open>An entry of the index the dictionary can take.\<close>

definition entry_fine :: "string \<times> (u32 \<times> u32) list \<Rightarrow> bool" where
  "entry_fine e \<longleftrightarrow> fst e \<noteq> [] \<and> short_string (fst e) \<and> snd e \<noteq> [] \<and> sorted_wrt (<) (map fst (snd e))"

lemma flatten_terms_complete:
  "flatten_index ix ps0 ts0 = Inr (ps, ts) \<Longrightarrow> terms_complete ps0 ts0 \<Longrightarrow> ordered ix \<Longrightarrow>
     (\<forall>e\<in>set ix. entry_fine e \<and> (ts0 = [] \<or> te_term (last ts0) < fst e)) \<Longrightarrow> length ps < 2 ^ 64 \<Longrightarrow>
     terms_complete ps ts"
proof (induction ix arbitrary: ps0 ts0)
  case (Cons e ix)
  obtain t locals where e: "e = (t, locals)" by (cases e)
  let ?ps = "ps0 @ entry_postings e"
  let ?t = "\<lparr>te_term = t, te_document_frequency = word_of_nat (length locals),
     te_posting_begin = word_of_nat (length ps0), te_posting_count = word_of_nat (length locals)\<rparr> :: term_record"
  from Cons.prems(1) e have small: "length locals < 2 ^ 32"
    and rest: "flatten_index ix ?ps (ts0 @ [?t]) = Inr (ps, ts)"
    by (auto simp: entry_postings_def split: if_splits)
  have len: "length (entry_postings e) = length locals" by (simp add: e entry_postings_def)
  have "length ?ps \<le> length ps" using flatten_index_result [OF rest] by auto
  then have fits: "length ps0 + length locals < 2 ^ 64" using Cons.prems(5) len by simp
  have n: "unat (word_of_nat (length locals) :: u32) = length locals" by (rule unat_small_u32 [OF small])
  have b: "unat (word_of_nat (length ps0) :: u64) = length ps0" using fits by (intro unat_small_u64) simp
  note fine = Cons.prems(4) [unfolded e entry_fine_def]
  have ok: "terms_ok ps0 ts0" and covered: "unat (ts_expected_begin (terms_state_of ts0)) = length ps0"
    using Cons.prems(2) by (simp_all add: terms_complete_def)
  have start: "ts_expected_begin (terms_state_of ts0) = word_of_nat (length ps0)"
    using covered b by (simp add: word_unat_eq_iff)
  have "sorted_wrt (<) (map po_local_id (take (length locals) (drop (length ps0) ?ps)))"
    using fine by (simp add: len [symmetric]) (simp add: e entry_postings_def comp_def case_prod_unfold)
  then have "term_fine ?ps (terms_state_of ts0) ?t"
    using fine n b start small
    by (auto simp: term_fine_def term_encodable_def term_invalid_def previous_term len postings_increasing_sorted
        word_of_nat_eq_0_iff not_le dest: nat_dvd_not_less)
  moreover have "unat (ts_expected_begin (terms_state_of (ts0 @ [?t]))) = length ?ps"
  proof -
    have "unat (ucast (word_of_nat (length locals) :: u32) :: u64) = length locals"
      using n fits by (simp add: unsigned_ucast_eq take_bit_nat_eq_self)
    then show ?thesis using fits b len by (simp add: terms_push_def start unat_word_ariths)
  qed
  ultimately have "terms_complete ?ps (ts0 @ [?t])"
    using terms_ok_append [OF ok] by (simp add: terms_complete_def terms_ok_snoc)
  moreover have "\<forall>d\<in>set ix. t < fst d" "ordered ix" using Cons.prems(3) e by (simp_all add: ordered_def)
  ultimately show ?case
    using Cons.IH [OF rest] Cons.prems(4,5) by auto
qed simp

section \<open>What serialization tells\<close>

lemma append_all_each:
  "append_all f xs out = Inr r \<Longrightarrow> x \<in> set xs \<Longrightarrow> \<exists>a b. f a x = Inr b"
  by (induction xs arbitrary: out) (auto simp: sbind_def split: sum.splits)

lemma serialize_terms_short:
  assumes "serialize_terms ts = Inr c" and "t \<in> set ts"
  shows "short_string (te_term t)"
proof -
  obtain a b where "append_term a t = Inr b"
    using append_all_each assms unfolding serialize_terms_def by metis
  then show ?thesis by (auto simp: append_term_def append_string_bytes sbind_def split: if_splits)
qed

text \<open>The strings of a document record.\<close>

definition document_strings :: "document_record \<Rightarrow> string list" where
  "document_strings d = [dr_line_id d, dr_station_id d, dr_device_id d, dr_collector_id d, dr_work_order d, dr_product_sn d,
     dr_source_type d, dr_level d, dr_module_name d, dr_error_code d, dr_event_name d]"

lemma serialize_documents_short:
  assumes "serialize_documents ds = Inr c" and "d \<in> set ds"
  shows "list_all short_string (document_strings d)"
proof -
  obtain a b where "append_document a d = Inr b"
    using append_all_each assms unfolding serialize_documents_def by metis
  then show ?thesis
    by (simp add: append_document_def append_string_bytes sbind_def Let_def document_strings_def split: if_splits)
qed

section \<open>The tables of a build are valid\<close>

lemma consistent_ids:
  assumes "batch_consistent batch"
  shows "\<forall>i<length (bt_documents batch). ad_local_id (bt_documents batch ! i) = word_of_nat i"
    and "length (bt_documents batch) \<le> 2 ^ 32"
proof -
  show small: "length (bt_documents batch) \<le> 2 ^ 32" using assms by (simp add: batch_consistent_def)
  show "\<forall>i<length (bt_documents batch). ad_local_id (bt_documents batch ! i) = word_of_nat i"
    using assms small by (auto simp: batch_consistent_def word_unat_eq_iff unat_small_u32)
qed

lemma consistent_files_ok:
  assumes "batch_consistent batch"
  shows "files_ok (map (\<lambda>f. segment_file (af_archive f)) (bt_files batch))"
proof -
  have "file_fine (segment_file (af_archive f))" if "f \<in> set (bt_files batch)" for f
  proof -
    have "\<not> archive_invalid f" using assms that by (simp add: batch_consistent_def file_consistent_def)
    then show ?thesis
      by (auto simp: file_fine_def segment_file_def file_encodable_def archive_invalid_def Let_def short_string_def k_string_limit_def)
  qed
  moreover have "distinct (map (\<lambda>f. ar_archive_id (af_archive f)) (bt_files batch))"
    using assms by (simp add: batch_consistent_def)
  ultimately show ?thesis by (simp add: files_ok_def list_all_iff segment_file_def comp_def)
qed

lemma files_fit:
  assumes "serialize_tables tb = Inr c" and "sizes_ok c" and "files_ok (sg_files tb)"
  shows "length (sg_files tb) \<le> 2 ^ 31"
proof -
  have "sc_files c = header_bytes k_files_magic (word_of_nat (length (sg_files tb))) @ concat (map file_bytes (sg_files tb))"
    using assms(1) serialize_files_bytes [OF assms(3)]
    by (auto simp: serialize_tables_def sbind_def codec_Inr split: sum.splits)
  moreover have "length fs \<le> length (concat (map file_bytes fs))" for fs
    by (induction fs) (simp_all add: file_bytes_def append_uint64_bytes length_le_bytes)
  ultimately show ?thesis using assms(2) by (simp add: sizes_ok_def k_binary_limit_def)
    (meson le_add2 le_trans)
qed

lemma postings_fit:
  assumes "serialize_tables tb = Inr c" and "sizes_ok c"
  shows "length (sg_postings tb) \<le> 2 ^ 31"
proof -
  have "sc_postings c = serialize_postings (sg_postings tb)"
    using assms(1) by (auto simp: serialize_tables_def sbind_def split: sum.splits)
  moreover have "length ps \<le> length (concat (map posting_bytes ps))" for ps
    by (induction ps) (simp_all add: posting_bytes_def append_uint32_bytes length_le_bytes)
  ultimately show ?thesis using assms(2) by (simp add: sizes_ok_def k_binary_limit_def serialize_postings_bytes)
    (meson le_add2 le_trans)
qed

text \<open>An entry of the index.\<close>

lemma inverts_entry:
  assumes "inverts toks ix" and "e \<in> set ix"
  shows "snd e = occurrences toks (fst e)" and "snd e \<noteq> []"
proof -
  have "ordered ix" using assms(1) by (simp add: inverts_def)
  then have "map_of ix (fst e) = Some (snd e)" using assms(2) by (simp add: map_of_ordered_Some)
  then show "snd e = occurrences toks (fst e)" "snd e \<noteq> []"
    using assms(1) by (auto simp: inverts_def split: if_splits)
qed

lemma flattened_posting:
  assumes "p \<in> set (concat (map entry_postings ix))"
  obtains e l f where "e \<in> set ix" "(l, f) \<in> set (snd e)" "p = \<lparr>po_local_id = l, po_term_frequency = f\<rparr>"
proof -
  obtain e where "e \<in> set ix" "p \<in> set (entry_postings e)" using assms by auto
  moreover then obtain l f where "(l, f) \<in> set (snd e)" "p = \<lparr>po_local_id = l, po_term_frequency = f\<rparr>"
    by (auto simp: entry_postings_def)
  ultimately show thesis by (intro that)
qed

lemma occurrences_sorted:
  assumes "length toks \<le> 2 ^ 32"
  shows "sorted_wrt (<) (map fst (occurrences toks t))"
proof -
  have "sorted_wrt (<) (filter (\<lambda>i. t \<in> set (toks ! i)) [0..<length toks])" by (simp add: sorted_wrt_filter)
  then have "sorted_wrt (\<lambda>i j. (word_of_nat i :: u32) < word_of_nat j) (filter (\<lambda>i. t \<in> set (toks ! i)) [0..<length toks])"
    using assms by (elim sorted_wrt_mono_rel [rotated]) (auto simp: word_less_nat_alt unat_small_u32)
  then show ?thesis by (simp add: occurrences_def sorted_wrt_map)
qed

lemma occurrences_entry:
  assumes "(l, f) \<in> set (occurrences toks t)" and "length toks \<le> 2 ^ 32" and "\<forall>ts\<in>set toks. length ts < 2 ^ 32"
  shows "unat l < length toks \<and> f \<noteq> 0 \<and> (\<exists>ts\<in>set toks. t \<in> set ts)"
proof -
  obtain i where i: "i < length toks" "t \<in> set (toks ! i)" "l = word_of_nat i" "f = word_of_nat (count_list (toks ! i) t)"
    using assms(1) by (auto simp: occurrences_def)
  have mem: "toks ! i \<in> set toks" using i(1) by (rule nth_mem)
  have "count_list (toks ! i) t < 2 ^ 32" by (rule le_less_trans [OF count_list_length bspec [OF assms(3) mem]])
  then have "unat f = count_list (toks ! i) t" unfolding i(4) by (rule unat_small_u32)
  moreover have "count_list (toks ! i) t \<noteq> 0" using i(2) by (simp add: count_list_0_iff)
  ultimately have "unat f \<noteq> 0" by simp
  then have "f \<noteq> 0" by auto
  moreover have "unat l = i" unfolding i(3) using i(1) assms(2) by (intro unat_small_u32) simp
  ultimately show ?thesis using i(1,2) mem by auto
qed

lemma built_document_ok:
  assumes d: "doc_built ax b files ords p d toks" and ords: "\<And>a i. ords a = Some i \<Longrightarrow> unat i < length files \<and> fr_archive_id (files ! unat i) = a"
    and fields: "\<not> document_fields_invalid (ad_document p)" and lid: "unat (ad_local_id p) = i"
    and short: "list_all short_string (document_strings d)"
  shows "document_encodable d \<and> \<not> document_invalid b files i d"
proof -
  let ?p = "ad_document p"
  obtain ord raw occ arch where o: "ords (pd_archive_id ?p) = Some ord"
    "archived_record ax (files ! unat ord) (pd_byte_offset ?p) (pd_byte_length ?p) raw"
    "parse_iso8601_milliseconds (pd_occurred_at ?p) = Some occ" "parse_iso8601_milliseconds (pd_archived_at ?p) = Some arch"
    "d = segment_document b ord p occ arch (word_of_nat (length toks))"
    using d unfolding doc_built_def by blast
  obtain content where "open_verified (ax_posix ax) (ax_root ax) (files ! unat ord) = Inr content"
    "unat (pd_byte_offset ?p) + unat (pd_byte_length ?p) \<le> length content"
    using o(2) by (auto simp: archived_record_def)
  then have range: "pd_byte_offset ?p \<le> fr_file_size (files ! unat ord)"
    "pd_byte_length ?p \<le> fr_file_size (files ! unat ord) - pd_byte_offset ?p"
    using range_valid_unat open_verified_length by auto
  have "document_encodable d"
    using short parsed_instant_range [OF o(3)] parsed_instant_range [OF o(4)]
    by (simp add: document_encodable_def document_strings_def o(5) segment_document_def Let_def)
  moreover have "\<not> document_invalid b files i d"
    using range ords [OF o(1)] fields lid
    by (auto simp: document_invalid_def o(5) segment_document_def Let_def document_fields_invalid_def not_le not_less)
  ultimately show ?thesis by simp
qed

lemma built_tables_valid:
  assumes batch: "batch_consistent batch" and build: "build_tables ax batch = Inr tb"
    and c: "serialize_tables tb = Inr c" and sizes: "sizes_ok c"
  shows "tables_valid (bd_batch_id (bt_descriptor batch)) tb"
proof -
  note ids = consistent_ids [OF batch]
  from build_tables_built [OF build ids] obtain ords ix toks where
    files: "build_files ax (bt_files batch) [] Map.empty = Inr (sg_files tb, ords)"
    and flat: "flatten_index ix [] [] = Inr (sg_postings tb, sg_terms tb)" and ix: "inverts toks ix"
    and len: "length (sg_documents tb) = length (bt_documents batch)" "length toks = length (bt_documents batch)"
    and docs: "\<And>i. i < length (bt_documents batch) \<Longrightarrow> doc_built ax (bd_batch_id (bt_descriptor batch)) (sg_files tb) ords
       (bt_documents batch ! i) (sg_documents tb ! i) (toks ! i)"
    and total: "sg_total_terms tb = sum_list (map length toks)" by blast
  have eq: "sg_files tb = map (\<lambda>f. segment_file (af_archive f)) (bt_files batch)"
    using build_files_result [OF files] by simp
  have ok: "files_ok (sg_files tb)" unfolding eq by (rule consistent_files_ok [OF batch])
  have fits: "length (sg_files tb) \<le> 2 ^ 31" "length (sg_postings tb) \<le> 2 ^ 31"
    using files_fit [OF c sizes ok] postings_fit [OF c sizes] by simp_all
  have ords: "unat i < length (sg_files tb) \<and> fr_archive_id (sg_files tb ! unat i) = a" if "ords a = Some i" for a i
    using build_tables_file [OF files _ that] fits(1) by (simp add: eq)
  have sc: "serialize_documents (sg_documents tb) = Inr (sc_documents c)" "serialize_terms (sg_terms tb) = Inr (sc_terms c)"
    using c by (auto simp: serialize_tables_def sbind_def codec_Inr split: sum.splits)
  have documents: "documents_ok (bd_batch_id (bt_descriptor batch)) (sg_files tb) (sg_documents tb)"
    unfolding documents_ok_def len(1)
  proof (intro allI impI)
    fix i assume i: "i < length (bt_documents batch)"
    show "document_encodable (sg_documents tb ! i) \<and>
        \<not> document_invalid (bd_batch_id (bt_descriptor batch)) (sg_files tb) i (sg_documents tb ! i)"
      by (rule built_document_ok [OF docs [OF i] ords])
        (use batch i len(1) serialize_documents_short [OF sc(1)] in
          \<open>auto simp: batch_consistent_def document_consistent_def\<close>)
  qed
  have toks: "length ts < 2 ^ 32 \<and> (\<forall>t\<in>set ts. t \<noteq> [])" if "ts \<in> set toks" for ts
  proof -
    obtain i where "i < length (bt_documents batch)" "ts = toks ! i" using \<open>ts \<in> set toks\<close> len(2) by (auto simp: in_set_conv_nth)
    then obtain raw where "ts = tokenize_terms raw" "length ts < 2 ^ 32" using docs unfolding doc_built_def by metis
    then show ?thesis using tokenize_terms_normal(1) by blast
  qed
  have small: "length toks \<le> 2 ^ 32" using len(2) ids(2) by simp
  note flattened = flatten_index_result [OF flat, unfolded append_Nil]
  have entries: "entry_fine e" if e: "e \<in> set ix" for e
  proof -
    note occ = inverts_entry [OF ix e]
    have "fst e \<in> te_term ` set (sg_terms tb)" using flattened e by (metis image_set image_eqI)
    then have "short_string (fst e)" using serialize_terms_short [OF sc(2)] by auto
    moreover have "hd (snd e) \<in> set (occurrences toks (fst e))" using occ hd_in_set by metis
    then have "fst e \<noteq> []" using occurrences_entry [OF _ small, of "fst (hd (snd e))" "snd (hd (snd e))"] toks by force
    ultimately show ?thesis using occ occurrences_sorted [OF small] by (simp add: entry_fine_def)
  qed
  have "terms_complete [] []" by (simp add: terms_complete_def terms_ok_def terms_init_def)
  then have complete: "terms_complete (sg_postings tb) (sg_terms tb)"
    using ix entries fits(2) by (intro flatten_terms_complete [OF flat]) (simp_all add: inverts_def)
  have postings: "posting_fine (length (sg_documents tb)) p" if "p \<in> set (sg_postings tb)" for p
  proof -
    have "p \<in> set (concat (map entry_postings ix))" using that flattened by simp
    from flattened_posting [OF this] obtain e l f where e: "e \<in> set ix" "(l, f) \<in> set (snd e)"
      and p: "p = \<lparr>po_local_id = l, po_term_frequency = f\<rparr>" by blast
    then show ?thesis
      using occurrences_entry [OF _ small, of l f "fst e"] inverts_entry(1) [OF ix e(1)] toks len by (simp add: posting_fine_def)
  qed
  have parts: "sg_postings tb \<noteq> []" "bt_files batch \<noteq> []" "bt_documents batch \<noteq> []"
    using build_tables_parts [OF build] by metis+
  have positive: "0 < sg_total_terms tb"
  proof -
    have "hd (sg_postings tb) \<in> set (sg_postings tb)" using parts(1) by (rule hd_in_set)
    then have "hd (sg_postings tb) \<in> set (concat (map entry_postings ix))" using flattened by metis
    from flattened_posting [OF this] obtain e l f where e: "e \<in> set ix" "(l, f) \<in> set (snd e)" by blast
    obtain ts where "ts \<in> set toks" "fst e \<in> set ts"
      using occurrences_entry [OF _ small, of l f "fst e"] inverts_entry(1) [OF ix e(1)] e(2) toks by auto
    then have "0 < length ts" "length ts \<le> sum_list (map length toks)" by (auto intro: member_le_sum_list)
    then show ?thesis using total by linarith
  qed
  have terms: "length (sg_terms tb) \<le> length (sg_postings tb)"
  proof -
    have "length m \<le> length (concat (map entry_postings m))" if "\<forall>e\<in>set m. snd e \<noteq> []" for m
      using that by (induction m) (auto simp: entry_postings_def Suc_le_eq simp flip: length_greater_0_conv)
    then have "length ix \<le> length (sg_postings tb)" using flattened inverts_entry(2) [OF ix] by simp
    then show ?thesis using flattened by (metis length_map)
  qed
  show ?thesis
    using ok documents complete postings positive fits terms parts len(1) ids(2) eq
    by (auto simp: tables_valid_def list_all_iff simp flip: length_greater_0_conv)
qed

section \<open>What is loaded\<close>

lemma verified_content:
  assumes "verify_original_archive sha px base rs file = Inr ()" and "open_verified px base file = Inr content"
  shows "sha content = fr_file_sha256 file"
proof -
  have "read_loop content rs [] = Inr content \<or> read_loop content rs [] = Inl Cannot_read" using read_loop_correct [of "[]" content rs] by auto
  then show ?thesis using assms by (auto simp: verify_original_archive_def split: if_splits)
qed

text \<open>The bytes of a record in the archive a file of the segment names, whose digest the segment records.\<close>

definition archived_bytes :: "archive_access \<Rightarrow> file_record \<Rightarrow> u64 \<Rightarrow> u64 \<Rightarrow> string \<Rightarrow> bool" where
  "archived_bytes ax file off len raw \<longleftrightarrow> (\<exists>content. open_verified (ax_posix ax) (ax_root ax) file = Inr content \<and>
     ax_sha256 ax content = fr_file_sha256 file \<and> unat off + unat len \<le> length content \<and>
     raw = take (unat len) (drop (unat off) content))"

text \<open>
  C16: The segment a build writes is the inverted index of the archives. For a batch the reader of parsed batches
  returned, once the tables are built, the loader takes the bytes written for them, and every document of the loaded segment
  stands for its parsed document: its file is the one of the batch with the archive of that document, its
  bytes are those the parser recorded, they are read from that archive with the recorded digest, a term is found
  in it exactly when it is among the tokens of these bytes, and the frequency the ranking reads is the
  number of its occurrences there.
\<close>

theorem build_index_correct:
  assumes batch: "batch_consistent batch" and build: "build_tables ax batch = Inr tb"
    and c: "serialize_tables tb = Inr c" and sizes: "sizes_ok c"
  shows "\<exists>seg. load_tables (built_manifest en (bt_descriptor batch) tb c) sha (contents_list c) = Inr seg \<and>
    length (ls_documents seg) = length (bt_documents batch) \<and>
    (\<forall>i<length (bt_documents batch). \<exists>f\<in>set (bt_files batch). \<exists>raw.
       let p = ad_document (bt_documents batch ! i); d = ls_documents seg ! i;
         file = ls_files seg ! unat (dr_file_ordinal d) in
       file = segment_file (af_archive f) \<and> ar_archive_id (af_archive f) = pd_archive_id p \<and>
       dr_byte_offset d = pd_byte_offset p \<and> dr_byte_length d = pd_byte_length p \<and>
       archived_bytes ax file (dr_byte_offset d) (dr_byte_length d) raw \<and>
       (\<forall>t. (has_term seg t d \<longleftrightarrow> t \<in> set (tokenize_terms raw)) \<and>
          document_tf seg t d = word_of_nat (count_list (tokenize_terms raw) t)))"
proof -
  let ?seg = "built_segment en (bt_descriptor batch) tb c sha"
  note valid = built_tables_valid [OF batch build c sizes] and ids = consistent_ids [OF batch]
  have load: "load_tables (built_manifest en (bt_descriptor batch) tb c) sha (contents_list c) = Inr ?seg"
    by (rule load_built_tables [OF valid c build_tables_statistics(1) [OF build]])
  have seg: "ls_files ?seg = sg_files tb" "ls_documents ?seg = sg_documents tb" "ls_postings ?seg = sg_postings tb"
    "ls_terms ?seg = sg_terms tb" "ls_term_lookup ?seg = ts_lookup (terms_state_of (sg_terms tb))"
    by (simp_all add: built_segment_def Let_def)
  have "terms_complete (sg_postings tb) (sg_terms tb)"
    using valid by (simp add: tables_valid_def)
  then have wf: "dictionary_wf (ls_postings ?seg) (ls_terms ?seg) (ls_term_lookup ?seg)"
    unfolding seg by (rule terms_complete_wf)
  obtain ords ix toks where
    files: "build_files ax (bt_files batch) [] Map.empty = Inr (sg_files tb, ords)"
    and flat: "flatten_index ix [] [] = Inr (sg_postings tb, sg_terms tb)" and ix: "inverts toks ix"
    and len: "length (sg_documents tb) = length (bt_documents batch)" "length toks = length (bt_documents batch)"
    and docs: "\<forall>i<length (bt_documents batch). doc_built ax (bd_batch_id (bt_descriptor batch)) (sg_files tb) ords
       (bt_documents batch ! i) (sg_documents tb ! i) (toks ! i)"
    and "sg_total_terms tb = sum_list (map length toks)"
    by (rule build_tables_built [OF build ids])
  have flat': "flatten_index ix [] [] = Inr (ls_postings ?seg, ls_terms ?seg)" unfolding seg by (rule flat)
  have few: "length (bt_files batch) \<le> 2 ^ 32"
    using files_fit [OF c sizes] valid build_files_result [OF files] by (simp add: tables_valid_def)
  have small: "length toks \<le> 2 ^ 32" using len(2) ids(2) by simp
  have one: "\<exists>f\<in>set (bt_files batch). \<exists>raw.
      let p = ad_document (bt_documents batch ! i); d = ls_documents ?seg ! i;
         file = ls_files ?seg ! unat (dr_file_ordinal d) in
       file = segment_file (af_archive f) \<and> ar_archive_id (af_archive f) = pd_archive_id p \<and>
       dr_byte_offset d = pd_byte_offset p \<and> dr_byte_length d = pd_byte_length p \<and>
       archived_bytes ax file (dr_byte_offset d) (dr_byte_length d) raw \<and>
       (\<forall>t. (has_term ?seg t d \<longleftrightarrow> t \<in> set (tokenize_terms raw)) \<and>
          document_tf ?seg t d = word_of_nat (count_list (tokenize_terms raw) t))"
    if i: "i < length (bt_documents batch)" for i
  proof -
    let ?p = "bt_documents batch ! i" and ?d = "sg_documents tb ! i"
    obtain ord raw occ arch where o: "ords (pd_archive_id (ad_document ?p)) = Some ord"
      "archived_record ax (sg_files tb ! unat ord) (pd_byte_offset (ad_document ?p)) (pd_byte_length (ad_document ?p)) raw"
      "toks ! i = tokenize_terms raw"
      "?d = segment_document (bd_batch_id (bt_descriptor batch)) ord ?p occ arch (word_of_nat (length (toks ! i)))"
      using docs i unfolding doc_built_def by blast
    note named = build_tables_file [OF files few o(1)]
    obtain f where f: "f \<in> set (bt_files batch)" "sg_files tb ! unat ord = segment_file (af_archive f)" using named(3) by blast
    obtain rs where "verify_original_archive (ax_sha256 ax) (ax_posix ax) (ax_root ax) rs (segment_file (af_archive f)) = Inr ()"
      using build_files_result [OF files] f(1) by blast
    then have "archived_bytes ax (segment_file (af_archive f)) (pd_byte_offset (ad_document ?p)) (pd_byte_length (ad_document ?p)) raw"
      using o(2) verified_content unfolding f(2) by (fastforce simp: archived_record_def archived_bytes_def raw_at_def)
    moreover have "dr_file_ordinal ?d = ord" "dr_byte_offset ?d = pd_byte_offset (ad_document ?p)"
      "dr_byte_length ?d = pd_byte_length (ad_document ?p)" "dr_local_id ?d = word_of_nat i"
      unfolding o(4) using ids(1) i by (simp_all add: segment_document_def Let_def)
    moreover have "ar_archive_id (af_archive f) = pd_archive_id (ad_document ?p)"
      using named(2) f(2) by (simp add: segment_file_def)
    moreover have "has_term ?seg t ?d \<longleftrightarrow> t \<in> set (tokenize_terms raw)"
      "document_tf ?seg t ?d = word_of_nat (count_list (tokenize_terms raw) t)" for t
      using built_terms [OF flat' ix wf small, of i ?d t] i len(2) o(3) \<open>dr_local_id ?d = word_of_nat i\<close> by simp_all
    ultimately show ?thesis
      using f by (intro bexI [OF _ f(1)] exI [of _ raw]) (simp add: seg)
  qed
  show ?thesis
  proof (intro exI conjI allI impI)
    show "load_tables (built_manifest en (bt_descriptor batch) tb c) sha (contents_list c) = Inr ?seg" by (rule load)
    show "length (ls_documents ?seg) = length (bt_documents batch)" using len(1) by (simp only: seg)
  qed (rule one)
qed

section \<open>A build without faults returns\<close>

text \<open>The instants of the documents, which the files and the manifest store, and the JSON library on one document.\<close>

definition batch_times_ok :: "parsed_batch_data \<Rightarrow> bool" where
  "batch_times_ok batch \<longleftrightarrow> list_all (\<lambda>p. case parse_iso8601_milliseconds (pd_occurred_at (ad_document p)) of
     None \<Rightarrow> False | Some t \<Rightarrow> instant_ok t) (bt_documents batch)"

definition reads_back :: "'j json_lib \<Rightarrow> 'j \<Rightarrow> bool" where
  "reads_back jl j \<longleftrightarrow> jl_parse jl (jl_dump_pretty jl j @ [CHR 0x0A]) = Some j"

lemma extreme_instants:
  assumes st: "statistics_ok ds n lo hi" and ds: "ds \<noteq> []" and ok: "\<forall>d\<in>set ds. instant_ok (dr_occurred_at_ms d)"
  shows "instant_ok lo" and "instant_ok hi" and "lo \<le> hi"
proof -
  let ?xs = "map dr_occurred_at_ms ds"
  obtain x where x: "x \<in> set ?xs" using ds by (cases ds) auto
  have range: "0 \<le> y \<and> y < last_instant * 1000" if "y \<in> set ?xs" for y
    using that ok by (auto simp: instant_ok_def)
  have "lo = Min (set ((2 ^ 63 - 1) # ?xs))" "hi = Max (set (- (2 ^ 63) # ?xs))"
    using st by (simp_all only: statistics_ok_def Min.set_eq_fold Max.set_eq_fold)
  then have lo: "lo \<in> set ((2 ^ 63 - 1) # ?xs)" "lo \<le> x" and hi: "hi \<in> set (- (2 ^ 63) # ?xs)" "x \<le> hi"
    using x Min_in [of "set ((2 ^ 63 - 1) # ?xs)"] Min_le [of "set ((2 ^ 63 - 1) # ?xs)" x]
      Max_in [of "set (- (2 ^ 63) # ?xs)"] Max_ge [of "set (- (2 ^ 63) # ?xs)" x] by simp_all
  have "lo \<noteq> 2 ^ 63 - 1" "hi \<noteq> - (2 ^ 63)" using lo(2) hi(2) range [OF x] by (auto simp: last_instant_val)
  then show "instant_ok lo" "instant_ok hi" using lo(1) hi(1) range unfolding instant_ok_def by auto
  show "lo \<le> hi" using lo(2) hi(2) by simp
qed

lemma built_instants:
  assumes batch: "batch_consistent batch" and build: "build_tables ax batch = Inr tb" and times: "batch_times_ok batch"
  shows "\<forall>d\<in>set (sg_documents tb). instant_ok (dr_occurred_at_ms d)"
proof
  fix d assume "d \<in> set (sg_documents tb)"
  then obtain i where i: "i < length (sg_documents tb)" "d = sg_documents tb ! i" by (auto simp: in_set_conv_nth)
  obtain ords ix toks where "build_files ax (bt_files batch) [] Map.empty = Inr (sg_files tb, ords)"
    "flatten_index ix [] [] = Inr (sg_postings tb, sg_terms tb)" "inverts toks ix"
    and len: "length (sg_documents tb) = length (bt_documents batch)" "length toks = length (bt_documents batch)"
    and docs: "\<forall>i<length (bt_documents batch). doc_built ax (bd_batch_id (bt_descriptor batch)) (sg_files tb) ords
       (bt_documents batch ! i) (sg_documents tb ! i) (toks ! i)"
    and "sg_total_terms tb = sum_list (map length toks)"
    by (rule build_tables_built [OF build consistent_ids [OF batch]])
  have i': "i < length (bt_documents batch)" using i(1) len(1) by simp
  then obtain ord occ arch n where "parse_iso8601_milliseconds (pd_occurred_at (ad_document (bt_documents batch ! i))) = Some occ"
    "d = segment_document (bd_batch_id (bt_descriptor batch)) ord (bt_documents batch ! i) occ arch n"
    using docs i(2) unfolding doc_built_def by blast
  moreover have "case parse_iso8601_milliseconds (pd_occurred_at (ad_document (bt_documents batch ! i))) of
      None \<Rightarrow> False | Some t \<Rightarrow> instant_ok t"
    using times i' by (simp add: batch_times_ok_def list_all_length)
  ultimately show "instant_ok (dr_occurred_at_ms d)" by (simp add: segment_document_def Let_def)
qed

lemma built_acceptable:
  assumes batch: "batch_consistent batch" and build: "build_tables ax batch = Inr tb"
    and c: "serialize_tables tb = Inr c" and sizes: "sizes_ok c"
    and first: "bd_first_archive_id (bt_descriptor batch) \<noteq> 0"
    and count: "word_of_nat (length (bt_files batch)) \<le> bd_source_file_count (bt_descriptor batch)"
    and times: "batch_times_ok batch" "instant_ok (en_now en)"
    and short: "length (manifest_text en (bt_descriptor batch) tb c) \<le> k_manifest_limit"
    and json: "reads_back (en_json en) (manifest_json en (bt_descriptor batch) tb c)"
  shows "build_acceptable en (bt_descriptor batch) tb c"
proof -
  note valid = built_tables_valid [OF batch build c sizes] and st = build_tables_statistics [OF build]
  have "sg_documents tb \<noteq> []" using valid by (simp add: tables_valid_def)
  note instants = extreme_instants [OF st(1) this built_instants [OF batch build times(1)]]
  obtain f where "f \<in> set (bt_files batch)" using batch by (cases "bt_files batch") (auto simp: batch_consistent_def)
  then have "bd_first_archive_id (bt_descriptor batch) \<le> bd_last_archive_id (bt_descriptor batch)"
    using batch by (auto simp: batch_consistent_def file_consistent_def intro: order_trans)
  moreover have "length (sg_files tb) = length (bt_files batch)"
    using build_tables_parts [OF build] build_files_result by (metis append_Nil length_map)
  ultimately have "descriptor_ok (bt_descriptor batch) tb" using first count st(4) by (simp add: descriptor_ok_def)
  then show ?thesis
    using valid sizes short json instants times(2) by (simp add: build_acceptable_def reads_back_def manifest_text_def)
qed

text \<open>
  C18: A build meets no obstacle of its own. For a batch the reader of parsed batches returned, with instants from
  1970 to 9999 and a descriptor whose first archive and file count the batch row has, once its tables are built and
  serialized within the size limits of the files, a build in which no call fails, started on any store whose
  directories can be made, returns: the validation of what was written finds nothing to refuse.
  The JSON library is assumed to read back the manifest it printed.
\<close>

theorem build_completes:
  assumes "json_laws (en_json en)" and "\<And>x. valid_sha256 (en_sha256 en x)"
    and "batch_consistent batch" and "build_tables ax batch = Inr tb" and "serialize_tables tb = Inr c" and "sizes_ok c"
    and "bd_first_archive_id (bt_descriptor batch) \<noteq> 0"
    and "word_of_nat (length (bt_files batch)) \<le> bd_source_file_count (bt_descriptor batch)"
    and "batch_times_ok batch" and "instant_ok (en_now en)"
    and "length (manifest_text en (bt_descriptor batch) tb c) \<le> k_manifest_limit"
    and "reads_back (en_json en) (manifest_json en (bt_descriptor batch) tb c)"
    and "st_events s = []" and "store_ready s (bd_batch_id (bt_descriptor batch))"
  shows "\<exists>r t. build en ax batch s = (Ret r, t)"
  by (rule build_quiet_lemma [OF assms(1,2,4,5) built_acceptable [OF assms(3-12)] assms(13,14)])

section \<open>The sample\<close>

lemma sample_batch_consistent: "batch_consistent sample_batch"
  by (simp add: batch_consistent_def file_consistent_def document_consistent_def documents_of_def sample_batch_def
      sample_archive_def archive_invalid_def document_fields_invalid_def document_inconsistent_def sample_times
      valid_sha256_def list_all_length is_lower_hex_def is_digit_def Let_def)

lemma sample_sizes: "sizes_ok sample_contents"
  using sample_acceptable by (simp add: build_acceptable_def)

theorem build_index_correct_witness:
  "\<exists>seg. load_tables (built_manifest sample_env (bt_descriptor sample_batch) sample_tables sample_contents) []
     (contents_list sample_contents) = Inr seg \<and> length (ls_documents seg) = 1 \<and>
     has_term seg ''x'' (ls_documents seg ! 0) \<and> document_tf seg ''x'' (ls_documents seg ! 0) = 1 \<and>
     \<not> has_term seg ''cdef'' (ls_documents seg ! 0)"
proof -
  have sample: "segment_file (af_archive f) = sample_file" if "f \<in> set (bt_files sample_batch)" for f
    using that by (simp add: sample_batch_def segment_file_def sample_archive_def sample_file_def)
  have bytes: "raw = '' x ''" if "archived_bytes sample_access sample_file 2 3 raw" for raw
    using that sample_open by (auto simp: archived_bytes_def sample_access_def)
  have p: "length (bt_documents sample_batch) = 1" "pd_byte_offset (ad_document (bt_documents sample_batch ! 0)) = 2"
    "pd_byte_length (ad_document (bt_documents sample_batch ! 0)) = 3" by (simp_all add: sample_batch_def)
  obtain seg where seg: "load_tables (built_manifest sample_env (bt_descriptor sample_batch) sample_tables sample_contents) []
      (contents_list sample_contents) = Inr seg" "length (ls_documents seg) = length (bt_documents sample_batch)"
    and docs: "\<forall>i<length (bt_documents sample_batch). \<exists>f\<in>set (bt_files sample_batch). \<exists>raw.
      let p = ad_document (bt_documents sample_batch ! i); d = ls_documents seg ! i;
         file = ls_files seg ! unat (dr_file_ordinal d) in
      file = segment_file (af_archive f) \<and> ar_archive_id (af_archive f) = pd_archive_id p \<and>
      dr_byte_offset d = pd_byte_offset p \<and> dr_byte_length d = pd_byte_length p \<and>
      archived_bytes sample_access file (dr_byte_offset d) (dr_byte_length d) raw \<and>
      (\<forall>t. (has_term seg t d \<longleftrightarrow> t \<in> set (tokenize_terms raw)) \<and>
         document_tf seg t d = word_of_nat (count_list (tokenize_terms raw) t))"
    using build_index_correct [OF sample_batch_consistent sample_build sample_serialize sample_sizes, of sample_env "[]"] by blast
  then obtain f raw where f: "f \<in> set (bt_files sample_batch)"
    and named: "ls_files seg ! unat (dr_file_ordinal (ls_documents seg ! 0)) = segment_file (af_archive f)"
    and offs: "dr_byte_offset (ls_documents seg ! 0) = 2" "dr_byte_length (ls_documents seg ! 0) = 3"
    and raw: "archived_bytes sample_access (ls_files seg ! unat (dr_file_ordinal (ls_documents seg ! 0)))
      (dr_byte_offset (ls_documents seg ! 0)) (dr_byte_length (ls_documents seg ! 0)) raw"
    and terms: "\<forall>t. (has_term seg t (ls_documents seg ! 0) \<longleftrightarrow> t \<in> set (tokenize_terms raw)) \<and>
      document_tf seg t (ls_documents seg ! 0) = word_of_nat (count_list (tokenize_terms raw) t)"
    unfolding Let_def p(1) by (metis p(2,3) less_one)
  have "raw = '' x ''" using raw unfolding named sample [OF f] offs by (rule bytes)
  then have "\<forall>t. (has_term seg t (ls_documents seg ! 0) \<longleftrightarrow> t = ''x'') \<and>
      document_tf seg t (ls_documents seg ! 0) = word_of_nat (count_list [''x''] t)"
    using terms by (simp add: sample_times)
  with seg p(1) show ?thesis by (intro exI [of _ seg]) simp
qed

theorem build_completes_witness:
  "\<exists>r t. build sample_env sample_access sample_batch sample_store = (Ret r, t)"
proof -
  have "bd_first_archive_id (bt_descriptor sample_batch) \<noteq> 0"
    "word_of_nat (length (bt_files sample_batch)) \<le> bd_source_file_count (bt_descriptor sample_batch)"
    "batch_times_ok sample_batch" "instant_ok (en_now sample_env)"
    by (simp_all add: batch_times_ok_def instant_ok_def last_instant_val sample_batch_def sample_times sample_env_def sample_env_of_def)
  moreover have "length (manifest_text sample_env (bt_descriptor sample_batch) sample_tables sample_contents) \<le> k_manifest_limit"
    using sample_acceptable by (simp add: build_acceptable_def)
  moreover have "reads_back (en_json sample_env) (manifest_json sample_env (bt_descriptor sample_batch) sample_tables sample_contents)"
    using sample_acceptable by (simp add: build_acceptable_def reads_back_def manifest_text_def)
  moreover have "st_events sample_store = []" "store_ready sample_store (bd_batch_id (bt_descriptor sample_batch))"
    using sample_ready by (simp_all add: sample_store_def sample_batch_id)
  ultimately show ?thesis
    by (intro build_completes [OF sample_env_facts(1,2) sample_batch_consistent sample_build sample_serialize sample_sizes])
qed

end
