(* ===== verification/Index_State.thy ===== *)
theory Index_State
  imports Parsed_Batch
begin

text \<open>
  The index state (\<open>indexing/index_state_repository.cpp\<close>): the tables of the migrations and every
  statement of the repository as a function on them. The tables are part of the world of the file
  operations, so both kinds of effect are ordered in one sequence. A statement takes its outcome from
  the pending events: it may fail, take effect and have its acknowledgement lost, or never return.
  \<open>BINARY(32)\<close> digests are kept in the hexadecimal form in which they are written and read, and
  timestamp columns by whether they are set.
\<close>

datatype batch_phase = Parsing | Parsed | Building | Ready | Failed
datatype archive_phase = Pending | Archive_parsed | Indexed | Archive_failed

record batch_row =
  ib_batch_id :: u64
  ib_first_archive_id :: u64
  ib_last_archive_id :: u64
  ib_state :: batch_phase
  ib_segment_name :: "string option"
  ib_source_file_count :: u32
  ib_document_count :: u64
  ib_segment_sha256 :: "string option"
  ib_parsed_path :: "string option"
  ib_parsed_sha256 :: "string option"
  ib_failure_code :: "string option"
  ib_published :: bool

record archive_row =
  ia_archive_id :: u64
  ia_batch_id :: "u64 option"
  ia_profile :: "parser_profile option"
  ia_state :: archive_phase
  ia_document_count :: u64
  ia_failure_code :: "string option"
  ia_failure_line :: "u64 option"
  ia_indexed :: bool

record profile_row =
  ip_device_id :: string
  ip_file_type :: string
  ip_profile_name :: string
  ip_enabled :: bool

text \<open>The row of the archive table of DataStream, with its nullable columns.\<close>

record source_row =
  is_archive_id :: u64
  is_line_id :: string
  is_station_id :: string
  is_device_id :: string
  is_collector_id :: string
  is_work_order :: "string option"
  is_product_sn :: "string option"
  is_file_type :: string
  is_original_filename :: string
  is_relative_path :: string
  is_file_size :: u64
  is_file_sha256 :: string
  is_produced_at :: string
  is_archived_at :: string

record index_state = store_state +
  ix_batches :: "batch_row list"
  ix_archives :: "archive_row list"
  ix_profiles :: "profile_row list"
  ix_next_batch :: u64
  ix_source :: "source_row list"
  ix_locked :: bool
  ix_snapshot :: index_snapshot

datatype rebuild_status = Queued | Not_found | Unavailable

section \<open>Statements\<close>

text \<open>
  A statement is a function on the tables; \<open>None\<close> is an error packet (a violated constraint). The
  boolean says whether it changed a row.
\<close>

type_synonym 's statement = "'s \<Rightarrow> ('s \<times> bool) option"

definition run_statement :: "'s statement \<Rightarrow> ('s, 'e, bool \<times> bool) proc" where
  "run_statement f s = (case f s of None \<Rightarrow> (Ret (False, False), s) | Some (t, changed) \<Rightarrow> (Ret (True, changed), t))"

definition execute :: "'a store_state_scheme statement \<Rightarrow> ('a store_state_scheme, 'e, bool \<times> bool) proc" where
  "execute f = bind next_event (\<lambda>e. case e of
       Io_fail \<Rightarrow> ret (False, False)
     | Io_intr \<Rightarrow> ret (False, False)
     | Io_lost \<Rightarrow> seq (run_statement f) (ret (False, False))
     | Io_crash \<Rightarrow> crash
     | _ \<Rightarrow> run_statement f)"

definition execute_update :: "'a store_state_scheme statement \<Rightarrow> ('a store_state_scheme, 'e, bool) proc" where
  "execute_update f = bind (execute f) (\<lambda>(ok, changed). ret ok)"

definition execute_changed_update :: "'a store_state_scheme statement \<Rightarrow> ('a store_state_scheme, 'e, bool) proc" where
  "execute_changed_update f = bind (execute f) (\<lambda>(ok, changed). ret (ok \<and> changed))"

text \<open>A query delivers its rows, each through the row's conversion; one bad row fails the query.\<close>

definition query :: "('a store_state_scheme \<Rightarrow> 'r list) \<Rightarrow> ('r \<Rightarrow> 'x option) \<Rightarrow> ('a store_state_scheme, 'e, 'x list option) proc" where
  "query rows convert = bind next_event (\<lambda>e. case e of
       Io_fail \<Rightarrow> ret None
     | Io_intr \<Rightarrow> ret None
     | Io_lost \<Rightarrow> ret None
     | Io_crash \<Rightarrow> crash
     | _ \<Rightarrow> gets (\<lambda>s. those (map convert (rows s))))"

definition update_batches :: "(batch_row \<Rightarrow> bool) \<Rightarrow> (batch_row \<Rightarrow> batch_row) \<Rightarrow> 'b index_state_scheme statement" where
  "update_batches matches f s =
     Some (s\<lparr>ix_batches := map (\<lambda>r. if matches r then f r else r) (ix_batches s)\<rparr>, list_ex matches (ix_batches s))"

definition update_archives :: "(archive_row \<Rightarrow> bool) \<Rightarrow> (archive_row \<Rightarrow> archive_row) \<Rightarrow> 'b index_state_scheme statement" where
  "update_archives matches f s =
     Some (s\<lparr>ix_archives := map (\<lambda>r. if matches r then f r else r) (ix_archives s)\<rparr>, list_ex matches (ix_archives s))"

text \<open>\<open>uk_index_batch_segment\<close>: the segment name is unique.\<close>

definition name_free :: "string \<Rightarrow> u64 \<Rightarrow> 'b index_state_scheme \<Rightarrow> bool" where
  "name_free name batch_id s \<longleftrightarrow>
     \<not> list_ex (\<lambda>r. ib_batch_id r \<noteq> batch_id \<and> ib_segment_name r = Some name) (ix_batches s)"

section \<open>The repository\<close>

definition parser_profile_key :: "string \<Rightarrow> string \<Rightarrow> string" where
  "parser_profile_key device_id file_type = device_id @ [LF] @ file_type"

definition load_profiles :: "('b index_state_scheme, 'e, (string \<rightharpoonup> parser_profile) option) proc" where
  "load_profiles = bind (query (\<lambda>s. filter ip_enabled (ix_profiles s)) Some) (\<lambda>rows.
     ret (map_option (\<lambda>rs. foldl (\<lambda>m r. m(parser_profile_key (ip_device_id r) (ip_file_type r) \<mapsto>
       \<lparr>pp_name = ip_profile_name r, pp_version = 1\<rparr>)) Map.empty rs) rows))"

definition list_pending_archive_ids :: "nat \<Rightarrow> ('b index_state_scheme, 'e, u64 list option) proc" where
  "list_pending_archive_ids limit =
     query (\<lambda>s. take limit (sort (map ia_archive_id (filter (\<lambda>r. ia_state r = Pending) (ix_archives s))))) Some"

definition max_observed_archive_id :: "('b index_state_scheme, 'e, u64 option) proc" where
  "max_observed_archive_id = bind (query (\<lambda>s. [fold max (map ia_archive_id (ix_archives s)) 0]) Some) (\<lambda>rows.
     ret (map_option hd rows))"

text \<open>\<open>chk_index_batch_range\<close>, and the end of the \<open>AUTO_INCREMENT\<close> range.\<close>

definition create_batch :: "u64 \<Rightarrow> u64 \<Rightarrow> nat \<Rightarrow> ('b index_state_scheme, 'e, u64 option) proc" where
  "create_batch first_archive_id last_archive_id source_file_count =
     bind (gets ix_next_batch) (\<lambda>batch_id.
     bind (execute (\<lambda>s.
       if first_archive_id = 0 \<or> last_archive_id < first_archive_id \<or> batch_id = - 1 then None
       else Some (s\<lparr>ix_next_batch := batch_id + 1, ix_batches := ix_batches s @ [\<lparr>ib_batch_id = batch_id,
           ib_first_archive_id = first_archive_id, ib_last_archive_id = last_archive_id, ib_state = Parsing,
           ib_segment_name = None, ib_source_file_count = word_of_nat source_file_count, ib_document_count = 0,
           ib_segment_sha256 = None, ib_parsed_path = None, ib_parsed_sha256 = None, ib_failure_code = None,
           ib_published = False\<rparr>]\<rparr>, True))) (\<lambda>(ok, changed).
     ret (if ok \<and> batch_id \<noteq> 0 then Some batch_id else None)))"

definition attach_archive :: "u64 \<Rightarrow> u64 \<Rightarrow> parser_profile option \<Rightarrow> ('b index_state_scheme, 'e, bool) proc" where
  "attach_archive batch_id archive_id profile = execute_update (\<lambda>s.
     let row = \<lparr>ia_archive_id = archive_id, ia_batch_id = Some batch_id, ia_profile = profile, ia_state = Pending,
           ia_document_count = 0, ia_failure_code = None, ia_failure_line = None, ia_indexed = False\<rparr>
     in if \<not> list_ex (\<lambda>r. ib_batch_id r = batch_id) (ix_batches s) then None
        else if list_ex (\<lambda>r. ia_archive_id r = archive_id) (ix_archives s)
        then update_archives (\<lambda>r. ia_archive_id r = archive_id) (\<lambda>r. row) s
        else Some (s\<lparr>ix_archives := ix_archives s @ [row]\<rparr>, True))"

definition mark_archive_parsed :: "u64 \<Rightarrow> nat \<Rightarrow> ('b index_state_scheme, 'e, bool) proc" where
  "mark_archive_parsed archive_id document_count = execute_update (update_archives
     (\<lambda>r. ia_archive_id r = archive_id)
     (\<lambda>r. r\<lparr>ia_state := Archive_parsed, ia_document_count := word_of_nat document_count, ia_failure_code := None,
        ia_failure_line := None, ia_indexed := True\<rparr>))"

definition mark_archive_failed :: "u64 \<Rightarrow> string \<Rightarrow> nat \<Rightarrow> ('b index_state_scheme, 'e, bool) proc" where
  "mark_archive_failed archive_id failure_code failure_line = execute_update (update_archives
     (\<lambda>r. ia_archive_id r = archive_id)
     (\<lambda>r. r\<lparr>ia_state := Archive_failed, ia_document_count := 0, ia_failure_code := Some failure_code,
        ia_failure_line := (if failure_line = 0 then None else Some (word_of_nat failure_line)), ia_indexed := False\<rparr>))"

definition mark_batch_parsed :: "u64 \<Rightarrow> string \<Rightarrow> string \<Rightarrow> nat \<Rightarrow> ('b index_state_scheme, 'e, bool) proc" where
  "mark_batch_parsed batch_id parsed_path parsed_sha256 document_count = execute_update (update_batches
     (\<lambda>r. ib_batch_id r = batch_id)
     (\<lambda>r. r\<lparr>ib_state := Parsed, ib_document_count := word_of_nat document_count, ib_parsed_path := Some parsed_path,
        ib_parsed_sha256 := Some parsed_sha256, ib_segment_name := None, ib_segment_sha256 := None,
        ib_published := False, ib_failure_code := None\<rparr>))"

definition mark_batch_failed :: "u64 \<Rightarrow> string \<Rightarrow> ('b index_state_scheme, 'e, bool) proc" where
  "mark_batch_failed batch_id failure_code = execute_update (update_batches
     (\<lambda>r. ib_batch_id r = batch_id) (\<lambda>r. r\<lparr>ib_state := Failed, ib_failure_code := Some failure_code\<rparr>))"

text \<open>The conversion of a row of \<open>queryBatchDescriptors\<close>; \<open>as_int\<close> is the signed reading.\<close>

definition batch_descriptor_row :: "batch_row \<Rightarrow> parsed_batch_descriptor option" where
  "batch_descriptor_row r = (case (ib_parsed_path r, ib_parsed_sha256 r) of
       (Some path, Some sha) \<Rightarrow>
         if sint (ib_source_file_count r) \<le> 0 \<or> ib_batch_id r = 0 \<or> ib_first_archive_id r = 0 \<or>
            ib_last_archive_id r < ib_first_archive_id r \<or> ib_document_count r = 0 \<or> path = [] \<or> length sha \<noteq> 64
         then None
         else Some \<lparr>bd_batch_id = ib_batch_id r, bd_first_archive_id = ib_first_archive_id r,
           bd_last_archive_id = ib_last_archive_id r, bd_source_file_count = ucast (ib_source_file_count r),
           bd_document_count = ib_document_count r, bd_parsed_path = path, bd_parsed_sha256 = sha\<rparr>
     | _ \<Rightarrow> None)"

definition batches_in :: "batch_phase \<Rightarrow> 'b index_state_scheme \<Rightarrow> batch_row list" where
  "batches_in phase s = sort_key ib_batch_id (filter (\<lambda>r. ib_state r = phase) (ix_batches s))"

definition list_parsed_batches :: "nat \<Rightarrow> ('b index_state_scheme, 'e, parsed_batch_descriptor list option) proc" where
  "list_parsed_batches limit = query (\<lambda>s. take limit (batches_in Parsed s)) batch_descriptor_row"

definition list_building_batches :: "('b index_state_scheme, 'e, parsed_batch_descriptor list option) proc" where
  "list_building_batches = query (batches_in Building) batch_descriptor_row"

definition ready_descriptor_row :: "batch_row \<Rightarrow> ready_segment_descriptor option" where
  "ready_descriptor_row r = (case (ib_segment_name r, ib_segment_sha256 r) of
       (Some name, Some sha) \<Rightarrow>
         if ib_batch_id r = 0 \<or> name = [] \<or> length sha \<noteq> 64 then None
         else Some \<lparr>rd_batch_id = ib_batch_id r, rd_segment_name = name, rd_segment_sha256 = sha\<rparr>
     | _ \<Rightarrow> None)"

definition list_ready_segments :: "('b index_state_scheme, 'e, ready_segment_descriptor list option) proc" where
  "list_ready_segments = query (batches_in Ready) ready_descriptor_row"

definition mark_batch_building :: "u64 \<Rightarrow> string \<Rightarrow> ('b index_state_scheme, 'e, bool) proc" where
  "mark_batch_building batch_id name = execute_changed_update (\<lambda>s.
     if \<not> name_free name batch_id s then None
     else update_batches (\<lambda>r. ib_batch_id r = batch_id \<and> ib_state r = Parsed)
       (\<lambda>r. r\<lparr>ib_state := Building, ib_segment_name := Some name, ib_segment_sha256 := None,
          ib_published := False, ib_failure_code := None\<rparr>) s)"

definition reset_building_batch :: "u64 \<Rightarrow> string \<Rightarrow> ('b index_state_scheme, 'e, bool) proc" where
  "reset_building_batch batch_id failure_code = execute_changed_update (update_batches
     (\<lambda>r. ib_batch_id r = batch_id \<and> ib_state r = Building)
     (\<lambda>r. r\<lparr>ib_state := Parsed, ib_segment_name := None, ib_segment_sha256 := None, ib_published := False,
        ib_failure_code := Some failure_code\<rparr>))"

text \<open>One statement over the join of the batch with its archives.\<close>

definition publish_batch_ready :: "u64 \<Rightarrow> string \<Rightarrow> string \<Rightarrow> ('b index_state_scheme, 'e, bool) proc" where
  "publish_batch_ready batch_id name sha256 = execute_changed_update (\<lambda>s.
     if \<not> name_free name batch_id s then None
     else let joined = (\<lambda>r. ib_batch_id r = batch_id \<and> ib_state r = Building \<and>
                 list_ex (\<lambda>a. ia_batch_id a = Some batch_id) (ix_archives s))
       in if \<not> list_ex joined (ix_batches s) then Some (s, False)
          else Some (s\<lparr>
            ix_batches := map (\<lambda>r. if joined r then r\<lparr>ib_state := Ready, ib_segment_name := Some name,
                ib_segment_sha256 := Some sha256, ib_failure_code := None, ib_published := True\<rparr> else r) (ix_batches s),
            ix_archives := map (\<lambda>a. if ia_batch_id a = Some batch_id
                then a\<lparr>ia_indexed := ia_state a \<in> {Archive_parsed, Indexed} \<or> ia_indexed a,
                  ia_state := (if ia_state a = Archive_parsed then Indexed else ia_state a)\<rparr> else a) (ix_archives s)\<rparr>, True))"

definition mark_segment_build_failed :: "u64 \<Rightarrow> string \<Rightarrow> ('b index_state_scheme, 'e, bool) proc" where
  "mark_segment_build_failed batch_id failure_code = execute_changed_update (update_batches
     (\<lambda>r. ib_batch_id r = batch_id \<and> (ib_state r = Parsed \<or> ib_state r = Building))
     (\<lambda>r. r\<lparr>ib_state := Failed, ib_segment_name := None, ib_segment_sha256 := None, ib_published := False,
        ib_failure_code := Some failure_code\<rparr>))"

primrec recover_each :: "u64 list \<Rightarrow> ('b index_state_scheme, 'e, bool) proc" where
  "recover_each [] = ret True"
| "recover_each (b # bs) =
     bind (execute_update (update_archives (\<lambda>r. ia_batch_id r = Some b)
        (\<lambda>r. r\<lparr>ia_state := Archive_failed, ia_document_count := 0, ia_failure_code := Some ''BATCH_INTERRUPTED'',
           ia_failure_line := None, ia_indexed := False\<rparr>))) (\<lambda>ok.
       if \<not> ok then ret False
       else bind (mark_batch_failed b ''BATCH_INTERRUPTED'') (\<lambda>ok. if \<not> ok then ret False else recover_each bs))"

definition recover_interrupted_batches :: "('b index_state_scheme, 'e, u64 list option) proc" where
  "recover_interrupted_batches = bind (query (\<lambda>s. map ib_batch_id (batches_in Parsing s)) Some) (\<lambda>ids.
     case ids of None \<Rightarrow> ret None
     | Some bs \<Rightarrow> bind (recover_each bs) (\<lambda>ok. ret (if ok then Some bs else None)))"

definition request_rebuild_state :: "u64 \<Rightarrow> ('b index_state_scheme, 'e, rebuild_status \<times> u64) proc" where
  "request_rebuild_state archive_id =
     bind (query (\<lambda>s. take 1 (List.map_filter ia_batch_id (filter (\<lambda>r. ia_archive_id r = archive_id) (ix_archives s)))) Some)
       (\<lambda>vs. case vs of
         None \<Rightarrow> ret (Unavailable, 0)
       | Some [] \<Rightarrow> ret (Not_found, 0)
       | Some (batch_id # _) \<Rightarrow>
           bind (execute_update (update_batches (\<lambda>r. ib_batch_id r = batch_id)
             (\<lambda>r. r\<lparr>ib_state := Failed, ib_failure_code := Some ''REBUILD_REQUESTED'', ib_parsed_path := None,
                ib_parsed_sha256 := None, ib_segment_name := None, ib_segment_sha256 := None, ib_published := False\<rparr>)))
             (\<lambda>ok. if \<not> ok then ret (Unavailable, batch_id)
               else bind (execute_update (update_archives (\<lambda>r. ia_batch_id r = Some batch_id)
                 (\<lambda>r. r\<lparr>ia_state := Pending, ia_document_count := 0, ia_failure_code := None, ia_failure_line := None,
                    ia_indexed := False\<rparr>)))
                 (\<lambda>ok. ret (if ok then Queued else Unavailable, batch_id))))"

end
