(* ===== verification/Segment_Manager.thy ===== *)
theory Segment_Manager
  imports Index_State
begin

text \<open>
  The segment manager (\<open>indexing/segment_manager.cpp\<close>): recovery of interrupted builds, the build and
  publication of the next batch, and the exchange of the search snapshot. Every \<open>std::exception\<close> is an
  \<open>index_error\<close>; what the repository reports with \<open>false\<close> becomes \<open>Db_failed\<close>.
\<close>

text \<open>The outcome of a block with a handler that inspects the exception.\<close>

definition attempt :: "('s, 'e, 'b) proc \<Rightarrow> ('s, 'e, 'e + 'b) proc" where
  "attempt m = catch (bind m (\<lambda>x. ret (Inr x))) (\<lambda>e. ret (Inl e))"

definition check :: "'e \<Rightarrow> ('s, 'e, bool) proc \<Rightarrow> ('s, 'e, unit) proc" where
  "check err m = bind m (\<lambda>ok. if ok then ret () else throw err)"

definition require :: "'e \<Rightarrow> ('s, 'e, 'b option) proc \<Rightarrow> ('s, 'e, 'b) proc" where
  "require err m = bind m (\<lambda>r. case r of None \<Rightarrow> throw err | Some x \<Rightarrow> ret x)"

definition recover_building_batch :: "'j store_env \<Rightarrow> u64 \<Rightarrow> ('b index_state_scheme, index_error, unit) proc" where
  "recover_building_batch en batch_id =
     bind (published_exists batch_id) (\<lambda>published.
       if \<not> published then check Db_failed (reset_building_batch batch_id ''SEGMENT_BUILD_INTERRUPTED'')
       else bind (attempt (load_unpublished en batch_id)) (\<lambda>r. case r of
           Inl e \<Rightarrow> seq (remove_segment batch_id)
             (check Db_failed (mark_segment_build_failed batch_id ''SEGMENT_RECOVERY_CORRUPTED''))
         | Inr segment \<Rightarrow> check Db_failed
             (publish_batch_ready batch_id (ls_segment_name segment) (ls_manifest_sha256 segment))))"

definition recover_building_batches :: "'j store_env \<Rightarrow> ('b index_state_scheme, index_error, unit) proc" where
  "recover_building_batches en = bind (require Db_failed list_building_batches) (\<lambda>batches.
     for_each (\<lambda>d. recover_building_batch en (bd_batch_id d)) batches)"

primrec load_ready_segments :: "'j store_env \<Rightarrow> ready_segment_descriptor list \<Rightarrow>
    ('b index_state_scheme, index_error, loaded_segment list) proc" where
  "load_ready_segments en [] = ret []"
| "load_ready_segments en (d # ds) =
     bind (load_segment en d) (\<lambda>segment. bind (load_ready_segments en ds) (\<lambda>rest. ret (segment # rest)))"

definition refresh_snapshot :: "'j store_env \<Rightarrow> ('b index_state_scheme, index_error, unit) proc" where
  "refresh_snapshot en = bind (require Db_failed list_ready_segments) (\<lambda>descriptors.
     bind (load_ready_segments en descriptors) (\<lambda>segments.
       case new_snapshot (map Some segments) of
         Inl e \<Rightarrow> throw Snapshot_failed
       | Inr snapshot \<Rightarrow> modify (\<lambda>s. s\<lparr>ix_snapshot := snapshot\<rparr>)))"

text \<open>The audit of orphaned segments only logs; its queries are made all the same.\<close>

definition recover_and_load :: "'j store_env \<Rightarrow> ('b index_state_scheme, index_error, string list) proc" where
  "recover_and_load en =
     seq cleanup_building
     (seq (recover_building_batches en)
     (seq (refresh_snapshot en)
     (bind (require Db_failed list_ready_segments) (\<lambda>ready.
      bind list_published_names (\<lambda>published.
        ret (filter (\<lambda>name. name \<notin> set (map rd_segment_name ready)) published))))))"

text \<open>
  The part of \<open>buildNext\<close> from the mark on: the flag \<open>renamed\<close> of the source separates the failures
  before the publication on disk, which are cleaned up, from those after it, which are not.
\<close>

definition build_marked :: "'j store_env \<Rightarrow> archive_access \<Rightarrow> parsed_batch_descriptor \<Rightarrow>
    ('b index_state_scheme, index_error, segment_build_result) proc" where
  "build_marked en ax descriptor =
     bind (attempt (bind (load_batch en descriptor) (build en ax))) (\<lambda>r. case r of
         Inl e \<Rightarrow> seq (remove_segment (bd_batch_id descriptor))
           (seq (check Db_failed (mark_segment_build_failed (bd_batch_id descriptor) ''SEGMENT_BUILD_FAILED'')) (throw e))
       | Inr res \<Rightarrow>
           seq (check Db_failed (publish_batch_ready (br_batch_id res) (br_segment_name res) (br_manifest_sha256 res)))
             (ret res))"

definition build_next :: "'j store_env \<Rightarrow> archive_access \<Rightarrow> ('b index_state_scheme, index_error, segment_build_result option) proc" where
  "build_next en ax =
     seq (recover_building_batches en)
     (bind (require Db_failed (list_parsed_batches 1)) (\<lambda>batches. case batches of
         [] \<Rightarrow> ret None
       | descriptor # _ \<Rightarrow>
           let batch_id = bd_batch_id descriptor
           in seq (check Db_failed (mark_batch_building batch_id (segment_name batch_id)))
             (bind (build_marked en ax descriptor) (\<lambda>res.
               seq (refresh_snapshot en) (ret (Some res))))))"

end
