(* ===== verification/Incremental_Indexer.thy ===== *)
theory Incremental_Indexer
  imports Segment_Manager
begin

text \<open>
  The incremental indexer (\<open>indexing/incremental_indexer.cpp\<close>) with the reading of the archive table
  (\<open>indexing/archive_source_repository.cpp\<close>) and one round of the background worker
  (\<open>indexing/index_worker.cpp\<close>): recovery, the scan of one batch with its state changes, and the
  request for a rebuild. The flag \<open>ix_locked\<close> says that another process holds the file lock.
\<close>

section \<open>The archive table\<close>

definition parse_record :: "source_row \<Rightarrow> archive_record option" where
  "parse_record r = (case (mysql_datetime_to_iso8601 (is_produced_at r), mysql_datetime_to_iso8601 (is_archived_at r)) of
       (Some produced_at, Some archived_at) \<Rightarrow>
         if is_archive_id r = 0 \<or> is_file_size r = 0 \<or> length (is_file_sha256 r) \<noteq> 64 then None
         else Some \<lparr>ar_archive_id = is_archive_id r, ar_line_id = is_line_id r, ar_station_id = is_station_id r,
           ar_device_id = is_device_id r, ar_collector_id = is_collector_id r,
           ar_work_order = (case is_work_order r of None \<Rightarrow> [] | Some v \<Rightarrow> v),
           ar_product_sn = (case is_product_sn r of None \<Rightarrow> [] | Some v \<Rightarrow> v),
           ar_file_type = is_file_type r, ar_original_filename = is_original_filename r,
           ar_relative_path = is_relative_path r, ar_file_size = is_file_size r, ar_file_sha256 = is_file_sha256 r,
           ar_produced_at = produced_at, ar_archived_at = archived_at\<rparr>
     | _ \<Rightarrow> None)"

definition indexed_type :: "source_row \<Rightarrow> bool" where
  "indexed_type r \<longleftrightarrow> is_file_type r = ''RUNTIME_LOG'' \<or> is_file_type r = ''TEST_REPORT''"

definition list_after :: "u64 \<Rightarrow> nat \<Rightarrow> ('b index_state_scheme, 'e, archive_record list option) proc" where
  "list_after after_archive_id limit = query (\<lambda>s. take limit (sort_key is_archive_id
     (filter (\<lambda>r. is_archive_id r > after_archive_id \<and> indexed_type r) (ix_source s)))) parse_record"

definition find_by_ids :: "u64 list \<Rightarrow> ('b index_state_scheme, 'e, archive_record list option) proc" where
  "find_by_ids archive_ids =
     (if archive_ids = [] then ret (Some [])
      else bind (query (\<lambda>s. sort_key is_archive_id
          (filter (\<lambda>r. is_archive_id r \<in> set archive_ids \<and> indexed_type r) (ix_source s))) parse_record) (\<lambda>rows.
        case rows of None \<Rightarrow> ret None
        | Some archives \<Rightarrow> ret (if map ar_archive_id archives \<noteq> archive_ids then None else Some archives)))"

section \<open>The scan of a batch\<close>

record indexing_config =
  cf_source_batch_limit :: nat
  cf_document_batch_limit :: nat
  cf_max_line_bytes :: nat

text \<open>The archives as the scan sees them, with the outcomes of the read calls on the \<open>i\<close>-th.\<close>

record archive_scan =
  sx_posix :: posix
  sx_root :: string
  sx_open :: "string \<Rightarrow> errno + string"
  sx_reads :: "nat \<Rightarrow> read_outcome list"
  sx_close :: "nat \<Rightarrow> bool"

record archive_outcome =
  ao_archive :: archive_record
  ao_profile :: "parser_profile option"
  ao_result :: archive_parse_result

definition failed_result :: "string \<Rightarrow> nat \<Rightarrow> archive_parse_result" where
  "failed_result code line = \<lparr>rs_success = False, rs_failure_code = code, rs_failure_line = line, rs_documents = []\<rparr>"

text \<open>The code of an \<open>ArchivePathError\<close>; other errors of the resolution are not caught.\<close>

definition path_error_code :: "archive_error \<Rightarrow> string option" where
  "path_error_code e = (case e of
       Archive_path_invalid \<Rightarrow> Some ''ARCHIVE_PATH_INVALID''
     | Archive_file_not_found \<Rightarrow> Some ''ARCHIVE_FILE_NOT_FOUND''
     | Archive_file_not_regular \<Rightarrow> Some ''ARCHIVE_FILE_NOT_REGULAR''
     | _ \<Rightarrow> None)"

definition parse_one :: "'j store_env \<Rightarrow> archive_scan \<Rightarrow> indexing_config \<Rightarrow> nat \<Rightarrow> archive_record \<Rightarrow> parser_profile \<Rightarrow>
    index_error + archive_parse_result" where
  "parse_one en sx cf i archive profile =
     (case resolve_archive_file (sx_posix sx) (sx_root sx) (ar_relative_path archive) of
        Inl e \<Rightarrow> (case path_error_code e of
            None \<Rightarrow> Inl (Io Sys_error) | Some code \<Rightarrow> Inr (failed_result code 0))
      | Inr path \<Rightarrow> Inr (parse_archive (en_sha256 en) (sx_open sx path) (sx_reads sx i) (sx_close sx i)
          archive profile (cf_max_line_bytes cf)))"

fun scan_archives :: "'j store_env \<Rightarrow> archive_scan \<Rightarrow> indexing_config \<Rightarrow> (string \<rightharpoonup> parser_profile) \<Rightarrow>
    archive_record list \<Rightarrow> archive_outcome list \<Rightarrow> nat \<Rightarrow> index_error + archive_outcome list \<times> nat" where
  "scan_archives en sx cf profiles [] outcomes document_count = Inr (outcomes, document_count)"
| "scan_archives en sx cf profiles (archive # archives) outcomes document_count =
     (case profiles (parser_profile_key (ar_device_id archive) (ar_file_type archive)) of
        None \<Rightarrow> scan_archives en sx cf profiles archives
          (outcomes @ [\<lparr>ao_archive = archive, ao_profile = None, ao_result = failed_result ''PARSER_PROFILE_NOT_FOUND'' 0\<rparr>])
          document_count
      | Some profile \<Rightarrow> sbind (parse_one en sx cf (length outcomes) archive profile) (\<lambda>result.
          if rs_success result \<and> length (rs_documents result) > cf_document_batch_limit cf
          then scan_archives en sx cf profiles archives
            (outcomes @ [\<lparr>ao_archive = archive, ao_profile = Some profile, ao_result = failed_result ''DOCUMENT_LIMIT_EXCEEDED'' 0\<rparr>])
            document_count
          else if rs_success result \<and> outcomes \<noteq> [] \<and>
              document_count + length (rs_documents result) > cf_document_batch_limit cf
          then Inr (outcomes, document_count)
          else scan_archives en sx cf profiles archives
            (outcomes @ [\<lparr>ao_archive = archive, ao_profile = Some profile, ao_result = result\<rparr>])
            (if rs_success result then document_count + length (rs_documents result) else document_count)))"

record scan_summary =
  su_batch_created :: bool
  su_batch_id :: u64
  su_source_file_count :: nat
  su_parsed_file_count :: nat
  su_failed_file_count :: nat
  su_document_count :: nat

definition no_batch :: scan_summary where
  "no_batch = \<lparr>su_batch_created = False, su_batch_id = 0, su_source_file_count = 0, su_parsed_file_count = 0,
     su_failed_file_count = 0, su_document_count = 0\<rparr>"

definition parsed_archives :: "archive_outcome list \<Rightarrow> parsed_archive list" where
  "parsed_archives outcomes = List.map_filter (\<lambda>o1. if rs_success (ao_result o1)
     then Some \<lparr>pa_archive = ao_archive o1, pa_profile = (case ao_profile o1 of None \<Rightarrow> \<lparr>pp_name = [], pp_version = 0\<rparr> | Some p \<Rightarrow> p),
       pa_documents = rs_documents (ao_result o1)\<rparr>
     else None) outcomes"

section \<open>State changes\<close>

definition mark_failed :: "archive_outcome \<Rightarrow> ('b index_state_scheme, 'e, bool) proc" where
  "mark_failed o1 = mark_archive_failed (ar_archive_id (ao_archive o1)) (rs_failure_code (ao_result o1)) (rs_failure_line (ao_result o1))"

text \<open>After a failed write every archive is marked, whatever becomes of the others.\<close>

primrec mark_all_failed :: "archive_outcome list \<Rightarrow> bool \<Rightarrow> ('b index_state_scheme, 'e, bool) proc" where
  "mark_all_failed [] persisted = ret persisted"
| "mark_all_failed (o1 # os) persisted =
     bind (if rs_success (ao_result o1)
           then mark_archive_failed (ar_archive_id (ao_archive o1)) ''PARSED_ARTIFACT_WRITE_FAILED'' 0
           else mark_failed o1) (\<lambda>ok. mark_all_failed os (ok \<and> persisted))"

definition acquire_lock :: "('b index_state_scheme, index_error, unit) proc" where
  "acquire_lock = seq (io (syscall Sys_error (ret ())))
     (bind (gets ix_locked) (\<lambda>l. if l then throw Index_locked else io (syscall Sys_error (ret ()))))"

definition recover_unlocked :: "('b index_state_scheme, index_error, unit) proc" where
  "recover_unlocked = bind (require Db_failed recover_interrupted_batches) (for_each remove_batch)"

definition recover :: "('b index_state_scheme, index_error, unit) proc" where
  "recover = seq acquire_lock recover_unlocked"

text \<open>Creating the batch, attaching its archives, writing the artifact and recording the outcome.\<close>

definition attach_outcomes :: "u64 \<Rightarrow> archive_outcome list \<Rightarrow> ('b index_state_scheme, index_error, unit) proc" where
  "attach_outcomes batch_id outcomes = for_each (\<lambda>o1. check Db_failed
     (attach_archive batch_id (ar_archive_id (ao_archive o1)) (ao_profile o1))) outcomes"

definition persist_outcomes :: "u64 \<Rightarrow> archive_outcome list \<Rightarrow> ('b index_state_scheme, index_error, unit) proc" where
  "persist_outcomes batch_id outcomes = for_each (\<lambda>o1. check Db_failed
     (if rs_success (ao_result o1)
      then mark_archive_parsed (ar_archive_id (ao_archive o1)) (length (rs_documents (ao_result o1)))
      else mark_failed o1)) outcomes"

definition process_batch :: "'j store_env \<Rightarrow> archive_outcome list \<Rightarrow> nat \<Rightarrow> ('b index_state_scheme, index_error, scan_summary) proc" where
  "process_batch en outcomes document_count =
     (let first_id = ar_archive_id (ao_archive (hd outcomes)); last_id = ar_archive_id (ao_archive (last outcomes));
          archives = parsed_archives outcomes; failed_count = length outcomes - length archives
      in bind (require Db_failed (create_batch first_id last_id (length outcomes))) (\<lambda>batch_id.
         seq (attach_outcomes batch_id outcomes)
         (if archives = []
          then seq (for_each (\<lambda>o1. check Db_failed (mark_failed o1)) outcomes)
              (seq (check Db_failed (mark_batch_failed batch_id ''NO_ARCHIVE_PARSED''))
                (ret \<lparr>su_batch_created = True, su_batch_id = batch_id, su_source_file_count = length outcomes,
                   su_parsed_file_count = 0, su_failed_file_count = failed_count, su_document_count = 0\<rparr>))
          else bind (attempt (write_batch en batch_id first_id last_id (word_of_nat (length outcomes))
                (word_of_nat failed_count) archives)) (\<lambda>r. case r of
              Inl e \<Rightarrow> bind (mark_all_failed outcomes True) (\<lambda>persisted.
                  bind (mark_batch_failed batch_id ''PARSED_ARTIFACT_WRITE_FAILED'') (\<lambda>ok.
                  if \<not> (ok \<and> persisted) then throw Db_failed else throw e))
            | Inr artifact \<Rightarrow>
                seq (persist_outcomes batch_id outcomes)
                (seq (check Db_failed (mark_batch_parsed batch_id (pb_relative_path artifact)
                   (pb_manifest_sha256 artifact) document_count))
                (ret \<lparr>su_batch_created = True, su_batch_id = batch_id, su_source_file_count = length outcomes,
                   su_parsed_file_count = length archives, su_failed_file_count = failed_count,
                   su_document_count = document_count\<rparr>))))))"

definition source_archives :: "indexing_config \<Rightarrow> ('b index_state_scheme, index_error, archive_record list) proc" where
  "source_archives cf =
     bind (require Db_failed (list_pending_archive_ids (cf_source_batch_limit cf))) (\<lambda>pending.
       if pending \<noteq> [] then require Db_failed (find_by_ids pending)
       else bind (require Db_failed max_observed_archive_id) (\<lambda>after.
         require Db_failed (list_after after (cf_source_batch_limit cf))))"

definition scan_once :: "'j store_env \<Rightarrow> archive_scan \<Rightarrow> indexing_config \<Rightarrow> ('b index_state_scheme, index_error, scan_summary) proc" where
  "scan_once en sx cf =
     seq acquire_lock
     (seq recover_unlocked
     (bind (source_archives cf) (\<lambda>archives.
        if archives = [] then ret no_batch
        else bind (require Db_failed load_profiles) (\<lambda>profiles.
          bind (lift_sum (scan_archives en sx cf profiles archives [] 0)) (\<lambda>(outcomes, document_count).
            if outcomes = [] then ret no_batch else process_batch en outcomes document_count)))))"

definition request_rebuild :: "u64 \<Rightarrow> ('b index_state_scheme, index_error, rebuild_status) proc" where
  "request_rebuild archive_id =
     seq acquire_lock
     (bind (request_rebuild_state archive_id) (\<lambda>(status, batch_id).
        if status = Queued then seq (remove_batch batch_id) (seq (remove_segment batch_id) (ret status))
        else ret status))"

text \<open>One round of the worker: an exception is logged and the loop goes on.\<close>

definition worker_round :: "'j store_env \<Rightarrow> archive_scan \<Rightarrow> archive_access \<Rightarrow> indexing_config \<Rightarrow>
    ('b index_state_scheme, index_error, unit) proc" where
  "worker_round en sx ax cf = bind (attempt (seq (scan_once en sx cf) (build_next en ax))) (\<lambda>r. ret ())"

end
