(* ===== verification/Index_Statements.thy ===== *)
theory Index_Statements
  imports Incremental_Indexer Parsed_Batch_Files
begin

text \<open>
  The invariant that ties the database to the disk: a batch that is READY has a published segment
  that loads, with the digest of its row. \<open>unready B\<close> adds that the batches in \<open>B\<close>, whose directories
  are being written, are not READY. Here: the file operations and the statements that keep it, for
  every outcome of every call, in the Hoare logic of \<open>Durable_Files\<close>.
\<close>

section \<open>The invariant\<close>

definition segment_published :: "'j store_env \<Rightarrow> 'a store_state_scheme \<Rightarrow> u64 \<Rightarrow> string \<Rightarrow> bool" where
  "segment_published en s b sha \<longleftrightarrow>
     (\<exists>seg. segment_at en s (segments_root @ [segment_name b]) (segment_name b) b = Inr seg \<and> ls_manifest_sha256 seg = sha)"

definition ready_row_ok :: "'j store_env \<Rightarrow> 'a store_state_scheme \<Rightarrow> batch_row \<Rightarrow> bool" where
  "ready_row_ok en s r \<longleftrightarrow> ib_segment_name r = Some (segment_name (ib_batch_id r)) \<and>
     (\<exists>sha. ib_segment_sha256 r = Some sha \<and> segment_published en s (ib_batch_id r) sha)"

definition index_inv :: "'j store_env \<Rightarrow> 'b index_state_scheme \<Rightarrow> bool" where
  "index_inv en s \<longleftrightarrow> distinct (map ib_batch_id (ix_batches s)) \<and> 0 < ix_next_batch s \<and> snapshot_wf (ix_snapshot s) \<and>
     (\<forall>r\<in>set (ix_batches s). 0 < ib_batch_id r \<and> ib_batch_id r < ix_next_batch s \<and>
        (ib_state r = Ready \<longrightarrow> ready_row_ok en s r))"

definition unready :: "'j store_env \<Rightarrow> u64 set \<Rightarrow> 'b index_state_scheme \<Rightarrow> bool" where
  "unready en B s \<longleftrightarrow> index_inv en s \<and> (\<forall>r\<in>set (ix_batches s). ib_batch_id r \<in> B \<longrightarrow> ib_state r \<noteq> Ready)"

lemma unready_empty: "unready en {} s \<longleftrightarrow> index_inv en s"
  by (simp add: unready_def)

lemma unready_mono: "unready en B s \<Longrightarrow> C \<subseteq> B \<Longrightarrow> unready en C s"
  by (auto simp: unready_def)

lemma unready_insert: "unready en (insert b B) s \<Longrightarrow> unready en B s"
  by (rule unready_mono) auto

lemma unready_inv: "unready en B s \<Longrightarrow> index_inv en s"
  by (simp add: unready_def)

section \<open>File operations\<close>

lemma more_fields:
  assumes "store_state.more t = store_state.more (s :: 'b index_state_scheme)"
  shows "ix_batches t = ix_batches s" "ix_archives t = ix_archives s" "ix_next_batch t = ix_next_batch s"
    "ix_source t = ix_source s" "ix_profiles t = ix_profiles s" "ix_locked t = ix_locked s" "ix_snapshot t = ix_snapshot s"
  using assms by (cases s; cases t; simp)+

lemma segment_published_cong:
  assumes "\<And>q. node_at t (segments_root @ segment_name b # q) = node_at s (segments_root @ segment_name b # q)"
  shows "segment_published en t b sha \<longleftrightarrow> segment_published en s b sha"
proof -
  have "segment_at en t (segments_root @ [segment_name b]) (segment_name b) b =
      segment_at en s (segments_root @ [segment_name b]) (segment_name b) b"
    by (rule segment_at_cong) (simp add: assms)
  then show ?thesis by (simp add: segment_published_def)
qed

lemma unready_frame:
  assumes more: "store_state.more t = store_state.more s"
    and same: "\<And>b q. b \<notin> B \<Longrightarrow> node_at t (segments_root @ segment_name b # q) = node_at s (segments_root @ segment_name b # q)"
    and s: "unready en B s"
  shows "unready en B t"
proof -
  note f = more_fields [OF more]
  have "ready_row_ok en t r" if r: "r \<in> set (ix_batches s)" "ib_state r = Ready" for r
  proof -
    have "ib_batch_id r \<notin> B" using s r by (auto simp: unready_def)
    then have "segment_published en t (ib_batch_id r) sha \<longleftrightarrow> segment_published en s (ib_batch_id r) sha" for sha
      by (intro segment_published_cong same)
    with s r show ?thesis by (auto simp: unready_def index_inv_def ready_row_ok_def)
  qed
  with s show ?thesis by (auto simp: unready_def index_inv_def f)
qed

abbreviation keeps_unready :: "'j store_env \<Rightarrow> u64 set \<Rightarrow> ('b index_state_scheme, 'e, 'x) proc \<Rightarrow> bool" where
  "keeps_unready en B m \<equiv> keeps (unready en B) m"

lemma touches_unready:
  assumes m: "touches P m" and P: "\<And>b q. b \<notin> B \<Longrightarrow> \<not> P (segments_root @ segment_name b # q)"
  shows "keeps_unready en B m"
proof -
  have "unready en B t" if "unready en B s" "m s = (r, t)" for s t r
    by (rule unready_frame [OF touchesD(1) [OF m that(2)] touchesD(2) [OF m that(2) P] that(1)])
  then show ?thesis by (intro hoareI) auto
qed

named_theorems unready_rules \<open>operations that keep \<open>unready\<close>\<close>

lemma batch_paths_other: "c \<noteq> b \<Longrightarrow> \<not> batch_paths b (segments_root @ segment_name c # q)"
  using segment_name_not_building
  by (auto simp: batch_paths_def segments_root_def building_root_def below_def segment_name_inject)

lemma touches_batch_unready: "touches (batch_paths b) m \<Longrightarrow> b \<in> B \<Longrightarrow> keeps_unready en B m"
  by (erule touches_unready, rule batch_paths_other) auto

lemma touches_nothing_unready: "touches (\<lambda>_. False) m \<Longrightarrow> keeps_unready en B m"
  by (erule touches_unready) simp

lemma touches_remove_segment_op: "touches (batch_paths b) (remove_segment b)"
  unfolding remove_segment_def
  by (intro frame touches_remove_segment) (simp_all add: batch_paths_def)

lemma unready_remove_segment [unready_rules]: "b \<in> B \<Longrightarrow> keeps_unready en B (remove_segment b)"
  by (rule touches_batch_unready [OF touches_remove_segment_op])

lemma unready_published_exists [unready_rules]: "keeps_unready en B (published_exists b)"
  unfolding published_exists_def by (intro touches_nothing_unready frame)

lemma unready_load_segment [unready_rules]: "keeps_unready en B (load_segment en' d)"
  unfolding load_segment_def by (intro touches_nothing_unready frame)

lemma touches_cleanup: "touches (\<lambda>q. q = segments_root \<or> below building_root q) cleanup_building"
proof -
  have each: "touches P (for_each f xs)" if "\<And>x. touches P (f x)" for P f xs
    using that by (induction xs) (auto intro!: frame)
  show ?thesis
    unfolding cleanup_building_def
    by (intro frame each touches_ensure touches_remove_segment) (auto simp: below_iff)
qed

lemma unready_cleanup [unready_rules]: "keeps_unready en B cleanup_building"
  by (rule touches_unready [OF touches_cleanup])
    (auto simp: segments_root_def building_root_def below_def segment_name_not_building)

lemma touches_published_names [frame]: "touches P (published_names names)"
  by (induction names) (auto intro!: frame)

lemma touches_list_published: "touches (\<lambda>q. q = segments_root) list_published_names"
  unfolding list_published_names_def by (intro frame touches_ensure) simp_all

lemma unready_list_published [unready_rules]: "keeps_unready en B list_published_names"
  by (rule touches_unready [OF touches_list_published]) (simp add: segments_root_def)

section \<open>Parsed batches\<close>

abbreviation parsed_paths :: "fpath \<Rightarrow> bool" where
  "parsed_paths q \<equiv> below parsed_root q"

lemma touches_append_durable: "P p \<Longrightarrow> touches P (append_durable p v)"
  by (auto simp: touches_def append_durable_def split: prod.splits) (simp add: put_node_def)

lemma touches_finish [frame]: "touches P finish_durable"
  unfolding finish_durable_def by (intro frame)

lemma touches_open_durable: "P p \<Longrightarrow> touches P (open_durable p)"
  unfolding open_durable_def create_file_def by (intro frame) (auto intro!: frame touches_put split: prod.splits)

lemma touches_write_documents: "P p \<Longrightarrow> touches P (write_documents jl p ds acc)"
  by (induction ds arbitrary: acc) (auto simp: Let_def intro!: frame touches_append_durable split: prod.splits)

lemma touches_write_archives: "P pa \<Longrightarrow> P pd \<Longrightarrow> touches P (write_archives jl pa pd as ad acc)"
  by (induction as arbitrary: ad acc) (auto simp: Let_def intro!: frame touches_append_durable touches_write_documents)

lemma touches_remove_parsed: "(\<And>q. below p q \<Longrightarrow> P q) \<Longrightarrow> touches P (remove_parsed_directory p)"
  unfolding remove_parsed_directory_def
  by (intro frame touches_remove_file touches_remove_directory) (auto simp: below_iff)

lemma touches_prod [frame]: "(\<And>a b. touches P (f a b)) \<Longrightarrow> touches P (case x of (a, b) \<Rightarrow> f a b)"
  by (cases x) simp

lemma touches_write_rows:
  assumes ab: "\<not> below a b" "\<not> below b a" and P: "\<And>q. below a q \<or> below b q \<Longrightarrow> P q"
  shows "touches P (write_rows_and_publish en a b i f l sc fc as)"
  unfolding write_rows_and_publish_def Let_def
  by (intro frame touches_open_durable touches_append_durable touches_write_archives touches_rename [OF ab] P) auto

lemma below_parsed: "below parsed_root parsed_root" "below parsed_root (parsed_root @ q)" "below parsed_root parsed_building"
    "below (parsed_building @ q) r \<Longrightarrow> below parsed_root r" "below (parsed_root @ q) r \<Longrightarrow> below parsed_root r"
    "below parsed_root (parsed_building @ q)"
  by (auto simp: below_iff parsed_root_def parsed_building_def)

lemma touches_write_batch: "touches parsed_paths (write_batch en i f l sc fc as)"
  unfolding write_batch_def Let_def
  by (intro frame touches_ensure touches_remove_parsed touches_write_rows batch_paths_apart)
    (auto simp: below_parsed dest: below_parsed(4,5))

lemma unready_parsed: "touches parsed_paths m \<Longrightarrow> keeps_unready en B m"
  by (erule touches_unready) (simp add: parsed_root_def segments_root_def below_def)

lemma unready_write_batch [unready_rules]: "keeps_unready en B (write_batch en' i f l sc fc as)"
  by (rule unready_parsed) (rule touches_write_batch)

lemma touches_remove_batch: "touches parsed_paths (remove_batch b)"
  unfolding remove_batch_def
  by (intro frame touches_remove_parsed) (auto dest: below_parsed(4,5))

lemma unready_remove_batch [unready_rules]: "keeps_unready en B (remove_batch b)"
  by (rule unready_parsed [OF touches_remove_batch])

lemma touches_lift [frame]: "touches P (lift_sum r)"
  by (rule touches_lift_sum)

lemma touches_load_batch [frame]: "touches P (load_batch en d)"
  unfolding load_batch_def Let_def
  by (intro frame) (auto intro!: frame split: option.splits prod.splits)

section \<open>Control structure\<close>

lemma hoare_attempt:
  assumes "hoare P m Q R" and "\<And>s. R s \<Longrightarrow> E s"
  shows "hoare P (attempt m) (\<lambda>r s. case r of Inl e \<Rightarrow> R s | Inr x \<Rightarrow> Q x s) E"
  unfolding attempt_def
proof (rule hoare_catch [where R = R])
  show "hoare P (bind m (\<lambda>x. ret (Inr x))) (\<lambda>r s. case r of Inl e \<Rightarrow> R s | Inr x \<Rightarrow> Q x s) R"
    by (rule hoare_bind [OF assms(1)]) (simp add: hoare_ret)
  show "hoare R (ret (Inl e)) (\<lambda>r s. case r of Inl e \<Rightarrow> R s | Inr x \<Rightarrow> Q x s) E" for e
    by (rule hoare_ret) simp
qed (use assms(2) in auto)

lemma hoare_check:
  assumes "hoare P m (\<lambda>ok s. if ok then Q s else E s) E"
  shows "hoare P (check err m) (\<lambda>_. Q) E"
  unfolding check_def
  by (rule hoare_bind [OF assms]) (auto intro: hoare_ret hoare_throw)

lemma hoare_require:
  assumes "hoare P m (\<lambda>r s. case r of None \<Rightarrow> E s | Some x \<Rightarrow> Q x s) E"
  shows "hoare P (require err m) Q E"
  unfolding require_def
  by (rule hoare_bind [OF assms]) (auto intro: hoare_ret hoare_throw split: option.split)

lemma hoare_pure: "(K \<Longrightarrow> hoare P m Q E) \<Longrightarrow> hoare (\<lambda>s. P s \<and> K) m Q E"
  by (cases K) (auto simp: hoare_def)

lemma keeps_check: "keeps I m \<Longrightarrow> keeps I (check err m)"
  by (rule hoare_check) simp

lemma keeps_require: "keeps I m \<Longrightarrow> keeps I (require err m)"
  by (rule hoare_require) (simp split: option.split, erule hoare_conseq, auto split: option.split)

lemma keeps_bind: "keeps I m \<Longrightarrow> (\<And>x. keeps I (f x)) \<Longrightarrow> keeps I (bind m f)"
  by (rule hoare_bind)

lemma keeps_seq: "keeps I m \<Longrightarrow> keeps I n \<Longrightarrow> keeps I (seq m n)"
  by (rule hoare_seq)

lemma keeps_ret: "keeps I (ret x)" and keeps_throw: "keeps I (throw e)" and keeps_gets: "keeps I (gets f)"
  by (simp_all add: hoare_ret hoare_throw hoare_gets)

lemma keeps_if: "keeps I m \<Longrightarrow> keeps I n \<Longrightarrow> keeps I (if b then m else n)"
  by simp

lemma keeps_attempt: "keeps I m \<Longrightarrow> keeps I (attempt m)"
  by (rule hoare_conseq [OF hoare_attempt [where P = I and Q = "\<lambda>_. I" and R = I and E = I]]) (auto split: sum.splits)

lemma keeps_for_each: "(\<And>x. x \<in> set xs \<Longrightarrow> keeps I (f x)) \<Longrightarrow> keeps I (for_each f xs)"
  by (rule hoare_for_each)

lemma keeps_lift_sum: "keeps I (lift_sum r)"
  by (auto simp: lift_sum_def intro: hoare_ret hoare_throw split: sum.split)

lemma keeps_prod: "(\<And>a b. hoare P (f a b) Q E) \<Longrightarrow> hoare P (case x of (a, b) \<Rightarrow> f a b) Q E"
  by (cases x) simp

lemma keeps_option: "keeps I n \<Longrightarrow> (\<And>x. keeps I (f x)) \<Longrightarrow> keeps I (case r of None \<Rightarrow> n | Some x \<Rightarrow> f x)"
  by (cases r) simp_all

lemma keeps_sum: "(\<And>e. keeps I (g e)) \<Longrightarrow> (\<And>x. keeps I (f x)) \<Longrightarrow> keeps I (case r of Inl e \<Rightarrow> g e | Inr x \<Rightarrow> f x)"
  by (cases r) simp_all

lemmas keeps_rules = keeps_check keeps_require keeps_bind keeps_seq keeps_ret keeps_throw keeps_gets keeps_if
  keeps_attempt keeps_for_each keeps_lift_sum keeps_prod keeps_option keeps_sum

section \<open>Statements\<close>

lemma unready_events: "unready en B (s\<lparr>st_events := es\<rparr>) \<longleftrightarrow> unready en B s"
proof -
  have "ready_row_ok en (s\<lparr>st_events := es\<rparr>) r \<longleftrightarrow> ready_row_ok en s r" for r
    using segment_published_cong [of "s\<lparr>st_events := es\<rparr>" _ s en] by (simp add: ready_row_ok_def)
  then show ?thesis by (simp add: unready_def index_inv_def)
qed

lemma hoare_next_event:
  assumes "\<And>s es. P (s\<lparr>st_events := es\<rparr>) = P s"
  shows "hoare P next_event (\<lambda>_. P) P"
  using assms by (auto simp: hoare_def next_event_def split: list.splits)

lemma hoare_run_statement:
  assumes "\<And>s t c. P s \<Longrightarrow> f s = Some (t, c) \<Longrightarrow> Q (True, c) t" and "\<And>s. P s \<Longrightarrow> Q (False, False) s"
  shows "hoare P (run_statement f) Q E"
  using assms by (auto simp: hoare_def run_statement_def split: option.splits)

text \<open>
  What a statement may do to the tables whether or not it is acknowledged, and what is known when it is.
\<close>

lemma hoare_execute:
  assumes ev: "\<And>s es. P (s\<lparr>st_events := es\<rparr>) = P s"
    and f: "\<And>s t c. P s \<Longrightarrow> f s = Some (t, c) \<Longrightarrow> R t \<and> Q (True, c) t"
    and weak: "\<And>s. P s \<Longrightarrow> R s" and no: "\<And>s. R s \<Longrightarrow> Q (False, False) s" and exn: "\<And>s. R s \<Longrightarrow> E s"
  shows "hoare P (execute f) Q E"
proof -
  have run: "hoare P (run_statement f) Q E"
    by (rule hoare_run_statement) (use f weak no in blast)+
  have lost: "hoare P (run_statement f) (\<lambda>_. R) E"
    by (rule hoare_run_statement) (use f weak in blast)+
  show ?thesis
    unfolding execute_def
  proof (rule hoare_bind)
    show "hoare P next_event (\<lambda>_. P) E"
      by (rule hoare_conseq [OF hoare_next_event [OF ev]]) (use weak exn in auto)
    show "hoare P (case e of Io_fail \<Rightarrow> ret (False, False) | Io_intr \<Rightarrow> ret (False, False)
        | Io_lost \<Rightarrow> seq (run_statement f) (ret (False, False)) | Io_crash \<Rightarrow> crash | _ \<Rightarrow> run_statement f) Q E" for e
      using weak no exn
      by (cases e) (auto intro!: run hoare_seq [OF lost] hoare_ret hoare_crash)
  qed
qed

lemma keeps_query:
  assumes ev: "\<And>s es. P (s\<lparr>st_events := es\<rparr>) = P s"
    and yes: "\<And>s. P s \<Longrightarrow> Q (those (map convert (rows s))) s" and no: "\<And>s. P s \<Longrightarrow> Q None s" and exn: "\<And>s. P s \<Longrightarrow> E s"
  shows "hoare P (query rows convert) Q E"
  unfolding query_def
proof (rule hoare_bind)
  show "hoare P next_event (\<lambda>_. P) E"
    by (rule hoare_conseq [OF hoare_next_event [OF ev]]) (use exn in auto)
  show "hoare P (case e of Io_fail \<Rightarrow> ret None | Io_intr \<Rightarrow> ret None | Io_lost \<Rightarrow> ret None | Io_crash \<Rightarrow> crash
      | _ \<Rightarrow> gets (\<lambda>s. those (map convert (rows s)))) Q E" for e
    using yes no exn by (cases e) (auto intro!: hoare_ret hoare_crash hoare_gets)
qed

lemma unready_query [unready_rules]: "keeps_unready en B (query rows convert)"
  by (rule keeps_query) (simp_all add: unready_events)

lemma ready_row_nodes: "st_nodes t = st_nodes s \<Longrightarrow> ready_row_ok en t r \<longleftrightarrow> ready_row_ok en s r"
  using segment_published_cong [of t _ s en] by (simp add: ready_row_ok_def node_at_def)

lemma unready_tables:
  assumes s: "unready en B s" and nodes: "st_nodes t = st_nodes s" and next_id: "ix_next_batch t = ix_next_batch s"
    and snap: "snapshot_wf (ix_snapshot s) \<Longrightarrow> snapshot_wf (ix_snapshot t)"
    and ids: "map ib_batch_id (ix_batches t) = map ib_batch_id (ix_batches s)"
    and rows: "\<And>r. r \<in> set (ix_batches t) \<Longrightarrow> ib_state r = Ready \<Longrightarrow> r \<in> set (ix_batches s)"
  shows "unready en B t"
proof -
  have "0 < ib_batch_id r \<and> ib_batch_id r < ix_next_batch t" if r: "r \<in> set (ix_batches t)" for r
  proof -
    have "ib_batch_id r \<in> set (map ib_batch_id (ix_batches s))" using r unfolding ids [symmetric] by simp
    then show ?thesis using s by (auto simp: next_id unready_def index_inv_def)
  qed
  moreover have "ready_row_ok en t r \<and> ib_batch_id r \<notin> B" if "r \<in> set (ix_batches t)" "ib_state r = Ready" for r
    using rows [OF that] that(2) s by (auto simp: unready_def index_inv_def ready_row_nodes [OF nodes])
  moreover have "distinct (map ib_batch_id (ix_batches t))" using s unfolding ids by (simp add: unready_def index_inv_def)
  moreover have "0 < ix_next_batch t \<and> snapshot_wf (ix_snapshot t)" using s snap by (simp add: next_id unready_def index_inv_def)
  ultimately show ?thesis unfolding unready_def index_inv_def by blast
qed

lemma update_batches_unready:
  assumes "unready en B s" and "update_batches P f s = Some (t, c)"
    and "\<And>r. ib_batch_id (f r) = ib_batch_id r \<and> ib_state (f r) \<noteq> Ready"
  shows "unready en B t"
  using assms(1)
proof (rule unready_tables)
  show "st_nodes t = st_nodes s" "ix_next_batch t = ix_next_batch s" "map ib_batch_id (ix_batches t) = map ib_batch_id (ix_batches s)"
    "snapshot_wf (ix_snapshot s) \<Longrightarrow> snapshot_wf (ix_snapshot t)"
    using assms(2,3) by (auto simp: update_batches_def)
  show "r \<in> set (ix_batches s)" if "r \<in> set (ix_batches t)" "ib_state r = Ready" for r
    using assms(2,3) that by (auto simp: update_batches_def split: if_splits)
qed

lemma update_archives_unready:
  "unready en B s \<Longrightarrow> update_archives P f s = Some (t, c) \<Longrightarrow> unready en B t"
  by (erule unready_tables) (auto simp: update_archives_def)

lemma unready_execute:
  assumes "\<And>s t c. unready en B s \<Longrightarrow> f s = Some (t, c) \<Longrightarrow> unready en B t"
  shows "keeps_unready en B (execute f)"
  by (rule hoare_execute) (use assms in \<open>auto simp: unready_events\<close>)

lemma unready_update:
  assumes "\<And>s t c. unready en B s \<Longrightarrow> f s = Some (t, c) \<Longrightarrow> unready en B t"
  shows "keeps_unready en B (execute_update f)" "keeps_unready en B (execute_changed_update f)"
  unfolding execute_update_def execute_changed_update_def
  by (rule hoare_bind [OF unready_execute [OF assms]], assumption, assumption, intro keeps_prod hoare_ret, assumption)+

lemma unready_update_batches [unready_rules]:
  assumes "\<And>r. ib_batch_id (f r) = ib_batch_id r \<and> ib_state (f r) \<noteq> Ready"
  shows "keeps_unready en B (execute_update (update_batches P f))" "keeps_unready en B (execute_changed_update (update_batches P f))"
  by (rule unready_update, erule (1) update_batches_unready, rule assms)+

lemma unready_update_archives [unready_rules]: "keeps_unready en B (execute_update (update_archives P f))"
  by (rule unready_update) (rule update_archives_unready)

lemma unready_marks [unready_rules]:
  "keeps_unready en B (mark_archive_parsed a n)" "keeps_unready en B (mark_archive_failed a code line)"
  "keeps_unready en B (mark_batch_parsed b path sha n)" "keeps_unready en B (mark_batch_failed b code)"
  "keeps_unready en B (reset_building_batch b code)" "keeps_unready en B (mark_segment_build_failed b code)"
  unfolding mark_archive_parsed_def mark_archive_failed_def mark_batch_parsed_def mark_batch_failed_def
    reset_building_batch_def mark_segment_build_failed_def
  by (intro unready_rules; simp)+

lemma unready_attach [unready_rules]: "keeps_unready en B (attach_archive b a p)"
  unfolding attach_archive_def
proof (rule unready_update)
  fix s t c
  assume "unready en B s" and "(let row = \<lparr>ia_archive_id = a, ia_batch_id = Some b, ia_profile = p, ia_state = Pending,
           ia_document_count = 0, ia_failure_code = None, ia_failure_line = None, ia_indexed = False\<rparr>
     in if \<not> list_ex (\<lambda>r. ib_batch_id r = b) (ix_batches s) then None
        else if list_ex (\<lambda>r. ia_archive_id r = a) (ix_archives s)
        then update_archives (\<lambda>r. ia_archive_id r = a) (\<lambda>r. row) s
        else Some (s\<lparr>ix_archives := ix_archives s @ [row]\<rparr>, True)) = Some (t, c)"
  then show "unready en B t"
    by (auto simp: Let_def update_archives_def split: if_splits elim!: unready_tables)
qed

text \<open>A new batch gets the next identifier, which no batch has.\<close>

lemma new_batch_unready:
  assumes s: "unready en B s" and room: "ix_next_batch s \<noteq> - 1"
    and t: "ix_batches t = ix_batches s @ [r]" "ib_batch_id r = ix_next_batch s" "ib_state r \<noteq> Ready"
      "st_nodes t = st_nodes s" "ix_next_batch t = ix_next_batch s + 1" "ix_snapshot t = ix_snapshot s"
  shows "unready en B t"
proof -
  have "1 + ix_next_batch s \<noteq> 0" using room by (metis add_eq_0_iff)
  from unatSuc [OF this] have more: "ix_next_batch s < ix_next_batch s + 1" by (simp add: word_less_nat_alt add.commute)
  have "0 < ix_next_batch s + 1" using more by (simp add: word_neq_0_conv [symmetric]) (use room in \<open>metis add_eq_0_iff add.commute\<close>)
  moreover have "ib_batch_id x < ix_next_batch s + 1" if "x \<in> set (ix_batches s)" for x
    using s that more by (auto simp: unready_def index_inv_def intro: less_trans)
  ultimately show ?thesis
    using s t more by (auto simp: unready_def index_inv_def ready_row_nodes [OF t(4)])
qed

lemma create_batch_unready:
  "hoare (unready en B) (create_batch f l n)
     (\<lambda>r s. unready en B s \<and> (\<forall>b. r = Some b \<longrightarrow> (\<exists>x\<in>set (ix_batches s). ib_batch_id x = b \<and> ib_state x = Parsing)))
     (unready en B)"
  unfolding create_batch_def
proof (rule hoare_bind [where R = "\<lambda>b s. unready en B s \<and> ix_next_batch s = b"], goal_cases)
  case (2 b)
  show ?case
  proof (rule hoare_bind [where R = "\<lambda>x s. unready en B s \<and> (fst x \<longrightarrow> (\<exists>x\<in>set (ix_batches s). ib_batch_id x = b \<and> ib_state x = Parsing))"], goal_cases)
    case 1
    show ?case
      by (rule hoare_execute [where R = "unready en B"])
        (auto simp: unready_events split: if_splits elim!: new_batch_unready)
  qed (auto intro!: hoare_ret keeps_prod split: if_splits)
qed (rule hoare_gets, simp)

text \<open>The statement that makes a batch READY.\<close>

lemma publish_step:
  assumes s: "unready en (insert b B) s" and pub: "segment_published en s b sha" and b: "b \<notin> B"
    and t: "ix_batches t = map (\<lambda>r. if P r then r\<lparr>ib_state := Ready, ib_segment_name := Some (segment_name b),
                ib_segment_sha256 := Some sha, ib_failure_code := None, ib_published := True\<rparr> else r) (ix_batches s)"
        "st_nodes t = st_nodes s" "ix_next_batch t = ix_next_batch s" "ix_snapshot t = ix_snapshot s" and P: "\<And>r. P r \<Longrightarrow> ib_batch_id r = b"
  shows "unready en B t"
proof -
  have ids: "map ib_batch_id (ix_batches t) = map ib_batch_id (ix_batches s)" by (simp add: t(1))
  have pub': "segment_published en t b sha" using pub segment_published_cong [of t b s en] t(2) by (simp add: node_at_def)
  have old: "0 < ib_batch_id r \<and> ib_batch_id r < ix_next_batch s \<and> (ib_state r = Ready \<longrightarrow> ready_row_ok en t r \<and> ib_batch_id r \<notin> B)"
    if "r \<in> set (ix_batches s)" for r
    using that s by (auto simp: unready_def index_inv_def ready_row_nodes [OF t(2)])
  have "0 < ib_batch_id r \<and> ib_batch_id r < ix_next_batch t \<and> (ib_state r = Ready \<longrightarrow> ready_row_ok en t r \<and> ib_batch_id r \<notin> B)"
    if r: "r \<in> set (ix_batches t)" for r
  proof -
    from r obtain r' where r': "r' \<in> set (ix_batches s)" and eq: "r = (if P r' then r'\<lparr>ib_state := Ready,
        ib_segment_name := Some (segment_name b), ib_segment_sha256 := Some sha, ib_failure_code := None,
        ib_published := True\<rparr> else r')"
      by (auto simp: t(1))
    show ?thesis
    proof (cases "P r'")
      case True
      from old [OF r'] P [OF True] b pub' True show ?thesis by (simp add: eq t(3) ready_row_ok_def)
    qed (use old [OF r'] in \<open>simp add: eq t(3)\<close>)
  qed
  moreover have "distinct (map ib_batch_id (ix_batches t))" using s unfolding ids by (simp add: unready_def index_inv_def)
  moreover have "0 < ix_next_batch t \<and> snapshot_wf (ix_snapshot t)" using s by (simp add: t(3,4) unready_def index_inv_def)
  ultimately show ?thesis unfolding unready_def index_inv_def by blast
qed

lemma published_events: "segment_published en (s\<lparr>st_events := es\<rparr>) b sha \<longleftrightarrow> segment_published en s b sha"
  by (rule segment_published_cong) simp

lemma publish_unready:
  assumes b: "b \<notin> B"
  shows "hoare (\<lambda>s. unready en (insert b B) s \<and> segment_published en s b sha)
    (publish_batch_ready b (segment_name b) sha) (\<lambda>_. unready en B) (unready en B)"
  unfolding publish_batch_ready_def execute_changed_update_def
proof (rule hoare_bind [where R = "\<lambda>_. unready en B"], goal_cases)
  case 1
  show ?case
  proof (rule hoare_execute [where R = "unready en B"], goal_cases)
    case (2 s t c)
    then have s: "unready en (insert b B) s" "segment_published en s b sha" by simp_all
    show ?case
    proof (cases "t = s")
      case False
      let ?P = "\<lambda>r. ib_batch_id r = b \<and> ib_state r = Building \<and> list_ex (\<lambda>a. ia_batch_id a = Some b) (ix_archives s)"
      from 2(2) False show ?thesis
        by (intro conjI publish_step [OF s b, where P = ?P]) (simp_all add: Let_def split: if_splits, safe, simp_all)
    qed (use unready_insert s in simp)
  qed (auto simp: unready_events published_events dest: unready_insert)
qed (auto intro!: hoare_ret keeps_prod)

end
