(* ===== verification/Index_Invariant.thy ===== *)
theory Index_Invariant
  imports Index_Statements
begin

text \<open>
  The invariant of the index (\<open>index_inv\<close>) for the whole operations of the segment manager and the
  incremental indexer, and for every run of them: whatever calls and statements fail, lose their
  acknowledgement or never return.
\<close>

section \<open>Recovery of interrupted builds\<close>

lemma row_unique:
  assumes "index_inv en s" "x \<in> set (ix_batches s)" "y \<in> set (ix_batches s)" "ib_batch_id x = ib_batch_id y"
  shows "x = y"
  using assms inj_onD [of ib_batch_id "set (ix_batches s)" x y] by (simp add: index_inv_def distinct_map)

lemma those_map_descriptors:
  "those (map batch_descriptor_row rs) = Some ds \<Longrightarrow> map bd_batch_id ds = map ib_batch_id rs"
  by (induction rs arbitrary: ds) (auto simp: batch_descriptor_row_def split: option.splits if_splits)

lemma distinct_batches_in: "index_inv en s \<Longrightarrow> distinct (map ib_batch_id (batches_in phase s))"
  by (auto simp: index_inv_def batches_in_def distinct_map intro: inj_on_subset)

lemma unready_batches_in:
  assumes "index_inv en s" and "phase \<noteq> Ready"
  shows "unready en (set (map ib_batch_id (batches_in phase s))) s"
proof -
  have "ib_state r = phase" if "r \<in> set (ix_batches s)" "r' \<in> set (batches_in phase s)" "ib_batch_id r = ib_batch_id r'" for r r'
    using row_unique [OF assms(1) that(1), of r'] that(2,3) by (simp add: batches_in_def)
  with assms show ?thesis by (auto simp: unready_def)
qed

lemma list_building_unready:
  "hoare (index_inv en) (require err list_building_batches)
     (\<lambda>ds s. unready en (set (map bd_batch_id ds)) s \<and> distinct (map bd_batch_id ds)) (index_inv en)"
  unfolding list_building_batches_def
proof (rule hoare_require, rule keeps_query, goal_cases)
  case (2 s)
  show ?case
  proof (cases "those (map batch_descriptor_row (batches_in Building s))")
    case (Some ds)
    with unready_batches_in [OF 2, of Building] distinct_batches_in [OF 2, of Building]
    show ?thesis by (simp add: those_map_descriptors)
  qed (simp add: 2)
qed (simp_all add: unready_events flip: unready_empty)

lemma load_unpublished_unready:
  "hoare (unready en B) (attempt (load_unpublished en b))
     (\<lambda>r s. unready en B s \<and> (\<forall>seg. r = Inr seg \<longrightarrow> ls_segment_name seg = segment_name b \<and>
        segment_published en s b (ls_manifest_sha256 seg))) (unready en B)"
proof -
  have k: "keeps_unready en B (load_unpublished en b)"
    unfolding load_unpublished_def by (intro touches_nothing_unready frame)
  have "hoare (unready en B) (load_unpublished en b)
     (\<lambda>seg s. unready en B s \<and> ls_segment_name seg = segment_name b \<and> segment_published en s b (ls_manifest_sha256 seg))
     (unready en B)"
  proof (rule hoareI, goal_cases)
    case (1 s seg t)
    from load_at_path_returns [OF 1(2) [unfolded load_unpublished_def]] segment_at_same
    have "segment_at en t (segments_root @ [segment_name b]) (segment_name b) b = Inr seg" by metis
    then show ?case
      using hoareD(1) [OF k 1] by (auto simp: segment_published_def dest: segment_at_wf)
  qed (use hoareD [OF k] in blast)+
  from hoare_attempt [OF this] show ?thesis
    by (rule hoare_conseq) (auto split: sum.splits)
qed

lemma recover_building_unready:
  assumes "b \<notin> B"
  shows "hoare (unready en (insert b B)) (recover_building_batch en b) (\<lambda>_. unready en B) (unready en B)"
proof -
  have weaken: "hoare (unready en (insert b B)) m (\<lambda>_. unready en B) (unready en B)" if "keeps_unready en (insert b B) m" for m
    by (rule hoare_conseq [OF that]) (auto dest: unready_insert)
  show ?thesis
    unfolding recover_building_batch_def
  proof (rule hoare_bind [where R = "\<lambda>_. unready en (insert b B)"], goal_cases)
    case 1
    show ?case by (rule hoare_conseq [OF unready_published_exists [where B = "insert b B"]]) (auto dest: unready_insert)
  next
    case (2 published)
    have "hoare (unready en (insert b B)) (bind (attempt (load_unpublished en b)) (\<lambda>r. case r of
           Inl e \<Rightarrow> seq (remove_segment b) (check Db_failed (mark_segment_build_failed b ''SEGMENT_RECOVERY_CORRUPTED''))
         | Inr segment \<Rightarrow> check Db_failed (publish_batch_ready b (ls_segment_name segment) (ls_manifest_sha256 segment))))
         (\<lambda>_. unready en B) (unready en B)"
    proof (rule hoare_bind, rule hoare_conseq [OF load_unpublished_unready], assumption, assumption, erule unready_insert, goal_cases)
      case (1 r)
      show ?case
      proof (cases r)
        case (Inl e)
        show ?thesis
          by (simp add: Inl, intro weaken keeps_rules unready_rules) simp
      next
        case (Inr seg)
        have "hoare (\<lambda>s. (unready en (insert b B) s \<and> segment_published en s b (ls_manifest_sha256 seg)) \<and> ls_segment_name seg = segment_name b)
            (publish_batch_ready b (ls_segment_name seg) (ls_manifest_sha256 seg)) (\<lambda>ok s. if ok then unready en B s else unready en B s) (unready en B)"
          by (rule hoare_pure) (simp add: publish_unready [OF assms])
        then show ?thesis
          unfolding Inr sum.case by (intro hoare_check) (erule hoare_pre, simp)
      qed
    qed
    moreover have "hoare (unready en (insert b B)) (check Db_failed (reset_building_batch b ''SEGMENT_BUILD_INTERRUPTED''))
        (\<lambda>_. unready en B) (unready en B)"
      by (intro weaken keeps_rules unready_rules)
    ultimately show ?case by (cases published) simp_all
  qed
qed


lemma recover_each_building:
  assumes "distinct (map bd_batch_id ds)"
  shows "hoare (unready en (set (map bd_batch_id ds))) (for_each (\<lambda>d. recover_building_batch en (bd_batch_id d)) ds)
    (\<lambda>_. index_inv en) (index_inv en)"
  using assms
proof (induction ds)
  case Nil
  show ?case by (simp, intro hoare_ret) (simp add: unready_empty)
next
  case (Cons d ds)
  then have out: "bd_batch_id d \<notin> set (map bd_batch_id ds)" and rest: "distinct (map bd_batch_id ds)" by simp_all
  have "hoare (unready en (insert (bd_batch_id d) (set (map bd_batch_id ds)))) (recover_building_batch en (bd_batch_id d))
      (\<lambda>_. unready en (set (map bd_batch_id ds))) (index_inv en)"
    by (rule hoare_conseq [OF recover_building_unready [OF out]]) (auto intro: unready_inv)
  from hoare_seq [OF this Cons.IH [OF rest]] show ?case by simp
qed

lemma recover_building_batches_keeps: "keeps (index_inv en) (recover_building_batches en)"
  unfolding recover_building_batches_def
proof (rule hoare_bind [OF list_building_unready])
  show "hoare (\<lambda>s. unready en (set (map bd_batch_id ds)) s \<and> distinct (map bd_batch_id ds))
    (for_each (\<lambda>d. recover_building_batch en (bd_batch_id d)) ds) (\<lambda>_. index_inv en) (index_inv en)" for ds
    by (intro hoare_pure recover_each_building)
qed

section \<open>The snapshot\<close>

lemma keeps_index_inv: "keeps_unready en {} m \<longleftrightarrow> keeps (index_inv en) m"
  by (simp add: unready_empty [abs_def])

lemma load_segment_sound_hoare:
  "hoare (unready en B) (load_segment en d) (\<lambda>seg s. unready en B s \<and> segment_wf seg) (unready en B)"
proof (rule hoareI, goal_cases)
  case (1 s seg t)
  from 1(2) obtain sha where "load_at_path en (segments_root @ [rd_segment_name d]) (rd_segment_name d) (rd_batch_id d) sha s = (Ret seg, t)"
    by (auto simp: load_segment_def throw_def split: if_splits)
  from load_at_path_returns(1) [OF this] hoareD(1) [OF unready_load_segment 1] show ?case
    by (auto dest: segment_at_wf)
qed (use hoareD [OF unready_load_segment] in blast)+

lemma load_ready_segments_sound:
  "hoare (unready en B) (load_ready_segments en ds) (\<lambda>segs s. unready en B s \<and> list_all segment_wf segs) (unready en B)"
proof (induction ds)
  case (Cons d ds)
  show ?case
    unfolding load_ready_segments.simps
  proof (rule hoare_bind [OF load_segment_sound_hoare], goal_cases)
    case (1 seg)
    show ?case by (intro hoare_pure hoare_bind [OF Cons.IH] hoare_ret) simp
  qed
qed (simp, intro hoare_ret, simp)

lemma unready_snapshot: "unready en B s \<Longrightarrow> snapshot_wf sn \<Longrightarrow> unready en B (s\<lparr>ix_snapshot := sn\<rparr>)"
  by (erule unready_tables) simp_all

lemma unready_refresh [unready_rules]: "keeps_unready en B (refresh_snapshot en)"
  unfolding refresh_snapshot_def list_ready_segments_def
proof (rule hoare_bind [OF keeps_require [OF unready_query]], rule hoare_bind [OF load_ready_segments_sound], goal_cases)
  case (1 ds segs)
  show ?case
    by (cases "new_snapshot (map Some segs)")
      (auto intro!: hoare_throw hoare_modify unready_snapshot dest!: new_snapshot_wf)
qed

lemma recover_building_batches_unready [unready_rules]: "keeps_unready en {} (recover_building_batches en)"
  unfolding keeps_index_inv by (rule recover_building_batches_keeps)

lemma recover_and_load_keeps [unready_rules]: "keeps_unready en {} (recover_and_load en)"
  unfolding recover_and_load_def list_ready_segments_def
  by (intro keeps_rules unready_rules)

section \<open>The build of a batch\<close>

lemma update_batchesD:
  assumes "update_batches P f s = Some (t, c)"
  shows "ix_batches t = map (\<lambda>r. if P r then f r else r) (ix_batches s)" "c \<longleftrightarrow> (\<exists>x\<in>set (ix_batches s). P x)"
  using assms by (auto simp: update_batches_def list_ex_iff)

lemma mark_building_unready:
  "hoare (index_inv en) (check err (mark_batch_building b name)) (\<lambda>_. unready en {b}) (index_inv en)"
proof (rule hoare_check)
  show "hoare (index_inv en) (mark_batch_building b name) (\<lambda>ok s. if ok then unready en {b} s else index_inv en s) (index_inv en)"
    unfolding mark_batch_building_def execute_changed_update_def
  proof (rule hoare_bind [where R = "\<lambda>x s. index_inv en s \<and> (fst x \<and> snd x \<longrightarrow> unready en {b} s)"], goal_cases)
    case 1
    show ?case
    proof (rule hoare_execute [where R = "index_inv en"], goal_cases)
      case (2 s t c)
      let ?P = "\<lambda>r. ib_batch_id r = b \<and> ib_state r = Parsed"
      from 2(2) have u: "update_batches ?P (\<lambda>r. r\<lparr>ib_state := Building, ib_segment_name := Some name, ib_segment_sha256 := None,
          ib_published := False, ib_failure_code := None\<rparr>) s = Some (t, c)" by (simp split: if_splits)
      have i: "index_inv en t"
        using update_batches_unready [OF _ u, of en "{}"] 2(1) by (simp add: unready_empty)
      have "ib_state r \<noteq> Ready" if c and r: "r \<in> set (ix_batches t)" "ib_batch_id r = b" for r
      proof -
        let ?f = "\<lambda>r. r\<lparr>ib_state := Building, ib_segment_name := Some name, ib_segment_sha256 := None,
          ib_published := False, ib_failure_code := None\<rparr>"
        note t = update_batchesD(1) [OF u] and hit = update_batchesD(2) [OF u]
        from hit \<open>c\<close> obtain x where x: "x \<in> set (ix_batches s)" "?P x" by blast
        from r obtain y where y: "y \<in> set (ix_batches s)" "r = (if ?P y then ?f y else y)" unfolding t set_map by blast
        then have y: "y \<in> set (ix_batches s)" "ib_batch_id y = b" "?P y \<Longrightarrow> ib_state r = Building"
          using r(2) by (simp_all split: if_splits)
        have "y = x" using row_unique [OF 2(1) y(1) x(1)] x(2) y(2) by simp
        with x y(3) show ?thesis by simp
      qed
      with i show ?case by (simp add: unready_def)
    qed (simp_all add: unready_events flip: unready_empty)
  qed (auto intro!: hoare_ret keeps_prod)
qed


lemma build_publishes_here:
  assumes m: "build en ax batch s = (Ret res, t)" and sha: "\<And>c. en_sha256 en c \<noteq> []"
    and b: "bd_batch_id (bt_descriptor batch) = b"
  shows "segment_published en t b (br_manifest_sha256 res) \<and> br_batch_id res = b \<and> br_segment_name res = segment_name b"
proof -
  have "br_segment_name res = segment_name b"
    using build_returns [OF m, of thesis for thesis] b by (metis segment_build_result.select_convs(2))
  with build_publishes_lemma [OF m sha] b show ?thesis by (auto simp: segment_published_def)
qed

lemma build_loaded_unready:
  assumes sha: "\<And>c. en_sha256 en c \<noteq> []"
  shows "hoare (unready en {bd_batch_id d}) (bind (load_batch en d) (build en ax))
    (\<lambda>res s. (unready en {bd_batch_id d} s \<and> segment_published en s (bd_batch_id d) (br_manifest_sha256 res)) \<and>
       br_batch_id res = bd_batch_id d \<and> br_segment_name res = segment_name (bd_batch_id d)) (unready en {bd_batch_id d})"
proof (rule hoare_bind [where R = "\<lambda>batch s. unready en {bd_batch_id d} s \<and> bt_descriptor batch = d"], goal_cases)
  case 1
  have k: "keeps_unready en {bd_batch_id d} (load_batch en d)" by (intro touches_nothing_unready frame)
  show ?case
    by (rule hoareI) (use hoareD [OF k] load_batch_consistent_lemma in blast)+
next
  case (2 batch)
  show ?case
  proof (rule hoare_pure)
    assume d: "bt_descriptor batch = d"
    have k: "keeps_unready en {bd_batch_id d} (build en ax batch)" by (rule touches_batch_unready [OF touches_build]) (simp add: d)
    show "hoare (unready en {bd_batch_id d}) (build en ax batch) (\<lambda>res s. (unready en {bd_batch_id d} s \<and>
        segment_published en s (bd_batch_id d) (br_manifest_sha256 res)) \<and>
       br_batch_id res = bd_batch_id d \<and> br_segment_name res = segment_name (bd_batch_id d)) (unready en {bd_batch_id d})"
      by (rule hoareI) (use hoareD [OF k] build_publishes_here [OF _ sha] d in blast)+
  qed
qed

lemma build_marked_unready:
  assumes sha: "\<And>c. en_sha256 en c \<noteq> []"
  shows "hoare (unready en {bd_batch_id d}) (build_marked en ax d) (\<lambda>_. index_inv en) (index_inv en)"
  unfolding build_marked_def
proof (rule hoare_bind, rule hoare_attempt [OF build_loaded_unready [OF sha]], erule unready_inv, goal_cases)
  case (1 r)
  have weaken: "hoare (unready en {bd_batch_id d}) m (\<lambda>_. index_inv en) (index_inv en)" if "keeps_unready en {bd_batch_id d} m" for m
    by (rule hoare_conseq [OF that]) (auto intro: unready_inv)
  show ?case
  proof (cases r)
    case (Inl e)
    show ?thesis
      unfolding Inl sum.case by (intro weaken keeps_rules unready_rules) simp
  next
    case (Inr res)
    have "hoare (\<lambda>s. (unready en {bd_batch_id d} s \<and> segment_published en s (bd_batch_id d) (br_manifest_sha256 res)) \<and>
        br_batch_id res = bd_batch_id d \<and> br_segment_name res = segment_name (bd_batch_id d))
      (check Db_failed (publish_batch_ready (br_batch_id res) (br_segment_name res) (br_manifest_sha256 res)))
      (\<lambda>_. index_inv en) (index_inv en)"
      by (rule hoare_pure, intro hoare_check) (use publish_unready [of "bd_batch_id d" "{}" en] in \<open>simp add: unready_empty [abs_def]\<close>)
    then show ?thesis
      unfolding Inr sum.case by (rule hoare_seq) (simp add: hoare_ret)
  qed
qed

lemma build_next_keeps:
  assumes sha: "\<And>c. en_sha256 en c \<noteq> []"
  shows "keeps_unready en {} (build_next en ax)"
  unfolding build_next_def list_parsed_batches_def Let_def
proof (intro keeps_seq keeps_bind unready_rules keeps_require, goal_cases)
  case (1 ds)
  show ?case
  proof (cases ds)
    case (Cons d rest)
    show ?thesis
      unfolding Cons list.case keeps_index_inv
      by (rule hoare_seq [OF mark_building_unready], rule hoare_bind [OF build_marked_unready [OF sha]],
        unfold keeps_index_inv [symmetric], intro keeps_seq unready_rules keeps_ret)
  qed (simp add: keeps_ret)
qed

section \<open>The indexer\<close>

lemma touches_acquire_lock: "touches (\<lambda>_. False) acquire_lock"
  unfolding acquire_lock_def by (intro frame)

lemma unready_acquire_lock [unready_rules]: "keeps_unready en B acquire_lock"
  by (rule touches_nothing_unready [OF touches_acquire_lock])

lemma unready_recover_each [unready_rules]: "keeps_unready en B (recover_each bs)"
  by (induction bs) (auto intro!: keeps_rules unready_rules)

lemma unready_recover_interrupted [unready_rules]: "keeps_unready en B recover_interrupted_batches"
  unfolding recover_interrupted_batches_def by (intro keeps_rules unready_rules)

lemma unready_recover_unlocked [unready_rules]: "keeps_unready en B recover_unlocked"
  unfolding recover_unlocked_def by (intro keeps_rules unready_rules)

lemma unready_recover [unready_rules]: "keeps_unready en B recover"
  unfolding recover_def by (intro keeps_rules unready_rules)

lemma unready_create [unready_rules]: "keeps_unready en B (create_batch f l n)"
  by (rule hoare_conseq [OF create_batch_unready]) auto

lemma unready_attach_outcomes [unready_rules]: "keeps_unready en B (attach_outcomes b os)"
  unfolding attach_outcomes_def by (intro keeps_rules unready_rules)

lemma unready_mark_failed [unready_rules]: "keeps_unready en B (mark_failed o1)"
  unfolding mark_failed_def by (rule unready_rules)

lemma unready_persist_outcomes [unready_rules]: "keeps_unready en B (persist_outcomes b os)"
  unfolding persist_outcomes_def by (intro keeps_rules unready_rules)

lemma unready_mark_all [unready_rules]: "keeps_unready en B (mark_all_failed os ok)"
  by (induction os arbitrary: ok) (auto intro!: keeps_rules unready_rules)

lemma unready_process_batch [unready_rules]: "keeps_unready en B (process_batch en' os n)"
  unfolding process_batch_def Let_def by (intro keeps_rules unready_rules)

lemma unready_find_by_ids [unready_rules]: "keeps_unready en B (find_by_ids ids)"
  unfolding find_by_ids_def by (intro keeps_rules unready_rules)

lemma unready_source_archives [unready_rules]: "keeps_unready en B (source_archives cf)"
  unfolding source_archives_def list_pending_archive_ids_def max_observed_archive_id_def list_after_def
  by (intro keeps_rules unready_rules)

lemma unready_load_profiles [unready_rules]: "keeps_unready en B load_profiles"
  unfolding load_profiles_def by (intro keeps_rules unready_rules)

lemma unready_scan_once [unready_rules]: "keeps_unready en B (scan_once en' sx cf)"
  unfolding scan_once_def by (intro keeps_rules unready_rules)

section \<open>Rebuild\<close>

lemma update_all_unready:
  assumes f: "\<And>r. ib_batch_id (f r) = ib_batch_id r \<and> ib_state (f r) \<noteq> Ready"
  shows "hoare (unready en B) (execute_update (update_batches (\<lambda>r. ib_batch_id r = b) f))
    (\<lambda>ok s. unready en (if ok then insert b B else B) s) (unready en B)"
  unfolding execute_update_def
proof (rule hoare_bind [where R = "\<lambda>x s. unready en (if fst x then insert b B else B) s"], goal_cases)
  case 1
  show ?case
  proof (rule hoare_execute [where R = "unready en B"], goal_cases)
    case (2 s t c)
    have u: "unready en B t" using 2 f by (rule update_batches_unready)
    have "ib_state r \<noteq> Ready" if "r \<in> set (ix_batches t)" "ib_batch_id r = b" for r
      using that f unfolding update_batchesD(1) [OF 2(2)] by (auto split: if_splits)
    with u show ?case by (auto simp: unready_def)
  qed (simp_all add: unready_events)
qed (auto intro!: hoare_ret keeps_prod)

lemma rebuild_state_unready:
  "hoare (unready en B) (request_rebuild_state a)
     (\<lambda>x s. unready en (if fst x = Queued then insert (snd x) B else B) s) (unready en B)"
  unfolding request_rebuild_state_def
proof (rule hoare_bind [OF unready_query], goal_cases)
  case (1 vs)
  have found: "hoare (unready en B) (bind (execute_update (update_batches (\<lambda>r. ib_batch_id r = b) f))
      (\<lambda>ok. if \<not> ok then ret (Unavailable, b)
        else bind (execute_update (update_archives P g)) (\<lambda>ok. ret (if ok then Queued else Unavailable, b))))
      (\<lambda>x s. unready en (if fst x = Queued then insert (snd x) B else B) s) (unready en B)"
    if "\<And>r. ib_batch_id (f r) = ib_batch_id r \<and> ib_state (f r) \<noteq> Ready" for b f P g
  proof (rule hoare_bind [OF update_all_unready [OF that]], goal_cases)
    case (1 ok)
    have "hoare (unready en (insert b B)) (bind (execute_update (update_archives P g)) (\<lambda>ok. ret (if ok then Queued else Unavailable, b)))
      (\<lambda>x s. unready en (if fst x = Queued then insert (snd x) B else B) s) (unready en B)"
      by (rule hoare_bind [OF hoare_conseq [OF unready_update_archives [where B = "insert b B"],
          where P' = "unready en (insert b B)" and Q' = "\<lambda>_. unready en (insert b B)" and E' = "unready en B"]])
        (auto intro!: hoare_ret dest: unready_insert)
    then show ?case by (cases ok) (simp_all add: hoare_ret)
  qed
  show ?case
    by (cases vs; simp add: hoare_ret split: list.split) (intro allI impI found, simp)
qed

lemma request_rebuild_keeps [unready_rules]: "keeps_unready en B (request_rebuild a)"
  unfolding request_rebuild_def
proof (rule hoare_seq [OF unready_acquire_lock], rule hoare_bind [OF rebuild_state_unready], goal_cases)
  case (1 x)
  have weaken: "hoare (unready en (insert (snd x) B)) m (\<lambda>_. unready en B) (unready en B)" if "keeps_unready en (insert (snd x) B) m" for m
    by (rule hoare_conseq [OF that]) (auto dest: unready_insert)
  have "hoare (unready en (insert (snd x) B)) (seq (remove_batch (snd x)) (seq (remove_segment (snd x)) (ret (fst x))))
      (\<lambda>_. unready en B) (unready en B)"
    by (intro weaken keeps_rules unready_rules) simp
  then show ?case
    by (cases x) (auto intro: hoare_ret)
qed

lemma worker_round_keeps [unready_rules]:
  assumes "\<And>c. en_sha256 en c \<noteq> []"
  shows "keeps_unready en {} (worker_round en sx ax cf)"
  unfolding worker_round_def by (intro keeps_rules unready_rules build_next_keeps assms)

section \<open>Runs\<close>

text \<open>
  A step of the deployed system is one whole operation of the server or of the administration tool, a
  restart (the snapshot is the only state kept in memory), or a change of the world around it: the
  outcomes of the next calls, the archive table and the parser profiles, the lock of another process.
\<close>

inductive index_step :: "'j store_env \<Rightarrow> 'b index_state_scheme \<Rightarrow> 'b index_state_scheme \<Rightarrow> bool" for en where
  scan: "index_step en s (snd (scan_once en sx cf s))"
| start: "index_step en s (snd (recover s))"
| load: "index_step en s (snd (recover_and_load en s))"
| build_step: "index_step en s (snd (build_next en ax s))"
| refresh: "index_step en s (snd (refresh_snapshot en s))"
| rebuild: "index_step en s (snd (request_rebuild a s))"
| work: "index_step en s (snd (worker_round en sx ax cf s))"
| restart: "index_step en s (s\<lparr>ix_snapshot := empty_snapshot\<rparr>)"
| world: "index_step en s (s\<lparr>st_events := es, ix_source := rs, ix_profiles := ps, ix_locked := l\<rparr>)"

lemma keeps_snd: "keeps (index_inv en) m \<Longrightarrow> index_inv en s \<Longrightarrow> index_inv en (snd (m s))"
  by (cases "m s"; cases "fst (m s)") (auto dest: hoareD)

lemma index_step_inv:
  assumes "index_step en s t" and "index_inv en s" and sha: "\<And>c. en_sha256 en c \<noteq> []"
  shows "index_inv en t"
  using assms(1,2)
proof cases
  case (world l ps rs es)
  have "unready en {} (s\<lparr>st_events := es\<rparr>)" using assms(2) by (simp add: unready_events unready_empty)
  then have "unready en {} t" by (rule unready_tables) (simp_all add: world)
  then show ?thesis by (simp add: unready_empty)
next
  case restart
  have "unready en {} t"
    using assms(2) unready_snapshot [of en "{}" s empty_snapshot] by (simp add: restart unready_empty snapshot_wf_def empty_snapshot_def)
  then show ?thesis by (simp add: unready_empty)
qed (use assms(2) in \<open>auto intro!: keeps_snd unready_rules build_next_keeps sha simp flip: keeps_index_inv\<close>)

lemma index_run_inv:
  assumes "(index_step en)\<^sup>*\<^sup>* s t" and "index_inv en s" and "\<And>c. en_sha256 en c \<noteq> []"
  shows "index_inv en t"
  using assms(1,2)
proof induction
  case (step t u)
  from index_step_inv [OF step(2) step.IH [OF step.prems] assms(3)] show ?case .
qed

end
