(* ===== verification/Index_Runs.thy ===== *)
theory Index_Runs
  imports Index_Invariant
begin

text \<open>
  What the invariant gives for every run of the index: published segments, a complete snapshot after a
  refresh without faults, and what goes wrong when two processes build at the same time.
\<close>

section \<open>Every run\<close>

lemma index_inv_initial:
  "ix_batches s = [] \<Longrightarrow> ix_next_batch s = 1 \<Longrightarrow> ix_snapshot s = empty_snapshot \<Longrightarrow> index_inv en s"
  by (simp add: index_inv_def snapshot_wf_def empty_snapshot_def)

lemma ready_row_segment:
  assumes "index_inv en s" "r \<in> set (ix_batches s)" "ib_state r = Ready"
  shows "\<exists>seg. segment_at en s (segments_root @ [segment_name (ib_batch_id r)]) (segment_name (ib_batch_id r)) (ib_batch_id r) = Inr seg \<and>
    segment_wf seg \<and> ls_batch_id seg = ib_batch_id r \<and>
    ib_segment_name r = Some (segment_name (ib_batch_id r)) \<and> ib_segment_sha256 r = Some (ls_manifest_sha256 seg)"
  using assms by (auto simp: index_inv_def ready_row_ok_def segment_published_def dest: segment_at_wf)

text \<open>
  C2: In every run of the server and the administration tool, whatever calls and statements fail, lose
  their acknowledgement or never return, a batch that the database calls READY has a published segment
  that loads, is well-formed and has the digest of its row.
\<close>

theorem ready_published:
  assumes "(index_step en)\<^sup>*\<^sup>* s t" and "index_inv en s" and "\<And>c. en_sha256 en c \<noteq> []"
    and "r \<in> set (ix_batches t)" and "ib_state r = Ready"
  shows "\<exists>seg. segment_at en t (segments_root @ [segment_name (ib_batch_id r)]) (segment_name (ib_batch_id r)) (ib_batch_id r) = Inr seg \<and>
    segment_wf seg \<and> ls_batch_id seg = ib_batch_id r \<and>
    ib_segment_name r = Some (segment_name (ib_batch_id r)) \<and> ib_segment_sha256 r = Some (ls_manifest_sha256 seg)"
  using ready_row_segment [OF index_run_inv [OF assms(1,2,3)] assms(4,5)] .

section \<open>A refresh without faults\<close>

lemma segment_at_digest:
  assumes "segment_at en s p name b = Inr seg"
  shows "\<exists>c. ls_manifest_sha256 seg = en_sha256 en c"
  using assms by (auto simp: segment_at_def sbind_def load_tables_def Let_def split: if_splits sum.splits prod.splits)

lemma those_map_some: "(\<And>x. x \<in> set xs \<Longrightarrow> f x = Some (g x)) \<Longrightarrow> those (map f xs) = Some (map g xs)"
  by (induction xs) auto

lemma query_quiet: "st_events s = [] \<Longrightarrow> query rows convert s = (Ret (those (map convert (rows s))), s)"
  by (simp add: query_def next_event_def exec_simps)

definition ready_segment :: "'j store_env \<Rightarrow> 'b index_state_scheme \<Rightarrow> batch_row \<Rightarrow> loaded_segment" where
  "ready_segment en s r =
     projr (segment_at en s (segments_root @ [segment_name (ib_batch_id r)]) (segment_name (ib_batch_id r)) (ib_batch_id r))"

definition row_descriptor :: "batch_row \<Rightarrow> ready_segment_descriptor" where
  "row_descriptor r = \<lparr>rd_batch_id = ib_batch_id r, rd_segment_name = segment_name (ib_batch_id r), rd_segment_sha256 = the (ib_segment_sha256 r)\<rparr>"

lemma load_ready_quiet:
  assumes i: "index_inv en s" and q: "st_events s = []" and sha: "\<And>c. valid_sha256 (en_sha256 en c)"
    and r: "r \<in> set (ix_batches s)" "ib_state r = Ready"
  shows "ready_descriptor_row r = Some (row_descriptor r)" "load_segment en (row_descriptor r) s = (Ret (ready_segment en s r), s)"
    "ls_batch_id (ready_segment en s r) = ib_batch_id r"
proof -
  from ready_row_segment [OF i r] obtain seg where
    seg: "segment_at en s (segments_root @ [segment_name (ib_batch_id r)]) (segment_name (ib_batch_id r)) (ib_batch_id r) = Inr seg"
    "ls_batch_id seg = ib_batch_id r" "ib_segment_name r = Some (segment_name (ib_batch_id r))"
    "ib_segment_sha256 r = Some (ls_manifest_sha256 seg)" by blast
  have valid: "valid_sha256 (ls_manifest_sha256 seg)" using segment_at_digest [OF seg(1)] sha by auto
  then have "length (ls_manifest_sha256 seg) = 64" by (simp add: valid_sha256_def)
  moreover have pos: "ib_batch_id r \<noteq> 0" using i r by (auto simp: index_inv_def)
  moreover have "segment_name (ib_batch_id r) \<noteq> []" by (simp add: segment_name_def)
  ultimately show "ready_descriptor_row r = Some (row_descriptor r)"
    using seg by (simp add: ready_descriptor_row_def row_descriptor_def)
  show "load_segment en (row_descriptor r) s = (Ret (ready_segment en s r), s)"
    using load_quiet [OF q seg(1), of "ls_manifest_sha256 seg"] pos seg valid
    by (simp add: load_segment_def row_descriptor_def ready_segment_def)
  show "ls_batch_id (ready_segment en s r) = ib_batch_id r" using seg by (simp add: ready_segment_def)
qed

lemma load_ready_segments_quiet:
  assumes "\<And>r. r \<in> set rs \<Longrightarrow> load_segment en (f r) s = (Ret (g r), s)"
  shows "load_ready_segments en (map f rs) s = (Ret (map g rs), s)"
  using assms by (induction rs) (simp_all add: exec_simps)

lemma batches_in_iff: "r \<in> set (batches_in phase s) \<longleftrightarrow> r \<in> set (ix_batches s) \<and> ib_state r = phase"
  by (auto simp: batches_in_def)

lemma batches_in_increasing: "index_inv en s \<Longrightarrow> sorted_wrt (<) (map ib_batch_id (batches_in phase s))"
  using distinct_batches_in [of en s phase] by (simp add: batches_in_def strict_sorted_iff)

lemma refresh_quiet:
  assumes i: "index_inv en s" and q: "st_events s = []" and sha: "\<And>c. valid_sha256 (en_sha256 en c)"
  shows "\<exists>sn. refresh_snapshot en s = (Ret (), s\<lparr>ix_snapshot := sn\<rparr>) \<and>
    sn_segments sn = map (ready_segment en s) (batches_in Ready s)"
proof -
  let ?rs = "batches_in Ready s"
  have r: "ready_descriptor_row r = Some (row_descriptor r)" "load_segment en (row_descriptor r) s = (Ret (ready_segment en s r), s)"
    "ls_batch_id (ready_segment en s r) = ib_batch_id r" "0 < ib_batch_id r" if "r \<in> set ?rs" for r
    using load_ready_quiet [OF i q sha, of r] that i by (auto simp: batches_in_iff index_inv_def)
  have ids: "map ls_batch_id (map (ready_segment en s) ?rs) = map ib_batch_id ?rs" by (simp add: r(3))
  have "sorted_wrt (<) (0 # map ls_batch_id (map (ready_segment en s) ?rs))"
    unfolding ids using r(4) batches_in_increasing [OF i, of Ready] by auto
  then obtain sn where sn: "new_snapshot (map Some (map (ready_segment en s) ?rs)) = Inr sn"
    unfolding new_snapshot_def using new_snapshot_accepts by blast
  have wf: "list_all segment_wf (map (ready_segment en s) ?rs)"
    using ready_row_segment [OF i] by (fastforce simp: list_all_iff batches_in_iff ready_segment_def)
  have "refresh_snapshot en s = (Ret (), s\<lparr>ix_snapshot := sn\<rparr>)"
    unfolding refresh_snapshot_def list_ready_segments_def require_def
    using sn by (simp add: exec_simps query_quiet [OF q] those_map_some [OF r(1)] load_ready_segments_quiet [OF r(2)])
  with new_snapshot_wf [OF sn wf] show ?thesis by blast
qed


lemma refresh_quiet_facts:
  assumes i: "index_inv en s" and q: "st_events s = []" and sha: "\<And>c. valid_sha256 (en_sha256 en c)"
  shows "\<exists>sn. refresh_snapshot en s = (Ret (), s\<lparr>ix_snapshot := sn\<rparr>) \<and> snapshot_wf sn \<and>
    map ls_batch_id (sn_segments sn) = map ib_batch_id (batches_in Ready s) \<and>
    (\<forall>seg\<in>set (sn_segments sn). segment_published en s (ls_batch_id seg) (ls_manifest_sha256 seg))"
proof -
  from refresh_quiet [OF assms] obtain sn where sn: "refresh_snapshot en s = (Ret (), s\<lparr>ix_snapshot := sn\<rparr>)"
    "sn_segments sn = map (ready_segment en s) (batches_in Ready s)" by blast
  have "keeps (index_inv en) (refresh_snapshot en)"
    using unready_refresh [of en "{}"] by (simp add: keeps_index_inv)
  from hoareD(1) [OF this i sn(1)] have "snapshot_wf sn" by (simp add: index_inv_def)
  moreover have "segment_published en s (ib_batch_id r) (ls_manifest_sha256 (ready_segment en s r)) \<and>
      ls_batch_id (ready_segment en s r) = ib_batch_id r" if "r \<in> set (batches_in Ready s)" for r
    using ready_row_segment [OF i, of r] load_ready_quiet(3) [OF i q sha, of r] that
    by (auto simp: batches_in_iff segment_published_def ready_segment_def)
  ultimately show ?thesis using sn by (intro exI [of _ sn]) auto
qed

text \<open>
  C10: From every state a run can reach, a refresh whose calls and statements do not fail returns, and
  the snapshot it publishes holds exactly the READY segments, each loaded from its directory.
\<close>

theorem refresh_complete:
  assumes "(index_step en)\<^sup>*\<^sup>* s t" and "index_inv en s" and "\<And>c. valid_sha256 (en_sha256 en c)" and "st_events t = []"
  shows "\<exists>sn. refresh_snapshot en t = (Ret (), t\<lparr>ix_snapshot := sn\<rparr>) \<and> snapshot_wf sn \<and>
    map ls_batch_id (sn_segments sn) = map ib_batch_id (batches_in Ready t) \<and>
    (\<forall>seg\<in>set (sn_segments sn). segment_published en t (ls_batch_id seg) (ls_manifest_sha256 seg))"
proof -
  have "en_sha256 en c \<noteq> []" for c using assms(3) [of c] by (auto simp: valid_sha256_def)
  from index_run_inv [OF assms(1,2) this] have i: "index_inv en t" .
  show ?thesis using refresh_quiet_facts [OF i assms(4,3)] .
qed

section \<open>Two builds at the same time\<close>

text \<open>
  \<open>buildNext\<close> does not take the operation lock, so \<open>build-once\<close> of the administration tool may run
  while the server builds. Its recovery takes the batch of the running build for an interrupted one:
\<close>

lemma recovery_takes_running_build:
  assumes q: "st_events s = []" and dir: "node_at s (segments_root @ [segment_name b]) = None"
    and r: "r \<in> set (ix_batches s)" "ib_batch_id r = b" "ib_state r = Building"
  shows "\<exists>t. recover_building_batch en b s = (Ret (), t) \<and> (\<exists>r'\<in>set (ix_batches t). ib_batch_id r' = b \<and> ib_state r' = Parsed)"
proof -
  let ?P = "\<lambda>r. ib_batch_id r = b \<and> ib_state r = Building"
  let ?f = "\<lambda>r. r\<lparr>ib_state := Parsed, ib_segment_name := None, ib_segment_sha256 := None, ib_published := False,
        ib_failure_code := Some ''SEGMENT_BUILD_INTERRUPTED''\<rparr>"
  let ?t = "s\<lparr>ix_batches := map (\<lambda>r. if ?P r then ?f r else r) (ix_batches s)\<rparr>"
  have "list_ex ?P (ix_batches s)" using r by (auto simp: list_ex_iff)
  then have "recover_building_batch en b s = (Ret (), ?t)"
    using q dir unfolding recover_building_batch_def published_exists_def reset_building_batch_def
    by (simp add: is_directory_quiet check_def execute_changed_update_def execute_def next_event_def run_statement_def
        update_batches_def exec_simps)
  moreover have "(if ?P r then ?f r else r) \<in> set (map (\<lambda>r. if ?P r then ?f r else r) (ix_batches s))"
    unfolding set_map using r(1) by (rule imageI)
  then have "?f r \<in> set (map (\<lambda>r. if ?P r then ?f r else r) (ix_batches s))" using r(2,3) by (simp del: set_map)
  ultimately show ?thesis using r(2) by (intro exI [of _ ?t] conjI bexI [of _ "?f r"]) (simp_all del: set_map)
qed

lemma touches_load_build: "touches (\<lambda>_. True) (bind (load_batch en d) (build en ax))"
  by (intro frame touches_mono [OF touches_build]) simp

lemma remove_segment_returns: "remove_segment b s = (Ret x, t) \<Longrightarrow> node_at t (segments_root @ [segment_name b]) = None"
  unfolding remove_segment_def remove_segment_directory_def by (auto simp: returns dest: remove_directory_returns)

lemma remove_segment_shaped:
  assumes q: "st_events s = []" and shape: "segment_shaped s (building_root @ [segment_name b])" "segment_shaped s (segments_root @ [segment_name b])"
  shows "\<exists>t. remove_segment b s = (Ret (), t)"
proof -
  obtain u where u: "remove_segment_directory (building_root @ [segment_name b]) s = (Ret (), u)" "st_events u = []"
    "\<And>r. node_at u r = (if r = building_root @ [segment_name b] \<or> (\<exists>c. r = (building_root @ [segment_name b]) @ [c]) then None else node_at s r)"
    using remove_segment_quiet [OF q shape(1)] by blast
  have "segment_shaped u (segments_root @ [segment_name b])"
    using shape(2) by (simp add: segment_shaped_def u(3) segments_root_def building_root_def)
  from remove_segment_quiet [OF u(2) this] u(1) show ?thesis
    unfolding remove_segment_def by (metis seqI)
qed

lemma unmatched_changed_update:
  assumes "\<not> list_ex P (ix_batches s)"
  shows "\<exists>res t. execute_changed_update (update_batches P f) s = (res, t) \<and> (res = Ret False \<or> res = Crashed) \<and>
    ix_batches t = ix_batches s \<and> st_nodes t = st_nodes s"
proof -
  have same: "map (\<lambda>r. if P r then f r else r) (ix_batches s) = ix_batches s"
    using assms by (intro map_idI) (auto simp: list_ex_iff)
  show ?thesis
    using assms same
    by (cases "st_events s"; cases "hd (st_events s)")
      (simp_all add: execute_changed_update_def execute_def next_event_def run_statement_def update_batches_def exec_simps)
qed

text \<open>
  C23: The lock does not cover the building of segments. When another process has meanwhile published
  the batch, the failure handler of a build removes the segment of a READY batch: what is left is a
  READY row without a segment, on which every later refresh and every restart fails.
\<close>

theorem overlapping_build_destroys:
  assumes "index_inv en s" and r: "r \<in> set (ix_batches s)" "ib_batch_id r = bd_batch_id d" "ib_state r = Ready"
    and f: "bind (load_batch en d) (build en ax) s = (Throw e, t)" and rem: "remove_segment (bd_batch_id d) t = (Ret (), u)"
  shows "\<exists>res v. build_marked en ax d s = (res, v) \<and> (res = Throw Db_failed \<or> res = Crashed) \<and>
    r \<in> set (ix_batches v) \<and> node_at v (segments_root @ [segment_name (bd_batch_id d)]) = None \<and> \<not> index_inv en v"
proof -
  let ?b = "bd_batch_id d"
  have t: "ix_batches t = ix_batches s" using more_fields(1) [OF touchesD(1) [OF touches_load_build f]] .
  have u: "ix_batches u = ix_batches s" using more_fields(1) [OF touchesD(1) [OF touches_remove_segment_op rem]] t by simp
  have other: "\<not> list_ex (\<lambda>r. ib_batch_id r = ?b \<and> (ib_state r = Parsed \<or> ib_state r = Building)) (ix_batches u)"
    using row_unique [OF assms(1) r(1)] r(2,3) unfolding u list_ex_iff by auto
  from unmatched_changed_update [OF this] obtain res :: "(index_error, bool) result" and v where
    v: "mark_segment_build_failed ?b ''SEGMENT_BUILD_FAILED'' u = (res, v)" "res = Ret False \<or> res = Crashed"
      "ix_batches v = ix_batches s" "st_nodes v = st_nodes u"
    unfolding mark_segment_build_failed_def u by blast
  have gone: "node_at v (segments_root @ [segment_name ?b]) = None"
    using remove_segment_returns [OF rem] v(4) by (simp add: node_at_def)
  have "\<not> index_inv en v"
  proof
    assume "index_inv en v"
    from ready_row_segment [OF this, of r] r v(3) gone show False by (auto simp: segment_at_def)
  qed
  moreover have "attempt (bind (load_batch en d) (build en ax)) s = (Ret (Inl e), t)"
    using f by (simp add: attempt_def exec_simps)
  ultimately show ?thesis
    using v r(1) gone rem by (auto simp: build_marked_def check_def exec_simps)
qed

section \<open>A sample\<close>

definition sample_ready_row :: batch_row where
  "sample_ready_row = \<lparr>ib_batch_id = 1, ib_first_archive_id = 5, ib_last_archive_id = 5, ib_state = Ready,
     ib_segment_name = Some (segment_name 1), ib_source_file_count = 1, ib_document_count = 1,
     ib_segment_sha256 = Some (sample_sha []), ib_parsed_path = Some ''P'', ib_parsed_sha256 = Some (sample_sha []),
     ib_failure_code = None, ib_published = True\<rparr>"

definition sample_index :: index_state where
  "sample_index = written (segments_root @ [segment_name 1]) sample_contents (''M'' @ [CHR 0x0A])
     \<lparr>st_nodes = [(segments_root @ [segment_name 1], Dir), (building_root, Dir), (segments_root, Dir), ([], Dir)], st_events = [],
      ix_batches = [sample_ready_row], ix_archives = [], ix_profiles = [], ix_next_batch = 2, ix_source = [], ix_locked = False,
      ix_snapshot = empty_snapshot\<rparr>"

lemma sample_index_fields: "st_events sample_index = []" "ix_batches sample_index = [sample_ready_row]"
    "ix_next_batch sample_index = 2" "ix_snapshot sample_index = empty_snapshot"
  by (simp_all add: sample_index_def written_def put_node_def)

lemma sample_index_segment:
  "segment_at sample_env sample_index (segments_root @ [segment_name 1]) (segment_name 1) 1 =
    Inr (built_segment sample_env (bt_descriptor sample_batch) sample_tables sample_contents (sample_sha []))"
proof -
  let ?p = "segments_root @ [segment_name 1]"
  let ?base = "\<lparr>st_nodes = [(?p, Dir), (building_root, Dir), (segments_root, Dir), ([], Dir)], st_events = [],
      ix_batches = [sample_ready_row], ix_archives = [], ix_profiles = [], ix_next_batch = 2, ix_source = [], ix_locked = False,
      ix_snapshot = empty_snapshot\<rparr> :: index_state"
  have dir: "node_at ?base ?p = Some Dir" "node_at ?base (?p @ [n]) = None" for n
    by (simp_all add: node_at_def segments_root_def building_root_def)
  note w = written_nodes [OF dir, where c = sample_contents and m = "''M'' @ [CHR 0x0A]", folded sample_index_def]
  note acc = sample_acceptable [unfolded build_acceptable_def sample_env_facts(4)] and st = build_tables_statistics [OF sample_build]
  show ?thesis
    using acc segment_at_built [OF sample_env_facts(1,2) _ sample_env_facts(5) _ _ _ st(2,3) _ _ _ _ sample_serialize st(1) w(1-4)]
    by (simp add: sample_batch_id sample_env_facts(3) sample_sha_def)
qed

lemma sample_index_inv: "index_inv sample_env sample_index"
proof -
  have "segment_published sample_env sample_index 1 (sample_sha [])"
    using sample_index_segment by (simp add: segment_published_def built_segment_def Let_def)
  then show ?thesis
    by (simp add: index_inv_def sample_index_fields ready_row_ok_def sample_ready_row_def snapshot_wf_def empty_snapshot_def)
qed

lemma sample_sha_ne: "en_sha256 sample_env c \<noteq> []"
  by (simp add: sample_env_facts(3) sample_sha_def)

theorem ready_published_witness:
  "\<exists>seg. segment_at sample_env (sample_index\<lparr>ix_snapshot := empty_snapshot\<rparr>) (segments_root @ [segment_name 1]) (segment_name 1) 1 = Inr seg \<and>
     segment_wf seg"
proof -
  have run: "(index_step sample_env)\<^sup>*\<^sup>* sample_index (sample_index\<lparr>ix_snapshot := empty_snapshot\<rparr>)"
    by (rule r_into_rtranclp) (rule index_step.restart)
  have r: "sample_ready_row \<in> set (ix_batches (sample_index\<lparr>ix_snapshot := empty_snapshot\<rparr>))"
    by (simp add: sample_index_fields)
  have "ib_state sample_ready_row = Ready" "ib_batch_id sample_ready_row = 1" by (simp_all add: sample_ready_row_def)
  with ready_published [OF run sample_index_inv sample_sha_ne r] show ?thesis by auto
qed

theorem refresh_complete_witness:
  "\<exists>sn. refresh_snapshot sample_env sample_index = (Ret (), sample_index\<lparr>ix_snapshot := sn\<rparr>) \<and>
     map ls_batch_id (sn_segments sn) = [1]"
proof -
  have "map ib_batch_id (batches_in Ready sample_index) = [1]"
    by (simp add: batches_in_def sample_index_fields) (simp add: sample_ready_row_def)
  with refresh_complete [OF rtranclp.rtrancl_refl sample_index_inv sample_env_facts(2) sample_index_fields(1)]
  show ?thesis by auto
qed

theorem overlapping_build_destroys_witness:
  "\<exists>d res v. build_marked sample_env sample_access d sample_index = (res, v) \<and> \<not> index_inv sample_env v"
proof -
  let ?d = "\<lparr>bd_batch_id = 1, bd_first_archive_id = 5, bd_last_archive_id = 5, bd_source_file_count = 1, bd_document_count = 1,
      bd_parsed_path = ''P'', bd_parsed_sha256 = sample_sha []\<rparr>"
  have f: "bind (load_batch sample_env ?d) (build sample_env sample_access) sample_index = (Throw Descriptor_invalid, sample_index)"
    by (simp add: load_batch_def batch_name_def exec_simps)
  have "segment_shaped sample_index (building_root @ [segment_name 1])" "segment_shaped sample_index (segments_root @ [segment_name 1])"
    by (simp_all add: segment_shaped_def sample_index_def written_def put_node_def node_at_def segments_root_def building_root_def segment_files_def
        segment_name_not_building [symmetric])
  from remove_segment_shaped [OF sample_index_fields(1) this] obtain u where
    "remove_segment (bd_batch_id ?d) sample_index = (Ret (), u)" by auto
  from overlapping_build_destroys [OF sample_index_inv _ _ _ f this, of sample_ready_row] show ?thesis
    by (auto simp: sample_index_fields sample_ready_row_def)
qed

end
