(* ===== verification/Batch_Lifecycle.thy ===== *)
theory Batch_Lifecycle
  imports Index_Invariant
begin

text \<open>
  The life cycle of a batch as an abstract transition system, and the simulation: whatever an operation
  of the index does to the database, and wherever it is cut off, is a sequence of its steps. The
  predicate \<open>ev m X\<close> says that the phases developed from \<open>m\<close> by such steps and that those of \<open>X\<close> are known.
\<close>

section \<open>The specification\<close>

fun phase_move :: "batch_phase \<Rightarrow> batch_phase \<Rightarrow> bool" where
  "phase_move Parsing Parsed = True"
| "phase_move Parsed Building = True"
| "phase_move Building Parsed = True"
| "phase_move Building Ready = True"
| "phase_move p q \<longleftrightarrow> q = Failed"

inductive life_step :: "(u64 \<rightharpoonup> batch_phase) \<Rightarrow> (u64 \<rightharpoonup> batch_phase) \<Rightarrow> bool" where
  created: "m b = None \<Longrightarrow> life_step m (m(b \<mapsto> Parsing))"
| moved: "m b = Some p \<Longrightarrow> phase_move p q \<Longrightarrow> life_step m (m(b \<mapsto> q))"

lemma phase_move_iff: "phase_move p q \<longleftrightarrow> q = Failed \<or> (p, q) \<in> {(Parsing, Parsed), (Parsed, Building), (Building, Parsed), (Building, Ready)}"
  by (cases p; cases q) simp_all

text \<open>What the specification promises: no batch disappears, failure is final, READY comes from BUILDING.\<close>

lemma life_failed:
  assumes "life_step\<^sup>*\<^sup>* m n" "m b = Some Failed"
  shows "n b = Some Failed"
  using assms by induction (auto elim!: life_step.cases simp: phase_move_iff)

lemma life_keeps_batches:
  assumes "life_step\<^sup>*\<^sup>* m n" "m b = Some p"
  shows "\<exists>q. n b = Some q"
  using assms by induction (auto elim!: life_step.cases)

lemma life_ready_final:
  assumes "life_step\<^sup>*\<^sup>* m n" "m b = Some Ready"
  shows "n b = Some Ready \<or> n b = Some Failed"
  using assms by induction (auto elim!: life_step.cases simp: phase_move_iff split: if_splits)

section \<open>The abstraction\<close>

definition row_phases :: "batch_row list \<Rightarrow> (u64 \<rightharpoonup> batch_phase)" where
  "row_phases rs = map_of (map (\<lambda>r. (ib_batch_id r, ib_state r)) rs)"

definition phases :: "'b index_state_scheme \<Rightarrow> (u64 \<rightharpoonup> batch_phase)" where
  "phases s = row_phases (ix_batches s)"

definition ids_ok :: "'b index_state_scheme \<Rightarrow> bool" where
  "ids_ok s \<longleftrightarrow> distinct (map ib_batch_id (ix_batches s)) \<and> (\<forall>r\<in>set (ix_batches s). ib_batch_id r < ix_next_batch s)"

definition ev :: "(u64 \<rightharpoonup> batch_phase) \<Rightarrow> (u64 \<rightharpoonup> batch_phase) \<Rightarrow> 'b index_state_scheme \<Rightarrow> bool" where
  "ev m X s \<longleftrightarrow> ids_ok s \<and> life_step\<^sup>*\<^sup>* m (phases s) \<and> X \<subseteq>\<^sub>m phases s"

lemma ev_weaken: "ev m X s \<Longrightarrow> ev m Map.empty s"
  by (simp add: ev_def)

lemma ev_cong: "ix_batches t = ix_batches s \<Longrightarrow> ix_next_batch t = ix_next_batch s \<Longrightarrow> ev m X t \<longleftrightarrow> ev m X s"
  by (simp add: ev_def ids_ok_def phases_def)

lemma ev_same: "ev m X s \<Longrightarrow> ix_batches t = ix_batches s \<Longrightarrow> ix_next_batch t = ix_next_batch s \<Longrightarrow> ev m X t"
  by (simp add: ev_cong [of t s])

lemma ev_events [simp]: "ev m X (s\<lparr>st_events := es\<rparr>) \<longleftrightarrow> ev m X s"
  by (rule ev_cong) simp_all

lemma row_phases_none: "row_phases rs b = None \<longleftrightarrow> b \<notin> ib_batch_id ` set rs"
  by (auto simp: row_phases_def map_of_eq_None_iff image_image)

lemma row_phases_some:
  "distinct (map ib_batch_id rs) \<Longrightarrow> r \<in> set rs \<Longrightarrow> row_phases rs (ib_batch_id r) = Some (ib_state r)"
  unfolding row_phases_def by (rule map_of_is_SomeI) (auto simp: comp_def)

lemma row_phases_update:
  assumes "distinct (map ib_batch_id rs)" and P: "\<And>r. P r \<Longrightarrow> ib_batch_id r = b" and f: "\<And>r. ib_batch_id (f r) = ib_batch_id r"
    and r: "r \<in> set rs" "P r"
  shows "row_phases (map (\<lambda>r. if P r then f r else r) rs) = (row_phases rs)(b \<mapsto> ib_state (f r))"
  using assms(1) r
proof (induction rs)
  case (Cons x rs)
  show ?case
  proof (cases "r = x")
    case True
    have "\<not> P y" if "y \<in> set rs" for y
    proof
      assume "P y"
      then have "ib_batch_id x = ib_batch_id y" using P [of y] P [of r] Cons.prems(3) True by simp
      with that Cons.prems(1) show False by simp
    qed
    then have "map (\<lambda>r. if P r then f r else r) rs = rs" by (intro map_idI) auto
    then show ?thesis using Cons.prems True P [of r] f by (simp add: row_phases_def fun_eq_iff)
  next
    case False
    then have r: "r \<in> set rs" using Cons.prems by simp
    then have other: "ib_batch_id x \<noteq> b" using Cons.prems(1,3) P [of r] by auto
    then have "\<not> P x" using P [of x] by blast
    moreover note other
    moreover note Cons.IH [OF _ r Cons.prems(3)] Cons.prems(1)
    ultimately show ?thesis by (simp add: row_phases_def fun_eq_iff)
  qed
qed simp

text \<open>An update of the rows of one batch is a move of that batch, or nothing.\<close>

lemma ev_update:
  assumes s: "ev m X s" and t: "ix_batches t = map (\<lambda>r. if P r then f r else r) (ix_batches s)" "ix_next_batch t = ix_next_batch s"
    and P: "\<And>r. P r \<Longrightarrow> ib_batch_id r = b" and f: "\<And>r. ib_batch_id (f r) = ib_batch_id r"
    and move: "\<And>r. P r \<Longrightarrow> phases s b = Some (ib_state r) \<Longrightarrow> phase_move (ib_state r) (ib_state (f r))"
  shows "ev m Map.empty t"
proof -
  have d: "distinct (map ib_batch_id (ix_batches s))" using s by (simp add: ev_def ids_ok_def)
  have ids: "map ib_batch_id (ix_batches t) = map ib_batch_id (ix_batches s)" using f by (simp add: t(1))
  have "ib_batch_id r < ix_next_batch s" if "r \<in> set (ix_batches t)" for r
  proof -
    have "ib_batch_id r \<in> set (map ib_batch_id (ix_batches t))" using that by simp
    then show ?thesis using s unfolding ids by (auto simp: ev_def ids_ok_def)
  qed
  then have ok: "ids_ok t" using d ids t(2) unfolding ids_ok_def by simp
  show ?thesis
  proof (cases "\<exists>r\<in>set (ix_batches s). P r")
    case False
    then have "ix_batches t = ix_batches s" unfolding t(1) by (intro map_idI) auto
    with s ok show ?thesis by (simp add: ev_def phases_def)
  next
    case True
    then obtain r where r: "r \<in> set (ix_batches s)" "P r" by blast
    have now: "phases s b = Some (ib_state r)" using row_phases_some [OF d r(1)] P [OF r(2)] by (simp add: phases_def)
    have "phases t = (phases s)(b \<mapsto> ib_state (f r))"
      unfolding phases_def t(1) by (rule row_phases_update [where P = P and f = f, OF d P f r])
    then have "life_step (phases s) (phases t)" using life_step.moved [where m = "phases s" and b = b, OF now move [OF r(2) now]] by simp
    with s ok show ?thesis by (auto simp: ev_def intro: rtranclp.rtrancl_into_rtrancl)
  qed
qed

lemma ev_create:
  assumes s: "ev m X s" and room: "ix_next_batch s \<noteq> - 1"
    and t: "ix_batches t = ix_batches s @ [r]" "ib_batch_id r = ix_next_batch s" "ib_state r = Parsing"
      "ix_next_batch t = ix_next_batch s + 1"
  shows "ev m [ix_next_batch s \<mapsto> Parsing] t"
proof -
  have "1 + ix_next_batch s \<noteq> 0" using room by (metis add_eq_0_iff)
  from unatSuc [OF this] have more: "ix_next_batch s < ix_next_batch s + 1" by (simp add: word_less_nat_alt add.commute)
  have fresh: "phases s (ix_next_batch s) = None"
    using s by (auto simp: phases_def row_phases_none ev_def ids_ok_def)
  have "ids_ok t" using s t more by (auto simp: ev_def ids_ok_def intro: less_trans)
  moreover have p: "phases t = (phases s)(ix_next_batch s \<mapsto> Parsing)"
  proof -
    have "map_of (xs @ [(k, v)]) = (map_of xs)(k \<mapsto> v)" if "map_of xs k = None" for xs and k :: u64 and v :: batch_phase
      using that by (auto simp: map_of_append fun_eq_iff map_add_def split: option.splits)
    with fresh show ?thesis by (simp add: phases_def row_phases_def t)
  qed
  moreover have "life_step (phases s) (phases t)" unfolding p by (rule life_step.created [where m = "phases s" and b = "ix_next_batch s", OF fresh])
  ultimately show ?thesis using s by (auto simp: ev_def map_le_def intro: rtranclp.rtrancl_into_rtrancl)
qed

section \<open>The simulation\<close>

named_theorems ev_rules \<open>operations that develop phases by the specification\<close>

abbreviation evolves :: "(u64 \<rightharpoonup> batch_phase) \<Rightarrow> (u64 \<rightharpoonup> batch_phase) \<Rightarrow> ('b index_state_scheme, 'e, 'x) proc \<Rightarrow> bool" where
  "evolves m X p \<equiv> hoare (ev m X) p (\<lambda>_. ev m X) (ev m X)"

lemma ev_touches: "touches P p \<Longrightarrow> evolves m X p"
  by (intro hoareI; drule (1) touchesD(1); erule ev_same; erule more_fields)

lemma ev_query [ev_rules]: "evolves m X (query rows convert)"
  by (rule keeps_query) simp_all

lemma ev_statement:
  assumes "\<And>s t c. ev m X s \<Longrightarrow> f s = Some (t, c) \<Longrightarrow> ev m X t"
  shows "evolves m X (execute_update f)" "evolves m X (execute_changed_update f)"
proof -
  have "evolves m X (execute f)" by (rule hoare_execute) (use assms in auto)
  then show "evolves m X (execute_update f)" "evolves m X (execute_changed_update f)"
    unfolding execute_update_def execute_changed_update_def by (intro keeps_bind keeps_prod keeps_ret; assumption)+
qed

lemma ev_archives [ev_rules]: "evolves m X (execute_update (update_archives P f))"
  by (rule ev_statement, erule ev_same) (auto simp: update_archives_def)

lemma ev_archive_marks [ev_rules]: "evolves m X (mark_archive_parsed a n)" "evolves m X (mark_archive_failed a code line)"
  unfolding mark_archive_parsed_def mark_archive_failed_def by (rule ev_rules)+

lemma ev_attach [ev_rules]: "evolves m X (attach_archive b a p)"
  unfolding attach_archive_def
  by (rule ev_statement, erule ev_same) (auto simp: Let_def update_archives_def split: if_splits)

lemma ev_update_step:
  assumes "\<And>r. P r \<Longrightarrow> ib_batch_id r = b" and "\<And>r. ib_batch_id (f r) = ib_batch_id r"
    and "\<And>r. P r \<Longrightarrow> phase_move (ib_state r) (ib_state (f r))"
    and "ev m X s" and "update_batches P f s = Some (t, c)"
  shows "ev m Map.empty t"
proof (rule ev_update [OF assms(4) update_batchesD(1) [OF assms(5)]])
  show "ix_next_batch t = ix_next_batch s" using assms(5) by (auto simp: update_batches_def)
qed (use assms(1-3) in auto)

lemma ev_batches:
  assumes "\<And>r. P r \<Longrightarrow> ib_batch_id r = b" and "\<And>r. ib_batch_id (f r) = ib_batch_id r"
    and "\<And>r. P r \<Longrightarrow> phase_move (ib_state r) (ib_state (f r))"
  shows "evolves m Map.empty (execute_update (update_batches P f))"
    "evolves m Map.empty (execute_changed_update (update_batches P f))"
  by (rule ev_statement, rule ev_update_step [of P b f, OF assms]; assumption)+

lemma ev_batch_marks [ev_rules]:
  "evolves m Map.empty (mark_batch_failed b code)" "evolves m Map.empty (reset_building_batch b code)"
  "evolves m Map.empty (mark_segment_build_failed b code)"
  unfolding mark_batch_failed_def reset_building_batch_def mark_segment_build_failed_def
  by (rule ev_batches; auto simp: phase_move_iff)+

lemma ev_mark_building [ev_rules]: "evolves m Map.empty (mark_batch_building b name)"
  unfolding mark_batch_building_def
proof (rule ev_statement, goal_cases)
  case (1 s t c)
  then have "update_batches (\<lambda>r. ib_batch_id r = b \<and> ib_state r = Parsed)
       (\<lambda>r. r\<lparr>ib_state := Building, ib_segment_name := Some name, ib_segment_sha256 := None,
          ib_published := False, ib_failure_code := None\<rparr>) s = Some (t, c)" by (simp split: if_splits)
  note u = update_batchesD(1) [OF this] this
  show ?case by (rule ev_update [OF 1(1) u(1)]) (use u(2) in \<open>auto simp: update_batches_def\<close>)
qed

lemma ev_publish [ev_rules]: "evolves m Map.empty (publish_batch_ready b name sha)"
  unfolding publish_batch_ready_def
proof (rule ev_statement, goal_cases)
  case (1 s t c)
  let ?P = "\<lambda>r. ib_batch_id r = b \<and> ib_state r = Building \<and> list_ex (\<lambda>a. ia_batch_id a = Some b) (ix_archives s)"
  let ?f = "\<lambda>r. r\<lparr>ib_state := Ready, ib_segment_name := Some name, ib_segment_sha256 := Some sha, ib_failure_code := None, ib_published := True\<rparr>"
  show ?case
  proof (cases "t = s")
    case False
    with 1(2) have "ix_batches t = map (\<lambda>r. if ?P r then ?f r else r) (ix_batches s)" "ix_next_batch t = ix_next_batch s"
      by (simp_all add: Let_def split: if_splits, safe, simp_all)
    then show ?thesis by (rule ev_update [OF 1(1)]) auto
  qed (use 1 in simp)
qed

text \<open>A batch becomes PARSED only while it is known to be PARSING.\<close>

lemma ev_mark_parsed:
  "hoare (ev m [b \<mapsto> Parsing]) (mark_batch_parsed b path sha n) (\<lambda>_. ev m Map.empty) (ev m Map.empty)"
proof -
  let ?P = "\<lambda>r. ib_batch_id r = b"
  have "hoare (ev m [b \<mapsto> Parsing]) (execute (update_batches ?P f)) (\<lambda>_. ev m Map.empty) (ev m Map.empty)"
    if f: "\<And>r. ib_batch_id (f r) = ib_batch_id r" "\<And>r. ib_state (f r) = Parsed" for f
  proof (rule hoare_execute [where R = "ev m Map.empty"], goal_cases)
    case (2 s t c)
    have "phases s b = Some Parsing" using 2(1) by (simp add: ev_def map_le_def)
    then have "ev m Map.empty t"
      by (intro ev_update [OF 2(1) update_batchesD(1) [OF 2(2)]]) (use 2(2) f in \<open>auto simp: update_batches_def\<close>)
    then show ?case by simp
  qed (auto dest: ev_weaken)
  then show ?thesis
    unfolding mark_batch_parsed_def execute_update_def
    by (rule hoare_bind) (auto intro!: hoare_ret keeps_prod)
qed

section \<open>Operations\<close>

lemma keeps_list: "keeps I n \<Longrightarrow> (\<And>x xs. keeps I (f x xs)) \<Longrightarrow> keeps I (case r of [] \<Rightarrow> n | x # xs \<Rightarrow> f x xs)"
  by (cases r) simp_all

lemma ev_create_batch:
  "hoare (ev m Map.empty) (create_batch f l n)
     (\<lambda>r. ev m (case r of None \<Rightarrow> Map.empty | Some b \<Rightarrow> [b \<mapsto> Parsing])) (ev m Map.empty)"
  unfolding create_batch_def
proof (rule hoare_bind [where R = "\<lambda>b s. ev m Map.empty s \<and> ix_next_batch s = b"], goal_cases)
  case (2 b)
  show ?case
  proof (rule hoare_bind [where R = "\<lambda>x. ev m (if fst x then [b \<mapsto> Parsing] else Map.empty)"], goal_cases)
    case 1
    show ?case
      by (rule hoare_execute [where R = "ev m Map.empty"])
        (auto split: if_splits elim!: ev_create [THEN ev_weaken] ev_create [THEN ev_same])
  qed (auto intro!: hoare_ret keeps_prod split: if_splits dest: ev_weaken)
qed (rule hoare_gets, simp)

lemma ev_files [ev_rules]:
  "evolves m X (remove_segment b)" "evolves m X (published_exists b)" "evolves m X (load_segment en rd)"
  "evolves m X (load_unpublished en b)" "evolves m X cleanup_building" "evolves m X list_published_names"
  "evolves m X (write_batch en i f l sc fc as)" "evolves m X (remove_batch b)" "evolves m X (load_batch en d)"
  "evolves m X (build en ax batch)" "evolves m X acquire_lock"
proof -
  show "evolves m X (remove_segment b)" by (rule ev_touches [OF touches_remove_segment_op])
  show "evolves m X (published_exists b)" unfolding published_exists_def by (intro ev_touches frame)
  show "evolves m X (load_segment en rd)" unfolding load_segment_def by (intro ev_touches frame)
  show "evolves m X (load_unpublished en b)" unfolding load_unpublished_def by (intro ev_touches frame)
  show "evolves m X cleanup_building" by (rule ev_touches [OF touches_cleanup])
  show "evolves m X list_published_names" by (rule ev_touches [OF touches_list_published])
  show "evolves m X (write_batch en i f l sc fc as)" by (rule ev_touches [OF touches_write_batch])
  show "evolves m X (remove_batch b)" by (rule ev_touches [OF touches_remove_batch])
  show "evolves m X (load_batch en d)" by (intro ev_touches frame)
  show "evolves m X (build en ax batch)" by (rule ev_touches [OF touches_build])
  show "evolves m X acquire_lock" by (rule ev_touches [OF touches_acquire_lock])
qed

lemma ev_modify_snapshot [ev_rules]: "evolves m X (modify (\<lambda>s. s\<lparr>ix_snapshot := sn\<rparr>))"
  by (rule hoare_modify) (erule ev_same, simp_all)

lemma ev_recover_building [ev_rules]: "evolves m Map.empty (recover_building_batches en)"
  unfolding recover_building_batches_def recover_building_batch_def list_building_batches_def
  by (intro keeps_rules ev_rules)

lemma ev_load_ready [ev_rules]: "evolves m X (load_ready_segments en ds)"
  by (induction ds) (auto intro!: keeps_rules ev_rules)

lemma ev_refresh [ev_rules]: "evolves m X (refresh_snapshot en)"
  unfolding refresh_snapshot_def list_ready_segments_def by (intro keeps_rules ev_rules)

lemma ev_recover_and_load [ev_rules]: "evolves m Map.empty (recover_and_load en)"
  unfolding recover_and_load_def list_ready_segments_def by (intro keeps_rules ev_rules)

lemma ev_build_next [ev_rules]: "evolves m Map.empty (build_next en ax)"
  unfolding build_next_def build_marked_def list_parsed_batches_def Let_def
  by (intro keeps_rules keeps_list ev_rules)

lemma ev_recover_each [ev_rules]: "evolves m Map.empty (recover_each bs)"
  by (induction bs) (auto intro!: keeps_rules ev_rules)

lemma ev_recover_unlocked [ev_rules]: "evolves m Map.empty recover_unlocked"
  unfolding recover_unlocked_def recover_interrupted_batches_def by (intro keeps_rules ev_rules)

lemma ev_recover [ev_rules]: "evolves m Map.empty recover"
  unfolding recover_def by (intro keeps_rules ev_rules)

lemma ev_outcomes [ev_rules]: "evolves m X (attach_outcomes b os)" "evolves m X (persist_outcomes b os)" "evolves m X (mark_failed o1)"
  unfolding attach_outcomes_def persist_outcomes_def mark_failed_def by (intro keeps_rules ev_rules)+

lemma ev_mark_all [ev_rules]: "evolves m X (mark_all_failed os ok)"
  by (induction os arbitrary: ok) (auto intro!: keeps_rules ev_rules)

lemma ev_forget: "evolves m Map.empty p \<Longrightarrow> hoare (ev m X) p (\<lambda>_. ev m Map.empty) (ev m Map.empty)"
  by (erule hoare_conseq) (auto dest: ev_weaken)

lemma ev_knowing: "evolves m X p \<Longrightarrow> hoare (ev m X) p (\<lambda>_. ev m X) (ev m Map.empty)"
  by (erule hoare_conseq) (auto dest: ev_weaken)

lemma ev_process_batch [ev_rules]: "evolves m Map.empty (process_batch en os n)"
  unfolding process_batch_def Let_def
proof (rule hoare_bind [where R = "\<lambda>b. ev m [b \<mapsto> Parsing]"], goal_cases)
  case 1
  show ?case
    by (rule hoare_require, rule hoare_conseq [OF ev_create_batch]) (auto split: option.splits)
next
  case (2 b)
  show ?case
  proof (rule hoare_seq [OF ev_knowing [OF ev_outcomes(1)]], cases "parsed_archives os = []", goal_cases)
    case 1
    show ?case
      unfolding 1 simp_thms if_True by (rule ev_forget, intro keeps_rules ev_rules)
  next
    case 2
    have wrote: "hoare (ev m [b \<mapsto> Parsing]) (attempt (write_batch en b (ar_archive_id (ao_archive (hd os)))
        (ar_archive_id (ao_archive (last os))) (word_of_nat (length os)) k (parsed_archives os)))
        (\<lambda>_. ev m [b \<mapsto> Parsing]) (ev m Map.empty)" for k
      by (intro ev_knowing keeps_attempt ev_files)
    have mark: "hoare (ev m [b \<mapsto> Parsing]) (check Db_failed (mark_batch_parsed b p sha k)) (\<lambda>_. ev m Map.empty) (ev m Map.empty)" for p sha k
      by (rule hoare_check) (simp add: ev_mark_parsed)
    show ?case
      unfolding if_not_P [OF 2]
    proof (rule hoare_bind [OF wrote], goal_cases)
      case (1 r)
      show ?case
      proof (cases r)
        case (Inl e)
        show ?thesis
          unfolding Inl sum.case by (rule ev_forget, intro keeps_rules ev_rules)
      next
        case (Inr artifact)
        show ?thesis
          unfolding Inr sum.case
          by (rule hoare_seq [OF ev_knowing [OF ev_outcomes(2)]], rule hoare_seq [OF mark], rule hoare_ret)
      qed
    qed
  qed
qed

lemma ev_scan_once [ev_rules]: "evolves m Map.empty (scan_once en sx cf)"
  unfolding scan_once_def source_archives_def list_pending_archive_ids_def max_observed_archive_id_def list_after_def
    find_by_ids_def load_profiles_def
  by (intro keeps_rules ev_rules)

lemma ev_rebuild [ev_rules]: "evolves m Map.empty (request_rebuild a)"
proof -
  have "evolves m Map.empty (execute_update (update_batches (\<lambda>r. ib_batch_id r = b)
             (\<lambda>r. r\<lparr>ib_state := Failed, ib_failure_code := Some ''REBUILD_REQUESTED'', ib_parsed_path := None,
                ib_parsed_sha256 := None, ib_segment_name := None, ib_segment_sha256 := None, ib_published := False\<rparr>)))" for b
    by (rule ev_batches) (auto simp: phase_move_iff)
  note ev_rules = ev_rules this
  show ?thesis
    unfolding request_rebuild_def request_rebuild_state_def
    by (intro keeps_rules keeps_list ev_rules)
qed

lemma ev_worker [ev_rules]: "evolves m Map.empty (worker_round en sx ax cf)"
  unfolding worker_round_def by (intro keeps_rules ev_rules)

section \<open>Runs\<close>

lemma ev_snd: "evolves m Map.empty p \<Longrightarrow> ev m Map.empty s \<Longrightarrow> ev m Map.empty (snd (p s))"
  by (cases "p s"; cases "fst (p s)") (auto dest: hoareD)

lemma index_step_ev:
  assumes "index_step en s t" and "ev m Map.empty s"
  shows "ev m Map.empty t"
  using assms
  by cases (auto intro!: ev_snd ev_rules elim: ev_same)

lemma index_run_ev: "(index_step en)\<^sup>*\<^sup>* s t \<Longrightarrow> ev m Map.empty s \<Longrightarrow> ev m Map.empty t"
  by (induction rule: rtranclp_induct) (auto intro: index_step_ev)

text \<open>
  C11: The index refines the life cycle: on the phases of the batches every run, with any failures and
  interruptions, is a sequence of creations as PARSING and of the moves PARSING to PARSED, PARSED to
  BUILDING, BUILDING back to PARSED or on to READY, and anything to FAILED.
\<close>

theorem run_refines_life_cycle:
  assumes "(index_step en)\<^sup>*\<^sup>* s t" and "ids_ok s"
  shows "life_step\<^sup>*\<^sup>* (phases s) (phases t)"
  using index_run_ev [OF assms(1), of "phases s"] assms(2) by (simp add: ev_def)

definition life_sample :: index_state where
  "life_sample = \<lparr>st_nodes = [([], Dir)], st_events = [Io_ok, Io_ok, Io_ok, Io_lost],
     ix_batches = [\<lparr>ib_batch_id = 1, ib_first_archive_id = 5, ib_last_archive_id = 5, ib_state = Building,
       ib_segment_name = Some ''segment_1'', ib_source_file_count = 1, ib_document_count = 1, ib_segment_sha256 = None,
       ib_parsed_path = Some ''P'', ib_parsed_sha256 = None, ib_failure_code = None, ib_published = False\<rparr>],
     ix_archives = [\<lparr>ia_archive_id = 5, ia_batch_id = Some 1, ia_profile = None, ia_state = Archive_parsed,
       ia_document_count = 1, ia_failure_code = None, ia_failure_line = None, ia_indexed = False\<rparr>],
     ix_profiles = [], ix_next_batch = 2, ix_source = [], ix_locked = False, ix_snapshot = empty_snapshot\<rparr>"

text \<open>A rebuild whose first update takes effect and loses its acknowledgement still only moves the batch to FAILED.\<close>

theorem run_refines_life_cycle_witness:
  "phases life_sample = [1 \<mapsto> Building] \<and> phases (snd (request_rebuild 5 life_sample)) = [1 \<mapsto> Failed] \<and>
     life_step\<^sup>*\<^sup>* [1 \<mapsto> Building] [1 \<mapsto> Failed]"
proof -
  have p: "phases life_sample = [1 \<mapsto> Building]"
    by (simp add: phases_def row_phases_def life_sample_def)
  have q: "phases (snd (request_rebuild 5 life_sample)) = [1 \<mapsto> Failed]"
    by (simp add: request_rebuild_def acquire_lock_def request_rebuild_state_def query_def execute_update_def execute_def
        run_statement_def update_batches_def next_event_def syscall_def map_error_def exec_simps life_sample_def phases_def row_phases_def
        map_filter_simps)
  have run: "(index_step en)\<^sup>*\<^sup>* life_sample (snd (request_rebuild 5 life_sample))" for en :: "unit store_env"
    by (rule r_into_rtranclp) (rule index_step.rebuild)
  have "ids_ok life_sample" by (simp add: ids_ok_def life_sample_def)
  from run_refines_life_cycle [OF run this] show ?thesis by (simp add: p q)
qed

end
