(* ===== verification/Upload_Model.thy ===== *)
theory Upload_Model
  imports Ds_Json Search_Rpc
begin

text \<open>
  Upload requests and sessions (\<open>upload/upload_model.cpp\<close>, \<open>common/uuid.cpp\<close>), the archive record made
  of a session (\<open>archive/archive_model.cpp\<close>) and its path (\<open>buildArchiveRelativePath\<close>).
\<close>

section \<open>UUIDs\<close>

definition hex_range :: "string \<Rightarrow> nat \<Rightarrow> nat \<Rightarrow> string" where
  "hex_range bytes start len = hex_of_bytes (take len (drop start bytes))"

text \<open>\<open>generateUuidV4\<close> on the 16 random bytes.\<close>

definition uuid_of_bytes :: "string \<Rightarrow> string" where
  "uuid_of_bytes raw = (let bytes = (raw[6 := char_of (byte (raw ! 6) mod 16 + 64)])[8 := char_of (byte (raw ! 8) mod 64 + 128)]
     in hex_range bytes 0 4 @ ''-'' @ hex_range bytes 4 2 @ ''-'' @ hex_range bytes 6 2 @ ''-'' @
        hex_range bytes 8 2 @ ''-'' @ hex_range bytes 10 6)"

definition is_uuid :: "string \<Rightarrow> bool" where
  "is_uuid value =
     (if length value \<noteq> 36 then False
      else list_all (\<lambda>index. if index = 8 \<or> index = 13 \<or> index = 18 \<or> index = 23 then value ! index = CHR ''-''
        else is_digit (value ! index) \<or> byte (value ! index) \<ge> 97 \<and> byte (value ! index) \<le> 102) [0..<36])"

text \<open>\<open>RAND_bytes\<close>; its failure is an exception no task handles.\<close>

definition generate_uuid_v4 :: "('w ds_world_scheme, 'e, string) proc" where
  "generate_uuid_v4 w = (case ds_random w of
       Some bytes # rs \<Rightarrow> (Ret (uuid_of_bytes bytes), w\<lparr>ds_random := rs\<rparr>)
     | _ \<Rightarrow> (Crashed, w))"

section \<open>Requests\<close>

record upload_config =
  uc_session_ttl_seconds :: int
  uc_min_chunk_size_bytes :: u64
  uc_max_chunk_size_bytes :: u64
  uc_max_file_size_bytes :: u64
  uc_hash_mmap_window_bytes :: u64
  uc_min_free_space_bytes :: u64
  uc_min_free_space_percent :: nat
  uc_max_active_sessions :: nat
  uc_max_device_sessions :: nat
  uc_max_collector_sessions :: nat
  uc_max_reserved_bytes :: u64
  uc_temp_root :: string
  uc_archive_root :: string

record create_upload_request =
  cu_station_id :: string
  cu_collector_id :: string
  cu_work_order :: string
  cu_has_work_order :: bool
  cu_product_sn :: string
  cu_has_product_sn :: bool
  cu_file_type :: string
  cu_result :: string
  cu_has_result :: bool
  cu_original_filename :: string
  cu_extension :: string
  cu_file_size :: u64
  cu_file_sha256 :: string
  cu_chunk_size :: u64
  cu_chunk_count :: u64
  cu_produced_at :: string

definition valid_filename :: "string \<Rightarrow> bool" where
  "valid_filename value =
     (if value = [] \<or> length value > 255 then False
      else list_all (\<lambda>c. \<not> (byte c < 0x20 \<or> byte c = 0x7f \<or> c = CHR ''/'' \<or> c = CHR 0x5C)) value)"

definition lower_byte :: "char \<Rightarrow> char" where
  "lower_byte c = (if is_upper c then char_of (byte c + 32) else c)"

definition allowed_extensions :: "string \<Rightarrow> string list" where
  "allowed_extensions file_type =
     (if file_type = ''DETECTION_RESULT'' then [''json'', ''csv'']
      else if file_type = ''TEST_REPORT'' then [''csv'']
      else if file_type = ''NG_IMAGE'' then [''png'', ''jpg'', ''jpeg'']
      else if file_type = ''DEVICE_EXPORT'' then [''zip'', ''pdf'']
      else if file_type = ''RUNTIME_LOG'' then [''log'', ''txt''] else [])"

text \<open>The part after the last dot, which is neither the first nor the last character.\<close>

definition extension_for :: "string \<Rightarrow> string \<Rightarrow> string option" where
  "extension_for filename file_type =
     (let tail = takeWhile (\<lambda>c. c \<noteq> CHR ''.'') (rev filename); rest = drop (length tail) (rev filename)
      in if rest = [] \<or> length rest = 1 \<or> tail = [] then None
         else let extension = map lower_byte (rev tail)
              in if extension \<in> set (allowed_extensions file_type) then Some extension else None)"

definition expected_create_fields :: "string list" where
  "expected_create_fields = [''station_id'', ''collector_id'', ''work_order'', ''product_sn'', ''file_type'',
     ''result'', ''original_filename'', ''file_size'', ''file_sha256'', ''chunk_size'', ''produced_at'']"

text \<open>The members with their types; \<open>chunk_count\<close> and \<open>extension\<close> are set at the end.\<close>

definition read_create_fields :: "'j ds_json \<Rightarrow> 'j \<Rightarrow> create_upload_request option" where
  "read_create_fields dj json =
     (case (string_member dj json ''station_id'', string_member dj json ''collector_id'',
            string_member dj json ''file_type'', string_member dj json ''original_filename'',
            string_member dj json ''file_sha256'', string_member dj json ''produced_at'',
            unsigned_member dj json ''file_size'', unsigned_member dj json ''chunk_size'') of
       (Some station_id, Some collector_id, Some file_type, Some original_filename, Some file_sha256,
        Some produced_at, Some file_size, Some chunk_size) \<Rightarrow>
          (case (nullable_member dj json ''work_order'', nullable_member dj json ''product_sn'',
                 nullable_member dj json ''result'') of
            (Some work_order, Some product_sn, Some result) \<Rightarrow>
              Some \<lparr>cu_station_id = station_id, cu_collector_id = collector_id,
                cu_work_order = (case work_order of None \<Rightarrow> '''' | Some s \<Rightarrow> s),
                cu_has_work_order = (work_order \<noteq> None),
                cu_product_sn = (case product_sn of None \<Rightarrow> '''' | Some s \<Rightarrow> s),
                cu_has_product_sn = (product_sn \<noteq> None), cu_file_type = file_type,
                cu_result = (case result of None \<Rightarrow> '''' | Some s \<Rightarrow> s), cu_has_result = (result \<noteq> None),
                cu_original_filename = original_filename, cu_extension = '''', cu_file_size = file_size,
                cu_file_sha256 = file_sha256, cu_chunk_size = chunk_size, cu_chunk_count = 0,
                cu_produced_at = produced_at\<rparr>
          | _ \<Rightarrow> None)
     | _ \<Rightarrow> None)"

definition parse_create_upload_request ::
    "'j ds_json \<Rightarrow> upload_config \<Rightarrow> string \<Rightarrow> string + create_upload_request" where
  "parse_create_upload_request dj cfg body =
     (case jl_parse dj body of
       None \<Rightarrow> Inl ''upload fields do not match the contract''
     | Some json \<Rightarrow>
       if \<not> exact_fields dj expected_create_fields json then Inl ''upload fields do not match the contract''
       else case read_create_fields dj json of
         None \<Rightarrow> Inl ''upload field type is invalid''
       | Some rq \<Rightarrow>
         if cu_file_size rq > uc_max_file_size_bytes cfg then Inl ''file_size exceeds the configured limit''
         else if cu_chunk_size rq > uc_max_chunk_size_bytes cfg then Inl ''chunk_size exceeds the configured limit''
         else case (if is_smt_identifier (cu_station_id rq) \<and> is_smt_identifier (cu_collector_id rq) \<and>
                valid_filename (cu_original_filename rq) \<and> is_lower_hex_digest (cu_file_sha256 rq) \<and>
                parse_iso8601_milliseconds (cu_produced_at rq) \<noteq> None \<and> cu_file_size rq \<noteq> 0 \<and>
                \<not> cu_chunk_size rq < uc_min_chunk_size_bytes cfg
              then extension_for (cu_original_filename rq) (cu_file_type rq) else None) of
           None \<Rightarrow> Inl ''upload field value is invalid''
         | Some extension \<Rightarrow>
           if cu_has_work_order rq \<and> \<not> is_printable_ascii (cu_work_order rq) 64 \<or>
              cu_has_product_sn rq \<and> \<not> is_printable_ascii (cu_product_sn rq) 96 \<or>
              cu_has_result rq \<and> cu_result rq \<noteq> ''PASS'' \<and> cu_result rq \<noteq> ''NG''
           then Inl ''upload business field is invalid''
           else let trace_file = (cu_file_type rq = ''DETECTION_RESULT'' \<or> cu_file_type rq = ''TEST_REPORT'')
             in if trace_file \<and> (\<not> cu_has_product_sn rq \<or> \<not> cu_has_result rq) \<or>
                   cu_file_type rq = ''NG_IMAGE'' \<and>
                     (\<not> cu_has_product_sn rq \<or> \<not> cu_has_result rq \<or> cu_result rq \<noteq> ''NG'')
                then Inl ''file type metadata is incomplete''
                else Inr (rq\<lparr>cu_extension := extension,
                  cu_chunk_count := (cu_file_size rq + cu_chunk_size rq - 1) div cu_chunk_size rq\<rparr>))"

section \<open>Sessions\<close>

record upload_session =
  us_upload_id :: string
  us_state :: string
  us_device_id :: string
  us_station_id :: string
  us_line_id :: string
  us_collector_id :: string
  us_work_order :: string
  us_product_sn :: string
  us_file_type :: string
  us_result :: string
  us_original_filename :: string
  us_extension :: string
  us_temp_path :: string
  us_relative_path :: string
  us_produced_at :: string
  us_file_size :: u64
  us_file_sha256 :: string
  us_chunk_size :: u64
  us_chunk_count :: u64
  us_expires_at_seconds :: int
  us_failure_code :: string
  us_archive_id :: u64
  us_archived_at_milliseconds :: int

text \<open>\<open>parseUnsigned\<close>: the overflow check is made before the multiplication, in 64 bits.\<close>

fun unsigned_loop :: "string \<Rightarrow> u64 \<Rightarrow> u64 option" where
  "unsigned_loop [] acc = Some acc"
| "unsigned_loop (c # value) acc =
     (if \<not> is_digit c then None
      else let digit = word_of_nat (byte c - 48)
           in if acc > (- 1 - digit) div 10 then None
              else unsigned_loop value (acc * 10 + digit))"

definition parse_unsigned_field :: "string \<Rightarrow> u64 option" where
  "parse_unsigned_field value = (if value = [] then None else unsigned_loop value 0)"

definition required_session_fields :: "string list" where
  "required_session_fields = [''upload_id'', ''state'', ''device_id'', ''station_id'', ''line_id'',
     ''collector_id'', ''work_order'', ''product_sn'', ''file_type'', ''result'', ''original_filename'',
     ''extension'', ''temp_path'', ''produced_at'', ''file_size'', ''file_sha256'', ''chunk_size'',
     ''chunk_count'', ''expires_at'', ''failure_code'']"

fun pair_up :: "string list \<Rightarrow> (string \<times> string) list" where
  "pair_up (f # v # r) = (f, v) # pair_up r"
| "pair_up r = []"

text \<open>\<open>fields[name]\<close> of a \<open>std::map\<close> creates an empty value for an absent name.\<close>

definition field_of :: "(string \<rightharpoonup> string) \<Rightarrow> string \<Rightarrow> string" where
  "field_of fs k = (case fs k of None \<Rightarrow> '''' | Some v \<Rightarrow> v)"

definition optional_unsigned :: "(string \<rightharpoonup> string) \<Rightarrow> string \<Rightarrow> u64 option" where
  "optional_unsigned fs k =
     (if fs k \<noteq> None \<and> field_of fs k \<noteq> '''' then parse_unsigned_field (field_of fs k) else Some 0)"

definition parse_upload_session :: "string list \<Rightarrow> upload_session option" where
  "parse_upload_session values =
     (if values = [] \<or> odd (length values) then None
      else let fs = foldl (\<lambda>m (f, v). m(f \<mapsto> v)) Map.empty (pair_up values); val = field_of fs
      in if \<not> list_all (\<lambda>k. fs k \<noteq> None) required_session_fields then None
         else case (parse_unsigned_field (val ''file_size''), parse_unsigned_field (val ''chunk_size''),
             parse_unsigned_field (val ''chunk_count''), parse_unsigned_field (val ''expires_at''),
             optional_unsigned fs ''archive_id'', optional_unsigned fs ''archived_at'') of
           (Some file_size, Some chunk_size, Some chunk_count, Some expires_at, Some archive_id, Some archived_at) \<Rightarrow>
             Some \<lparr>us_upload_id = val ''upload_id'', us_state = val ''state'', us_device_id = val ''device_id'',
               us_station_id = val ''station_id'', us_line_id = val ''line_id'', us_collector_id = val ''collector_id'',
               us_work_order = val ''work_order'', us_product_sn = val ''product_sn'', us_file_type = val ''file_type'',
               us_result = val ''result'', us_original_filename = val ''original_filename'',
               us_extension = val ''extension'', us_temp_path = val ''temp_path'',
               us_relative_path = val ''relative_path'', us_produced_at = val ''produced_at'',
               us_file_size = file_size, us_file_sha256 = val ''file_sha256'', us_chunk_size = chunk_size,
               us_chunk_count = chunk_count, us_expires_at_seconds = sint expires_at,
               us_failure_code = val ''failure_code'', us_archive_id = archive_id,
               us_archived_at_milliseconds = sint archived_at\<rparr>
         | _ \<Rightarrow> None)"

section \<open>Archive records\<close>

definition make_archive_record :: "upload_session \<Rightarrow> string \<Rightarrow> int \<Rightarrow> archive_entry" where
  "make_archive_record session relative_path archived_at =
     \<lparr>ar_archive_id = 0, ar_upload_id = us_upload_id session, ar_line_id = us_line_id session,
      ar_station_id = us_station_id session, ar_device_id = us_device_id session,
      ar_collector_id = us_collector_id session, ar_work_order = us_work_order session,
      ar_product_sn = us_product_sn session, ar_file_type = us_file_type session,
      ar_result = us_result session, ar_original_filename = us_original_filename session,
      ar_relative_path = relative_path, ar_file_size = us_file_size session,
      ar_file_sha256 = us_file_sha256 session, ar_produced_at = us_produced_at session,
      ar_archived_at = format_utc_milliseconds archived_at, ar_archived_at_milliseconds = archived_at\<rparr>"

definition build_archive_relative_path :: "upload_session \<Rightarrow> int \<Rightarrow> string" where
  "build_archive_relative_path session archived_at = (let date = format_utc_milliseconds archived_at
     in take 4 date @ ''/'' @ take 2 (drop 5 date) @ ''/'' @ take 2 (drop 8 date) @ ''/'' @
        us_line_id session @ ''/'' @ us_station_id session @ ''/'' @ us_device_id session @ ''/'' @
        us_file_type session @ ''/'' @ us_upload_id session @ ''.'' @ us_extension session)"


section \<open>Numbers and identifiers\<close>

lemma unsigned_loop_eq: "unsigned_loop s p = parse_unsigned_loop s p"
  by (induction s arbitrary: p) (auto simp: is_digit_def Let_def)

lemma parse_unsigned_field_iff:
  "parse_unsigned_field s = Some w \<longleftrightarrow>
     s \<noteq> [] \<and> list_all is_digit s \<and> digits_val s < 2 ^ 64 \<and> w = word_of_nat (digits_val s)"
  using parse_unsigned_loop_correct [of s 0 w] by (simp add: parse_unsigned_field_def unsigned_loop_eq)

lemma parse_unsigned_to_string: "n < 2 ^ 64 \<Longrightarrow> parse_unsigned_field (to_string n) = Some (word_of_nat n)"
  by (simp add: parse_unsigned_field_iff list_all_iff to_string_digits)

lemma unat_less_64: "unat (w :: u64) < 2 ^ 64"
  by (rule order.strict_trans2 [OF unsigned_less]) simp

lemma parse_unsigned_word [simp]: "parse_unsigned_field (to_string (unat w)) = Some w"
  using parse_unsigned_to_string [OF unat_less_64, of w] by simp

lemma hex_of_bytes_append: "hex_of_bytes (a @ b) = hex_of_bytes a @ hex_of_bytes b"
  by (simp add: hex_of_bytes_def)

lemma hex_of_bytes_props:
  "length (hex_of_bytes bs) = 2 * length bs" "list_all is_lower_hex (hex_of_bytes bs)"
proof -
  have "length (hex_of_bytes bs) = 2 * length bs \<and> list_all is_lower_hex (hex_of_bytes bs)"
  proof (induction bs)
    case (Cons c bs)
    have "byte c div 16 < 16" using byte_less_256 [of c] by linarith
    with Cons show ?case by (simp add: hex_of_bytes_def hex_digit_val)
  qed (simp add: hex_of_bytes_def)
  then show "length (hex_of_bytes bs) = 2 * length bs" "list_all is_lower_hex (hex_of_bytes bs)" by auto
qed

text \<open>The shape of a UUID: groups of 8, 4, 4, 4 and 12 lower-case hexadecimal digits.\<close>

lemma is_uuid_groups:
  assumes "list_all is_lower_hex (a @ b @ c @ d @ e)"
    and "length a = 8" "length b = 4" "length c = 4" "length d = 4" "length e = 12"
  shows "is_uuid (a @ ''-'' @ b @ ''-'' @ c @ ''-'' @ d @ ''-'' @ e)"
proof -
  let ?v = "a @ ''-'' @ b @ ''-'' @ c @ ''-'' @ d @ ''-'' @ e"
  have len: "length ?v = 36" using assms by simp
  have hex: "is_digit x \<or> byte x \<ge> 97 \<and> byte x \<le> 102" if "x \<in> set (a @ b @ c @ d @ e)" for x
    using assms(1) that by (auto simp: list_all_iff is_lower_hex_def)
  have each: "if i = 8 \<or> i = 13 \<or> i = 18 \<or> i = 23 then ?v ! i = CHR ''-''
    else is_digit (?v ! i) \<or> byte (?v ! i) \<ge> 97 \<and> byte (?v ! i) \<le> 102" if "i < 36" for i
  proof -
    consider "i < 8" | "i = 8" | "9 \<le> i" "i < 13" | "i = 13" | "14 \<le> i" "i < 18" | "i = 18"
      | "19 \<le> i" "i < 23" | "i = 23" | "24 \<le> i" using \<open>i < 36\<close> by linarith
    then show ?thesis
    proof cases
      case 1
      then have "?v ! i = a ! i" using assms by (simp add: nth_append)
      then show ?thesis using 1 hex [of "a ! i"] assms by simp
    next
      case 3
      then obtain j where j: "i = 9 + j" by (metis le_Suc_ex)
      with 3 \<open>i < 36\<close> have lt: "j < length b" using assms by simp
      have "?v ! i = b ! j" using lt assms by (simp add: j nth_append nth_Cons')
      then show ?thesis using lt hex [of "b ! j"] 3 by auto
    next
      case 5
      then obtain j where j: "i = 14 + j" by (metis le_Suc_ex)
      with 5 \<open>i < 36\<close> have lt: "j < length c" using assms by simp
      have "?v ! i = c ! j" using lt assms by (simp add: j nth_append nth_Cons')
      then show ?thesis using lt hex [of "c ! j"] 5 by auto
    next
      case 7
      then obtain j where j: "i = 19 + j" by (metis le_Suc_ex)
      with 7 \<open>i < 36\<close> have lt: "j < length d" using assms by simp
      have "?v ! i = d ! j" using lt assms by (simp add: j nth_append nth_Cons')
      then show ?thesis using lt hex [of "d ! j"] 7 by auto
    next
      case 9
      then obtain j where j: "i = 24 + j" by (metis le_Suc_ex)
      with 9 \<open>i < 36\<close> have lt: "j < length e" using assms by simp
      have "?v ! i = e ! j" using lt assms by (simp add: j nth_append nth_Cons')
      then show ?thesis using lt hex [of "e ! j"] 9 by auto
    qed (use assms in \<open>simp_all add: nth_append nth_Cons'\<close>)
  qed
  have "list_all (\<lambda>i. if i = 8 \<or> i = 13 \<or> i = 18 \<or> i = 23 then ?v ! i = CHR ''-''
    else is_digit (?v ! i) \<or> byte (?v ! i) \<ge> 97 \<and> byte (?v ! i) \<le> 102) [0..<36]"
    unfolding list_all_iff by (rule ballI, rule each) simp
  then show ?thesis unfolding is_uuid_def len by (simp only: refl not_True_eq_False if_False)
qed

lemma uuid_of_bytes_valid:
  assumes "length bytes = 16"
  shows "is_uuid (uuid_of_bytes bytes)"
proof -
  define bs where "bs = (bytes[6 := char_of (byte (bytes ! 6) mod 16 + 64)])[8 := char_of (byte (bytes ! 8) mod 64 + 128)]"
  have len: "length bs = 16" using assms by (simp add: bs_def)
  show ?thesis
    unfolding uuid_of_bytes_def bs_def [symmetric] Let_def
    by (rule is_uuid_groups) (simp_all add: len hex_of_bytes_props hex_range_def)
qed

section \<open>Chunks\<close>

text \<open>The bounds \<open>AppConfig::load\<close> puts on the limits.\<close>

definition upload_limits :: "upload_config \<Rightarrow> bool" where
  "upload_limits cfg \<longleftrightarrow> 0 < uc_min_chunk_size_bytes cfg \<and> uc_max_chunk_size_bytes cfg \<le> 2 ^ 26 \<and>
     uc_max_file_size_bytes cfg \<le> 2 ^ 34"

text \<open>What the chunk handler expects of chunk \<open>k\<close>: where it starts and how long it is.\<close>

definition chunk_length :: "u64 \<Rightarrow> u64 \<Rightarrow> u64 \<Rightarrow> u64 \<Rightarrow> u64" where
  "chunk_length file_size chunk_size chunk_count chunk_no =
     (let offset = chunk_no * chunk_size
      in if chunk_no + 1 = chunk_count then file_size - offset else chunk_size)"

lemma chunk_count_exact:
  fixes size chunk :: u64
  assumes "0 < chunk" "chunk \<le> 2 ^ 26" "0 < size" "size \<le> 2 ^ 34"
  defines "n \<equiv> (size + chunk - 1) div chunk"
  shows "0 < unat n" "(unat n - 1) * unat chunk < unat size" "unat size \<le> unat n * unat chunk"
    "unat n * unat chunk < 2 ^ 35"
proof -
  have c: "0 < unat chunk" "unat chunk \<le> 2 ^ 26" and s: "0 < unat size" "unat size \<le> 2 ^ 34"
    using assms by (simp_all add: word_less_nat_alt word_le_nat_alt unat_gt_0)
  have "unat (size + chunk - 1) = unat size + unat chunk - 1"
  proof -
    have "unat (size + chunk) = unat size + unat chunk" using c s by (simp add: unat_word_ariths)
    then show ?thesis using c s by (subst unat_sub) (simp_all add: word_le_nat_alt)
  qed
  then have n: "unat n = (unat size + unat chunk - 1) div unat chunk" by (simp add: n_def unat_div_distrib)
  have d: "unat n * unat chunk + (unat size + unat chunk - 1) mod unat chunk = unat size + unat chunk - 1"
    unfolding n by simp
  moreover have m: "(unat size + unat chunk - 1) mod unat chunk < unat chunk" using c by simp
  ultimately show up: "unat size \<le> unat n * unat chunk" using c s by linarith
  then show "0 < unat n" using s by (cases "unat n") auto
  then obtain k where k: "unat n = Suc k" by (cases "unat n") auto
  show "(unat n - 1) * unat chunk < unat size" using d s c unfolding k by simp
  show "unat n * unat chunk < 2 ^ 35" using d s c by simp
qed

lemma accepted_request:
  assumes "parse_create_upload_request dj cfg body = Inr rq"
  shows "cu_file_size rq \<le> uc_max_file_size_bytes cfg" "cu_chunk_size rq \<le> uc_max_chunk_size_bytes cfg"
    "uc_min_chunk_size_bytes cfg \<le> cu_chunk_size rq" "0 < cu_file_size rq"
    "cu_chunk_count rq = (cu_file_size rq + cu_chunk_size rq - 1) div cu_chunk_size rq"
    "is_lower_hex_digest (cu_file_sha256 rq)" "is_smt_identifier (cu_station_id rq)"
    "is_smt_identifier (cu_collector_id rq)" "valid_filename (cu_original_filename rq)"
    "cu_extension rq \<in> set (allowed_extensions (cu_file_type rq))"
proof -
  obtain rq0 ext where r: "rq = rq0\<lparr>cu_extension := ext,
      cu_chunk_count := (cu_file_size rq0 + cu_chunk_size rq0 - 1) div cu_chunk_size rq0\<rparr>"
    and a: "\<not> cu_file_size rq0 > uc_max_file_size_bytes cfg" "\<not> cu_chunk_size rq0 > uc_max_chunk_size_bytes cfg"
      "\<not> cu_chunk_size rq0 < uc_min_chunk_size_bytes cfg" "cu_file_size rq0 \<noteq> 0"
      "is_lower_hex_digest (cu_file_sha256 rq0)" "is_smt_identifier (cu_station_id rq0)"
      "is_smt_identifier (cu_collector_id rq0)" "valid_filename (cu_original_filename rq0)"
      "extension_for (cu_original_filename rq0) (cu_file_type rq0) = Some ext"
    using assms unfolding parse_create_upload_request_def Let_def
    by (auto split: option.splits if_splits simp del: not_less)
  have "ext \<in> set (allowed_extensions (cu_file_type rq0))"
    using a(9) by (auto simp: extension_for_def Let_def split: if_splits)
  with a show "cu_file_size rq \<le> uc_max_file_size_bytes cfg" "cu_chunk_size rq \<le> uc_max_chunk_size_bytes cfg"
    "uc_min_chunk_size_bytes cfg \<le> cu_chunk_size rq" "0 < cu_file_size rq"
    "cu_chunk_count rq = (cu_file_size rq + cu_chunk_size rq - 1) div cu_chunk_size rq"
    "is_lower_hex_digest (cu_file_sha256 rq)" "is_smt_identifier (cu_station_id rq)"
    "is_smt_identifier (cu_collector_id rq)" "valid_filename (cu_original_filename rq)"
    "cu_extension rq \<in> set (allowed_extensions (cu_file_type rq))"
    unfolding r by (simp_all add: word_gt_0 not_less)
qed

end
