(* ===== verification/Upload_Redis.thy ===== *)
theory Upload_Redis
  imports Upload_Model
begin

text \<open>
  The upload sessions in Redis (\<open>upload/upload_repository.cpp\<close>): the Lua scripts as functions on the
  database at one instant, with the number each returns, and the tasks that run them and read their
  replies. The arguments a script converts by \<open>tonumber\<close> are numbers here; Lua's doubles hold them
  exactly, as they stay below \<open>2 ^ 53\<close>.
\<close>

unbundle bit_operations_syntax

section \<open>Keys and quota members\<close>

definition session_key :: "string \<Rightarrow> string \<Rightarrow> string" where
  "session_key prefix upload_id = prefix @ ''upload:'' @ upload_id"

definition chunks_key :: "string \<Rightarrow> string \<Rightarrow> string" where
  "chunks_key prefix upload_id = session_key prefix upload_id @ '':chunks''"

definition digests_key :: "string \<Rightarrow> string \<Rightarrow> string" where
  "digests_key prefix upload_id = session_key prefix upload_id @ '':digests''"

definition global_quota_key :: "string \<Rightarrow> string" where
  "global_quota_key prefix = prefix @ ''upload:quota:global''"

definition device_quota_key :: "string \<Rightarrow> string \<Rightarrow> string" where
  "device_quota_key prefix device_id = prefix @ ''upload:quota:device:'' @ device_id"

definition collector_quota_key :: "string \<Rightarrow> string \<Rightarrow> string" where
  "collector_quota_key prefix collector_id = prefix @ ''upload:quota:collector:'' @ collector_id"

definition quota_member :: "string \<Rightarrow> u64 \<Rightarrow> string" where
  "quota_member upload_id file_size = upload_id @ '':'' @ to_string (unat file_size)"

text \<open>\<open>string.match(m, ':(%d+)$')\<close>\<close>

definition member_bytes :: "string \<Rightarrow> nat" where
  "member_bytes m = digits_val (rev (takeWhile is_digit (rev m)))"

definition quota_bytes :: "(string \<times> int) list \<Rightarrow> nat" where
  "quota_bytes z = sum_list (map (\<lambda>(m, score). member_bytes m) z)"

section \<open>Scripts\<close>

text \<open>The three quota sets of a session, in the order of the scripts' keys.\<close>

definition quota_keys :: "string \<Rightarrow> string \<Rightarrow> string \<Rightarrow> string list" where
  "quota_keys prefix device_id collector_id =
     [global_quota_key prefix, device_quota_key prefix device_id, collector_quota_key prefix collector_id]"

definition clean_quotas :: "int \<Rightarrow> int \<Rightarrow> string list \<Rightarrow> redis_db \<Rightarrow> redis_db" where
  "clean_quotas t now ks r = foldl (\<lambda>r k. zrem_up_to t k now r) r ks"

definition add_to_quotas :: "int \<Rightarrow> int \<Rightarrow> string \<Rightarrow> string list \<Rightarrow> redis_db \<Rightarrow> redis_db" where
  "add_to_quotas t score m ks r = foldl (\<lambda>r k. zadd t k score m r) r ks"

definition remove_from_quotas :: "int \<Rightarrow> string \<Rightarrow> string list \<Rightarrow> redis_db \<Rightarrow> redis_db" where
  "remove_from_quotas t m ks r = foldl (\<lambda>r k. zrem t k m r) r ks"

definition expire_all :: "int \<Rightarrow> int \<Rightarrow> string list \<Rightarrow> redis_db \<Rightarrow> redis_db" where
  "expire_all t seconds ks r = foldl (\<lambda>r k. expire t k seconds r) r ks"

definition session_fields :: "upload_config \<Rightarrow> upload_session \<Rightarrow> create_upload_request \<Rightarrow> (string \<times> string) list" where
  "session_fields cfg session metadata =
     [(''upload_id'', us_upload_id session), (''state'', ''UPLOADING''),
      (''device_id'', us_device_id session), (''station_id'', us_station_id session),
      (''line_id'', us_line_id session), (''collector_id'', us_collector_id session),
      (''work_order'', cu_work_order metadata), (''product_sn'', cu_product_sn metadata),
      (''file_type'', cu_file_type metadata), (''result'', cu_result metadata),
      (''original_filename'', cu_original_filename metadata), (''extension'', cu_extension metadata),
      (''file_size'', to_string (unat (us_file_size session))), (''file_sha256'', us_file_sha256 session),
      (''chunk_size'', to_string (unat (us_chunk_size session))),
      (''chunk_count'', to_string (unat (us_chunk_count session))),
      (''temp_path'', us_temp_path session), (''produced_at'', cu_produced_at metadata),
      (''created_at'', int_to_string (us_expires_at_seconds session - uc_session_ttl_seconds cfg)),
      (''expires_at'', int_to_string (us_expires_at_seconds session)), (''failure_code'', '''')]"

definition create_session_script ::
    "string \<Rightarrow> upload_config \<Rightarrow> upload_session \<Rightarrow> create_upload_request \<Rightarrow> int \<Rightarrow> int \<Rightarrow> redis_db \<Rightarrow> nat \<times> redis_db" where
  "create_session_script prefix cfg session metadata now t r0 =
     (let base = session_key prefix (us_upload_id session);
          qs = quota_keys prefix (us_device_id session) (us_collector_id session);
          r = clean_quotas t now qs r0
      in if rexists t r base then (2, r)
         else if length (zset_at t r (qs ! 0)) \<ge> uc_max_active_sessions cfg then (3, r)
         else if length (zset_at t r (qs ! 1)) \<ge> uc_max_device_sessions cfg then (4, r)
         else if length (zset_at t r (qs ! 2)) \<ge> uc_max_collector_sessions cfg then (5, r)
         else if quota_bytes (zset_at t r (qs ! 0)) + unat (us_file_size session) > unat (uc_max_reserved_bytes cfg)
         then (6, r)
         else (1, add_to_quotas t (us_expires_at_seconds session)
             (quota_member (us_upload_id session) (us_file_size session)) qs
             (expire t base (uc_session_ttl_seconds cfg) (hset t base (session_fields cfg session metadata) r))))"

definition begin_chunk_script ::
    "string \<Rightarrow> upload_config \<Rightarrow> string \<Rightarrow> nat \<Rightarrow> string \<Rightarrow> int \<Rightarrow> redis_db \<Rightarrow> nat \<times> redis_db" where
  "begin_chunk_script prefix cfg upload_id chunk_no digest t r =
     (let base = session_key prefix upload_id; chunks = chunks_key prefix upload_id;
          digests = digests_key prefix upload_id; old = hget t r digests (to_string chunk_no)
      in if \<not> rexists t r base then (4, r)
         else if hget t r base ''state'' \<noteq> Some ''UPLOADING'' then (3, r)
         else if old \<noteq> None \<and> old \<noteq> Some digest then (2, r)
         else if old \<noteq> None \<and> get_bit (bitmap_at t r chunks) chunk_no then (1, r)
         else (0, expire t digests (uc_session_ttl_seconds cfg)
             (if old = None then hset t digests [(to_string chunk_no, digest)] r else r)))"

definition finish_chunk_script ::
    "string \<Rightarrow> upload_config \<Rightarrow> upload_session \<Rightarrow> nat \<Rightarrow> string \<Rightarrow> int \<Rightarrow> int \<Rightarrow> redis_db \<Rightarrow> nat \<times> redis_db" where
  "finish_chunk_script prefix cfg session chunk_no digest expires_at t r =
     (let upload_id = us_upload_id session; base = session_key prefix upload_id;
          chunks = chunks_key prefix upload_id; digests = digests_key prefix upload_id;
          ttl = uc_session_ttl_seconds cfg
      in if \<not> rexists t r base \<or> hget t r base ''state'' \<noteq> Some ''UPLOADING'' \<or>
            hget t r digests (to_string chunk_no) \<noteq> Some digest then (0, r)
         else (1, add_to_quotas t expires_at (quota_member upload_id (us_file_size session))
             (quota_keys prefix (us_device_id session) (us_collector_id session))
             (expire_all t ttl [base, chunks, digests]
               (hset t base [(''expires_at'', int_to_string expires_at)] (setbit t chunks chunk_no r)))))"

definition begin_complete_script ::
    "string \<Rightarrow> string \<Rightarrow> nat \<Rightarrow> int \<Rightarrow> string \<Rightarrow> int \<Rightarrow> redis_db \<Rightarrow> nat \<times> redis_db" where
  "begin_complete_script prefix upload_id chunk_count archived_at relative_path t r =
     (let base = session_key prefix upload_id; s = hget t r base ''state''
      in if \<not> rexists t r base then (5, r)
         else if s = Some ''ARCHIVED'' then (2, r)
         else if s = Some ''FAILED'' then (3, r)
         else if s = Some ''VERIFYING'' then (1, r)
         else if s \<noteq> Some ''UPLOADING'' then (3, r)
         else if bitcount (bitmap_at t r (chunks_key prefix upload_id)) \<noteq> chunk_count then (4, r)
         else (0, hset t base [(''state'', ''VERIFYING''), (''archived_at'', int_to_string archived_at),
             (''relative_path'', relative_path)] r))"

definition mark_failed_script ::
    "string \<Rightarrow> int \<Rightarrow> upload_session \<Rightarrow> string \<Rightarrow> int \<Rightarrow> int \<Rightarrow> redis_db \<Rightarrow> nat \<times> redis_db" where
  "mark_failed_script prefix terminal_ttl session failure_code expires_at t r =
     (let upload_id = us_upload_id session; base = session_key prefix upload_id
      in if \<not> rexists t r base then (0, r)
         else (1, add_to_quotas t expires_at (quota_member upload_id (us_file_size session))
             (quota_keys prefix (us_device_id session) (us_collector_id session))
             (expire_all t terminal_ttl [base, chunks_key prefix upload_id, digests_key prefix upload_id]
               (hset t base [(''state'', ''FAILED''), (''failure_code'', failure_code),
                 (''expires_at'', int_to_string expires_at)] r))))"

definition mark_archived_script ::
    "string \<Rightarrow> int \<Rightarrow> upload_session \<Rightarrow> u64 \<Rightarrow> int \<Rightarrow> string \<Rightarrow> int \<Rightarrow> redis_db \<Rightarrow> nat \<times> redis_db" where
  "mark_archived_script prefix terminal_ttl session archive_id archived_at relative_path t r =
     (let upload_id = us_upload_id session; base = session_key prefix upload_id
      in if \<not> rexists t r base then (0, r)
         else (1, remove_from_quotas t (quota_member upload_id (us_file_size session))
             (quota_keys prefix (us_device_id session) (us_collector_id session))
             (expire_all t terminal_ttl [base, chunks_key prefix upload_id, digests_key prefix upload_id]
               (hset t base [(''state'', ''ARCHIVED''), (''archive_id'', to_string (unat archive_id)),
                 (''archived_at'', int_to_string archived_at), (''relative_path'', relative_path),
                 (''failure_code'', '''')] r))))"

section \<open>Tasks\<close>

record upload_repository =
  ur_key_prefix :: string
  ur_config :: upload_config
  ur_terminal_ttl_seconds :: int

datatype create_status = Session_created | Session_limit_exceeded | Create_unavailable
datatype session_lookup = Session_found upload_session | Session_absent | Session_lookup_unavailable
datatype begin_chunk_status = Writable | Already_complete | Content_conflict | State_conflict
  | Chunk_session_absent | Begin_chunk_unavailable
datatype begin_complete_status = Complete_ready | Resumable | Complete_archived | Complete_failed
  | Complete_chunks_incomplete | Complete_absent | Complete_unavailable

definition create_session_task ::
    "upload_repository \<Rightarrow> upload_session \<Rightarrow> create_upload_request \<Rightarrow> ('w ds_world_scheme, 'e, create_status) proc" where
  "create_session_task ur session metadata = bind current_unix_seconds (\<lambda>now.
     bind (redis_call (create_session_script (ur_key_prefix ur) (ur_config ur) session metadata now)) (\<lambda>reply.
     ret (case reply of None \<Rightarrow> Create_unavailable
       | Some result \<Rightarrow> if result = 1 then Session_created else Session_limit_exceeded)))"

definition session_lookup_task :: "upload_repository \<Rightarrow> string \<Rightarrow> ('w ds_world_scheme, 'e, session_lookup) proc" where
  "session_lookup_task ur upload_id =
     bind (redis_call (\<lambda>t r. (hgetall t r (session_key (ur_key_prefix ur) upload_id), r))) (\<lambda>reply.
     ret (case reply of None \<Rightarrow> Session_lookup_unavailable
       | Some values \<Rightarrow> if values = [] then Session_absent
           else (case parse_upload_session values of None \<Rightarrow> Session_lookup_unavailable | Some s \<Rightarrow> Session_found s)))"

definition begin_chunk_task ::
    "upload_repository \<Rightarrow> string \<Rightarrow> nat \<Rightarrow> string \<Rightarrow> ('w ds_world_scheme, 'e, begin_chunk_status) proc" where
  "begin_chunk_task ur upload_id chunk_no digest =
     bind (redis_call (begin_chunk_script (ur_key_prefix ur) (ur_config ur) upload_id chunk_no digest)) (\<lambda>reply.
     ret (case reply of None \<Rightarrow> Begin_chunk_unavailable
       | Some result \<Rightarrow> if result = 0 then Writable else if result = 1 then Already_complete
           else if result = 2 then Content_conflict else if result = 3 then State_conflict
           else Chunk_session_absent))"

definition finish_chunk_task ::
    "upload_repository \<Rightarrow> upload_session \<Rightarrow> nat \<Rightarrow> string \<Rightarrow> ('w ds_world_scheme, 'e, bool) proc" where
  "finish_chunk_task ur session chunk_no digest = bind current_unix_seconds (\<lambda>now.
     bind (redis_call (finish_chunk_script (ur_key_prefix ur) (ur_config ur) session chunk_no digest
       (now + uc_session_ttl_seconds (ur_config ur)))) (\<lambda>reply. ret (reply = Some 1)))"

text \<open>The bitmap as a string, empty when there is none; \<open>None\<close> when the command failed.\<close>

definition bitmap_task :: "upload_repository \<Rightarrow> string \<Rightarrow> ('w ds_world_scheme, 'e, string option) proc" where
  "bitmap_task ur upload_id = redis_call (\<lambda>t r. (bitmap_at t r (chunks_key (ur_key_prefix ur) upload_id), r))"

definition begin_complete_task ::
    "upload_repository \<Rightarrow> string \<Rightarrow> nat \<Rightarrow> int \<Rightarrow> string \<Rightarrow> ('w ds_world_scheme, 'e, begin_complete_status) proc" where
  "begin_complete_task ur upload_id chunk_count archived_at relative_path =
     bind (redis_call (begin_complete_script (ur_key_prefix ur) upload_id chunk_count archived_at relative_path)) (\<lambda>reply.
     ret (case reply of None \<Rightarrow> Complete_unavailable
       | Some result \<Rightarrow> if result = 0 then Complete_ready else if result = 1 then Resumable
           else if result = 2 then Complete_archived else if result = 3 then Complete_failed
           else if result = 4 then Complete_chunks_incomplete else Complete_absent))"

definition mark_failed_task ::
    "upload_repository \<Rightarrow> upload_session \<Rightarrow> string \<Rightarrow> ('w ds_world_scheme, 'e, bool) proc" where
  "mark_failed_task ur session failure_code = bind current_unix_seconds (\<lambda>now.
     bind (redis_call (mark_failed_script (ur_key_prefix ur) (ur_terminal_ttl_seconds ur) session failure_code
       (now + ur_terminal_ttl_seconds ur))) (\<lambda>reply. ret (reply = Some 1)))"

definition mark_archived_task ::
    "upload_repository \<Rightarrow> upload_session \<Rightarrow> u64 \<Rightarrow> int \<Rightarrow> string \<Rightarrow> ('w ds_world_scheme, 'e, bool) proc" where
  "mark_archived_task ur session archive_id archived_at relative_path =
     bind (redis_call (mark_archived_script (ur_key_prefix ur) (ur_terminal_ttl_seconds ur) session archive_id
       archived_at relative_path)) (\<lambda>reply. ret (reply = Some 1))"

definition bitmap_contains :: "string \<Rightarrow> nat \<Rightarrow> bool" where
  "bitmap_contains bitmap chunk_no = (let byte_index = chunk_no div 8
     in if byte_index \<ge> length bitmap then False
        else (word_of_nat (byte (bitmap ! byte_index)) AND push_bit (7 - chunk_no mod 8) 1 :: u8) \<noteq> 0)"

end
