(* ===== verification/Device_Auth.thy ===== *)
theory Device_Auth
  imports Ds_Json
begin

text \<open>
  Device authentication (\<open>auth/crypto.cpp\<close>, \<open>auth/device_authenticator.cpp\<close>, \<open>device/device_repository.cpp\<close>)
  and the heartbeat (\<open>device/heartbeat.cpp\<close>, \<open>api/heartbeat_controller.cpp\<close>). SHA-256 and HMAC are the
  functions of OpenSSL, a record \<open>crypto\<close> of the raw digests. The identifier the server generates for a
  request that has none is an argument.
\<close>

section \<open>Cryptography\<close>

record crypto =
  cr_sha256 :: "string \<Rightarrow> string"
  cr_hmac :: "string \<Rightarrow> string \<Rightarrow> string"

definition digest_lengths :: "crypto \<Rightarrow> bool" where
  "digest_lengths cr \<longleftrightarrow> (\<forall>d. length (cr_sha256 cr d) = 32) \<and> (\<forall>k d. length (cr_hmac cr k d) = 32)"

definition sha256_hex :: "crypto \<Rightarrow> string \<Rightarrow> string" where
  "sha256_hex cr data = hex_of_bytes (cr_sha256 cr data)"

definition hmac_sha256_hex :: "crypto \<Rightarrow> string \<Rightarrow> string \<Rightarrow> string" where
  "hmac_sha256_hex cr key data = hex_of_bytes (cr_hmac cr key data)"

definition constant_time_equals :: "string \<Rightarrow> string \<Rightarrow> bool" where
  "constant_time_equals left right \<longleftrightarrow> length left = length right \<and> left = right"

definition canonical_string :: "string \<Rightarrow> string \<Rightarrow> string \<Rightarrow> string \<Rightarrow> string \<Rightarrow> string \<Rightarrow> string" where
  "canonical_string meth path device_id timestamp request_id content_sha256 =
     ''v1'' @ [CHR 0x0A] @ meth @ [CHR 0x0A] @ path @ [CHR 0x0A] @ device_id @ [CHR 0x0A] @ timestamp @ [CHR 0x0A] @ request_id @
     [CHR 0x0A] @ content_sha256"

section \<open>Devices\<close>

record device_identity =
  di_device_id :: string
  di_station_id :: string
  di_line_id :: string
  di_hmac_secret :: string
  di_enabled :: bool

datatype device_lookup = Device_found device_identity | Device_absent | Device_lookup_unavailable

text \<open>\<open>SELECT ... FROM device d JOIN station s ... JOIN production_line l ... WHERE d.device_id=... LIMIT 1\<close>\<close>

definition joined_device :: "string \<Rightarrow> 'w ds_world_scheme \<Rightarrow> device_identity option" where
  "joined_device device_id w = (case find (\<lambda>d. dv_device_id d = device_id) (ds_devices w) of
       None \<Rightarrow> None
     | Some d \<Rightarrow> (case find (\<lambda>s. sn_station_id s = dv_station_id d) (ds_stations w) of
           None \<Rightarrow> None
         | Some s \<Rightarrow> (case find (\<lambda>l. ln_line_id l = sn_line_id s) (ds_lines w) of
               None \<Rightarrow> None
             | Some l \<Rightarrow> Some \<lparr>di_device_id = dv_device_id d, di_station_id = dv_station_id d,
                 di_line_id = sn_line_id s, di_hmac_secret = dv_hmac_secret d,
                 di_enabled = (dv_enabled d \<and> sn_enabled s \<and> ln_enabled l)\<rparr>)))"

definition lookup_device :: "string \<Rightarrow> ('w ds_world_scheme, 'e, device_lookup) proc" where
  "lookup_device device_id = bind (mysql_query (joined_device device_id)) (\<lambda>reply. ret (case reply of
       None \<Rightarrow> Device_lookup_unavailable
     | Some None \<Rightarrow> Device_absent
     | Some (Some identity) \<Rightarrow> Device_found identity))"

text \<open>The server reports the rows an \<open>UPDATE\<close> changed, not those it matched.\<close>

definition update_heartbeat :: "string \<Rightarrow> string \<Rightarrow> string \<Rightarrow> ('w ds_world_scheme, 'e, bool) proc" where
  "update_heartbeat device_id software_version last_seen_mysql =
     (let change = (\<lambda>d. if dv_device_id d = device_id
        then d\<lparr>dv_software_version := Some software_version, dv_last_seen_at := Some last_seen_mysql\<rparr> else d)
      in bind (mysql_update (\<lambda>w. (length (filter (\<lambda>d. change d \<noteq> d) (ds_devices w)),
            w\<lparr>ds_devices := map change (ds_devices w)\<rparr>)))
          (\<lambda>affected. ret (affected = Some 1)))"

text \<open>Whether the query succeeded, and whether the pair is bound.\<close>

definition binding_check :: "string \<Rightarrow> string \<Rightarrow> ('w ds_world_scheme, 'e, bool \<times> bool) proc" where
  "binding_check collector_id device_id =
     bind (mysql_query (\<lambda>w. find (\<lambda>b. bd_collector_id b = collector_id \<and> bd_device_id b = device_id)
       (ds_bindings w))) (\<lambda>reply. ret (case reply of
         None \<Rightarrow> (False, False)
       | Some None \<Rightarrow> (True, False)
       | Some (Some b) \<Rightarrow> (True, bd_enabled b)))"

section \<open>Authentication\<close>

record auth_config =
  ac_timestamp_tolerance_seconds :: int
  ac_request_id_ttl_seconds :: int
  ac_key_prefix :: string

record auth_result =
  au_code :: ds_code
  au_message :: string
  au_request_id :: string
  au_identity :: device_identity

definition no_identity :: device_identity where
  "no_identity = \<lparr>di_device_id = '''', di_station_id = '''', di_line_id = '''', di_hmac_secret = '''', di_enabled = False\<rparr>"

definition error_result :: "ds_code \<Rightarrow> string \<Rightarrow> string \<Rightarrow> auth_result" where
  "error_result code message request_id =
     \<lparr>au_code = code, au_message = message, au_request_id = request_id, au_identity = no_identity\<rparr>"

definition is_alnum :: "char \<Rightarrow> bool" where
  "is_alnum c \<longleftrightarrow> is_lower c \<or> is_upper c \<or> is_digit c"

definition is_request_id :: "string \<Rightarrow> bool" where
  "is_request_id value =
     (if length value < 16 \<or> length value > 64 then False
      else list_all (\<lambda>c. is_alnum c \<or> c = CHR ''_'' \<or> c = CHR ''-'') value)"

text \<open>Eleven digits never overflow the 64-bit accumulator.\<close>

definition parse_unix_seconds :: "string \<Rightarrow> int option" where
  "parse_unix_seconds value =
     (if value = [] \<or> length value > 11 then None
      else if \<not> list_all is_digit value then None
      else Some (foldl (\<lambda>parsed c. parsed * 10 + (int (byte c) - 48)) 0 value))"

definition required_headers :: "string list" where
  "required_headers = [''X-Device-Id'', ''X-Timestamp'', ''X-Request-Id'', ''X-Content-SHA256'', ''X-Signature'']"

definition replay_key :: "auth_config \<Rightarrow> string \<Rightarrow> string \<Rightarrow> string" where
  "replay_key cfg device_id request_id = ac_key_prefix cfg @ ''auth:req:'' @ device_id @ '':'' @ request_id"

definition replay_check :: "auth_config \<Rightarrow> http_request \<Rightarrow> device_identity \<Rightarrow> ('w ds_world_scheme, 'e, auth_result) proc" where
  "replay_check cfg rq identity = (let request_id = header rq ''X-Request-Id'' in
     bind (redis_call (\<lambda>now r. case set_nx_ex now (replay_key cfg (header rq ''X-Device-Id'') request_id)
             (header rq ''X-Timestamp'') (ac_request_id_ttl_seconds cfg) r of
           None \<Rightarrow> (False, r) | Some r' \<Rightarrow> (True, r')))
       (\<lambda>reply. ret (case reply of
           None \<Rightarrow> error_result Redis_unavailable ''Redis is unavailable'' request_id
         | Some False \<Rightarrow> error_result Request_replayed ''request was replayed'' request_id
         | Some True \<Rightarrow> \<lparr>au_code = Success, au_message = ''success'', au_request_id = request_id,
             au_identity = identity\<rparr>)))"

definition signature_valid :: "crypto \<Rightarrow> http_request \<Rightarrow> device_identity \<Rightarrow> bool" where
  "signature_valid cr rq identity \<longleftrightarrow>
     constant_time_equals (sha256_hex cr (rq_body rq)) (header rq ''X-Content-SHA256'') \<and>
     constant_time_equals (hmac_sha256_hex cr (di_hmac_secret identity)
       (canonical_string (rq_method rq) (rq_path rq) (header rq ''X-Device-Id'') (header rq ''X-Timestamp'')
          (header rq ''X-Request-Id'') (header rq ''X-Content-SHA256''))) (header rq ''X-Signature'')"

text \<open>\<open>k\<close> is the callback of the handler that asked for the authentication.\<close>

definition authenticate ::
    "crypto \<Rightarrow> auth_config \<Rightarrow> string \<Rightarrow> http_request \<Rightarrow> (auth_result \<Rightarrow> ('w ds_world_scheme, 'r) chain) \<Rightarrow>
     ('w ds_world_scheme, 'r) chain" where
  "authenticate cr cfg generated_id rq k =
     (if \<not> list_all (has_header rq) required_headers
      then k (error_result Auth_required ''device authentication is required'' generated_id)
      else let device_id = header rq ''X-Device-Id''; request_id = header rq ''X-Request-Id'';
          invalid = error_result Signature_invalid ''device signature is invalid'' request_id
        in case (if is_smt_identifier device_id \<and> is_request_id request_id \<and>
                    is_lower_hex_digest (header rq ''X-Content-SHA256'') \<and>
                    is_lower_hex_digest (header rq ''X-Signature'')
                 then parse_unix_seconds (header rq ''X-Timestamp'') else None) of
            None \<Rightarrow> k invalid
          | Some request_seconds \<Rightarrow> task current_unix_seconds (\<lambda>now.
              if \<bar>now - request_seconds\<bar> > ac_timestamp_tolerance_seconds cfg
              then k (error_result Timestamp_expired ''device timestamp is expired'' request_id)
              else task (lookup_device device_id) (\<lambda>lookup. case lookup of
                  Device_lookup_unavailable \<Rightarrow> k (error_result Mysql_unavailable ''MySQL is unavailable'' request_id)
                | Device_absent \<Rightarrow> k (error_result Device_not_found ''device was not found'' request_id)
                | Device_found identity \<Rightarrow>
                    if \<not> di_enabled identity
                    then k (error_result Device_disabled ''device is disabled'' request_id)
                    else if \<not> signature_valid cr rq identity then k invalid
                    else task (replay_check cfg rq identity) k)))"

section \<open>Heartbeats\<close>

record device_heartbeat =
  hb_collector_id :: string
  hb_software_version :: string
  hb_runtime_status :: string
  hb_has_work_order :: bool
  hb_work_order :: string
  hb_reported_at :: string

definition expected_heartbeat_fields :: "string list" where
  "expected_heartbeat_fields = [''collector_id'', ''software_version'', ''runtime_status'', ''work_order'', ''reported_at'']"

definition parse_device_heartbeat :: "'j ds_json \<Rightarrow> string \<Rightarrow> string + device_heartbeat" where
  "parse_device_heartbeat dj body = (case jl_parse dj body of
       None \<Rightarrow> Inl ''request body must be a JSON object''
     | Some json \<Rightarrow>
       if jl_keys dj json = None then Inl ''request body must be a JSON object''
       else if \<not> exact_fields dj expected_heartbeat_fields json
       then Inl ''heartbeat fields do not match the contract''
       else (case (string_member dj json ''collector_id'', string_member dj json ''software_version'',
              string_member dj json ''runtime_status'', string_member dj json ''reported_at'',
              nullable_member dj json ''work_order'') of
         (Some collector_id, Some software_version, Some runtime_status, Some reported_at, Some work_order) \<Rightarrow>
           (if \<not> is_smt_identifier collector_id then Inl ''collector_id is invalid''
            else if \<not> is_printable_ascii software_version 64 then Inl ''software_version is invalid''
            else if runtime_status \<noteq> ''RUNNING'' \<and> runtime_status \<noteq> ''IDLE'' \<and> runtime_status \<noteq> ''ALARM''
            then Inl ''runtime_status is invalid''
            else if work_order = None \<and> runtime_status \<noteq> ''IDLE'' \<or>
                    (case work_order of None \<Rightarrow> False | Some s \<Rightarrow> \<not> is_printable_ascii s 64)
            then Inl ''work_order is invalid''
            else if parse_iso8601_milliseconds reported_at = None then Inl ''reported_at is invalid''
            else Inr \<lparr>hb_collector_id = collector_id, hb_software_version = software_version,
              hb_runtime_status = runtime_status, hb_has_work_order = (work_order \<noteq> None),
              hb_work_order = (case work_order of None \<Rightarrow> '''' | Some s \<Rightarrow> s), hb_reported_at = reported_at\<rparr>)
       | _ \<Rightarrow> Inl ''heartbeat field type is invalid''))"

record heartbeat_controller =
  hc_auth :: auth_config
  hc_heartbeat_ttl_seconds :: int
  hc_body_limit_bytes :: nat

definition heartbeat_script :: "string \<Rightarrow> device_heartbeat \<Rightarrow> string \<Rightarrow> int \<Rightarrow> int \<Rightarrow> redis_db \<Rightarrow> nat \<times> redis_db" where
  "heartbeat_script key hb last_seen_at ttl t r =
     (1, expire t key ttl (hset t key [(''collector_id'', hb_collector_id hb),
        (''software_version'', hb_software_version hb), (''runtime_status'', hb_runtime_status hb),
        (''work_order'', hb_work_order hb), (''reported_at'', hb_reported_at hb),
        (''last_seen_at'', last_seen_at)] r))"

definition heartbeat_handler ::
    "crypto \<Rightarrow> 'j ds_json \<Rightarrow> heartbeat_controller \<Rightarrow> string \<Rightarrow> http_request \<Rightarrow> ('w ds_world_scheme, 'j api_response) chain" where
  "heartbeat_handler cr dj hc generated_id rq =
     (if length (rq_body rq) > hc_body_limit_bytes hc
      then Finished (refuse dj Invalid_argument ''request body is too large'' generated_id)
      else authenticate cr (hc_auth hc) generated_id rq (\<lambda>auth.
        let request_id = au_request_id auth; device_id = di_device_id (au_identity auth)
        in if au_code auth \<noteq> Success then Finished (refuse dj (au_code auth) (au_message auth) request_id)
           else if \<not> rq_json rq
           then Finished (refuse dj Invalid_argument ''Content-Type must be application/json'' request_id)
           else case parse_device_heartbeat dj (rq_body rq) of
               Inl message \<Rightarrow> Finished (refuse dj Invalid_argument message request_id)
             | Inr hb \<Rightarrow> task read_clock (\<lambda>ms. let server_time = server_time_at ms in
                 task (binding_check (hb_collector_id hb) device_id) (\<lambda>(available, bound).
                   if \<not> available then Finished (refuse dj Mysql_unavailable ''MySQL is unavailable'' request_id)
                   else if \<not> bound then Finished (refuse dj Collector_device_mismatch
                     ''collector is not authorized for device'' request_id)
                   else task (update_heartbeat device_id (hb_software_version hb) (st_mysql server_time)) (\<lambda>saved.
                     if \<not> saved then Finished (refuse dj Mysql_unavailable ''MySQL is unavailable'' request_id)
                     else task (redis_call (heartbeat_script (ac_key_prefix (hc_auth hc) @ ''heartbeat:'' @ device_id)
                         hb (st_iso8601 server_time) (hc_heartbeat_ttl_seconds hc))) (\<lambda>reply.
                       Finished (if reply = Some 1
                         then send_api_response dj Success ''success'' request_id (jl_object dj
                           [(''device_id'', jl_string dj device_id),
                            (''last_seen_at'', jl_string dj (st_iso8601 server_time)), (''online'', jl_bool dj True)])
                         else refuse dj Redis_unavailable ''Redis is unavailable'' request_id)))))))"


section \<open>Replays\<close>

text \<open>Time passed between two worlds: the clock did not go back, and moved by ticks that were consumed.\<close>

definition time_passed :: "'w ds_world_scheme \<Rightarrow> 'w ds_world_scheme \<Rightarrow> bool" where
  "time_passed w u \<longleftrightarrow> ds_clock w \<le> ds_clock u \<and>
     ds_clock u + int (sum_list (ds_ticks u)) = ds_clock w + int (sum_list (ds_ticks w))"

lemma time_passed_trans: "time_passed u v \<Longrightarrow> time_passed v w \<Longrightarrow> time_passed u w"
  by (simp add: time_passed_def)

lemma time_passed_advance [simp]: "time_passed w (advance_clock w)"
  by (simp add: time_passed_def advance_clock_def split: list.splits)

lemma time_passed_cong [simp]:
  "time_passed w (u\<lparr>st_events := es\<rparr>) = time_passed w u" "time_passed w (u\<lparr>ds_redis := r\<rparr>) = time_passed w u"
  "time_passed (w\<lparr>st_events := es\<rparr>) u = time_passed w u" "time_passed w w"
  by (simp_all add: time_passed_def)

lemma events_advance [simp]: "advance_clock (w\<lparr>st_events := es\<rparr>) = (advance_clock w)\<lparr>st_events := es\<rparr>"
  by (simp add: advance_clock_def split: list.splits)

definition replay_entry :: "auth_config \<Rightarrow> http_request \<Rightarrow> string" where
  "replay_entry cfg rq = replay_key cfg (header rq ''X-Device-Id'') (header rq ''X-Request-Id'')"

text \<open>The entry of the request was absent and is set from \<open>w\<close> to \<open>u\<close>.\<close>

definition entry_set :: "auth_config \<Rightarrow> http_request \<Rightarrow> 'w ds_world_scheme \<Rightarrow> 'w ds_world_scheme \<Rightarrow> bool" where
  "entry_set cfg rq w u \<longleftrightarrow> live (ds_clock u) (ds_redis w) (replay_entry cfg rq) = None \<and>
     ds_redis u = (ds_redis w)(replay_entry cfg rq \<mapsto> (Rstring (header rq ''X-Timestamp''),
       Some (ds_clock u + ac_request_id_ttl_seconds cfg * 1000)))"

definition accepted :: "(unit, auth_result) result \<Rightarrow> bool" where
  "accepted x \<longleftrightarrow> (case x of Ret auth \<Rightarrow> au_code auth = Success | _ \<Rightarrow> False)"

lemma set_nx_ex_iff:
  "set_nx_ex now k v s r = Some r' \<longleftrightarrow> live now r k = None \<and> r' = r(k \<mapsto> (Rstring v, Some (now + s * 1000)))"
  by (auto simp: set_nx_ex_def rexists_def)

lemma replay_check_effect:
  assumes "replay_check cfg rq identity w = (x, u)"
  shows "time_passed w u \<and> (\<not> accepted x \<and> ds_redis u = ds_redis w \<or> entry_set cfg rq w u)"
  using assms
  by (auto simp: replay_check_def redis_call_def redis_effect_def exec_simps next_event_def Let_def
      accepted_def error_result_def entry_set_def set_nx_ex_iff replay_entry_def
      split: list.splits outcome.splits option.splits)

lemma lookup_device_effect:
  assumes "lookup_device device_id w = (x, u)"
  shows "time_passed w u \<and> ds_redis u = ds_redis w"
  using assms
  by (auto simp: lookup_device_def mysql_query_def exec_simps next_event_def
      split: list.splits outcome.splits option.splits)

lemma current_unix_seconds_eq:
  "current_unix_seconds w = (Ret (unix_seconds (ds_clock (advance_clock w))), advance_clock w)"
  by (simp add: current_unix_seconds_def read_clock_def exec_simps)

definition granted :: "auth_result option \<Rightarrow> bool" where
  "granted res \<longleftrightarrow> (case res of Some auth \<Rightarrow> au_code auth = Success | None \<Rightarrow> False)"

text \<open>The checks a request must have passed, at the instant of the timestamp check.\<close>

definition fresh_at :: "auth_config \<Rightarrow> http_request \<Rightarrow> int \<Rightarrow> bool" where
  "fresh_at cfg rq ms \<longleftrightarrow> (\<exists>seconds. parse_unix_seconds (header rq ''X-Timestamp'') = Some seconds \<and>
     \<bar>unix_seconds ms - seconds\<bar> \<le> ac_timestamp_tolerance_seconds cfg)"

lemma run_chain_Finished [simp]: "run_chain (Finished r) w = (Some r, w)" "run_chain Killed w = (None, w)"
  by simp_all

lemma authenticate_effect:
  fixes w u :: "'w ds_world_scheme"
  assumes "run_chain (authenticate cr cfg gen rq Finished) w = (res, u)"
  shows "time_passed w u \<and> (\<not> granted res \<and> ds_redis u = ds_redis w \<or> entry_set cfg rq w u) \<and>
    (granted res \<longrightarrow> (\<exists>ms. ds_clock w \<le> ms \<and> ms \<le> ds_clock u \<and> fresh_at cfg rq ms) \<and>
       (\<exists>identity. di_enabled identity \<and> signature_valid cr rq identity \<and> au_identity (the res) = identity))"
proof (cases "list_all (has_header rq) required_headers")
  case False
  then show ?thesis using assms by (auto simp: authenticate_def granted_def error_result_def)
next
  case hdr: True
  show ?thesis
  proof (cases "if is_smt_identifier (header rq ''X-Device-Id'') \<and> is_request_id (header rq ''X-Request-Id'') \<and>
      is_lower_hex_digest (header rq ''X-Content-SHA256'') \<and> is_lower_hex_digest (header rq ''X-Signature'')
      then parse_unix_seconds (header rq ''X-Timestamp'') else None")
    case None
    then show ?thesis using assms hdr unfolding authenticate_def Let_def
      by (auto simp: granted_def error_result_def)
  next
    case (Some seconds)
    then have ts: "parse_unix_seconds (header rq ''X-Timestamp'') = Some seconds" by (auto split: if_splits)
    define v where "v = advance_clock w"
    have v: "time_passed w v" "ds_redis v = ds_redis w" by (simp_all add: v_def)
    define rest :: "('w ds_world_scheme, auth_result) chain" where "rest = (if \<bar>unix_seconds (ds_clock v) - seconds\<bar> > ac_timestamp_tolerance_seconds cfg
      then Finished (error_result Timestamp_expired ''device timestamp is expired'' (header rq ''X-Request-Id''))
      else task (lookup_device (header rq ''X-Device-Id'')) (\<lambda>lookup. case lookup of
          Device_lookup_unavailable \<Rightarrow> Finished (error_result Mysql_unavailable ''MySQL is unavailable'' (header rq ''X-Request-Id''))
        | Device_absent \<Rightarrow> Finished (error_result Device_not_found ''device was not found'' (header rq ''X-Request-Id''))
        | Device_found identity \<Rightarrow>
            if \<not> di_enabled identity
            then Finished (error_result Device_disabled ''device is disabled'' (header rq ''X-Request-Id''))
            else if \<not> signature_valid cr rq identity
            then Finished (error_result Signature_invalid ''device signature is invalid'' (header rq ''X-Request-Id''))
            else task (replay_check cfg rq identity) Finished))"
    have run: "run_chain rest v = (res, u)"
      using assms hdr Some unfolding authenticate_def Let_def rest_def v_def
      by (simp add: run_task current_unix_seconds_eq del: task_if)
    show ?thesis
    proof (cases "\<bar>unix_seconds (ds_clock v) - seconds\<bar> > ac_timestamp_tolerance_seconds cfg")
      case True
      with run v show ?thesis by (auto simp: rest_def granted_def error_result_def)
    next
      case False
      with ts have fresh: "fresh_at cfg rq (ds_clock v)" by (simp add: fresh_at_def)
      obtain x :: "(unit, device_lookup) result" and z
        where look: "lookup_device (header rq ''X-Device-Id'') v = (x, z)" by (metis surj_pair)
      from lookup_device_effect [OF look] have z: "time_passed v z" "ds_redis z = ds_redis v" by auto
      have wz: "time_passed w z" "ds_redis z = ds_redis w" using v z by (auto intro: time_passed_trans)
      show ?thesis
      proof (cases "\<exists>identity. x = Ret (Device_found identity) \<and> di_enabled identity \<and> signature_valid cr rq identity")
        case True
        then obtain identity where i: "x = Ret (Device_found identity)" "di_enabled identity" "signature_valid cr rq identity"
          by blast
        obtain y :: "(unit, auth_result) result" and t
          where rep: "replay_check cfg rq identity z = (y, t)" by (metis surj_pair)
        from replay_check_effect [OF rep] have t: "time_passed z t" "\<not> accepted y \<and> ds_redis t = ds_redis z \<or> entry_set cfg rq z t" by auto
        have ret: "accepted y \<Longrightarrow> \<exists>auth. y = Ret auth \<and> au_identity auth = identity"
          using rep by (auto simp: replay_check_def redis_call_def redis_effect_def exec_simps next_event_def Let_def accepted_def
            error_result_def split: list.splits outcome.splits option.splits prod.splits)
        have fin: "res = (case y of Ret a \<Rightarrow> Some a | _ \<Rightarrow> None)" "u = t"
          using run False look i rep by (auto simp: rest_def run_task split: result.splits)
        have "granted res \<longleftrightarrow> accepted y" by (auto simp: fin granted_def accepted_def split: result.splits)
        moreover have "time_passed w u" using wz t fin by (auto intro: time_passed_trans)
        moreover have "ds_clock w \<le> ds_clock v \<and> ds_clock v \<le> ds_clock u"
          using v z t fin by (auto simp: time_passed_def)
        ultimately show ?thesis using t(2) wz fresh i ret fin by (auto simp: entry_set_def)
      next
        case no: False
        then have "\<not> granted res \<and> u = z"
          using run False look
          by (auto simp: rest_def run_task granted_def error_result_def split: result.splits device_lookup.splits if_splits)
        with wz show ?thesis by auto
      qed
    qed
  qed
qed

text \<open>Requests one after the other, each with what the environment does to it.\<close>

type_synonym auth_attempt = "http_request \<times> outcome list \<times> nat list"

definition auth_step :: "crypto \<Rightarrow> auth_config \<Rightarrow> auth_attempt \<Rightarrow> 'w ds_world_scheme \<Rightarrow> auth_result option \<times> 'w ds_world_scheme" where
  "auth_step cr cfg a w = (case a of (rq, events, ticks) \<Rightarrow>
     run_chain (authenticate cr cfg '''' rq Finished) (w\<lparr>st_events := events, ds_ticks := ticks\<rparr>))"

fun auth_run :: "crypto \<Rightarrow> auth_config \<Rightarrow> auth_attempt list \<Rightarrow> 'w ds_world_scheme \<Rightarrow> auth_result option list" where
  "auth_run cr cfg [] w = []"
| "auth_run cr cfg (a # as) w = (case auth_step cr cfg a w of (res, u) \<Rightarrow> res # auth_run cr cfg as u)"

definition same_request :: "http_request \<Rightarrow> http_request \<Rightarrow> bool" where
  "same_request p q \<longleftrightarrow> header p ''X-Device-Id'' = header q ''X-Device-Id'' \<and>
     header p ''X-Request-Id'' = header q ''X-Request-Id'' \<and> header p ''X-Timestamp'' = header q ''X-Timestamp''"

text \<open>From an instant on, the entry of the request stands until \<open>limit\<close> at least.\<close>

definition entry_until :: "auth_config \<Rightarrow> http_request \<Rightarrow> int \<Rightarrow> 'w ds_world_scheme \<Rightarrow> bool" where
  "entry_until cfg rq limit w \<longleftrightarrow> (\<exists>v e. ds_redis w (replay_entry cfg rq) = Some (v, Some e) \<and> limit \<le> e)"

lemma auth_step_effect:
  assumes "auth_step cr cfg (rq, events, ticks) w = (res, u)"
  shows "ds_clock w \<le> ds_clock u" "ds_clock u \<le> ds_clock w + int (sum_list ticks)"
    "\<not> granted res \<and> ds_redis u = ds_redis w \<or> entry_set cfg rq w u"
    "granted res \<Longrightarrow> \<exists>ms. ds_clock w \<le> ms \<and> ms \<le> ds_clock u \<and> fresh_at cfg rq ms"
  using authenticate_effect [OF assms [unfolded auth_step_def prod.case]]
  by (auto simp: time_passed_def entry_set_def)

lemma entry_until_step:
  assumes "auth_step cr cfg (rq, events, ticks) w = (res, u)" and "entry_until cfg q limit w"
    and "0 \<le> ac_request_id_ttl_seconds cfg"
  shows "entry_until cfg q limit u"
    and "granted res \<Longrightarrow> replay_entry cfg rq = replay_entry cfg q \<Longrightarrow> limit \<le> ds_clock u"
proof -
  obtain v e where q: "ds_redis w (replay_entry cfg q) = Some (v, Some e)" "limit \<le> e"
    using assms(2) by (auto simp: entry_until_def)
  from auth_step_effect(3) [OF assms(1)] show "entry_until cfg q limit u"
  proof
    assume "entry_set cfg rq w u"
    then show ?thesis
      using q assms(3) by (cases "replay_entry cfg rq = replay_entry cfg q")
        (auto simp: entry_set_def entry_until_def live_def split: if_splits)
  qed (use q in \<open>auto simp: entry_until_def\<close>)
  assume "granted res" "replay_entry cfg rq = replay_entry cfg q"
  with auth_step_effect(3) [OF assms(1)] q show "limit \<le> ds_clock u"
    by (auto simp: entry_set_def live_def split: if_splits)
qed

lemma unix_seconds_nonneg: "0 \<le> a \<Longrightarrow> unix_seconds a = a div 1000"
  by (auto simp: unix_seconds_def sgn_if)

text \<open>After the entry was set, no attempt with the same request is granted before \<open>limit\<close>.\<close>

lemma auth_run_limit:
  assumes "entry_until cfg rq limit w" and "0 \<le> ac_request_id_ttl_seconds cfg" and "0 \<le> ds_clock w"
    and "\<forall>(q, events, ticks) \<in> set as. int (sum_list ticks) \<le> delay"
    and "j < length as" and "as ! j = (q, events, ticks)" and "same_request q rq"
    and "granted (auth_run cr cfg as w ! j)"
  shows "\<exists>ms. limit - delay \<le> ms \<and> 0 \<le> ms \<and> fresh_at cfg rq ms"
  using assms
proof (induction as arbitrary: w j)
  case (Cons a as)
  obtain p ev tk where a: "a = (p, ev, tk)" by (cases a)
  obtain res u where step: "auth_step cr cfg (p, ev, tk) w = (res, u)" by (cases "auth_step cr cfg (p, ev, tk) w")
  have u: "entry_until cfg rq limit u" "0 \<le> ds_clock u"
    using entry_until_step(1) [OF step] auth_step_effect(1) [OF step] Cons.prems by auto
  show ?case
  proof (cases j)
    case 0
    with Cons.prems a step have g: "granted res" "p = q" "same_request q rq" by auto
    then have key: "replay_entry cfg p = replay_entry cfg rq" by (simp add: replay_entry_def same_request_def)
    have "limit \<le> ds_clock u" using entry_until_step(2) [OF step _ _ g(1) key] Cons.prems by auto
    moreover obtain ms where "ds_clock w \<le> ms" "ms \<le> ds_clock u" "fresh_at cfg p ms"
      using auth_step_effect(4) [OF step g(1)] by blast
    moreover have "ds_clock u \<le> ds_clock w + delay"
      using auth_step_effect(2) [OF step] Cons.prems(4) a by auto
    moreover have "fresh_at cfg rq ms" if "fresh_at cfg p ms" for ms
      using that g by (simp add: fresh_at_def same_request_def)
    ultimately show ?thesis using Cons.prems(3) by (intro exI [of _ ms]) auto
  next
    case (Suc i)
    then show ?thesis using Cons.IH [OF u(1) Cons.prems(2) u(2), of i] Cons.prems a step by auto
  qed
qed simp

text \<open>
  C4: Requests to the service are authenticated one after the other, with any failures and delays of
  MySQL and Redis, each attempt lasting at most \<open>delay\<close> milliseconds. If the entries of request
  identifiers live longer than twice the timestamp tolerance and that delay, no request is granted
  twice: an accepted request that is sent again is refused.
\<close>

theorem no_replay:
  assumes "2000 * ac_timestamp_tolerance_seconds cfg + 1000 + delay \<le> 1000 * ac_request_id_ttl_seconds cfg"
    and "0 \<le> ac_timestamp_tolerance_seconds cfg" and "0 \<le> delay" and "0 \<le> ds_clock w"
    and "\<forall>(rq, events, ticks) \<in> set as. int (sum_list ticks) \<le> delay"
    and "i < j" and "j < length as" and "same_request (fst (as ! j)) (fst (as ! i))"
    and "granted (auth_run cr cfg as w ! i)"
  shows "\<not> granted (auth_run cr cfg as w ! j)"
  using assms(4-9)
proof (induction as arbitrary: w i j)
  case (Cons a as)
  obtain rq ev tk where a: "a = (rq, ev, tk)" by (cases a)
  obtain res u where step: "auth_step cr cfg (rq, ev, tk) w = (res, u)" by (cases "auth_step cr cfg (rq, ev, tk) w")
  have clock: "0 \<le> ds_clock u" using auth_step_effect(1) [OF step] Cons.prems(1) by simp
  from \<open>i < j\<close> obtain l where j: "j = Suc l" by (cases j) auto
  show ?case
  proof (cases i)
    case (Suc k)
    then show ?thesis using Cons.IH [OF clock, of k l] Cons.prems a j step by auto
  next
    case 0
    have ttl: "0 \<le> ac_request_id_ttl_seconds cfg" using assms(1-3) by linarith
    from 0 Cons.prems a step have g: "granted res" by simp
    then have set: "entry_set cfg rq w u" using auth_step_effect(3) [OF step] by auto
    define limit where "limit = ds_clock u + 1000 * ac_request_id_ttl_seconds cfg"
    have until: "entry_until cfg rq limit u"
      using set by (auto simp: entry_set_def entry_until_def limit_def)
    obtain ms where ms: "ds_clock w \<le> ms" "ms \<le> ds_clock u" "fresh_at cfg rq ms"
      using auth_step_effect(4) [OF step g] by blast
    show ?thesis
    proof
      assume "granted (auth_run cr cfg (a # as) w ! j)"
      then have gj: "granted (auth_run cr cfg as u ! l)" using a j step by simp
      obtain q ev' tk' where q: "as ! l = (q, ev', tk')" by (cases "as ! l")
      have "same_request q rq" using Cons.prems(5) 0 j q a by simp
      from auth_run_limit [OF until ttl clock _ _ q this gj] Cons.prems j
      obtain ns where ns: "limit - delay \<le> ns" "0 \<le> ns" "fresh_at cfg rq ns" by auto
      from ms(3) ns(3) obtain s where s: "\<bar>unix_seconds ms - s\<bar> \<le> ac_timestamp_tolerance_seconds cfg"
        "\<bar>unix_seconds ns - s\<bar> \<le> ac_timestamp_tolerance_seconds cfg" by (auto simp: fresh_at_def)
      have "ms + 1000 * (2 * ac_timestamp_tolerance_seconds cfg + 1) \<le> ns"
        using ms(2) ns(1) assms(1) by (simp add: limit_def)
      then have "(ms + (2 * ac_timestamp_tolerance_seconds cfg + 1) * 1000) div 1000 \<le> ns div 1000"
        by (intro zdiv_mono1) simp_all
      then have "ms div 1000 + (2 * ac_timestamp_tolerance_seconds cfg + 1) \<le> ns div 1000" by simp
      then show False using s ms ns Cons.prems(1) by (simp add: unix_seconds_nonneg)
    qed
  qed
qed simp

section \<open>A sample\<close>

definition sample_crypto :: crypto where
  "sample_crypto = \<lparr>cr_sha256 = (\<lambda>d. replicate 32 CHR ''a''), cr_hmac = (\<lambda>k d. replicate 32 CHR ''b'')\<rparr>"

definition sample_ds_world :: ds_world where
  "sample_ds_world = \<lparr>st_nodes = [([], Dir)], st_events = [], ds_clock = 0, ds_ticks = [], ds_random = [],
     ds_redis = Map.empty, ds_lines = [\<lparr>ln_line_id = ''LINE-01'', ln_enabled = True\<rparr>],
     ds_stations = [\<lparr>sn_station_id = ''ST-01'', sn_line_id = ''LINE-01'', sn_enabled = True\<rparr>],
     ds_devices = [\<lparr>dv_device_id = ''DEV-01'', dv_station_id = ''ST-01'', dv_software_version = None,
       dv_hmac_secret = ''k'', dv_enabled = True, dv_last_seen_at = None\<rparr>],
     ds_bindings = [\<lparr>bd_collector_id = ''COL-01'', bd_device_id = ''DEV-01'', bd_enabled = True\<rparr>],
     ds_archives = [], ds_next_archive = 1, ds_bavail = 1000, ds_blocks = 1000, ds_frsize = 1\<rparr>"

definition sample_device_request :: "string \<Rightarrow> http_request" where
  "sample_device_request timestamp = \<lparr>rq_method = ''GET'', rq_path = ''/'',
     rq_headers = [(''X-Device-Id'', ''DEV-01''), (''X-Timestamp'', timestamp),
       (''X-Request-Id'', ''request-00000001''), (''X-Content-SHA256'', sha256_hex sample_crypto ''''),
       (''X-Signature'', hmac_sha256_hex sample_crypto '''' '''')],
     rq_body = '''', rq_params = [], rq_json = False, rq_octet_stream = False, rq_query = []\<rparr>"

definition sample_auth_config :: "int \<Rightarrow> int \<Rightarrow> auth_config" where
  "sample_auth_config tolerance ttl = \<lparr>ac_timestamp_tolerance_seconds = tolerance,
     ac_request_id_ttl_seconds = ttl, ac_key_prefix = ''ds:''\<rparr>"

lemma sample_request_checks:
  "list_all (has_header (sample_device_request ts)) required_headers"
  "header (sample_device_request ts) ''X-Device-Id'' = ''DEV-01''"
  "header (sample_device_request ts) ''X-Timestamp'' = ts"
  "header (sample_device_request ts) ''X-Request-Id'' = ''request-00000001''"
  "header (sample_device_request ts) ''X-Content-SHA256'' = sha256_hex sample_crypto ''''"
  "header (sample_device_request ts) ''X-Signature'' = hmac_sha256_hex sample_crypto '''' ''''"
  by (simp_all add: sample_device_request_def required_headers_def has_header_def header_def)

lemma sample_identifiers:
  "is_smt_identifier ''DEV-01''" "is_request_id ''request-00000001''" "parse_unix_seconds ''300'' = Some 300"
  by (simp_all add: is_smt_identifier_def is_request_id_def parse_unix_seconds_def is_upper_def is_lower_def
      is_digit_def is_alnum_def)

lemma hex_digest_valid: "length d = 32 \<Longrightarrow> is_lower_hex_digest (hex_of_bytes d)"
  using hex_of_bytes_valid [of d] by (simp add: valid_sha256_def is_lower_hex_digest_def is_lower_hex_def [abs_def] conj_commute)

lemma sample_hex: "is_lower_hex_digest (sha256_hex sample_crypto d)" "is_lower_hex_digest (hmac_sha256_hex sample_crypto k d)"
  by (simp_all add: sha256_hex_def hmac_sha256_hex_def sample_crypto_def hex_digest_valid)

lemma sample_signature: "signature_valid sample_crypto (sample_device_request ts) identity"
  by (simp add: signature_valid_def sample_request_checks constant_time_equals_def sha256_hex_def
      hmac_sha256_hex_def sample_crypto_def)

lemma sample_step:
  "auth_step sample_crypto cfg (sample_device_request ''300'', events, ticks) w =
     run_chain (task current_unix_seconds (\<lambda>now.
        if \<bar>now - 300\<bar> > ac_timestamp_tolerance_seconds cfg
        then Finished (error_result Timestamp_expired ''device timestamp is expired'' ''request-00000001'')
        else task (lookup_device ''DEV-01'') (\<lambda>lookup. case lookup of
            Device_lookup_unavailable \<Rightarrow> Finished (error_result Mysql_unavailable ''MySQL is unavailable'' ''request-00000001'')
          | Device_absent \<Rightarrow> Finished (error_result Device_not_found ''device was not found'' ''request-00000001'')
          | Device_found identity \<Rightarrow>
              if \<not> di_enabled identity
              then Finished (error_result Device_disabled ''device is disabled'' ''request-00000001'')
              else if \<not> signature_valid sample_crypto (sample_device_request ''300'') identity
              then Finished (error_result Signature_invalid ''device signature is invalid'' ''request-00000001'')
              else task (replay_check cfg (sample_device_request ''300'') identity) Finished)))
      (w\<lparr>st_events := events, ds_ticks := ticks\<rparr>)"
  unfolding auth_step_def prod.case authenticate_def
  by (simp add: sample_request_checks sample_identifiers sample_hex Let_def del: task_if)

lemmas auth_eval = sample_step sample_signature run_task current_unix_seconds_def read_clock_def lookup_device_def mysql_query_def
  joined_device_def replay_check_def redis_call_def redis_effect_def exec_simps next_event_def Let_def
  sample_request_checks replay_key_def set_nx_ex_def rexists_def live_def sample_auth_config_def
  unix_seconds_def advance_clock_def error_result_def granted_def

lemma sample_grants: "map granted (auth_run sample_crypto (sample_auth_config 300 700)
   [(sample_device_request ''300'', [], []), (sample_device_request ''300'', [], [])] sample_ds_world) = [True, False]"
  by (simp add: auth_eval sample_ds_world_def)

theorem no_replay_witness:
  "\<not> granted (auth_run sample_crypto (sample_auth_config 300 700)
     [(sample_device_request ''300'', [], []), (sample_device_request ''300'', [], [])] sample_ds_world ! 1)"
proof (rule no_replay [where i = 0 and delay = 0])
  let ?run = "auth_run sample_crypto (sample_auth_config 300 700)
     [(sample_device_request ''300'', [], []), (sample_device_request ''300'', [], [])] sample_ds_world"
  have "granted (?run ! 0) = map granted ?run ! 0" by (rule nth_map [symmetric]) (simp split: prod.splits)
  then show "granted (?run ! 0)" by (simp only: sample_grants) simp
qed (simp_all add: sample_auth_config_def sample_ds_world_def same_request_def)

end
