(* ===== verification/File_Calls.thy ===== *)
theory File_Calls
  imports Durable_Files
begin

text \<open>
  System calls as the ingest service and the collector make them: they look only at success or failure.
  Each takes its outcome from the pending events, as in \<open>Durable_Files\<close>; one that reports a failure may
  have taken effect (\<open>Io_lost\<close>).
\<close>

section \<open>Calls\<close>

text \<open>Whether a call that only reports success or failure succeeded.\<close>

definition attempt_call :: "('w store_state_scheme, 'e, bool) proc" where
  "attempt_call = bind next_event (\<lambda>e. case e of
       Io_fail \<Rightarrow> ret False
     | Io_intr \<Rightarrow> ret False
     | Io_lost \<Rightarrow> ret False
     | Io_crash \<Rightarrow> crash
     | _ \<Rightarrow> ret True)"

text \<open>A call with an effect: \<open>f\<close> gives the new state, or \<open>None\<close> when the system refuses.\<close>

definition effect_call :: "('w store_state_scheme \<Rightarrow> 'w store_state_scheme option) \<Rightarrow> ('w store_state_scheme, 'e, bool) proc" where
  "effect_call f = bind next_event (\<lambda>e. case e of
       Io_fail \<Rightarrow> ret False
     | Io_intr \<Rightarrow> ret False
     | Io_lost \<Rightarrow> (\<lambda>s. (Ret False, case f s of None \<Rightarrow> s | Some t \<Rightarrow> t))
     | Io_crash \<Rightarrow> crash
     | _ \<Rightarrow> (\<lambda>s. case f s of None \<Rightarrow> (Ret False, s) | Some t \<Rightarrow> (Ret True, t)))"

definition is_file :: "node option \<Rightarrow> bool" where
  "is_file n \<longleftrightarrow> (case n of Some (File _) \<Rightarrow> True | _ \<Rightarrow> False)"

definition unlink_file :: "fpath \<Rightarrow> ('w store_state_scheme, 'e, bool) proc" where
  "unlink_file p = effect_call (\<lambda>s. if is_file (node_at s p) then Some (delete_node p s) else None)"

text \<open>\<open>rename\<close> of a file; an existing file at the target is replaced.\<close>

definition rename_file :: "fpath \<Rightarrow> fpath \<Rightarrow> ('w store_state_scheme, 'e, bool) proc" where
  "rename_file a b = effect_call (\<lambda>s. case node_at s a of
       Some (File c) \<Rightarrow> if node_at s (butlast b) = Some Dir \<and> node_at s b \<noteq> Some Dir
         then Some (put_node b (File c) (delete_node a s)) else None
     | _ \<Rightarrow> None)"

text \<open>\<open>ensureDirectory\<close> of \<open>archive/archive_storage.cpp\<close> and \<open>collector/spool_store.cpp\<close>: an existing directory will do.\<close>

definition ensure_directory_call :: "fpath \<Rightarrow> ('w store_state_scheme, 'e, bool) proc" where
  "ensure_directory_call p = bind (gets (\<lambda>s. node_at s p)) (\<lambda>n.
     if n = None
     then effect_call (\<lambda>s. if p \<noteq> [] \<and> node_at s (butlast p) = Some Dir then Some (put_node p Dir s) else None)
     else bind attempt_call (\<lambda>existing. ret (existing \<and> n = Some Dir)))"

section \<open>Reasoning about calls\<close>

text \<open>A call takes an event; what does not look at the events outlives it.\<close>

definition event_free :: "('w store_state_scheme \<Rightarrow> bool) \<Rightarrow> bool" where
  "event_free P \<longleftrightarrow> (\<forall>s es. P (s\<lparr>st_events := es\<rparr>) = P s)"

lemma hoare_any_event: "event_free P \<Longrightarrow> hoare P next_event (\<lambda>_. P) E"
  by (auto simp: hoare_def next_event_def event_free_def split: list.splits)

lemma event_free_eq: "event_free P \<Longrightarrow> P (s\<lparr>st_events := es\<rparr>) = P s"
  by (simp add: event_free_def)

lemma event_free_conj: "event_free P \<Longrightarrow> event_free Q \<Longrightarrow> event_free (\<lambda>s. P s \<and> Q s)"
  by (simp add: event_free_def)

lemma event_free_node: "event_free (\<lambda>s. F (node_at s p))"
  by (simp add: event_free_def)

lemma hoare_bind_ret: "keeps P m \<Longrightarrow> keeps P (bind m (\<lambda>x. ret (f x)))"
  by (rule hoare_bind, assumption) (rule hoare_ret)

lemma hoare_attempt_call: "event_free P \<Longrightarrow> keeps P attempt_call"
  unfolding attempt_call_def
  by (rule hoare_bind [OF hoare_any_event]) (auto split: outcome.splits intro: hoare_ret hoare_crash)

lemma hoare_effect_call:
  assumes "event_free P" and "\<And>s t. P s \<Longrightarrow> f s = Some t \<Longrightarrow> Q t" and "event_free Q"
    and "\<And>s. P s \<Longrightarrow> R s" and "\<And>s. Q s \<Longrightarrow> R s"
  shows "hoare P (effect_call f) (\<lambda>ok s. if ok then Q s else R s) R"
  unfolding effect_call_def
proof (rule hoare_bind [OF hoare_any_event [OF assms(1)]])
  fix e show "hoare P (case e of Io_fail \<Rightarrow> ret False | Io_intr \<Rightarrow> ret False
     | Io_lost \<Rightarrow> (\<lambda>s. (Ret False, case f s of None \<Rightarrow> s | Some t \<Rightarrow> t)) | Io_crash \<Rightarrow> crash
     | _ \<Rightarrow> (\<lambda>s. case f s of None \<Rightarrow> (Ret False, s) | Some t \<Rightarrow> (Ret True, t)))
     (\<lambda>ok s. if ok then Q s else R s) R"
    using assms(2,4,5) by (cases e) (auto simp: hoare_def ret_def crash_def split: option.splits)
qed

end
