(* ===== verification/Archive_Storage.thy ===== *)
theory Archive_Storage
  imports Upload_Redis Device_Auth File_Calls
begin

text \<open>
  The upload's files: allocating and writing the temporary file (\<open>allocateFile\<close>, \<open>writeChunk\<close> of
  \<open>api/upload_controller.cpp\<close>), verifying it and moving it into the archive
  (\<open>archive/archive_storage.cpp\<close>), and the row of \<open>archive_file\<close> (\<open>archive/archive_repository.cpp\<close>). A path
  string of the code names the node \<open>path_of\<close> gives. Each of the functions runs in one task. \<open>stat\<close> on an
  existing file is taken to succeed; every other call may fail.
\<close>

section \<open>The temporary file\<close>

text \<open>\<open>pwrite\<close> at an offset, past the end too.\<close>

definition write_at :: "string \<Rightarrow> nat \<Rightarrow> string \<Rightarrow> string" where
  "write_at c offset body =
     take offset (c @ replicate (offset - length c) (char_of (0::nat))) @ body @ drop (offset + length body) c"

text \<open>The error of \<open>allocateFile\<close>; \<open>None\<close> when the file was created.\<close>

definition allocate_file ::
    "string \<Rightarrow> upload_config \<Rightarrow> upload_session \<Rightarrow> ('w ds_world_scheme, 'e, (ds_code \<times> string) option) proc" where
  "allocate_file temp_root cfg session =
     (let p = path_of (us_temp_path session); size = us_file_size session in
      bind attempt_call (\<lambda>statvfs. if \<not> statvfs
        then ret (Some (Ds_storage_io_error, ''cannot inspect temporary storage''))
        else bind (gets (\<lambda>w. (ds_bavail w * ds_frsize w, ds_blocks w * ds_frsize w))) (\<lambda>(available, all_bytes).
          if available < size + uc_min_free_space_bytes cfg \<or>
             (available - size) * 100 < all_bytes * word_of_nat (uc_min_free_space_percent cfg)
          then ret (Some (Storage_capacity_exceeded, ''temporary storage is below the safety threshold''))
          else bind (effect_call (\<lambda>w. if node_at w p = None \<and> node_at w (butlast p) = Some Dir \<and> p \<noteq> []
                then Some (put_node p (File '''') w) else None)) (\<lambda>opened.
            if \<not> opened then ret (Some (Ds_storage_io_error, ''cannot create temporary upload file''))
            else bind next_event (\<lambda>e. case e of
                Io_crash \<Rightarrow> crash
              | Io_ok \<Rightarrow> seq (modify (put_node p (File (replicate (unat size) (char_of (0::nat))))))
                  (bind attempt_call (\<lambda>closed. if closed then ret None
                    else seq (unlink_file p) (ret (Some (Ds_storage_io_error, ''cannot allocate temporary upload file'')))))
              | _ \<Rightarrow> seq attempt_call (seq (unlink_file p) (ret (Some
                  (case e of Io_short _ \<Rightarrow> (Storage_capacity_exceeded, ''temporary storage has insufficient space'')
                   | _ \<Rightarrow> (Ds_storage_io_error, ''cannot allocate temporary upload file''))))))))))"

definition pwrite_all :: "fpath \<Rightarrow> nat \<Rightarrow> string \<Rightarrow> ('w store_state_scheme, 'e, bool) proc" where
  "pwrite_all p base body s = (case transfer_loop (length body) (st_events s) of
     (r, k, es) \<Rightarrow>
       (case r of Transferred \<Rightarrow> Ret True | Transfer_failed \<Rightarrow> Ret False | Transfer_crashed \<Rightarrow> Crashed,
        (case node_at s p of
           Some (File c) \<Rightarrow> if k = 0 then s else put_node p (File (write_at c base (take k body))) s
         | _ \<Rightarrow> s)\<lparr>st_events := es\<rparr>))"

definition write_chunk :: "upload_session \<Rightarrow> nat \<Rightarrow> string \<Rightarrow> ('w store_state_scheme, 'e, bool) proc" where
  "write_chunk session chunk_no body = (let p = path_of (us_temp_path session) in
     bind (effect_call (\<lambda>s. if is_file (node_at s p) then Some s else None)) (\<lambda>opened.
       if \<not> opened then ret False
       else bind (pwrite_all p (chunk_no * unat (us_chunk_size session)) body) (\<lambda>written.
         bind attempt_call (\<lambda>closed. ret (written \<and> closed)))))"

section \<open>The digest of a file\<close>

text \<open>The windows mapped one after the other; what was digested is the concatenation. A window of zero
bytes would make no progress; the configuration excludes it.\<close>

function digest_windows :: "nat \<Rightarrow> string \<Rightarrow> nat \<Rightarrow> string \<Rightarrow> ('w store_state_scheme, 'e, string option) proc" where
  "digest_windows window content offset digested =
     (if offset \<ge> length content then ret (Some digested)
      else if window = 0 then crash
      else let data_length = min window (length content - offset) in
        bind attempt_call (\<lambda>mapped. if \<not> mapped then ret None
          else bind attempt_call (\<lambda>unmapped. if \<not> unmapped then ret None
            else digest_windows window content (offset + data_length)
              (digested @ take data_length (drop offset content)))))"
  by pat_completeness auto
termination
  by (relation "measure (\<lambda>(window, content, offset, digested). length content - offset)") auto

declare digest_windows.simps [simp del]

record file_digest =
  fd_io_ok :: bool
  fd_size_ok :: bool
  fd_digest :: string

definition digest_error :: "bool \<Rightarrow> bool \<Rightarrow> file_digest" where
  "digest_error io_ok size_ok = \<lparr>fd_io_ok = io_ok, fd_size_ok = size_ok, fd_digest = ''''\<rparr>"

definition digest_content :: "crypto \<Rightarrow> string \<Rightarrow> nat \<Rightarrow> ('w store_state_scheme, 'e, file_digest) proc" where
  "digest_content cr content window =
     bind attempt_call (\<lambda>digest_ready. if \<not> digest_ready then ret (digest_error False True)
       else bind (digest_windows window content 0 '''') (\<lambda>digested. case digested of
           None \<Rightarrow> ret (digest_error False True)
         | Some bytes \<Rightarrow> bind attempt_call (\<lambda>closed. bind attempt_call (\<lambda>final.
             if \<not> closed \<or> \<not> final then ret (digest_error False True)
             else ret \<lparr>fd_io_ok = True, fd_size_ok = True, fd_digest = sha256_hex cr bytes\<rparr>))))"

definition digest_file ::
    "crypto \<Rightarrow> fpath \<Rightarrow> u64 \<Rightarrow> nat \<Rightarrow> ('w store_state_scheme, 'e, file_digest) proc" where
  "digest_file cr p expected_size window =
     bind attempt_call (\<lambda>opened. bind attempt_call (\<lambda>stated. bind (gets (\<lambda>s. node_at s p)) (\<lambda>n.
       case (if opened \<and> stated then n else None) of
         Some (File content) \<Rightarrow>
           if length content \<noteq> unat expected_size then ret (digest_error True False)
           else digest_content cr content window
       | _ \<Rightarrow> ret (digest_error False False))))"

section \<open>Moving into the archive\<close>

fun create_directories_from :: "string \<Rightarrow> string list \<Rightarrow> ('w store_state_scheme, 'e, bool) proc" where
  "create_directories_from current [] = ret True"
| "create_directories_from current (part # parts) = (let next_dir = current @ ''/'' @ part in
     bind (ensure_directory_call (path_of next_dir)) (\<lambda>ok.
       if ok then create_directories_from next_dir parts else ret False))"

definition create_archive_directories :: "string \<Rightarrow> string \<Rightarrow> ('w store_state_scheme, 'e, bool) proc" where
  "create_archive_directories archive_root relative_path = create_directories_from archive_root (butlast (path_parts relative_path))"

datatype archive_status = Archived | Integrity_mismatch | Archive_io_error

definition verify_and_archive_file ::
    "crypto \<Rightarrow> string \<Rightarrow> upload_session \<Rightarrow> string \<Rightarrow> nat \<Rightarrow> ('w store_state_scheme, 'e, archive_status) proc" where
  "verify_and_archive_file cr archive_root session relative window =
     (let final_path = path_of (archive_root @ ''/'' @ relative); temp_path = path_of (us_temp_path session) in
      bind (gets (\<lambda>s. node_at s final_path \<noteq> None)) (\<lambda>final_exists.
      bind (digest_file cr (if final_exists then final_path else temp_path) (us_file_size session) window) (\<lambda>d.
        if \<not> fd_io_ok d then ret Archive_io_error
        else if \<not> fd_size_ok d \<or> fd_digest d \<noteq> us_file_sha256 session then ret Integrity_mismatch
        else if final_exists then ret Archived
        else bind (create_archive_directories archive_root relative) (\<lambda>created.
          if \<not> created then ret Archive_io_error
          else bind (rename_file temp_path final_path) (\<lambda>renamed.
            ret (if renamed then Archived else Archive_io_error))))))"

section \<open>The archive table\<close>

datatype archive_lookup = Archive_found archive_entry | Archive_absent | Archive_lookup_unavailable
datatype archive_insert = Inserted u64 | Insert_conflict | Insert_unavailable

text \<open>
  A row as the table holds it: the two DATETIME columns are MySQL texts, the digest is stored by \<open>UNHEX\<close>
  and selected as lower-case hexadecimal digits. \<open>parseRecord\<close> converts the texts back; a row with no
  identifier, a digest that is not 64 characters or a text that is no instant is a failure.
\<close>

definition stored_row :: "archive_entry \<Rightarrow> u64 \<Rightarrow> archive_entry" where
  "stored_row record archive_id = (let produced_at = (case parse_iso8601_milliseconds (ar_produced_at record) of
         None \<Rightarrow> 0 | Some ms \<Rightarrow> ms)
     in record\<lparr>ar_archive_id := archive_id, ar_produced_at := format_mysql_milliseconds produced_at,
          ar_archived_at := format_mysql_milliseconds (ar_archived_at_milliseconds record),
          ar_archived_at_milliseconds := 0\<rparr>)"

definition parse_entry_row :: "archive_entry \<Rightarrow> archive_entry option" where
  "parse_entry_row row =
     (case (mysql_datetime_to_iso8601 (ar_produced_at row), mysql_datetime_to_iso8601 (ar_archived_at row)) of
        (Some produced_at, Some archived_at) \<Rightarrow> (case parse_iso8601_milliseconds archived_at of
            None \<Rightarrow> None
          | Some ms \<Rightarrow> if ar_archive_id row \<noteq> 0 \<and> length (ar_file_sha256 row) = 64
              then Some (row\<lparr>ar_produced_at := produced_at, ar_archived_at := archived_at,
                ar_archived_at_milliseconds := ms\<rparr>)
              else None)
      | _ \<Rightarrow> None)"

text \<open>\<open>SELECT ... WHERE upload_id=... LIMIT 1\<close>\<close>

definition find_by_upload :: "string \<Rightarrow> ('w ds_world_scheme, 'e, archive_lookup) proc" where
  "find_by_upload upload_id = bind (mysql_query (\<lambda>w. find (\<lambda>r. ar_upload_id r = upload_id) (ds_archives w))) (\<lambda>reply.
     ret (case reply of
         None \<Rightarrow> Archive_lookup_unavailable
       | Some None \<Rightarrow> Archive_absent
       | Some (Some row) \<Rightarrow> (case parse_entry_row row of None \<Rightarrow> Archive_lookup_unavailable | Some r \<Rightarrow> Archive_found r)))"

text \<open>The unique keys \<open>uk_archive_upload\<close> and \<open>uk_archive_path\<close>.\<close>

definition unique_violated :: "archive_entry \<Rightarrow> archive_entry list \<Rightarrow> bool" where
  "unique_violated record rows \<longleftrightarrow>
     list_ex (\<lambda>r. ar_upload_id r = ar_upload_id record \<or> ar_relative_path r = ar_relative_path record) rows"

definition insert_archive :: "archive_entry \<Rightarrow> ('w ds_world_scheme, 'e, archive_insert) proc" where
  "insert_archive record = bind (mysql_update (\<lambda>w.
       if unique_violated record (ds_archives w) then (None, w)
       else (Some (ds_next_archive w), w\<lparr>ds_archives := ds_archives w @ [stored_row record (ds_next_archive w)],
               ds_next_archive := ds_next_archive w + 1\<rparr>))) (\<lambda>reply.
     ret (case reply of
         None \<Rightarrow> Insert_unavailable
       | Some None \<Rightarrow> Insert_conflict
       | Some (Some archive_id) \<Rightarrow> Inserted archive_id))"

end
