(* ===== verification/Upload_Controller.thy ===== *)
theory Upload_Controller
  imports Archive_Storage
begin

text \<open>
  The four upload handlers (\<open>api/upload_controller.cpp\<close>) as chains of tasks: creating a session, writing
  a chunk, reading the progress and completing the upload. The state object the callbacks of the code
  share is the arguments of the continuations; the timer task that answers is the \<open>Finished\<close> at the end.
\<close>

record upload_controller =
  uk_auth :: auth_config
  uk_repository :: upload_repository
  uk_temp_root :: string
  uk_archive_root :: string
  uk_body_limit_bytes :: nat

abbreviation uk_config :: "upload_controller \<Rightarrow> upload_config" where
  "uk_config uk \<equiv> ur_config (uk_repository uk)"

text \<open>\<open>parseDecimal\<close> repeats the checked loop of \<open>parseUnsigned\<close>.\<close>

definition parse_decimal :: "string \<Rightarrow> u64 option" where
  "parse_decimal value = (if value = '''' then None else unsigned_loop value 0)"

definition lookup_error :: "session_lookup \<Rightarrow> ds_code \<times> string" where
  "lookup_error status = (case status of
       Session_absent \<Rightarrow> (Upload_not_found, ''upload session was not found'')
     | _ \<Rightarrow> (Redis_unavailable, ''Redis is unavailable''))"

section \<open>Creating a session\<close>

definition create_request_code :: "string \<Rightarrow> ds_code" where
  "create_request_code message =
     (if message = ''file_size exceeds the configured limit'' then File_too_large
      else if message = ''chunk_size exceeds the configured limit'' then Chunk_too_large
      else Invalid_argument)"

definition temp_path_of :: "upload_controller \<Rightarrow> string \<Rightarrow> string" where
  "temp_path_of uk upload_id = uk_temp_root uk @ ''/'' @ upload_id @ ''.part''"

definition new_session ::
    "upload_controller \<Rightarrow> device_identity \<Rightarrow> create_upload_request \<Rightarrow> string \<Rightarrow> int \<Rightarrow> upload_session" where
  "new_session uk identity metadata upload_id now =
     \<lparr>us_upload_id = upload_id, us_state = ''UPLOADING'', us_device_id = di_device_id identity,
      us_station_id = di_station_id identity, us_line_id = di_line_id identity,
      us_collector_id = cu_collector_id metadata, us_work_order = cu_work_order metadata,
      us_product_sn = cu_product_sn metadata, us_file_type = cu_file_type metadata,
      us_result = cu_result metadata, us_original_filename = cu_original_filename metadata,
      us_extension = cu_extension metadata, us_temp_path = temp_path_of uk upload_id,
      us_relative_path = '''', us_produced_at = cu_produced_at metadata,
      us_file_size = cu_file_size metadata, us_file_sha256 = cu_file_sha256 metadata,
      us_chunk_size = cu_chunk_size metadata, us_chunk_count = cu_chunk_count metadata,
      us_expires_at_seconds = now + uc_session_ttl_seconds (uk_config uk), us_failure_code = '''',
      us_archive_id = 0, us_archived_at_milliseconds = 0\<rparr>"

text \<open>The end of a creation that allocated the file but has no session: the file is removed.\<close>

definition abandon_file ::
    "'j ds_json \<Rightarrow> upload_session \<Rightarrow> ds_code \<Rightarrow> string \<Rightarrow> string \<Rightarrow> ('w ds_world_scheme, 'j api_response) chain" where
  "abandon_file dj session code message request_id =
     task (unlink_file (path_of (us_temp_path session))) (\<lambda>_. Finished (refuse dj code message request_id))"

definition created_response :: "'j ds_json \<Rightarrow> upload_session \<Rightarrow> string \<Rightarrow> 'j api_response" where
  "created_response dj session request_id =
     (send_api_response dj Success ''success'' request_id (jl_object dj
       [(''upload_id'', jl_string dj (us_upload_id session)), (''state'', jl_string dj ''UPLOADING''),
        (''chunk_size'', jl_unsigned dj (us_chunk_size session)),
        (''chunk_count'', jl_unsigned dj (us_chunk_count session)),
        (''expires_at'', jl_string dj (format_utc_milliseconds (us_expires_at_seconds session * 1000)))]))
     \<lparr>rp_status := 201\<rparr>"

definition create_session_chain ::
    "'j ds_json \<Rightarrow> upload_controller \<Rightarrow> upload_session \<Rightarrow> create_upload_request \<Rightarrow> string \<Rightarrow>
     ('w ds_world_scheme, 'j api_response) chain" where
  "create_session_chain dj uk session metadata request_id =
     task (binding_check (cu_collector_id metadata) (us_device_id session)) (\<lambda>(available, bound).
       if \<not> available then Finished (refuse dj Mysql_unavailable ''MySQL is unavailable'' request_id)
       else if \<not> bound then Finished (refuse dj Collector_device_mismatch
         ''collector is not authorized for device'' request_id)
       else task (allocate_file (uk_temp_root uk) (uk_config uk) session) (\<lambda>failure. case failure of
           Some (code, message) \<Rightarrow> Finished (refuse dj code message request_id)
         | None \<Rightarrow> task (create_session_task (uk_repository uk) session metadata) (\<lambda>status. case status of
               Session_created \<Rightarrow> Finished (created_response dj session request_id)
             | Session_limit_exceeded \<Rightarrow> abandon_file dj session Upload_limit_exceeded
                 ''upload session limit was exceeded'' request_id
             | Create_unavailable \<Rightarrow> abandon_file dj session Redis_unavailable ''Redis is unavailable'' request_id)))"

definition create_handler ::
    "crypto \<Rightarrow> 'j ds_json \<Rightarrow> upload_controller \<Rightarrow> string \<Rightarrow> http_request \<Rightarrow> ('w ds_world_scheme, 'j api_response) chain" where
  "create_handler cr dj uk generated_id rq =
     (if length (rq_body rq) > uk_body_limit_bytes uk
      then Finished (refuse dj Invalid_argument ''request body is too large'' generated_id)
      else authenticate cr (uk_auth uk) generated_id rq (\<lambda>auth. let request_id = au_request_id auth in
        if au_code auth \<noteq> Success then Finished (refuse dj (au_code auth) (au_message auth) request_id)
        else if \<not> rq_json rq
        then Finished (refuse dj Invalid_argument ''Content-Type must be application/json'' request_id)
        else case parse_create_upload_request dj (uk_config uk) (rq_body rq) of
            Inl message \<Rightarrow> Finished (refuse dj (create_request_code message) message request_id)
          | Inr metadata \<Rightarrow>
              if cu_station_id metadata \<noteq> di_station_id (au_identity auth)
              then Finished (refuse dj Upload_device_mismatch ''device does not belong to station'' request_id)
              else task generate_uuid_v4 (\<lambda>upload_id. task current_unix_seconds (\<lambda>now.
                create_session_chain dj uk (new_session uk (au_identity auth) metadata upload_id now) metadata request_id))))"

section \<open>Writing a chunk\<close>

definition chunk_response :: "'j ds_json \<Rightarrow> u64 \<Rightarrow> bool \<Rightarrow> string \<Rightarrow> 'j api_response" where
  "chunk_response dj chunk_no already_completed request_id =
     send_api_response dj Success ''success'' request_id (jl_object dj
       [(''chunk_no'', jl_unsigned dj chunk_no), (''already_completed'', jl_bool dj already_completed)])"

definition begin_chunk_error :: "begin_chunk_status \<Rightarrow> ds_code \<times> string" where
  "begin_chunk_error status = (case status of
       Content_conflict \<Rightarrow> (Chunk_content_conflict, ''chunk content conflicts with completed data'')
     | State_conflict \<Rightarrow> (Upload_state_conflict, ''upload session is not writable'')
     | Chunk_session_absent \<Rightarrow> (Upload_not_found, ''upload session was not found'')
     | _ \<Rightarrow> (Redis_unavailable, ''Redis is unavailable''))"

definition write_chunk_chain ::
    "'j ds_json \<Rightarrow> upload_controller \<Rightarrow> upload_session \<Rightarrow> string \<Rightarrow> u64 \<Rightarrow> string \<Rightarrow> string \<Rightarrow> string \<Rightarrow>
     ('w ds_world_scheme, 'j api_response) chain" where
  "write_chunk_chain dj uk session upload_id chunk_no digest body request_id =
     task (begin_chunk_task (uk_repository uk) upload_id (unat chunk_no) digest) (\<lambda>status. case status of
         Already_complete \<Rightarrow> Finished (chunk_response dj chunk_no True request_id)
       | Writable \<Rightarrow> task (write_chunk session (unat chunk_no) body) (\<lambda>written.
           if \<not> written then Finished (refuse dj Ds_storage_io_error ''cannot write chunk'' request_id)
           else task (finish_chunk_task (uk_repository uk) session (unat chunk_no) digest) (\<lambda>saved.
             Finished (if saved then chunk_response dj chunk_no False request_id
               else refuse dj Redis_unavailable ''Redis is unavailable'' request_id)))
       | failed \<Rightarrow> (case begin_chunk_error failed of (code, message) \<Rightarrow> Finished (refuse dj code message request_id)))"

definition chunk_handler ::
    "crypto \<Rightarrow> 'j ds_json \<Rightarrow> upload_controller \<Rightarrow> string \<Rightarrow> http_request \<Rightarrow> ('w ds_world_scheme, 'j api_response) chain" where
  "chunk_handler cr dj uk generated_id rq =
     (if length (rq_body rq) > uk_body_limit_bytes uk
      then Finished (refuse dj Chunk_too_large ''chunk body is too large'' generated_id)
      else authenticate cr (uk_auth uk) generated_id rq (\<lambda>auth.
        let request_id = au_request_id auth; upload_id = param rq ''upload_id''; body = rq_body rq in
        if au_code auth \<noteq> Success then Finished (refuse dj (au_code auth) (au_message auth) request_id)
        else case (if is_uuid upload_id \<and> has_header rq ''Content-Length'' \<and>
             parse_decimal (header rq ''Content-Length'') = Some (word_of_nat (length body)) \<and> rq_octet_stream rq
           then parse_decimal (param rq ''chunk_no'') else None) of
            None \<Rightarrow> Finished (refuse dj Invalid_argument ''chunk request is invalid'' request_id)
          | Some chunk_no \<Rightarrow> task (session_lookup_task (uk_repository uk) upload_id) (\<lambda>found. case found of
                Session_found session \<Rightarrow>
                  if us_device_id session \<noteq> di_device_id (au_identity auth)
                  then Finished (refuse dj Upload_device_mismatch ''upload session belongs to another device'' request_id)
                  else if us_state session \<noteq> ''UPLOADING''
                  then Finished (refuse dj Upload_state_conflict ''upload session is not writable'' request_id)
                  else if chunk_no \<ge> us_chunk_count session
                  then Finished (refuse dj Invalid_argument ''chunk_no is out of range'' request_id)
                  else if word_of_nat (length body) \<noteq>
                     chunk_length (us_file_size session) (us_chunk_size session) (us_chunk_count session) chunk_no
                  then Finished (refuse dj Invalid_argument ''chunk length does not match session'' request_id)
                  else write_chunk_chain dj uk session upload_id chunk_no (header rq ''X-Content-SHA256'') body request_id
              | status \<Rightarrow> (case lookup_error status of (code, message) \<Rightarrow> Finished (refuse dj code message request_id)))))"

section \<open>Progress\<close>

definition chunk_numbers :: "'j ds_json \<Rightarrow> (nat \<Rightarrow> bool) \<Rightarrow> u64 \<Rightarrow> 'j" where
  "chunk_numbers dj P n = jl_array dj (map (\<lambda>k. jl_unsigned dj (word_of_nat k)) (filter P [0..<unat n]))"

definition progress_response :: "'j ds_json \<Rightarrow> upload_session \<Rightarrow> string \<Rightarrow> string \<Rightarrow> string \<Rightarrow> 'j api_response" where
  "progress_response dj session upload_id bitmap request_id =
     send_api_response dj Success ''success'' request_id (jl_object dj
       [(''upload_id'', jl_string dj upload_id), (''state'', jl_string dj (us_state session)),
        (''chunk_count'', jl_unsigned dj (us_chunk_count session)),
        (''completed_chunks'', chunk_numbers dj (bitmap_contains bitmap) (us_chunk_count session)),
        (''missing_chunks'', chunk_numbers dj (\<lambda>k. \<not> bitmap_contains bitmap k) (us_chunk_count session)),
        (''expires_at'', jl_string dj (format_utc_milliseconds (us_expires_at_seconds session * 1000))),
        (''failure_code'', nullable_json dj (us_failure_code session))])"

definition progress_handler ::
    "crypto \<Rightarrow> 'j ds_json \<Rightarrow> upload_controller \<Rightarrow> string \<Rightarrow> http_request \<Rightarrow> ('w ds_world_scheme, 'j api_response) chain" where
  "progress_handler cr dj uk generated_id rq =
     authenticate cr (uk_auth uk) generated_id rq (\<lambda>auth.
       let request_id = au_request_id auth; upload_id = param rq ''upload_id'' in
       if au_code auth \<noteq> Success then Finished (refuse dj (au_code auth) (au_message auth) request_id)
       else if \<not> is_uuid upload_id then Finished (refuse dj Invalid_argument ''upload_id is invalid'' request_id)
       else task (session_lookup_task (uk_repository uk) upload_id) (\<lambda>found. case found of
           Session_found session \<Rightarrow>
             if us_device_id session \<noteq> di_device_id (au_identity auth)
             then Finished (refuse dj Upload_device_mismatch ''upload session belongs to another device'' request_id)
             else task (bitmap_task (uk_repository uk) upload_id) (\<lambda>reply. Finished (case reply of
                 None \<Rightarrow> refuse dj Redis_unavailable ''Redis is unavailable'' request_id
               | Some bitmap \<Rightarrow> progress_response dj session upload_id bitmap request_id))
         | status \<Rightarrow> (case lookup_error status of (code, message) \<Rightarrow> Finished (refuse dj code message request_id))))"

section \<open>Completing an upload\<close>

definition completed_response :: "'j ds_json \<Rightarrow> u64 \<Rightarrow> string \<Rightarrow> string \<Rightarrow> string \<Rightarrow> 'j api_response" where
  "completed_response dj archive_id upload_id archived_at request_id =
     send_api_response dj Success ''success'' request_id (jl_object dj
       [(''archive_id'', jl_unsigned dj archive_id), (''upload_id'', jl_string dj upload_id),
        (''state'', jl_string dj ''ARCHIVED''), (''archived_at'', jl_string dj archived_at)])"

definition push_mark_archived ::
    "'j ds_json \<Rightarrow> upload_controller \<Rightarrow> upload_session \<Rightarrow> archive_entry \<Rightarrow> string \<Rightarrow> string \<Rightarrow>
     ('w ds_world_scheme, 'j api_response) chain" where
  "push_mark_archived dj uk session record upload_id request_id =
     task (mark_archived_task (uk_repository uk) session (ar_archive_id record)
       (ar_archived_at_milliseconds record) (ar_relative_path record)) (\<lambda>saved.
       Finished (if saved then completed_response dj (ar_archive_id record) upload_id (ar_archived_at record) request_id
         else refuse dj Redis_unavailable ''Redis is unavailable'' request_id))"

definition insert_chain ::
    "'j ds_json \<Rightarrow> upload_controller \<Rightarrow> upload_session \<Rightarrow> archive_entry \<Rightarrow> string \<Rightarrow> string \<Rightarrow>
     ('w ds_world_scheme, 'j api_response) chain" where
  "insert_chain dj uk session record upload_id request_id =
     task (insert_archive record) (\<lambda>status. case status of
         Inserted archive_id \<Rightarrow>
           push_mark_archived dj uk session (record\<lparr>ar_archive_id := archive_id\<rparr>) upload_id request_id
       | Insert_unavailable \<Rightarrow> Finished (refuse dj Mysql_unavailable ''MySQL is unavailable'' request_id)
       | Insert_conflict \<Rightarrow> task (find_by_upload upload_id) (\<lambda>existing. case existing of
             Archive_found row \<Rightarrow> push_mark_archived dj uk session row upload_id request_id
           | _ \<Rightarrow> Finished (refuse dj Mysql_unavailable ''cannot resolve archive conflict'' request_id)))"

definition archive_chain ::
    "crypto \<Rightarrow> 'j ds_json \<Rightarrow> upload_controller \<Rightarrow> upload_session \<Rightarrow> string \<Rightarrow> string \<Rightarrow>
     ('w ds_world_scheme, 'j api_response) chain" where
  "archive_chain cr dj uk session upload_id request_id =
     task (verify_and_archive_file cr (uk_archive_root uk) session (us_relative_path session)
         (unat (uc_hash_mmap_window_bytes (uk_config uk)))) (\<lambda>status. case status of
         Integrity_mismatch \<Rightarrow>
           task (mark_failed_task (uk_repository uk) session ''FILE_INTEGRITY_MISMATCH'') (\<lambda>saved.
             Finished (if saved then refuse dj File_integrity_mismatch ''file size or SHA-256 does not match'' request_id
               else refuse dj Redis_unavailable ''Redis is unavailable'' request_id))
       | Archive_io_error \<Rightarrow> Finished (refuse dj Ds_storage_io_error ''cannot verify or archive file'' request_id)
       | Archived \<Rightarrow> insert_chain dj uk session
           (make_archive_record session (us_relative_path session) (us_archived_at_milliseconds session))
           upload_id request_id)"

definition begin_complete_error :: "begin_complete_status \<Rightarrow> (ds_code \<times> string) option" where
  "begin_complete_error status = (case status of
       Complete_chunks_incomplete \<Rightarrow> Some (Chunks_incomplete, ''upload chunks are incomplete'')
     | Complete_absent \<Rightarrow> Some (Upload_not_found, ''upload session was not found'')
     | Complete_unavailable \<Rightarrow> Some (Redis_unavailable, ''Redis is unavailable'')
     | Complete_failed \<Rightarrow> Some (Upload_state_conflict, ''upload session has failed'')
     | _ \<Rightarrow> None)"

definition complete_session_chain ::
    "crypto \<Rightarrow> 'j ds_json \<Rightarrow> upload_controller \<Rightarrow> upload_session \<Rightarrow> string \<Rightarrow> int \<Rightarrow> string \<Rightarrow> string \<Rightarrow>
     ('w ds_world_scheme, 'j api_response) chain" where
  "complete_session_chain cr dj uk session upload_id archived_at relative request_id =
     task (begin_complete_task (uk_repository uk) (us_upload_id session) (unat (us_chunk_count session)) archived_at relative)
       (\<lambda>status. case begin_complete_error status of
           Some (code, message) \<Rightarrow> Finished (refuse dj code message request_id)
         | None \<Rightarrow>
             let session' = session\<lparr>us_state := ''VERIFYING'', us_archived_at_milliseconds := archived_at,
                   us_relative_path := relative\<rparr>
             in task (find_by_upload upload_id) (\<lambda>existing. case existing of
                 Archive_found row \<Rightarrow> push_mark_archived dj uk session' row upload_id request_id
               | Archive_lookup_unavailable \<Rightarrow> Finished (refuse dj Mysql_unavailable ''MySQL is unavailable'' request_id)
               | Archive_absent \<Rightarrow> archive_chain cr dj uk session' upload_id request_id))"

definition complete_handler ::
    "crypto \<Rightarrow> 'j ds_json \<Rightarrow> upload_controller \<Rightarrow> string \<Rightarrow> http_request \<Rightarrow> ('w ds_world_scheme, 'j api_response) chain" where
  "complete_handler cr dj uk generated_id rq =
     authenticate cr (uk_auth uk) generated_id rq (\<lambda>auth.
       let request_id = au_request_id auth; upload_id = param rq ''upload_id'' in
       if au_code auth \<noteq> Success then Finished (refuse dj (au_code auth) (au_message auth) request_id)
       else if rq_body rq \<noteq> '''' \<or> \<not> is_uuid upload_id
       then Finished (refuse dj Invalid_argument ''complete request is invalid'' request_id)
       else task (session_lookup_task (uk_repository uk) upload_id) (\<lambda>found. case found of
           Session_found session \<Rightarrow>
             if us_device_id session \<noteq> di_device_id (au_identity auth)
             then Finished (refuse dj Upload_device_mismatch ''upload session belongs to another device'' request_id)
             else if us_state session = ''FAILED''
             then Finished (refuse dj Upload_state_conflict ''upload session has failed'' request_id)
             else if us_state session = ''ARCHIVED'' then
               (if us_archive_id session = 0 \<or> us_archived_at_milliseconds session = 0
                then Finished (refuse dj Redis_unavailable ''Redis upload state is invalid'' request_id)
                else Finished (completed_response dj (us_archive_id session) upload_id
                  (format_utc_milliseconds (us_archived_at_milliseconds session)) request_id))
             else task read_clock (\<lambda>now.
               let now_milliseconds = (case parse_iso8601_milliseconds (st_iso8601 (server_time_at now)) of
                     None \<Rightarrow> 0 | Some ms \<Rightarrow> ms);
                   archived_at = (if us_state session = ''VERIFYING'' then us_archived_at_milliseconds session
                     else now_milliseconds);
                   relative = (if us_state session = ''VERIFYING'' then us_relative_path session
                     else build_archive_relative_path session archived_at)
               in if archived_at = 0 \<or> relative = ''''
                  then Finished (refuse dj Redis_unavailable ''Redis upload state is invalid'' request_id)
                  else complete_session_chain cr dj uk session upload_id archived_at relative request_id)
         | status \<Rightarrow> (case lookup_error status of (code, message) \<Rightarrow> Finished (refuse dj code message request_id))))"

end
