(* ===== verification/Chain_Safety.thy ===== *)
theory Chain_Safety
  imports Ds_World
begin

text \<open>
  Reasoning about chains that run interleaved. An invariant \<open>I\<close> of the world and a preorder \<open>le\<close> (what
  every task leaves of the world before it, whoever runs it) are fixed; a chain is safe from a world if
  each of its tasks, run from any later world with the invariant, keeps the invariant, stays above the
  world it started from, and leaves a safe chain. Steps of safe chains may then be interleaved freely.
\<close>

inductive chain_safe :: "('s \<Rightarrow> bool) \<Rightarrow> ('s \<Rightarrow> 's \<Rightarrow> bool) \<Rightarrow> 's \<Rightarrow> ('s, 'r) chain \<Rightarrow> bool"
  for I :: "'s \<Rightarrow> bool" and le :: "'s \<Rightarrow> 's \<Rightarrow> bool" where
  finished: "chain_safe I le s (Finished r)"
| killed: "chain_safe I le s Killed"
| step: "(\<And>t. le s t \<Longrightarrow> I t \<Longrightarrow> I (fst (f t)) \<and> le t (fst (f t)) \<and> chain_safe I le (fst (f t)) (snd (f t))) \<Longrightarrow>
    chain_safe I le s (Step f)"

inductive_cases chain_safe_stepE: "chain_safe I le s (Step f)"

definition pool_safe :: "('s \<Rightarrow> bool) \<Rightarrow> ('s \<Rightarrow> 's \<Rightarrow> bool) \<Rightarrow> 's \<Rightarrow> ('s, 'r) chain list \<Rightarrow> bool" where
  "pool_safe I le s cs \<longleftrightarrow> I s \<and> (\<forall>c\<in>set cs. chain_safe I le s c)"

locale interleaving =
  fixes I :: "'s \<Rightarrow> bool" and le :: "'s \<Rightarrow> 's \<Rightarrow> bool"
  assumes le_refl: "le s s"
    and le_trans: "le s t \<Longrightarrow> le t u \<Longrightarrow> le s u"
begin

lemma safe_mono: "chain_safe I le s c \<Longrightarrow> le s t \<Longrightarrow> chain_safe I le t c"
proof (cases c)
  case (Step f)
  assume "chain_safe I le s c" "le s t"
  then show ?thesis unfolding Step
    by (intro chain_safe.step) (blast elim!: chain_safe_stepE intro: le_trans)
qed (auto intro: chain_safe.intros)

text \<open>The world as every task of a chain that started at \<open>s\<close> finds it.\<close>

abbreviation above :: "'s \<Rightarrow> 's \<Rightarrow> bool" where
  "above s t \<equiv> I t \<and> le s t"

lemma safe_task:
  assumes "\<And>w. I w \<Longrightarrow> le s w \<Longrightarrow> hoare (above w) m (\<lambda>x t. above w t \<and> Q x t) (above w)"
    and "\<And>x t. I t \<Longrightarrow> le s t \<Longrightarrow> Q x t \<Longrightarrow> chain_safe I le t (k x)"
  shows "chain_safe I le s (task m k)"
  unfolding task_def
proof (rule chain_safe.step)
  fix t assume t: "le s t" "I t"
  note h = assms(1) [OF t(2,1)]
  obtain x u where m: "m t = (x, u)" by (cases "m t")
  show "I (fst (case m t of (Ret x, u) \<Rightarrow> (u, k x) | (Throw e, u) \<Rightarrow> (u, Killed) | (Crashed, u) \<Rightarrow> (u, Killed))) \<and>
    le t (fst (case m t of (Ret x, u) \<Rightarrow> (u, k x) | (Throw e, u) \<Rightarrow> (u, Killed) | (Crashed, u) \<Rightarrow> (u, Killed))) \<and>
    chain_safe I le (fst (case m t of (Ret x, u) \<Rightarrow> (u, k x) | (Throw e, u) \<Rightarrow> (u, Killed) | (Crashed, u) \<Rightarrow> (u, Killed)))
      (snd (case m t of (Ret x, u) \<Rightarrow> (u, k x) | (Throw e, u) \<Rightarrow> (u, Killed) | (Crashed, u) \<Rightarrow> (u, Killed)))"
  proof (cases x)
    case (Ret a)
    with hoareD(1) [OF h _ m [unfolded Ret]] t le_refl have "above t u" "Q a u" by auto
    moreover from this have "chain_safe I le u (k a)" using assms(2) t le_trans by blast
    ultimately show ?thesis by (simp add: m Ret)
  next
    case (Throw e)
    with hoareD(2) [OF h _ m [unfolded Throw]] t le_refl show ?thesis by (auto simp: m intro: killed)
  next
    case Crashed
    with hoareD(3) [OF h _ m [unfolded Crashed]] t le_refl show ?thesis by (auto simp: m intro: killed)
  qed
qed

text \<open>A task of which only that it keeps the world in order is used.\<close>

lemma safe_keeps:
  assumes "\<And>w. hoare (above w) m (\<lambda>_. above w) (above w)"
    and "\<And>x t. I t \<Longrightarrow> le s t \<Longrightarrow> chain_safe I le t (k x)"
  shows "chain_safe I le s (task m k)"
  by (rule safe_task [where Q = "\<lambda>_ _. True"]) (use assms in auto)

lemma pool_advance:
  assumes "pool_safe I le s cs" and "i < length cs" and "cs ! i = Step f" and "f s = (t, c)"
  shows "pool_safe I le t (cs[i := c])"
proof -
  have "chain_safe I le s (Step f)" using assms by (metis pool_safe_def nth_mem)
  then have t: "I t" "le s t" "chain_safe I le t c"
    using assms le_refl by (auto simp: pool_safe_def elim!: chain_safe_stepE) (metis fst_conv snd_conv)+
  have "chain_safe I le t d" if "d \<in> set cs" for d
    using assms(1) that t(2) safe_mono by (auto simp: pool_safe_def)
  moreover have "set (cs[i := c]) \<subseteq> insert c (set cs)" by (rule set_update_subset_insert)
  ultimately show ?thesis using t by (auto simp: pool_safe_def)
qed

lemma pool_advance_le:
  assumes "pool_safe I le s cs" and "i < length cs" and "cs ! i = Step f" and "f s = (t, c)"
  shows "le s t"
proof -
  have "chain_safe I le s (Step f)" using assms by (metis pool_safe_def nth_mem)
  then show ?thesis using assms le_refl by (auto simp: pool_safe_def elim!: chain_safe_stepE) (metis fst_conv)
qed

lemma pool_world:
  assumes "pool_safe I le s cs" and "I t" and "le s t"
  shows "pool_safe I le t cs"
  using assms safe_mono by (auto simp: pool_safe_def)

end

end
