(* ===== verification/Upload_Safety.thy ===== *)
theory Upload_Safety
  imports Upload_Controller Chain_Safety
begin

text \<open>
  The ingest service as a whole: requests of every kind whose tasks are interleaved in any order, any
  call failing, the process crashing at any task. What holds throughout: every row of the archive table
  names a file in the archive with the size and the digest of the row.
\<close>

section \<open>The invariant\<close>

definition archive_node :: "upload_controller \<Rightarrow> string \<Rightarrow> fpath" where
  "archive_node uk relative_path = path_of (uk_archive_root uk @ ''/'' @ relative_path)"

definition stored_file :: "crypto \<Rightarrow> upload_controller \<Rightarrow> 'w store_state_scheme \<Rightarrow> string \<Rightarrow> u64 \<Rightarrow> string \<Rightarrow> bool" where
  "stored_file cr uk w relative_path file_size digest \<longleftrightarrow> (\<exists>c. node_at w (archive_node uk relative_path) = Some (File c) \<and>
     length c = unat file_size \<and> sha256_hex cr c = digest)"

definition archive_sound :: "crypto \<Rightarrow> upload_controller \<Rightarrow> ds_world \<Rightarrow> bool" where
  "archive_sound cr uk w \<longleftrightarrow>
     (\<forall>row\<in>set (ds_archives w). stored_file cr uk w (ar_relative_path row) (ar_file_size row) (ar_file_sha256 row)) \<and>
     distinct (map ar_upload_id (ds_archives w)) \<and> distinct (map ar_relative_path (ds_archives w))"

text \<open>The sessions in Redis keep their files below the temporary root.\<close>

definition temp_field :: "upload_controller \<Rightarrow> (string \<times> string) list \<Rightarrow> bool" where
  "temp_field uk h \<longleftrightarrow> (\<forall>(f, v)\<in>set h. f = ''temp_path'' \<longrightarrow> below (path_of (uk_temp_root uk)) (path_of v))"

definition uk_prefix :: "upload_controller \<Rightarrow> string" where
  "uk_prefix uk = ur_key_prefix (uk_repository uk)"

definition sessions_in_temp :: "upload_controller \<Rightarrow> redis_db \<Rightarrow> bool" where
  "sessions_in_temp uk r \<longleftrightarrow> (\<forall>upload_id h e. is_uuid upload_id \<longrightarrow>
     r (session_key (uk_prefix uk) upload_id) = Some (Rhash h, e) \<longrightarrow> temp_field uk h)"

definition ds_inv :: "crypto \<Rightarrow> upload_controller \<Rightarrow> ds_world \<Rightarrow> bool" where
  "ds_inv cr uk w \<longleftrightarrow> archive_sound cr uk w \<and> sessions_in_temp uk (ds_redis w)"

text \<open>No task touches a file of the archive.\<close>

definition archive_le :: "upload_controller \<Rightarrow> ds_world \<Rightarrow> ds_world \<Rightarrow> bool" where
  "archive_le uk w u \<longleftrightarrow> (\<forall>p c. below (path_of (uk_archive_root uk)) p \<longrightarrow> node_at w p = Some (File c) \<longrightarrow>
     node_at u p = Some (File c))"

text \<open>Neither root lies below the other, and both repositories use one key prefix.\<close>

definition roots_apart :: "upload_controller \<Rightarrow> bool" where
  "roots_apart uk \<longleftrightarrow> \<not> below (path_of (uk_temp_root uk)) (path_of (uk_archive_root uk)) \<and>
     \<not> below (path_of (uk_archive_root uk)) (path_of (uk_temp_root uk))"

interpretation up: interleaving "ds_inv cr uk" "archive_le uk" for cr uk
  by unfold_locales (auto simp: archive_le_def)

section \<open>Redis\<close>

lemma temp_field_list [simp]:
  "temp_field uk []"
  "temp_field uk (p # h) \<longleftrightarrow>
     (fst p = ''temp_path'' \<longrightarrow> below (path_of (uk_temp_root uk)) (path_of (snd p))) \<and> temp_field uk h"
  by (auto simp: temp_field_def)

lemma temp_field_update1:
  "temp_field uk h \<Longrightarrow> (f = ''temp_path'' \<longrightarrow> below (path_of (uk_temp_root uk)) (path_of v)) \<Longrightarrow>
   temp_field uk (AList.update f v h)"
  by (induction h) auto

lemma temp_field_update: "temp_field uk h \<Longrightarrow> temp_field uk fs \<Longrightarrow> temp_field uk (update_fields h fs)"
proof (induction fs arbitrary: h)
  case (Cons p fs)
  then have "temp_field uk (AList.update (fst p) (snd p) h)" by (simp add: temp_field_update1)
  from Cons.IH [OF this] Cons.prems show ?case by (simp add: update_fields_def case_prod_beta)
qed (simp add: update_fields_def)

lemma temp_field_at: "sessions_in_temp uk r \<Longrightarrow> is_uuid i \<Longrightarrow> temp_field uk (hash_at t r (session_key (uk_prefix uk) i))"
  by (auto simp: hash_at_def live_def sessions_in_temp_def split: option.splits redis_value.splits if_splits)

named_theorems in_temp \<open>commands keep the sessions below the temporary root\<close>

text \<open>A value that is no hash is no session.\<close>

lemma in_temp_put [in_temp]: "sessions_in_temp uk r \<Longrightarrow> (\<And>h. v \<noteq> Rhash h) \<Longrightarrow> sessions_in_temp uk (put t k v r)"
  by (auto simp: sessions_in_temp_def put_def)

lemma in_temp_upd [in_temp]: "sessions_in_temp uk r \<Longrightarrow> (\<And>h. v \<noteq> Rhash h) \<Longrightarrow> sessions_in_temp uk (r(k \<mapsto> (v, e)))"
  by (auto simp: sessions_in_temp_def)

lemma in_temp_hset [in_temp]:
  assumes "sessions_in_temp uk r" and "temp_field uk fs"
  shows "sessions_in_temp uk (hset t k fs r)"
  using assms temp_field_update [OF temp_field_at [OF assms(1)] assms(2)]
  by (auto simp: sessions_in_temp_def hset_def put_def)

lemma to_string_not_field [simp]: "to_string n \<noteq> ''temp_path''"
  using to_string_digits [of "CHR ''t''" n] by (auto simp: is_digit_def)

lemma in_temp_expire [in_temp]: "sessions_in_temp uk r \<Longrightarrow> sessions_in_temp uk (expire t k s r)"
  by (auto simp: sessions_in_temp_def expire_def live_def split: option.splits if_splits)

lemma in_temp_del [in_temp]: "sessions_in_temp uk r \<Longrightarrow> sessions_in_temp uk (del k r)"
  by (auto simp: sessions_in_temp_def del_def)

lemma in_temp_setbit [in_temp]: "sessions_in_temp uk r \<Longrightarrow> sessions_in_temp uk (setbit t k i r)"
  unfolding setbit_def by (rule in_temp_put) auto

lemma in_temp_fold:
  assumes "\<And>r k. k \<in> set ks \<Longrightarrow> sessions_in_temp uk r \<Longrightarrow> sessions_in_temp uk (f r k)"
  shows "sessions_in_temp uk r \<Longrightarrow> sessions_in_temp uk (foldl f r ks)"
  using assms by (induction ks arbitrary: r) auto

lemma in_temp_quotas [in_temp]:
  assumes "sessions_in_temp uk r"
  shows "sessions_in_temp uk (clean_quotas t now (quota_keys (uk_prefix uk) d c) r)"
    "sessions_in_temp uk (add_to_quotas t score m (quota_keys (uk_prefix uk) d c) r)"
    "sessions_in_temp uk (remove_from_quotas t m (quota_keys (uk_prefix uk) d c) r)"
  unfolding clean_quotas_def add_to_quotas_def remove_from_quotas_def zrem_up_to_def zadd_def zrem_def
  by (rule in_temp_fold [OF _ assms], rule in_temp_put, assumption, simp)+

lemma in_temp_expire_all [in_temp]: "sessions_in_temp uk r \<Longrightarrow> sessions_in_temp uk (expire_all t s ks r)"
  unfolding expire_all_def by (rule in_temp_fold) (auto intro: in_temp)

lemma temp_field_session:
  "below (path_of (uk_temp_root uk)) (path_of (us_temp_path session)) \<Longrightarrow> temp_field uk (session_fields cfg session metadata)"
  by (simp add: session_fields_def)

lemma in_temp_create:
  assumes "sessions_in_temp uk r" and "below (path_of (uk_temp_root uk)) (path_of (us_temp_path session))"
  shows "sessions_in_temp uk (snd (create_session_script (uk_prefix uk) cfg session metadata now t r))"
proof -
  define q where "q = clean_quotas t now (quota_keys (uk_prefix uk) (us_device_id session) (us_collector_id session)) r"
  have q: "sessions_in_temp uk q" unfolding q_def by (rule in_temp_quotas(1) [OF assms(1)])
  show ?thesis
    unfolding create_session_script_def Let_def q_def [symmetric]
    using q by (auto intro!: in_temp_quotas(2) in_temp_expire in_temp_hset temp_field_session [OF assms(2)])
qed

lemma in_temp_scripts:
  assumes "sessions_in_temp uk r"
  shows "sessions_in_temp uk (snd (begin_chunk_script (uk_prefix uk) cfg upload_id n digest t r))"
    "sessions_in_temp uk (snd (finish_chunk_script (uk_prefix uk) cfg session n digest expires t r))"
    "sessions_in_temp uk (snd (begin_complete_script (uk_prefix uk) upload_id k archived_at relative t r))"
    "sessions_in_temp uk (snd (mark_failed_script (uk_prefix uk) ttl session failure expires t r))"
    "sessions_in_temp uk (snd (mark_archived_script (uk_prefix uk) ttl session archive_id archived_at relative t r))"
proof -
  show "sessions_in_temp uk (snd (begin_chunk_script (uk_prefix uk) cfg upload_id n digest t r))"
    unfolding begin_chunk_script_def Let_def using assms by (auto intro!: in_temp_expire in_temp_hset)
  show "sessions_in_temp uk (snd (finish_chunk_script (uk_prefix uk) cfg session n digest expires t r))"
    unfolding finish_chunk_script_def Let_def using assms
    by (auto intro!: in_temp_quotas(2) in_temp_expire_all in_temp_hset in_temp_setbit)
  show "sessions_in_temp uk (snd (begin_complete_script (uk_prefix uk) upload_id k archived_at relative t r))"
    unfolding begin_complete_script_def Let_def using assms by (auto intro!: in_temp_hset)
  show "sessions_in_temp uk (snd (mark_failed_script (uk_prefix uk) ttl session failure expires t r))"
    unfolding mark_failed_script_def Let_def using assms
    by (auto intro!: in_temp_quotas(2) in_temp_expire_all in_temp_hset)
  show "sessions_in_temp uk (snd (mark_archived_script (uk_prefix uk) ttl session archive_id archived_at relative t r))"
    unfolding mark_archived_script_def Let_def using assms
    by (auto intro!: in_temp_quotas(3) in_temp_expire_all in_temp_hset)
qed


section \<open>Tasks that keep the world in order\<close>

abbreviation in_order :: "crypto \<Rightarrow> upload_controller \<Rightarrow> ds_world \<Rightarrow> ds_world \<Rightarrow> bool" where
  "in_order cr uk w t \<equiv> ds_inv cr uk t \<and> archive_le uk w t"

lemma archive_node_below: "below (path_of (uk_archive_root uk)) (archive_node uk relative_path)"
  by (simp add: archive_node_def path_of_append)

lemma stored_file_le:
  "stored_file cr uk s relative_path n digest \<Longrightarrow> archive_le uk s t \<Longrightarrow> stored_file cr uk t relative_path n digest"
  unfolding stored_file_def archive_le_def using archive_node_below by blast

lemma in_order_step:
  assumes "in_order cr uk w s" and "archive_le uk s t" and "ds_archives t = ds_archives s"
    and "sessions_in_temp uk (ds_redis t)"
  shows "in_order cr uk w t"
proof -
  have "archive_le uk w t" using assms(1,2) up.le_trans by blast
  then show ?thesis using assms by (auto simp: ds_inv_def archive_sound_def intro: stored_file_le)
qed

text \<open>Only the files outside the archive and what no property is about may have changed.\<close>

definition calm :: "upload_controller \<Rightarrow> ds_world \<Rightarrow> ds_world \<Rightarrow> bool" where
  "calm uk s t \<longleftrightarrow> archive_le uk s t \<and> ds_archives t = ds_archives s \<and> ds_redis t = ds_redis s"

lemma in_order_calm: "in_order cr uk w s \<Longrightarrow> calm uk s t \<Longrightarrow> in_order cr uk w t"
  using in_order_step [where cr = cr and uk = uk and w = w and s = s and t = t] by (simp add: calm_def ds_inv_def)

lemma calm_same: "st_nodes t = st_nodes s \<Longrightarrow> ds_archives t = ds_archives s \<Longrightarrow> ds_redis t = ds_redis s \<Longrightarrow> calm uk s t"
  by (simp add: calm_def archive_le_def node_at_def)

lemma calm_trans: "calm uk s t \<Longrightarrow> calm uk t u \<Longrightarrow> calm uk s u"
  by (auto simp: calm_def intro: up.le_trans)

lemma calm_simps [simp]: "calm uk s s" "calm uk s (t\<lparr>st_events := es\<rparr>) = calm uk s t" "calm uk s (advance_clock t) = calm uk s t"
  by (simp_all add: calm_def archive_le_def)

text \<open>A task that is calm, whatever happens.\<close>

lemma hoare_calm:
  assumes "\<And>s x t. m s = (x, t) \<Longrightarrow> calm uk s t"
  shows "keeps (in_order cr uk w) m"
  by (rule hoareI) (use assms in_order_calm in blast)+

lemma calm_clock: "read_clock s = (x, t) \<Longrightarrow> calm uk s t"
  "current_unix_seconds s = (y, t) \<Longrightarrow> calm uk s t"
  by (auto simp: current_unix_seconds_def read_clock_def exec_simps)

lemma calm_query: "mysql_query f s = (x, t) \<Longrightarrow> calm uk s t"
  by (auto simp: mysql_query_def exec_simps next_event_def split: list.splits outcome.splits)

lemma calm_bind_ret: "bind m (\<lambda>x. ret (f x)) s = (y, t) \<Longrightarrow> (\<And>x. m s = (x, t) \<Longrightarrow> calm uk s t) \<Longrightarrow> calm uk s t"
  by (auto simp: bind_def ret_def split: prod.splits result.splits)

lemma calm_lookups:
  "lookup_device d s = (x1, t) \<Longrightarrow> calm uk s t"
  "binding_check c d s = (x2, t) \<Longrightarrow> calm uk s t"
  "find_by_upload u s = (x3, t) \<Longrightarrow> calm uk s t"
  unfolding lookup_device_def binding_check_def find_by_upload_def
  by (erule calm_bind_ret, erule calm_query)+

lemma calm_uuid: "generate_uuid_v4 s = (x, t) \<Longrightarrow> calm uk s t"
  by (auto simp: generate_uuid_v4_def intro!: calm_same split: list.splits option.splits)

lemma calm_heartbeat: "update_heartbeat d v l s = (x, t) \<Longrightarrow> calm uk s t"
  unfolding update_heartbeat_def Let_def
  by (erule calm_bind_ret)
    (auto simp: mysql_update_def exec_simps next_event_def intro!: calm_same split: list.splits outcome.splits)

lemma in_order_events [simp]:
  "ds_inv cr uk (s\<lparr>st_events := es\<rparr>) = ds_inv cr uk s" "archive_le uk w (s\<lparr>st_events := es\<rparr>) = archive_le uk w s"
  by (simp_all add: ds_inv_def archive_sound_def stored_file_def archive_le_def)

lemma event_free_in_order: "event_free (in_order cr uk w)"
  by (simp add: event_free_def)

lemma hoare_redis_effect:
  assumes "\<And>t r. sessions_in_temp uk r \<Longrightarrow> sessions_in_temp uk (snd (f t r))"
  shows "keeps (in_order cr uk w) (redis_effect f)"
proof -
  have "in_order cr uk w t" if "in_order cr uk w s" "redis_effect f s = (x, t)" for s t x
  proof -
    have t: "t = (advance_clock s)\<lparr>ds_redis := snd (f (ds_clock (advance_clock s)) (ds_redis s))\<rparr>"
      using that(2) by (auto simp: redis_effect_def Let_def split: prod.splits)
    from that(1) show ?thesis
      by (rule in_order_step) (use that(1) assms in \<open>simp_all add: t archive_le_def ds_inv_def\<close>)
  qed
  then show ?thesis by (intro hoareI) blast+
qed

lemma hoare_redis_call:
  assumes "\<And>t r. sessions_in_temp uk r \<Longrightarrow> sessions_in_temp uk (snd (f t r))"
  shows "keeps (in_order cr uk w) (redis_call f)"
  unfolding redis_call_def
  by (rule hoare_bind [OF hoare_any_event [OF event_free_in_order]])
    (auto split: outcome.splits intro!: hoare_ret hoare_crash
      hoare_seq [OF hoare_redis_effect [OF assms]] hoare_bind [OF hoare_redis_effect [OF assms]])

section \<open>Files\<close>

lemma hoare_digest_windows:
  assumes "event_free P"
  shows "hoare P (digest_windows window content offset digested :: ('w store_state_scheme, 'e, string option) proc)
    (\<lambda>r s. P s \<and> (\<forall>b. r = Some b \<longrightarrow> b = digested @ drop offset content)) P"
  using assms
proof (induction window content offset digested rule: digest_windows.induct)
  case (1 window content offset digested)
  show ?case
  proof (cases "offset \<ge> length content \<or> window = 0")
    case True
    then show ?thesis by (subst digest_windows.simps) (auto intro!: hoare_ret hoare_crash)
  next
    case False
    define n where "n = min window (length content - offset)"
    have ih: "hoare P (digest_windows window content (offset + n) (digested @ take n (drop offset content))
        :: ('w store_state_scheme, 'e, string option) proc)
      (\<lambda>r s. P s \<and> (\<forall>b. r = Some b \<longrightarrow> b = (digested @ take n (drop offset content)) @ drop (offset + n) content)) P"
      using "1.IH" [of n True True, OF _ _ n_def] False "1.prems" by simp
    have drop: "take n (drop offset content) @ drop (offset + n) content = drop offset content"
      by (metis append_take_drop_id drop_drop add.commute)
    show ?thesis
      unfolding digest_windows.simps [of window content offset digested] Let_def n_def [symmetric]
      using False ih drop
      by (auto intro!: hoare_bind [OF hoare_attempt_call [OF "1.prems"]] hoare_ret)
  qed
qed


text \<open>Below the temporary root nothing of the archive is found.\<close>

lemma below_linear: "below a p \<Longrightarrow> below b p \<Longrightarrow> below a b \<or> below b a"
  by (auto simp: below_iff append_eq_append_conv2)

lemma temp_not_archive:
  "roots_apart uk \<Longrightarrow> below (path_of (uk_temp_root uk)) p \<Longrightarrow> \<not> below (path_of (uk_archive_root uk)) p"
  using below_linear unfolding roots_apart_def by blast

lemma world_nodes [simp]:
  "ds_archives (put_node p n w) = ds_archives w" "ds_redis (put_node p n w) = ds_redis w"
  "ds_archives (delete_node p w) = ds_archives w" "ds_redis (delete_node p w) = ds_redis w"
  by (simp_all add: put_node_def delete_node_def)

lemma calm_put:
  assumes "\<not> below (path_of (uk_archive_root uk)) p \<or> \<not> is_file (node_at s p)"
  shows "calm uk s (put_node p n s)"
  using assms by (auto simp: calm_def archive_le_def is_file_def)

lemma calm_delete: "\<not> below (path_of (uk_archive_root uk)) p \<Longrightarrow> calm uk s (delete_node p s)"
  by (auto simp: calm_def archive_le_def)

lemma hoare_effect_in_order:
  assumes "\<And>s t. f s = Some t \<Longrightarrow> calm uk s t"
  shows "keeps (in_order cr uk w) (effect_call f)"
proof (rule hoare_conseq [OF hoare_effect_call [where P = "in_order cr uk w" and Q = "in_order cr uk w"
    and R = "in_order cr uk w" and f = f]])
  show "in_order cr uk w t" if "in_order cr uk w s" "f s = Some t" for s t
    using in_order_calm [OF that(1) assms [OF that(2)]] .
qed (auto intro: event_free_in_order split: if_splits)

lemma keeps_unlink: "roots_apart uk \<Longrightarrow> below (path_of (uk_temp_root uk)) p \<Longrightarrow> keeps (in_order cr uk w) (unlink_file p)"
  unfolding unlink_file_def
  by (rule hoare_effect_in_order) (auto split: if_splits intro: calm_delete dest: temp_not_archive)

lemma keeps_write_chunk:
  assumes "roots_apart uk" and "below (path_of (uk_temp_root uk)) (path_of (us_temp_path session))"
  shows "keeps (in_order cr uk w) (write_chunk session n body)"
proof -
  let ?p = "path_of (us_temp_path session)"
  have p: "\<not> below (path_of (uk_archive_root uk)) ?p" by (rule temp_not_archive [OF assms])
  have wr: "keeps (in_order cr uk w) (pwrite_all ?p base body)" for base
    by (rule hoare_calm)
      (auto simp: pwrite_all_def p intro!: calm_put split: prod.splits option.splits node.splits if_splits)
  show ?thesis
    unfolding write_chunk_def Let_def
    by (rule hoare_bind [OF hoare_effect_in_order])
      (auto split: if_splits intro!: hoare_ret hoare_bind [OF wr] hoare_bind [OF hoare_attempt_call [OF event_free_in_order]])
qed

lemma keeps_allocate_file:
  assumes "roots_apart uk" and "below (path_of (uk_temp_root uk)) (path_of (us_temp_path session))"
  shows "keeps (in_order cr uk w) (allocate_file temp_root cfg session)"
proof -
  let ?p = "path_of (us_temp_path session)"
  have p: "\<not> below (path_of (uk_archive_root uk)) ?p" by (rule temp_not_archive [OF assms])
  note attempt = hoare_attempt_call [OF event_free_in_order]
  have fill: "keeps (in_order cr uk w) (modify (put_node ?p n))" for n
    by (rule hoare_calm) (auto simp: modify_def p intro: calm_put)
  have open_new: "keeps (in_order cr uk w) (effect_call (\<lambda>u. if node_at u ?p = None \<and> node_at u (butlast ?p) = Some Dir \<and> ?p \<noteq> []
                then Some (put_node ?p (File '''') u) else None))"
    by (rule hoare_effect_in_order) (auto simp: p split: if_splits intro: calm_put)
  show ?thesis
    unfolding allocate_file_def Let_def
    by (rule hoare_bind [OF attempt])
      (auto split: outcome.splits intro!: hoare_ret hoare_crash hoare_bind [OF open_new] hoare_bind [OF hoare_gets [where Q = "\<lambda>_. in_order cr uk w"]]
        hoare_bind [OF hoare_any_event [OF event_free_in_order]] hoare_seq [OF fill] hoare_seq [OF attempt] hoare_bind [OF attempt]
        hoare_seq [OF keeps_unlink [OF assms]])
qed

text \<open>The digest of a file describes the node it was read from.\<close>

lemma hoare_digest_content:
  fixes P :: "'w store_state_scheme \<Rightarrow> bool"
  assumes "event_free P"
  shows "hoare P (digest_content cr c window :: ('w store_state_scheme, 'e, file_digest) proc)
    (\<lambda>d s. P s \<and> (fd_io_ok d \<longrightarrow> fd_digest d = sha256_hex cr c)) P"
proof -
  note attempt = hoare_attempt_call [OF assms]
  have windows: "hoare P (digest_windows window c 0 '''' :: ('w store_state_scheme, 'e, string option) proc)
      (\<lambda>r s. P s \<and> (r = None \<or> r = Some c)) P"
    by (rule hoare_conseq [OF hoare_digest_windows [OF assms, of window c 0 "''''"]]) (auto, metis option.exhaust)
  have ends: "hoare (\<lambda>s. P s \<and> (r = None \<or> r = Some c)) (case r of None \<Rightarrow> ret (digest_error False True)
      | Some bytes \<Rightarrow> bind attempt_call (\<lambda>closed. bind attempt_call (\<lambda>final.
             if \<not> closed \<or> \<not> final then ret (digest_error False True)
             else ret \<lparr>fd_io_ok = True, fd_size_ok = True, fd_digest = sha256_hex cr bytes\<rparr>)))
      (\<lambda>d s. P s \<and> (fd_io_ok d \<longrightarrow> fd_digest d = sha256_hex cr c)) P" for r
  proof (cases "r = Some c")
    case True
    have "hoare P (bind attempt_call (\<lambda>closed. bind attempt_call (\<lambda>final.
             if \<not> closed \<or> \<not> final then ret (digest_error False True)
             else ret \<lparr>fd_io_ok = True, fd_size_ok = True, fd_digest = sha256_hex cr c\<rparr>)))
      (\<lambda>d s. P s \<and> (fd_io_ok d \<longrightarrow> fd_digest d = sha256_hex cr c)) P"
      by (intro hoare_bind [OF attempt] hoare_if hoare_ret) (simp_all add: digest_error_def)
    then show ?thesis using True by simp
  next
    case False
    then show ?thesis by (cases r) (auto simp: hoare_def ret_def digest_error_def)
  qed
  show ?thesis
    unfolding digest_content_def
    by (intro hoare_bind [OF attempt] hoare_if hoare_ret hoare_bind [OF windows] ends) (simp add: digest_error_def)
qed

lemma hoare_digest_branch:
  fixes P :: "'w store_state_scheme \<Rightarrow> bool"
  assumes P: "event_free P"
  shows "hoare (\<lambda>s. P s \<and> x = n) (case (if opened \<and> stated then x else None) of
         Some (File content) \<Rightarrow>
           if length content \<noteq> unat file_size then ret (digest_error True False)
           else digest_content cr content window
       | _ \<Rightarrow> ret (digest_error False False))
    (\<lambda>d s. P s \<and> (fd_io_ok d \<and> fd_size_ok d \<longrightarrow>
       (\<exists>c. n = Some (File c) \<and> length c = unat file_size \<and> sha256_hex cr c = fd_digest d))) P"
proof (cases "\<exists>c. opened \<and> stated \<and> x = n \<and> n = Some (File c) \<and> length c = unat file_size")
  case True
  then obtain c where c: "opened" "stated" "x = n" "n = Some (File c)" "length c = unat file_size" by auto
  show ?thesis
    using c by simp (rule hoare_conseq [OF hoare_digest_content [OF P]]; auto)
next
  case False
  then show ?thesis
    by (auto simp: hoare_def ret_def digest_error_def split: option.splits node.splits)
qed

lemma hoare_digest_file:
  fixes P :: "'w store_state_scheme \<Rightarrow> bool"
  assumes P: "event_free P" and n: "\<And>s. P s \<Longrightarrow> node_at s p = n"
  shows "hoare P (digest_file cr p file_size window :: ('w store_state_scheme, 'e, file_digest) proc)
    (\<lambda>d s. P s \<and> (fd_io_ok d \<and> fd_size_ok d \<longrightarrow>
       (\<exists>c. n = Some (File c) \<and> length c = unat file_size \<and> sha256_hex cr c = fd_digest d))) P"
proof -
  note attempt = hoare_attempt_call [OF P]
  have got: "hoare P (gets (\<lambda>s. node_at s p)) (\<lambda>x s. P s \<and> x = n) P"
    by (rule hoare_gets) (simp add: n)
  show ?thesis
    unfolding digest_file_def
    by (intro hoare_bind [OF attempt] hoare_bind [OF got] hoare_digest_branch [OF P])
qed


lemma hoare_ghost: "(\<And>n. hoare (\<lambda>s. P s \<and> F s = n) m Q E) \<Longrightarrow> hoare P m Q E"
  by (auto simp: hoare_def)

text \<open>Directories appear where nothing was: the temporary file stays, and nothing becomes a file.\<close>

definition ready_to_move :: "crypto \<Rightarrow> upload_controller \<Rightarrow> ds_world \<Rightarrow> fpath \<Rightarrow> string \<Rightarrow> fpath \<Rightarrow> ds_world \<Rightarrow> bool" where
  "ready_to_move cr uk w temp c final s \<longleftrightarrow>
     in_order cr uk w s \<and> node_at s temp = Some (File c) \<and> \<not> is_file (node_at s final)"

lemma event_free_ready: "event_free (ready_to_move cr uk w temp c final)"
  by (simp add: event_free_def ready_to_move_def)

lemma keeps_ensure_directory: "keeps (ready_to_move cr uk w temp c final) (ensure_directory_call p)"
proof -
  have dir: "ready_to_move cr uk w temp c final (put_node p Dir s)"
    if "ready_to_move cr uk w temp c final s" "node_at s p = None" for s
  proof -
    from that(2) have "calm uk s (put_node p Dir s)" by (intro calm_put) (simp add: is_file_def)
    with that show ?thesis
      by (auto simp: ready_to_move_def is_file_def split: if_splits intro: in_order_calm [THEN conjunct1] in_order_calm [THEN conjunct2])
  qed
  show ?thesis
    unfolding ensure_directory_call_def
  proof (rule hoare_bind [OF hoare_gets [where Q = "\<lambda>n s. ready_to_move cr uk w temp c final s \<and> node_at s p = n"]])
    fix n
    show "hoare (\<lambda>s. ready_to_move cr uk w temp c final s \<and> node_at s p = n)
      (if n = None then effect_call (\<lambda>s. if p \<noteq> [] \<and> node_at s (butlast p) = Some Dir then Some (put_node p Dir s) else None)
       else bind attempt_call (\<lambda>existing. ret (existing \<and> n = Some Dir)))
      (\<lambda>_. ready_to_move cr uk w temp c final) (ready_to_move cr uk w temp c final)"
    proof (rule hoare_if)
      assume "n = None"
      then show "hoare (\<lambda>s. ready_to_move cr uk w temp c final s \<and> node_at s p = n)
          (effect_call (\<lambda>s. if p \<noteq> [] \<and> node_at s (butlast p) = Some Dir then Some (put_node p Dir s) else None))
          (\<lambda>_. ready_to_move cr uk w temp c final) (ready_to_move cr uk w temp c final)"
        by (intro hoare_conseq [OF hoare_effect_call [where Q = "ready_to_move cr uk w temp c final"
              and R = "ready_to_move cr uk w temp c final"
              and P = "\<lambda>s. ready_to_move cr uk w temp c final s \<and> node_at s p = n"]])
          (auto split: if_splits intro: dir event_free_ready event_free_conj event_free_node [where F = "\<lambda>x. x = None"])
    next
      assume "n \<noteq> None"
      then show "hoare (\<lambda>s. ready_to_move cr uk w temp c final s \<and> node_at s p = n)
          (bind attempt_call (\<lambda>existing. ret (existing \<and> n = Some Dir)))
          (\<lambda>_. ready_to_move cr uk w temp c final) (ready_to_move cr uk w temp c final)"
        by (intro hoare_pre [OF hoare_bind_ret [OF hoare_attempt_call [OF event_free_ready]]]) simp
    qed
  qed simp
qed

lemma keeps_create_directories: "keeps (ready_to_move cr uk w temp c final) (create_directories_from current parts)"
  by (induction parts arbitrary: current)
    (auto simp: Let_def intro!: hoare_ret hoare_bind [OF keeps_ensure_directory])

lemma hoare_rename_into_archive:
  assumes "roots_apart uk" and "below (path_of (uk_temp_root uk)) temp"
    and "final = archive_node uk relative"
  shows "hoare (ready_to_move cr uk w temp c final) (rename_file temp final)
    (\<lambda>ok s. in_order cr uk w s \<and> (ok \<longrightarrow> node_at s final = Some (File c))) (in_order cr uk w)"
proof -
  have t: "\<not> below (path_of (uk_archive_root uk)) temp" by (rule temp_not_archive [OF assms(1,2)])
  have f: "below (path_of (uk_archive_root uk)) final" by (simp add: assms(3) archive_node_below)
  have moved: "in_order cr uk w (put_node final (File c) (delete_node temp s))"
    if "ready_to_move cr uk w temp c final s" for s
  proof -
    have "calm uk s (put_node final (File c) (delete_node temp s))"
      using that t by (intro calm_trans [OF calm_delete [OF t] calm_put]) (auto simp: ready_to_move_def is_file_def)
    with that show ?thesis unfolding ready_to_move_def using in_order_calm by blast
  qed
  show ?thesis
    unfolding rename_file_def
  proof (rule hoare_conseq [OF hoare_effect_call [where P = "ready_to_move cr uk w temp c final"
        and Q = "\<lambda>s. in_order cr uk w s \<and> node_at s final = Some (File c)" and R = "in_order cr uk w"]])
    show "event_free (\<lambda>s. in_order cr uk w s \<and> node_at s final = Some (File c))"
      by (simp add: event_free_def)
    show "in_order cr uk w t \<and> node_at t final = Some (File c)"
      if "ready_to_move cr uk w temp c final s"
        "(case node_at s temp of
           Some (File c) \<Rightarrow> if node_at s (butlast final) = Some Dir \<and> node_at s final \<noteq> Some Dir
             then Some (put_node final (File c) (delete_node temp s)) else None
         | _ \<Rightarrow> None) = Some t" for s t
      using that moved by (auto simp: ready_to_move_def split: if_splits)
  qed (auto simp: ready_to_move_def event_free_ready split: if_splits)
qed

lemma hoare_move_verified:
  fixes cr :: crypto
  assumes "roots_apart uk" and "below (path_of (uk_temp_root uk)) temp" and "final = archive_node uk relative"
  shows "hoare (\<lambda>s. in_order cr uk w s \<and> node_at s final = None \<and> node_at s temp = Some (File c))
    (bind (create_archive_directories (uk_archive_root uk) relative) (\<lambda>created.
       if \<not> created then ret Archive_io_error
       else bind (rename_file temp final) (\<lambda>renamed. ret (if renamed then Archived else Archive_io_error)))
     :: (ds_world, 'e, archive_status) proc)
    (\<lambda>status s. in_order cr uk w s \<and> (status = Archived \<longrightarrow> node_at s final = Some (File c))) (in_order cr uk w)"
    (is "hoare ?P ?m ?Q ?E")
proof -
  let ?R = "ready_to_move cr uk w temp c final"
  have dirs: "hoare ?R (create_archive_directories (uk_archive_root uk) relative :: (ds_world, 'e, bool) proc)
      (\<lambda>_. ?R) ?E"
    unfolding create_archive_directories_def
    by (rule hoare_conseq [OF keeps_create_directories]) (auto simp: ready_to_move_def)
  have move: "hoare ?R (bind (rename_file temp final) (\<lambda>renamed. ret (if renamed then Archived else Archive_io_error))
      :: (ds_world, 'e, archive_status) proc) ?Q ?E"
    by (rule hoare_bind [OF hoare_rename_into_archive [OF assms]]) (auto intro!: hoare_ret)
  have fail: "hoare ?R (ret Archive_io_error :: (ds_world, 'e, archive_status) proc) ?Q ?E"
    by (rule hoare_ret) (simp add: ready_to_move_def)
  have "hoare ?R ?m ?Q ?E"
    by (rule hoare_bind [OF dirs]) (intro hoare_if move fail)
  then show ?thesis by (rule hoare_pre) (simp add: ready_to_move_def is_file_def)
qed

text \<open>\<open>Archived\<close> means what it says: the file is in the archive, with the size and digest of the session.\<close>

lemma hoare_verify_and_archive:
  assumes roots: "roots_apart uk" and temp: "below (path_of (uk_temp_root uk)) (path_of (us_temp_path session))"
  shows "hoare (in_order cr uk w)
    (verify_and_archive_file cr (uk_archive_root uk) session relative window :: (ds_world, 'e, archive_status) proc)
    (\<lambda>status s. in_order cr uk w s \<and> (status = Archived \<longrightarrow>
       stored_file cr uk s relative (us_file_size session) (us_file_sha256 session))) (in_order cr uk w)"
    (is "hoare ?I ?m ?Q ?I")
proof -
  let ?final = "archive_node uk relative" and ?temp = "path_of (us_temp_path session)"
  let ?size = "us_file_size session" and ?digest = "us_file_sha256 session"
  define tail where "tail = (bind (create_archive_directories (uk_archive_root uk) relative) (\<lambda>created.
          if \<not> created then ret Archive_io_error
          else bind (rename_file ?temp ?final) (\<lambda>renamed. ret (if renamed then Archived else Archive_io_error)))
        :: (ds_world, 'e, archive_status) proc)"
  define decide where "decide = (\<lambda>b (d :: file_digest). if \<not> fd_io_ok d then ret Archive_io_error
        else if \<not> fd_size_ok d \<or> fd_digest d \<noteq> ?digest then ret Integrity_mismatch
        else if b then ret Archived else tail)"
  have tail: "hoare (\<lambda>s. ?I s \<and> node_at s ?final = None \<and> node_at s ?temp = Some (File c)) tail
      (\<lambda>status s. ?I s \<and> (status = Archived \<longrightarrow> node_at s ?final = Some (File c))) ?I" for c
    unfolding tail_def by (rule hoare_move_verified [OF roots temp refl])
  have digest: "hoare (\<lambda>s. ?I s \<and> node_at s p = n \<and> F s) (digest_file cr p ?size window :: (ds_world, 'e, file_digest) proc)
      (\<lambda>d s. (?I s \<and> node_at s p = n \<and> F s) \<and> (fd_io_ok d \<and> fd_size_ok d \<longrightarrow>
         (\<exists>c. n = Some (File c) \<and> length c = unat ?size \<and> sha256_hex cr c = fd_digest d))) ?I"
    if "event_free F" for p n F
    by (rule hoare_conseq [OF hoare_digest_file [where P = "\<lambda>s. ?I s \<and> node_at s p = n \<and> F s"]])
      (use that in \<open>auto simp: event_free_def\<close>)
  have found: "hoare (\<lambda>s. ?I s \<and> node_at s ?final = n \<and> True) (bind (digest_file cr ?final ?size window) (decide True)) ?Q ?I" for n
  proof (rule hoare_bind [OF digest])
    show "event_free (\<lambda>_ :: ds_world. True)" by (simp add: event_free_def)
  next
    fix d :: file_digest show "hoare (\<lambda>s. (?I s \<and> node_at s ?final = n \<and> True) \<and> (fd_io_ok d \<and> fd_size_ok d \<longrightarrow>
         (\<exists>c. n = Some (File c) \<and> length c = unat ?size \<and> sha256_hex cr c = fd_digest d))) (decide True d) ?Q ?I"
      unfolding decide_def by (auto simp: hoare_def ret_def stored_file_def)
  qed
  have move: "hoare (\<lambda>s. ?I s \<and> node_at s ?temp = n \<and> node_at s ?final = None) (bind (digest_file cr ?temp ?size window) (decide False)) ?Q ?I" for n
  proof (rule hoare_bind [OF digest])
    show "event_free (\<lambda>s :: ds_world. node_at s ?final = None)" by (simp add: event_free_def)
  next
    fix d :: file_digest
    let ?P = "\<lambda>s. (?I s \<and> node_at s ?temp = n \<and> node_at s ?final = None) \<and> (fd_io_ok d \<and> fd_size_ok d \<longrightarrow>
         (\<exists>c. n = Some (File c) \<and> length c = unat ?size \<and> sha256_hex cr c = fd_digest d))"
    show "hoare ?P (decide False d) ?Q ?I"
    proof (cases "\<exists>c. fd_io_ok d \<and> fd_size_ok d \<and> fd_digest d = ?digest \<and> n = Some (File c) \<and>
        length c = unat ?size \<and> sha256_hex cr c = fd_digest d")
      case True
      then obtain c where c: "fd_io_ok d" "fd_size_ok d" "fd_digest d = ?digest" "n = Some (File c)"
        "length c = unat ?size" "sha256_hex cr c = ?digest" by auto
      have "decide False d = tail" by (simp add: decide_def c(1-3))
      moreover have "hoare ?P tail ?Q ?I"
        by (rule hoare_conseq [OF tail [of c]]) (use c in \<open>auto simp: stored_file_def\<close>)
      ultimately show ?thesis by simp
    next
      case False
      then show ?thesis by (auto simp: hoare_def ret_def decide_def)
    qed
  qed
  have branch: "hoare (\<lambda>s. ?I s \<and> (node_at s ?final, node_at s ?temp) = n)
      (bind (digest_file cr (if b then ?final else ?temp) ?size window) (decide b)) ?Q ?I"
    if "b = (fst n \<noteq> None)" for b n
  proof (cases b)
    case True
    have "hoare (\<lambda>s. ?I s \<and> (node_at s ?final, node_at s ?temp) = n) (bind (digest_file cr ?final ?size window) (decide True)) ?Q ?I"
      by (rule hoare_pre [OF found [of "fst n"]]) auto
    with True show ?thesis by simp
  next
    case False
    have "hoare (\<lambda>s. ?I s \<and> (node_at s ?final, node_at s ?temp) = n) (bind (digest_file cr ?temp ?size window) (decide False)) ?Q ?I"
      by (rule hoare_pre [OF move [of "snd n"]]) (use that False in auto)
    with False show ?thesis by simp
  qed
  have "hoare ?I (bind (gets (\<lambda>s. node_at s ?final \<noteq> None)) (\<lambda>final_exists.
      bind (digest_file cr (if final_exists then ?final else ?temp) ?size window) (decide final_exists))) ?Q ?I"
  proof (rule hoare_ghost [where F = "\<lambda>s. (node_at s ?final, node_at s ?temp)"], rule hoare_bind)
    fix n
    show "hoare (\<lambda>s. ?I s \<and> (node_at s ?final, node_at s ?temp) = n) (gets (\<lambda>s. node_at s ?final \<noteq> None))
        (\<lambda>b s. (?I s \<and> (node_at s ?final, node_at s ?temp) = n) \<and> b = (fst n \<noteq> None)) ?I"
      by (rule hoare_gets) auto
  next
    fix n b
    show "hoare (\<lambda>s. (?I s \<and> (node_at s ?final, node_at s ?temp) = n) \<and> b = (fst n \<noteq> None))
        (bind (digest_file cr (if b then ?final else ?temp) ?size window) (decide b)) ?Q ?I"
      by (cases "b = (fst n \<noteq> None)") (rule hoare_pre [OF branch], auto simp: hoare_def)
  qed
  then show ?thesis
    unfolding verify_and_archive_file_def Let_def archive_node_def [symmetric] decide_def tail_def .
qed

section \<open>Sessions read back\<close>

lemma pair_up_hash [simp]: "pair_up (concat (map (\<lambda>(f, v). [f, v]) h)) = h"
  by (induction h) auto

lemma foldl_upd_mem: "foldl (\<lambda>m (f, v). m(f \<mapsto> v)) m h k = Some v \<Longrightarrow> m k = Some v \<or> (k, v) \<in> set h"
proof (induction h arbitrary: m)
  case (Cons p h)
  from Cons.IH [of "m(fst p \<mapsto> snd p)"] Cons.prems show ?case
    by (cases p) (auto split: if_splits)
qed simp

lemma parsed_temp_path:
  assumes "parse_upload_session values = Some session"
  shows "(''temp_path'', us_temp_path session) \<in> set (pair_up values)"
proof -
  define fs where "fs = foldl (\<lambda>m (f, v). m(f \<mapsto> v)) Map.empty (pair_up values)"
  from assms have "us_temp_path session = field_of fs ''temp_path''" and "list_all (\<lambda>k. fs k \<noteq> None) required_session_fields"
    unfolding parse_upload_session_def Let_def fs_def [symmetric] by (auto split: if_splits option.splits)
  then have "fs ''temp_path'' = Some (us_temp_path session)"
    by (auto simp: field_of_def required_session_fields_def)
  then show ?thesis using foldl_upd_mem [of Map.empty "pair_up values"] by (simp add: fs_def)
qed

abbreviation session_in_temp :: "upload_controller \<Rightarrow> upload_session \<Rightarrow> bool" where
  "session_in_temp uk session \<equiv> below (path_of (uk_temp_root uk)) (path_of (us_temp_path session))"

lemma looked_up_in_temp:
  assumes "sessions_in_temp uk r" and "is_uuid upload_id"
    and "parse_upload_session (hgetall t r (session_key (uk_prefix uk) upload_id)) = Some session"
  shows "session_in_temp uk session"
  using parsed_temp_path [OF assms(3)] temp_field_at [OF assms(1,2), of t]
  by (auto simp: hgetall_def temp_field_def)

lemma hoare_redis_read:
  assumes "\<And>t s. in_order cr uk w s \<Longrightarrow> Q (f t (ds_redis s))" 
  shows "hoare (in_order cr uk w) (redis_call (\<lambda>t r. (f t r, r)))
    (\<lambda>x s. in_order cr uk w s \<and> (\<forall>y. x = Some y \<longrightarrow> Q y)) (in_order cr uk w)"
proof -
  have read: "hoare (in_order cr uk w) (redis_effect (\<lambda>t r. (f t r, r))) (\<lambda>x s. in_order cr uk w s \<and> Q x) (in_order cr uk w)"
  proof (rule hoareI)
    fix s x u
    assume s: "in_order cr uk w s" and e: "redis_effect (\<lambda>t r. (f t r, r)) s = (Ret x, u)"
    then have "calm uk s u" "x = f (ds_clock (advance_clock s)) (ds_redis s)"
      by (auto simp: redis_effect_def Let_def calm_def archive_le_def)
    with s assms in_order_calm show "in_order cr uk w u \<and> Q x" by blast
  qed (auto simp: redis_effect_def Let_def)
  have calm_read: "keeps (in_order cr uk w) (redis_effect (\<lambda>t r. (f t r, r)))"
    by (rule hoare_conseq [OF read]) auto
  show ?thesis
    unfolding redis_call_def
    by (rule hoare_bind [OF hoare_any_event [OF event_free_in_order]])
      (auto split: outcome.splits intro!: hoare_ret hoare_crash hoare_seq [OF calm_read] hoare_bind [OF read])
qed

lemma hoare_session_lookup:
  assumes "is_uuid upload_id"
  shows "hoare (in_order cr uk w) (session_lookup_task (uk_repository uk) upload_id)
    (\<lambda>x s. in_order cr uk w s \<and> (\<forall>session. x = Session_found session \<longrightarrow> session_in_temp uk session)) (in_order cr uk w)"
  unfolding session_lookup_task_def
proof (rule hoare_bind [OF hoare_redis_read [where Q = "\<lambda>values. \<forall>session. parse_upload_session values = Some session \<longrightarrow>
    session_in_temp uk session"]])
  show "\<forall>session. parse_upload_session (hgetall t (ds_redis s) (session_key (ur_key_prefix (uk_repository uk)) upload_id)) =
      Some session \<longrightarrow> session_in_temp uk session" if "in_order cr uk w s" for t s
    using looked_up_in_temp [OF _ assms] that by (auto simp: ds_inv_def uk_prefix_def)
qed (auto intro!: hoare_ret split: option.splits if_splits)

section \<open>The archive table\<close>

lemma in_order_insert:
  assumes "in_order cr uk w s" and "stored_file cr uk s (ar_relative_path record) (ar_file_size record) (ar_file_sha256 record)"
    and "\<not> unique_violated record (ds_archives s)"
  shows "in_order cr uk w (s\<lparr>ds_archives := ds_archives s @ [stored_row record n], ds_next_archive := m\<rparr>)"
  using assms
  by (auto simp: ds_inv_def archive_sound_def archive_le_def stored_file_def unique_violated_def list_ex_iff
      stored_row_def Let_def)

lemma hoare_insert_archive:
  assumes "stored_file cr uk w (ar_relative_path record) (ar_file_size record) (ar_file_sha256 record)"
  shows "keeps (in_order cr uk w) (insert_archive record)"
proof -
  let ?new = "\<lambda>s. s\<lparr>ds_archives := ds_archives s @ [stored_row record (ds_next_archive s)],
    ds_next_archive := ds_next_archive s + 1\<rparr>"
  have ins: "in_order cr uk w (?new s)" if "in_order cr uk w s" "\<not> unique_violated record (ds_archives s)" for s
    using in_order_insert [OF that(1) _ that(2)] stored_file_le [OF assms] that(1) by blast
  show ?thesis
    unfolding insert_archive_def mysql_update_def
  proof (intro hoare_bind_ret hoare_bind [OF hoare_any_event [OF event_free_in_order]])
    fix e
    show "keeps (in_order cr uk w) (case e of Io_fail \<Rightarrow> ret None | Io_intr \<Rightarrow> ret None
       | Io_lost \<Rightarrow> seq (\<lambda>s. (Ret (), snd (if unique_violated record (ds_archives s) then (None, s)
           else (Some (ds_next_archive s), ?new s)))) (ret None)
       | Io_crash \<Rightarrow> crash
       | _ \<Rightarrow> (\<lambda>s. case if unique_violated record (ds_archives s) then (None, s)
           else (Some (ds_next_archive s), ?new s) of (x, v) \<Rightarrow> (Ret (Some x), v)))"
      by (cases e; rule hoareI) (auto simp: seq_def bind_def ret_def crash_def split: if_splits
          intro: ins [THEN conjunct1, OF conjI] ins [THEN conjunct2, OF conjI])
  qed
qed

end
