(* ===== verification/Cleanup_Service.thy ===== *)
theory Cleanup_Service
  imports Archive_Storage
begin

text \<open>
  The cleanup of temporary files (\<open>cleanup/cleanup_service.cpp\<close>): one pass of the worker thread as a
  chain, since requests run between its steps. The modification time \<open>lstat\<close> reports is a parameter
  \<open>mtime\<close>. The thread that waits between two passes is not modelled: a pass may start at any time.
\<close>

record cleanup_service =
  cs_temp_root :: string
  cs_key_prefix :: string
  cs_retention_seconds :: int

datatype cleanup_status = Cleanup_missing | Cleanup_terminal | Cleanup_active | Cleanup_unavailable

definition is_temporary_upload_filename :: "string \<Rightarrow> bool" where
  "is_temporary_upload_filename filename \<longleftrightarrow>
     length filename = 41 \<and> drop 36 filename = ''.part'' \<and> is_uuid (take 36 filename)"

fun scan_entries ::
    "('w ds_world_scheme \<Rightarrow> fpath \<Rightarrow> int) \<Rightarrow> string \<Rightarrow> int \<Rightarrow> string list \<Rightarrow> ('w ds_world_scheme, 'e, string list) proc" where
  "scan_entries mtime temp_root cutoff [] = ret []"
| "scan_entries mtime temp_root cutoff (filename # names) =
     (if \<not> is_temporary_upload_filename filename then scan_entries mtime temp_root cutoff names
      else let path = temp_root @ ''/'' @ filename in
        bind attempt_call (\<lambda>stated.
        bind (gets (\<lambda>w. stated \<and> is_file (node_at w (path_of path)) \<and> mtime w (path_of path) < cutoff)) (\<lambda>old.
        bind (scan_entries mtime temp_root cutoff names) (\<lambda>candidates.
        ret (if old then path # candidates else candidates)))))"

definition find_cleanup_candidates ::
    "('w ds_world_scheme \<Rightarrow> fpath \<Rightarrow> int) \<Rightarrow> string \<Rightarrow> int \<Rightarrow> ('w ds_world_scheme, 'e, string list) proc" where
  "find_cleanup_candidates mtime temp_root cutoff = bind attempt_call (\<lambda>opened.
     if \<not> opened then ret []
     else bind (gets (\<lambda>w. (node_at w (path_of temp_root), child_names w (path_of temp_root)))) (\<lambda>(n, names).
       if n = Some Dir then scan_entries mtime temp_root cutoff names else ret []))"

definition cleanup_lookup :: "string \<Rightarrow> ('w ds_world_scheme, 'e, cleanup_status) proc" where
  "cleanup_lookup key = bind (redis_call (\<lambda>t r. (hget t r key ''state'', r))) (\<lambda>reply. ret (case reply of
       None \<Rightarrow> Cleanup_unavailable
     | Some None \<Rightarrow> Cleanup_missing
     | Some (Some state) \<Rightarrow> if state = ''FAILED'' \<or> state = ''ARCHIVED'' then Cleanup_terminal else Cleanup_active))"

definition delete_session_keys :: "string \<Rightarrow> ('w ds_world_scheme, 'e, unit option) proc" where
  "delete_session_keys key =
     redis_call (\<lambda>t r. ((), del (key @ '':digests'') (del (key @ '':chunks'') (del key r))))"

text \<open>The upload identifier of a candidate: the 36 characters after the last slash.\<close>

definition candidate_id :: "string \<Rightarrow> string" where
  "candidate_id path = take 36 (last (path_parts path))"

fun cleanup_files :: "cleanup_service \<Rightarrow> string list \<Rightarrow> ('w ds_world_scheme, unit) chain" where
  "cleanup_files cs [] = Finished ()"
| "cleanup_files cs (path # paths) =
     (let key = cs_key_prefix cs @ ''upload:'' @ candidate_id path in
      task (cleanup_lookup key) (\<lambda>status.
        if status = Cleanup_unavailable \<or> status = Cleanup_active then cleanup_files cs paths
        else task (unlink_file (path_of path)) (\<lambda>deleted.
          if \<not> deleted then cleanup_files cs paths
          else if status = Cleanup_terminal
          then task (delete_session_keys key) (\<lambda>_. cleanup_files cs paths)
          else cleanup_files cs paths)))"

definition cleanup_run :: "('w ds_world_scheme \<Rightarrow> fpath \<Rightarrow> int) \<Rightarrow> cleanup_service \<Rightarrow> ('w ds_world_scheme, unit) chain" where
  "cleanup_run mtime cs = task current_unix_seconds (\<lambda>now.
     task (find_cleanup_candidates mtime (cs_temp_root cs) (now - cs_retention_seconds cs)) (cleanup_files cs))"

section \<open>What a pass may touch\<close>

definition is_candidate :: "string \<Rightarrow> string \<Rightarrow> bool" where
  "is_candidate temp_root path \<longleftrightarrow> (\<exists>filename. is_temporary_upload_filename filename \<and> path = temp_root @ ''/'' @ filename)"

lemma is_candidateI: "is_temporary_upload_filename filename \<Longrightarrow> is_candidate temp_root (temp_root @ CHR ''/'' # filename)"
  by (auto simp: is_candidate_def)

lemma scan_entries_keeps:
  assumes "event_free P"
  shows "hoare P (scan_entries mtime temp_root cutoff names) (\<lambda>paths s. P s \<and> list_all (is_candidate temp_root) paths) P"
proof (induction names)
  case Nil
  show ?case by (simp add: hoare_ret)
next
  case (Cons n names)
  show ?case
    unfolding scan_entries.simps Let_def
    by (auto intro!: Cons.IH hoare_bind [OF hoare_attempt_call [OF assms]] hoare_bind [OF hoare_gets [where Q = "\<lambda>_. P"]]
      hoare_bind [OF Cons.IH] hoare_ret is_candidateI)
qed

lemma find_candidates_keeps:
  assumes "event_free P"
  shows "hoare P (find_cleanup_candidates mtime temp_root cutoff) (\<lambda>paths s. P s \<and> list_all (is_candidate temp_root) paths) P"
  unfolding find_cleanup_candidates_def
  by (auto intro!: hoare_bind [OF hoare_attempt_call [OF assms]] hoare_bind [OF hoare_gets [where Q = "\<lambda>_. P"]]
      scan_entries_keeps [OF assms] hoare_ret)

section \<open>What a pass leaves\<close>

text \<open>Only time has passed and keys have gone.\<close>

definition fades :: "'w ds_world_scheme \<Rightarrow> 'w ds_world_scheme \<Rightarrow> bool" where
  "fades w u \<longleftrightarrow> ds_clock w \<le> ds_clock u \<and> ds_redis u \<subseteq>\<^sub>m ds_redis w"

definition session_active :: "cleanup_service \<Rightarrow> string \<Rightarrow> 'w ds_world_scheme \<Rightarrow> bool" where
  "session_active cs upload_id w \<longleftrightarrow>
     (case hget (ds_clock w) (ds_redis w) (cs_key_prefix cs @ ''upload:'' @ upload_id) ''state'' of
        None \<Rightarrow> False | Some state \<Rightarrow> state \<noteq> ''FAILED'' \<and> state \<noteq> ''ARCHIVED'')"

definition part_file :: "cleanup_service \<Rightarrow> string \<Rightarrow> fpath" where
  "part_file cs upload_id = path_of (cs_temp_root cs @ ''/'' @ upload_id @ ''.part'')"

lemma fades_trans: "fades u v \<Longrightarrow> fades v w \<Longrightarrow> fades u w"
  by (auto simp: fades_def intro: map_le_trans)

lemma fades_advance: "fades w (advance_clock w)"
  by (simp add: fades_def advance_clock_mono map_le_def)

lemma fades_events: "fades w (u\<lparr>st_events := es\<rparr>) = fades w u" "fades (w\<lparr>st_events := es\<rparr>) u = fades w u"
  by (simp_all add: fades_def)

lemma live_fades: "fades w u \<Longrightarrow> live (ds_clock u) (ds_redis u) k = Some v \<Longrightarrow> live (ds_clock w) (ds_redis w) k = Some v"
  by (force simp: fades_def live_def map_le_def dom_def split: option.splits if_splits)

lemma active_fades: "fades w u \<Longrightarrow> session_active cs upload_id u \<Longrightarrow> session_active cs upload_id w"
  by (auto simp: session_active_def hget_def hash_at_def dest!: live_fades split: option.splits redis_value.splits)

lemma unchanged_nodes: "st_nodes u = st_nodes w \<Longrightarrow> node_at u p = node_at w p"
  by (simp add: node_at_def)

lemma cleanup_lookup_effect:
  assumes "cleanup_lookup (cs_key_prefix cs @ ''upload:'' @ upload_id) w = (x, u)"
  shows "fades w u \<and> st_nodes u = st_nodes w \<and>
    (x = Ret Cleanup_missing \<or> x = Ret Cleanup_terminal \<longrightarrow> \<not> session_active cs upload_id u)"
  using assms fades_advance
  by (auto simp: cleanup_lookup_def redis_call_def redis_effect_def next_event_def exec_simps Let_def session_active_def
      fades_def map_le_def split: list.splits outcome.splits option.splits if_splits)

lemma del_fades3: "del a (del b (del c r)) \<subseteq>\<^sub>m r"
  by (simp add: del_def map_le_def)

lemma delete_session_keys_effect:
  assumes "delete_session_keys key w = (x, u)"
  shows "fades w u \<and> st_nodes u = st_nodes w"
  using assms advance_clock_mono [of w]
  by (auto simp: delete_session_keys_def redis_call_def redis_effect_def next_event_def exec_simps Let_def
      fades_def intro: del_fades3 split: list.splits outcome.splits)

lemma world_delete [simp]: "ds_clock (delete_node p w) = ds_clock w" "ds_redis (delete_node p w) = ds_redis w"
  by (simp_all add: delete_node_def)

lemma unlink_file_effect:
  assumes "unlink_file p w = (x, u)"
  shows "fades w u \<and> (\<forall>q. node_at u q = node_at w q \<or> q = p \<and> is_file (node_at w p) \<and> node_at u q = None)"
  using assms
  by (auto simp: unlink_file_def effect_call_def next_event_def exec_simps fades_def map_le_def
      split: list.splits outcome.splits option.splits if_splits)

text \<open>The part of the state a pass works on.\<close>

lemma uuid_no_slash: "is_uuid s \<Longrightarrow> CHR ''/'' \<notin> set s"
proof
  assume u: "is_uuid s" "CHR ''/'' \<in> set s"
  then obtain i where i: "i < 36" "s ! i = CHR ''/''" by (auto simp: is_uuid_def in_set_conv_nth split: if_splits)
  from u(1) i(1) have "if i = 8 \<or> i = 13 \<or> i = 18 \<or> i = 23 then s ! i = CHR ''-''
      else is_digit (s ! i) \<or> byte (s ! i) \<ge> 97 \<and> byte (s ! i) \<le> 102"
    unfolding is_uuid_def list_all_iff by (simp split: if_splits)
  with i(2) show False by (simp add: is_digit_def split: if_splits)
qed

lemma path_parts_plain: "CHR ''/'' \<notin> set s \<Longrightarrow> path_parts s = [s]"
  by (induction s) auto

lemma candidate_path:
  assumes "is_candidate (cs_temp_root cs) path"
  shows "is_uuid (candidate_id path)" and "path_of path = part_file cs (candidate_id path)"
proof -
  from assms obtain f where f: "is_temporary_upload_filename f" "path = cs_temp_root cs @ ''/'' @ f"
    by (auto simp: is_candidate_def)
  then have split: "take 36 f @ ''.part'' = f" and uuid: "is_uuid (take 36 f)"
    by (metis is_temporary_upload_filename_def append_take_drop_id) (use f(1) in \<open>simp add: is_temporary_upload_filename_def\<close>)
  have "set f = set (take 36 f) \<union> set ''.part''" by (metis split set_append)
  then have "CHR ''/'' \<notin> set f" using uuid_no_slash [OF uuid] by auto
  then have id: "candidate_id path = take 36 f"
    by (simp add: candidate_id_def f(2) path_parts_append path_parts_plain)
  show "is_uuid (candidate_id path)" using uuid id by simp
  show "path_of path = part_file cs (candidate_id path)"
    by (simp add: part_file_def id split) (simp add: f(2))
qed

definition pass_effect :: "cleanup_service \<Rightarrow> 'w ds_world_scheme \<Rightarrow> 'w ds_world_scheme \<Rightarrow> bool" where
  "pass_effect cs w u \<longleftrightarrow> fades w u \<and> (\<forall>p. node_at u p = node_at w p \<or> node_at u p = None \<and> is_file (node_at w p) \<and>
     (\<exists>upload_id. is_uuid upload_id \<and> p = part_file cs upload_id \<and> \<not> session_active cs upload_id u))"

lemma pass_effect_nodes: "fades w u \<Longrightarrow> st_nodes u = st_nodes w \<Longrightarrow> pass_effect cs w u"
  by (simp add: pass_effect_def node_at_def)

lemma pass_effect_trans:
  assumes "pass_effect cs u v" and "pass_effect cs v w"
  shows "pass_effect cs u w"
proof -
  have "node_at w p = node_at u p \<or> node_at w p = None \<and> is_file (node_at u p) \<and>
      (\<exists>upload_id. is_uuid upload_id \<and> p = part_file cs upload_id \<and> \<not> session_active cs upload_id w)" for p
    using assms active_fades [of v w cs] unfolding pass_effect_def by metis
  then show ?thesis using assms fades_trans unfolding pass_effect_def by blast
qed

lemma cleanup_files_effect:
  fixes w :: "'w ds_world_scheme"
  shows "run_chain (cleanup_files cs paths) w = (r, u) \<Longrightarrow> list_all (is_candidate (cs_temp_root cs)) paths \<Longrightarrow> pass_effect cs w u"
proof (induction paths arbitrary: w)
  case Nil
  then show ?case by (simp add: pass_effect_def fades_def)
next
  case (Cons path paths)
  define upload_id where "upload_id = candidate_id path"
  define key where "key = cs_key_prefix cs @ ''upload:'' @ upload_id"
  have cand: "is_uuid upload_id" "path_of path = part_file cs upload_id"
    and paths: "list_all (is_candidate (cs_temp_root cs)) paths"
    using candidate_path Cons.prems(2) by (auto simp: upload_id_def)
  note IH = Cons.IH [OF _ paths]
  obtain x v where look: "(cleanup_lookup key :: ('w ds_world_scheme, unit, cleanup_status) proc) w = (x, v)" by fastforce
  obtain y v2 where un: "(unlink_file (path_of path) :: ('w ds_world_scheme, unit, bool) proc) v = (y, v2)" by fastforce
  obtain z v3 where dl: "(delete_session_keys key :: ('w ds_world_scheme, unit, unit option) proc) v2 = (z, v3)" by fastforce
  note looked = cleanup_lookup_effect [OF look [unfolded key_def]]
  then have wv: "pass_effect cs w v" by (simp add: pass_effect_nodes)
  have v2: "pass_effect cs v v2" if "\<not> session_active cs upload_id v"
    using unlink_file_effect [OF un] that cand active_fades unfolding pass_effect_def by metis
  have v3: "pass_effect cs v2 v3" using delete_session_keys_effect [OF dl] by (simp add: pass_effect_nodes)
  have more: "pass_effect cs w u" if "run_chain (cleanup_files cs paths) t = (r, u)" "pass_effect cs w t" for t
    using IH [OF that(1)] that(2) pass_effect_trans by blast
  have run: "run_chain (cleanup_files cs (path # paths)) w = (case x of
       Ret status \<Rightarrow> run_chain (if status = Cleanup_unavailable \<or> status = Cleanup_active then cleanup_files cs paths
         else task (unlink_file (path_of path)) (\<lambda>deleted.
           if \<not> deleted then cleanup_files cs paths
           else if status = Cleanup_terminal then task (delete_session_keys key) (\<lambda>_. cleanup_files cs paths)
           else cleanup_files cs paths)) v
     | _ \<Rightarrow> (None, v))"
    unfolding cleanup_files.simps upload_id_def [symmetric] key_def [symmetric] Let_def run_task look by simp
  have removed: "pass_effect cs w u" if "\<not> session_active cs upload_id v" and
    run: "run_chain (task (unlink_file (path_of path)) (\<lambda>deleted.
           if \<not> deleted then cleanup_files cs paths
           else if b then task (delete_session_keys key) (\<lambda>_. cleanup_files cs paths)
           else cleanup_files cs paths)) v = (r, u)" for b
  proof -
    have wv2: "pass_effect cs w v2" and "pass_effect cs w v3" using v2 [OF that(1)] v3 wv pass_effect_trans by blast+
    then have deleted: "pass_effect cs w u" if "run_chain (task (delete_session_keys key) (\<lambda>_. cleanup_files cs paths)) v2 = (r, u)"
      using that more by (auto simp: run_task dl split: result.splits)
    show ?thesis
    proof (cases y)
      case (Ret d)
      then show ?thesis using run wv2 more deleted by (cases d; cases b) (simp_all add: run_task [where m = "unlink_file p" for p] un)
    qed (use run wv2 in \<open>auto simp: run_task un\<close>)
  qed
  show ?case
  proof (cases x)
    case (Ret status)
    show ?thesis
    proof (cases "status = Cleanup_unavailable \<or> status = Cleanup_active")
      case True
      then show ?thesis using Cons.prems(1) more wv unfolding run Ret by simp
    next
      case False
      then have "\<not> session_active cs upload_id v" using looked Ret by (cases status) auto
      from removed [OF this] show ?thesis using Cons.prems(1) False unfolding run Ret by simp
    qed
  qed (use Cons.prems(1) [unfolded run] wv in auto)
qed

lemma find_candidates_frame:
  fixes x :: "('e, string list) result" and w :: "'w ds_world_scheme"
  assumes "find_cleanup_candidates mtime temp_root cutoff w = (x, u)"
  shows "fades w u \<and> st_nodes u = st_nodes w \<and> (\<forall>paths. x = Ret paths \<longrightarrow> list_all (is_candidate temp_root) paths)"
proof -
  have free: "event_free (\<lambda>u. fades w u \<and> st_nodes u = st_nodes w)" by (simp add: event_free_def fades_events)
  have w: "fades w w \<and> st_nodes w = st_nodes w" by (simp add: fades_def)
  have h: "hoare (\<lambda>u. fades w u \<and> st_nodes u = st_nodes w)
      (find_cleanup_candidates mtime temp_root cutoff :: ('w ds_world_scheme, 'e, string list) proc)
      (\<lambda>paths u. (fades w u \<and> st_nodes u = st_nodes w) \<and> list_all (is_candidate temp_root) paths)
      (\<lambda>u. fades w u \<and> st_nodes u = st_nodes w)" by (rule find_candidates_keeps [OF free])
  show ?thesis
  proof (cases x)
    case (Ret paths)
    from hoareD(1) [OF h w assms [unfolded Ret]] Ret show ?thesis by simp
  next
    case (Throw e)
    from hoareD(2) [OF h w assms [unfolded Throw]] Throw show ?thesis by simp
  next
    case Crashed
    from hoareD(3) [OF h w assms [unfolded Crashed]] Crashed show ?thesis by simp
  qed
qed

lemma cleanup_run_effect:
  fixes w :: "'w ds_world_scheme"
  assumes "run_chain (cleanup_run mtime cs) w = (r, u)"
  shows "pass_effect cs w u"
proof -
  obtain now v where clock: "(current_unix_seconds :: ('w ds_world_scheme, unit, int) proc) w = (Ret now, v)" "fades w v" "st_nodes v = st_nodes w"
    using fades_advance [of w] by (auto simp: current_unix_seconds_def read_clock_def exec_simps)
  obtain x v2 where found: "(find_cleanup_candidates mtime (cs_temp_root cs) (now - cs_retention_seconds cs)
      :: ('w ds_world_scheme, unit, string list) proc) v = (x, v2)" by fastforce
  have "pass_effect cs w v" "pass_effect cs v v2"
    using clock(2,3) find_candidates_frame [OF found] by (simp_all add: pass_effect_nodes)
  then have wv2: "pass_effect cs w v2" by (rule pass_effect_trans)
  show ?thesis
  proof (cases x)
    case (Ret paths)
    with assms clock found have "run_chain (cleanup_files cs paths) v2 = (r, u)"
      by (simp add: cleanup_run_def run_task)
    from cleanup_files_effect [OF this] show ?thesis
      using find_candidates_frame [OF found] Ret wv2 pass_effect_trans by blast
  qed (use assms clock found wv2 in \<open>auto simp: cleanup_run_def run_task\<close>)
qed

text \<open>
  C26: a cleanup pass removes nothing it must not. What differs after a pass, whichever of its calls
  failed, is the temporary file of an upload under the temporary root that was a regular file, is gone,
  and has no session that is still uploading or verifying: every other node, the archive included, is
  as it was.
\<close>

theorem cleanup_spares_active:
  assumes "run_chain (cleanup_run mtime cs) w = (r, u)" and "node_at u p \<noteq> node_at w p"
  shows "node_at u p = None \<and> is_file (node_at w p) \<and>
    (\<exists>upload_id. is_uuid upload_id \<and> p = path_of (cs_temp_root cs @ ''/'' @ upload_id @ ''.part'') \<and>
       \<not> session_active cs upload_id u)"
  using cleanup_run_effect [OF assms(1)] assms(2) unfolding pass_effect_def part_file_def by metis

section \<open>A pass that removes a file\<close>

definition sample_upload_id :: string where
  "sample_upload_id = uuid_of_bytes (replicate 16 CHR ''a'')"

definition sample_cleanup :: cleanup_service where
  "sample_cleanup = \<lparr>cs_temp_root = ''/t'', cs_key_prefix = ''ds:'', cs_retention_seconds = 60\<rparr>"

definition sample_left_over :: ds_world where
  "sample_left_over = sample_ds_world\<lparr>ds_clock := 1000000,
     st_nodes := [([''t'', sample_upload_id @ ''.part''], File ''abc''), ([''t''], Dir), ([], Dir)]\<rparr>"

lemma sample_uuid: "is_uuid sample_upload_id" "length sample_upload_id = 36"
proof -
  show u: "is_uuid sample_upload_id" unfolding sample_upload_id_def by (rule uuid_of_bytes_valid) simp
  then show "length sample_upload_id = 36" by (simp add: is_uuid_def split: if_splits)
qed

lemma sample_filename: "is_temporary_upload_filename (sample_upload_id @ ''.part'')"
  using sample_uuid by (simp add: is_temporary_upload_filename_def)

lemma sample_part: "path_parts (sample_upload_id @ ''.part'') = [sample_upload_id @ ''.part'']"
  using uuid_no_slash [OF sample_uuid(1)] by (simp add: path_parts_plain)

lemma sample_path: "path_of (''/t/'' @ sample_upload_id @ ''.part'') = [''t'', sample_upload_id @ ''.part'']"
  "path_of ''/t'' = [''t'']" "candidate_id (''/t/'' @ sample_upload_id @ ''.part'') = sample_upload_id"
  by (simp_all add: path_of_def sample_part candidate_id_def sample_uuid(2))

lemma sample_left_over_simps [simp]:
  "ds_clock sample_left_over = 1000000" "st_events sample_left_over = []" "ds_ticks sample_left_over = []"
  "ds_redis sample_left_over = Map.empty" "advance_clock sample_left_over = sample_left_over"
  "child_names sample_left_over [''t''] = [sample_upload_id @ ''.part'']"
  "node_at sample_left_over [''t''] = Some Dir"
  "node_at sample_left_over [''t'', sample_upload_id @ ''.part''] = Some (File ''abc'')"
  by (simp_all add: sample_left_over_def sample_ds_world_def advance_clock_def child_names_def node_at_def)

lemma sample_same [simp]: "sample_left_over\<lparr>ds_redis := Map.empty\<rparr> = sample_left_over"
  by (simp add: sample_left_over_def sample_ds_world_def)

lemma sample_pass: "run_chain (cleanup_run (\<lambda>_ _. 0) sample_cleanup) sample_left_over =
    (Some (), delete_node [''t'', sample_upload_id @ ''.part''] sample_left_over)"
proof -
  have scan: "find_cleanup_candidates (\<lambda>_ _. 0) ''/t'' 940 sample_left_over =
      (Ret [''/t/'' @ sample_upload_id @ ''.part''], sample_left_over)"
    using sample_filename sample_path
    by (simp add: find_cleanup_candidates_def attempt_call_def next_event_def exec_simps is_file_def)
  have clock: "current_unix_seconds sample_left_over = (Ret 1000, sample_left_over)"
    by (simp add: current_unix_seconds_def read_clock_def exec_simps unix_seconds_def)
  have look: "cleanup_lookup key sample_left_over = (Ret Cleanup_missing, sample_left_over)" for key
    by (simp add: cleanup_lookup_def redis_call_def redis_effect_def next_event_def exec_simps Let_def hget_def hash_at_def live_def)
  have unlink: "unlink_file [''t'', sample_upload_id @ ''.part''] sample_left_over =
      (Ret True, delete_node [''t'', sample_upload_id @ ''.part''] sample_left_over)"
    by (simp add: unlink_file_def effect_call_def next_event_def exec_simps is_file_def)
  show ?thesis
    using sample_path by (simp add: cleanup_run_def run_task clock scan sample_cleanup_def look unlink Let_def)
qed

theorem cleanup_spares_active_witness:
  "node_at (delete_node [''t'', sample_upload_id @ ''.part''] sample_left_over) [''t'', sample_upload_id @ ''.part''] = None \<and>
   is_file (node_at sample_left_over [''t'', sample_upload_id @ ''.part''])"
  using cleanup_spares_active [OF sample_pass, of "[''t'', sample_upload_id @ ''.part'']"] by simp

end
