(* ===== verification/Ingest_Service.thy ===== *)
theory Ingest_Service
  imports Upload_Safety Cleanup_Service
begin

text \<open>
  The ingest service as a whole: the chains of every route and of the cleanup, their tasks interleaved in
  any order, any call failing, the process restarted at any moment. Each chain is shown safe in the sense
  of \<open>Chain_Safety\<close>; the reachable states of the service then keep the invariant of \<open>Upload_Safety\<close>.
\<close>

section \<open>Every handler\<close>

text \<open>A chain that is safe from every world in order.\<close>

definition serves :: "crypto \<Rightarrow> upload_controller \<Rightarrow> (ds_world, 'r) chain \<Rightarrow> bool" where
  "serves cr uk c \<longleftrightarrow> (\<forall>s. ds_inv cr uk s \<longrightarrow> chain_safe (ds_inv cr uk) (archive_le uk) s c)"

named_theorems serves \<open>chains that are safe from every world in order\<close>

lemma serves_finished [serves]: "serves cr uk (Finished r)" "serves cr uk Killed"
  by (simp_all add: serves_def chain_safe.intros)

lemma serves_task:
  assumes "\<And>w. hoare (in_order cr uk w) m (\<lambda>x s. in_order cr uk w s \<and> Q x) (in_order cr uk w)"
    and "\<And>x. Q x \<Longrightarrow> serves cr uk (k x)"
  shows "serves cr uk (task m k)"
  unfolding serves_def by (intro allI impI, rule up.safe_task [where Q = "\<lambda>x _. Q x"])
    (use assms in \<open>auto simp: serves_def\<close>)

lemma serves_keeps:
  assumes "\<And>w. keeps (in_order cr uk w) m" and "\<And>x. serves cr uk (k x)"
  shows "serves cr uk (task m k)"
  by (rule serves_task [where Q = "\<lambda>_. True"]) (use assms in auto)

lemma serves_calm: "(\<And>w x t. m w = (x, t) \<Longrightarrow> calm uk w t) \<Longrightarrow> (\<And>x. serves cr uk (k x)) \<Longrightarrow> serves cr uk (task m k)"
  by (rule serves_keeps [OF hoare_calm])

lemma serves_redis:
  assumes "\<And>t r. sessions_in_temp uk r \<Longrightarrow> sessions_in_temp uk (snd (f t r))" and "\<And>x. serves cr uk (k (g x))"
  shows "serves cr uk (task (bind (redis_call f) (\<lambda>x. ret (g x))) k)"
  unfolding serves_def
proof (intro allI impI, rule up.safe_task [where Q = "\<lambda>x _. \<exists>y. x = g y"])
  show "hoare (in_order cr uk w) (bind (redis_call f) (\<lambda>x. ret (g x))) (\<lambda>x s. in_order cr uk w s \<and> (\<exists>y. x = g y)) (in_order cr uk w)" for w
    by (rule hoare_bind [OF hoare_redis_call [OF assms(1)]]) (auto intro: hoare_ret)
qed (use assms(2) in \<open>auto simp: serves_def\<close>)

lemma serves_authenticate:
  assumes "\<And>auth. serves cr uk (k auth)"
  shows "serves cr uk (authenticate cr cfg generated_id rq k)"
proof -
  have replay: "serves cr uk (task (replay_check cfg rq identity) k)" for identity
    unfolding replay_check_def Let_def
    by (rule serves_redis) (auto simp: set_nx_ex_def intro!: in_temp assms split: option.splits)
  have lookup: "serves cr uk (task (lookup_device d) k')" if "\<And>x. serves cr uk (k' x)" for d k'
    by (rule serves_calm [OF calm_lookups(1)]) (use that in auto)
  have clock: "serves cr uk (task current_unix_seconds k')" if "\<And>x. serves cr uk (k' x)" for k'
    by (rule serves_calm [OF calm_clock(2)]) (use that in auto)
  show ?thesis
    unfolding authenticate_def Let_def
    by (auto intro!: assms replay lookup clock split: option.splits device_lookup.splits)
qed

text \<open>The tasks on Redis.\<close>

lemma keeps_uploads:
  "keeps (in_order cr uk w) (begin_chunk_task (uk_repository uk) upload_id n digest)"
  "keeps (in_order cr uk w) (finish_chunk_task (uk_repository uk) session n digest)"
  "keeps (in_order cr uk w) (begin_complete_task (uk_repository uk) upload_id n archived_at relative)"
  "keeps (in_order cr uk w) (mark_failed_task (uk_repository uk) session failure)"
  "keeps (in_order cr uk w) (mark_archived_task (uk_repository uk) session archive_id archived_at relative)"
  "keeps (in_order cr uk w) (bitmap_task (uk_repository uk) upload_id)"
  unfolding begin_chunk_task_def finish_chunk_task_def begin_complete_task_def mark_failed_task_def
    mark_archived_task_def bitmap_task_def uk_prefix_def [symmetric]
  by (intro hoare_bind [OF hoare_calm [OF calm_clock(2)]] hoare_bind_ret hoare_redis_call in_temp_scripts; simp)+

lemma keeps_create_task:
  "session_in_temp uk session \<Longrightarrow> keeps (in_order cr uk w) (create_session_task (uk_repository uk) session metadata)"
  unfolding create_session_task_def uk_prefix_def [symmetric]
  by (intro hoare_bind [OF hoare_calm [OF calm_clock(2)]] hoare_bind_ret hoare_redis_call in_temp_create; simp)

lemmas serves_uploads [serves] = keeps_uploads [THEN serves_keeps]

lemma keeps_lookups:
  "keeps (in_order cr uk w) (binding_check collector_id device_id)"
  "keeps (in_order cr uk w) (find_by_upload upload_id)"
  "keeps (in_order cr uk w) (update_heartbeat device_id version last_seen)"
  "keeps (in_order cr uk w) read_clock"
  "keeps (in_order cr uk w) current_unix_seconds"
  "keeps (in_order cr uk w) generate_uuid_v4"
  by (rule hoare_calm, erule calm_lookups calm_heartbeat calm_clock calm_uuid)+

lemmas serves_lookups [serves] = keeps_lookups [THEN serves_keeps]

lemma serves_heartbeat: "serves cr uk (heartbeat_handler cr dj hc generated_id rq)"
proof -
  have writes: "serves cr uk (task (redis_call (heartbeat_script key hb last ttl)) k)" if "\<And>x. serves cr uk (k x)"
    for key hb last ttl and k :: "nat option \<Rightarrow> (ds_world, 'r) chain"
    by (rule serves_keeps [OF hoare_redis_call]) (auto simp: heartbeat_script_def that intro!: in_temp)
  show ?thesis
    unfolding heartbeat_handler_def Let_def
    by (auto intro!: serves_authenticate serves writes split: sum.splits)
qed

lemma serves_create:
  assumes "roots_apart uk"
  shows "serves cr uk (create_handler cr dj uk generated_id rq)"
proof -
  have abandon: "serves cr uk (abandon_file dj session code message request_id)" if "session_in_temp uk session" for session code message request_id
    unfolding abandon_file_def by (rule serves_keeps [OF keeps_unlink [OF assms that] serves_finished(1)])
  have create: "serves cr uk (create_session_chain dj uk session metadata request_id)" if "session_in_temp uk session" for session metadata request_id
    unfolding create_session_chain_def
    by (auto intro!: serves serves_keeps [OF keeps_allocate_file [OF assms that]] serves_keeps [OF keeps_create_task [OF that]]
        abandon that split: option.splits create_status.splits)
  have temp: "session_in_temp uk (new_session uk identity metadata upload_id now)" for identity metadata upload_id now
    by (simp add: new_session_def temp_path_of_def path_of_append)
  show ?thesis
    unfolding create_handler_def Let_def
    by (auto intro!: serves_authenticate serves create temp split: sum.splits)
qed

lemma serves_session_lookup:
  assumes "is_uuid upload_id" and "\<And>session. session_in_temp uk session \<Longrightarrow> serves cr uk (k (Session_found session))"
    and "\<And>x. (\<And>session. x \<noteq> Session_found session) \<Longrightarrow> serves cr uk (k x)"
  shows "serves cr uk (task (session_lookup_task (uk_repository uk) upload_id) k)"
  by (rule serves_task [OF hoare_session_lookup [OF assms(1)]]) (metis assms(2,3))

lemma serves_chunk:
  assumes "roots_apart uk"
  shows "serves cr uk (chunk_handler cr dj uk generated_id rq)"
proof -
  have writes: "serves cr uk (write_chunk_chain dj uk session upload_id n digest body request_id)" if "session_in_temp uk session"
    for session upload_id n digest body request_id
    unfolding write_chunk_chain_def
    by (auto intro!: serves serves_keeps [OF keeps_write_chunk [OF assms that]] split: begin_chunk_status.splits prod.splits)
  show ?thesis
    unfolding chunk_handler_def Let_def
    by (auto intro!: serves_authenticate serves serves_session_lookup writes split: option.splits session_lookup.splits prod.splits)
qed

lemma serves_progress: "serves cr uk (progress_handler cr dj uk generated_id rq)"
  unfolding progress_handler_def Let_def
  by (auto intro!: serves_authenticate serves serves_session_lookup split: session_lookup.splits prod.splits)

lemma serves_push [serves]: "serves cr uk (push_mark_archived dj uk session record upload_id request_id)"
  unfolding push_mark_archived_def by (rule serves)+

text \<open>A record may be inserted once its file is in the archive: no other chain takes it away.\<close>

lemma safe_insert:
  assumes "stored_file cr uk s (ar_relative_path record) (ar_file_size record) (ar_file_sha256 record)"
  shows "chain_safe (ds_inv cr uk) (archive_le uk) s (insert_chain dj uk session record upload_id request_id)"
  unfolding insert_chain_def
proof (rule up.safe_task [where Q = "\<lambda>_ _. True"])
  fix w assume "archive_le uk s w"
  then show "hoare (in_order cr uk w) (insert_archive record) (\<lambda>_ t. in_order cr uk w t \<and> True) (in_order cr uk w)"
    using hoare_insert_archive [OF stored_file_le [OF assms]] by simp
next
  fix status t assume t: "ds_inv cr uk t"
  have "serves cr uk (case status of
         Inserted archive_id \<Rightarrow>
           push_mark_archived dj uk session (record\<lparr>ar_archive_id := archive_id\<rparr>) upload_id request_id
       | Insert_unavailable \<Rightarrow> Finished (refuse dj Mysql_unavailable ''MySQL is unavailable'' request_id)
       | Insert_conflict \<Rightarrow> task (find_by_upload upload_id) (\<lambda>existing. case existing of
             Archive_found row \<Rightarrow> push_mark_archived dj uk session row upload_id request_id
           | _ \<Rightarrow> Finished (refuse dj Mysql_unavailable ''cannot resolve archive conflict'' request_id)))"
    by (auto intro!: serves split: archive_insert.splits archive_lookup.splits)
  with t show "chain_safe (ds_inv cr uk) (archive_le uk) t (case status of
         Inserted archive_id \<Rightarrow>
           push_mark_archived dj uk session (record\<lparr>ar_archive_id := archive_id\<rparr>) upload_id request_id
       | Insert_unavailable \<Rightarrow> Finished (refuse dj Mysql_unavailable ''MySQL is unavailable'' request_id)
       | Insert_conflict \<Rightarrow> task (find_by_upload upload_id) (\<lambda>existing. case existing of
             Archive_found row \<Rightarrow> push_mark_archived dj uk session row upload_id request_id
           | _ \<Rightarrow> Finished (refuse dj Mysql_unavailable ''cannot resolve archive conflict'' request_id)))"
    by (simp add: serves_def)
qed

lemma serves_archive:
  assumes "roots_apart uk" and "session_in_temp uk session"
  shows "serves cr uk (archive_chain cr dj uk session upload_id request_id)"
  unfolding serves_def archive_chain_def
proof (intro allI impI, rule up.safe_task [where Q = "\<lambda>status t. status = Archived \<longrightarrow>
    stored_file cr uk t (us_relative_path session) (us_file_size session) (us_file_sha256 session)"])
  fix w
  show "hoare (in_order cr uk w) (verify_and_archive_file cr (uk_archive_root uk) session (us_relative_path session)
      (unat (uc_hash_mmap_window_bytes (uk_config uk))))
    (\<lambda>status t. in_order cr uk w t \<and> (status = Archived \<longrightarrow>
       stored_file cr uk t (us_relative_path session) (us_file_size session) (us_file_sha256 session))) (in_order cr uk w)"
    by (rule hoare_verify_and_archive [OF assms])
next
  fix status t
  assume t: "ds_inv cr uk t" and stored: "status = Archived \<longrightarrow>
    stored_file cr uk t (us_relative_path session) (us_file_size session) (us_file_sha256 session)"
  let ?next = "case status of
         Integrity_mismatch \<Rightarrow>
           task (mark_failed_task (uk_repository uk) session ''FILE_INTEGRITY_MISMATCH'') (\<lambda>saved.
             Finished (if saved then refuse dj File_integrity_mismatch ''file size or SHA-256 does not match'' request_id
               else refuse dj Redis_unavailable ''Redis is unavailable'' request_id))
       | Archive_io_error \<Rightarrow> Finished (refuse dj Ds_storage_io_error ''cannot verify or archive file'' request_id)
       | Archived \<Rightarrow> insert_chain dj uk session
           (make_archive_record session (us_relative_path session) (us_archived_at_milliseconds session))
           upload_id request_id"
  show "chain_safe (ds_inv cr uk) (archive_le uk) t ?next"
  proof (cases "status = Archived")
    case True
    then show ?thesis using stored by (simp add: safe_insert make_archive_record_def)
  next
    case False
    then have "serves cr uk ?next" by (auto intro!: serves split: archive_status.splits)
    with t show ?thesis by (simp add: serves_def)
  qed
qed

lemma serves_complete:
  assumes "roots_apart uk"
  shows "serves cr uk (complete_handler cr dj uk generated_id rq)"
proof -
  have session: "serves cr uk (complete_session_chain cr dj uk session upload_id archived_at relative request_id)"
    if "session_in_temp uk session" for session upload_id archived_at relative request_id
    unfolding complete_session_chain_def Let_def
    by (auto intro!: serves serves_archive [OF assms] that split: option.splits prod.splits archive_lookup.splits)
  show ?thesis
    unfolding complete_handler_def Let_def
    by (auto intro!: serves_authenticate serves serves_session_lookup session split: session_lookup.splits prod.splits)
qed

section \<open>The cleanup\<close>

lemma candidate_in_temp: "is_candidate (uk_temp_root uk) path \<Longrightarrow> below (path_of (uk_temp_root uk)) (path_of path)"
  by (auto simp: is_candidate_def path_of_append)

lemma serves_cleanup_files:
  assumes "roots_apart uk"
  shows "list_all (is_candidate (uk_temp_root uk)) paths \<Longrightarrow> serves cr uk (cleanup_files cs paths)"
proof (induction paths)
  case Nil
  show ?case by (simp add: serves)
next
  case (Cons path paths)
  then have rest: "serves cr uk (cleanup_files cs paths)" and p: "below (path_of (uk_temp_root uk)) (path_of path)"
    by (auto intro: candidate_in_temp)
  have lookup: "keeps (in_order cr uk w) (cleanup_lookup key)" for w key
    unfolding cleanup_lookup_def by (intro hoare_bind_ret hoare_redis_call) simp
  have delete: "keeps (in_order cr uk w) (delete_session_keys key)" for w key
    unfolding delete_session_keys_def by (rule hoare_redis_call) (auto intro!: in_temp)
  show ?case
    unfolding cleanup_files.simps Let_def
    by (auto intro!: serves_keeps [OF lookup] serves_keeps [OF keeps_unlink [OF assms p]] serves_keeps [OF delete] rest)
qed

lemma serves_cleanup:
  assumes "roots_apart uk" and "cs_temp_root cs = uk_temp_root uk"
  shows "serves cr uk (cleanup_run mtime cs)"
  unfolding cleanup_run_def
  by (rule serves_keeps [OF keeps_lookups(5)], rule serves_task [OF find_candidates_keeps [OF event_free_in_order]])
    (simp add: serves_cleanup_files [OF assms(1)] assms(2))

section \<open>The service\<close>

record ingest_service =
  sx_uploads :: upload_controller
  sx_heartbeats :: heartbeat_controller
  sx_cleanup :: cleanup_service

datatype route = Create_upload | Write_chunk | Read_progress | Complete_upload | Send_heartbeat

fun route_chain ::
    "crypto \<Rightarrow> 'j ds_json \<Rightarrow> ingest_service \<Rightarrow> route \<Rightarrow> string \<Rightarrow> http_request \<Rightarrow> (ds_world, 'j api_response) chain" where
  "route_chain cr dj sx Create_upload = create_handler cr dj (sx_uploads sx)"
| "route_chain cr dj sx Write_chunk = chunk_handler cr dj (sx_uploads sx)"
| "route_chain cr dj sx Read_progress = progress_handler cr dj (sx_uploads sx)"
| "route_chain cr dj sx Complete_upload = complete_handler cr dj (sx_uploads sx)"
| "route_chain cr dj sx Send_heartbeat = heartbeat_handler cr dj (sx_heartbeats sx)"

record 'j server =
  sv_world :: ds_world
  sv_requests :: "(ds_world, 'j api_response) chain list"
  sv_cleanup :: "(ds_world, unit) chain"

text \<open>
  What the rest of the world may do between two tasks: decide the outcomes to come, let time pass, edit
  the master data, change the space that is left, and lose keys of Redis (expiry, eviction, a flush).
\<close>

definition environment :: "ds_world \<Rightarrow> ds_world \<Rightarrow> bool" where
  "environment w u \<longleftrightarrow> st_nodes u = st_nodes w \<and> ds_archives u = ds_archives w \<and>
     ds_next_archive u = ds_next_archive w \<and> ds_redis u \<subseteq>\<^sub>m ds_redis w \<and> ds_clock w \<le> ds_clock u"

inductive server_step :: "crypto \<Rightarrow> 'j ds_json \<Rightarrow> (ds_world \<Rightarrow> fpath \<Rightarrow> int) \<Rightarrow> ingest_service \<Rightarrow> 'j server \<Rightarrow> 'j server \<Rightarrow> bool"
  for cr dj mtime sx where
  arrive: "server_step cr dj mtime sx \<sigma>
     (\<sigma>\<lparr>sv_requests := sv_requests \<sigma> @ [route_chain cr dj sx route generated_id rq]\<rparr>)"
| advance: "i < length (sv_requests \<sigma>) \<Longrightarrow> sv_requests \<sigma> ! i = Step f \<Longrightarrow> f (sv_world \<sigma>) = (w, c) \<Longrightarrow>
     server_step cr dj mtime sx \<sigma> (\<sigma>\<lparr>sv_world := w, sv_requests := (sv_requests \<sigma>)[i := c]\<rparr>)"
| start_cleanup: "server_step cr dj mtime sx \<sigma> (\<sigma>\<lparr>sv_cleanup := cleanup_run mtime (sx_cleanup sx)\<rparr>)"
| advance_cleanup: "sv_cleanup \<sigma> = Step f \<Longrightarrow> f (sv_world \<sigma>) = (w, c) \<Longrightarrow>
     server_step cr dj mtime sx \<sigma> (\<sigma>\<lparr>sv_world := w, sv_cleanup := c\<rparr>)"
| restart: "server_step cr dj mtime sx \<sigma> (\<sigma>\<lparr>sv_requests := [], sv_cleanup := Killed\<rparr>)"
| outside: "environment (sv_world \<sigma>) w \<Longrightarrow> server_step cr dj mtime sx \<sigma> (\<sigma>\<lparr>sv_world := w\<rparr>)"

inductive_cases server_stepE: "server_step cr dj mtime sx \<sigma> \<tau>"

definition server_safe :: "crypto \<Rightarrow> upload_controller \<Rightarrow> 'j server \<Rightarrow> bool" where
  "server_safe cr uk \<sigma> \<longleftrightarrow> pool_safe (ds_inv cr uk) (archive_le uk) (sv_world \<sigma>) (sv_requests \<sigma>) \<and>
     pool_safe (ds_inv cr uk) (archive_le uk) (sv_world \<sigma>) [sv_cleanup \<sigma>]"

definition well_configured :: "ingest_service \<Rightarrow> bool" where
  "well_configured sx \<longleftrightarrow> roots_apart (sx_uploads sx) \<and> cs_temp_root (sx_cleanup sx) = uk_temp_root (sx_uploads sx)"

lemma serves_route: "well_configured sx \<Longrightarrow> serves cr (sx_uploads sx) (route_chain cr dj sx route generated_id rq)"
  by (cases route) (simp_all add: well_configured_def serves_create serves_chunk serves_progress serves_complete serves_heartbeat)

lemma environment_in_order:
  assumes "environment w u" and "ds_inv cr uk w"
  shows "ds_inv cr uk u" and "archive_le uk w u"
proof -
  show le: "archive_le uk w u" using assms(1) by (simp add: environment_def archive_le_def node_at_def)
  have "sessions_in_temp uk (ds_redis u)"
    using assms by (force simp: environment_def ds_inv_def sessions_in_temp_def map_le_def dom_def)
  then show "ds_inv cr uk u"
    using in_order_step [OF _ le, of cr w] assms up.le_refl by (auto simp: environment_def ds_inv_def)
qed

lemma server_step_safe:
  assumes "server_step cr dj mtime sx \<sigma> \<tau>" and "server_safe cr (sx_uploads sx) \<sigma>" and "well_configured sx"
  shows "server_safe cr (sx_uploads sx) \<tau> \<and> archive_le (sx_uploads sx) (sv_world \<sigma>) (sv_world \<tau>)"
  using assms(1)
proof cases
  case (arrive route generated_id rq)
  then show ?thesis using assms(2) serves_route [OF assms(3), of cr dj route generated_id rq]
    by (simp add: server_safe_def pool_safe_def serves_def up.le_refl)
next
  case (advance i f w c)
  have "pool_safe (ds_inv cr (sx_uploads sx)) (archive_le (sx_uploads sx)) w ((sv_requests \<sigma>)[i := c])"
    using up.pool_advance [of cr "sx_uploads sx", OF _ advance(2-4)] assms(2) by (simp add: server_safe_def)
  moreover have "archive_le (sx_uploads sx) (sv_world \<sigma>) w"
    using up.pool_advance_le [of cr "sx_uploads sx", OF _ advance(2-4)] assms(2) by (simp add: server_safe_def)
  ultimately show ?thesis
    using advance(1) assms(2) by (auto simp: server_safe_def pool_safe_def intro: up.safe_mono)
next
  case start_cleanup
  have "serves cr (sx_uploads sx) (cleanup_run mtime (sx_cleanup sx))"
    using assms(3) by (intro serves_cleanup) (simp_all add: well_configured_def)
  with start_cleanup assms(2) show ?thesis
    by (auto simp: server_safe_def pool_safe_def serves_def up.le_refl well_configured_def)
next
  case (advance_cleanup f w c)
  have "pool_safe (ds_inv cr (sx_uploads sx)) (archive_le (sx_uploads sx)) w [c]"
    using up.pool_advance [of cr "sx_uploads sx" "sv_world \<sigma>" "[sv_cleanup \<sigma>]" 0 f w c] advance_cleanup assms(2)
    by (simp add: server_safe_def)
  moreover have "archive_le (sx_uploads sx) (sv_world \<sigma>) w"
    using up.pool_advance_le [of cr "sx_uploads sx" "sv_world \<sigma>" "[sv_cleanup \<sigma>]" 0 f w c] advance_cleanup assms(2)
    by (simp add: server_safe_def)
  ultimately show ?thesis
    using advance_cleanup(1) assms(2) by (auto simp: server_safe_def pool_safe_def intro: up.safe_mono)
next
  case restart
  then show ?thesis using assms(2) by (auto simp: server_safe_def pool_safe_def up.le_refl chain_safe.killed)
next
  case (outside w)
  then show ?thesis
    using assms(2) environment_in_order [OF outside(2)] by (auto simp: server_safe_def pool_safe_def intro: up.safe_mono)
qed

lemma server_safe_start:
  assumes "ds_inv cr uk (sv_world \<sigma>)" and "sv_requests \<sigma> = []" and "sv_cleanup \<sigma> = Killed"
  shows "server_safe cr uk \<sigma>"
  using assms by (simp add: server_safe_def pool_safe_def chain_safe.killed)

lemma server_reachable:
  assumes "(server_step cr dj mtime sx)\<^sup>*\<^sup>* \<sigma> \<tau>" and "server_safe cr (sx_uploads sx) \<sigma>" and "well_configured sx"
  shows "server_safe cr (sx_uploads sx) \<tau> \<and> archive_le (sx_uploads sx) (sv_world \<sigma>) (sv_world \<tau>)"
  using assms(1)
proof (induction rule: rtranclp_induct)
  case base
  show ?case using assms(2) by (simp add: up.le_refl)
next
  case (step \<tau> \<upsilon>)
  then show ?case using server_step_safe [OF step(2) _ assms(3)] up.le_trans by blast
qed

text \<open>
  C3: the archive keeps its word. Whatever requests arrive, however their tasks interleave with each other
  and with the cleanup, whichever calls fail and whenever the process is restarted: every row of the
  archive table names a file under the archive root that has the size and the SHA-256 digest of the row,
  no two rows share an upload or a path, and a file once in the archive never changes.
\<close>

theorem archive_backed:
  assumes "well_configured sx" and "uk = sx_uploads sx" and "ds_inv cr uk (sv_world \<sigma>)"
    and "sv_requests \<sigma> = []" and "sv_cleanup \<sigma> = Killed"
    and "(server_step cr dj mtime sx)\<^sup>*\<^sup>* \<sigma> \<tau>"
  shows "(\<forall>row\<in>set (ds_archives (sv_world \<tau>)). \<exists>c.
      node_at (sv_world \<tau>) (path_of (uk_archive_root uk @ ''/'' @ ar_relative_path row)) = Some (File c) \<and>
      length c = unat (ar_file_size row) \<and> sha256_hex cr c = ar_file_sha256 row) \<and>
    distinct (map ar_upload_id (ds_archives (sv_world \<tau>))) \<and>
    distinct (map ar_relative_path (ds_archives (sv_world \<tau>))) \<and>
    (\<forall>p c. below (path_of (uk_archive_root uk)) p \<longrightarrow> node_at (sv_world \<sigma>) p = Some (File c) \<longrightarrow>
      node_at (sv_world \<tau>) p = Some (File c))"
proof -
  have "server_safe cr uk \<tau> \<and> archive_le uk (sv_world \<sigma>) (sv_world \<tau>)"
    using server_reachable [OF assms(6) _ assms(1)] server_safe_start [OF assms(3-5)] assms(2) by simp
  then show ?thesis
    by (auto simp: server_safe_def pool_safe_def ds_inv_def archive_sound_def stored_file_def archive_node_def archive_le_def)
qed

section \<open>A service with one archived upload\<close>

definition sample_row :: archive_entry where
  "sample_row = \<lparr>ar_archive_id = 1, ar_upload_id = ''u'', ar_line_id = ''LINE-01'', ar_station_id = ''ST-01'',
     ar_device_id = ''DEV-01'', ar_collector_id = ''COL-01'', ar_work_order = ''W'', ar_product_sn = ''P'',
     ar_file_type = ''AOI'', ar_result = ''PASS'', ar_original_filename = ''a.log'',
     ar_relative_path = ''x/u.log'', ar_file_size = 3, ar_file_sha256 = sha256_hex sample_crypto '''',
     ar_produced_at = '''', ar_archived_at = '''', ar_archived_at_milliseconds = 0\<rparr>"

definition sample_uploads :: upload_controller where
  "sample_uploads = \<lparr>uk_auth = sample_auth_config 300 700,
     uk_repository = \<lparr>ur_key_prefix = ''ds:'', ur_config = \<lparr>uc_session_ttl_seconds = 600, uc_min_chunk_size_bytes = 1,
       uc_max_chunk_size_bytes = 8, uc_max_file_size_bytes = 64, uc_hash_mmap_window_bytes = 4,
       uc_min_free_space_bytes = 0, uc_min_free_space_percent = 0, uc_max_active_sessions = 2,
       uc_max_device_sessions = 2, uc_max_collector_sessions = 2, uc_max_reserved_bytes = 128,
       uc_temp_root = ''/t'', uc_archive_root = ''/a''\<rparr>, ur_terminal_ttl_seconds = 60\<rparr>,
     uk_temp_root = ''/t'', uk_archive_root = ''/a'', uk_body_limit_bytes = 64\<rparr>"

definition sample_service :: ingest_service where
  "sample_service = \<lparr>sx_uploads = sample_uploads,
     sx_heartbeats = \<lparr>hc_auth = sample_auth_config 300 700, hc_heartbeat_ttl_seconds = 30, hc_body_limit_bytes = 64\<rparr>,
     sx_cleanup = \<lparr>cs_temp_root = ''/t'', cs_key_prefix = ''ds:'', cs_retention_seconds = 60\<rparr>\<rparr>"

definition sample_server :: "'j server" where
  "sample_server = \<lparr>sv_world = sample_ds_world\<lparr>ds_archives := [sample_row],
       st_nodes := [([''a'', ''x'', ''u.log''], File ''abc''), ([''a'', ''x''], Dir), ([''a''], Dir), ([''t''], Dir), ([], Dir)]\<rparr>,
     sv_requests = [], sv_cleanup = Killed\<rparr>"

lemma sample_service_valid:
  "well_configured sample_service" "ds_inv sample_crypto sample_uploads (sv_world sample_server)"
  by (simp_all add: well_configured_def sample_service_def sample_uploads_def roots_apart_def path_of_def below_def
      sample_server_def sample_ds_world_def ds_inv_def archive_sound_def stored_file_def archive_node_def
      sample_row_def node_at_def sessions_in_temp_def sha256_hex_def sample_crypto_def)

text \<open>A request arrives and a cleanup starts.\<close>

definition sample_later :: "'j ds_json \<Rightarrow> (ds_world \<Rightarrow> fpath \<Rightarrow> int) \<Rightarrow> 'j server" where
  "sample_later dj mtime = sample_server\<lparr>
     sv_requests := [route_chain sample_crypto dj sample_service Read_progress ''g'' (sample_device_request ''300'')],
     sv_cleanup := cleanup_run mtime (sx_cleanup sample_service)\<rparr>"

lemma sample_steps: "(server_step sample_crypto dj mtime sample_service)\<^sup>*\<^sup>* sample_server (sample_later dj mtime)"
proof -
  have 1: "server_step sample_crypto dj mtime sample_service sample_server
      (sample_server\<lparr>sv_requests := [route_chain sample_crypto dj sample_service Read_progress ''g'' (sample_device_request ''300'')]\<rparr>)"
    using server_step.arrive [of sample_crypto dj mtime sample_service sample_server Read_progress "''g''" "sample_device_request ''300''"]
    by (simp add: sample_server_def)
  have 2: "server_step sample_crypto dj mtime sample_service
      (sample_server\<lparr>sv_requests := [route_chain sample_crypto dj sample_service Read_progress ''g'' (sample_device_request ''300'')]\<rparr>)
      (sample_later dj mtime)"
    unfolding sample_later_def by (rule server_step.start_cleanup)
  show ?thesis by (rule converse_rtranclp_into_rtranclp [OF 1 r_into_rtranclp [where r = "server_step sample_crypto dj mtime sample_service", OF 2]])
qed

theorem archive_backed_witness:
  "node_at (sv_world (sample_later (ds_sample_json []) (\<lambda>_ _. 0))) [''a'', ''x'', ''u.log''] = Some (File ''abc'') \<and>
   length ''abc'' = unat (ar_file_size sample_row) \<and> sha256_hex sample_crypto ''abc'' = ar_file_sha256 sample_row"
proof -
  have "sv_requests (sample_server :: ds_value server) = []" "sv_cleanup (sample_server :: ds_value server) = Killed"
    "sx_uploads sample_service = sample_uploads"
    by (simp_all add: sample_server_def sample_service_def)
  from archive_backed [OF sample_service_valid(1) refl, unfolded this(3), OF sample_service_valid(2) this(1,2) sample_steps]
  show ?thesis
    by (simp add: sample_later_def sample_server_def sample_row_def path_of_def sample_uploads_def sample_ds_world_def node_at_def)
qed

end
