(* ===== verification/Spool_Store.thy ===== *)
theory Spool_Store
  imports Ds_Json File_Calls Ordered_Map
begin

text \<open>
  The spool of the collector (\<open>collector/spool_store.cpp\<close>): one JSON file per task, replaced atomically,
  and a snapshot of each payload. The world of the collector is its files, its clock, the outcomes of its
  HTTP calls and the members of \<open>CollectorApp\<close>. A \<open>SpoolError\<close> is the exception \<open>Spool_error\<close>; an exception
  of the JSON library that is not caught is \<open>Json_failure\<close>, one of the random source \<open>Random_failure\<close>. The bytes of a file read by one function do not
  change under it.
\<close>

section \<open>Tasks\<close>

datatype task_state = Discovered | Ready | Uploading | Completing | Done | Task_failed

record collector_task =
  ct_task_id :: string
  ct_source_path :: string
  ct_payload_path :: string
  ct_line_id :: string
  ct_station_id :: string
  ct_device_id :: string
  ct_collector_id :: string
  ct_work_order :: string
  ct_product_sn :: string
  ct_file_type :: string
  ct_result :: string
  ct_original_filename :: string
  ct_produced_at :: string
  ct_file_size :: u64
  ct_source_mtime_ns :: int
  ct_file_sha256 :: string
  ct_state :: task_state
  ct_upload_id :: string
  ct_chunk_size :: u64
  ct_chunk_count :: u64
  ct_retry_attempts :: int
  ct_next_attempt_milliseconds :: int
  ct_last_error :: string
  ct_archive_id :: u64

record collector_world = store_state +
  co_clock :: int
  co_ticks :: "nat list"
  co_random :: "string option list"
  co_replies :: "(nat \<times> string) option list"
  co_sent :: "http_request list"
  co_mtimes :: "(fpath \<times> int) list"
  co_bavail :: u64
  co_frsize :: u64
  co_tasks :: "(string \<times> collector_task) list"
  co_observations :: "(string \<times> u64 \<times> int) list"
  co_stable_counts :: "(string \<times> int) list"

datatype spool_error = Spool_error string | Json_failure | Random_failure

fun task_state_name :: "task_state \<Rightarrow> string" where
  "task_state_name Discovered = ''DISCOVERED''"
| "task_state_name Ready = ''READY''"
| "task_state_name Uploading = ''UPLOADING''"
| "task_state_name Completing = ''COMPLETING''"
| "task_state_name Done = ''DONE''"
| "task_state_name Task_failed = ''FAILED''"

definition parse_task_state :: "string \<Rightarrow> task_state option" where
  "parse_task_state s =
     (if s = ''DISCOVERED'' then Some Discovered
      else if s = ''READY'' then Some Ready
      else if s = ''UPLOADING'' then Some Uploading
      else if s = ''COMPLETING'' then Some Completing
      else if s = ''DONE'' then Some Done
      else if s = ''FAILED'' then Some Task_failed
      else None)"

definition task_json :: "'j ds_json \<Rightarrow> collector_task \<Rightarrow> 'j" where
  "task_json dj t = jl_object dj
     [(''task_id'', jl_string dj (ct_task_id t)), (''source_path'', jl_string dj (ct_source_path t)),
      (''payload_path'', jl_string dj (ct_payload_path t)), (''line_id'', jl_string dj (ct_line_id t)),
      (''station_id'', jl_string dj (ct_station_id t)), (''device_id'', jl_string dj (ct_device_id t)),
      (''collector_id'', jl_string dj (ct_collector_id t)), (''work_order'', jl_string dj (ct_work_order t)),
      (''product_sn'', jl_string dj (ct_product_sn t)), (''file_type'', jl_string dj (ct_file_type t)),
      (''result'', jl_string dj (ct_result t)), (''original_filename'', jl_string dj (ct_original_filename t)),
      (''produced_at'', jl_string dj (ct_produced_at t)), (''file_size'', jl_unsigned dj (ct_file_size t)),
      (''source_mtime_ns'', jl_integer dj (ct_source_mtime_ns t)), (''file_sha256'', jl_string dj (ct_file_sha256 t)),
      (''state'', jl_string dj (task_state_name (ct_state t))), (''upload_id'', jl_string dj (ct_upload_id t)),
      (''chunk_size'', jl_unsigned dj (ct_chunk_size t)), (''chunk_count'', jl_unsigned dj (ct_chunk_count t)),
      (''retry_attempts'', jl_integer dj (ct_retry_attempts t)),
      (''next_attempt_milliseconds'', jl_integer dj (ct_next_attempt_milliseconds t)),
      (''last_error'', jl_string dj (ct_last_error t)), (''archive_id'', jl_unsigned dj (ct_archive_id t))]"

definition task_fields :: "string list" where
  "task_fields = [''task_id'', ''source_path'', ''payload_path'', ''line_id'', ''station_id'', ''device_id'',
     ''collector_id'', ''work_order'', ''product_sn'', ''file_type'', ''result'', ''original_filename'',
     ''produced_at'', ''file_size'', ''source_mtime_ns'', ''file_sha256'', ''state'', ''upload_id'',
     ''chunk_size'', ''chunk_count'', ''retry_attempts'', ''next_attempt_milliseconds'', ''last_error'', ''archive_id'']"

text \<open>\<open>get<std::uint64_t>\<close> and \<open>get<int>\<close> convert any number.\<close>

definition u64_member :: "'j ds_json \<Rightarrow> 'j \<Rightarrow> string \<Rightarrow> u64 option" where
  "u64_member dj v k = Option.bind (jl_at dj v k) (jl_to_u64 dj)"

definition int_member :: "'j ds_json \<Rightarrow> 'j \<Rightarrow> string \<Rightarrow> int option" where
  "int_member dj v k = map_option (\<lambda>n. sint (word_of_int n :: 32 word)) (int64_member dj v k)"

text \<open>\<open>None\<close> is any of the exceptions: a caller turns the ones of the JSON library into a \<open>SpoolError\<close> too.\<close>

definition task_of_json :: "'j ds_json \<Rightarrow> 'j \<Rightarrow> collector_task option" where
  "task_of_json dj v =
     (let text_of = string_member dj v in
      if \<not> exact_fields dj task_fields v then None
      else case (those (map text_of [''task_id'', ''source_path'', ''payload_path'', ''line_id'', ''station_id'',
            ''device_id'', ''collector_id'', ''work_order'', ''product_sn'', ''file_type'', ''result'',
            ''original_filename'', ''produced_at'', ''file_sha256'', ''upload_id'', ''last_error'']),
          u64_member dj v ''file_size'', int64_member dj v ''source_mtime_ns'',
          Option.bind (text_of ''state'') parse_task_state, u64_member dj v ''chunk_size'',
          u64_member dj v ''chunk_count'', int_member dj v ''retry_attempts'',
          int64_member dj v ''next_attempt_milliseconds'', u64_member dj v ''archive_id'') of
        (Some [task_id, source_path, payload_path, line_id, station_id, device_id, collector_id, work_order,
            product_sn, file_type, product_result, original_filename, produced_at, file_sha256, upload_id, last_error],
         Some file_size, Some mtime, Some state, Some chunk_size, Some chunk_count, Some retry_attempts,
         Some next_attempt, Some archive_id) \<Rightarrow>
          if length task_id \<noteq> 64 \<or> source_path = '''' \<or> payload_path = '''' then None
          else Some \<lparr>ct_task_id = task_id, ct_source_path = source_path, ct_payload_path = payload_path,
            ct_line_id = line_id, ct_station_id = station_id, ct_device_id = device_id, ct_collector_id = collector_id,
            ct_work_order = work_order, ct_product_sn = product_sn, ct_file_type = file_type,
            ct_result = product_result, ct_original_filename = original_filename, ct_produced_at = produced_at,
            ct_file_size = file_size, ct_source_mtime_ns = mtime, ct_file_sha256 = file_sha256, ct_state = state,
            ct_upload_id = upload_id, ct_chunk_size = chunk_size, ct_chunk_count = chunk_count,
            ct_retry_attempts = retry_attempts, ct_next_attempt_milliseconds = next_attempt,
            ct_last_error = last_error, ct_archive_id = archive_id\<rparr>
      | _ \<Rightarrow> None)"

section \<open>The store\<close>

record spool_store =
  sl_root :: string
  sl_max_bytes :: u64
  sl_min_free_bytes :: u64

definition state_dir :: "spool_store \<Rightarrow> string" where
  "state_dir sl = sl_root sl @ ''/states''"

definition file_dir :: "spool_store \<Rightarrow> string" where
  "file_dir sl = sl_root sl @ ''/files''"

definition payload_path :: "spool_store \<Rightarrow> string \<Rightarrow> string" where
  "payload_path sl task_id = file_dir sl @ ''/'' @ task_id @ ''.data''"

definition fail_unless :: "string \<Rightarrow> bool \<Rightarrow> ('w store_state_scheme, spool_error, unit) proc" where
  "fail_unless message ok = (if ok then ret () else throw (Spool_error message))"

definition spool_directory :: "string \<Rightarrow> ('w store_state_scheme, spool_error, unit) proc" where
  "spool_directory path = bind (ensure_directory_call (path_of path)) (fail_unless (''cannot create spool directory: '' @ path))"

text \<open>\<open>fsync\<close> of a directory: opening, synchronising and closing it.\<close>

definition sync_spool_directory :: "string \<Rightarrow> string \<Rightarrow> ('w store_state_scheme, spool_error, unit) proc" where
  "sync_spool_directory message path = bind attempt_call (\<lambda>opened.
     if \<not> opened then throw (Spool_error message)
     else bind attempt_call (\<lambda>synced. if \<not> synced then throw (Spool_error message)
       else bind attempt_call (fail_unless message)))"

text \<open>Writing the bytes of a file that was just opened and truncated; \<open>False\<close> when a \<open>write\<close> failed.\<close>

definition write_bytes :: "fpath \<Rightarrow> string \<Rightarrow> ('w store_state_scheme, 'e, bool) proc" where
  "write_bytes p content s = (case transfer_loop (length content) (st_events s) of
     (r, k, es) \<Rightarrow>
       (case r of Transferred \<Rightarrow> Ret True | Transfer_failed \<Rightarrow> Ret False | Transfer_crashed \<Rightarrow> Crashed,
        put_node p (File (take k content)) (s\<lparr>st_events := es\<rparr>)))"

definition open_truncated :: "fpath \<Rightarrow> ('w store_state_scheme, 'e, bool) proc" where
  "open_truncated p = effect_call (\<lambda>s.
     if p \<noteq> [] \<and> node_at s (butlast p) = Some Dir \<and> node_at s p \<noteq> Some Dir then Some (put_node p (File '''') s) else None)"

definition spool_save :: "'j ds_json \<Rightarrow> spool_store \<Rightarrow> collector_task \<Rightarrow> ('w store_state_scheme, spool_error, unit) proc" where
  "spool_save dj sl t =
     (let target = state_dir sl @ ''/'' @ ct_task_id t @ ''.json''; temporary = target @ ''.tmp'';
          tmp = path_of temporary; json = task_json dj t
      in if \<not> dj_dumps dj json then throw Json_failure
         else bind (open_truncated tmp) (\<lambda>opened.
           if \<not> opened then throw (Spool_error ''cannot create spool state'')
           else bind (write_bytes tmp (jl_dump dj json)) (\<lambda>written.
           bind (if written then attempt_call else ret False) (\<lambda>synced.
           bind (if synced then attempt_call else ret False) (\<lambda>closed.
           bind (if closed then rename_file tmp (path_of target) else ret False) (\<lambda>renamed.
             if renamed then sync_spool_directory ''cannot fsync spool state directory'' (state_dir sl)
             else seq (unlink_file tmp) (throw (Spool_error
               (if written then ''cannot commit spool state'' else ''cannot write spool state'')))))))))"

section \<open>Starting\<close>

definition temporary_name :: "string \<Rightarrow> string \<Rightarrow> bool" where
  "temporary_name name middle =
     (if length name \<noteq> 64 + length middle + 4 \<or> drop 64 name \<noteq> middle @ ''.tmp'' then False
      else list_all (\<lambda>c. is_digit c \<or> byte c \<ge> 97 \<and> byte c \<le> 102) (take 64 name))"

text \<open>\<open>opendir\<close> and the names \<open>readdir\<close> gives.\<close>

definition list_directory :: "string \<Rightarrow> string \<Rightarrow> ('w store_state_scheme, spool_error, string list) proc" where
  "list_directory message path = bind attempt_call (\<lambda>opened.
     bind (gets (\<lambda>s. (node_at s (path_of path), child_names s (path_of path)))) (\<lambda>(n, names).
       if opened \<and> n = Some Dir then ret names else throw (Spool_error message)))"

fun remove_each :: "string \<Rightarrow> string \<Rightarrow> string list \<Rightarrow> ('w store_state_scheme, spool_error, unit) proc" where
  "remove_each directory middle [] = ret ()"
| "remove_each directory middle (name # names) =
     (if temporary_name name middle
      then bind (unlink_file (path_of (directory @ ''/'' @ name))) (\<lambda>removed.
        if removed then remove_each directory middle names
        else throw (Spool_error ''cannot remove interrupted spool file''))
      else remove_each directory middle names)"

definition remove_interrupted_files :: "string \<Rightarrow> string \<Rightarrow> ('w store_state_scheme, spool_error, unit) proc" where
  "remove_interrupted_files directory middle =
     bind (list_directory ''cannot scan interrupted spool files'' directory) (remove_each directory middle)"

text \<open>The content of a file, \<open>None\<close> when it cannot be opened or read.\<close>

definition read_content :: "fpath \<Rightarrow> ('w store_state_scheme, 'e, string option) proc" where
  "read_content p = bind attempt_call (\<lambda>ok. bind (gets (\<lambda>s. node_at s p)) (\<lambda>n.
     ret (case n of Some (File c) \<Rightarrow> if ok then Some c else None | _ \<Rightarrow> None)))"

fun load_states :: "'j ds_json \<Rightarrow> string \<Rightarrow> string list \<Rightarrow> (string \<times> collector_task) list \<Rightarrow>
    ('w store_state_scheme, spool_error, (string \<times> collector_task) list) proc" where
  "load_states dj directory [] tasks = ret tasks"
| "load_states dj directory (name # names) tasks =
     (if length name \<noteq> 69 \<or> drop 64 name \<noteq> ''.json'' then load_states dj directory names tasks
      else bind (read_content (path_of (directory @ ''/'' @ name))) (\<lambda>content.
        case Option.bind content (dj_read dj) of
          None \<Rightarrow> throw (Spool_error ''invalid spool JSON: '')
        | Some json \<Rightarrow> (case task_of_json dj json of
              None \<Rightarrow> throw (Spool_error ''spool task is invalid'')
            | Some t \<Rightarrow>
                if take 64 name \<noteq> ct_task_id t \<or> map_of tasks (ct_task_id t) \<noteq> None
                then throw (Spool_error ''spool task identity is inconsistent'')
                else load_states dj directory names (map_put (ct_task_id t) t tasks))))"

definition spool_initialize :: "'j ds_json \<Rightarrow> spool_store \<Rightarrow>
    ('w store_state_scheme, spool_error, (string \<times> collector_task) list) proc" where
  "spool_initialize dj sl =
     seq (spool_directory (sl_root sl)) (seq (spool_directory (state_dir sl)) (seq (spool_directory (file_dir sl))
     (seq (remove_interrupted_files (state_dir sl) ''.json'') (seq (remove_interrupted_files (file_dir sl) ''.data'')
     (bind (list_directory ''cannot scan spool state directory'' (state_dir sl)) (\<lambda>names.
        load_states dj (state_dir sl) names []))))))"

section \<open>Payloads\<close>

fun directory_bytes_of :: "string \<Rightarrow> string list \<Rightarrow> ('w store_state_scheme, 'e, u64) proc" where
  "directory_bytes_of path [] = ret 0"
| "directory_bytes_of path (name # names) =
     (if name \<noteq> [] \<and> hd name = CHR ''.'' then directory_bytes_of path names
      else bind attempt_call (\<lambda>ok. bind (gets (\<lambda>s. node_at s (path_of (path @ ''/'' @ name)))) (\<lambda>n.
        bind (directory_bytes_of path names) (\<lambda>rest.
          ret (case n of Some (File c) \<Rightarrow> if ok then word_of_nat (length c) + rest else rest | _ \<Rightarrow> rest)))))"

definition directory_bytes :: "string \<Rightarrow> ('w store_state_scheme, spool_error, u64) proc" where
  "directory_bytes path = bind (list_directory ''cannot scan spool payload directory'' path) (directory_bytes_of path)"

text \<open>
  The loop of \<open>read\<close> and \<open>write\<close> calls that copies the bytes \<open>c\<close> from position \<open>pos\<close> on: whether a read or
  a write failed, and how many bytes are in the output. A failed read ends the loop like the end of file.
\<close>

datatype copy_end = Copy_ended | Copy_write_failed | Copy_crashed

lemma transfer_loop_events: "length (snd (snd (transfer_loop n es))) \<le> length es"
proof (induction n es rule: transfer_loop.induct)
  case (2 n e es)
  show ?case
  proof (cases e)
    case (Io_short k)
    then show ?thesis using 2(2) [of k] by (cases "n = 0") (auto simp: Let_def split: prod.splits)
  qed (use 2(1) in \<open>auto split: prod.splits\<close>)
qed simp

lemma transfer_shorter: "transfer_loop n es = (r, k, es') \<Longrightarrow> length es' \<le> length es"
  using transfer_loop_events [of n es] by simp

function copy_loop :: "string \<Rightarrow> nat \<Rightarrow> outcome list \<Rightarrow> copy_end \<times> nat \<times> outcome list" where
  "copy_loop c pos es = (case es of
       [] \<Rightarrow> (Copy_ended, length c, [])
     | Io_intr # es' \<Rightarrow> copy_loop c pos es'
     | Io_fail # es' \<Rightarrow> (Copy_ended, pos, es')
     | Io_lost # es' \<Rightarrow> (Copy_ended, pos, es')
     | Io_crash # es' \<Rightarrow> (Copy_crashed, pos, es')
     | e # es' \<Rightarrow>
         if length c \<le> pos then (Copy_ended, pos, es')
         else let count = min (case e of Io_short k \<Rightarrow> max 1 k | _ \<Rightarrow> 65536) (min 65536 (length c - pos))
           in (case transfer_loop count es' of
               (Transferred, _, es2) \<Rightarrow> copy_loop c (pos + count) es2
             | (Transfer_failed, k, es2) \<Rightarrow> (Copy_write_failed, pos + k, es2)
             | (Transfer_crashed, k, es2) \<Rightarrow> (Copy_crashed, pos + k, es2)))"
  by pat_completeness auto
termination
  by (relation "measure (\<lambda>(c, pos, es). length es)") (auto dest!: transfer_shorter [OF sym])

declare copy_loop.simps [simp del]

text \<open>The bytes written, \<open>None\<close> when a write failed (\<open>UINT64_MAX\<close> in the code).\<close>

definition copy_bytes :: "string \<Rightarrow> fpath \<Rightarrow> ('w store_state_scheme, 'e, nat option) proc" where
  "copy_bytes c p s = (case copy_loop c 0 (st_events s) of
     (r, k, es) \<Rightarrow>
       (case r of Copy_ended \<Rightarrow> Ret (Some k) | Copy_write_failed \<Rightarrow> Ret None | Copy_crashed \<Rightarrow> Crashed,
        put_node p (File (take k c)) (s\<lparr>st_events := es\<rparr>)))"

definition spool_snapshot ::
    "spool_store \<Rightarrow> string \<Rightarrow> string \<Rightarrow> u64 \<Rightarrow> ('w collector_world_scheme, spool_error, string) proc" where
  "spool_snapshot sl source_path task_id expected_size =
     (let target = payload_path sl task_id; tmp = path_of (target @ ''.tmp''); source = path_of source_path in
      bind attempt_call (\<lambda>statvfs.
      if \<not> statvfs then throw (Spool_error ''cannot inspect spool capacity'')
      else bind (gets (\<lambda>w. co_bavail w * co_frsize w)) (\<lambda>available.
      bind (directory_bytes (file_dir sl)) (\<lambda>used.
      if used + expected_size > sl_max_bytes sl \<or> available < expected_size + sl_min_free_bytes sl
      then throw (Spool_error ''spool capacity limit was exceeded'')
      else seq (unlink_file tmp)
      (bind attempt_call (\<lambda>source_opened.
       bind (gets (\<lambda>w. node_at w source)) (\<lambda>n.
       bind (effect_call (\<lambda>w. if node_at w tmp = None \<and> node_at w (butlast tmp) = Some Dir \<and> tmp \<noteq> []
            then Some (put_node tmp (File []) w) else None)) (\<lambda>output_opened.
       case (if source_opened \<and> output_opened then n else None) of
         Some (File c) \<Rightarrow>
           bind (copy_bytes c tmp) (\<lambda>copied.
           bind (if copied = Some (unat expected_size) then attempt_call else ret False) (\<lambda>synced.
           bind (if synced then attempt_call else ret False) (\<lambda>source_closed.
           bind (if source_closed then attempt_call else ret False) (\<lambda>output_closed.
           bind (if output_closed then rename_file tmp (path_of target) else ret False) (\<lambda>committed.
             if committed then seq (sync_spool_directory ''cannot fsync spool payload directory'' (file_dir sl)) (ret target)
             else seq (unlink_file tmp) (throw (Spool_error ''source changed or spool snapshot failed'')))))))
       | _ \<Rightarrow> throw (Spool_error ''cannot open spool snapshot files'')))))))))"

definition remove_payload :: "spool_store \<Rightarrow> collector_task \<Rightarrow> ('w store_state_scheme, spool_error, unit) proc" where
  "remove_payload sl t =
     (let p = path_of (ct_payload_path t) in
      if ct_state t \<noteq> Done then throw (Spool_error ''only DONE task payload can be removed'')
      else bind (gets (\<lambda>s. node_at s p = None)) (\<lambda>absent. bind (unlink_file p) (\<lambda>removed.
        if \<not> removed \<and> \<not> absent then throw (Spool_error ''cannot remove archived spool payload'')
        else sync_spool_directory ''cannot fsync spool payload directory'' (file_dir sl))))"

end
