(* ===== verification/Config_Fields.thy ===== *)
theory Config_Fields
  imports Ds_Json
begin

text \<open>
  The checks the three configuration loaders share (\<open>config/app_config.cpp\<close> of both products,
  \<open>collector/collector_config.cpp\<close>). A \<open>ConfigError\<close> is the left value with its message; the text the JSON
  library adds to a message is left out. The content of the file and the environment are arguments.
\<close>

named_theorems config_simps "what a successful check of a configuration says"

type_synonym 'a checked = "string + 'a"

definition checked_bind :: "'a checked \<Rightarrow> ('a \<Rightarrow> 'b checked) \<Rightarrow> 'b checked" where
  "checked_bind x f = (case x of Inl e \<Rightarrow> Inl e | Inr y \<Rightarrow> f y)"

definition ensure :: "bool \<Rightarrow> string \<Rightarrow> 'a checked \<Rightarrow> 'a checked" where
  "ensure ok message next_step = (if ok then next_step else Inl message)"

lemma checked_bind_Inr [config_simps]: "checked_bind x f = Inr z \<longleftrightarrow> (\<exists>y. x = Inr y \<and> f y = Inr z)"
  by (cases x) (auto simp: checked_bind_def)

lemma ensure_Inr [config_simps]: "ensure ok message x = Inr z \<longleftrightarrow> ok \<and> x = Inr z"
  by (simp add: ensure_def)

lemma checked_simps [simp]: "checked_bind (Inr y) f = f y" "checked_bind (Inl e) f = Inl e"
  "ensure True message x = x" "ensure False message x = Inl message"
  by (simp_all add: checked_bind_def ensure_def)

section \<open>Fields\<close>

definition config_member :: "'j ds_json \<Rightarrow> 'j \<Rightarrow> string \<Rightarrow> 'j checked" where
  "config_member dj v key = (case jl_at dj v key of None \<Rightarrow> Inl ''invalid config field: '' | Some m \<Rightarrow> Inr m)"

definition require_exact_keys :: "'j ds_json \<Rightarrow> 'j \<Rightarrow> string list \<Rightarrow> string \<Rightarrow> 'a checked \<Rightarrow> 'a checked" where
  "require_exact_keys dj v expected context next_step = (case jl_keys dj v of
       None \<Rightarrow> Inl (context @ '' must be an object'')
     | Some actual \<Rightarrow> if set actual \<noteq> set expected then Inl (context @ '' has missing or unknown fields'') else next_step)"

definition require_string :: "'j ds_json \<Rightarrow> 'j \<Rightarrow> string \<Rightarrow> string \<Rightarrow> string checked" where
  "require_string dj v key context = checked_bind (config_member dj v key) (\<lambda>m. case jl_get_string dj m of
       None \<Rightarrow> Inl (context @ ''.'' @ key @ '' must be a string'')
     | Some s \<Rightarrow> if s = '''' then Inl (context @ ''.'' @ key @ '' must not be empty'') else Inr s)"

definition require_unsigned :: "'j ds_json \<Rightarrow> 'j \<Rightarrow> string \<Rightarrow> u64 \<Rightarrow> u64 \<Rightarrow> string \<Rightarrow> u64 checked" where
  "require_unsigned dj v key minimum maximum context = checked_bind (config_member dj v key) (\<lambda>m.
     checked_bind (case jl_get_unsigned dj m of
         Some n \<Rightarrow> Inr n
       | None \<Rightarrow> (case dj_get_integer dj m of
             None \<Rightarrow> Inl (context @ ''.'' @ key @ '' must be an integer'')
           | Some n \<Rightarrow> if n < 0 then Inl (context @ ''.'' @ key @ '' is out of range'') else Inr (word_of_int n)))
       (\<lambda>n. if n < minimum \<or> n > maximum then Inl (context @ ''.'' @ key @ '' is out of range'') else Inr n))"

text \<open>The value as an \<open>int\<close>.\<close>

definition require_int :: "'j ds_json \<Rightarrow> 'j \<Rightarrow> string \<Rightarrow> u64 \<Rightarrow> u64 \<Rightarrow> string \<Rightarrow> int checked" where
  "require_int dj v key minimum maximum context =
     checked_bind (require_unsigned dj v key minimum maximum context) (\<lambda>n. Inr (sint (ucast n :: 32 word)))"

definition require_environment :: "(string \<Rightarrow> string option) \<Rightarrow> string \<Rightarrow> string \<Rightarrow> string checked" where
  "require_environment getenv name label = (case getenv name of
       None \<Rightarrow> Inl (label @ '' references a missing or empty environment variable'')
     | Some s \<Rightarrow> if s = '''' then Inl (label @ '' references a missing or empty environment variable'') else Inr s)"

definition is_simple_host :: "string \<Rightarrow> bool" where
  "is_simple_host s = list_all (\<lambda>c. is_lower c \<or> is_upper c \<or> is_digit c \<or> c = CHR ''.'' \<or> c = CHR ''-'') s"

definition is_simple_identifier :: "string \<Rightarrow> bool" where
  "is_simple_identifier s = list_all (\<lambda>c. is_lower c \<or> is_upper c \<or> is_digit c \<or> c = CHR ''_'') s"

definition is_redis_username :: "string \<Rightarrow> bool" where
  "is_redis_username s =
     list_all (\<lambda>c. is_lower c \<or> is_upper c \<or> is_digit c \<or> c = CHR ''_'' \<or> c = CHR ''-'' \<or> c = CHR ''.'') s"

definition supported_log_level :: "string \<Rightarrow> bool" where
  "supported_log_level level \<longleftrightarrow>
     level \<in> {''trace'', ''debug'', ''info'', ''warn'', ''error'', ''critical'', ''off''}"

lemma require_exact_keys_Inr [config_simps]:
  "require_exact_keys dj v expected context x = Inr z \<longleftrightarrow>
     (\<exists>ks. jl_keys dj v = Some ks \<and> set ks = set expected) \<and> x = Inr z"
  by (auto simp: require_exact_keys_def split: option.splits)

lemma require_string_Inr [config_simps]:
  "require_string dj v key context = Inr s \<longleftrightarrow> string_member dj v key = Some s \<and> s \<noteq> ''''"
  by (auto simp: require_string_def config_member_def string_member_def checked_bind_def split: option.splits sum.splits)

lemma require_unsigned_bounds: "require_unsigned dj v key lo hi context = Inr n \<Longrightarrow> lo \<le> n \<and> n \<le> hi"
  by (auto simp: require_unsigned_def checked_bind_def split: sum.splits if_splits)

text \<open>The cast to \<open>int\<close> keeps a value below its range.\<close>

lemma narrow_bounds:
  fixes m lo hi :: u64
  assumes "lo \<le> m" "m \<le> hi" and "hi < 2 ^ 31"
  shows "int (unat lo) \<le> sint (ucast m :: 32 word) \<and> sint (ucast m :: 32 word) \<le> int (unat hi)"
proof -
  have le: "unat lo \<le> unat m" "unat m \<le> unat hi" and hi: "unat hi < 2 ^ 31"
    using assms by (simp_all add: word_le_nat_alt word_less_nat_alt)
  have "unat m < 2 ^ 31" using le(2) hi by (rule le_less_trans)
  then have "int (unat m) < int (2 ^ 31)" by (simp only: of_nat_less_iff)
  then have small: "int (unat m) < 2 ^ 31" by (simp only: of_nat_power of_nat_numeral)
  have "uint (ucast m :: 32 word) = take_bit 32 (int (unat m))" by (simp add: unsigned_ucast_eq)
  also have "\<dots> = int (unat m)" using small by (intro take_bit_int_eq_self) simp_all
  finally have u: "uint (ucast m :: 32 word) = int (unat m)" .
  have "sint (ucast m :: 32 word) = signed_take_bit 31 (int (unat m))" by (simp add: sint_uint u)
  also have "\<dots> = int (unat m)"
    using small of_nat_0_le_iff [of "unat m", where 'a = int] by (intro signed_take_bit_int_eq_self) linarith+
  finally have "sint (ucast m :: 32 word) = int (unat m)" .
  then show ?thesis using le by (simp only: of_nat_le_iff)
qed

lemma require_int_bounds:
  assumes "require_int dj v key lo hi context = Inr n" and "hi < 2 ^ 31"
  shows "int (unat lo) \<le> n \<and> n \<le> int (unat hi)"
proof -
  obtain m where m: "require_unsigned dj v key lo hi context = Inr m" "n = sint (ucast m :: 32 word)"
    using assms(1) by (auto simp: require_int_def checked_bind_def split: sum.splits)
  show ?thesis
    using require_unsigned_bounds [OF m(1)] assms(2) unfolding m(2) by (intro narrow_bounds) auto
qed

end
