(* ===== verification/Collector_Config.thy ===== *)
theory Collector_Config
  imports Config_Fields
begin

text \<open>
  The configuration of the collector and its strict loader (\<open>collector/collector_config.cpp\<close>). Every
  configuration that loads is within the limits the rest of the collector relies on.
\<close>

section \<open>The configuration\<close>

datatype seal_mode = Atomic_rename | Stable_window | Done_marker

record collector_device =
  cd_line_id :: string
  cd_station_id :: string
  cd_device_id :: string
  cd_collector_id :: string
  cd_input_dir :: string
  cd_secret_env :: string
  cd_secret :: string
  cd_seal_mode :: seal_mode

record retry_config =
  rc_max_backoff_steps :: int
  rc_base_delay_ms :: int
  rc_max_delay_ms :: int

record collector_config =
  kc_server_url :: string
  kc_spool_root :: string
  kc_scan_interval_ms :: int
  kc_stable_scan_count :: int
  kc_request_timeout_ms :: int
  kc_chunk_size_bytes :: u64
  kc_spool_max_bytes :: u64
  kc_spool_min_free_bytes :: u64
  kc_retry :: retry_config
  kc_devices :: "collector_device list"

section \<open>The loader\<close>

text \<open>\<open>exactKeys\<close> is \<^const>\<open>require_exact_keys\<close>.\<close>

definition text_field :: "'j ds_json \<Rightarrow> 'j \<Rightarrow> string \<Rightarrow> string \<Rightarrow> string checked" where
  "text_field dj v name context = checked_bind (config_member dj v name) (\<lambda>m. case jl_get_string dj m of
       None \<Rightarrow> Inl (context @ ''.'' @ name @ '' must be a non-empty string'')
     | Some s \<Rightarrow> if s = '''' then Inl (context @ ''.'' @ name @ '' must be a non-empty string'') else Inr s)"

definition unsigned_field :: "'j ds_json \<Rightarrow> 'j \<Rightarrow> string \<Rightarrow> u64 \<Rightarrow> u64 \<Rightarrow> string \<Rightarrow> u64 checked" where
  "unsigned_field dj v name minimum maximum context = checked_bind (config_member dj v name) (\<lambda>m.
     case jl_get_unsigned dj m of
       None \<Rightarrow> Inl (context @ ''.'' @ name @ '' must be unsigned'')
     | Some n \<Rightarrow> if n < minimum \<or> n > maximum then Inl (context @ ''.'' @ name @ '' is out of range'') else Inr n)"

definition int_field :: "'j ds_json \<Rightarrow> 'j \<Rightarrow> string \<Rightarrow> u64 \<Rightarrow> u64 \<Rightarrow> string \<Rightarrow> int checked" where
  "int_field dj v name minimum maximum context =
     checked_bind (unsigned_field dj v name minimum maximum context) (\<lambda>n. Inr (sint (ucast n :: 32 word)))"

definition parse_mode :: "string \<Rightarrow> seal_mode checked" where
  "parse_mode s =
     (if s = ''ATOMIC_RENAME'' then Inr Atomic_rename
      else if s = ''STABLE_WINDOW'' then Inr Stable_window
      else if s = ''DONE_MARKER'' then Inr Done_marker
      else Inl ''device.seal_mode is unsupported'')"

definition device_keys :: "string list" where
  "device_keys = [''line_id'', ''station_id'', ''device_id'', ''collector_id'', ''input_dir'', ''secret_env'', ''seal_mode'']"

definition load_device :: "'j ds_json \<Rightarrow> (string \<Rightarrow> string option) \<Rightarrow> string list \<Rightarrow> 'j \<Rightarrow> collector_device checked" where
  "load_device dj getenv device_ids item =
     require_exact_keys dj item device_keys ''device''
     (checked_bind (text_field dj item ''line_id'' ''device'') (\<lambda>line_id.
      checked_bind (text_field dj item ''station_id'' ''device'') (\<lambda>station_id.
      checked_bind (text_field dj item ''device_id'' ''device'') (\<lambda>device_id.
      checked_bind (text_field dj item ''collector_id'' ''device'') (\<lambda>collector_id.
      checked_bind (text_field dj item ''input_dir'' ''device'') (\<lambda>input_dir.
      checked_bind (text_field dj item ''secret_env'' ''device'') (\<lambda>secret_env.
      checked_bind (text_field dj item ''seal_mode'' ''device'') (\<lambda>mode.
      checked_bind (parse_mode mode) (\<lambda>seal_mode.
        let secret = (case getenv secret_env of None \<Rightarrow> '''' | Some s \<Rightarrow> s) in
        ensure (is_smt_identifier line_id \<and> is_smt_identifier station_id \<and> is_smt_identifier device_id \<and>
            is_smt_identifier collector_id \<and> secret \<noteq> '''' \<and> device_id \<notin> set device_ids)
          ''device mapping or secret environment is invalid''
          (Inr \<lparr>cd_line_id = line_id, cd_station_id = station_id, cd_device_id = device_id,
             cd_collector_id = collector_id, cd_input_dir = input_dir, cd_secret_env = secret_env,
             cd_secret = secret, cd_seal_mode = seal_mode\<rparr>))))))))))"

fun load_devices :: "'j ds_json \<Rightarrow> (string \<Rightarrow> string option) \<Rightarrow> string list \<Rightarrow> 'j list \<Rightarrow> collector_device list checked" where
  "load_devices dj getenv device_ids [] = Inr []"
| "load_devices dj getenv device_ids (item # items) =
     checked_bind (load_device dj getenv device_ids item) (\<lambda>device.
     checked_bind (load_devices dj getenv (cd_device_id device # device_ids) items) (\<lambda>devices. Inr (device # devices)))"

definition load_retry :: "'j ds_json \<Rightarrow> 'j \<Rightarrow> retry_config checked" where
  "load_retry dj retry =
     require_exact_keys dj retry [''max_backoff_steps'', ''base_delay_ms'', ''max_delay_ms''] ''retry''
     (checked_bind (int_field dj retry ''max_backoff_steps'' 1 100 ''retry'') (\<lambda>steps.
      checked_bind (int_field dj retry ''base_delay_ms'' 10 3600000 ''retry'') (\<lambda>base_delay.
      checked_bind (int_field dj retry ''max_delay_ms'' 10 (8 * 3600000) ''retry'') (\<lambda>max_delay.
        ensure (base_delay \<le> max_delay) ''retry delay limits are inconsistent''
          (Inr \<lparr>rc_max_backoff_steps = steps, rc_base_delay_ms = base_delay, rc_max_delay_ms = max_delay\<rparr>)))))"

definition collector_keys :: "string list" where
  "collector_keys = [''server_url'', ''spool_root'', ''scan_interval_ms'', ''stable_scan_count'', ''request_timeout_ms'',
     ''chunk_size_bytes'', ''spool_max_bytes'', ''spool_min_free_bytes'', ''retry'', ''devices'']"

text \<open>A URL with a slash after the host has one in the rest of the string after \<open>http://\<close>.\<close>

definition valid_server_url :: "string \<Rightarrow> bool" where
  "valid_server_url url \<longleftrightarrow> take 7 url = ''http://'' \<and> CHR ''/'' \<notin> set (drop 7 url)"

definition load_collector_config ::
    "'j ds_json \<Rightarrow> (string \<Rightarrow> string option) \<Rightarrow> string option \<Rightarrow> collector_config checked" where
  "load_collector_config dj getenv content = (case content of
       None \<Rightarrow> Inl ''cannot open collector config: ''
     | Some c \<Rightarrow> (case dj_read dj c of None \<Rightarrow> Inl ''invalid collector JSON: '' | Some json \<Rightarrow>
     require_exact_keys dj json collector_keys ''collector''
     (checked_bind (text_field dj json ''server_url'' ''collector'') (\<lambda>server_url.
      checked_bind (text_field dj json ''spool_root'' ''collector'') (\<lambda>spool_root.
      checked_bind (int_field dj json ''scan_interval_ms'' 50 60000 ''collector'') (\<lambda>scan_interval.
      checked_bind (int_field dj json ''stable_scan_count'' 2 20 ''collector'') (\<lambda>stable_scan_count.
      checked_bind (int_field dj json ''request_timeout_ms'' 100 60000 ''collector'') (\<lambda>request_timeout.
      checked_bind (unsigned_field dj json ''chunk_size_bytes'' 1024 (64 * 1024 * 1024) ''collector'') (\<lambda>chunk_size.
      checked_bind (unsigned_field dj json ''spool_max_bytes'' 1 (1024 * 1024 * 1024 * 1024) ''collector'') (\<lambda>max_bytes.
      checked_bind (unsigned_field dj json ''spool_min_free_bytes'' 0 (1024 * 1024 * 1024 * 1024) ''collector'') (\<lambda>min_free.
      ensure (valid_server_url server_url \<and> min_free < max_bytes) ''collector URL or spool limits are invalid''
     (checked_bind (config_member dj json ''retry'') (\<lambda>retry.
      checked_bind (load_retry dj retry) (\<lambda>retry_limits.
      checked_bind (config_member dj json ''devices'') (\<lambda>devices_json.
      case jl_elements dj devices_json of
        None \<Rightarrow> Inl ''devices must be a non-empty array''
      | Some items \<Rightarrow> ensure (items \<noteq> []) ''devices must be a non-empty array''
          (checked_bind (load_devices dj getenv [] items) (\<lambda>devices.
            Inr \<lparr>kc_server_url = server_url, kc_spool_root = spool_root, kc_scan_interval_ms = scan_interval,
               kc_stable_scan_count = stable_scan_count, kc_request_timeout_ms = request_timeout,
               kc_chunk_size_bytes = chunk_size, kc_spool_max_bytes = max_bytes, kc_spool_min_free_bytes = min_free,
               kc_retry = retry_limits, kc_devices = devices\<rparr>)))))))))))))))))"

section \<open>What a loaded configuration satisfies\<close>

definition retry_limits_ok :: "retry_config \<Rightarrow> bool" where
  "retry_limits_ok r \<longleftrightarrow> 1 \<le> rc_max_backoff_steps r \<and> rc_max_backoff_steps r \<le> 100 \<and> 10 \<le> rc_base_delay_ms r \<and>
     rc_base_delay_ms r \<le> rc_max_delay_ms r \<and> rc_max_delay_ms r \<le> 8 * 3600000"

definition device_ok :: "collector_device \<Rightarrow> bool" where
  "device_ok d \<longleftrightarrow> is_smt_identifier (cd_line_id d) \<and> is_smt_identifier (cd_station_id d) \<and>
     is_smt_identifier (cd_device_id d) \<and> is_smt_identifier (cd_collector_id d) \<and> cd_input_dir d \<noteq> '''' \<and> cd_secret d \<noteq> ''''"

definition collector_config_ok :: "collector_config \<Rightarrow> bool" where
  "collector_config_ok cfg \<longleftrightarrow> valid_server_url (kc_server_url cfg) \<and> kc_spool_root cfg \<noteq> '''' \<and>
     2 \<le> kc_stable_scan_count cfg \<and> 1024 \<le> kc_chunk_size_bytes cfg \<and> kc_chunk_size_bytes cfg \<le> 2 ^ 26 \<and>
     kc_spool_min_free_bytes cfg < kc_spool_max_bytes cfg \<and> retry_limits_ok (kc_retry cfg) \<and>
     kc_devices cfg \<noteq> [] \<and> list_all device_ok (kc_devices cfg) \<and> distinct (map cd_device_id (kc_devices cfg))"

lemma text_field_Inr [config_simps]:
  "text_field dj v name context = Inr s \<longleftrightarrow> string_member dj v name = Some s \<and> s \<noteq> ''''"
  by (auto simp: text_field_def config_member_def string_member_def checked_bind_def split: option.splits sum.splits)

lemma unsigned_field_bounds: "unsigned_field dj v name lo hi context = Inr n \<Longrightarrow> lo \<le> n \<and> n \<le> hi"
  by (auto simp: unsigned_field_def checked_bind_def split: sum.splits option.splits if_splits)

lemma int_field_bounds:
  assumes "int_field dj v name lo hi context = Inr n" and "hi < 2 ^ 31"
  shows "int (unat lo) \<le> n \<and> n \<le> int (unat hi)"
proof -
  obtain m where m: "unsigned_field dj v name lo hi context = Inr m" "n = sint (ucast m :: 32 word)"
    using assms(1) by (auto simp: int_field_def checked_bind_def split: sum.splits)
  show ?thesis
    using unsigned_field_bounds [OF m(1)] assms(2) unfolding m(2) by (intro narrow_bounds) auto
qed

lemma load_retry_ok:
  assumes "load_retry dj v = Inr r"
  shows "retry_limits_ok r"
proof -
  obtain n b m where fields: "int_field dj v ''max_backoff_steps'' 1 100 ''retry'' = Inr n"
    "int_field dj v ''base_delay_ms'' 10 3600000 ''retry'' = Inr b" "int_field dj v ''max_delay_ms'' 10 (8 * 3600000) ''retry'' = Inr m"
    and r: "b \<le> m" "r = \<lparr>rc_max_backoff_steps = n, rc_base_delay_ms = b, rc_max_delay_ms = m\<rparr>"
    using assms by (auto simp: load_retry_def config_simps)
  show ?thesis
    using int_field_bounds [OF fields(1)] int_field_bounds [OF fields(2)] int_field_bounds [OF fields(3)] r
    by (simp add: retry_limits_ok_def)
qed

lemma load_device_ok: "load_device dj getenv ids v = Inr d \<Longrightarrow> device_ok d \<and> cd_device_id d \<notin> set ids"
  by (auto simp: load_device_def config_simps device_ok_def Let_def)

lemma load_devices_ok: "load_devices dj getenv ids vs = Inr ds \<Longrightarrow>
    list_all device_ok ds \<and> distinct (map cd_device_id ds) \<and> set (map cd_device_id ds) \<inter> set ids = {} \<and> length ds = length vs"
proof (induction vs arbitrary: ids ds)
  case (Cons v vs)
  then obtain d es where d: "load_device dj getenv ids v = Inr d" "load_devices dj getenv (cd_device_id d # ids) vs = Inr es"
    "ds = d # es" by (auto simp: config_simps)
  from load_device_ok [OF d(1)] Cons.IH [OF d(2)] show ?case by (auto simp: d(3))
qed simp

lemma load_collector_config_ok: "load_collector_config dj getenv content = Inr cfg \<Longrightarrow> collector_config_ok cfg"
  by (auto simp: load_collector_config_def config_simps collector_config_ok_def split: option.splits
      dest!: load_retry_ok load_devices_ok unsigned_field_bounds int_field_bounds)

end
