(* ===== verification/Http_Uploader.thy ===== *)
theory Http_Uploader
  imports Spool_Store Collector_Config Upload_Model Device_Auth
begin

text \<open>
  The HTTP calls of the collector (\<open>collector/http_uploader.cpp\<close>): what is sent, signed how, and how an answer is
  classified. What the network returns is in the world: \<open>co_replies\<close> holds the status and body of each answer,
  \<open>None\<close> for a call that failed; the requests are kept in \<open>co_sent\<close>. The random source and the clock
  are those of the world too.
\<close>

section \<open>Results\<close>

datatype call_status = Call_success | Call_retryable | Call_session_missing | Call_permanent_failure

record call_result =
  cl_status :: call_status
  cl_error_code :: string
  cl_upload_id :: string
  cl_chunk_size :: u64
  cl_chunk_count :: u64
  cl_missing_chunks :: "u64 list"
  cl_archive_id :: u64

definition empty_result :: "call_status \<Rightarrow> string \<Rightarrow> call_result" where
  "empty_result status code = \<lparr>cl_status = status, cl_error_code = code, cl_upload_id = '''', cl_chunk_size = 0,
     cl_chunk_count = 0, cl_missing_chunks = [], cl_archive_id = 0\<rparr>"

section \<open>Requests\<close>

definition advance_co_clock :: "'w collector_world_scheme \<Rightarrow> 'w collector_world_scheme" where
  "advance_co_clock w = (case co_ticks w of
       [] \<Rightarrow> w
     | d # ds \<Rightarrow> w\<lparr>co_clock := co_clock w + int d, co_ticks := ds\<rparr>)"

definition now_milliseconds :: "('w collector_world_scheme, 'e, int) proc" where
  "now_milliseconds = seq (modify advance_co_clock) (gets co_clock)"

definition now_seconds :: "('w collector_world_scheme, 'e, int) proc" where
  "now_seconds = bind now_milliseconds (\<lambda>ms. ret (unix_seconds ms))"

definition collector_uuid :: "('w collector_world_scheme, spool_error, string) proc" where
  "collector_uuid w = (case co_random w of
       Some bytes # rs \<Rightarrow> (Ret (uuid_of_bytes bytes), w\<lparr>co_random := rs\<rparr>)
     | [] \<Rightarrow> (Throw Random_failure, w)
     | None # rs \<Rightarrow> (Throw Random_failure, w\<lparr>co_random := rs\<rparr>))"

text \<open>The values it is given are digests in lower case, of which \<open>strtoul\<close> reads two digits at a time.\<close>

definition hex_to_binary :: "string \<Rightarrow> string" where
  "hex_to_binary digest = hex_pairs digest"

definition device_secret :: "crypto \<Rightarrow> collector_device \<Rightarrow> string" where
  "device_secret cr device = hex_to_binary (sha256_hex cr (cd_secret device))"

text \<open>The request of which the header \<open>Content-Type\<close> tells the server whether the body is JSON or bytes.\<close>

definition signed_request ::
    "crypto \<Rightarrow> string \<Rightarrow> int \<Rightarrow> string \<Rightarrow> string \<Rightarrow> string \<Rightarrow> string \<Rightarrow> collector_device \<Rightarrow> http_request" where
  "signed_request cr uuid now meth path content_type body device =
     (let request_id = ''col-'' @ uuid; timestamp = int_to_string now; digest = sha256_hex cr body;
          canonical = canonical_string meth path (cd_device_id device) timestamp request_id digest;
          signature = hmac_sha256_hex cr (device_secret cr device) canonical
      in \<lparr>rq_method = meth, rq_path = path,
          rq_headers = [(''X-Device-Id'', cd_device_id device), (''X-Timestamp'', timestamp),
             (''X-Request-Id'', request_id), (''X-Content-SHA256'', digest), (''X-Signature'', signature)] @
             (if content_type \<noteq> '''' then [(''Content-Type'', content_type)] else []),
          rq_body = body, rq_params = [], rq_json = (content_type = ''application/json''),
          rq_octet_stream = (content_type = ''application/octet-stream''), rq_query = []\<rparr>)"

definition next_reply :: "('w collector_world_scheme, 'e, (nat \<times> string) option) proc" where
  "next_reply w = (case co_replies w of
       [] \<Rightarrow> (Ret None, w)
     | r # rs \<Rightarrow> (Ret r, w\<lparr>co_replies := rs\<rparr>))"

definition exchange :: "http_request \<Rightarrow> ('w collector_world_scheme, 'e, (nat \<times> string) option) proc" where
  "exchange rq = seq (modify (\<lambda>w. w\<lparr>co_sent := co_sent w @ [rq]\<rparr>))
     (bind attempt_call (\<lambda>ok. bind next_reply (\<lambda>r. ret (if ok then r else None))))"

definition unsigned_or_zero :: "'j ds_json \<Rightarrow> 'j \<Rightarrow> string \<Rightarrow> u64" where
  "unsigned_or_zero dj v key = (case unsigned_member dj v key of None \<Rightarrow> 0 | Some n \<Rightarrow> n)"

text \<open>A set of chunk numbers, iterated in ascending order.\<close>

definition chunk_set :: "u64 list \<Rightarrow> u64 list" where
  "chunk_set ns = sort (remdups ns)"

definition success_result :: "'j ds_json \<Rightarrow> string \<Rightarrow> 'j \<Rightarrow> call_result" where
  "success_result dj code data =
     (let filled = \<lparr>cl_status = Call_success, cl_error_code = code,
          cl_upload_id = (case string_member dj data ''upload_id'' of None \<Rightarrow> '''' | Some s \<Rightarrow> s),
          cl_chunk_size = unsigned_or_zero dj data ''chunk_size'', cl_chunk_count = unsigned_or_zero dj data ''chunk_count'',
          cl_missing_chunks = [], cl_archive_id = unsigned_or_zero dj data ''archive_id''\<rparr>
      in case Option.bind (jl_at dj data ''missing_chunks'') (jl_elements dj) of
          None \<Rightarrow> filled
        | Some items \<Rightarrow> (case those (map (jl_get_unsigned dj) items) of
              None \<Rightarrow> empty_result Call_permanent_failure ''INVALID_SERVER_RESPONSE''
            | Some chunks \<Rightarrow> filled\<lparr>cl_missing_chunks := chunk_set chunks\<rparr>))"

definition classify_reply :: "'j ds_json \<Rightarrow> (nat \<times> string) option \<Rightarrow> call_result" where
  "classify_reply dj reply =
     (let invalid = empty_result Call_permanent_failure ''INVALID_SERVER_RESPONSE'' in
      case reply of
        None \<Rightarrow> empty_result Call_retryable ''NETWORK_ERROR''
      | Some (status, body) \<Rightarrow> (case jl_parse dj body of
            None \<Rightarrow> invalid
          | Some json \<Rightarrow> (case (if jl_keys dj json = None then None else string_member dj json ''code'', jl_at dj json ''data'') of
                (Some code, Some data) \<Rightarrow>
                  if status \<ge> 500 \<or> code = ''UPLOAD_LIMIT_EXCEEDED'' \<or> code = ''CHUNKS_INCOMPLETE''
                  then empty_result Call_retryable code
                  else if status = 404 \<and> code = ''UPLOAD_NOT_FOUND'' then empty_result Call_session_missing code
                  else if status < 200 \<or> status \<ge> 300 then empty_result Call_permanent_failure code
                  else if jl_keys dj data = None then invalid
                  else success_result dj code data
              | _ \<Rightarrow> invalid)))"

definition http_call ::
    "'j ds_json \<Rightarrow> crypto \<Rightarrow> string \<Rightarrow> string \<Rightarrow> string \<Rightarrow> string \<Rightarrow> collector_device \<Rightarrow>
     ('w collector_world_scheme, spool_error, call_result) proc" where
  "http_call dj cr meth path content_type body device =
     bind collector_uuid (\<lambda>uuid. bind now_seconds (\<lambda>now.
     bind (exchange (signed_request cr uuid now meth path content_type body device)) (\<lambda>reply.
       ret (classify_reply dj reply))))"

section \<open>The four calls\<close>

definition session_body :: "'j ds_json \<Rightarrow> collector_task \<Rightarrow> 'j" where
  "session_body dj t = jl_object dj
     [(''station_id'', jl_string dj (ct_station_id t)), (''collector_id'', jl_string dj (ct_collector_id t)),
      (''work_order'', nullable_json dj (ct_work_order t)), (''product_sn'', nullable_json dj (ct_product_sn t)),
      (''file_type'', jl_string dj (ct_file_type t)), (''result'', nullable_json dj (ct_result t)),
      (''original_filename'', jl_string dj (ct_original_filename t)), (''file_size'', jl_unsigned dj (ct_file_size t)),
      (''file_sha256'', jl_string dj (ct_file_sha256 t)), (''chunk_size'', jl_unsigned dj (ct_chunk_size t)),
      (''produced_at'', jl_string dj (ct_produced_at t))]"

definition create_session ::
    "'j ds_json \<Rightarrow> crypto \<Rightarrow> collector_task \<Rightarrow> collector_device \<Rightarrow> ('w collector_world_scheme, spool_error, call_result) proc" where
  "create_session dj cr t device =
     (if \<not> dj_dumps dj (session_body dj t) then throw Json_failure
      else bind (http_call dj cr ''POST'' ''/api/v1/uploads'' ''application/json'' (jl_dump dj (session_body dj t)) device) (\<lambda>r.
        ret (if cl_status r = Call_success \<and> (cl_upload_id r = '''' \<or> cl_chunk_size r = 0 \<or> cl_chunk_count r = 0)
             then empty_result Call_permanent_failure ''INVALID_SERVER_RESPONSE'' else r)))"

definition query_progress ::
    "'j ds_json \<Rightarrow> crypto \<Rightarrow> collector_task \<Rightarrow> collector_device \<Rightarrow> ('w collector_world_scheme, spool_error, call_result) proc" where
  "query_progress dj cr t device =
     bind (http_call dj cr ''GET'' (''/api/v1/uploads/'' @ ct_upload_id t) '''' '''' device) (\<lambda>r.
       ret (if cl_status r = Call_success \<and> cl_chunk_count r \<noteq> ct_chunk_count t
            then empty_result Call_permanent_failure ''INVALID_SERVER_RESPONSE'' else r))"

text \<open>Where a chunk starts and how long it is; both sums are of 64 bits.\<close>

definition chunk_offset :: "collector_task \<Rightarrow> u64 \<Rightarrow> u64" where
  "chunk_offset t chunk_no = chunk_no * ct_chunk_size t"

definition chunk_bytes :: "collector_task \<Rightarrow> u64 \<Rightarrow> u64" where
  "chunk_bytes t chunk_no = min (ct_chunk_size t) (ct_file_size t - chunk_offset t chunk_no)"

text \<open>
  The \<open>pread\<close> calls for \<open>n\<close> bytes of the content \<open>c\<close> from position \<open>offset\<close>. Past the end the last read
  gives nothing, so that the chunk cannot be read whatever its outcome.
\<close>

definition read_exactly :: "string \<Rightarrow> nat \<Rightarrow> nat \<Rightarrow> ('w store_state_scheme, 'e, bool) proc" where
  "read_exactly c offset n s = (case transfer_loop (min n (length c - offset)) (st_events s) of
     (r, _, es) \<Rightarrow> (case r of
         Transferred \<Rightarrow>
           (if n \<le> length c - offset then ret True else bind attempt_call (\<lambda>_. ret False)) (s\<lparr>st_events := es\<rparr>)
       | Transfer_failed \<Rightarrow> (Ret False, s\<lparr>st_events := es\<rparr>)
       | Transfer_crashed \<Rightarrow> (Crashed, s\<lparr>st_events := es\<rparr>)))"

definition read_chunk :: "collector_task \<Rightarrow> u64 \<Rightarrow> ('w store_state_scheme, 'e, string option) proc" where
  "read_chunk t chunk_no =
     (let offset = unat (chunk_offset t chunk_no); n = unat (chunk_bytes t chunk_no); p = path_of (ct_payload_path t) in
      bind attempt_call (\<lambda>opened. bind (gets (\<lambda>s. node_at s p)) (\<lambda>nd.
        case (if opened then nd else None) of
          Some (File c) \<Rightarrow> bind (read_exactly c offset n) (\<lambda>done.
            bind (if done then attempt_call else ret False) (\<lambda>closed.
              ret (if closed then Some (take n (drop offset c)) else None)))
        | _ \<Rightarrow> ret None)))"

definition upload_chunk ::
    "'j ds_json \<Rightarrow> crypto \<Rightarrow> collector_task \<Rightarrow> collector_device \<Rightarrow> u64 \<Rightarrow>
     ('w collector_world_scheme, spool_error, call_result) proc" where
  "upload_chunk dj cr t device chunk_no = bind (read_chunk t chunk_no) (\<lambda>body. case body of
       None \<Rightarrow> ret (empty_result Call_permanent_failure ''LOCAL_PAYLOAD_IO_ERROR'')
     | Some bytes \<Rightarrow> http_call dj cr ''PUT''
         (''/api/v1/uploads/'' @ ct_upload_id t @ ''/chunks/'' @ to_string (unat chunk_no)) ''application/octet-stream'' bytes device)"

definition complete_upload ::
    "'j ds_json \<Rightarrow> crypto \<Rightarrow> collector_task \<Rightarrow> collector_device \<Rightarrow> ('w collector_world_scheme, spool_error, call_result) proc" where
  "complete_upload dj cr t device =
     bind (http_call dj cr ''POST'' (''/api/v1/uploads/'' @ ct_upload_id t @ ''/complete'') '''' '''' device) (\<lambda>r.
       ret (if cl_status r = Call_success \<and> cl_archive_id r = 0
            then empty_result Call_permanent_failure ''INVALID_SERVER_RESPONSE'' else r))"

end
