(* ===== verification/Collector_App.thy ===== *)
theory Collector_App
  imports Http_Uploader
begin

text \<open>
  The collector itself (\<open>collector/collector_app.cpp\<close>): scanning the input directories, sealing, snapshots,
  and the state machine that uploads a task. \<open>tasks_\<close>, \<open>observations_\<close> and \<open>stable_counts_\<close> are
  ordered association lists of the world, and so are the modification times of the input files. What the
  devices do to their directories between two calls is the function \<open>other\<close>, applied wherever a scan
  depends on a file staying as it is. Lines written to the error stream are left out.
\<close>

section \<open>Files\<close>

definition interfere :: "('s \<Rightarrow> 's) \<Rightarrow> ('s, 'e, unit) proc" where
  "interfere other = modify other"

text \<open>The \<open>read\<close> calls over the content \<open>c\<close>, the last of which gives nothing; \<open>False\<close> when one failed.\<close>

definition read_to_end :: "string \<Rightarrow> ('w store_state_scheme, 'e, bool) proc" where
  "read_to_end c s = (case transfer_loop (length c) (st_events s) of
     (r, _, es) \<Rightarrow> (case r of
         Transferred \<Rightarrow> attempt_call (s\<lparr>st_events := es\<rparr>)
       | Transfer_failed \<Rightarrow> (Ret False, s\<lparr>st_events := es\<rparr>)
       | Transfer_crashed \<Rightarrow> (Crashed, s\<lparr>st_events := es\<rparr>)))"

definition hash_file :: "crypto \<Rightarrow> string \<Rightarrow> ('w store_state_scheme, spool_error, string) proc" where
  "hash_file cr path = bind attempt_call (\<lambda>opened. bind (gets (\<lambda>s. node_at s (path_of path))) (\<lambda>n.
     case (if opened then n else None) of
       None \<Rightarrow> throw (Spool_error ''cannot open payload for hashing'')
     | Some Dir \<Rightarrow> throw (Spool_error ''cannot hash payload'')
     | Some (File c) \<Rightarrow> bind (read_to_end c) (\<lambda>done.
         if \<not> done then throw (Spool_error ''cannot hash payload'')
         else bind attempt_call (\<lambda>closed.
           if \<not> closed then throw (Spool_error ''cannot close payload after hashing'') else ret (sha256_hex cr c)))))"

definition find_device :: "collector_config \<Rightarrow> string \<Rightarrow> collector_device option" where
  "find_device cfg device_id = find (\<lambda>d. cd_device_id d = device_id) (kc_devices cfg)"

definition suffix :: "string \<Rightarrow> string \<Rightarrow> bool" where
  "suffix value ending \<longleftrightarrow> length ending \<le> length value \<and> drop (length value - length ending) value = ending"

text \<open>The size and modification time of a regular file; the time of a file is not that of another kind of node.\<close>

definition stat_file :: "string \<Rightarrow> ('w collector_world_scheme, 'e, (u64 \<times> int) option) proc" where
  "stat_file path = bind attempt_call (\<lambda>ok. bind (gets (\<lambda>w. (node_at w (path_of path), map_of (co_mtimes w) (path_of path)))) (\<lambda>(n, m).
     ret (case (if ok then n else None) of
       Some (File c) \<Rightarrow> Some (word_of_nat (length c), case m of None \<Rightarrow> 0 | Some t \<Rightarrow> t)
     | _ \<Rightarrow> None)))"

definition accessible :: "string \<Rightarrow> ('w store_state_scheme, 'e, bool) proc" where
  "accessible path = bind attempt_call (\<lambda>ok. bind (gets (\<lambda>s. node_at s (path_of path))) (\<lambda>n. ret (ok \<and> n \<noteq> None)))"

section \<open>New tasks\<close>

definition sidecar_fields :: "string list" where
  "sidecar_fields = [''work_order'', ''product_sn'', ''file_type'', ''result'', ''produced_at'']"

text \<open>The part of the path after the last slash.\<close>

definition last_part :: "string \<Rightarrow> string" where
  "last_part path = rev (takeWhile (\<lambda>c. c \<noteq> CHR ''/'') (rev path))"

definition text_or_empty :: "string option \<Rightarrow> string" where
  "text_or_empty s = (case s of None \<Rightarrow> '''' | Some t \<Rightarrow> t)"

text \<open>The configured chunk size is never zero (\<open>collector_config_ok\<close>); the division by zero of the model gives zero.\<close>

definition metadata_task ::
    "'j ds_json \<Rightarrow> string \<Rightarrow> collector_device \<Rightarrow> u64 \<Rightarrow> int \<Rightarrow> u64 \<Rightarrow> ('w store_state_scheme, spool_error, collector_task) proc" where
  "metadata_task dj path device bytes mtime chunk_size =
     bind (read_content (path_of (path @ ''.meta.json''))) (\<lambda>content.
     case Option.bind content (dj_read dj) of
       None \<Rightarrow> throw (Spool_error ''invalid device sidecar: '')
     | Some metadata \<Rightarrow>
       if jl_keys dj metadata = None \<or> jl_size dj metadata \<noteq> Some (length sidecar_fields)
       then throw (Spool_error ''device sidecar fields do not match contract'')
       else if \<not> exact_fields dj sidecar_fields metadata then throw (Spool_error ''device sidecar has unknown field'')
       else (case (nullable_member dj metadata ''work_order'', nullable_member dj metadata ''product_sn'',
             string_member dj metadata ''file_type'', nullable_member dj metadata ''result'',
             string_member dj metadata ''produced_at'') of
           (Some work_order, Some product_sn, Some file_type, Some product_result, Some produced_at) \<Rightarrow>
             if file_type = '''' \<or> last_part path = '''' \<or> parse_iso8601_milliseconds produced_at = None
             then throw (Spool_error ''device sidecar values are invalid'')
             else ret \<lparr>ct_task_id = '''', ct_source_path = path, ct_payload_path = '''', ct_line_id = cd_line_id device,
               ct_station_id = cd_station_id device, ct_device_id = cd_device_id device,
               ct_collector_id = cd_collector_id device, ct_work_order = text_or_empty work_order,
               ct_product_sn = text_or_empty product_sn, ct_file_type = file_type,
               ct_result = text_or_empty product_result, ct_original_filename = last_part path,
               ct_produced_at = produced_at, ct_file_size = bytes, ct_source_mtime_ns = mtime, ct_file_sha256 = '''',
               ct_state = Discovered, ct_upload_id = '''', ct_chunk_size = chunk_size,
               ct_chunk_count = (bytes + chunk_size - 1) div chunk_size, ct_retry_attempts = 0,
               ct_next_attempt_milliseconds = 0, ct_last_error = '''', ct_archive_id = 0\<rparr>
         | _ \<Rightarrow> throw (Spool_error ''device sidecar field type is invalid'')))"

definition short_task_id :: "crypto \<Rightarrow> string \<Rightarrow> collector_device \<Rightarrow> int \<Rightarrow> string" where
  "short_task_id cr path device mtime = sha256_hex cr (path @ cd_device_id device @ int_to_string mtime)"

definition full_task_id :: "crypto \<Rightarrow> string \<Rightarrow> collector_device \<Rightarrow> u64 \<Rightarrow> int \<Rightarrow> string \<Rightarrow> string" where
  "full_task_id cr path device bytes mtime digest =
     sha256_hex cr (path @ [CHR 0x0A] @ cd_device_id device @ [CHR 0x0A] @ to_string (unat bytes) @ [CHR 0x0A] @
       int_to_string mtime @ [CHR 0x0A] @ digest)"

text \<open>The task kept for a file whose sidecar is refused.\<close>

definition refused_task :: "crypto \<Rightarrow> spool_store \<Rightarrow> string \<Rightarrow> collector_device \<Rightarrow> u64 \<Rightarrow> int \<Rightarrow> u64 \<Rightarrow> string \<Rightarrow> collector_task" where
  "refused_task cr sl path device bytes mtime chunk_size message =
     (let task_id = short_task_id cr path device mtime in
      \<lparr>ct_task_id = task_id, ct_source_path = path, ct_payload_path = payload_path sl task_id,
       ct_line_id = cd_line_id device, ct_station_id = cd_station_id device, ct_device_id = cd_device_id device,
       ct_collector_id = cd_collector_id device, ct_work_order = '''', ct_product_sn = '''', ct_file_type = '''',
       ct_result = '''', ct_original_filename = '''', ct_produced_at = '''', ct_file_size = bytes,
       ct_source_mtime_ns = mtime, ct_file_sha256 = '''', ct_state = Task_failed, ct_upload_id = '''',
       ct_chunk_size = chunk_size, ct_chunk_count = 0, ct_retry_attempts = 0, ct_next_attempt_milliseconds = 0,
       ct_last_error = message, ct_archive_id = 0\<rparr>)"

section \<open>Tasks\<close>

text \<open>A change of a task of the map: in memory first, then in its file.\<close>

definition put_task :: "collector_task \<Rightarrow> ('w collector_world_scheme, 'e, unit) proc" where
  "put_task t = modify (\<lambda>w. w\<lparr>co_tasks := map_put (ct_task_id t) t (co_tasks w)\<rparr>)"

definition store_task :: "'j ds_json \<Rightarrow> spool_store \<Rightarrow> collector_task \<Rightarrow> ('w collector_world_scheme, spool_error, unit) proc" where
  "store_task dj sl t = seq (put_task t) (spool_save dj sl t)"

definition fail_task ::
    "'j ds_json \<Rightarrow> spool_store \<Rightarrow> collector_task \<Rightarrow> string \<Rightarrow> ('w collector_world_scheme, spool_error, unit) proc" where
  "fail_task dj sl t code =
     store_task dj sl (t\<lparr>ct_state := Task_failed, ct_last_error := code, ct_next_attempt_milliseconds := 0\<rparr>)"

text \<open>The delay after \<open>n\<close> further attempts.\<close>

fun backoff_delay :: "retry_config \<Rightarrow> nat \<Rightarrow> int" where
  "backoff_delay rc 0 = rc_base_delay_ms rc"
| "backoff_delay rc (Suc n) = min (backoff_delay rc n * 2) (rc_max_delay_ms rc)"

definition retry_task :: "retry_config \<Rightarrow> collector_task \<Rightarrow> string \<Rightarrow> int \<Rightarrow> collector_task" where
  "retry_task rc t code now =
     (let attempts = min (ct_retry_attempts t + 1) (rc_max_backoff_steps rc)
      in t\<lparr>ct_retry_attempts := attempts,
           ct_next_attempt_milliseconds := now + backoff_delay rc (nat (attempts - 1)), ct_last_error := code\<rparr>)"

definition schedule_retry ::
    "'j ds_json \<Rightarrow> spool_store \<Rightarrow> retry_config \<Rightarrow> collector_task \<Rightarrow> string \<Rightarrow> ('w collector_world_scheme, spool_error, unit) proc" where
  "schedule_retry dj sl rc t code = bind now_milliseconds (\<lambda>now. store_task dj sl (retry_task rc t code now))"

section \<open>Uploading\<close>

text \<open>The result of the last call, after the missing chunks or the first that failed.\<close>

fun upload_chunks ::
    "'j ds_json \<Rightarrow> crypto \<Rightarrow> collector_task \<Rightarrow> collector_device \<Rightarrow> call_result \<Rightarrow> u64 list \<Rightarrow>
     ('w collector_world_scheme, spool_error, call_result) proc" where
  "upload_chunks dj cr t device progress [] = ret progress"
| "upload_chunks dj cr t device progress (chunk # chunks) = bind (upload_chunk dj cr t device chunk) (\<lambda>uploaded.
     if cl_status uploaded \<noteq> Call_success then ret uploaded else upload_chunks dj cr t device progress chunks)"

definition session_lost :: "collector_task \<Rightarrow> collector_task" where
  "session_lost t = t\<lparr>ct_upload_id := '''', ct_state := Ready, ct_retry_attempts := 0, ct_last_error := ''UPLOAD_SESSION_LOST''\<rparr>"

definition give_up ::
    "'j ds_json \<Rightarrow> spool_store \<Rightarrow> retry_config \<Rightarrow> collector_task \<Rightarrow> call_result \<Rightarrow> ('w collector_world_scheme, spool_error, unit) proc" where
  "give_up dj sl rc t result =
     (if cl_status result = Call_retryable then schedule_retry dj sl rc t (cl_error_code result)
      else fail_task dj sl t (cl_error_code result))"

definition process_ready ::
    "'j ds_json \<Rightarrow> crypto \<Rightarrow> spool_store \<Rightarrow> retry_config \<Rightarrow> collector_task \<Rightarrow> collector_device \<Rightarrow>
     ('w collector_world_scheme, spool_error, unit) proc" where
  "process_ready dj cr sl rc t device = bind (create_session dj cr t device) (\<lambda>result.
     if cl_status result = Call_success
     then store_task dj sl (t\<lparr>ct_upload_id := cl_upload_id result, ct_chunk_size := cl_chunk_size result,
       ct_chunk_count := cl_chunk_count result, ct_state := Uploading, ct_retry_attempts := 0,
       ct_next_attempt_milliseconds := 0, ct_last_error := ''''\<rparr>)
     else give_up dj sl rc t result)"

definition process_uploading ::
    "'j ds_json \<Rightarrow> crypto \<Rightarrow> spool_store \<Rightarrow> retry_config \<Rightarrow> collector_task \<Rightarrow> collector_device \<Rightarrow>
     ('w collector_world_scheme, spool_error, unit) proc" where
  "process_uploading dj cr sl rc t device = bind (query_progress dj cr t device) (\<lambda>progress.
     if cl_status progress = Call_session_missing then store_task dj sl (session_lost t)
     else bind (if cl_status progress = Call_success
         then upload_chunks dj cr t device progress (cl_missing_chunks progress) else ret progress) (\<lambda>result.
       if cl_status result = Call_success
       then store_task dj sl (t\<lparr>ct_state := Completing, ct_retry_attempts := 0, ct_last_error := ''''\<rparr>)
       else give_up dj sl rc t result))"

definition process_completing ::
    "'j ds_json \<Rightarrow> crypto \<Rightarrow> spool_store \<Rightarrow> retry_config \<Rightarrow> collector_task \<Rightarrow> collector_device \<Rightarrow>
     ('w collector_world_scheme, spool_error, unit) proc" where
  "process_completing dj cr sl rc t device = bind (complete_upload dj cr t device) (\<lambda>result.
     if cl_status result = Call_session_missing then store_task dj sl (session_lost t)
     else if cl_status result = Call_success
     then (let archived = t\<lparr>ct_state := Done, ct_archive_id := cl_archive_id result, ct_retry_attempts := 0,
             ct_next_attempt_milliseconds := 0, ct_last_error := ''''\<rparr>
           in seq (store_task dj sl archived) (remove_payload sl archived))
     else give_up dj sl rc t result)"

definition process_task ::
    "'j ds_json \<Rightarrow> crypto \<Rightarrow> collector_config \<Rightarrow> spool_store \<Rightarrow> collector_task \<Rightarrow>
     ('w collector_world_scheme, spool_error, unit) proc" where
  "process_task dj cr cfg sl t = (case find_device cfg (ct_device_id t) of
       None \<Rightarrow> fail_task dj sl t ''DEVICE_CONFIG_MISSING''
     | Some device \<Rightarrow> (case ct_state t of
           Ready \<Rightarrow> process_ready dj cr sl (kc_retry cfg) t device
         | Uploading \<Rightarrow> process_uploading dj cr sl (kc_retry cfg) t device
         | Completing \<Rightarrow> process_completing dj cr sl (kc_retry cfg) t device
         | _ \<Rightarrow> ret ()))"

fun process_each ::
    "'j ds_json \<Rightarrow> crypto \<Rightarrow> collector_config \<Rightarrow> spool_store \<Rightarrow> int \<Rightarrow> (string \<times> collector_task) list \<Rightarrow>
     ('w collector_world_scheme, spool_error, unit) proc" where
  "process_each dj cr cfg sl now [] = ret ()"
| "process_each dj cr cfg sl now ((task_id, t) # tasks) =
     seq (if ct_state t \<noteq> Done \<and> ct_state t \<noteq> Task_failed \<and> ct_next_attempt_milliseconds t \<le> now
          then process_task dj cr cfg sl t else ret ())
       (process_each dj cr cfg sl now tasks)"

definition process_tasks ::
    "'j ds_json \<Rightarrow> crypto \<Rightarrow> collector_config \<Rightarrow> spool_store \<Rightarrow> ('w collector_world_scheme, spool_error, unit) proc" where
  "process_tasks dj cr cfg sl = bind now_milliseconds (\<lambda>now. bind (gets co_tasks) (process_each dj cr cfg sl now))"

section \<open>Scanning\<close>

definition ignored_name :: "string \<Rightarrow> bool" where
  "ignored_name name \<longleftrightarrow> name = '''' \<or> hd name = CHR ''.'' \<or> suffix name ''.meta.json'' \<or> suffix name ''.done'' \<or>
     suffix name ''.tmp'' \<or> suffix name ''.part''"

definition stable_count :: "string \<Rightarrow> 'w collector_world_scheme \<Rightarrow> int" where
  "stable_count path w = (case map_of (co_stable_counts w) path of None \<Rightarrow> 0 | Some n \<Rightarrow> n)"

text \<open>How often in a row the file was seen with this size and time.\<close>

definition observe :: "string \<Rightarrow> u64 \<Rightarrow> int \<Rightarrow> ('w collector_world_scheme, 'e, unit) proc" where
  "observe path bytes mtime = modify (\<lambda>w.
     if map_of (co_observations w) path = Some (bytes, mtime)
     then w\<lparr>co_stable_counts := map_put path (stable_count path w + 1) (co_stable_counts w)\<rparr>
     else w\<lparr>co_observations := map_put path (bytes, mtime) (co_observations w),
            co_stable_counts := map_put path 1 (co_stable_counts w)\<rparr>)"

definition sealed :: "collector_config \<Rightarrow> collector_device \<Rightarrow> string \<Rightarrow> ('w collector_world_scheme, 'e, bool) proc" where
  "sealed cfg device path = (case cd_seal_mode device of
       Atomic_rename \<Rightarrow> ret True
     | Stable_window \<Rightarrow> gets (\<lambda>w. stable_count path w \<ge> kc_stable_scan_count cfg)
     | Done_marker \<Rightarrow> accessible (path @ ''.done''))"

text \<open>The first task of the path that decides: one of the same file, or an unfinished one of another content.\<close>

datatype path_task = No_task | Same_task | Changed_task collector_task

fun find_path_task :: "string \<Rightarrow> u64 \<Rightarrow> int \<Rightarrow> (string \<times> collector_task) list \<Rightarrow> path_task" where
  "find_path_task path bytes mtime [] = No_task"
| "find_path_task path bytes mtime ((task_id, t) # tasks) =
     (if ct_source_path t \<noteq> path then find_path_task path bytes mtime tasks
      else if ct_file_size t = bytes \<and> ct_source_mtime_ns t = mtime then Same_task
      else if ct_state t \<noteq> Done \<and> ct_state t \<noteq> Task_failed then Changed_task t
      else find_path_task path bytes mtime tasks)"

text \<open>\<open>catch (const SpoolError&)\<close>: other exceptions pass.\<close>

definition catch_spool :: "('s, spool_error, 'a) proc \<Rightarrow> ('s, spool_error, string + 'a) proc" where
  "catch_spool m s = (case m s of
       (Ret x, t) \<Rightarrow> (Ret (Inr x), t)
     | (Throw (Spool_error message), t) \<Rightarrow> (Ret (Inl message), t)
     | (Throw e, t) \<Rightarrow> (Throw e, t)
     | (Crashed, t) \<Rightarrow> (Crashed, t))"

definition verified_snapshot ::
    "crypto \<Rightarrow> spool_store \<Rightarrow> string \<Rightarrow> string \<Rightarrow> u64 \<Rightarrow> string \<Rightarrow> ('w collector_world_scheme, spool_error, string) proc" where
  "verified_snapshot cr sl path task_id bytes digest =
     bind (spool_snapshot sl path task_id bytes) (\<lambda>payload. bind (hash_file cr payload) (\<lambda>copied.
       if copied \<noteq> digest then throw (Spool_error ''source changed while creating spool snapshot'') else ret payload))"

definition take_snapshot ::
    "'j ds_json \<Rightarrow> crypto \<Rightarrow> spool_store \<Rightarrow> ('w collector_world_scheme \<Rightarrow> 'w collector_world_scheme) \<Rightarrow> collector_device \<Rightarrow>
     collector_task \<Rightarrow> ('w collector_world_scheme, spool_error, unit) proc" where
  "take_snapshot dj cr sl other device t =
     (let path = ct_source_path t; bytes = ct_file_size t in
      bind (hash_file cr path) (\<lambda>digest.
      let task_id = full_task_id cr path device bytes (ct_source_mtime_ns t) digest;
          u = t\<lparr>ct_file_sha256 := digest, ct_task_id := task_id\<rparr> in
      bind (gets (\<lambda>w. map_of (co_tasks w) task_id)) (\<lambda>known.
      if known \<noteq> None then ret ()
      else seq (interfere other)
       (bind (catch_spool (verified_snapshot cr sl path task_id bytes digest)) (\<lambda>r. case r of
          Inl message \<Rightarrow>
            if message = ''spool capacity limit was exceeded'' then ret ()
            else store_task dj sl (u\<lparr>ct_payload_path := payload_path sl task_id, ct_state := Task_failed, ct_last_error := message\<rparr>)
        | Inr payload \<Rightarrow> store_task dj sl (u\<lparr>ct_payload_path := payload, ct_state := Ready\<rparr>))))))"

definition accept_file ::
    "'j ds_json \<Rightarrow> crypto \<Rightarrow> collector_config \<Rightarrow> spool_store \<Rightarrow> ('w collector_world_scheme \<Rightarrow> 'w collector_world_scheme) \<Rightarrow>
     collector_device \<Rightarrow> string \<Rightarrow> u64 \<Rightarrow> int \<Rightarrow> ('w collector_world_scheme, spool_error, unit) proc" where
  "accept_file dj cr cfg sl other device path bytes mtime =
     bind (catch_spool (metadata_task dj path device bytes mtime (kc_chunk_size_bytes cfg))) (\<lambda>r. case r of
       Inl message \<Rightarrow> store_task dj sl (refused_task cr sl path device bytes mtime (kc_chunk_size_bytes cfg) message)
     | Inr t \<Rightarrow>
         if bytes = 0
         then (let task_id = short_task_id cr path device mtime in
           store_task dj sl (t\<lparr>ct_file_sha256 := sha256_hex cr '''', ct_task_id := task_id,
             ct_payload_path := payload_path sl task_id, ct_state := Task_failed, ct_last_error := ''ZERO_LENGTH_FILE''\<rparr>))
         else seq (interfere other) (take_snapshot dj cr sl other device t))"

definition scan_entry ::
    "'j ds_json \<Rightarrow> crypto \<Rightarrow> collector_config \<Rightarrow> spool_store \<Rightarrow> ('w collector_world_scheme \<Rightarrow> 'w collector_world_scheme) \<Rightarrow>
     collector_device \<Rightarrow> string \<Rightarrow> ('w collector_world_scheme, spool_error, unit) proc" where
  "scan_entry dj cr cfg sl other device name =
     (if ignored_name name then ret ()
      else let path = cd_input_dir device @ ''/'' @ name in
       seq (interfere other) (bind (stat_file path) (\<lambda>info. case info of
           None \<Rightarrow> ret ()
         | Some (bytes, mtime) \<Rightarrow> seq (observe path bytes mtime)
            (bind (sealed cfg device path) (\<lambda>is_sealed.
             bind (if is_sealed then accessible (path @ ''.meta.json'') else ret False) (\<lambda>ready.
             if \<not> ready then ret ()
             else bind (gets (\<lambda>w. find_path_task path bytes mtime (co_tasks w))) (\<lambda>found. case found of
                 Same_task \<Rightarrow> ret ()
               | Changed_task t \<Rightarrow> fail_task dj sl t ''SOURCE_CHANGED_AFTER_SEAL''
               | No_task \<Rightarrow> accept_file dj cr cfg sl other device path bytes mtime)))))))"

fun scan_names ::
    "'j ds_json \<Rightarrow> crypto \<Rightarrow> collector_config \<Rightarrow> spool_store \<Rightarrow> ('w collector_world_scheme \<Rightarrow> 'w collector_world_scheme) \<Rightarrow>
     collector_device \<Rightarrow> string list \<Rightarrow> ('w collector_world_scheme, spool_error, unit) proc" where
  "scan_names dj cr cfg sl other device [] = ret ()"
| "scan_names dj cr cfg sl other device (name # names) =
     seq (scan_entry dj cr cfg sl other device name) (scan_names dj cr cfg sl other device names)"

fun scan_devices ::
    "'j ds_json \<Rightarrow> crypto \<Rightarrow> collector_config \<Rightarrow> spool_store \<Rightarrow> ('w collector_world_scheme \<Rightarrow> 'w collector_world_scheme) \<Rightarrow>
     collector_device list \<Rightarrow> ('w collector_world_scheme, spool_error, unit) proc" where
  "scan_devices dj cr cfg sl other [] = ret ()"
| "scan_devices dj cr cfg sl other (device # devices) =
     seq (bind (list_directory ''cannot scan device input directory'' (cd_input_dir device))
           (scan_names dj cr cfg sl other device))
       (scan_devices dj cr cfg sl other devices)"

definition scan_inputs ::
    "'j ds_json \<Rightarrow> crypto \<Rightarrow> collector_config \<Rightarrow> spool_store \<Rightarrow> ('w collector_world_scheme \<Rightarrow> 'w collector_world_scheme) \<Rightarrow>
     ('w collector_world_scheme, spool_error, unit) proc" where
  "scan_inputs dj cr cfg sl other = scan_devices dj cr cfg sl other (kc_devices cfg)"

section \<open>The application\<close>

definition app_spool :: "collector_config \<Rightarrow> spool_store" where
  "app_spool cfg = \<lparr>sl_root = kc_spool_root cfg, sl_max_bytes = kc_spool_max_bytes cfg,
     sl_min_free_bytes = kc_spool_min_free_bytes cfg\<rparr>"

fun remove_payloads :: "spool_store \<Rightarrow> (string \<times> collector_task) list \<Rightarrow> ('w collector_world_scheme, spool_error, unit) proc" where
  "remove_payloads sl [] = ret ()"
| "remove_payloads sl ((task_id, t) # tasks) =
     seq (if ct_state t = Done then remove_payload sl t else ret ()) (remove_payloads sl tasks)"

fun check_inputs :: "collector_device list \<Rightarrow> ('w collector_world_scheme, spool_error, unit) proc" where
  "check_inputs [] = ret ()"
| "check_inputs (device # devices) = bind attempt_call (\<lambda>ok.
     bind (gets (\<lambda>w. node_at w (path_of (cd_input_dir device)))) (\<lambda>n.
       if \<not> ok \<or> n \<noteq> Some Dir then throw (Spool_error ''device input directory is unavailable'')
       else check_inputs devices))"

definition app_initialize :: "'j ds_json \<Rightarrow> collector_config \<Rightarrow> ('w collector_world_scheme, spool_error, unit) proc" where
  "app_initialize dj cfg = (let sl = app_spool cfg in
     bind (spool_initialize dj sl) (\<lambda>tasks. seq (modify (\<lambda>w. w\<lparr>co_tasks := tasks\<rparr>))
       (seq (remove_payloads sl tasks) (check_inputs (kc_devices cfg)))))"

definition run_once ::
    "'j ds_json \<Rightarrow> crypto \<Rightarrow> collector_config \<Rightarrow> ('w collector_world_scheme \<Rightarrow> 'w collector_world_scheme) \<Rightarrow>
     ('w collector_world_scheme, spool_error, unit) proc" where
  "run_once dj cr cfg other =
     seq (scan_inputs dj cr cfg (app_spool cfg) other) (process_tasks dj cr cfg (app_spool cfg))"

text \<open>The loop up to the pass after which it finds the flag set; the devices and the clock go on between two passes.\<close>

fun app_run ::
    "'j ds_json \<Rightarrow> crypto \<Rightarrow> collector_config \<Rightarrow> ('w collector_world_scheme \<Rightarrow> 'w collector_world_scheme) \<Rightarrow> nat \<Rightarrow>
     ('w collector_world_scheme, spool_error, unit) proc" where
  "app_run dj cr cfg other 0 = ret ()"
| "app_run dj cr cfg other (Suc passes) = seq (run_once dj cr cfg other) (seq (interfere other) (app_run dj cr cfg other passes))"

end
