(* ===== verification/Spool_Safety.thy ===== *)
theory Spool_Safety
  imports Spool_Store
begin

text \<open>
  What the spool survives: a task file is replaced in one step, so that a process killed at any moment of
  \<open>save\<close>, or one whose calls fail, leaves the old task or the new one; starting again reads exactly the
  tasks the files hold.
\<close>

section \<open>Names\<close>

definition plain_name :: "string \<Rightarrow> bool" where
  "plain_name s \<longleftrightarrow> s \<noteq> '''' \<and> CHR ''/'' \<notin> set s"

lemma path_parts_plain_name: "CHR ''/'' \<notin> set s \<Longrightarrow> path_parts s = [s]"
  by (induction s) auto

lemma path_of_child: "plain_name name \<Longrightarrow> path_of (directory @ ''/'' @ name) = path_of directory @ [name]"
  by (simp add: path_of_append plain_name_def path_of_def [of name] path_parts_plain_name)

lemma path_parts_no_slash: "x \<in> set (path_parts s) \<Longrightarrow> CHR ''/'' \<notin> set x"
proof (induction s arbitrary: x)
  case (Cons c s)
  have "hd (path_parts s) \<in> set (path_parts s)" by simp
  with Cons show ?case by (auto split: if_splits dest: list.set_sel(2) [OF path_parts_nonempty])
qed simp

lemma path_of_plain: "x \<in> set (path_of s) \<Longrightarrow> plain_name x"
  by (auto simp: path_of_def plain_name_def dest: path_parts_no_slash)

definition task_name :: "string \<Rightarrow> bool" where
  "task_name task_id \<longleftrightarrow> length task_id = 64 \<and> list_all (\<lambda>c. is_digit c \<or> byte c \<ge> 97 \<and> byte c \<le> 102) task_id"

lemma task_name_plain:
  assumes "task_name task_id" and "CHR ''/'' \<notin> set suf"
  shows "plain_name (task_id @ suf)"
proof -
  have "CHR ''/'' \<notin> set task_id"
  proof
    assume "CHR ''/'' \<in> set task_id"
    then have "is_digit (CHR ''/'') \<or> byte (CHR ''/'') \<ge> 97 \<and> byte (CHR ''/'') \<le> 102"
      using assms(1) unfolding task_name_def list_all_iff by blast
    then show False by (simp add: is_digit_def)
  qed
  with assms show ?thesis by (auto simp: plain_name_def task_name_def)
qed

text \<open>The nodes of a task.\<close>

definition state_node :: "spool_store \<Rightarrow> string \<Rightarrow> fpath" where
  "state_node sl task_id = path_of (state_dir sl) @ [task_id @ ''.json'']"

definition state_tmp :: "spool_store \<Rightarrow> string \<Rightarrow> fpath" where
  "state_tmp sl task_id = path_of (state_dir sl) @ [task_id @ ''.json.tmp'']"

lemma state_paths:
  assumes "task_name task_id"
  shows "path_of (state_dir sl @ ''/'' @ task_id @ ''.json'') = state_node sl task_id"
    "path_of ((state_dir sl @ ''/'' @ task_id @ ''.json'') @ ''.tmp'') = state_tmp sl task_id"
  using path_of_child [OF task_name_plain [OF assms, of "''.json''"]]
    path_of_child [OF task_name_plain [OF assms, of "''.json.tmp''"]]
  by (simp_all add: state_node_def state_tmp_def)

lemma state_nodes_apart [simp]:
  "state_node sl a = state_node sl b \<longleftrightarrow> a = b" "state_tmp sl a = state_tmp sl b \<longleftrightarrow> a = b"
  "length a = length b \<Longrightarrow> state_tmp sl a \<noteq> state_node sl b" "length a = length b \<Longrightarrow> state_node sl b \<noteq> state_tmp sl a"
  by (auto simp: state_node_def state_tmp_def dest: arg_cong [where f = length])

section \<open>Round trip\<close>

definition task_valid :: "collector_task \<Rightarrow> bool" where
  "task_valid t \<longleftrightarrow> task_name (ct_task_id t) \<and> ct_source_path t \<noteq> '''' \<and> ct_payload_path t \<noteq> '''' \<and>
     - (2 ^ 31) \<le> ct_retry_attempts t \<and> ct_retry_attempts t < 2 ^ 31 \<and>
     - (2 ^ 63) \<le> ct_source_mtime_ns t \<and> ct_source_mtime_ns t < 2 ^ 63 \<and>
     - (2 ^ 63) \<le> ct_next_attempt_milliseconds t \<and> ct_next_attempt_milliseconds t < 2 ^ 63"

lemma parse_task_state_name [simp]: "parse_task_state (task_state_name st) = Some st"
  by (cases st) (simp_all add: parse_task_state_def)

lemma int_member_value: "- (2 ^ 31) \<le> n \<Longrightarrow> n < 2 ^ 31 \<Longrightarrow> sint (word_of_int n :: 32 word) = n"
  by (simp add: int_word_sint)

lemma task_of_task_json:
  assumes laws: "ds_json_laws dj" and valid: "task_valid t"
  shows "task_of_json dj (task_json dj t) = Some t"
proof -
  define kvs where "kvs = [(''task_id'', jl_string dj (ct_task_id t)), (''source_path'', jl_string dj (ct_source_path t)),
      (''payload_path'', jl_string dj (ct_payload_path t)), (''line_id'', jl_string dj (ct_line_id t)),
      (''station_id'', jl_string dj (ct_station_id t)), (''device_id'', jl_string dj (ct_device_id t)),
      (''collector_id'', jl_string dj (ct_collector_id t)), (''work_order'', jl_string dj (ct_work_order t)),
      (''product_sn'', jl_string dj (ct_product_sn t)), (''file_type'', jl_string dj (ct_file_type t)),
      (''result'', jl_string dj (ct_result t)), (''original_filename'', jl_string dj (ct_original_filename t)),
      (''produced_at'', jl_string dj (ct_produced_at t)), (''file_size'', jl_unsigned dj (ct_file_size t)),
      (''source_mtime_ns'', jl_integer dj (ct_source_mtime_ns t)), (''file_sha256'', jl_string dj (ct_file_sha256 t)),
      (''state'', jl_string dj (task_state_name (ct_state t))), (''upload_id'', jl_string dj (ct_upload_id t)),
      (''chunk_size'', jl_unsigned dj (ct_chunk_size t)), (''chunk_count'', jl_unsigned dj (ct_chunk_count t)),
      (''retry_attempts'', jl_integer dj (ct_retry_attempts t)),
      (''next_attempt_milliseconds'', jl_integer dj (ct_next_attempt_milliseconds t)),
      (''last_error'', jl_string dj (ct_last_error t)), (''archive_id'', jl_unsigned dj (ct_archive_id t))]"
  have v: "task_json dj t = jl_object dj kvs" by (simp add: task_json_def kvs_def)
  have d: "distinct (map fst kvs)" and f: "map fst kvs = task_fields" by (simp_all add: kvs_def task_fields_def)
  have at: "jl_at dj (jl_object dj kvs) k = map_of kvs k" for k by (rule ds_json_base(2) [OF laws d])
  have str: "string_member dj (jl_object dj kvs) k = Some x" if "map_of kvs k = Some (jl_string dj x)" for k x
    using that ds_json_base(6) [OF laws] by (simp add: string_member_def at)
  have num: "u64_member dj (jl_object dj kvs) k = Some x" if "map_of kvs k = Some (jl_unsigned dj x)" for k x
    using that ds_json_base(5) [OF laws] by (simp add: u64_member_def at)
  have int: "int64_member dj (jl_object dj kvs) k = Some x" if "map_of kvs k = Some (jl_integer dj x)"
    "- (2 ^ 63) \<le> x" "x < 2 ^ 63" for k x
    using that laws by (simp add: int64_member_def at ds_json_laws_def)
  have exact: "exact_fields dj task_fields (jl_object dj kvs)" by (rule exact_fields_object [OF laws d f])
  have texts:
    "string_member dj (jl_object dj kvs) ''task_id'' = Some (ct_task_id t)"
    "string_member dj (jl_object dj kvs) ''source_path'' = Some (ct_source_path t)"
    "string_member dj (jl_object dj kvs) ''payload_path'' = Some (ct_payload_path t)"
    "string_member dj (jl_object dj kvs) ''line_id'' = Some (ct_line_id t)"
    "string_member dj (jl_object dj kvs) ''station_id'' = Some (ct_station_id t)"
    "string_member dj (jl_object dj kvs) ''device_id'' = Some (ct_device_id t)"
    "string_member dj (jl_object dj kvs) ''collector_id'' = Some (ct_collector_id t)"
    "string_member dj (jl_object dj kvs) ''work_order'' = Some (ct_work_order t)"
    "string_member dj (jl_object dj kvs) ''product_sn'' = Some (ct_product_sn t)"
    "string_member dj (jl_object dj kvs) ''file_type'' = Some (ct_file_type t)"
    "string_member dj (jl_object dj kvs) ''result'' = Some (ct_result t)"
    "string_member dj (jl_object dj kvs) ''original_filename'' = Some (ct_original_filename t)"
    "string_member dj (jl_object dj kvs) ''produced_at'' = Some (ct_produced_at t)"
    "string_member dj (jl_object dj kvs) ''file_sha256'' = Some (ct_file_sha256 t)"
    "string_member dj (jl_object dj kvs) ''upload_id'' = Some (ct_upload_id t)"
    "string_member dj (jl_object dj kvs) ''last_error'' = Some (ct_last_error t)"
    by (rule str, simp add: kvs_def)+
  have numbers: "u64_member dj (jl_object dj kvs) ''file_size'' = Some (ct_file_size t)"
    "u64_member dj (jl_object dj kvs) ''chunk_size'' = Some (ct_chunk_size t)"
    "u64_member dj (jl_object dj kvs) ''chunk_count'' = Some (ct_chunk_count t)"
    "u64_member dj (jl_object dj kvs) ''archive_id'' = Some (ct_archive_id t)"
    by (rule num, simp add: kvs_def)+
  have ints: "int64_member dj (jl_object dj kvs) ''source_mtime_ns'' = Some (ct_source_mtime_ns t)"
    "int64_member dj (jl_object dj kvs) ''next_attempt_milliseconds'' = Some (ct_next_attempt_milliseconds t)"
    "int64_member dj (jl_object dj kvs) ''retry_attempts'' = Some (ct_retry_attempts t)"
    using valid by - (rule int; simp add: task_valid_def kvs_def)+
  have state: "string_member dj (jl_object dj kvs) ''state'' = Some (task_state_name (ct_state t))"
    by (rule str) (simp add: kvs_def)
  have retry: "int_member dj (jl_object dj kvs) ''retry_attempts'' = Some (ct_retry_attempts t)"
    using valid by (simp add: int_member_def ints int_member_value task_valid_def)
  show ?thesis
    using valid unfolding v task_of_json_def Let_def
    by (simp add: texts exact numbers ints state retry task_valid_def task_name_def)
qed

section \<open>Saving a task\<close>

text \<open>What holds at every moment of \<open>save\<close>: \<open>s\<close> is the state before, \<open>c\<close> the new content.\<close>

definition saving :: "spool_store \<Rightarrow> string \<Rightarrow> string \<Rightarrow> 'w store_state_scheme \<Rightarrow> 'w store_state_scheme \<Rightarrow> bool" where
  "saving sl task_id c s w \<longleftrightarrow>
     (\<forall>p. p \<noteq> state_tmp sl task_id \<longrightarrow> p \<noteq> state_node sl task_id \<longrightarrow> node_at w p = node_at s p) \<and>
     (node_at w (state_node sl task_id) = node_at s (state_node sl task_id) \<or>
      node_at w (state_node sl task_id) = Some (File c)) \<and>
     (is_file (node_at w (state_tmp sl task_id)) \<or> node_at w (state_tmp sl task_id) = None \<or>
      node_at w (state_tmp sl task_id) = node_at s (state_tmp sl task_id))"

lemma saving_refl [simp]: "saving sl task_id c s s"
  by (simp add: saving_def)

lemma saving_events [simp]: "saving sl task_id c s (w\<lparr>st_events := es\<rparr>) = saving sl task_id c s w"
  by (simp add: saving_def)

lemma event_free_saving: "event_free (saving sl task_id c s)"
  "event_free (\<lambda>w. saving sl task_id c s w \<and> node_at w p = n)"
  by (simp_all add: event_free_def)

lemma saving_put [simp]: "saving sl task_id c s w \<Longrightarrow> saving sl task_id c s (put_node (state_tmp sl task_id) (File x) w)"
  by (auto simp: saving_def is_file_def)

lemma saving_delete [simp]: "saving sl task_id c s w \<Longrightarrow> saving sl task_id c s (delete_node (state_tmp sl task_id) w)"
  by (auto simp: saving_def is_file_def)

lemma saving_rename: "saving sl task_id c s w \<Longrightarrow>
    saving sl task_id c s (put_node (state_node sl task_id) (File c) (delete_node (state_tmp sl task_id) w))"
  by (auto simp: saving_def is_file_def)

lemma hoare_write_bytes:
  assumes "\<And>x w. P w \<Longrightarrow> P (put_node p (File x) w)" and "event_free P"
  shows "hoare P (write_bytes p content) (\<lambda>ok w. P w \<and> (ok \<longrightarrow> node_at w p = Some (File content))) P"
proof -
  have P: "P (put_node p (File x) (w\<lparr>st_events := es\<rparr>))" if "P w" for x w es
    using assms that by (simp add: event_free_def)
  show ?thesis
    by (rule hoareI) (auto simp: write_bytes_def P split: prod.splits transfer.splits dest: transfer_loop_done)
qed

lemma hoare_sync_directory:
  assumes "event_free P"
  shows "keeps P (sync_spool_directory message path)"
  unfolding sync_spool_directory_def fail_unless_def
  by (auto intro!: hoare_bind [OF hoare_attempt_call [OF assms]] hoare_ret hoare_throw)

lemma hoare_attempt_if: "event_free P \<Longrightarrow> hoare P (if b then attempt_call else ret False) (\<lambda>ok s. P s \<and> (ok \<longrightarrow> b)) P"
  by (cases b) (auto intro!: hoare_ret hoare_conseq [OF hoare_attempt_call])

lemma hoare_open_truncated:
  fixes P :: "'w store_state_scheme \<Rightarrow> bool"
  assumes "\<And>w. P w \<Longrightarrow> P (put_node p (File []) w)" and "event_free P"
  shows "keeps P (open_truncated p)"
  unfolding open_truncated_def
  by (rule hoare_conseq [OF hoare_effect_call [where P = P and Q = P and R = P]]) (use assms in \<open>auto split: if_splits\<close>)

lemma hoare_unlink:
  fixes P :: "'w store_state_scheme \<Rightarrow> bool"
  assumes "\<And>w. P w \<Longrightarrow> P (delete_node p w)" and "event_free P"
  shows "keeps P (unlink_file p)"
  unfolding unlink_file_def
  by (rule hoare_conseq [OF hoare_effect_call [where P = P and Q = P and R = P]]) (use assms in \<open>auto split: if_splits\<close>)

lemma hoare_spool_save:
  fixes s :: "'w store_state_scheme"
  assumes "task_name (ct_task_id t)" and "dj_dumps dj (task_json dj t)" and c: "c = jl_dump dj (task_json dj t)"
  shows "hoare (saving sl (ct_task_id t) c s) (spool_save dj sl t)
    (\<lambda>_ w. saving sl (ct_task_id t) c s w \<and> node_at w (state_node sl (ct_task_id t)) = Some (File c))
    (saving sl (ct_task_id t) c s)"
proof -
  let ?S = "saving sl (ct_task_id t) c s" and ?tmp = "state_tmp sl (ct_task_id t)" and ?node = "state_node sl (ct_task_id t)"
  let ?written = "\<lambda>w. ?S w \<and> node_at w ?tmp = Some (File c)"
  have len: "length (ct_task_id t) = length (ct_task_id t)" ..
  have apart: "?tmp \<noteq> ?node" by simp
  have wr: "hoare ?S (write_bytes ?tmp c) (\<lambda>ok w. ?S w \<and> (ok \<longrightarrow> node_at w ?tmp = Some (File c))) ?S"
    by (rule hoare_write_bytes) (simp_all add: event_free_saving)
  have call: "hoare (\<lambda>w. ?S w \<and> (b \<longrightarrow> node_at w ?tmp = Some (File c))) (if b then attempt_call else ret False)
      (\<lambda>ok w. ?S w \<and> (ok \<longrightarrow> node_at w ?tmp = Some (File c))) ?S" for b
    by (rule hoare_conseq [OF hoare_attempt_if [where P = "\<lambda>w. ?S w \<and> (b \<longrightarrow> node_at w ?tmp = Some (File c))"]])
      (auto simp: event_free_def)
  have ren: "hoare ?written (rename_file ?tmp ?node) (\<lambda>ok w. ?S w \<and> (ok \<longrightarrow> node_at w ?node = Some (File c))) ?S"
    unfolding rename_file_def
    by (rule hoare_conseq [OF hoare_effect_call [where P = ?written and Q = "\<lambda>w. ?S w \<and> node_at w ?node = Some (File c)" and R = ?S]])
      (auto simp: event_free_def saving_rename split: if_splits)
  have rename: "hoare (\<lambda>w. ?S w \<and> (b \<longrightarrow> node_at w ?tmp = Some (File c))) (if b then rename_file ?tmp ?node else ret False)
      (\<lambda>ok w. ?S w \<and> (ok \<longrightarrow> node_at w ?node = Some (File c))) ?S" for b
    by (cases b) (auto intro!: ren hoare_ret)
  have sync: "hoare (\<lambda>w. ?S w \<and> node_at w ?node = Some (File c)) (sync_spool_directory message path)
      (\<lambda>_ w. ?S w \<and> node_at w ?node = Some (File c)) ?S" for message path
    by (rule hoare_conseq [OF hoare_sync_directory [OF event_free_saving(2)]]) auto
  have unl: "keeps ?S (unlink_file ?tmp)" by (rule hoare_unlink) (simp_all add: event_free_saving)
  have opn: "keeps ?S (open_truncated ?tmp)" by (rule hoare_open_truncated) (simp_all add: event_free_saving)
  show ?thesis
    unfolding spool_save_def Let_def c [symmetric] state_paths [OF assms(1)]
    by (auto simp: assms(2) intro!: hoare_bind [OF opn] hoare_throw hoare_bind [OF wr] hoare_bind [OF call] hoare_bind [OF rename]
        hoare_seq [OF unl] sync)
qed

section \<open>Starting again\<close>

definition spool_task :: "'j ds_json \<Rightarrow> spool_store \<Rightarrow> 'w store_state_scheme \<Rightarrow> string \<Rightarrow> collector_task option" where
  "spool_task dj sl s task_id =
     (if length task_id \<noteq> 64 then None
      else case node_at s (state_node sl task_id) of
          Some (File c) \<Rightarrow> Option.bind (dj_read dj c) (task_of_json dj)
        | _ \<Rightarrow> None)"

text \<open>A spool that starts: its directories, readable task files and files under the names of interrupted writes.\<close>

definition spool_sound :: "'j ds_json \<Rightarrow> spool_store \<Rightarrow> 'w store_state_scheme \<Rightarrow> bool" where
  "spool_sound dj sl s \<longleftrightarrow>
     node_at s (path_of (sl_root sl)) = Some Dir \<and> node_at s (path_of (state_dir sl)) = Some Dir \<and>
     node_at s (path_of (file_dir sl)) = Some Dir \<and>
     (\<forall>name. node_at s (path_of (state_dir sl) @ [name]) \<noteq> None \<longrightarrow> plain_name name \<and>
        (temporary_name name ''.json'' \<longrightarrow> is_file (node_at s (path_of (state_dir sl) @ [name])))) \<and>
     (\<forall>name. node_at s (path_of (file_dir sl) @ [name]) \<noteq> None \<longrightarrow> plain_name name \<and>
        (temporary_name name ''.data'' \<longrightarrow> is_file (node_at s (path_of (file_dir sl) @ [name])))) \<and>
     (\<forall>task_id. length task_id = 64 \<longrightarrow> node_at s (state_node sl task_id) \<noteq> None \<longrightarrow>
        (\<exists>t. spool_task dj sl s task_id = Some t \<and> ct_task_id t = task_id))"

lemma attempt_quiet: "st_events s = [] \<Longrightarrow> attempt_call s = (Ret True, s)"
  by (simp add: attempt_call_def next_event_def exec_simps)

lemma spool_ensure_quiet: "st_events s = [] \<Longrightarrow> node_at s p = Some Dir \<Longrightarrow> ensure_directory_call p s = (Ret True, s)"
  by (simp add: ensure_directory_call_def attempt_quiet exec_simps)

lemma unlink_quiet: "st_events s = [] \<Longrightarrow> is_file (node_at s p) \<Longrightarrow> unlink_file p s = (Ret True, delete_node p s)"
  by (simp add: unlink_file_def effect_call_def next_event_def exec_simps)

lemma list_quiet: "st_events s = [] \<Longrightarrow> node_at s (path_of path) = Some Dir \<Longrightarrow>
    list_directory message path s = (Ret (child_names s (path_of path)), s)"
  by (simp add: list_directory_def attempt_quiet exec_simps)

lemma spool_read_quiet: "st_events s = [] \<Longrightarrow> node_at s p = Some (File c) \<Longrightarrow> read_content p s = (Ret (Some c), s)"
  by (simp add: read_content_def attempt_quiet exec_simps)

lemma remove_each_step:
  assumes "temporary_name name middle" "st_events s = []" "is_file (node_at s (path_of (directory @ ''/'' @ name)))"
  shows "remove_each directory middle (name # names) s =
    remove_each directory middle names (delete_node (path_of (directory @ ''/'' @ name)) s)"
  using assms by (simp add: unlink_quiet exec_simps)

lemma remove_each_quiet:
  "st_events s = [] \<Longrightarrow> distinct names \<Longrightarrow>
   (\<And>name. name \<in> set names \<Longrightarrow> plain_name name \<and> (temporary_name name middle \<longrightarrow>
      is_file (node_at s (path_of directory @ [name])))) \<Longrightarrow>
   \<exists>u. remove_each directory middle names s = (Ret (), u) \<and> st_events u = [] \<and>
     (\<forall>q. node_at u q = (if \<exists>name\<in>set names. temporary_name name middle \<and> q = path_of directory @ [name]
       then None else node_at s q))"
proof (induction names arbitrary: s)
  case (Cons name names)
  show ?case
  proof (cases "temporary_name name middle")
    case False
    then show ?thesis using Cons.IH [OF Cons.prems(1)] Cons.prems(2,3) by auto
  next
    case True
    let ?p = "path_of directory @ [name]"
    have regular: "is_file (node_at s ?p)" and p: "path_of (directory @ ''/'' @ name) = ?p"
      using Cons.prems(3) True path_of_child by auto
    have "\<exists>u. remove_each directory middle names (delete_node ?p s) = (Ret (), u) \<and> st_events u = [] \<and>
      (\<forall>q. node_at u q = (if \<exists>name\<in>set names. temporary_name name middle \<and> q = path_of directory @ [name]
         then None else node_at (delete_node ?p s) q))"
    proof (rule Cons.IH)
      show "st_events (delete_node ?p s) = []" using Cons.prems(1) by (simp add: delete_node_def)
      show "distinct names" using Cons.prems(2) by simp
      show "plain_name n \<and> (temporary_name n middle \<longrightarrow> is_file (node_at (delete_node ?p s) (path_of directory @ [n])))"
        if "n \<in> set names" for n using that Cons.prems(2,3) by auto
    qed
    then obtain u where u: "remove_each directory middle names (delete_node ?p s) = (Ret (), u)" "st_events u = []"
      "\<forall>q. node_at u q = (if \<exists>name\<in>set names. temporary_name name middle \<and> q = path_of directory @ [name]
         then None else node_at (delete_node ?p s) q)"
      by blast
    show ?thesis
      using remove_each_step [OF True Cons.prems(1), of directory names] regular u unfolding p
      by (intro exI [of _ u]) (use True in auto)
  qed
qed (simp add: exec_simps)

definition json_name :: "string \<Rightarrow> bool" where
  "json_name name \<longleftrightarrow> length name = 69 \<and> drop 64 name = ''.json''"

lemma json_name_split: "json_name name \<Longrightarrow> name = take 64 name @ ''.json'' \<and> length (take 64 name) = 64"
  by (simp add: json_name_def) (metis append_take_drop_id)

lemma json_name_append: "length task_id = 64 \<Longrightarrow> json_name (task_id @ ''.json'')"
  by (simp add: json_name_def)

lemma load_states_read:
  assumes "json_name name" "st_events s = []" "node_at s (path_of (directory @ ''/'' @ name)) = Some (File c)"
    "dj_read dj c = Some json" "task_of_json dj json = Some t" "ct_task_id t = take 64 name"
    "map_of tasks (take 64 name) = None"
  shows "load_states dj directory (name # names) tasks s = load_states dj directory names (map_put (take 64 name) t tasks) s"
  using assms by (simp add: json_name_def exec_simps spool_read_quiet)

lemma load_states_quiet:
  assumes quiet: "st_events s = []"
  shows "distinct names \<Longrightarrow>
    (\<And>name. name \<in> set names \<Longrightarrow> json_name name \<Longrightarrow> plain_name name \<and>
        (\<exists>t. spool_task dj sl s (take 64 name) = Some t \<and> ct_task_id t = take 64 name) \<and>
        map_of tasks (take 64 name) = None) \<Longrightarrow>
    \<exists>loaded. load_states dj (state_dir sl) names tasks s = (Ret loaded, s) \<and>
      (\<forall>task_id. map_of loaded task_id = (if length task_id = 64 \<and> task_id @ ''.json'' \<in> set names
         then spool_task dj sl s task_id else map_of tasks task_id))"
proof (induction names arbitrary: tasks)
  case Nil
  then show ?case by (simp add: exec_simps)
next
  case (Cons name names)
  show ?case
  proof (cases "json_name name")
    case False
    have "name \<noteq> task_id @ ''.json''" if "length task_id = 64" for task_id using False that json_name_append by auto
    moreover obtain loaded where "load_states dj (state_dir sl) names tasks s = (Ret loaded, s)"
      "\<forall>task_id. map_of loaded task_id = (if length task_id = 64 \<and> task_id @ ''.json'' \<in> set names
         then spool_task dj sl s task_id else map_of tasks task_id)"
      using Cons.IH [of tasks] Cons.prems by auto
    ultimately show ?thesis using False by (intro exI [of _ loaded]) (auto simp: json_name_def)
  next
    case True
    define task_id where "task_id = take 64 name"
    have id: "length task_id = 64" "name = task_id @ ''.json''" using json_name_split [OF True] by (auto simp: task_id_def)
    obtain t where t: "spool_task dj sl s task_id = Some t" "ct_task_id t = task_id" "map_of tasks task_id = None"
      "plain_name name" using Cons.prems(2) [OF _ True] by (auto simp: task_id_def)
    then obtain c json where c: "node_at s (state_node sl task_id) = Some (File c)" "dj_read dj c = Some json"
      "task_of_json dj json = Some t"
      using id(1) by (auto simp: spool_task_def bind_eq_Some_conv split: option.splits node.splits)
    have p: "path_of (state_dir sl @ ''/'' @ name) = state_node sl task_id"
      using path_of_child [OF t(4)] id(2) by (simp add: state_node_def)
    have step: "load_states dj (state_dir sl) (name # names) tasks s =
        load_states dj (state_dir sl) names (map_put task_id t tasks) s"
      unfolding task_id_def by (rule load_states_read [OF True quiet _ c(2,3)]) (use c(1) t p in \<open>simp_all add: task_id_def\<close>)
    have fresh: "map_of (map_put task_id t tasks) (take 64 n) = None" if "n \<in> set names" "json_name n" for n
    proof -
      have "n \<noteq> name" using Cons.prems(1) that(1) by auto
      then have "take 64 n \<noteq> task_id" using json_name_split [OF that(2)] id(2) by metis
      then show ?thesis using Cons.prems(2) [of n] that by simp
    qed
    have "distinct names" "name \<notin> set names" using Cons.prems(1) by auto
    with Cons.IH [of "map_put task_id t tasks"] Cons.prems(2) fresh
    obtain loaded where "load_states dj (state_dir sl) names (map_put task_id t tasks) s = (Ret loaded, s)"
      "\<forall>i. map_of loaded i = (if length i = 64 \<and> i @ ''.json'' \<in> set names
         then spool_task dj sl s i else map_of (map_put task_id t tasks) i)" by auto
    then show ?thesis using step id t(1) by (intro exI [of _ loaded]) auto
  qed
qed

lemma clean_quiet:
  assumes quiet: "st_events s = []"
    and names: "\<And>name. node_at s (path_of directory @ [name]) \<noteq> None \<Longrightarrow> plain_name name \<and>
        (temporary_name name middle \<longrightarrow> is_file (node_at s (path_of directory @ [name])))"
  obtains u where "remove_each directory middle (child_names s (path_of directory)) s = (Ret (), u)" "st_events u = []"
    "\<And>q. node_at u q = (if \<exists>name. temporary_name name middle \<and> q = path_of directory @ [name] then None else node_at s q)"
proof -
  have each: "plain_name name \<and> (temporary_name name middle \<longrightarrow> is_file (node_at s (path_of directory @ [name])))"
    if "name \<in> set (child_names s (path_of directory))" for name
    using that names [of name] by (simp add: child_names_iff)
  obtain u where u: "remove_each directory middle (child_names s (path_of directory)) s = (Ret (), u)" "st_events u = []"
    "\<forall>q. node_at u q = (if \<exists>name\<in>set (child_names s (path_of directory)).
       temporary_name name middle \<and> q = path_of directory @ [name] then None else node_at s q)"
    using remove_each_quiet [OF quiet child_names_sorted(2) each] by blast
  show ?thesis
    by (rule that [OF u(1,2)]) (auto simp: u(3) child_names_iff)
qed

lemma spool_initialize_quiet:
  assumes quiet: "st_events s = []" and sound: "spool_sound dj sl s"
  shows "\<exists>tasks u. spool_initialize dj sl s = (Ret tasks, u) \<and> map_of tasks = spool_task dj sl s"
proof -
  let ?S = "path_of (state_dir sl)" and ?F = "path_of (file_dir sl)"
  have dirs: "node_at s (path_of (sl_root sl)) = Some Dir" "node_at s ?S = Some Dir" "node_at s ?F = Some Dir"
    using sound by (auto simp: spool_sound_def)
  have directory: "spool_directory p w = (Ret (), w)" if "st_events w = []" "node_at w (path_of p) = Some Dir" for p w
    using that by (simp add: spool_directory_def spool_ensure_quiet exec_simps fail_unless_def)
  have paths: "?S = path_of (sl_root sl) @ [''states'']" "?F = path_of (sl_root sl) @ [''files'']"
    unfolding state_dir_def file_dir_def
    using path_of_child [of "''states''" "sl_root sl"] path_of_child [of "''files''" "sl_root sl"] by (simp_all add: plain_name_def)
  then have apart: "?S \<noteq> ?F" "?S \<noteq> ?F @ [n]" "?F \<noteq> ?S @ [n]" for n by auto
  obtain u where u: "remove_each (state_dir sl) ''.json'' (child_names s ?S) s = (Ret (), u)" "st_events u = []"
    "\<And>q. node_at u q = (if \<exists>name. temporary_name name ''.json'' \<and> q = ?S @ [name] then None else node_at s q)"
    by (rule clean_quiet [OF quiet, where directory = "state_dir sl" and middle = "''.json''"])
      (use sound in \<open>auto simp: spool_sound_def\<close>)
  have files: "node_at u (?F @ [name]) = node_at s (?F @ [name])" for name
    using u(3) apart by auto
  obtain v where v: "remove_each (file_dir sl) ''.data'' (child_names u ?F) u = (Ret (), v)" "st_events v = []"
    "\<And>q. node_at v q = (if \<exists>name. temporary_name name ''.data'' \<and> q = ?F @ [name] then None else node_at u q)"
    by (rule clean_quiet [OF u(2), where directory = "file_dir sl" and middle = "''.data''"])
      (use sound in \<open>auto simp: spool_sound_def files\<close>)
  have json: "node_at v (state_node sl task_id) = node_at s (state_node sl task_id)" if "length task_id = 64" for task_id
  proof -
    have "\<not> temporary_name (task_id @ ''.json'') ''.json''" using that by (simp add: temporary_name_def)
    then have "node_at u (state_node sl task_id) = node_at s (state_node sl task_id)" using u(3) by (auto simp: state_node_def)
    moreover have "node_at v (state_node sl task_id) = node_at u (state_node sl task_id)"
      using v(3) apart by (auto simp: state_node_def)
    ultimately show ?thesis by simp
  qed
  then have tasks: "spool_task dj sl v task_id = spool_task dj sl s task_id" for task_id
    by (simp add: spool_task_def)
  have dirs_u: "node_at u ?S = Some Dir" "node_at u ?F = Some Dir" and dir_v: "node_at v ?S = Some Dir"
    using u(3) v(3) dirs apart by auto
  have names: "plain_name name \<and> (\<exists>t. spool_task dj sl v (take 64 name) = Some t \<and> ct_task_id t = take 64 name) \<and>
      map_of [] (take 64 name) = (None :: collector_task option)"
    if "name \<in> set (child_names v ?S)" "json_name name" for name
  proof -
    define task_id where "task_id = take 64 name"
    have id: "length task_id = 64" "?S @ [name] = state_node sl task_id"
      using json_name_split [OF that(2)] by (simp_all add: task_id_def state_node_def)
    then have there: "node_at s (state_node sl task_id) \<noteq> None"
      using that(1) json [OF id(1)] by (simp add: child_names_iff)
    then obtain t where "spool_task dj sl s task_id = Some t" "ct_task_id t = task_id"
      using sound id(1) unfolding spool_sound_def by blast
    moreover have "plain_name name" using there sound unfolding spool_sound_def id(2) [symmetric] by blast
    ultimately show ?thesis by (simp add: tasks task_id_def)
  qed
  obtain loaded where loaded: "load_states dj (state_dir sl) (child_names v ?S) [] v = (Ret loaded, v)"
    "\<forall>task_id. map_of loaded task_id = (if length task_id = 64 \<and> task_id @ ''.json'' \<in> set (child_names v ?S)
         then spool_task dj sl v task_id else map_of [] task_id)"
    using load_states_quiet [OF v(2) child_names_sorted(2), of v ?S dj sl "[]"] names by blast
  have "map_of loaded task_id = spool_task dj sl s task_id" for task_id
    using loaded(2) by (auto simp: tasks child_names_iff spool_task_def json state_node_def [symmetric])
  then have "map_of loaded = spool_task dj sl s" ..
  moreover have "spool_initialize dj sl s = (Ret loaded, v)"
    using u v dirs dirs_u dir_v loaded
    by (simp add: spool_initialize_def directory quiet exec_simps remove_interrupted_files_def list_quiet)
  ultimately show ?thesis by blast
qed

text \<open>The spool stays one that starts, at every moment of \<open>save\<close>.\<close>

lemma task_name_length: "task_name task_id \<Longrightarrow> length task_id = 64"
  by (simp add: task_name_def)

lemma saving_spool_task:
  assumes laws: "ds_json_laws dj" and dumps: "dj_dumps dj (task_json dj t)" and valid: "task_valid t"
    and saving: "saving sl (ct_task_id t) (jl_dump dj (task_json dj t)) s w"
  shows "task_id \<noteq> ct_task_id t \<Longrightarrow> spool_task dj sl w task_id = spool_task dj sl s task_id"
    "node_at w (state_node sl (ct_task_id t)) = Some (File (jl_dump dj (task_json dj t))) \<Longrightarrow>
       spool_task dj sl w (ct_task_id t) = Some t"
    "spool_task dj sl w (ct_task_id t) \<in> {spool_task dj sl s (ct_task_id t), Some t}"
proof -
  have len: "length (ct_task_id t) = 64" using valid by (simp add: task_valid_def task_name_def)
  have read: "dj_read dj (jl_dump dj (task_json dj t)) = Some (task_json dj t)"
    using laws dumps by (simp add: ds_json_laws_def)
  show new: "spool_task dj sl w (ct_task_id t) = Some t"
    if "node_at w (state_node sl (ct_task_id t)) = Some (File (jl_dump dj (task_json dj t)))"
    using that len by (simp add: spool_task_def read task_of_task_json [OF laws valid])
  have "node_at w (state_node sl (ct_task_id t)) = node_at s (state_node sl (ct_task_id t)) \<or>
      node_at w (state_node sl (ct_task_id t)) = Some (File (jl_dump dj (task_json dj t)))"
    using saving by (simp add: saving_def)
  then show "spool_task dj sl w (ct_task_id t) \<in> {spool_task dj sl s (ct_task_id t), Some t}"
    using new by (auto simp: spool_task_def)
  show "spool_task dj sl w task_id = spool_task dj sl s task_id" if other: "task_id \<noteq> ct_task_id t"
  proof (cases "length task_id = 64")
    case True
    then have "node_at w (state_node sl task_id) = node_at s (state_node sl task_id)"
      using saving other len by (simp add: saving_def)
    then show ?thesis by (simp add: spool_task_def)
  qed (simp add: spool_task_def)
qed

lemma saving_sound:
  assumes laws: "ds_json_laws dj" and dumps: "dj_dumps dj (task_json dj t)" and valid: "task_valid t"
    and sound: "spool_sound dj sl s" and saving: "saving sl (ct_task_id t) (jl_dump dj (task_json dj t)) s w"
  shows "spool_sound dj sl w"
proof -
  let ?S = "path_of (state_dir sl)" and ?F = "path_of (file_dir sl)"
  let ?tmp = "state_tmp sl (ct_task_id t)" and ?node = "state_node sl (ct_task_id t)"
  have name: "task_name (ct_task_id t)" using valid by (simp add: task_valid_def)
  have paths: "?S = path_of (sl_root sl) @ [''states'']" "?F = path_of (sl_root sl) @ [''files'']"
    using path_of_child [of "''states''" "sl_root sl"] path_of_child [of "''files''" "sl_root sl"]
    by (simp_all add: plain_name_def state_dir_def file_dir_def)
  have same: "node_at w p = node_at s p" if "p \<noteq> ?tmp" "p \<noteq> ?node" for p
    using saving that by (simp add: saving_def)
  have dirs: "node_at w (path_of (sl_root sl)) = Some Dir" "node_at w ?S = Some Dir" "node_at w ?F = Some Dir"
    using sound by (simp_all add: spool_sound_def same state_tmp_def state_node_def paths)
  have files: "node_at w (?F @ [x]) = node_at s (?F @ [x])" for x
    by (rule same) (simp_all add: state_tmp_def state_node_def paths)
  have states: "plain_name x \<and> (temporary_name x ''.json'' \<longrightarrow> is_file (node_at w (?S @ [x])))"
    if there: "node_at w (?S @ [x]) \<noteq> None" for x
  proof (cases "?S @ [x] = ?tmp \<or> ?S @ [x] = ?node")
    case True
    then have x: "x = ct_task_id t @ ''.json.tmp'' \<or> x = ct_task_id t @ ''.json''" by (auto simp: state_tmp_def state_node_def)
    then have "plain_name x" using task_name_plain [OF name] by auto
    moreover have "is_file (node_at w (?S @ [x]))" if "temporary_name x ''.json''"
    proof -
      have "x = ct_task_id t @ ''.json.tmp''" using x that task_name_length [OF name] by (auto simp: temporary_name_def)
      then have tmp: "?S @ [x] = ?tmp" by (simp add: state_tmp_def)
      show ?thesis
        using saving there sound that unfolding saving_def spool_sound_def tmp by (metis tmp)
    qed
    ultimately show ?thesis by blast
  next
    case False
    then show ?thesis using sound there same [of "?S @ [x]"] by (simp add: spool_sound_def)
  qed
  have tasks: "\<exists>u. spool_task dj sl w task_id = Some u \<and> ct_task_id u = task_id"
    if id: "length task_id = 64" "node_at w (state_node sl task_id) \<noteq> None" for task_id
  proof (cases "task_id = ct_task_id t")
    case True
    note cases = saving_spool_task(3) [OF laws dumps valid saving]
    show ?thesis
    proof (cases "spool_task dj sl w task_id = Some t")
      case False
      then have "node_at w (state_node sl task_id) \<noteq> Some (File (jl_dump dj (task_json dj t)))"
        using saving_spool_task(2) [OF laws dumps valid saving] True by blast
      then have "node_at w (state_node sl task_id) = node_at s (state_node sl task_id)"
        using saving True by (simp add: saving_def)
      moreover from this have "spool_task dj sl w task_id = spool_task dj sl s task_id" by (simp add: spool_task_def)
      ultimately show ?thesis using sound id unfolding spool_sound_def by metis
    qed (use True in simp)
  next
    case False
    then have "node_at w (state_node sl task_id) = node_at s (state_node sl task_id)"
      using id(1) task_name_length [OF name] by (intro same) simp_all
    then show ?thesis
      using sound id saving_spool_task(1) [OF laws dumps valid saving False] unfolding spool_sound_def by metis
  qed
  show ?thesis
    unfolding spool_sound_def
    using dirs states tasks sound files by (simp add: spool_sound_def)
qed

text \<open>
  C5: Saving is atomic: wherever the process is killed, whatever call fails, the spool starts again, with every
  other task as it was and this task as it was or as it was to be saved; it is the new one when \<open>save\<close> returned.
\<close>

theorem spool_atomic:
  assumes laws: "ds_json_laws dj" and dumps: "dj_dumps dj (task_json dj t)" and valid: "task_valid t"
    and sound: "spool_sound dj sl s" and run: "spool_save dj sl t s = (x, w)"
  shows "\<exists>tasks u. spool_initialize dj sl (w\<lparr>st_events := []\<rparr>) = (Ret tasks, u) \<and>
    (\<forall>task_id. task_id \<noteq> ct_task_id t \<longrightarrow> map_of tasks task_id = spool_task dj sl s task_id) \<and>
    map_of tasks (ct_task_id t) \<in> {spool_task dj sl s (ct_task_id t), Some t} \<and>
    (x = Ret () \<longrightarrow> map_of tasks (ct_task_id t) = Some t)"
proof -
  let ?c = "jl_dump dj (task_json dj t)"
  have name: "task_name (ct_task_id t)" using valid by (simp add: task_valid_def)
  note saved = hoareD [OF hoare_spool_save [OF name dumps refl, of sl s] saving_refl]
  have saving: "saving sl (ct_task_id t) ?c s w" using saved run by (cases x) auto
  have new: "node_at w (state_node sl (ct_task_id t)) = Some (File ?c)" if "x = Ret ()"
    using saved(1) run that by simp
  let ?w = "w\<lparr>st_events := []\<rparr>"
  have quiet: "spool_sound dj sl ?w"
    by (rule saving_sound [OF laws dumps valid sound]) (simp add: saving)
  have same: "spool_task dj sl ?w = spool_task dj sl w" by (simp add: fun_eq_iff spool_task_def)
  obtain tasks u where "spool_initialize dj sl ?w = (Ret tasks, u)" "map_of tasks = spool_task dj sl w"
    using spool_initialize_quiet [OF _ quiet] same by auto
  then show ?thesis
    using saving_spool_task [OF laws dumps valid saving] new by (intro exI [of _ tasks] exI [of _ u]) auto
qed

section \<open>A sample\<close>

definition sample_task :: collector_task where
  "sample_task = \<lparr>ct_task_id = replicate 64 CHR ''a'', ct_source_path = ''/in/a.csv'', ct_payload_path = ''/sp/files/a.data'',
     ct_line_id = ''L1'', ct_station_id = ''S1'', ct_device_id = ''D1'', ct_collector_id = ''C1'', ct_work_order = ''W1'',
     ct_product_sn = ''P1'', ct_file_type = ''csv'', ct_result = ''PASS'', ct_original_filename = ''a.csv'',
     ct_produced_at = ''2024-01-01T00:00:00Z'', ct_file_size = 3, ct_source_mtime_ns = 5, ct_file_sha256 = replicate 64 CHR ''b'',
     ct_state = Ready, ct_upload_id = '''', ct_chunk_size = 0, ct_chunk_count = 0, ct_retry_attempts = 0,
     ct_next_attempt_milliseconds = 0, ct_last_error = '''', ct_archive_id = 0\<rparr>"

definition sample_spool :: spool_store where
  "sample_spool = \<lparr>sl_root = ''/sp'', sl_max_bytes = 100, sl_min_free_bytes = 1\<rparr>"

definition sample_spool_json :: "ds_value ds_json" where
  "sample_spool_json = ds_sample_json [(''{T}'', task_json (ds_sample_json []) sample_task)]"

text \<open>The process is killed at the third call, after the first byte of the new content.\<close>

definition sample_spool_state :: "unit store_state_scheme" where
  "sample_spool_state = \<lparr>st_nodes = [([''sp''], Dir), ([''sp'', ''states''], Dir), ([''sp'', ''files''], Dir)],
     st_events = [Io_ok, Io_short 1, Io_crash]\<rparr>"

lemma sample_spool_dumps: "dj_dumps sample_spool_json (task_json sample_spool_json sample_task)"
  by (simp add: sample_spool_json_def ds_sample_json_def task_json_def)

lemma sample_spool_dump: "jl_dump sample_spool_json (task_json sample_spool_json sample_task) = ''{T}''"
  by (simp add: sample_spool_json_def ds_sample_json_def task_json_def)

lemma sample_task_valid: "task_valid sample_task"
  by (simp add: task_valid_def sample_task_def task_name_def is_digit_def list_all_iff)

lemma sample_spool_dirs: "path_of (sl_root sample_spool) = [''sp'']" "path_of (state_dir sample_spool) = [''sp'', ''states'']"
    "path_of (file_dir sample_spool) = [''sp'', ''files'']"
  by (simp_all add: sample_spool_def state_dir_def file_dir_def path_of_def)

lemma sample_spool_sound: "spool_sound dj sample_spool sample_spool_state"
  by (simp add: spool_sound_def sample_spool_dirs state_node_def node_at_def sample_spool_state_def)

theorem spool_atomic_witness:
  "fst (spool_save sample_spool_json sample_spool sample_task sample_spool_state) = Crashed \<and>
   (\<exists>tasks u. spool_initialize sample_spool_json sample_spool
      ((snd (spool_save sample_spool_json sample_spool sample_task sample_spool_state))\<lparr>st_events := []\<rparr>) = (Ret tasks, u))"
proof -
  have laws: "ds_json_laws sample_spool_json" by (simp add: sample_spool_json_def ds_sample_laws)
  have name: "task_name (ct_task_id sample_task)" using sample_task_valid by (simp add: task_valid_def)
  have "fst (spool_save sample_spool_json sample_spool sample_task sample_spool_state) = Crashed"
    unfolding spool_save_def Let_def state_paths [OF name]
    by (simp add: sample_spool_dumps sample_spool_dump open_truncated_def effect_call_def next_event_def exec_simps
        write_bytes_def state_tmp_def sample_spool_dirs sample_spool_state_def node_at_def put_node_def)
  then show ?thesis
    using spool_atomic [OF laws sample_spool_dumps sample_task_valid sample_spool_sound prod.collapse [symmetric]] by blast
qed

end
