(* ===== verification/Collector_Safety.thy ===== *)
theory Collector_Safety
  imports Collector_App Spool_Safety
begin

text \<open>
  What the state machine of a task promises: delays stay within the configured limits, and a payload is
  removed only after the task file that records its archive.
\<close>

section \<open>Retries\<close>

lemma backoff_delay_bounds:
  "retry_limits_ok rc \<Longrightarrow> rc_base_delay_ms rc \<le> backoff_delay rc n \<and> backoff_delay rc n \<le> rc_max_delay_ms rc"
  by (induction n) (auto simp: retry_limits_ok_def)

text \<open>
  C22: With a configuration that loads, a task is retried after at least the base delay and at most the maximum
  one, which is at most eight hours; the count of attempts stays between one and the configured steps.
\<close>

theorem retry_bounded:
  assumes "load_collector_config dj getenv content = Inr cfg" and "0 \<le> ct_retry_attempts t"
    and "u = retry_task (kc_retry cfg) t code now"
  shows "1 \<le> ct_retry_attempts u \<and> ct_retry_attempts u \<le> rc_max_backoff_steps (kc_retry cfg) \<and>
    ct_retry_attempts u \<le> 100 \<and> now + rc_base_delay_ms (kc_retry cfg) \<le> ct_next_attempt_milliseconds u \<and>
    ct_next_attempt_milliseconds u \<le> now + rc_max_delay_ms (kc_retry cfg) \<and>
    ct_next_attempt_milliseconds u \<le> now + 8 * 3600000 \<and> ct_state u = ct_state t"
proof -
  have ok: "retry_limits_ok (kc_retry cfg)"
    using load_collector_config_ok [OF assms(1)] by (simp add: collector_config_ok_def)
  have "rc_max_delay_ms (kc_retry cfg) \<le> 8 * 3600000" "1 \<le> rc_max_backoff_steps (kc_retry cfg)"
    "rc_max_backoff_steps (kc_retry cfg) \<le> 100" using ok by (simp_all add: retry_limits_ok_def)
  then show ?thesis
    using backoff_delay_bounds [OF ok] assms(2) unfolding assms(3) retry_task_def Let_def
    by (auto intro: order_trans)
qed

section \<open>What a call leaves alone\<close>

text \<open>A property of the files only; the calls to the service keep it.\<close>

definition files_only :: "('w collector_world_scheme \<Rightarrow> bool) \<Rightarrow> bool" where
  "files_only P \<longleftrightarrow> (\<forall>w u. st_nodes w = st_nodes u \<longrightarrow> P w = P u)"

lemma files_only_events: "files_only P \<Longrightarrow> event_free P"
  unfolding files_only_def event_free_def by (intro allI) (drule spec, drule spec, erule mp, simp)

lemma files_only_eq: "files_only P \<Longrightarrow> P w \<Longrightarrow> st_nodes u = st_nodes w \<Longrightarrow> P u"
  unfolding files_only_def by metis

lemma keeps_unmoved:
  fixes P :: "'w collector_world_scheme \<Rightarrow> bool"
  assumes "files_only P" and "\<And>w. st_nodes (snd (m w)) = st_nodes w"
  shows "keeps P m"
proof -
  have "P u" if "P w" "m w = (r, u)" for r w u
    using files_only_eq [OF assms(1) that(1)] assms(2) [of w] that(2) by simp
  then show ?thesis by (blast intro: hoareI)
qed

lemma keeps_gets: "keeps P (gets f)"
  by (rule hoare_gets)

lemma keeps_return: "keeps P (ret x)"
  by (rule hoare_ret)

lemma keeps_now: "files_only P \<Longrightarrow> keeps P now_milliseconds"
  by (rule keeps_unmoved)
    (simp_all add: now_milliseconds_def exec_simps advance_co_clock_def split: list.splits)

lemma keeps_uuid: "files_only P \<Longrightarrow> keeps P collector_uuid"
  by (rule keeps_unmoved) (simp_all add: collector_uuid_def split: list.splits option.splits)

lemma keeps_exchange: "files_only P \<Longrightarrow> keeps P (exchange rq)"
proof -
  assume P: "files_only P"
  have reply: "keeps P next_reply"
    by (rule keeps_unmoved [OF P]) (simp add: next_reply_def split: list.splits)
  have sent: "keeps P (modify (\<lambda>w. w\<lparr>co_sent := co_sent w @ [rq]\<rparr>))"
    by (rule keeps_unmoved [OF P]) (simp add: modify_def)
  show ?thesis
    unfolding exchange_def
    by (rule hoare_seq [OF sent], rule hoare_bind [OF hoare_attempt_call [OF files_only_events [OF P]]],
        rule hoare_bind_ret [OF reply])
qed

lemma keeps_http_call: "files_only P \<Longrightarrow> keeps P (http_call dj cr meth path ct body device)"
  unfolding http_call_def now_seconds_def
  by (intro hoare_bind [OF keeps_uuid] hoare_bind [OF hoare_bind_ret [OF keeps_now]] hoare_bind_ret keeps_exchange)

lemma keeps_read_exactly: "files_only P \<Longrightarrow> keeps P (read_exactly c offset n)"
  by (rule keeps_unmoved)
    (auto simp: read_exactly_def attempt_call_def next_event_def exec_simps split: prod.splits transfer.splits list.splits outcome.splits)

lemma keeps_read_chunk:
  assumes P: "files_only P"
  shows "keeps P (read_chunk t n)"
proof -
  note free = files_only_events [OF P]
  have close: "keeps P (if b then attempt_call else ret False)" for b
    by (simp add: hoare_attempt_call [OF free] hoare_ret)
  show ?thesis
    unfolding read_chunk_def Let_def
    by (auto intro!: hoare_bind [OF hoare_attempt_call [OF free]] hoare_bind [OF keeps_gets]
        hoare_bind [OF keeps_read_exactly [OF P]] hoare_bind [OF close] hoare_ret split: option.splits node.splits)
qed

lemma keeps_upload_chunk: "files_only P \<Longrightarrow> keeps P (upload_chunk dj cr t device n)"
  unfolding upload_chunk_def
  by (auto intro!: hoare_bind [OF keeps_read_chunk] hoare_ret keeps_http_call split: option.splits)

lemma keeps_upload_chunks: "files_only P \<Longrightarrow> keeps P (upload_chunks dj cr t device progress chunks)"
  by (induction chunks arbitrary: progress) (auto intro!: hoare_ret hoare_bind [OF keeps_upload_chunk])

lemma keeps_create: "files_only P \<Longrightarrow> keeps P (create_session dj cr t device)"
  unfolding create_session_def by (auto intro!: hoare_throw hoare_bind_ret keeps_http_call)

lemma keeps_progress: "files_only P \<Longrightarrow> keeps P (query_progress dj cr t device)"
  unfolding query_progress_def by (auto intro!: hoare_bind_ret keeps_http_call)

text \<open>An upload is only complete with the identifier of its archive.\<close>

lemma keeps_complete: "files_only P \<Longrightarrow>
    hoare P (complete_upload dj cr t device) (\<lambda>r w. P w \<and> (cl_status r = Call_success \<longrightarrow> cl_archive_id r \<noteq> 0)) P"
  unfolding complete_upload_def
  by (rule hoare_bind [OF keeps_http_call], assumption) (rule hoare_ret, auto simp: empty_result_def)

section \<open>The payload of a task\<close>

text \<open>The files other than those of the state of a task are as they were in \<open>s\<close>.\<close>

definition own_files :: "spool_store \<Rightarrow> string \<Rightarrow> fpath list \<Rightarrow> 'v store_state_scheme \<Rightarrow> 'w store_state_scheme \<Rightarrow> bool" where
  "own_files sl task_id extra s w \<longleftrightarrow> (\<forall>q. q \<noteq> state_node sl task_id \<longrightarrow> q \<noteq> state_tmp sl task_id \<longrightarrow> q \<notin> set extra \<longrightarrow>
     node_at w q = node_at s q)"

text \<open>The task file says that the payload is archived.\<close>

definition recorded :: "'j ds_json \<Rightarrow> spool_store \<Rightarrow> string \<Rightarrow> 'w store_state_scheme \<Rightarrow> bool" where
  "recorded dj sl task_id w \<longleftrightarrow> (\<exists>t. ct_task_id t = task_id \<and> ct_state t = Done \<and> ct_archive_id t \<noteq> 0 \<and>
     node_at w (state_node sl task_id) = Some (File (jl_dump dj (task_json dj t))))"

lemma own_files_only: "files_only (own_files sl task_id extra s)"
  by (simp add: files_only_def own_files_def node_at_def)

lemma own_files_saving: "own_files sl (ct_task_id t) [] s w \<Longrightarrow> saving sl (ct_task_id t) c w u \<Longrightarrow> own_files sl (ct_task_id t) [] s u"
  by (simp add: own_files_def saving_def)

lemma hoare_store_task:
  assumes name: "task_name (ct_task_id t)"
  shows "hoare (own_files sl (ct_task_id t) [] s) (store_task dj sl t)
    (\<lambda>_ w. own_files sl (ct_task_id t) [] s w \<and> node_at w (state_node sl (ct_task_id t)) = Some (File (jl_dump dj (task_json dj t))))
    (own_files sl (ct_task_id t) [] s)"
proof -
  let ?P = "own_files sl (ct_task_id t) [] s" and ?c = "jl_dump dj (task_json dj t)"
  have put: "keeps ?P (put_task t)"
    by (rule keeps_unmoved [OF own_files_only]) (simp add: put_task_def modify_def)
  have save: "hoare ?P (spool_save dj sl t)
      (\<lambda>_ w. ?P w \<and> node_at w (state_node sl (ct_task_id t)) = Some (File ?c)) ?P"
  proof (cases "dj_dumps dj (task_json dj t)")
    case True
    note saved = hoareD [OF hoare_spool_save [OF name True refl] saving_refl]
    show ?thesis
      by (rule hoareI) (blast intro: own_files_saving dest: saved)+
  next
    case False
    then show ?thesis by (simp add: spool_save_def Let_def hoare_throw)
  qed
  show ?thesis unfolding store_task_def by (rule hoare_seq [OF put save])
qed

text \<open>What every end of \<open>processTask\<close> satisfies.\<close>

definition payload_safe ::
    "'j ds_json \<Rightarrow> spool_store \<Rightarrow> string \<Rightarrow> fpath \<Rightarrow> 'v store_state_scheme \<Rightarrow> 'w store_state_scheme \<Rightarrow> bool" where
  "payload_safe dj sl task_id p s w \<longleftrightarrow> own_files sl task_id [p] s w \<and>
     (node_at w p = node_at s p \<or> recorded dj sl task_id w)"

lemma payload_safe_kept: "p \<noteq> state_node sl task_id \<Longrightarrow> p \<noteq> state_tmp sl task_id \<Longrightarrow> own_files sl task_id [] s w \<Longrightarrow>
    payload_safe dj sl task_id p s w"
  by (simp add: payload_safe_def own_files_def)

lemma hoare_remove_payload:
  fixes s :: "'v store_state_scheme"
  assumes "path_of (ct_payload_path t) = p" and "p \<noteq> state_node sl task_id"
  shows "keeps (\<lambda>w :: 'w store_state_scheme. own_files sl task_id [p] s w \<and> recorded dj sl task_id w) (remove_payload sl t)"
proof -
  let ?P = "\<lambda>w :: 'w store_state_scheme. own_files sl task_id [p] s w \<and> recorded dj sl task_id w"
  have free: "event_free ?P" by (simp add: event_free_def own_files_def recorded_def)
  have unl: "keeps ?P (unlink_file p)"
    by (rule hoare_unlink [OF _ free]) (use assms(2) in \<open>auto simp: own_files_def recorded_def\<close>)
  show ?thesis
    unfolding remove_payload_def Let_def assms(1)
    by (auto intro!: hoare_throw hoare_bind [OF keeps_gets] hoare_bind [OF unl] hoare_sync_directory free)
qed

lemma hoare_give_up:
  assumes "task_name (ct_task_id t)"
  shows "keeps (own_files sl (ct_task_id t) [] s) (give_up dj sl rc t r)"
proof -
  have store: "keeps (own_files sl (ct_task_id t) [] s) (store_task dj sl u)" if "ct_task_id u = ct_task_id t" for u
    by (rule hoare_conseq [OF hoare_store_task [of u sl s dj]]) (use that assms in auto)
  show ?thesis
    unfolding give_up_def schedule_retry_def fail_task_def
    by (auto intro!: hoare_bind [OF keeps_now] own_files_only store simp: retry_task_def Let_def)
qed

lemma hoare_process_task:
  fixes s :: "'v store_state_scheme" and cr :: crypto
  assumes name: "task_name (ct_task_id t)" and p: "path_of (ct_payload_path t) = p"
    and apart: "p \<noteq> state_node sl (ct_task_id t)" "p \<noteq> state_tmp sl (ct_task_id t)"
  shows "hoare (own_files sl (ct_task_id t) [] s :: 'w collector_world_scheme \<Rightarrow> bool) (process_task dj cr cfg sl t)
    (\<lambda>_. payload_safe dj sl (ct_task_id t) p s) (payload_safe dj sl (ct_task_id t) p s)"
proof -
  let ?P = "own_files sl (ct_task_id t) [] s :: 'w collector_world_scheme \<Rightarrow> bool"
    and ?E = "payload_safe dj sl (ct_task_id t) p s :: 'w collector_world_scheme \<Rightarrow> bool"
  have weak: "hoare ?P m (\<lambda>_. ?E) ?E" if "keeps ?P m" for m :: "('w collector_world_scheme, spool_error, unit) proc"
    by (rule hoare_conseq [OF that]) (auto intro: payload_safe_kept [OF apart])
  have store: "keeps ?P (store_task dj sl u)" if "ct_task_id u = ct_task_id t" for u
    by (rule hoare_conseq [OF hoare_store_task [of u sl s dj]]) (use that name in auto)
  have give: "keeps ?P (give_up dj sl rc t r)" for rc r by (rule hoare_give_up [OF name])
  have ready: "keeps ?P (process_ready dj cr sl rc t device)" for rc device
    unfolding process_ready_def
    by (auto intro!: hoare_bind [OF keeps_create] own_files_only store give)
  have uploading: "keeps ?P (process_uploading dj cr sl rc t device)" for rc device
    unfolding process_uploading_def
    by (auto intro!: hoare_bind [OF keeps_progress] hoare_bind [OF keeps_upload_chunks] own_files_only store give
        hoare_bind [OF keeps_return] simp: session_lost_def)
  have archive: "hoare ?P (seq (store_task dj sl u) (remove_payload sl u)) (\<lambda>_. ?E) ?E"
    if u: "ct_task_id u = ct_task_id t" "ct_state u = Done" "ct_archive_id u \<noteq> 0" "ct_payload_path u = ct_payload_path t" for u
  proof (rule hoare_seq)
    let ?R = "\<lambda>w. own_files sl (ct_task_id t) [p] s w \<and> recorded dj sl (ct_task_id t) w"
    show "hoare ?P (store_task dj sl u) (\<lambda>_. ?R) ?E"
      by (rule hoare_conseq [OF hoare_store_task [of u sl s dj]])
        (use u name in \<open>auto simp: recorded_def own_files_def payload_safe_kept [OF apart]\<close>)
    show "hoare ?R (remove_payload sl u) (\<lambda>_. ?E) ?E"
      by (rule hoare_conseq [OF hoare_remove_payload [of u p sl "ct_task_id t" s dj]])
        (use u p apart in \<open>auto simp: payload_safe_def\<close>)
  qed
  have completing: "hoare ?P (process_completing dj cr sl rc t device) (\<lambda>_. ?E) ?E" for rc device
  proof -
    have "hoare (\<lambda>w. ?P w \<and> (cl_status r = Call_success \<longrightarrow> cl_archive_id r \<noteq> 0))
      (if cl_status r = Call_session_missing then store_task dj sl (session_lost t)
       else if cl_status r = Call_success
       then (let archived = t\<lparr>ct_state := Done, ct_archive_id := cl_archive_id r, ct_retry_attempts := 0,
               ct_next_attempt_milliseconds := 0, ct_last_error := ''''\<rparr>
             in seq (store_task dj sl archived) (remove_payload sl archived))
       else give_up dj sl rc t r) (\<lambda>_. ?E) ?E" for r
    proof (cases "cl_status r = Call_success \<longrightarrow> cl_archive_id r \<noteq> 0")
      case True
      have missing: "hoare ?P (store_task dj sl (session_lost t)) (\<lambda>_. ?E) ?E"
        by (rule weak, rule store) (simp add: session_lost_def)
      have up: "hoare ?P (give_up dj sl rc t r) (\<lambda>_. ?E) ?E" by (rule weak, rule give)
      show ?thesis
        unfolding Let_def
        by (rule hoare_pre [where P = ?P], intro hoare_if missing up archive) (use True in simp_all)
    qed (simp add: hoare_def)
    moreover have "hoare ?P (complete_upload dj cr t device)
        (\<lambda>r w. ?P w \<and> (cl_status r = Call_success \<longrightarrow> cl_archive_id r \<noteq> 0)) ?E"
      by (rule hoare_conseq [OF keeps_complete [OF own_files_only]]) (auto intro: payload_safe_kept [OF apart])
    ultimately show ?thesis unfolding process_completing_def by (rule hoare_bind [rotated])
  qed
  show ?thesis
    unfolding process_task_def fail_task_def
    by (auto split: option.splits task_state.splits intro!: weak ready uploading completing store hoare_ret
        payload_safe_kept [OF apart])
qed

text \<open>
  C6: A payload is removed only when it is archived: however processing a task ends (a call that fails, a
  crash, an exception), all files but those of the task are as before, and either the payload is too or the
  file of the task holds the state \<open>DONE\<close> with the number of an archive.
\<close>

theorem payload_kept:
  assumes "task_name (ct_task_id t)" and "p = path_of (ct_payload_path t)"
    and "p \<noteq> state_node sl (ct_task_id t)" and "p \<noteq> state_tmp sl (ct_task_id t)"
    and "process_task dj cr cfg sl t w = (x, u)"
  shows "(\<forall>q. q \<noteq> state_node sl (ct_task_id t) \<and> q \<noteq> state_tmp sl (ct_task_id t) \<and> q \<noteq> p \<longrightarrow> node_at u q = node_at w q) \<and>
    (node_at u p = node_at w p \<or> (\<exists>d. ct_task_id d = ct_task_id t \<and> ct_state d = Done \<and> ct_archive_id d \<noteq> 0 \<and>
       node_at u (state_node sl (ct_task_id t)) = Some (File (jl_dump dj (task_json dj d)))))"
proof -
  have start: "own_files sl (ct_task_id t) [] w w" by (simp add: own_files_def)
  note ends = hoareD [OF hoare_process_task [OF assms(1) assms(2) [symmetric] assms(3,4)] start]
  have "payload_safe dj sl (ct_task_id t) p w u"
    using ends assms(5) by (cases x) blast+
  then show ?thesis by (auto simp: payload_safe_def own_files_def recorded_def)
qed

section \<open>A sample\<close>

definition sample_collector_json :: ds_value where
  "sample_collector_json = Dobject [(''server_url'', Dstring ''http://ingest:8080''), (''spool_root'', Dstring ''/sp''),
     (''scan_interval_ms'', Dunsigned 1000), (''stable_scan_count'', Dunsigned 3), (''request_timeout_ms'', Dunsigned 5000),
     (''chunk_size_bytes'', Dunsigned 1048576), (''spool_max_bytes'', Dunsigned 1073741824),
     (''spool_min_free_bytes'', Dunsigned 1048576),
     (''retry'', Dobject [(''max_backoff_steps'', Dunsigned 6), (''base_delay_ms'', Dunsigned 500), (''max_delay_ms'', Dunsigned 60000)]),
     (''devices'', Darray [Dobject [(''line_id'', Dstring ''L1''), (''station_id'', Dstring ''S1''), (''device_id'', Dstring ''D1''),
        (''collector_id'', Dstring ''C1''), (''input_dir'', Dstring ''/in''), (''secret_env'', Dstring ''KEY''),
        (''seal_mode'', Dstring ''DONE_MARKER'')]])]"

definition sample_collector_environment :: "string \<Rightarrow> string option" where
  "sample_collector_environment = map_of [(''KEY'', ''secret'')]"

definition sample_collector_config :: collector_config where
  "sample_collector_config = \<lparr>kc_server_url = ''http://ingest:8080'', kc_spool_root = ''/sp'', kc_scan_interval_ms = 1000,
     kc_stable_scan_count = 3, kc_request_timeout_ms = 5000, kc_chunk_size_bytes = 1048576, kc_spool_max_bytes = 1073741824,
     kc_spool_min_free_bytes = 1048576,
     kc_retry = \<lparr>rc_max_backoff_steps = 6, rc_base_delay_ms = 500, rc_max_delay_ms = 60000\<rparr>,
     kc_devices = [\<lparr>cd_line_id = ''L1'', cd_station_id = ''S1'', cd_device_id = ''D1'', cd_collector_id = ''C1'',
       cd_input_dir = ''/in'', cd_secret_env = ''KEY'', cd_secret = ''secret'', cd_seal_mode = Done_marker\<rparr>]\<rparr>"

lemma sample_collector_loads:
  "load_collector_config (ds_sample_json [(''{C}'', sample_collector_json)]) sample_collector_environment (Some ''{C}'') =
     Inr sample_collector_config"
proof -
  have read: "dj_read (ds_sample_json [(''{C}'', sample_collector_json)]) ''{C}'' = Some sample_collector_json"
    by (simp add: ds_sample_json_def)
  show ?thesis
    unfolding load_collector_config_def option.case read
    by (simp add: sample_collector_json_def require_exact_keys_def collector_keys_def text_field_def int_field_def
        unsigned_field_def config_member_def checked_bind_def ensure_def valid_server_url_def load_retry_def load_device_def
        device_keys_def parse_mode_def sample_collector_environment_def is_smt_identifier_def is_alnum_def is_lower_def
        is_upper_def is_digit_def insert_commute sample_collector_config_def)
qed

theorem retry_bounded_witness:
  "ct_retry_attempts (retry_task (kc_retry sample_collector_config) sample_task ''NETWORK_ERROR'' 1000) \<le> 6 \<and>
   1500 \<le> ct_next_attempt_milliseconds (retry_task (kc_retry sample_collector_config) sample_task ''NETWORK_ERROR'' 1000)"
proof -
  have "0 \<le> ct_retry_attempts sample_task" by (simp add: sample_task_def)
  from retry_bounded [OF sample_collector_loads this refl, of "''NETWORK_ERROR''" 1000]
  show ?thesis by (simp add: sample_collector_config_def)
qed

text \<open>The last call of a task fails and the process is killed while it writes the state.\<close>

definition sample_failing_world :: collector_world where
  "sample_failing_world = \<lparr>st_nodes = [([''sp''], Dir), ([''sp'', ''states''], Dir), ([''sp'', ''files''], Dir),
       ([''sp'', ''files'', ''a.data''], File ''abc'')],
     st_events = [Io_fail, Io_ok, Io_crash], co_clock = 1700000000000, co_ticks = [], co_random = [Some (replicate 16 CHR 0x01)],
     co_replies = [], co_sent = [], co_mtimes = [], co_bavail = 1000, co_frsize = 4096, co_tasks = [],
     co_observations = [], co_stable_counts = []\<rparr>"

theorem payload_kept_witness:
  "let t = sample_task\<lparr>ct_state := Completing\<rparr>;
       u = snd (process_task sample_spool_json sample_crypto sample_collector_config sample_spool t sample_failing_world)
   in node_at u [''sp''] = Some Dir \<and>
     (node_at u [''sp'', ''files'', ''a.data''] = Some (File ''abc'') \<or>
      node_at u (state_node sample_spool (ct_task_id t)) \<noteq> None)"
proof -
  let ?t = "sample_task\<lparr>ct_state := Completing\<rparr>"
  have name: "task_name (ct_task_id ?t)" using sample_task_valid by (simp add: task_valid_def)
  have p: "[''sp'', ''files'', ''a.data''] = path_of (ct_payload_path ?t)" by (simp add: sample_task_def path_of_def)
  have nodes: "state_node sl i = path_of (state_dir sl) @ [i @ ''.json'']" "state_tmp sl i = path_of (state_dir sl) @ [i @ ''.json.tmp'']" for sl i
    by (simp_all add: state_node_def state_tmp_def)
  have kept: "node_at sample_failing_world [''sp''] = Some Dir"
    "node_at sample_failing_world [''sp'', ''files'', ''a.data''] = Some (File ''abc'')"
    by (simp_all add: sample_failing_world_def node_at_def)
  show ?thesis
    using payload_kept [OF name p _ _ prod.collapse [symmetric], of sample_spool sample_spool_json sample_crypto
        sample_collector_config sample_failing_world] kept
    unfolding Let_def by (auto simp: nodes sample_spool_dirs)
qed

end
