(* ===== verification/Collector_Requests.thy ===== *)
theory Collector_Requests
  imports Http_Uploader Archive_Storage
begin

text \<open>
  The collector against the service it talks to: its requests are accepted by the authentication of
  \<open>Device_Auth\<close>, and the chunks it uploads are those the service expects and put the file together again.
\<close>

section \<open>Signed requests\<close>

lemma signed_request_fields [simp]:
  "rq_method (signed_request cr uuid now meth path ct body device) = meth"
  "rq_path (signed_request cr uuid now meth path ct body device) = path"
  "rq_body (signed_request cr uuid now meth path ct body device) = body"
  "header (signed_request cr uuid now meth path ct body device) ''X-Device-Id'' = cd_device_id device"
  "header (signed_request cr uuid now meth path ct body device) ''X-Timestamp'' = int_to_string now"
  "header (signed_request cr uuid now meth path ct body device) ''X-Request-Id'' = ''col-'' @ uuid"
  "header (signed_request cr uuid now meth path ct body device) ''X-Content-SHA256'' = sha256_hex cr body"
  "header (signed_request cr uuid now meth path ct body device) ''X-Signature'' =
     hmac_sha256_hex cr (device_secret cr device)
       (canonical_string meth path (cd_device_id device) (int_to_string now) (''col-'' @ uuid) (sha256_hex cr body))"
  "list_all (has_header (signed_request cr uuid now meth path ct body device)) required_headers"
  by (simp_all add: signed_request_def Let_def header_def has_header_def required_headers_def)

lemma device_secret_digest: "device_secret cr device = cr_sha256 cr (cd_secret device)"
  by (simp add: device_secret_def hex_to_binary_def sha256_hex_def hex_pairs_of_bytes)

lemma signed_request_valid:
  "di_hmac_secret identity = cr_sha256 cr (cd_secret device) \<Longrightarrow>
   signature_valid cr (signed_request cr uuid now meth path ct body device) identity"
  by (simp add: signature_valid_def constant_time_equals_def device_secret_digest)

lemma digests_well_formed:
  assumes "digest_lengths cr"
  shows "is_lower_hex_digest (sha256_hex cr d)" "is_lower_hex_digest (hmac_sha256_hex cr k d)"
  using assms by (simp_all add: digest_lengths_def sha256_hex_def hmac_sha256_hex_def hex_digest_valid)

lemma uuid_chars:
  assumes "is_uuid s" and c: "c \<in> set s"
  shows "length s = 36" "c = CHR ''-'' \<or> is_digit c \<or> 97 \<le> byte c \<and> byte c \<le> 102"
proof -
  show len: "length s = 36" using assms(1) by (simp only: is_uuid_def split: if_splits)
  have all: "\<forall>i\<in>set [0..<36]. if i = 8 \<or> i = 13 \<or> i = 18 \<or> i = 23 then s ! i = CHR ''-''
        else is_digit (s ! i) \<or> byte (s ! i) \<ge> 97 \<and> byte (s ! i) \<le> 102"
    using assms(1) unfolding is_uuid_def list_all_iff len by (simp only: simp_thms if_False)
  obtain i where i: "i < 36" "s ! i = c" using c len by (auto simp: in_set_conv_nth)
  then have "i \<in> set [0..<36]" by (simp only: atLeastLessThan_iff set_upt le0 simp_thms)
  from bspec [OF all this] show "c = CHR ''-'' \<or> is_digit c \<or> 97 \<le> byte c \<and> byte c \<le> 102"
    unfolding i(2) by (simp only: split: if_splits) blast+
qed

lemma collector_request_id:
  assumes "length bytes = 16"
  shows "is_request_id (''col-'' @ uuid_of_bytes bytes)"
proof -
  note u = uuid_of_bytes_valid [OF assms]
  have len: "length (uuid_of_bytes bytes) = 36" using u by (simp only: is_uuid_def split: if_splits)
  have "is_alnum c \<or> c = CHR ''_'' \<or> c = CHR ''-''" if "c \<in> set (uuid_of_bytes bytes)" for c
    using uuid_chars(2) [OF u that] by (auto simp: is_alnum_def is_lower_def)
  then show ?thesis
    using len by (simp add: is_request_id_def list_all_iff is_alnum_def is_lower_def)
qed

lemma parse_digits_int:
  "list_all is_digit s \<Longrightarrow> foldl (\<lambda>parsed c. parsed * 10 + (int (byte c) - 48)) 0 s = int (digits_val s)"
proof (induction s rule: rev_induct)
  case (snoc c s)
  then show ?case by (simp add: digit_val_def is_digit_def of_nat_diff)
qed (simp add: digits_val_def)

lemma parse_unix_seconds_print:
  assumes "0 \<le> now" "now < 10 ^ 11"
  shows "parse_unix_seconds (int_to_string now) = Some now"
proof -
  have "nat now < 10 ^ 11" using assms by (simp add: nat_less_iff)
  then have len: "length (to_string (nat now)) \<le> 11" by (rule length_to_string_le) simp
  have digits: "list_all is_digit (to_string (nat now))" using to_string_digits by (simp add: list_all_iff)
  show ?thesis
    using assms len digits by (simp add: parse_unix_seconds_def int_to_string_def parse_digits_int)
qed

text \<open>
  C7: A request of the collector is authenticated: with the SHA-256 of the shared secret in the device row,
  the clocks within the tolerance and a fresh identifier, the service answers with the identity of the device.
\<close>

theorem collector_authenticated:
  assumes cr: "digest_lengths cr" and device: "device_ok device" and bytes: "length bytes = 16"
    and now: "0 \<le> now" "now < 10 ^ 11" "\<bar>unix_seconds (ds_clock w) - now\<bar> \<le> ac_timestamp_tolerance_seconds cfg"
    and row: "joined_device (cd_device_id device) w = Some identity" "di_enabled identity"
      "di_hmac_secret identity = cr_sha256 cr (cd_secret device)"
    and unused: "\<not> rexists (ds_clock w) (ds_redis w) (replay_key cfg (cd_device_id device) (''col-'' @ uuid_of_bytes bytes))"
  shows "fst (auth_step cr cfg (signed_request cr (uuid_of_bytes bytes) now meth path ct body device, [], []) w) =
    Some \<lparr>au_code = Success, au_message = ''success'', au_request_id = ''col-'' @ uuid_of_bytes bytes, au_identity = identity\<rparr>"
proof -
  have id: "is_smt_identifier (cd_device_id device)" using device by (simp add: device_ok_def)
  have same: "joined_device (cd_device_id device) (w\<lparr>st_events := [], ds_ticks := []\<rparr>) = Some identity"
    using row(1) by (simp add: joined_device_def cong: option.case_cong)
  show ?thesis
    unfolding auth_step_def prod.case authenticate_def Let_def signed_request_fields
    using unused row(2) now(3)
    by (simp add: id collector_request_id [OF bytes, simplified] digests_well_formed [OF cr] parse_unix_seconds_print [OF now(1,2)]
        run_task current_unix_seconds_def read_clock_def lookup_device_def mysql_query_def same
        signed_request_valid [OF row(3)] replay_check_def redis_call_def redis_effect_def exec_simps next_event_def
        Let_def set_nx_ex_def advance_clock_def del: task_if)
qed

section \<open>The chunks of a file\<close>

lemma write_at_nth:
  assumes "offset + length body \<le> length d"
  shows "length (write_at d offset body) = length d"
    "i < length d \<Longrightarrow> write_at d offset body ! i = (if offset \<le> i \<and> i < offset + length body then body ! (i - offset) else d ! i)"
  using assms by (auto simp: write_at_def nth_append min_def)

text \<open>A payload and the task that uploads it, with the limits the configurations of both sides keep.\<close>

definition upload_of :: "collector_task \<Rightarrow> string \<Rightarrow> bool" where
  "upload_of t c \<longleftrightarrow> length c = unat (ct_file_size t) \<and> 0 < ct_file_size t \<and> ct_file_size t \<le> 2 ^ 34 \<and>
     0 < ct_chunk_size t \<and> ct_chunk_size t \<le> 2 ^ 26 \<and>
     ct_chunk_count t = (ct_file_size t + ct_chunk_size t - 1) div ct_chunk_size t"

definition chunk_body :: "collector_task \<Rightarrow> string \<Rightarrow> nat \<Rightarrow> string" where
  "chunk_body t c k = take (unat (chunk_bytes t (word_of_nat k))) (drop (unat (chunk_offset t (word_of_nat k))) c)"

lemma chunk_position:
  assumes up: "upload_of t c" and k: "k < unat (ct_chunk_count t)"
  shows "unat (chunk_offset t (word_of_nat k)) = k * unat (ct_chunk_size t)"
    "k * unat (ct_chunk_size t) < length c"
    "unat (chunk_bytes t (word_of_nat k)) = min (unat (ct_chunk_size t)) (length c - k * unat (ct_chunk_size t))"
    "unat (word_of_nat k :: u64) = k"
proof -
  note exact = chunk_count_exact [of "ct_chunk_size t" "ct_file_size t"]
  have b: "0 < ct_chunk_size t" "ct_chunk_size t \<le> 2 ^ 26" "0 < ct_file_size t" "ct_file_size t \<le> 2 ^ 34"
    and n: "ct_chunk_count t = (ct_file_size t + ct_chunk_size t - 1) div ct_chunk_size t"
    and len: "length c = unat (ct_file_size t)" using up by (simp_all add: upload_of_def)
  note count = exact [OF b, folded n]
  have "k \<le> unat (ct_chunk_count t) - 1" using k by simp
  then have le: "k * unat (ct_chunk_size t) \<le> (unat (ct_chunk_count t) - 1) * unat (ct_chunk_size t)" by (rule mult_right_mono) simp
  then show below: "k * unat (ct_chunk_size t) < length c" unfolding len by (rule le_less_trans [OF _ count(2)])
  have "unat (ct_chunk_count t) < 2 ^ 64" by (rule less_le_trans [OF unsigned_less]) simp
  with k show word: "unat (word_of_nat k :: u64) = k"
    by (simp add: unat_of_nat take_bit_nat_eq_self)
  have size: "length c \<le> 2 ^ 34" using b(4) len by (simp add: word_le_nat_alt)
  then have small: "k * unat (ct_chunk_size t) < 2 ^ 64" using below by simp
  then show off: "unat (chunk_offset t (word_of_nat k)) = k * unat (ct_chunk_size t)"
    by (simp add: chunk_offset_def unat_word_ariths word take_bit_nat_eq_self)
  have "unat (ct_file_size t - chunk_offset t (word_of_nat k)) = length c - k * unat (ct_chunk_size t)"
    using below off len by (subst unat_sub) (simp_all add: word_le_nat_alt)
  then show "unat (chunk_bytes t (word_of_nat k)) = min (unat (ct_chunk_size t)) (length c - k * unat (ct_chunk_size t))"
    by (simp add: chunk_bytes_def min_def word_le_nat_alt)
qed

lemma chunk_body_accepted:
  assumes up: "upload_of t c" and k: "k < unat (ct_chunk_count t)"
  shows "length (chunk_body t c k) = unat (chunk_length (ct_file_size t) (ct_chunk_size t) (ct_chunk_count t) (word_of_nat k))"
proof -
  note pos = chunk_position [OF up k]
  have b: "0 < ct_chunk_size t" "ct_chunk_size t \<le> 2 ^ 26" "0 < ct_file_size t" "ct_file_size t \<le> 2 ^ 34"
    and n: "ct_chunk_count t = (ct_file_size t + ct_chunk_size t - 1) div ct_chunk_size t"
    and len: "length c = unat (ct_file_size t)" using up by (simp_all add: upload_of_def)
  note count = chunk_count_exact [of "ct_chunk_size t" "ct_file_size t", OF b, folded n]
  have body: "length (chunk_body t c k) = min (unat (ct_chunk_size t)) (length c - k * unat (ct_chunk_size t))"
    by (simp add: chunk_body_def pos)
  have size: "unat (ct_chunk_count t) < 2 ^ 64" by (rule less_le_trans [OF unsigned_less]) simp
  have "word_of_nat k + 1 = ct_chunk_count t \<longleftrightarrow> k + 1 = unat (ct_chunk_count t)"
  proof -
    have "unat (word_of_nat k + 1 :: u64) = k + 1"
      using k count(4) size pos(4) by (subst unat_word_ariths) simp
    then show ?thesis by (simp add: word_unat_eq_iff)
  qed
  moreover have "unat (ct_file_size t - word_of_nat k * ct_chunk_size t) = length c - k * unat (ct_chunk_size t)"
    using pos(1,2) len by (subst unat_sub) (simp_all add: word_le_nat_alt chunk_offset_def)
  moreover have "length c - k * unat (ct_chunk_size t) \<le> unat (ct_chunk_size t)" if "k + 1 = unat (ct_chunk_count t)"
    using count(3) len unfolding that [symmetric] by simp
  moreover have "unat (ct_chunk_size t) \<le> length c - k * unat (ct_chunk_size t)" if "k + 1 \<noteq> unat (ct_chunk_count t)"
  proof -
    have "k + 1 \<le> unat (ct_chunk_count t) - 1" using k that by simp
    then have "(k + 1) * unat (ct_chunk_size t) \<le> (unat (ct_chunk_count t) - 1) * unat (ct_chunk_size t)"
      by (rule mult_right_mono) simp
    then show ?thesis using count(2) len by simp
  qed
  ultimately show ?thesis
    by (auto simp: body chunk_length_def Let_def)
qed

text \<open>The chunks \<open>ns\<close> are read by the collector and written by the service, in this order.\<close>

fun deliver :: "collector_task \<Rightarrow> 'v collector_world_scheme \<Rightarrow> upload_session \<Rightarrow> nat list \<Rightarrow>
    'w store_state_scheme \<Rightarrow> 'w store_state_scheme" where
  "deliver t w session [] s = s"
| "deliver t w session (k # ks) s = (case fst (read_chunk t (word_of_nat k) w :: (unit, string option) result \<times> 'v collector_world_scheme) of
       Ret (Some body) \<Rightarrow> deliver t w session ks (snd (write_chunk session k body s :: (unit, bool) result \<times> 'w store_state_scheme))
     | _ \<Rightarrow> s)"

lemma transfer_quiet: "transfer_loop n [] = (Transferred, n, [])" by simp

lemma read_chunk_quiet:
  assumes "st_events w = []" and "node_at w (path_of (ct_payload_path t)) = Some (File c)"
    and "upload_of t c" "k < unat (ct_chunk_count t)"
  shows "read_chunk t (word_of_nat k) w = (Ret (Some (chunk_body t c k)), w)"
proof -
  note pos = chunk_position [OF assms(3,4)]
  show ?thesis
    using assms(1,2) pos(2)
    by (simp add: read_chunk_def Let_def attempt_call_def next_event_def exec_simps read_exactly_def pos chunk_body_def)
qed

lemma write_chunk_quiet:
  assumes "st_events s = []" and "node_at s (path_of (us_temp_path session)) = Some (File d)" and "body \<noteq> []"
  shows "write_chunk session k body s =
    (Ret True, put_node (path_of (us_temp_path session)) (File (write_at d (k * unat (us_chunk_size session)) body)) s)"
proof -
  have "s\<lparr>st_events := []\<rparr> = s" using assms(1) by (cases s) simp
  moreover have "(put_node p n s)\<lparr>st_events := []\<rparr> = put_node p n s" for p n
    using assms(1) by (cases s) (simp add: put_node_def)
  moreover have "st_events (put_node p n s) = []" for p n using assms(1) by (simp add: put_node_def)
  ultimately show ?thesis
    using assms
    by (simp add: write_chunk_def Let_def effect_call_def attempt_call_def next_event_def exec_simps pwrite_all_def is_file_def)
qed

lemma deliver_content:
  fixes s :: "'w store_state_scheme"
  assumes w: "st_events w = []" "node_at w (path_of (ct_payload_path t)) = Some (File c)" and up: "upload_of t c"
    and session: "us_chunk_size session = ct_chunk_size t"
  shows "st_events s = [] \<Longrightarrow> node_at s (path_of (us_temp_path session)) = Some (File d) \<Longrightarrow> length d = length c \<Longrightarrow>
    list_all (\<lambda>k. k < unat (ct_chunk_count t)) ns \<Longrightarrow>
    (\<And>i. i < length c \<Longrightarrow> i div unat (ct_chunk_size t) \<in> done \<Longrightarrow> d ! i = c ! i) \<Longrightarrow>
    \<exists>d'. node_at (deliver t w session ns s) (path_of (us_temp_path session)) = Some (File d') \<and> length d' = length c \<and>
      (\<forall>i < length c. i div unat (ct_chunk_size t) \<in> done \<union> set ns \<longrightarrow> d' ! i = c ! i)"
proof (induction ns arbitrary: s d "done")
  case (Cons k ns)
  let ?p = "path_of (us_temp_path session)" and ?n = "unat (ct_chunk_size t)" and ?body = "chunk_body t c k"
  have k: "k < unat (ct_chunk_count t)" using Cons.prems(4) by simp
  note pos = chunk_position [OF up k]
  have n: "0 < ?n" using up by (simp add: upload_of_def word_less_nat_alt)
  have body: "length ?body = min ?n (length c - k * ?n)" by (simp add: chunk_body_def pos)
  then have nonempty: "?body \<noteq> []" using pos(2) n by (cases "?body") auto
  let ?d = "write_at d (k * ?n) ?body" and ?s = "put_node ?p (File (write_at d (k * ?n) ?body)) s"
  have fit: "k * ?n + length ?body \<le> length d" using body pos(2) Cons.prems(3) by simp
  have deliver: "deliver t w session (k # ns) s = deliver t w session ns ?s"
    by (simp add: read_chunk_quiet [OF w up k] write_chunk_quiet [OF Cons.prems(1,2) nonempty] session)
  have "\<exists>d'. node_at (deliver t w session ns ?s) ?p = Some (File d') \<and> length d' = length c \<and>
      (\<forall>i < length c. i div ?n \<in> insert k done \<union> set ns \<longrightarrow> d' ! i = c ! i)"
  proof (rule Cons.IH)
    show "st_events ?s = []" using Cons.prems(1) by (simp add: put_node_def)
    show "node_at ?s ?p = Some (File ?d)" by simp
    show "length ?d = length c" using write_at_nth(1) [OF fit] Cons.prems(3) by simp
    show "list_all (\<lambda>k. k < unat (ct_chunk_count t)) ns" using Cons.prems(4) by simp
    show "?d ! i = c ! i" if i: "i < length c" "i div ?n \<in> insert k done" for i
    proof (cases "k * ?n \<le> i \<and> i < k * ?n + length ?body")
      case True
      then have "?d ! i = ?body ! (i - k * ?n)" using write_at_nth(2) [OF fit] i(1) Cons.prems(3) by simp
      also have "\<dots> = c ! i"
      proof -
        have "i - k * ?n < min ?n (length c - k * ?n)" using True body by linarith
        then show ?thesis using True i(1) by (simp add: chunk_body_def pos)
      qed
      finally show ?thesis .
    next
      case False
      have "i div ?n \<noteq> k"
      proof
        assume "i div ?n = k"
        then have "k * ?n \<le> i" "i < k * ?n + ?n" using n div_times_less_eq_dividend [of i ?n] dividend_less_div_times [OF n, of i] by auto
        then show False using False body i(1) by auto
      qed
      then have "i div ?n \<in> done" using i(2) by simp
      then have "d ! i = c ! i" using i(1) Cons.prems(5) by blast
      moreover have "?d ! i = d ! i" using write_at_nth(2) [OF fit, of i] False i(1) Cons.prems(3) by (simp only: if_not_P if_False)
      ultimately show ?thesis by simp
    qed
  qed
  then show ?case unfolding deliver by simp
qed auto

text \<open>
  C8: The chunks the collector reads have the lengths the service accepts, and delivered in any order, some of
  them more than once, they put the payload together in the temporary file that was allocated for it.
\<close>

theorem chunks_reassemble:
  fixes s :: "'w store_state_scheme"
  assumes "st_events w = []" "node_at w (path_of (ct_payload_path t)) = Some (File c)" and "upload_of t c"
    and "us_chunk_size session = ct_chunk_size t" "us_file_size session = ct_file_size t"
    and "st_events s = []" "node_at s (path_of (us_temp_path session)) = Some (File d)" "length d = unat (us_file_size session)"
    and "set ns = {..<unat (ct_chunk_count t)}"
  shows "node_at (deliver t w session ns s) (path_of (us_temp_path session)) = Some (File c) \<and>
    (\<forall>k < unat (ct_chunk_count t). length (chunk_body t c k) =
       unat (chunk_length (us_file_size session) (us_chunk_size session) (ct_chunk_count t) (word_of_nat k)))"
proof -
  have n: "0 < unat (ct_chunk_size t)" using assms(3) by (simp add: upload_of_def word_less_nat_alt)
  have len: "length d = length c" using assms(3,5,8) by (simp add: upload_of_def)
  obtain d' where d': "node_at (deliver t w session ns s) (path_of (us_temp_path session)) = Some (File d')" "length d' = length c"
    "\<forall>i < length c. i div unat (ct_chunk_size t) \<in> {} \<union> set ns \<longrightarrow> d' ! i = c ! i"
    using deliver_content [OF assms(1-4,6,7) len, of ns "{}"] assms(9) by (auto simp: list_all_iff)
  have "d' ! i = c ! i" if i: "i < length c" for i
  proof -
    have b: "0 < ct_chunk_size t" "ct_chunk_size t \<le> 2 ^ 26" "0 < ct_file_size t" "ct_file_size t \<le> 2 ^ 34"
      and cn: "ct_chunk_count t = (ct_file_size t + ct_chunk_size t - 1) div ct_chunk_size t"
      and size: "length c = unat (ct_file_size t)" using assms(3) by (simp_all add: upload_of_def)
    have "i < unat (ct_chunk_count t) * unat (ct_chunk_size t)"
      using i chunk_count_exact(3) [OF b, folded cn] size by simp
    then have "i div unat (ct_chunk_size t) < unat (ct_chunk_count t)" using n by (simp add: div_less_iff_less_mult)
    then show ?thesis using d'(3) i assms(9) by simp
  qed
  then have "d' = c" using d'(2) by (simp add: list_eq_iff_nth_eq)
  then show ?thesis using d'(1) chunk_body_accepted [OF assms(3)] assms(4,5) by simp
qed

section \<open>Samples\<close>

definition sample_collector_device :: collector_device where
  "sample_collector_device = \<lparr>cd_line_id = ''LINE-01'', cd_station_id = ''ST-01'', cd_device_id = ''DEV-01'',
     cd_collector_id = ''COL-01'', cd_input_dir = ''/in'', cd_secret_env = ''S'', cd_secret = ''k'',
     cd_seal_mode = Atomic_rename\<rparr>"

definition sample_uploading :: collector_task where
  "sample_uploading = \<lparr>ct_task_id = replicate 64 CHR ''a'', ct_source_path = ''/in/a.csv'', ct_payload_path = ''/sp/files/a.data'',
     ct_line_id = ''LINE-01'', ct_station_id = ''ST-01'', ct_device_id = ''DEV-01'', ct_collector_id = ''COL-01'', ct_work_order = ''W1'',
     ct_product_sn = ''P1'', ct_file_type = ''csv'', ct_result = ''PASS'', ct_original_filename = ''a.csv'',
     ct_produced_at = ''2024-01-01T00:00:00Z'', ct_file_size = 3, ct_source_mtime_ns = 5, ct_file_sha256 = replicate 64 CHR ''b'',
     ct_state = Uploading, ct_upload_id = ''u'', ct_chunk_size = 2, ct_chunk_count = 2, ct_retry_attempts = 0,
     ct_next_attempt_milliseconds = 0, ct_last_error = [], ct_archive_id = 0\<rparr>"

definition sample_collector_world :: collector_world where
  "sample_collector_world = \<lparr>st_nodes = [([''sp'', ''files'', ''a.data''], File ''abc'')], st_events = [], co_clock = 0,
     co_ticks = [], co_random = [], co_replies = [], co_sent = [], co_mtimes = [], co_bavail = 0, co_frsize = 0,
     co_tasks = [], co_observations = [], co_stable_counts = []\<rparr>"

definition sample_service_files :: "unit store_state_scheme" where
  "sample_service_files = \<lparr>st_nodes = [([''t'', ''u.part''], File (replicate 3 CHR 0x00))], st_events = []\<rparr>"

definition sample_upload_session :: upload_session where
  "sample_upload_session = \<lparr>us_upload_id = ''u'', us_state = ''UPLOADING'', us_device_id = ''DEV-01'', us_station_id = ''ST-01'',
     us_line_id = ''LINE-01'', us_collector_id = ''COL-01'', us_work_order = [], us_product_sn = [], us_file_type = ''csv'',
     us_result = [], us_original_filename = ''a.csv'', us_extension = ''csv'', us_temp_path = ''/t/u.part'',
     us_relative_path = [], us_produced_at = [], us_file_size = 3, us_file_sha256 = replicate 64 CHR ''b'', us_chunk_size = 2,
     us_chunk_count = 2, us_expires_at_seconds = 0, us_failure_code = [], us_archive_id = 0, us_archived_at_milliseconds = 0\<rparr>"

theorem collector_authenticated_witness:
  "granted (fst (auth_step sample_crypto (sample_auth_config 300 700)
      (signed_request sample_crypto (uuid_of_bytes (replicate 16 CHR ''r'')) 100 ''GET'' ''/'' [] [] sample_collector_device, [], [])
      (sample_ds_world\<lparr>ds_devices := map (\<lambda>d. d\<lparr>dv_hmac_secret := replicate 32 CHR ''a''\<rparr>) (ds_devices sample_ds_world)\<rparr>)))"
proof -
  let ?w = "sample_ds_world\<lparr>ds_devices := map (\<lambda>d. d\<lparr>dv_hmac_secret := replicate 32 CHR ''a''\<rparr>) (ds_devices sample_ds_world)\<rparr>"
  let ?i = "\<lparr>di_device_id = ''DEV-01'', di_station_id = ''ST-01'', di_line_id = ''LINE-01'', di_hmac_secret = replicate 32 CHR ''a'',
     di_enabled = True\<rparr>"
  have row: "joined_device (cd_device_id sample_collector_device) ?w = Some ?i"
    by (simp add: joined_device_def sample_ds_world_def sample_collector_device_def)
  have ok: "device_ok sample_collector_device" "digest_lengths sample_crypto"
    by (simp_all add: device_ok_def sample_collector_device_def is_smt_identifier_def is_upper_def is_digit_def
        digest_lengths_def sample_crypto_def)
  have unused: "\<not> rexists (ds_clock ?w) (ds_redis ?w) k" for k
    by (simp add: rexists_def live_def sample_ds_world_def)
  show ?thesis
    by (subst collector_authenticated [OF ok(2,1) _ _ _ _ row _ _ unused])
      (simp_all add: granted_def sample_crypto_def sample_auth_config_def sample_ds_world_def unix_seconds_def)
qed

theorem chunks_reassemble_witness:
  "node_at (deliver sample_uploading sample_collector_world sample_upload_session [1, 0, 1] sample_service_files)
     (path_of (us_temp_path sample_upload_session)) = Some (File ''abc'')"
proof -
  have up: "upload_of sample_uploading ''abc''" by (simp add: upload_of_def sample_uploading_def)
  show ?thesis
    by (rule conjunct1, rule chunks_reassemble [OF _ _ up, where d = "replicate 3 CHR 0x00"])
      (auto simp: path_of_def sample_collector_world_def sample_service_files_def node_at_def sample_uploading_def sample_upload_session_def)
qed

end
