(* ===== verification/Ingest_Config.thy ===== *)
theory Ingest_Config
  imports Config_Fields Upload_Model Device_Auth
begin

text \<open>
  The configuration of the ingest service and its strict loader (\<open>config/app_config.cpp\<close> of DataStream),
  one definition per section of the file. What loads is within the limits the theorems about uploads,
  quotas, cleaning and paging assume. For authentication the loader only keeps the entries of request
  identifiers from being shorter than the tolerance; replay protection needs more than twice the
  tolerance (\<open>Device_Auth.no_replay\<close>), and \<open>Auth_Replay\<close> shows what a loadable configuration permits.
\<close>

section \<open>The configuration\<close>

record http_config =
  hc_listen_address :: string
  hc_port :: "16 word"
  hc_request_body_limit_bytes :: u64
  hc_graceful_shutdown_timeout_seconds :: int

record mysql_config =
  mc_host :: string
  mc_port :: "16 word"
  mc_database :: string
  mc_user :: string
  mc_password_env :: string
  mc_password :: string

record redis_config =
  rd_host :: string
  rd_port :: "16 word"
  rd_database :: int
  rd_username :: string
  rd_password_env :: string
  rd_password :: string
  rd_key_prefix :: string

record operator_auth_config =
  oc_bearer_token_env :: string
  oc_bearer_token :: string

record cleanup_config =
  cl_interval_seconds :: int
  cl_expired_retention_seconds :: int

record query_config =
  qc_default_page_size :: int
  qc_max_page_size :: int
  qc_max_time_range_days :: int

record logging_config =
  lc_level :: string
  lc_file :: string
  lc_max_file_size_bytes :: u64
  lc_max_files :: u64

record app_config =
  ap_http :: http_config
  ap_mysql :: mysql_config
  ap_redis :: redis_config
  ap_operator_auth :: operator_auth_config
  ap_check_timeout_ms :: int
  ap_auth :: "int \<times> int"
  ap_heartbeat_ttl_seconds :: int
  ap_upload :: upload_config
  ap_cleanup :: cleanup_config
  ap_query :: query_config
  ap_logging :: logging_config

text \<open>The two times of \<open>AuthConfig\<close> with the key prefix the authenticator is given beside them.\<close>

definition app_auth_config :: "app_config \<Rightarrow> auth_config" where
  "app_auth_config cfg = \<lparr>ac_timestamp_tolerance_seconds = fst (ap_auth cfg),
     ac_request_id_ttl_seconds = snd (ap_auth cfg), ac_key_prefix = rd_key_prefix (ap_redis cfg)\<rparr>"

section \<open>The loader\<close>

definition require_port :: "'j ds_json \<Rightarrow> 'j \<Rightarrow> string \<Rightarrow> (16 word) checked" where
  "require_port dj v context = checked_bind (require_unsigned dj v ''port'' 1 65535 context) (\<lambda>n. Inr (ucast n))"

definition load_http :: "'j ds_json \<Rightarrow> 'j \<Rightarrow> http_config checked" where
  "load_http dj v =
     require_exact_keys dj v [''listen_address'', ''port'', ''request_body_limit_bytes'',
        ''graceful_shutdown_timeout_seconds''] ''http''
     (checked_bind (require_string dj v ''listen_address'' ''http'') (\<lambda>address.
      ensure (is_simple_host address) ''http.listen_address has invalid characters''
     (checked_bind (require_port dj v ''http'') (\<lambda>port.
      checked_bind (require_unsigned dj v ''request_body_limit_bytes'' 1 (64 * 1024 * 1024) ''http'') (\<lambda>limit.
      checked_bind (require_int dj v ''graceful_shutdown_timeout_seconds'' 1 300 ''http'') (\<lambda>timeout.
      Inr \<lparr>hc_listen_address = address, hc_port = port, hc_request_body_limit_bytes = limit,
        hc_graceful_shutdown_timeout_seconds = timeout\<rparr>))))))"

definition load_mysql :: "'j ds_json \<Rightarrow> (string \<Rightarrow> string option) \<Rightarrow> 'j \<Rightarrow> mysql_config checked" where
  "load_mysql dj getenv v =
     require_exact_keys dj v [''host'', ''port'', ''database'', ''user'', ''password_env''] ''mysql''
     (checked_bind (require_string dj v ''host'' ''mysql'') (\<lambda>host.
      checked_bind (require_port dj v ''mysql'') (\<lambda>port.
      checked_bind (require_string dj v ''database'' ''mysql'') (\<lambda>database.
      checked_bind (require_string dj v ''user'' ''mysql'') (\<lambda>user.
      checked_bind (require_string dj v ''password_env'' ''mysql'') (\<lambda>password_env.
      ensure (is_simple_host host \<and> is_simple_identifier database \<and> is_simple_identifier user)
        ''mysql host, database, or user has invalid characters''
     (checked_bind (require_environment getenv password_env ''mysql.password_env'') (\<lambda>password.
      Inr \<lparr>mc_host = host, mc_port = port, mc_database = database, mc_user = user, mc_password_env = password_env,
        mc_password = password\<rparr>))))))))"

definition load_redis :: "'j ds_json \<Rightarrow> (string \<Rightarrow> string option) \<Rightarrow> 'j \<Rightarrow> redis_config checked" where
  "load_redis dj getenv v =
     require_exact_keys dj v [''host'', ''port'', ''database'', ''username'', ''password_env'', ''key_prefix''] ''redis''
     (checked_bind (require_string dj v ''host'' ''redis'') (\<lambda>host.
      checked_bind (require_port dj v ''redis'') (\<lambda>port.
      checked_bind (require_int dj v ''database'' 0 15 ''redis'') (\<lambda>database.
      checked_bind (require_string dj v ''username'' ''redis'') (\<lambda>username.
      checked_bind (require_string dj v ''key_prefix'' ''redis'') (\<lambda>key_prefix.
      ensure (is_simple_host host \<and> is_redis_username username) ''redis host or username has invalid characters''
     (checked_bind (config_member dj v ''password_env'') (\<lambda>env_json.
      checked_bind (if dj_is_null dj env_json then Inr ('''', '''')
        else checked_bind (require_string dj v ''password_env'' ''redis'') (\<lambda>env.
          checked_bind (require_environment getenv env ''redis.password_env'') (\<lambda>password. Inr (env, password))))
        (\<lambda>(env, password).
      Inr \<lparr>rd_host = host, rd_port = port, rd_database = database, rd_username = username, rd_password_env = env,
        rd_password = password, rd_key_prefix = key_prefix\<rparr>)))))))))"

definition load_operator_auth :: "'j ds_json \<Rightarrow> (string \<Rightarrow> string option) \<Rightarrow> 'j \<Rightarrow> operator_auth_config checked" where
  "load_operator_auth dj getenv v =
     require_exact_keys dj v [''bearer_token_env''] ''operator_auth''
     (checked_bind (require_string dj v ''bearer_token_env'' ''operator_auth'') (\<lambda>env.
      checked_bind (require_environment getenv env ''operator_auth.bearer_token_env'') (\<lambda>token.
      ensure (16 \<le> length token) ''operator token must contain at least 16 characters''
        (Inr \<lparr>oc_bearer_token_env = env, oc_bearer_token = token\<rparr>))))"

definition load_auth :: "'j ds_json \<Rightarrow> 'j \<Rightarrow> (int \<times> int) checked" where
  "load_auth dj v =
     require_exact_keys dj v [''timestamp_tolerance_seconds'', ''request_id_ttl_seconds''] ''auth''
     (checked_bind (require_int dj v ''timestamp_tolerance_seconds'' 1 3600 ''auth'') (\<lambda>tolerance.
      checked_bind (require_int dj v ''request_id_ttl_seconds'' 1 86400 ''auth'') (\<lambda>ttl.
      ensure (tolerance \<le> ttl) ''auth.request_id_ttl_seconds is shorter than the accepted time window''
        (Inr (tolerance, ttl)))))"

definition upload_keys :: "string list" where
  "upload_keys = [''session_ttl_seconds'', ''min_chunk_size_bytes'', ''max_chunk_size_bytes'', ''max_file_size_bytes'',
     ''hash_mmap_window_bytes'', ''min_free_space_bytes'', ''min_free_space_percent'', ''max_active_sessions'',
     ''max_device_sessions'', ''max_collector_sessions'', ''max_reserved_bytes'', ''temp_root'', ''archive_root'']"

definition load_upload :: "'j ds_json \<Rightarrow> u64 \<Rightarrow> 'j \<Rightarrow> upload_config checked" where
  "load_upload dj body_limit v =
     require_exact_keys dj v upload_keys ''upload''
     (checked_bind (require_int dj v ''session_ttl_seconds'' 60 (7 * 86400) ''upload'') (\<lambda>session_ttl.
      checked_bind (require_unsigned dj v ''min_chunk_size_bytes'' 1 (64 * 1024 * 1024) ''upload'') (\<lambda>min_chunk.
      checked_bind (require_unsigned dj v ''max_chunk_size_bytes'' 1 (64 * 1024 * 1024) ''upload'') (\<lambda>max_chunk.
      checked_bind (require_unsigned dj v ''max_file_size_bytes'' 1 (16 * 1024 * 1024 * 1024) ''upload'') (\<lambda>max_file.
      checked_bind (require_unsigned dj v ''hash_mmap_window_bytes'' 4096 (1024 * 1024 * 1024) ''upload'') (\<lambda>window.
      checked_bind (require_unsigned dj v ''min_free_space_bytes'' 0 (1024 * 1024 * 1024 * 1024) ''upload'') (\<lambda>min_free.
      checked_bind (require_int dj v ''min_free_space_percent'' 0 99 ''upload'') (\<lambda>min_percent.
      checked_bind (require_int dj v ''max_active_sessions'' 1 10000 ''upload'') (\<lambda>max_active.
      checked_bind (require_int dj v ''max_device_sessions'' 1 1000 ''upload'') (\<lambda>max_device.
      checked_bind (require_int dj v ''max_collector_sessions'' 1 1000 ''upload'') (\<lambda>max_collector.
      checked_bind (require_unsigned dj v ''max_reserved_bytes'' 1 (16 * 1024 * 1024 * 1024 * 1024) ''upload'') (\<lambda>max_reserved.
      checked_bind (require_string dj v ''temp_root'' ''upload'') (\<lambda>temp_root.
      checked_bind (require_string dj v ''archive_root'' ''upload'') (\<lambda>archive_root.
      ensure (temp_root \<noteq> archive_root) ''upload.temp_root and upload.archive_root must differ''
     (ensure (min_chunk \<le> max_chunk \<and> max_chunk \<le> max_file \<and> max_chunk \<le> body_limit)
        ''upload chunk and file size limits are inconsistent''
     (ensure (max_device \<le> max_active \<and> max_collector \<le> max_active \<and> max_file \<le> max_reserved)
        ''upload session quota limits are inconsistent''
     (Inr \<lparr>uc_session_ttl_seconds = session_ttl, uc_min_chunk_size_bytes = min_chunk, uc_max_chunk_size_bytes = max_chunk,
        uc_max_file_size_bytes = max_file, uc_hash_mmap_window_bytes = window, uc_min_free_space_bytes = min_free,
        uc_min_free_space_percent = nat min_percent, uc_max_active_sessions = nat max_active,
        uc_max_device_sessions = nat max_device, uc_max_collector_sessions = nat max_collector,
        uc_max_reserved_bytes = max_reserved, uc_temp_root = temp_root, uc_archive_root = archive_root\<rparr>)))))))))))))))))"

definition load_cleanup :: "'j ds_json \<Rightarrow> 'j \<Rightarrow> cleanup_config checked" where
  "load_cleanup dj v =
     require_exact_keys dj v [''interval_seconds'', ''expired_retention_seconds''] ''cleanup''
     (checked_bind (require_int dj v ''interval_seconds'' 1 86400 ''cleanup'') (\<lambda>seconds.
      checked_bind (require_int dj v ''expired_retention_seconds'' 1 (30 * 86400) ''cleanup'') (\<lambda>retention.
      Inr \<lparr>cl_interval_seconds = seconds, cl_expired_retention_seconds = retention\<rparr>)))"

definition load_query :: "'j ds_json \<Rightarrow> 'j \<Rightarrow> query_config checked" where
  "load_query dj v =
     require_exact_keys dj v [''default_page_size'', ''max_page_size'', ''max_time_range_days''] ''query''
     (checked_bind (require_int dj v ''default_page_size'' 1 1000 ''query'') (\<lambda>default_size.
      checked_bind (require_int dj v ''max_page_size'' 1 1000 ''query'') (\<lambda>max_size.
      checked_bind (require_int dj v ''max_time_range_days'' 1 366 ''query'') (\<lambda>days.
      ensure (default_size \<le> max_size) ''query.default_page_size exceeds query.max_page_size''
        (Inr \<lparr>qc_default_page_size = default_size, qc_max_page_size = max_size, qc_max_time_range_days = days\<rparr>)))))"

definition load_logging :: "'j ds_json \<Rightarrow> 'j \<Rightarrow> logging_config checked" where
  "load_logging dj v =
     require_exact_keys dj v [''level'', ''file'', ''max_file_size_bytes'', ''max_files''] ''logging''
     (checked_bind (require_string dj v ''level'' ''logging'') (\<lambda>level.
      checked_bind (require_string dj v ''file'' ''logging'') (\<lambda>log_file.
      checked_bind (require_unsigned dj v ''max_file_size_bytes'' (1024 * 1024) (1024 * 1024 * 1024) ''logging'') (\<lambda>size.
      checked_bind (require_unsigned dj v ''max_files'' 1 100 ''logging'') (\<lambda>files.
      ensure (supported_log_level level) ''logging.level is not supported''
        (Inr \<lparr>lc_level = level, lc_file = log_file, lc_max_file_size_bytes = size, lc_max_files = files\<rparr>))))))"

definition config_keys :: "string list" where
  "config_keys = [''http'', ''mysql'', ''redis'', ''operator_auth'', ''health'', ''auth'', ''device'', ''upload'', ''cleanup'',
     ''query'', ''logging'']"

definition load_app_config ::
    "'j ds_json \<Rightarrow> (string \<Rightarrow> string option) \<Rightarrow> string option \<Rightarrow> app_config checked" where
  "load_app_config dj getenv content = (case content of
       None \<Rightarrow> Inl ''cannot open config file: ''
     | Some c \<Rightarrow> (case dj_read dj c of None \<Rightarrow> Inl ''invalid config JSON: '' | Some json \<Rightarrow>
     require_exact_keys dj json config_keys ''config''
     (checked_bind (config_member dj json ''http'') (\<lambda>http_json.
      checked_bind (load_http dj http_json) (\<lambda>http.
      checked_bind (config_member dj json ''mysql'') (\<lambda>mysql_json.
      checked_bind (load_mysql dj getenv mysql_json) (\<lambda>mysql.
      checked_bind (config_member dj json ''redis'') (\<lambda>redis_json.
      checked_bind (load_redis dj getenv redis_json) (\<lambda>redis.
      checked_bind (config_member dj json ''operator_auth'') (\<lambda>operator_json.
      checked_bind (load_operator_auth dj getenv operator_json) (\<lambda>operator_auth.
      checked_bind (config_member dj json ''health'') (\<lambda>health.
      require_exact_keys dj health [''check_timeout_ms''] ''health''
     (checked_bind (require_int dj health ''check_timeout_ms'' 100 30000 ''health'') (\<lambda>check_timeout.
      checked_bind (config_member dj json ''auth'') (\<lambda>auth_json.
      checked_bind (load_auth dj auth_json) (\<lambda>auth.
      checked_bind (config_member dj json ''device'') (\<lambda>device.
      require_exact_keys dj device [''heartbeat_ttl_seconds''] ''device''
     (checked_bind (require_int dj device ''heartbeat_ttl_seconds'' 1 3600 ''device'') (\<lambda>heartbeat_ttl.
      checked_bind (config_member dj json ''upload'') (\<lambda>upload_json.
      checked_bind (load_upload dj (hc_request_body_limit_bytes http) upload_json) (\<lambda>upload.
      checked_bind (config_member dj json ''cleanup'') (\<lambda>cleanup_json.
      checked_bind (load_cleanup dj cleanup_json) (\<lambda>cleanup.
      checked_bind (config_member dj json ''query'') (\<lambda>query_json.
      checked_bind (load_query dj query_json) (\<lambda>query.
      checked_bind (config_member dj json ''logging'') (\<lambda>logging_json.
      checked_bind (load_logging dj logging_json) (\<lambda>logging.
      Inr \<lparr>ap_http = http, ap_mysql = mysql, ap_redis = redis, ap_operator_auth = operator_auth,
        ap_check_timeout_ms = check_timeout, ap_auth = auth, ap_heartbeat_ttl_seconds = heartbeat_ttl,
        ap_upload = upload, ap_cleanup = cleanup, ap_query = query, ap_logging = logging\<rparr>)))))))))))))))))))))))))))"

section \<open>What a loaded configuration satisfies\<close>

definition http_ok :: "http_config \<Rightarrow> bool" where
  "http_ok h \<longleftrightarrow> is_simple_host (hc_listen_address h) \<and> hc_request_body_limit_bytes h \<le> 2 ^ 26 \<and>
     1 \<le> hc_graceful_shutdown_timeout_seconds h \<and> hc_graceful_shutdown_timeout_seconds h \<le> 300"

definition quota_ok :: "upload_config \<Rightarrow> bool" where
  "quota_ok u \<longleftrightarrow> 0 < uc_max_device_sessions u \<and> uc_max_device_sessions u \<le> uc_max_active_sessions u \<and>
     0 < uc_max_collector_sessions u \<and> uc_max_collector_sessions u \<le> uc_max_active_sessions u \<and>
     uc_max_file_size_bytes u \<le> uc_max_reserved_bytes u \<and> uc_min_free_space_percent u \<le> 99 \<and>
     60 \<le> uc_session_ttl_seconds u \<and> uc_session_ttl_seconds u \<le> 7 * 86400"

definition auth_times_ok :: "int \<times> int \<Rightarrow> bool" where
  "auth_times_ok a \<longleftrightarrow> 1 \<le> fst a \<and> fst a \<le> 3600 \<and> fst a \<le> snd a \<and> snd a \<le> 86400"

definition query_ok :: "query_config \<Rightarrow> bool" where
  "query_ok q \<longleftrightarrow> 1 \<le> qc_default_page_size q \<and> qc_default_page_size q \<le> qc_max_page_size q \<and>
     qc_max_page_size q \<le> 1000 \<and> 1 \<le> qc_max_time_range_days q \<and> qc_max_time_range_days q \<le> 366"

definition app_config_ok :: "app_config \<Rightarrow> bool" where
  "app_config_ok cfg \<longleftrightarrow> http_ok (ap_http cfg) \<and> upload_limits (ap_upload cfg) \<and> quota_ok (ap_upload cfg) \<and>
     uc_min_chunk_size_bytes (ap_upload cfg) \<le> uc_max_chunk_size_bytes (ap_upload cfg) \<and>
     uc_max_chunk_size_bytes (ap_upload cfg) \<le> hc_request_body_limit_bytes (ap_http cfg) \<and>
     uc_temp_root (ap_upload cfg) \<noteq> uc_archive_root (ap_upload cfg) \<and> auth_times_ok (ap_auth cfg) \<and>
     query_ok (ap_query cfg) \<and> 16 \<le> length (oc_bearer_token (ap_operator_auth cfg)) \<and>
     1 \<le> cl_interval_seconds (ap_cleanup cfg) \<and> 1 \<le> cl_expired_retention_seconds (ap_cleanup cfg)"

lemma load_http_ok:
  assumes "load_http dj v = Inr h"
  shows "http_ok h"
proof -
  obtain l t where f: "require_unsigned dj v ''request_body_limit_bytes'' 1 (64 * 1024 * 1024) ''http'' = Inr l"
    "require_int dj v ''graceful_shutdown_timeout_seconds'' 1 300 ''http'' = Inr t"
    and h: "is_simple_host (hc_listen_address h)" "hc_request_body_limit_bytes h = l" "hc_graceful_shutdown_timeout_seconds h = t"
    using assms by (auto simp: load_http_def config_simps)
  show ?thesis
    using require_unsigned_bounds [OF f(1)] require_int_bounds [OF f(2)] h by (simp add: http_ok_def)
qed

lemma load_auth_ok:
  assumes "load_auth dj v = Inr a"
  shows "auth_times_ok a"
proof -
  obtain t l where f: "require_int dj v ''timestamp_tolerance_seconds'' 1 3600 ''auth'' = Inr t"
    "require_int dj v ''request_id_ttl_seconds'' 1 86400 ''auth'' = Inr l" and a: "a = (t, l)" "t \<le> l"
    using assms by (auto simp: load_auth_def config_simps)
  show ?thesis using require_int_bounds [OF f(1)] require_int_bounds [OF f(2)] a by (simp add: auth_times_ok_def)
qed

lemma load_query_ok:
  assumes "load_query dj v = Inr q"
  shows "query_ok q"
proof -
  obtain d m n where f: "require_int dj v ''default_page_size'' 1 1000 ''query'' = Inr d"
    "require_int dj v ''max_page_size'' 1 1000 ''query'' = Inr m" "require_int dj v ''max_time_range_days'' 1 366 ''query'' = Inr n"
    and q: "d \<le> m" "q = \<lparr>qc_default_page_size = d, qc_max_page_size = m, qc_max_time_range_days = n\<rparr>"
    using assms by (auto simp: load_query_def config_simps)
  show ?thesis
    using require_int_bounds [OF f(1)] require_int_bounds [OF f(2)] require_int_bounds [OF f(3)] q
    by (simp add: query_ok_def)
qed

lemma load_cleanup_ok:
  assumes "load_cleanup dj v = Inr c"
  shows "1 \<le> cl_interval_seconds c \<and> 1 \<le> cl_expired_retention_seconds c"
proof -
  obtain n r where f: "require_int dj v ''interval_seconds'' 1 86400 ''cleanup'' = Inr n"
    "require_int dj v ''expired_retention_seconds'' 1 (30 * 86400) ''cleanup'' = Inr r"
    and c: "c = \<lparr>cl_interval_seconds = n, cl_expired_retention_seconds = r\<rparr>"
    using assms by (auto simp: load_cleanup_def config_simps)
  show ?thesis using require_int_bounds [OF f(1)] require_int_bounds [OF f(2)] c by simp
qed

lemma load_operator_auth_ok: "load_operator_auth dj getenv v = Inr a \<Longrightarrow> 16 \<le> length (oc_bearer_token a)"
  unfolding load_operator_auth_def config_simps sum.inject by (elim exE conjE, hypsubst) simp

lemma load_upload_ok:
  assumes "load_upload dj limit v = Inr u"
  shows "upload_limits u" "quota_ok u" "uc_min_chunk_size_bytes u \<le> uc_max_chunk_size_bytes u"
    "uc_max_chunk_size_bytes u \<le> limit" "uc_temp_root u \<noteq> uc_archive_root u"
proof -
  obtain t a b c w m p n d k r x y where
    f: "require_int dj v ''session_ttl_seconds'' 60 (7 * 86400) ''upload'' = Inr t"
    "require_unsigned dj v ''min_chunk_size_bytes'' 1 (64 * 1024 * 1024) ''upload'' = Inr a"
    "require_unsigned dj v ''max_chunk_size_bytes'' 1 (64 * 1024 * 1024) ''upload'' = Inr b"
    "require_unsigned dj v ''max_file_size_bytes'' 1 (16 * 1024 * 1024 * 1024) ''upload'' = Inr c"
    "require_int dj v ''min_free_space_percent'' 0 99 ''upload'' = Inr p"
    "require_int dj v ''max_active_sessions'' 1 10000 ''upload'' = Inr n"
    "require_int dj v ''max_device_sessions'' 1 1000 ''upload'' = Inr d"
    "require_int dj v ''max_collector_sessions'' 1 1000 ''upload'' = Inr k"
    and g: "a \<le> b" "b \<le> c" "b \<le> limit" "d \<le> n" "k \<le> n" "c \<le> r" "x \<noteq> y"
    and u: "\<lparr>uc_session_ttl_seconds = t, uc_min_chunk_size_bytes = a, uc_max_chunk_size_bytes = b,
        uc_max_file_size_bytes = c, uc_hash_mmap_window_bytes = w, uc_min_free_space_bytes = m,
        uc_min_free_space_percent = nat p, uc_max_active_sessions = nat n, uc_max_device_sessions = nat d,
        uc_max_collector_sessions = nat k, uc_max_reserved_bytes = r, uc_temp_root = x, uc_archive_root = y\<rparr> = u"
    using assms unfolding load_upload_def config_simps sum.inject
    by - (elim exE conjE, rule that, assumption+)
  note bounds = require_int_bounds [OF f(1)] require_unsigned_bounds [OF f(2)] require_unsigned_bounds [OF f(3)]
    require_unsigned_bounds [OF f(4)] require_int_bounds [OF f(5)] require_int_bounds [OF f(6)]
    require_int_bounds [OF f(7)] require_int_bounds [OF f(8)]
  show "uc_min_chunk_size_bytes u \<le> uc_max_chunk_size_bytes u" "uc_max_chunk_size_bytes u \<le> limit"
    "uc_temp_root u \<noteq> uc_archive_root u" using g unfolding u [symmetric] by simp_all
  have "0 < a" using bounds(2) by (simp add: word_less_nat_alt word_le_nat_alt)
  then show "upload_limits u" using bounds(3,4) unfolding u [symmetric] by (simp add: upload_limits_def)
  show "quota_ok u" using bounds(1,5-8) g unfolding u [symmetric] by (simp add: quota_ok_def nat_mono nat_le_iff)
qed

lemma load_app_config_times:
  assumes "load_app_config dj getenv content = Inr cfg"
  shows "auth_times_ok (ap_auth cfg)"
  using assms by (auto simp: load_app_config_def config_simps split: option.splits intro: load_auth_ok)

text \<open>
  C21: A configuration the service starts with has its fields in their ranges: the sizes of chunks, bodies
  and files in their order, the quotas and the free-space rule, different roots, a token of 16 characters,
  positive intervals and the pages. Of the authentication it says that the tolerance is between 1 and 3600
  seconds and the entries of request identifiers live at least as long and at most a day, which is less
  than replay protection needs (C4, C38).
\<close>

theorem load_app_config_ok:
  assumes "load_app_config dj getenv content = Inr cfg"
  shows "app_config_ok cfg"
proof -
  obtain h o' a u c q where
    parts: "load_http dj h = Inr (ap_http cfg)" "load_operator_auth dj getenv o' = Inr (ap_operator_auth cfg)"
      "load_auth dj a = Inr (ap_auth cfg)" "load_upload dj (hc_request_body_limit_bytes (ap_http cfg)) u = Inr (ap_upload cfg)"
      "load_cleanup dj c = Inr (ap_cleanup cfg)" "load_query dj q = Inr (ap_query cfg)"
    using assms by (auto simp: load_app_config_def config_simps split: option.splits)
  show ?thesis
    using load_http_ok [OF parts(1)] load_operator_auth_ok [OF parts(2)] load_auth_ok [OF parts(3)]
      load_upload_ok [OF parts(4)] load_cleanup_ok [OF parts(5)] load_query_ok [OF parts(6)]
    by (simp add: app_config_ok_def)
qed

section \<open>A sample\<close>

definition sample_http_json :: ds_value where
  "sample_http_json = Dobject [(''listen_address'', Dstring ''0.0.0.0''), (''port'', Dunsigned 8080),
     (''request_body_limit_bytes'', Dunsigned 8388608), (''graceful_shutdown_timeout_seconds'', Dunsigned 10)]"

definition sample_mysql_json :: ds_value where
  "sample_mysql_json = Dobject [(''host'', Dstring ''db''), (''port'', Dunsigned 3306), (''database'', Dstring ''smt''),
     (''user'', Dstring ''u''), (''password_env'', Dstring ''PW'')]"

definition sample_redis_json :: ds_value where
  "sample_redis_json = Dobject [(''host'', Dstring ''kv''), (''port'', Dunsigned 6379), (''database'', Dunsigned 0),
     (''username'', Dstring ''u''), (''password_env'', Dnull), (''key_prefix'', Dstring ''ds:'')]"

definition sample_upload_json :: ds_value where
  "sample_upload_json = Dobject [(''session_ttl_seconds'', Dunsigned 86400), (''min_chunk_size_bytes'', Dunsigned 1),
     (''max_chunk_size_bytes'', Dunsigned 4194304), (''max_file_size_bytes'', Dunsigned 1073741824),
     (''hash_mmap_window_bytes'', Dunsigned 67108864), (''min_free_space_bytes'', Dunsigned 0),
     (''min_free_space_percent'', Dunsigned 5), (''max_active_sessions'', Dunsigned 100),
     (''max_device_sessions'', Dunsigned 10), (''max_collector_sessions'', Dunsigned 20),
     (''max_reserved_bytes'', Dunsigned 1099511627776), (''temp_root'', Dstring ''/t''), (''archive_root'', Dstring ''/a'')]"

definition sample_config_json :: ds_value where
  "sample_config_json = Dobject [(''http'', sample_http_json), (''mysql'', sample_mysql_json), (''redis'', sample_redis_json),
     (''operator_auth'', Dobject [(''bearer_token_env'', Dstring ''TOKEN'')]),
     (''health'', Dobject [(''check_timeout_ms'', Dunsigned 1000)]),
     (''auth'', Dobject [(''timestamp_tolerance_seconds'', Dunsigned 300), (''request_id_ttl_seconds'', Dunsigned 600)]),
     (''device'', Dobject [(''heartbeat_ttl_seconds'', Dunsigned 60)]), (''upload'', sample_upload_json),
     (''cleanup'', Dobject [(''interval_seconds'', Dunsigned 60), (''expired_retention_seconds'', Dunsigned 3600)]),
     (''query'', Dobject [(''default_page_size'', Dunsigned 50), (''max_page_size'', Dunsigned 200),
        (''max_time_range_days'', Dunsigned 31)]),
     (''logging'', Dobject [(''level'', Dstring ''info''), (''file'', Dstring ''/l''),
        (''max_file_size_bytes'', Dunsigned 1048576), (''max_files'', Dunsigned 3)])]"

definition sample_environment :: "string \<Rightarrow> string option" where
  "sample_environment = map_of [(''PW'', ''secret''), (''TOKEN'', ''0123456789abcdef'')]"

lemma sample_variables: "sample_environment ''PW'' = Some ''secret''" "sample_environment ''TOKEN'' = Some ''0123456789abcdef''"
  by (simp_all add: sample_environment_def)

lemmas config_eval = require_exact_keys_def require_string_def require_unsigned_def require_int_def require_port_def
  require_environment_def config_member_def is_simple_host_def is_simple_identifier_def is_redis_username_def
  is_lower_def is_upper_def is_digit_def supported_log_level_def sample_variables insert_commute

lemma sample_http_loads: "\<exists>h. load_http (ds_sample_json texts) sample_http_json = Inr h \<and> hc_request_body_limit_bytes h = 8388608"
  by (simp add: load_http_def sample_http_json_def config_eval)

lemma sample_stores_load:
  "\<exists>m. load_mysql (ds_sample_json texts) sample_environment sample_mysql_json = Inr m"
  "\<exists>r. load_redis (ds_sample_json texts) sample_environment sample_redis_json = Inr r"
  by (simp_all add: load_mysql_def load_redis_def sample_mysql_json_def sample_redis_json_def config_eval)

lemma sample_upload_loads: "\<exists>u. load_upload (ds_sample_json texts) 8388608 sample_upload_json = Inr u"
  by (simp add: load_upload_def sample_upload_json_def upload_keys_def config_eval)

lemma sample_config_member:
  "jl_keys (ds_sample_json texts) sample_config_json = Some config_keys"
  "jl_at (ds_sample_json texts) sample_config_json key = map_of (case sample_config_json of Dobject kvs \<Rightarrow> kvs | _ \<Rightarrow> []) key"
  by (simp_all add: sample_config_json_def config_keys_def)

lemma sample_config_loads:
  "\<exists>cfg. load_app_config (ds_sample_json [(''{C}'', sample_config_json)]) sample_environment (Some ''{C}'') = Inr cfg \<and>
     ap_auth cfg = (300, 600)"
proof -
  define texts where "texts = [(''{C}'', sample_config_json)]"
  let ?dj = "ds_sample_json texts"
  obtain h where h: "load_http ?dj sample_http_json = Inr h" "hc_request_body_limit_bytes h = 8388608"
    using sample_http_loads by blast
  obtain m r u where loaded: "load_mysql ?dj sample_environment sample_mysql_json = Inr m"
    "load_redis ?dj sample_environment sample_redis_json = Inr r" "load_upload ?dj 8388608 sample_upload_json = Inr u"
    using sample_stores_load sample_upload_loads by blast
  have read: "dj_read ?dj ''{C}'' = Some sample_config_json" by (simp add: ds_sample_json_def texts_def)
  show ?thesis
    unfolding load_app_config_def option.case texts_def [symmetric] read
    by (simp add: require_exact_keys_def [of _ _ config_keys] sample_config_member config_member_def [of _ sample_config_json])
      (simp add: sample_config_json_def h loaded load_operator_auth_def load_auth_def load_cleanup_def load_query_def
        load_logging_def config_eval)
qed

theorem load_app_config_ok_witness:
  "\<exists>cfg. load_app_config (ds_sample_json [(''{C}'', sample_config_json)]) sample_environment (Some ''{C}'') = Inr cfg \<and>
     app_config_ok cfg"
  using sample_config_loads load_app_config_ok by blast

end
