(* ===== verification/Archive_Query.thy ===== *)
theory Archive_Query
  imports Archive_Storage Ingest_Config "HOL-Library.Product_Lexorder"
begin

text \<open>
  The archive query interface: the page cursor (\<open>common/archive_cursor.cpp\<close>), the operator token
  (\<open>auth/operator_authenticator.cpp\<close>), the checks of a query and the two handlers
  (\<open>api/archive_controller.cpp\<close>) and their statements (\<open>archive/archive_repository.cpp\<close>). The Base64
  coder of OpenSSL and the URL decoder of wfrest are parameters.
\<close>

section \<open>The cursor\<close>

record archive_cursor =
  ck_archived_at_milliseconds :: int
  ck_archive_id :: u64

text \<open>\<open>EVP_EncodeBlock\<close>, and \<open>EVP_DecodeBlock\<close> with the bytes it writes (it does not drop those of the padding).\<close>

record base64 =
  b6_encode :: "string \<Rightarrow> string"
  b6_decode :: "string \<Rightarrow> string option"

definition base64_alphabet :: "char \<Rightarrow> bool" where
  "base64_alphabet c \<longleftrightarrow> is_upper c \<or> is_lower c \<or> is_digit c \<or> c = CHR ''+'' \<or> c = CHR ''/''"

definition base64_laws :: "base64 \<Rightarrow> bool" where
  "base64_laws b \<longleftrightarrow> (\<forall>bytes. length bytes = 16 \<longrightarrow> length (b6_encode b bytes) = 24 \<and>
     list_all base64_alphabet (take 22 (b6_encode b bytes)) \<and> drop 22 (b6_encode b bytes) = ''=='' \<and>
     b6_decode b (b6_encode b bytes) = Some (bytes @ [CHR 0x00, CHR 0x00]))"

definition be_bytes :: "u64 \<Rightarrow> string" where
  "be_bytes v = map (\<lambda>i. char_of (unat (drop_bit ((7 - i) * 8) v AND 0xFF))) [0..<8]"

definition be_value :: "string \<Rightarrow> u64" where
  "be_value s = foldl (\<lambda>acc c. push_bit 8 acc OR word_of_nat (byte c)) 0 s"

definition replace_char :: "char \<Rightarrow> char \<Rightarrow> string \<Rightarrow> string" where
  "replace_char a b s = map (\<lambda>c. if c = a then b else c) s"

definition encode_archive_cursor :: "base64 \<Rightarrow> archive_cursor \<Rightarrow> string" where
  "encode_archive_cursor b cursor =
     (let bytes = be_bytes (word_of_int (ck_archived_at_milliseconds cursor)) @ be_bytes (ck_archive_id cursor);
          encoded = replace_char CHR ''/'' CHR ''_'' (replace_char CHR ''+'' CHR ''-'' (b6_encode b bytes))
      in rev (dropWhile (\<lambda>c. c = CHR ''='') (rev encoded)))"

definition decode_archive_cursor :: "base64 \<Rightarrow> string \<Rightarrow> archive_cursor option" where
  "decode_archive_cursor b s =
     (if length s \<noteq> 22 then None
      else if \<not> list_all (\<lambda>c. is_upper c \<or> is_lower c \<or> is_digit c \<or> c = CHR ''-'' \<or> c = CHR ''_'') s then None
      else case b6_decode b (replace_char CHR ''_'' CHR ''/'' (replace_char CHR ''-'' CHR ''+'' (s @ ''==''))) of
          None \<Rightarrow> None
        | Some decoded \<Rightarrow>
            if length decoded \<noteq> 18 then None
            else let timestamp = be_value (take 8 decoded); archive_id = be_value (take 8 (drop 8 decoded)) in
              if timestamp > 0x7FFFFFFFFFFFFFFF \<or> timestamp = 0 \<or> archive_id = 0 then None
              else Some \<lparr>ck_archived_at_milliseconds = sint timestamp, ck_archive_id = archive_id\<rparr>)"

section \<open>Queries\<close>

text \<open>A bound that was not given is \<open>None\<close> (\<open>has_archived_from\<close> and its like are false).\<close>

record archive_query =
  aq_device_id :: string
  aq_station_id :: string
  aq_work_order :: string
  aq_product_sn :: string
  aq_file_type :: string
  aq_result :: string
  aq_archived_from :: "int option"
  aq_archived_to :: "int option"
  aq_page_size :: int
  aq_cursor :: "archive_cursor option"

record archive_page =
  pg_items :: "archive_entry list"
  pg_has_more :: bool

definition operator_granted :: "string \<Rightarrow> string \<Rightarrow> bool" where
  "operator_granted bearer_token authorization =
     (let prefix = ''Bearer '' in take (length prefix) authorization = prefix \<and>
        constant_time_equals (drop (length prefix) authorization) bearer_token)"

definition archive_parameters :: "string list" where
  "archive_parameters = [''device_id'', ''station_id'', ''work_order'', ''product_sn'', ''file_type'', ''result'',
     ''archived_from'', ''archived_to'', ''page_size'', ''cursor'']"

definition has_query :: "http_request \<Rightarrow> string \<Rightarrow> bool" where
  "has_query rq name \<longleftrightarrow> map_of (rq_query rq) name \<noteq> None"

definition query_value :: "(string \<Rightarrow> string) \<Rightarrow> http_request \<Rightarrow> string \<Rightarrow> string" where
  "query_value url_decode rq name = (case map_of (rq_query rq) name of None \<Rightarrow> '''' | Some s \<Rightarrow> url_decode s)"

definition archive_file_types :: "string list" where
  "archive_file_types = [''DETECTION_RESULT'', ''TEST_REPORT'', ''NG_IMAGE'', ''DEVICE_EXPORT'', ''RUNTIME_LOG'']"

text \<open>The two bounds; \<open>Inl ()\<close> when they are not a range the service accepts.\<close>

definition archive_range ::
    "(string \<Rightarrow> string) \<Rightarrow> query_config \<Rightarrow> http_request \<Rightarrow> unit + int option \<times> int option" where
  "archive_range url_decode cfg rq =
     (if has_query rq ''archived_from'' \<noteq> has_query rq ''archived_to'' then Inl ()
      else if \<not> has_query rq ''archived_from'' then Inr (None, None)
      else case (parse_iso8601_milliseconds (query_value url_decode rq ''archived_from''),
          parse_iso8601_milliseconds (query_value url_decode rq ''archived_to'')) of
        (Some lo, Some hi) \<Rightarrow>
          if lo > hi \<or> hi - lo > qc_max_time_range_days cfg * 86400 * 1000 then Inl () else Inr (Some lo, Some hi)
      | _ \<Rightarrow> Inl ())"

definition archive_page_size :: "(string \<Rightarrow> string) \<Rightarrow> query_config \<Rightarrow> http_request \<Rightarrow> int option" where
  "archive_page_size url_decode cfg rq =
     (if \<not> has_query rq ''page_size'' then Some (qc_default_page_size cfg)
      else case parse_unsigned_field (query_value url_decode rq ''page_size'') of
          None \<Rightarrow> None
        | Some n \<Rightarrow> if n = 0 \<or> n > word_of_int (qc_max_page_size cfg) then None else Some (sint (ucast n :: 32 word)))"

definition parse_archive_query ::
    "base64 \<Rightarrow> (string \<Rightarrow> string) \<Rightarrow> query_config \<Rightarrow> http_request \<Rightarrow> (ds_code \<times> string) + archive_query" where
  "parse_archive_query b url_decode cfg rq =
     (let got = query_value url_decode rq; refused = (\<lambda>message. Inl (Invalid_argument, message));
          device_id = got ''device_id''; station_id = got ''station_id''; work_order = got ''work_order'';
          product_sn = got ''product_sn''; file_type = got ''file_type''; test_result = got ''result'' in
      if \<not> list_all (\<lambda>(name, v). name \<in> set archive_parameters \<and> v \<noteq> '''') (rq_query rq)
      then refused ''archive query contains an invalid parameter''
      else if device_id \<noteq> '''' \<and> \<not> is_smt_identifier device_id \<or> station_id \<noteq> '''' \<and> \<not> is_smt_identifier station_id \<or>
        work_order \<noteq> '''' \<and> \<not> is_printable_ascii work_order 64 \<or> product_sn \<noteq> '''' \<and> \<not> is_printable_ascii product_sn 96
      then refused ''archive query identifier is invalid''
      else if file_type \<noteq> '''' \<and> file_type \<notin> set archive_file_types \<or>
        test_result \<noteq> '''' \<and> test_result \<noteq> ''PASS'' \<and> test_result \<noteq> ''NG''
      then refused ''archive query business filter is invalid''
      else case archive_range url_decode cfg rq of Inl _ \<Rightarrow> refused ''archive time range is invalid'' | Inr (lo, hi) \<Rightarrow>
      if work_order = '''' \<and> product_sn = '''' \<and> lo = None
      then refused ''archive time range is required without an exact trace filter''
      else case archive_page_size url_decode cfg rq of None \<Rightarrow> refused ''page_size is invalid'' | Some page_size \<Rightarrow>
      let q = \<lparr>aq_device_id = device_id, aq_station_id = station_id, aq_work_order = work_order,
            aq_product_sn = product_sn, aq_file_type = file_type, aq_result = test_result, aq_archived_from = lo,
            aq_archived_to = hi, aq_page_size = page_size, aq_cursor = None\<rparr> in
      if \<not> has_query rq ''cursor'' then Inr q
      else case decode_archive_cursor b (got ''cursor'') of
          None \<Rightarrow> Inl (Invalid_cursor, ''cursor is invalid'')
        | Some cursor \<Rightarrow> Inr (q\<lparr>aq_cursor := Some cursor\<rparr>))"

section \<open>Statements\<close>

text \<open>The instant a DATETIME column or literal denotes; the server refuses a statement with a literal that denotes none.\<close>

definition sql_instant :: "string \<Rightarrow> int option" where
  "sql_instant s = Option.bind (mysql_datetime_to_iso8601 s) parse_iso8601_milliseconds"

definition sql_literal :: "int \<Rightarrow> int option" where
  "sql_literal ms = sql_instant (format_mysql_milliseconds ms)"

definition row_time :: "archive_entry \<Rightarrow> int" where
  "row_time r = (case sql_instant (ar_archived_at r) of None \<Rightarrow> 0 | Some t \<Rightarrow> t)"

text \<open>\<open>=\<close> of the collation \<open>ascii_bin\<close>, which pads with spaces; a NULL column (the empty string) equals nothing.\<close>

definition sql_equal :: "string \<Rightarrow> string \<Rightarrow> bool" where
  "sql_equal a b \<longleftrightarrow> dropWhile (\<lambda>c. c = CHR '' '') (rev a) = dropWhile (\<lambda>c. c = CHR '' '') (rev b)"

definition column_matches :: "string \<Rightarrow> string \<Rightarrow> bool" where
  "column_matches wanted column \<longleftrightarrow> wanted = '''' \<or> column \<noteq> '''' \<and> sql_equal column wanted"

definition after_cursor :: "archive_cursor \<Rightarrow> archive_entry \<Rightarrow> bool" where
  "after_cursor c r \<longleftrightarrow> (case sql_literal (ck_archived_at_milliseconds c) of
       None \<Rightarrow> False
     | Some t \<Rightarrow> row_time r < t \<or> row_time r = t \<and> ar_archive_id r < ck_archive_id c)"

definition row_matches :: "archive_query \<Rightarrow> archive_entry \<Rightarrow> bool" where
  "row_matches q r \<longleftrightarrow> column_matches (aq_device_id q) (ar_device_id r) \<and>
     column_matches (aq_station_id q) (ar_station_id r) \<and> column_matches (aq_work_order q) (ar_work_order r) \<and>
     column_matches (aq_product_sn q) (ar_product_sn r) \<and> column_matches (aq_file_type q) (ar_file_type r) \<and>
     column_matches (aq_result q) (ar_result r) \<and>
     (case aq_archived_from q of None \<Rightarrow> True | Some ms \<Rightarrow> (case sql_literal ms of None \<Rightarrow> False | Some t \<Rightarrow> t \<le> row_time r)) \<and>
     (case aq_archived_to q of None \<Rightarrow> True | Some ms \<Rightarrow> (case sql_literal ms of None \<Rightarrow> False | Some t \<Rightarrow> row_time r \<le> t)) \<and>
     (case aq_cursor q of None \<Rightarrow> True | Some c \<Rightarrow> after_cursor c r)"

definition literals_valid :: "archive_query \<Rightarrow> bool" where
  "literals_valid q \<longleftrightarrow> pred_option (\<lambda>ms. sql_literal ms \<noteq> None) (aq_archived_from q) \<and>
     pred_option (\<lambda>ms. sql_literal ms \<noteq> None) (aq_archived_to q) \<and>
     pred_option (\<lambda>c. sql_literal (ck_archived_at_milliseconds c) \<noteq> None) (aq_cursor q)"

text \<open>\<open>ORDER BY archived_at DESC,archive_id DESC\<close>\<close>

definition newest_first :: "archive_entry list \<Rightarrow> archive_entry list" where
  "newest_first rows = sort_key (\<lambda>r. (- row_time r, - int (unat (ar_archive_id r)))) rows"

definition select_page :: "archive_query \<Rightarrow> archive_entry list \<Rightarrow> archive_entry list option" where
  "select_page q rows =
     (if literals_valid q then Some (take (nat (aq_page_size q + 1)) (newest_first (filter (row_matches q) rows))) else None)"

definition list_archives :: "archive_query \<Rightarrow> ('w ds_world_scheme, 'e, archive_page option) proc" where
  "list_archives q = bind (mysql_query (\<lambda>w. select_page q (ds_archives w))) (\<lambda>reply.
     ret (case Option.bind reply id of
         None \<Rightarrow> None
       | Some rows \<Rightarrow> (case those (map parse_entry_row rows) of
             None \<Rightarrow> None
           | Some items \<Rightarrow> let has_more = int (length items) > aq_page_size q in
               Some \<lparr>pg_items = (if has_more then take (nat (aq_page_size q)) items else items), pg_has_more = has_more\<rparr>)))"

definition find_by_id :: "u64 \<Rightarrow> ('w ds_world_scheme, 'e, archive_lookup) proc" where
  "find_by_id archive_id = bind (mysql_query (\<lambda>w. find (\<lambda>r. ar_archive_id r = archive_id) (ds_archives w))) (\<lambda>reply.
     ret (case reply of
         None \<Rightarrow> Archive_lookup_unavailable
       | Some None \<Rightarrow> Archive_absent
       | Some (Some row) \<Rightarrow> (case parse_entry_row row of None \<Rightarrow> Archive_lookup_unavailable | Some r \<Rightarrow> Archive_found r)))"

section \<open>Handlers\<close>

record archive_controller =
  ay_bearer_token :: string
  ay_config :: query_config
  ay_base64 :: base64
  ay_url_decode :: "string \<Rightarrow> string"

definition summary_fields :: "'j ds_json \<Rightarrow> archive_entry \<Rightarrow> (string \<times> 'j) list" where
  "summary_fields dj r =
     [(''archive_id'', jl_unsigned dj (ar_archive_id r)), (''device_id'', jl_string dj (ar_device_id r)),
      (''station_id'', jl_string dj (ar_station_id r)), (''work_order'', nullable_json dj (ar_work_order r)),
      (''product_sn'', nullable_json dj (ar_product_sn r)), (''file_type'', jl_string dj (ar_file_type r)),
      (''result'', nullable_json dj (ar_result r)), (''original_filename'', jl_string dj (ar_original_filename r)),
      (''file_size'', jl_unsigned dj (ar_file_size r)), (''produced_at'', jl_string dj (ar_produced_at r)),
      (''archived_at'', jl_string dj (ar_archived_at r))]"

definition summary_json :: "'j ds_json \<Rightarrow> archive_entry \<Rightarrow> 'j" where
  "summary_json dj r = jl_object dj (summary_fields dj r)"

definition detail_json :: "'j ds_json \<Rightarrow> archive_entry \<Rightarrow> 'j" where
  "detail_json dj r = jl_object dj (summary_fields dj r @
     [(''line_id'', jl_string dj (ar_line_id r)), (''collector_id'', jl_string dj (ar_collector_id r)),
      (''upload_id'', jl_string dj (ar_upload_id r)), (''relative_path'', jl_string dj (ar_relative_path r)),
      (''file_sha256'', jl_string dj (ar_file_sha256 r))])"

definition next_cursor :: "base64 \<Rightarrow> archive_page \<Rightarrow> string option" where
  "next_cursor b page =
     (if pg_has_more page \<and> pg_items page \<noteq> []
      then let r = last (pg_items page) in Some (encode_archive_cursor b
        \<lparr>ck_archived_at_milliseconds = ar_archived_at_milliseconds r, ck_archive_id = ar_archive_id r\<rparr>)
      else None)"

definition archive_page_json :: "'j ds_json \<Rightarrow> base64 \<Rightarrow> archive_page \<Rightarrow> 'j" where
  "archive_page_json dj b page = jl_object dj
     [(''items'', jl_array dj (map (summary_json dj) (pg_items page))),
      (''next_cursor'', case next_cursor b page of None \<Rightarrow> dj_null dj | Some s \<Rightarrow> jl_string dj s)]"

text \<open>The check of the operator token both handlers begin with.\<close>

definition as_operator ::
    "'j ds_json \<Rightarrow> archive_controller \<Rightarrow> string \<Rightarrow> http_request \<Rightarrow>
     ('w ds_world_scheme, 'j api_response) chain \<Rightarrow> ('w ds_world_scheme, 'j api_response) chain" where
  "as_operator dj ay request_id rq serve =
     (if \<not> has_header rq ''Authorization''
      then Finished (refuse dj Auth_required ''Authorization header is required'' request_id)
      else if \<not> operator_granted (ay_bearer_token ay) (header rq ''Authorization'')
      then Finished (refuse dj Ds_operator_token_invalid ''operator token is invalid'' request_id)
      else serve)"

definition list_handler ::
    "'j ds_json \<Rightarrow> archive_controller \<Rightarrow> string \<Rightarrow> http_request \<Rightarrow> ('w ds_world_scheme, 'j api_response) chain" where
  "list_handler dj ay request_id rq = as_operator dj ay request_id rq
     (case parse_archive_query (ay_base64 ay) (ay_url_decode ay) (ay_config ay) rq of
        Inl (code, message) \<Rightarrow> Finished (refuse dj code message request_id)
      | Inr q \<Rightarrow> task (list_archives q) (\<lambda>reply. Finished (case reply of
            None \<Rightarrow> refuse dj Mysql_unavailable ''MySQL is unavailable'' request_id
          | Some page \<Rightarrow> send_api_response dj Success ''success'' request_id (archive_page_json dj (ay_base64 ay) page))))"

definition archive_detail_handler ::
    "'j ds_json \<Rightarrow> archive_controller \<Rightarrow> string \<Rightarrow> http_request \<Rightarrow> ('w ds_world_scheme, 'j api_response) chain" where
  "archive_detail_handler dj ay request_id rq = as_operator dj ay request_id rq
     (case parse_unsigned_field (param rq ''archive_id'') of
        None \<Rightarrow> Finished (refuse dj Invalid_argument ''archive_id is invalid'' request_id)
      | Some archive_id \<Rightarrow>
          if archive_id = 0 then Finished (refuse dj Invalid_argument ''archive_id is invalid'' request_id)
          else task (find_by_id archive_id) (\<lambda>reply. Finished (case reply of
              Archive_absent \<Rightarrow> refuse dj Archive_not_found ''archive was not found'' request_id
            | Archive_lookup_unavailable \<Rightarrow> refuse dj Mysql_unavailable ''MySQL is unavailable'' request_id
            | Archive_found r \<Rightarrow> send_api_response dj Success ''success'' request_id (detail_json dj r))))"

end
