(* ===== verification/Archive_Paging.thy ===== *)
theory Archive_Paging
  imports Archive_Query Binary_Format
begin

text \<open>
  What the page cursor promises: it is read back as it was written, and a client that follows the cursors
  gets every archive that was there when it began once, in order, after finitely many pages, whatever
  is archived between two pages.
\<close>

section \<open>The cursor\<close>

lemma be_bytes_rev: "be_bytes v = rev (le_bytes 8 v)"
  by (simp add: be_bytes_def le_bytes_def upt_rec)

lemma bit_be_value: "bit (be_value s) j \<longleftrightarrow> j < 64 \<and> j div 8 < length s \<and> bit (byte (rev s ! (j div 8))) (j mod 8)"
proof (induction s arbitrary: j rule: rev_induct)
  case (snoc c s)
  have step: "be_value (s @ [c]) = push_bit 8 (be_value s) OR word_of_nat (byte c)" by (simp add: be_value_def)
  show ?case
  proof (cases "j < 8")
    case True
    then show ?thesis by (simp add: step bit_or_iff bit_push_bit_iff bit_of_nat_iff)
  next
    case False
    then have "j div 8 = Suc ((j - 8) div 8)" "j mod 8 = (j - 8) mod 8"
      by (simp_all add: le_div_geq le_mod_geq)
    then show ?thesis
      using False bit_byte [of c j] snoc.IH [of "j - 8"]
      by (auto simp: step bit_or_iff bit_push_bit_iff bit_of_nat_iff)
  qed
qed (simp add: be_value_def)

lemma be_value_bytes [simp]: "be_value (be_bytes v) = v"
proof (rule bit_word_eqI)
  fix j assume "j < LENGTH(64)"
  then have "j < 64" "j div 8 < 8" by simp_all
  then show "bit (be_value (be_bytes v)) j \<longleftrightarrow> bit v j"
    by (simp add: bit_be_value be_bytes_rev bit_le_bytes)
qed

lemma length_be_bytes [simp]: "length (be_bytes v) = 8"
  by (simp add: be_bytes_def)

lemma replace_replace:
  "list_all base64_alphabet s \<Longrightarrow> replace_char CHR ''_'' CHR ''/'' (replace_char CHR ''-'' CHR ''+''
     (replace_char CHR ''/'' CHR ''_'' (replace_char CHR ''+'' CHR ''-'' s))) = s"
  by (induction s) (auto simp: replace_char_def base64_alphabet_def is_upper_def is_lower_def is_digit_def)

lemma replaced_alphabet:
  "list_all base64_alphabet s \<Longrightarrow> list_all (\<lambda>c. is_upper c \<or> is_lower c \<or> is_digit c \<or> c = CHR ''-'' \<or> c = CHR ''_'')
     (replace_char CHR ''/'' CHR ''_'' (replace_char CHR ''+'' CHR ''-'' s))"
  by (induction s) (auto simp: replace_char_def base64_alphabet_def)

lemma replace_append: "replace_char a b (s @ t) = replace_char a b s @ replace_char a b t"
  by (simp add: replace_char_def)

lemma cursor_codec:
  assumes laws: "base64_laws b" and ms: "0 < ck_archived_at_milliseconds c" "ck_archived_at_milliseconds c < 2 ^ 63"
    and id: "ck_archive_id c \<noteq> 0"
  shows "decode_archive_cursor b (encode_archive_cursor b c) = Some c"
proof -
  let ?bytes = "be_bytes (word_of_int (ck_archived_at_milliseconds c)) @ be_bytes (ck_archive_id c)"
  define e where "e = take 22 (b6_encode b ?bytes)"
  have len: "length (b6_encode b ?bytes) = 24" and alpha: "list_all base64_alphabet e"
    and pad: "drop 22 (b6_encode b ?bytes) = ''==''" and dec: "b6_decode b (b6_encode b ?bytes) = Some (?bytes @ [CHR 0x00, CHR 0x00])"
    using laws by (simp_all add: base64_laws_def e_def)
  have enc: "b6_encode b ?bytes = e @ ''==''" using pad append_take_drop_id [of 22 "b6_encode b ?bytes"] by (simp add: e_def)
  define u where "u = replace_char CHR ''/'' CHR ''_'' (replace_char CHR ''+'' CHR ''-'' e)"
  have u: "length u = 22" "list_all (\<lambda>c. is_upper c \<or> is_lower c \<or> is_digit c \<or> c = CHR ''-'' \<or> c = CHR ''_'') u"
    using len replaced_alphabet [OF alpha] by (simp_all add: u_def e_def replace_char_def)
  have "u \<noteq> []" using u(1) by auto
  then have "last u \<in> set u" by simp
  then have "last u \<noteq> CHR ''=''"
    using u(2) by (auto simp: list_all_iff is_upper_def is_lower_def is_digit_def)
  then have strip: "rev (dropWhile (\<lambda>c. c = CHR ''='') (rev (u @ ''==''))) = u"
    using \<open>u \<noteq> []\<close> by (cases u rule: rev_cases) auto
  have "encode_archive_cursor b c = rev (dropWhile (\<lambda>c. c = CHR ''='') (rev (u @ ''=='')))"
    by (simp add: encode_archive_cursor_def Let_def enc replace_append u_def) (simp add: replace_char_def)
  then have out: "encode_archive_cursor b c = u" using strip by simp
  have undone: "replace_char CHR ''_'' CHR ''/'' (replace_char CHR ''-'' CHR ''+'' (u @ ''=='')) = e @ ''==''"
    using replace_replace [OF alpha] by (simp add: replace_append u_def) (simp add: replace_char_def)
  have word: "word_of_int (ck_archived_at_milliseconds c) \<noteq> (0 :: u64)"
    "\<not> (word_of_int (ck_archived_at_milliseconds c) :: u64) > 0x7FFFFFFFFFFFFFFF"
    "sint (word_of_int (ck_archived_at_milliseconds c) :: u64) = ck_archived_at_milliseconds c"
    using ms by (simp_all add: word_less_def word_uint_eq_iff uint_word_of_int int_word_sint not_less)
  show ?thesis
    unfolding out decode_archive_cursor_def undone dec [unfolded enc]
    using u word id by simp
qed

section \<open>One page\<close>

text \<open>The order of the pages, and the rows a client may meet.\<close>

definition older :: "archive_entry \<Rightarrow> archive_entry \<Rightarrow> bool" where
  "older r s \<longleftrightarrow> row_time r < row_time s \<or> row_time r = row_time s \<and> ar_archive_id r < ar_archive_id s"

definition row_sound :: "archive_entry \<Rightarrow> bool" where
  "row_sound r \<longleftrightarrow> parse_entry_row r \<noteq> None \<and> 0 < row_time r \<and> row_time r < last_instant * 1000"

definition entry_of :: "archive_entry \<Rightarrow> archive_entry" where
  "entry_of r = the (parse_entry_row r)"

lemma older_trans: "older a b \<Longrightarrow> older b c \<Longrightarrow> older a c"
  by (auto simp: older_def)

lemma older_total: "ar_archive_id a \<noteq> ar_archive_id b \<Longrightarrow> older a b \<or> older b a"
  by (auto simp: older_def)

lemma not_older_self [simp]: "\<not> older a a"
  by (simp add: older_def)

lemma sorted_keys:
  "sorted_wrt (\<lambda>a b. (- row_time a, - int (unat (ar_archive_id a))) \<le> (- row_time b, - int (unat (ar_archive_id b)))) rows \<Longrightarrow>
   distinct (map ar_archive_id rows) \<Longrightarrow> sorted_wrt (\<lambda>a b. older b a) rows"
proof (induction rows)
  case (Cons a rows)
  have "older b a" if b: "b \<in> set rows" for b
  proof -
    have "ar_archive_id b \<noteq> ar_archive_id a" using Cons.prems(2) b by (auto simp: image_iff)
    moreover have "(- row_time a, - int (unat (ar_archive_id a))) \<le> (- row_time b, - int (unat (ar_archive_id b)))"
      using Cons.prems(1) b by simp
    then have "\<not> older a b" by (auto simp: older_def word_less_def less_eq_prod_def)
    ultimately show ?thesis using older_total by blast
  qed
  with Cons show ?case by simp
qed simp

lemma sorted_newest:
  assumes "distinct (map ar_archive_id rows)"
  shows "sorted_wrt (\<lambda>a b. older b a) (newest_first rows)" "set (newest_first rows) = set rows"
proof -
  let ?key = "\<lambda>r. (- row_time r, - int (unat (ar_archive_id r)))"
  show "set (newest_first rows) = set rows" by (simp add: newest_first_def)
  have "mset (map ar_archive_id (newest_first rows)) = mset (map ar_archive_id rows)"
    by (simp add: newest_first_def)
  then have d: "distinct (map ar_archive_id (newest_first rows))" using assms by (metis mset_eq_imp_distinct_iff)
  have "sorted (map ?key (newest_first rows))" by (simp add: newest_first_def)
  then have s: "sorted_wrt (\<lambda>a b. ?key a \<le> ?key b) (newest_first rows)" by (simp add: sorted_map)
  show "sorted_wrt (\<lambda>a b. older b a) (newest_first rows)"
    by (rule sorted_keys [OF s d])
qed

lemma entry_of_fields:
  assumes "row_sound r"
  shows "parse_entry_row r = Some (entry_of r)" "ar_archived_at_milliseconds (entry_of r) = row_time r"
    "ar_archive_id (entry_of r) = ar_archive_id r" "ar_archive_id r \<noteq> 0"
  using assms by (auto simp: row_sound_def entry_of_def parse_entry_row_def row_time_def sql_instant_def
      split: option.splits if_splits)

lemma sql_literal_value: "0 \<le> ms \<Longrightarrow> ms < last_instant * 1000 \<Longrightarrow> sql_literal ms = Some ms"
  by (simp add: sql_literal_def sql_instant_def mysql_round_trip parse_format_lemma)

text \<open>The cursor of a row: what follows it are the rows older than it.\<close>

definition row_cursor :: "archive_entry \<Rightarrow> archive_cursor" where
  "row_cursor r = \<lparr>ck_archived_at_milliseconds = row_time r, ck_archive_id = ar_archive_id r\<rparr>"

lemma after_row_cursor: "row_sound s \<Longrightarrow> after_cursor (row_cursor s) r \<longleftrightarrow> older r s"
  by (simp add: after_cursor_def row_cursor_def row_sound_def sql_literal_value older_def)

lemma row_cursor_codec:
  assumes "base64_laws b" "row_sound r"
  shows "decode_archive_cursor b (encode_archive_cursor b (row_cursor r)) = Some (row_cursor r)"
  using assms entry_of_fields(4) [OF assms(2)]
  by (intro cursor_codec) (auto simp: row_cursor_def row_sound_def last_instant_val)

text \<open>What a quiet server answers.\<close>

definition matching :: "archive_query \<Rightarrow> archive_entry list \<Rightarrow> archive_entry list" where
  "matching q rows = newest_first (filter (row_matches q) rows)"

lemma those_entries: "\<forall>r\<in>set rows. row_sound r \<Longrightarrow> those (map parse_entry_row rows) = Some (map entry_of rows)"
  by (induction rows) (simp_all add: entry_of_fields)

lemma list_quiet_page:
  fixes w :: "'w ds_world_scheme"
  assumes "st_events w = []" and lit: "literals_valid q" and size: "1 \<le> aq_page_size q"
    and sound: "\<forall>r\<in>set (ds_archives w). row_sound r"
  shows "list_archives q w = (Ret (Some \<lparr>pg_items = map entry_of (take (nat (aq_page_size q)) (matching q (ds_archives w))),
     pg_has_more = (nat (aq_page_size q) < length (matching q (ds_archives w)))\<rparr>), w)"
proof -
  let ?m = "matching q (ds_archives w)" and ?n = "nat (aq_page_size q)"
  have n: "nat (aq_page_size q + 1) = Suc ?n" using size by simp
  have "\<forall>r\<in>set (take (Suc ?n) ?m). row_sound r"
    using sound by (auto simp: matching_def newest_first_def dest!: in_set_takeD)
  note items = those_entries [OF this]
  have more: "int (min (length ?m) (Suc ?n)) > aq_page_size q \<longleftrightarrow> ?n < length ?m" using size by auto
  have sel: "select_page q (ds_archives w) = Some (take (Suc ?n) ?m)"
    using lit by (simp add: select_page_def matching_def n)
  show ?thesis
    using assms(1) more
    by (simp add: list_archives_def mysql_query_def next_event_def exec_simps sel items Let_def min.absorb1 not_less take_map)
qed

section \<open>All pages\<close>

text \<open>
  A client that follows the cursors: page \<open>i\<close> is answered by the service in the state \<open>W i\<close>; \<open>None\<close> when
  an answer is an error or the number of pages is used up.
\<close>

definition fetch_page :: "archive_query \<Rightarrow> 'w ds_world_scheme \<Rightarrow> archive_page option" where
  "fetch_page q w = (case fst ((list_archives q :: ('w ds_world_scheme, unit, archive_page option) proc) w) of
       Ret reply \<Rightarrow> reply
     | _ \<Rightarrow> None)"

fun browse ::
    "base64 \<Rightarrow> archive_query \<Rightarrow> (nat \<Rightarrow> 'w ds_world_scheme) \<Rightarrow> nat \<Rightarrow> nat \<Rightarrow> archive_entry list option" where
  "browse b q W i 0 = None"
| "browse b q W i (Suc pages) = (case fetch_page q (W i) of
       None \<Rightarrow> None
     | Some page \<Rightarrow> (case next_cursor b page of
           None \<Rightarrow> Some (pg_items page)
         | Some s \<Rightarrow> (case decode_archive_cursor b s of
               None \<Rightarrow> None
             | Some c \<Rightarrow> map_option (append (pg_items page)) (browse b (q\<lparr>aq_cursor := Some c\<rparr>) W (Suc i) pages))))"

text \<open>The archive only grows, within the rows \<open>R\<close>.\<close>

definition growing :: "(nat \<Rightarrow> 'w ds_world_scheme) \<Rightarrow> archive_entry list \<Rightarrow> bool" where
  "growing W R \<longleftrightarrow> (\<forall>i. st_events (W i) = [] \<and> distinct (map ar_archive_id (ds_archives (W i))) \<and>
     set (ds_archives (W 0)) \<subseteq> set (ds_archives (W i)) \<and> set (ds_archives (W i)) \<subseteq> set R) \<and>
     (\<forall>r\<in>set R. row_sound r)"

lemma row_matches_cursor:
  "row_matches q r \<longleftrightarrow> row_matches (q\<lparr>aq_cursor := None\<rparr>) r \<and>
     (case aq_cursor q of None \<Rightarrow> True | Some c \<Rightarrow> after_cursor c r)"
  by (simp add: row_matches_def conj_assoc)

lemma after_older: "after_cursor c s \<Longrightarrow> older r s \<Longrightarrow> after_cursor c r"
  by (auto simp: after_cursor_def older_def split: option.splits)

lemma cursor_matches:
  assumes "row_sound s" and "row_matches q s"
  shows "row_matches (q\<lparr>aq_cursor := Some (row_cursor s)\<rparr>) r \<longleftrightarrow> row_matches q r \<and> older r s"
proof -
  have "row_matches (q\<lparr>aq_cursor := Some (row_cursor s)\<rparr>) r \<longleftrightarrow> row_matches (q\<lparr>aq_cursor := None\<rparr>) r \<and> older r s"
    by (subst row_matches_cursor) (simp add: after_row_cursor [OF assms(1)])
  also have "\<dots> \<longleftrightarrow> row_matches q r \<and> older r s"
    using assms(2) after_older [of _ s r] by (subst (2) row_matches_cursor, subst (asm) row_matches_cursor) (auto split: option.splits)
  finally show ?thesis .
qed

lemma matching_facts:
  assumes "growing W R"
  shows "sorted_wrt (\<lambda>a b. older b a) (matching q (ds_archives (W i)))"
    "set (matching q (ds_archives (W i))) = {r \<in> set (ds_archives (W i)). row_matches q r}"
    "\<forall>r \<in> set (ds_archives (W i)). row_sound r"
proof -
  have d: "distinct (map ar_archive_id (ds_archives (W i)))" and sub: "set (ds_archives (W i)) \<subseteq> set R"
    and R: "\<forall>r \<in> set R. row_sound r" using assms by (simp_all add: growing_def)
  note sorted = sorted_newest [OF distinct_map_filter [OF d, of "row_matches q"]]
  show "sorted_wrt (\<lambda>a b. older b a) (matching q (ds_archives (W i)))" unfolding matching_def by (rule sorted(1))
  show "set (matching q (ds_archives (W i))) = {r \<in> set (ds_archives (W i)). row_matches q r}"
    unfolding matching_def sorted(2) by auto
  show "\<forall>r \<in> set (ds_archives (W i)). row_sound r" using sub R by blast
qed

lemma fetch_quiet:
  assumes "growing W R" and "literals_valid q" and "1 \<le> aq_page_size q"
  shows "fetch_page q (W i) = Some \<lparr>pg_items = map entry_of (take (nat (aq_page_size q)) (matching q (ds_archives (W i)))),
     pg_has_more = (nat (aq_page_size q) < length (matching q (ds_archives (W i))))\<rparr>"
proof -
  have "st_events (W i) = []" using assms(1) by (simp add: growing_def)
  then show ?thesis
    unfolding fetch_page_def by (simp add: list_quiet_page [OF _ assms(2,3) matching_facts(3) [OF assms(1)]])
qed

text \<open>What follows a page begins right after its last row.\<close>

lemma page_split:
  assumes sorted: "sorted_wrt (\<lambda>a b. older b a) rows" and n: "0 < n" "n < length rows"
  shows "r \<in> set rows \<Longrightarrow> r \<in> set (take n rows) \<or> older r (rows ! (n - 1))"
    "\<forall>r \<in> set (take n rows). r = rows ! (n - 1) \<or> older (rows ! (n - 1)) r"
    "last (take n rows) = rows ! (n - 1)" "rows ! (n - 1) \<in> set rows"
proof -
  have rel: "older (rows ! k) (rows ! j)" if "j < k" "k < length rows" for j k
    using sorted_wrt_nth_less [OF sorted that] by simp
  show "r \<in> set (take n rows) \<or> older r (rows ! (n - 1))" if "r \<in> set rows"
  proof -
    obtain k where k: "k < length rows" "rows ! k = r" using \<open>r \<in> set rows\<close> by (auto simp: in_set_conv_nth)
    show ?thesis
    proof (cases "k < n")
      case True
      then show ?thesis using k by (auto simp: in_set_conv_nth)
    next
      case False
      then show ?thesis using rel [of "n - 1" k] n k by auto
    qed
  qed
  show "\<forall>r \<in> set (take n rows). r = rows ! (n - 1) \<or> older (rows ! (n - 1)) r"
  proof
    fix r assume "r \<in> set (take n rows)"
    then obtain k where k: "k < n" "rows ! k = r" by (auto simp: in_set_conv_nth)
    show "r = rows ! (n - 1) \<or> older (rows ! (n - 1)) r"
      using rel [of k "n - 1"] k n by (cases "k = n - 1") auto
  qed
  have "take n rows \<noteq> []" using n by auto
  then show "last (take n rows) = rows ! (n - 1)" using n by (simp add: last_conv_nth del: take_eq_Nil take_eq_Nil2)
  show "rows ! (n - 1) \<in> set rows" using n by simp
qed

lemma browse_pages:
  assumes laws: "base64_laws b" and grow: "growing W R" and size: "1 \<le> aq_page_size q" and lit: "literals_valid q"
    and fuel: "card {r \<in> set R. row_matches q r} < pages"
  shows "\<exists>rows. browse b q W i pages = Some (map entry_of rows) \<and> sorted_wrt (\<lambda>a b. older b a) rows \<and>
    set rows \<subseteq> {r \<in> set R. row_matches q r} \<and> {r \<in> set (ds_archives (W 0)). row_matches q r} \<subseteq> set rows"
  using size lit fuel
proof (induction pages arbitrary: q i)
  case (Suc pages)
  let ?m = "matching q (ds_archives (W i))" and ?n = "nat (aq_page_size q)"
  note m = matching_facts(1,2) [OF grow, of q i] matching_facts(3) [OF grow, of i]
  have within: "set (ds_archives (W 0)) \<subseteq> set (ds_archives (W i))" "set (ds_archives (W i)) \<subseteq> set R"
    using grow by (simp_all add: growing_def)
  note page = fetch_quiet [OF grow Suc.prems(2,1), of i]
  have n: "0 < ?n" using Suc.prems(1) by simp
  show ?case
  proof (cases "?n < length ?m")
    case False
    then have "browse b q W i (Suc pages) = Some (map entry_of ?m)"
      by (simp add: page next_cursor_def)
    then show ?thesis using m(1,2) within by (intro exI [of _ ?m]) auto
  next
    case True
    define s where "s = ?m ! (?n - 1)"
    note split = page_split [OF m(1) n True, folded s_def]
    have s: "row_sound s" "row_matches q s" "s \<in> set R" using split(4) m(2,3) within by auto
    let ?q = "q\<lparr>aq_cursor := Some (row_cursor s)\<rparr>"
    have match: "row_matches ?q r \<longleftrightarrow> row_matches q r \<and> older r s" for r by (rule cursor_matches [OF s(1,2)])
    have "s \<in> {r \<in> set R. row_matches q r} - {r \<in> set R. row_matches ?q r}" using s match by simp
    moreover have "{r \<in> set R. row_matches ?q r} \<subseteq> {r \<in> set R. row_matches q r}" using match by auto
    ultimately have "{r \<in> set R. row_matches ?q r} \<subset> {r \<in> set R. row_matches q r}" by blast
    then have "card {r \<in> set R. row_matches ?q r} < card {r \<in> set R. row_matches q r}"
      by (intro psubset_card_mono) auto
    then have fuel: "card {r \<in> set R. row_matches ?q r} < pages" using Suc.prems(3) by simp
    have lit: "literals_valid ?q"
      using Suc.prems(2) s(1) by (simp add: literals_valid_def row_cursor_def row_sound_def sql_literal_value)
    obtain rest where rest: "browse b ?q W (Suc i) pages = Some (map entry_of rest)" "sorted_wrt (\<lambda>a b. older b a) rest"
      "set rest \<subseteq> {r \<in> set R. row_matches ?q r}" "{r \<in> set (ds_archives (W 0)). row_matches ?q r} \<subseteq> set rest"
      using Suc.IH [of ?q "Suc i"] Suc.prems(1) lit fuel by auto
    have last: "last (map entry_of (take ?n ?m)) = entry_of s" using n True split(3) by (subst last_map) auto
    have cursor: "next_cursor b \<lparr>pg_items = map entry_of (take ?n ?m), pg_has_more = True\<rparr> = Some (encode_archive_cursor b (row_cursor s))"
      using n True by (auto simp: next_cursor_def last entry_of_fields [OF s(1)] row_cursor_def)
    have run: "browse b q W i (Suc pages) = Some (map entry_of (take ?n ?m @ rest))"
      by (simp add: page True cursor row_cursor_codec [OF laws s(1)] rest(1))
    have below: "older y x" if "x \<in> set (take ?n ?m)" "y \<in> set rest" for x y
    proof -
      have "older y s" using rest(3) that(2) match by auto
      moreover have "x = s \<or> older s x" using split(2) that(1) by blast
      ultimately show ?thesis using older_trans [of y s x] by blast
    qed
    have ordered: "sorted_wrt (\<lambda>a b. older b a) (take ?n ?m @ rest)"
      using m(1) rest(2) below by (auto simp: sorted_wrt_append sorted_wrt_take)
    have all: "r \<in> set (take ?n ?m @ rest)" if r: "r \<in> set (ds_archives (W 0))" "row_matches q r" for r
    proof -
      have "r \<in> set ?m" using r within m(2) by auto
      then show ?thesis using split(1) rest(4) match r by auto
    qed
    have "set (take ?n ?m @ rest) \<subseteq> {r \<in> set R. row_matches q r}"
      using rest(3) match m(2) within by (auto dest: in_set_takeD)
    then show ?thesis using run ordered all by (intro exI [of _ "take ?n ?m @ rest"]) auto
  qed
qed simp

text \<open>
  C9: Following the cursors ends: with at most one page more than the archive ever has matching rows the client
  has a last page. It got every matching archive that was there when it began, nothing twice, newest first, and
  nothing that does not match, although archives may be added between two pages.
\<close>

theorem browse_terminates:
  assumes "base64_laws b" and "growing W R" and "1 \<le> aq_page_size q" and "literals_valid q"
  shows "\<exists>rows. browse b q W 0 (Suc (length R)) = Some (map entry_of rows) \<and> sorted_wrt (\<lambda>a b. older b a) rows \<and>
    distinct rows \<and> (\<forall>r \<in> set rows. r \<in> set R \<and> row_matches q r) \<and>
    (\<forall>r \<in> set (ds_archives (W 0)). row_matches q r \<longrightarrow> r \<in> set rows)"
proof -
  have "card {r \<in> set R. row_matches q r} \<le> card (set R)" by (intro card_mono) auto
  then have "card {r \<in> set R. row_matches q r} < Suc (length R)" using card_length [of R] by simp
  from browse_pages [OF assms this, of 0] obtain rows where
    rows: "browse b q W 0 (Suc (length R)) = Some (map entry_of rows)" "sorted_wrt (\<lambda>a b. older b a) rows"
      "set rows \<subseteq> {r \<in> set R. row_matches q r}" "{r \<in> set (ds_archives (W 0)). row_matches q r} \<subseteq> set rows"
    by blast
  have "distinct rows" using rows(2) by (induction rows) auto
  then show ?thesis using rows by (intro exI [of _ rows]) auto
qed

section \<open>A sample\<close>

text \<open>The Base64 coder over numbers: sixteen bytes are 22 digits of six bits, the last four bits zero.\<close>

fun base_digits :: "nat \<Rightarrow> nat \<Rightarrow> nat \<Rightarrow> nat list" where
  "base_digits B 0 n = []"
| "base_digits B (Suc k) n = base_digits B k (n div B) @ [n mod B]"

definition base_value :: "nat \<Rightarrow> nat list \<Rightarrow> nat" where
  "base_value B ds = foldl (\<lambda>v d. v * B + d) 0 ds"

lemma length_base_digits [simp]: "length (base_digits B k n) = k"
  by (induction k arbitrary: n) simp_all

lemma base_digits_less: "0 < B \<Longrightarrow> \<forall>d \<in> set (base_digits B k n). d < B"
  by (induction k arbitrary: n) auto

lemma base_value_digits: "n < B ^ k \<Longrightarrow> base_value B (base_digits B k n) = n"
proof (induction k arbitrary: n)
  case (Suc k)
  then have "n div B < B ^ k" by (simp add: less_mult_imp_div_less mult.commute)
  with Suc.IH show ?case by (simp add: base_value_def)
qed (simp add: base_value_def)

lemma base_digits_value: "\<forall>d \<in> set ds. d < B \<Longrightarrow> base_digits B (length ds) (base_value B ds) = ds \<and> base_value B ds < B ^ length ds"
proof (induction ds rule: rev_induct)
  case (snoc d ds)
  then have d: "d < B" "base_value B ds < B ^ length ds" by auto
  have "base_value B ds * B + d < B * B ^ length ds"
  proof -
    have "base_value B ds * B + d < (base_value B ds + 1) * B" using d(1) by simp
    also have "\<dots> \<le> B ^ length ds * B" using d(2) by (intro mult_right_mono) auto
    finally show ?thesis by (simp add: mult.commute)
  qed
  with snoc d show ?case by (simp add: base_value_def)
qed (simp add: base_value_def)

definition base64_char :: "nat \<Rightarrow> char" where
  "base64_char n = char_of (if n < 26 then 65 + n else if n < 52 then 71 + n else if n < 62 then n - 4 else if n = 62 then 43 else 47)"

definition base64_index :: "char \<Rightarrow> nat" where
  "base64_index c = (if is_upper c then byte c - 65 else if is_lower c then byte c - 71
     else if is_digit c then byte c + 4 else if byte c = 43 then 62 else 63)"

lemma base64_char_props: "n < 64 \<Longrightarrow> base64_index (base64_char n) = n \<and> base64_alphabet (base64_char n)"
proof -
  assume n: "n < 64"
  have byte: "byte (char_of m) = m" if "m < 256" for m :: nat using that by simp
  have marks: "char_of (43 :: nat) = CHR ''+''" "char_of (47 :: nat) = CHR ''/''" by (simp_all add: char_of_eq_iff)
  consider "n < 26" | "26 \<le> n" "n < 52" | "52 \<le> n" "n < 62" | "n = 62" | "n = 63" using n by linarith
  then show "base64_index (base64_char n) = n \<and> base64_alphabet (base64_char n)"
    by cases (simp_all add: base64_char_def base64_index_def base64_alphabet_def is_upper_def is_lower_def is_digit_def byte marks, linarith)
qed

definition sample_base64 :: base64 where
  "sample_base64 = \<lparr>
     b6_encode = (\<lambda>bytes. map base64_char (base_digits 64 22 (base_value 256 (map of_char bytes) * 16)) @ ''==''),
     b6_decode = (\<lambda>s. Some (map char_of (base_digits 256 16 (base_value 64 (map base64_index (take 22 s)) div 16)) @
       [CHR 0x00, CHR 0x00]))\<rparr>"

lemma sample_base64_laws: "base64_laws sample_base64"
  unfolding base64_laws_def
proof (intro allI impI)
  fix bytes :: string assume len: "length bytes = 16"
  let ?v = "base_value 256 (map of_char bytes)" and ?ds = "base_digits 64 22 (base_value 256 (map of_char bytes) * 16)"
  have v: "base_digits 256 16 ?v = map of_char bytes" "?v < 256 ^ 16"
    using base_digits_value [of "map of_char bytes" 256] len by auto
  have "?v * 16 < 64 ^ 22" using v(2) by simp
  then have back_again: "base_value 64 ?ds = ?v * 16" by (rule base_value_digits)
  have small: "\<forall>d \<in> set ?ds. d < 64" by (rule base_digits_less) simp
  then have "map base64_index (map base64_char ?ds) = ?ds" by (simp add: map_idI base64_char_props)
  moreover have "list_all base64_alphabet (map base64_char ?ds)" using small by (simp add: list_all_iff base64_char_props)
  ultimately show "length (b6_encode sample_base64 bytes) = 24 \<and> list_all base64_alphabet (take 22 (b6_encode sample_base64 bytes)) \<and>
     drop 22 (b6_encode sample_base64 bytes) = ''=='' \<and>
     b6_decode sample_base64 (b6_encode sample_base64 bytes) = Some (bytes @ [CHR 0x00, CHR 0x00])"
    by (simp add: sample_base64_def back_again v(1) del: base_digits.simps map_map) (simp add: comp_def)
qed

definition browse_row :: "u64 \<Rightarrow> archive_entry" where
  "browse_row n = \<lparr>ar_archive_id = n, ar_upload_id = ''u'', ar_line_id = ''L1'', ar_station_id = ''S1'', ar_device_id = ''D1'',
     ar_collector_id = ''C1'', ar_work_order = '''', ar_product_sn = '''', ar_file_type = ''RUNTIME_LOG'', ar_result = '''',
     ar_original_filename = ''a.log'', ar_relative_path = ''p'', ar_file_size = 3, ar_file_sha256 = replicate 64 CHR ''a'',
     ar_produced_at = format_mysql_milliseconds 1700000000000, ar_archived_at = format_mysql_milliseconds 1700000001000,
     ar_archived_at_milliseconds = 0\<rparr>"

definition browse_query :: archive_query where
  "browse_query = \<lparr>aq_device_id = ''D1'', aq_station_id = '''', aq_work_order = '''', aq_product_sn = '''', aq_file_type = '''',
     aq_result = '''', aq_archived_from = None, aq_archived_to = Some 1700000002000, aq_page_size = 1, aq_cursor = None\<rparr>"

text \<open>Archive 3 arrives after the first page.\<close>

definition browse_archives :: "nat \<Rightarrow> ds_world" where
  "browse_archives i = sample_ds_world\<lparr>st_events := [],
     ds_archives := (if i = 0 then [] else [browse_row 3]) @ [browse_row 1, browse_row 2]\<rparr>"

lemma browse_row_time: "row_time (browse_row n) = 1700000001000" "n \<noteq> 0 \<Longrightarrow> row_sound (browse_row n)"
  by (simp_all add: row_sound_def row_time_def sql_instant_def parse_entry_row_def browse_row_def mysql_round_trip
      parse_format_lemma last_instant_val)

theorem browse_terminates_witness:
  "\<exists>rows. browse sample_base64 browse_query browse_archives 0 4 = Some (map entry_of rows) \<and> distinct rows \<and>
     browse_row 1 \<in> set rows \<and> browse_row 2 \<in> set rows"
proof -
  have sound: "row_sound (browse_row 1)" "row_sound (browse_row 2)" "row_sound (browse_row 3)"
    by (simp_all add: browse_row_time)
  have "growing browse_archives [browse_row 1, browse_row 2, browse_row 3]"
    using sound by (simp add: growing_def browse_archives_def browse_row_def)
  moreover have "1 \<le> aq_page_size browse_query" "literals_valid browse_query"
    by (simp_all add: browse_query_def literals_valid_def sql_literal_value last_instant_val)
  moreover have "row_matches browse_query (browse_row n)" for n
    by (simp add: row_matches_def browse_query_def column_matches_def sql_equal_def sql_literal_value last_instant_val browse_row_time)
      (simp add: browse_row_def)
  ultimately show ?thesis
    using browse_terminates [OF sample_base64_laws, of browse_archives "[browse_row 1, browse_row 2, browse_row 3]" browse_query]
    by (auto simp: browse_archives_def eval_nat_numeral)
qed

end
