(* ===== verification/Auth_Replay.thy ===== *)
theory Auth_Replay
  imports Ingest_Config Collector_Requests
begin

text \<open>
  The authenticator under a loaded configuration. \<open>Device_Auth.no_replay\<close> needs entries that live longer
  than twice the tolerance; the loader only keeps them from being shorter than the tolerance. Here is the
  converse: with entries of at most twice the tolerance, every correctly signed request can be replayed.
\<close>

text \<open>The constructor of \<open>DeviceAuthenticator\<close>: the section \<open>auth\<close> and the prefix of the section \<open>redis\<close>.\<close>

definition authenticator_config :: "app_config \<Rightarrow> auth_config" where
  "authenticator_config app = \<lparr>ac_timestamp_tolerance_seconds = fst (ap_auth app),
     ac_request_id_ttl_seconds = snd (ap_auth app), ac_key_prefix = rd_key_prefix (ap_redis app)\<rparr>"

text \<open>A request as an enabled device signs it at its time \<open>seconds\<close>.\<close>

definition genuine :: "crypto \<Rightarrow> http_request \<Rightarrow> int \<Rightarrow> 'w ds_world_scheme \<Rightarrow> bool" where
  "genuine cr rq seconds w \<longleftrightarrow> list_all (has_header rq) required_headers \<and>
     is_smt_identifier (header rq ''X-Device-Id'') \<and> is_request_id (header rq ''X-Request-Id'') \<and>
     is_lower_hex_digest (header rq ''X-Content-SHA256'') \<and> is_lower_hex_digest (header rq ''X-Signature'') \<and>
     parse_unix_seconds (header rq ''X-Timestamp'') = Some seconds \<and>
     (\<exists>identity. joined_device (header rq ''X-Device-Id'') w = Some identity \<and> di_enabled identity \<and>
        signature_valid cr rq identity)"

lemma joined_device_cong: "ds_devices u = ds_devices w \<Longrightarrow> ds_stations u = ds_stations w \<Longrightarrow> ds_lines u = ds_lines w \<Longrightarrow>
    joined_device d u = joined_device d w"
  by (simp add: joined_device_def cong: option.case_cong)

text \<open>A genuine request that finds no live entry is granted and leaves its entry.\<close>

lemma genuine_granted:
  assumes "genuine cr rq seconds w" and "t = ds_clock w + int d"
    and "\<bar>unix_seconds t - seconds\<bar> \<le> ac_timestamp_tolerance_seconds cfg"
    and "\<not> rexists t (ds_redis w) (replay_entry cfg rq)"
  shows "\<exists>res. auth_step cr cfg (rq, [], [d]) w = (res, w\<lparr>st_events := [], ds_ticks := [], ds_clock := t,
      ds_redis := (ds_redis w)(replay_entry cfg rq \<mapsto> (Rstring (header rq ''X-Timestamp''),
        Some (t + ac_request_id_ttl_seconds cfg * 1000)))\<rparr>) \<and> granted res"
proof -
  obtain identity where row: "joined_device (header rq ''X-Device-Id'') w = Some identity" "di_enabled identity"
      "signature_valid cr rq identity"
    using assms(1) by (auto simp: genuine_def)
  have row': "joined_device (header rq ''X-Device-Id'') (w\<lparr>st_events := x, ds_clock := y, ds_ticks := z\<rparr>) = Some identity" for x y z
    using row(1) joined_device_cong [of "w\<lparr>st_events := x, ds_clock := y, ds_ticks := z\<rparr>" w] by simp
  show ?thesis
    using assms row(2,3) unfolding genuine_def auth_step_def prod.case authenticate_def Let_def replay_entry_def
    by (simp add: run_task current_unix_seconds_def read_clock_def lookup_device_def mysql_query_def row'
        replay_check_def redis_call_def redis_effect_def exec_simps next_event_def Let_def set_nx_ex_def
        advance_clock_def granted_def del: task_if)
qed

text \<open>
  C38: In a service with a loaded configuration whose entries live at most twice the tolerance (the shipped
  one: 600 and 300 seconds), every genuine request can be replayed: received when its timestamp lies the
  whole tolerance ahead and sent again after any delay from the lifetime of the entry to the end of the
  accepted window, it is granted both times.
\<close>

theorem replay_granted:
  assumes "load_app_config dj getenv content = Inr app"
    and "cfg = authenticator_config app"
    and "ac_request_id_ttl_seconds cfg \<le> 2 * ac_timestamp_tolerance_seconds cfg"
    and "genuine cr rq seconds w" and "\<not> rexists (ds_clock w) (ds_redis w) (replay_entry cfg rq)"
    and "ds_clock w = 1000 * (seconds - ac_timestamp_tolerance_seconds cfg)"
    and "ac_timestamp_tolerance_seconds cfg \<le> seconds"
    and "1000 * ac_request_id_ttl_seconds cfg \<le> int delay"
    and "int delay < 2000 * ac_timestamp_tolerance_seconds cfg + 1000"
  shows "map granted (auth_run cr cfg [(rq, [], [0]), (rq, [], [delay])] w) = [True, True]"
proof -
  let ?e = "replay_entry cfg rq" and ?tol = "ac_timestamp_tolerance_seconds cfg"
  have tol: "0 \<le> ?tol"
    using load_app_config_times [OF assms(1)] assms(2) by (simp add: authenticator_config_def auth_times_ok_def)
  have clock: "0 \<le> ds_clock w" "ds_clock w div 1000 = seconds - ?tol" using assms(6,7) by simp_all
  have first: "\<bar>unix_seconds (ds_clock w) - seconds\<bar> \<le> ?tol" using clock tol by (simp add: unix_seconds_nonneg)
  have "ds_clock w = ds_clock w + int 0" by simp
  from genuine_granted [OF assms(4) this first assms(5)] obtain res where
    u: "auth_step cr cfg (rq, [], [0]) w = (res, w\<lparr>st_events := [], ds_ticks := [], ds_clock := ds_clock w,
      ds_redis := (ds_redis w)(?e \<mapsto> (Rstring (header rq ''X-Timestamp''),
        Some (ds_clock w + ac_request_id_ttl_seconds cfg * 1000)))\<rparr>)" (is "_ = (_, ?u)") "granted res" by blast
  have at: "ds_clock ?u = ds_clock w" "ds_redis ?u = (ds_redis w)(?e \<mapsto> (Rstring (header rq ''X-Timestamp''),
        Some (ds_clock w + ac_request_id_ttl_seconds cfg * 1000)))" by simp_all
  have rows: "joined_device d ?u = joined_device d w" for d by (rule joined_device_cong) simp_all
  have "genuine cr rq seconds ?u" using assms(4) unfolding genuine_def rows .
  moreover have "\<bar>unix_seconds (ds_clock ?u + int delay) - seconds\<bar> \<le> ?tol"
    using clock tol assms(6,9) unfolding at(1) by (simp add: unix_seconds_nonneg)
  moreover have "\<not> rexists (ds_clock ?u + int delay) (ds_redis ?u) ?e"
    using assms(8) unfolding at by (simp add: rexists_def live_def)
  ultimately obtain res' v where "auth_step cr cfg (rq, [], [delay]) ?u = (res', v)" "granted res'"
    using genuine_granted [OF _ refl] by blast
  with u show ?thesis by (simp only: auth_run.simps prod.case list.map)
qed

section \<open>A sample\<close>

text \<open>Digests that depend on what is hashed and signed.\<close>

definition mixing_crypto :: crypto where
  "mixing_crypto = \<lparr>cr_sha256 = (\<lambda>d. take 32 (rev d @ replicate 32 CHR ''a'')),
     cr_hmac = (\<lambda>k d. take 32 (rev d @ k @ replicate 32 CHR ''b''))\<rparr>"

text \<open>A request of the collector whose clock is 300 seconds ahead of the service's.\<close>

definition ahead_request :: http_request where
  "ahead_request = signed_request mixing_crypto (uuid_of_bytes (replicate 16 CHR ''r'')) 1700000300 ''GET'' ''/'' [] []
     sample_collector_device"

definition registered_world :: ds_world where
  "registered_world = sample_ds_world\<lparr>ds_clock := 1700000000000,
     ds_devices := map (\<lambda>d. d\<lparr>dv_hmac_secret := cr_sha256 mixing_crypto (cd_secret sample_collector_device)\<rparr>)
       (ds_devices sample_ds_world)\<rparr>"

lemma ahead_genuine: "genuine mixing_crypto ahead_request 1700000300 registered_world"
proof -
  have cr: "digest_lengths mixing_crypto" by (auto simp: digest_lengths_def mixing_crypto_def)
  obtain identity where row: "joined_device (cd_device_id sample_collector_device) registered_world = Some identity"
    "di_enabled identity" "di_hmac_secret identity = cr_sha256 mixing_crypto (cd_secret sample_collector_device)"
    by (simp add: joined_device_def registered_world_def sample_ds_world_def sample_collector_device_def)
  have id: "is_smt_identifier (cd_device_id sample_collector_device)"
    by (simp add: sample_collector_device_def is_smt_identifier_def is_upper_def is_digit_def)
  show ?thesis
    unfolding genuine_def ahead_request_def signed_request_fields
    using row signed_request_valid [OF row(3)]
    by (simp add: id collector_request_id [of "replicate 16 CHR ''r''", simplified] digests_well_formed [OF cr]
        parse_unix_seconds_print)
qed

theorem replay_granted_witness:
  "\<exists>app. load_app_config (ds_sample_json [(''{C}'', sample_config_json)]) sample_environment (Some ''{C}'') = Inr app \<and>
     ap_auth app = (300, 600) \<and>
     map granted (auth_run mixing_crypto (authenticator_config app)
       [(ahead_request, [], [0]), (ahead_request, [], [600500])] registered_world) = [True, True]"
proof -
  obtain app where app: "load_app_config (ds_sample_json [(''{C}'', sample_config_json)]) sample_environment (Some ''{C}'') = Inr app"
      "ap_auth app = (300, 600)"
    using sample_config_loads by blast
  have times: "ac_timestamp_tolerance_seconds (authenticator_config app) = 300"
      "ac_request_id_ttl_seconds (authenticator_config app) = 600"
    by (simp_all add: authenticator_config_def app(2))
  have fresh: "\<not> rexists (ds_clock registered_world) (ds_redis registered_world) k" for k
    by (simp add: rexists_def live_def registered_world_def sample_ds_world_def)
  show ?thesis
    using app replay_granted [OF app(1) refl _ ahead_genuine fresh, of 600500] unfolding times
    by (simp add: registered_world_def)
qed

end
