(* ===== verification/Trace_Config.thy ===== *)
theory Trace_Config
  imports Config_Fields Search_Service
begin

text \<open>
  The configuration of LogTrace and its strict loader (\<open>config/app_config.cpp\<close> of LogTrace), one definition per
  section of the file. What loads is within the limits the caches, the indexer and the gateway rely on.
\<close>

section \<open>The configuration\<close>

record gateway_config =
  gw_listen_address :: string
  gw_port :: "16 word"
  gw_request_body_limit_bytes :: u64
  gw_rpc_host :: string
  gw_rpc_port :: "16 word"
  gw_rpc_timeout_ms :: int
  gw_operator_token_env :: string
  gw_operator_token :: string

record trace_mysql =
  tm_host :: string
  tm_port :: "16 word"
  tm_database :: string
  tm_user :: string
  tm_password_env :: string
  tm_password :: string

record trace_redis =
  tr_host :: string
  tr_port :: "16 word"
  tr_database :: int
  tr_username :: string
  tr_password_env :: string
  tr_password :: string
  tr_key_prefix :: string

record trace_indexing =
  ti_poll_interval_ms :: int
  ti_source_batch_limit :: u64
  ti_document_batch_limit :: u64
  ti_max_line_bytes :: u64

record trace_cache =
  tc_probation_capacity :: u64
  tc_protected_capacity :: u64
  tc_max_detail_bytes :: u64
  tc_times :: cache_config

record trace_logging =
  tl_level :: string
  tl_gateway_file :: string
  tl_search_file :: string
  tl_max_file_size_bytes :: u64
  tl_max_files :: u64

record trace_config =
  tg_gateway :: gateway_config
  tg_search_rpc :: "string \<times> 16 word"
  tg_source_mysql :: trace_mysql
  tg_state_mysql :: trace_mysql
  tg_redis :: trace_redis
  tg_storage :: "string \<times> string"
  tg_check_timeout_ms :: int
  tg_indexing :: trace_indexing
  tg_cache :: trace_cache
  tg_logging :: trace_logging

section \<open>The loader\<close>

definition port_field :: "'j ds_json \<Rightarrow> 'j \<Rightarrow> string \<Rightarrow> string \<Rightarrow> (16 word) checked" where
  "port_field dj v key context = checked_bind (require_unsigned dj v key 1 65535 context) (\<lambda>n. Inr (ucast n))"

definition gateway_keys :: "string list" where
  "gateway_keys = [''listen_address'', ''port'', ''request_body_limit_bytes'', ''rpc_host'', ''rpc_port'',
     ''rpc_timeout_ms'', ''operator_token_env'']"

definition load_gateway :: "'j ds_json \<Rightarrow> (string \<Rightarrow> string option) \<Rightarrow> 'j \<Rightarrow> gateway_config checked" where
  "load_gateway dj getenv v =
     require_exact_keys dj v gateway_keys ''gateway''
     (checked_bind (require_string dj v ''listen_address'' ''gateway'') (\<lambda>address.
      checked_bind (port_field dj v ''port'' ''gateway'') (\<lambda>port.
      checked_bind (require_unsigned dj v ''request_body_limit_bytes'' 1 (16 * 1024 * 1024) ''gateway'') (\<lambda>limit.
      checked_bind (require_string dj v ''rpc_host'' ''gateway'') (\<lambda>rpc_host.
      checked_bind (port_field dj v ''rpc_port'' ''gateway'') (\<lambda>rpc_port.
      checked_bind (require_int dj v ''rpc_timeout_ms'' 50 30000 ''gateway'') (\<lambda>timeout.
      checked_bind (require_string dj v ''operator_token_env'' ''gateway'') (\<lambda>env.
      ensure (is_simple_identifier env) ''gateway.operator_token_env is invalid''
     (checked_bind (require_environment getenv env ''gateway.operator_token_env'') (\<lambda>token.
      ensure (is_simple_host address \<and> is_simple_host rpc_host) ''gateway address has invalid characters''
        (Inr \<lparr>gw_listen_address = address, gw_port = port, gw_request_body_limit_bytes = limit, gw_rpc_host = rpc_host,
           gw_rpc_port = rpc_port, gw_rpc_timeout_ms = timeout, gw_operator_token_env = env, gw_operator_token = token\<rparr>)))))))))))"

definition load_search_rpc :: "'j ds_json \<Rightarrow> 'j \<Rightarrow> (string \<times> 16 word) checked" where
  "load_search_rpc dj v =
     require_exact_keys dj v [''listen_address'', ''port''] ''search_rpc''
     (checked_bind (require_string dj v ''listen_address'' ''search_rpc'') (\<lambda>address.
      checked_bind (port_field dj v ''port'' ''search_rpc'') (\<lambda>port.
      ensure (is_simple_host address) ''search_rpc.listen_address has invalid characters'' (Inr (address, port)))))"

definition load_trace_mysql :: "'j ds_json \<Rightarrow> (string \<Rightarrow> string option) \<Rightarrow> 'j \<Rightarrow> string \<Rightarrow> trace_mysql checked" where
  "load_trace_mysql dj getenv v context =
     require_exact_keys dj v [''host'', ''port'', ''database'', ''user'', ''password_env''] context
     (checked_bind (require_string dj v ''host'' context) (\<lambda>host.
      checked_bind (port_field dj v ''port'' context) (\<lambda>port.
      checked_bind (require_string dj v ''database'' context) (\<lambda>database.
      checked_bind (require_string dj v ''user'' context) (\<lambda>user.
      checked_bind (require_string dj v ''password_env'' context) (\<lambda>env.
      ensure (is_simple_host host \<and> is_simple_identifier database \<and> is_simple_identifier user \<and> is_simple_identifier env)
        (context @ '' host, database, user, or password_env is invalid'')
     (checked_bind (require_environment getenv env (context @ ''.password_env'')) (\<lambda>password.
      Inr \<lparr>tm_host = host, tm_port = port, tm_database = database, tm_user = user, tm_password_env = env,
        tm_password = password\<rparr>))))))))"

definition load_trace_redis :: "'j ds_json \<Rightarrow> (string \<Rightarrow> string option) \<Rightarrow> 'j \<Rightarrow> trace_redis checked" where
  "load_trace_redis dj getenv v =
     require_exact_keys dj v [''host'', ''port'', ''database'', ''username'', ''password_env'', ''key_prefix''] ''redis''
     (checked_bind (require_string dj v ''host'' ''redis'') (\<lambda>host.
      checked_bind (port_field dj v ''port'' ''redis'') (\<lambda>port.
      checked_bind (require_int dj v ''database'' 0 15 ''redis'') (\<lambda>database.
      checked_bind (require_string dj v ''username'' ''redis'') (\<lambda>username.
      checked_bind (require_string dj v ''key_prefix'' ''redis'') (\<lambda>key_prefix.
      ensure (is_simple_host host \<and> is_redis_username username) ''redis host or username has invalid characters''
     (checked_bind (config_member dj v ''password_env'') (\<lambda>env_json.
      checked_bind (if dj_is_null dj env_json then Inr ('''', '''')
        else checked_bind (require_string dj v ''password_env'' ''redis'') (\<lambda>env.
          ensure (is_simple_identifier env) ''redis.password_env is invalid''
         (checked_bind (require_environment getenv env ''redis.password_env'') (\<lambda>password. Inr (env, password)))))
        (\<lambda>(env, password).
      Inr \<lparr>tr_host = host, tr_port = port, tr_database = database, tr_username = username, tr_password_env = env,
        tr_password = password, tr_key_prefix = key_prefix\<rparr>)))))))))"

definition load_storage :: "'j ds_json \<Rightarrow> 'j \<Rightarrow> (string \<times> string) checked" where
  "load_storage dj v =
     require_exact_keys dj v [''archive_root'', ''index_root''] ''storage''
     (checked_bind (require_string dj v ''archive_root'' ''storage'') (\<lambda>archive_root.
      checked_bind (require_string dj v ''index_root'' ''storage'') (\<lambda>index_root.
      ensure (archive_root \<noteq> index_root) ''storage.archive_root and storage.index_root must differ''
        (Inr (archive_root, index_root)))))"

definition load_indexing :: "'j ds_json \<Rightarrow> 'j \<Rightarrow> trace_indexing checked" where
  "load_indexing dj v =
     require_exact_keys dj v [''poll_interval_ms'', ''source_batch_limit'', ''document_batch_limit'', ''max_line_bytes''] ''indexing''
     (checked_bind (require_int dj v ''poll_interval_ms'' 100 60000 ''indexing'') (\<lambda>poll.
      checked_bind (require_unsigned dj v ''source_batch_limit'' 1 100 ''indexing'') (\<lambda>source_limit.
      checked_bind (require_unsigned dj v ''document_batch_limit'' 1 100000 ''indexing'') (\<lambda>document_limit.
      checked_bind (require_unsigned dj v ''max_line_bytes'' 256 (1024 * 1024) ''indexing'') (\<lambda>line_bytes.
      Inr \<lparr>ti_poll_interval_ms = poll, ti_source_batch_limit = source_limit, ti_document_batch_limit = document_limit,
        ti_max_line_bytes = line_bytes\<rparr>)))))"

definition cache_keys :: "string list" where
  "cache_keys = [''probation_capacity'', ''protected_capacity'', ''max_detail_bytes'', ''active_window_seconds'',
     ''active_ttl_seconds'', ''active_empty_ttl_seconds'', ''historical_ttl_seconds'', ''historical_empty_ttl_seconds'']"

definition load_cache :: "'j ds_json \<Rightarrow> 'j \<Rightarrow> trace_cache checked" where
  "load_cache dj v =
     require_exact_keys dj v cache_keys ''cache''
     (checked_bind (require_unsigned dj v ''probation_capacity'' 1 1000000 ''cache'') (\<lambda>probation_cap.
      checked_bind (require_unsigned dj v ''protected_capacity'' 1 1000000 ''cache'') (\<lambda>protected_cap.
      checked_bind (require_unsigned dj v ''max_detail_bytes'' 256 (1024 * 1024) ''cache'') (\<lambda>detail_bytes.
      checked_bind (require_int dj v ''active_window_seconds'' 60 86400 ''cache'') (\<lambda>window.
      checked_bind (require_int dj v ''active_ttl_seconds'' 1 3600 ''cache'') (\<lambda>active.
      checked_bind (require_int dj v ''active_empty_ttl_seconds'' 1 3600 ''cache'') (\<lambda>active_empty.
      checked_bind (require_int dj v ''historical_ttl_seconds'' 1 86400 ''cache'') (\<lambda>historical.
      checked_bind (require_int dj v ''historical_empty_ttl_seconds'' 1 86400 ''cache'') (\<lambda>historical_empty.
      Inr \<lparr>tc_probation_capacity = probation_cap, tc_protected_capacity = protected_cap,
        tc_max_detail_bytes = detail_bytes, tc_times = \<lparr>cc_active_window_seconds = window, cc_active_ttl_seconds = active,
          cc_active_empty_ttl_seconds = active_empty, cc_historical_ttl_seconds = historical,
          cc_historical_empty_ttl_seconds = historical_empty\<rparr>\<rparr>)))))))))"

definition load_trace_logging :: "'j ds_json \<Rightarrow> 'j \<Rightarrow> trace_logging checked" where
  "load_trace_logging dj v =
     require_exact_keys dj v [''level'', ''gateway_file'', ''search_file'', ''max_file_size_bytes'', ''max_files''] ''logging''
     (checked_bind (require_string dj v ''level'' ''logging'') (\<lambda>level.
      checked_bind (require_string dj v ''gateway_file'' ''logging'') (\<lambda>gateway_file.
      checked_bind (require_string dj v ''search_file'' ''logging'') (\<lambda>search_file.
      checked_bind (require_unsigned dj v ''max_file_size_bytes'' (1024 * 1024) (1024 * 1024 * 1024) ''logging'') (\<lambda>size.
      checked_bind (require_unsigned dj v ''max_files'' 1 100 ''logging'') (\<lambda>files.
      ensure (supported_log_level level) ''logging.level is not supported''
     (ensure (gateway_file \<noteq> search_file) ''gateway and search logs must use different files''
        (Inr \<lparr>tl_level = level, tl_gateway_file = gateway_file, tl_search_file = search_file,
           tl_max_file_size_bytes = size, tl_max_files = files\<rparr>))))))))"

definition trace_keys :: "string list" where
  "trace_keys = [''gateway'', ''search_rpc'', ''source_mysql'', ''state_mysql'', ''redis'', ''storage'', ''health'',
     ''indexing'', ''cache'', ''logging'']"

definition load_trace_config ::
    "'j ds_json \<Rightarrow> (string \<Rightarrow> string option) \<Rightarrow> string option \<Rightarrow> trace_config checked" where
  "load_trace_config dj getenv content = (case content of
       None \<Rightarrow> Inl ''cannot open config file: ''
     | Some c \<Rightarrow> (case dj_read dj c of None \<Rightarrow> Inl ''invalid config JSON: '' | Some json \<Rightarrow>
     require_exact_keys dj json trace_keys ''config''
     (checked_bind (config_member dj json ''gateway'') (\<lambda>gateway_json.
      checked_bind (load_gateway dj getenv gateway_json) (\<lambda>gateway.
      checked_bind (config_member dj json ''search_rpc'') (\<lambda>rpc_json.
      checked_bind (load_search_rpc dj rpc_json) (\<lambda>search_rpc.
      checked_bind (config_member dj json ''source_mysql'') (\<lambda>source_json.
      checked_bind (load_trace_mysql dj getenv source_json ''source_mysql'') (\<lambda>source_mysql.
      checked_bind (config_member dj json ''state_mysql'') (\<lambda>state_json.
      checked_bind (load_trace_mysql dj getenv state_json ''state_mysql'') (\<lambda>state_mysql.
      ensure (\<not> (tm_host source_mysql = tm_host state_mysql \<and> tm_port source_mysql = tm_port state_mysql \<and>
          tm_database source_mysql = tm_database state_mysql)) ''source_mysql and state_mysql must use different databases''
     (checked_bind (config_member dj json ''redis'') (\<lambda>redis_json.
      checked_bind (load_trace_redis dj getenv redis_json) (\<lambda>redis.
      checked_bind (config_member dj json ''storage'') (\<lambda>storage_json.
      checked_bind (load_storage dj storage_json) (\<lambda>storage.
      checked_bind (config_member dj json ''health'') (\<lambda>health.
      require_exact_keys dj health [''check_timeout_ms''] ''health''
     (checked_bind (require_int dj health ''check_timeout_ms'' 50 30000 ''health'') (\<lambda>check_timeout.
      checked_bind (config_member dj json ''indexing'') (\<lambda>indexing_json.
      checked_bind (load_indexing dj indexing_json) (\<lambda>indexing.
      checked_bind (config_member dj json ''cache'') (\<lambda>cache_json.
      checked_bind (load_cache dj cache_json) (\<lambda>cache.
      checked_bind (config_member dj json ''logging'') (\<lambda>logging_json.
      checked_bind (load_trace_logging dj logging_json) (\<lambda>logging.
      Inr \<lparr>tg_gateway = gateway, tg_search_rpc = search_rpc, tg_source_mysql = source_mysql, tg_state_mysql = state_mysql,
        tg_redis = redis, tg_storage = storage, tg_check_timeout_ms = check_timeout, tg_indexing = indexing,
        tg_cache = cache, tg_logging = logging\<rparr>)))))))))))))))))))))))))"

section \<open>What a loaded configuration satisfies\<close>

definition cache_ok :: "trace_cache \<Rightarrow> bool" where
  "cache_ok c \<longleftrightarrow> 0 < tc_probation_capacity c \<and> 0 < tc_protected_capacity c \<and>
     tc_probation_capacity c \<le> 1000000 \<and> tc_protected_capacity c \<le> 1000000 \<and>
     0 < cc_active_ttl_seconds (tc_times c) \<and> 0 < cc_active_empty_ttl_seconds (tc_times c) \<and>
     0 < cc_historical_ttl_seconds (tc_times c) \<and> 0 < cc_historical_empty_ttl_seconds (tc_times c)"

definition indexing_ok :: "trace_indexing \<Rightarrow> bool" where
  "indexing_ok i \<longleftrightarrow> 100 \<le> ti_poll_interval_ms i \<and> 1 \<le> ti_source_batch_limit i \<and> ti_source_batch_limit i \<le> 100 \<and>
     1 \<le> ti_document_batch_limit i \<and> ti_document_batch_limit i \<le> 100000 \<and>
     256 \<le> ti_max_line_bytes i \<and> ti_max_line_bytes i \<le> 2 ^ 20"

definition same_database :: "trace_mysql \<Rightarrow> trace_mysql \<Rightarrow> bool" where
  "same_database a b \<longleftrightarrow> tm_host a = tm_host b \<and> tm_port a = tm_port b \<and> tm_database a = tm_database b"

definition trace_config_ok :: "trace_config \<Rightarrow> bool" where
  "trace_config_ok cfg \<longleftrightarrow> cache_ok (tg_cache cfg) \<and> indexing_ok (tg_indexing cfg) \<and>
     \<not> same_database (tg_source_mysql cfg) (tg_state_mysql cfg) \<and> fst (tg_storage cfg) \<noteq> snd (tg_storage cfg) \<and>
     gw_request_body_limit_bytes (tg_gateway cfg) \<le> 2 ^ 24 \<and> gw_operator_token (tg_gateway cfg) \<noteq> ''''"

lemma load_indexing_ok:
  assumes "load_indexing dj v = Inr i"
  shows "indexing_ok i"
proof -
  obtain p s d l where f: "require_int dj v ''poll_interval_ms'' 100 60000 ''indexing'' = Inr p"
    "require_unsigned dj v ''source_batch_limit'' 1 100 ''indexing'' = Inr s"
    "require_unsigned dj v ''document_batch_limit'' 1 100000 ''indexing'' = Inr d"
    "require_unsigned dj v ''max_line_bytes'' 256 (1024 * 1024) ''indexing'' = Inr l"
    and i: "\<lparr>ti_poll_interval_ms = p, ti_source_batch_limit = s, ti_document_batch_limit = d, ti_max_line_bytes = l\<rparr> = i"
    using assms unfolding load_indexing_def config_simps sum.inject by - (elim exE conjE, rule that, assumption+)
  show ?thesis
    using require_int_bounds [OF f(1)] require_unsigned_bounds [OF f(2)] require_unsigned_bounds [OF f(3)]
      require_unsigned_bounds [OF f(4)] unfolding i [symmetric] by (simp add: indexing_ok_def)
qed

lemma load_cache_ok:
  assumes "load_cache dj v = Inr c"
  shows "cache_ok c"
proof -
  obtain a b m w p q r s where f: "require_unsigned dj v ''probation_capacity'' 1 1000000 ''cache'' = Inr a"
    "require_unsigned dj v ''protected_capacity'' 1 1000000 ''cache'' = Inr b"
    "require_int dj v ''active_ttl_seconds'' 1 3600 ''cache'' = Inr p"
    "require_int dj v ''active_empty_ttl_seconds'' 1 3600 ''cache'' = Inr q"
    "require_int dj v ''historical_ttl_seconds'' 1 86400 ''cache'' = Inr r"
    "require_int dj v ''historical_empty_ttl_seconds'' 1 86400 ''cache'' = Inr s"
    and c: "\<lparr>tc_probation_capacity = a, tc_protected_capacity = b, tc_max_detail_bytes = m,
        tc_times = \<lparr>cc_active_window_seconds = w, cc_active_ttl_seconds = p, cc_active_empty_ttl_seconds = q,
          cc_historical_ttl_seconds = r, cc_historical_empty_ttl_seconds = s\<rparr>\<rparr> = c"
    using assms unfolding load_cache_def config_simps sum.inject by - (elim exE conjE, rule that, assumption+)
  have "0 < a" "0 < b" using require_unsigned_bounds [OF f(1)] require_unsigned_bounds [OF f(2)]
    by (simp_all add: word_less_nat_alt word_le_nat_alt)
  then show ?thesis
    using require_unsigned_bounds [OF f(1)] require_unsigned_bounds [OF f(2)] require_int_bounds [OF f(3)]
      require_int_bounds [OF f(4)] require_int_bounds [OF f(5)] require_int_bounds [OF f(6)]
    unfolding c [symmetric] by (simp add: cache_ok_def)
qed

lemma require_environment_Inr: "require_environment getenv name label = Inr s \<Longrightarrow> s \<noteq> ''''"
  by (auto simp: require_environment_def split: option.splits if_splits)

lemma load_gateway_ok:
  assumes "load_gateway dj getenv v = Inr g"
  shows "gw_request_body_limit_bytes g \<le> 2 ^ 24 \<and> gw_operator_token g \<noteq> ''''"
proof -
  obtain a p l h q t e k where f: "require_unsigned dj v ''request_body_limit_bytes'' 1 (16 * 1024 * 1024) ''gateway'' = Inr l"
    "require_environment getenv e ''gateway.operator_token_env'' = Inr k"
    and g: "\<lparr>gw_listen_address = a, gw_port = p, gw_request_body_limit_bytes = l, gw_rpc_host = h,
           gw_rpc_port = q, gw_rpc_timeout_ms = t, gw_operator_token_env = e, gw_operator_token = k\<rparr> = g"
    using assms unfolding load_gateway_def config_simps sum.inject by - (elim exE conjE, rule that, assumption+)
  show ?thesis
    using require_unsigned_bounds [OF f(1)] require_environment_Inr [OF f(2)] unfolding g [symmetric] by simp
qed

lemma load_storage_ok: "load_storage dj v = Inr s \<Longrightarrow> fst s \<noteq> snd s"
  unfolding load_storage_def config_simps sum.inject by (elim exE conjE, hypsubst) simp

text \<open>
  A loaded configuration is within the limits of the caches, the indexer and the gateway, and never has the
  source database for its own state, nor one directory for archives and index.
\<close>

lemma load_trace_config_ok:
  assumes "load_trace_config dj getenv content = Inr cfg"
  shows "trace_config_ok cfg"
proof -
  obtain g s i c where
    parts: "load_gateway dj getenv g = Inr (tg_gateway cfg)" "load_storage dj s = Inr (tg_storage cfg)"
      "load_indexing dj i = Inr (tg_indexing cfg)" "load_cache dj c = Inr (tg_cache cfg)"
      "\<not> same_database (tg_source_mysql cfg) (tg_state_mysql cfg)"
    using assms by (auto simp: load_trace_config_def config_simps same_database_def split: option.splits)
  show ?thesis
    using load_gateway_ok [OF parts(1)] load_storage_ok [OF parts(2)] load_indexing_ok [OF parts(3)]
      load_cache_ok [OF parts(4)] parts(5) by (simp add: trace_config_ok_def)
qed

end
