(* ===== verification/Spec2Isabelle.thy ===== *)
theory Spec2Isabelle
  imports Search_Gateway Search_Runs Slru_Cache Time_Utils Tokenizer Segment_Complete Parsed_Batch_Files Segment_Acceptance Index_Runs Batch_Lifecycle Ingest_Service Collector_Safety Collector_Requests Archive_Paging Auth_Replay Trace_Config
begin

text \<open>
  A verification library of the SMT log platform: DataStream (\<open>src/01_SMT_DataStream\<close>), which
  collects and archives device logs, and LogTrace (\<open>src/02_SMT_LogTrace\<close>), which indexes the
  archives and searches them.
\<close>

end
